(* ===== verification/Prelude.thy ===== *)
theory Prelude
  imports Main "HOL-Library.Word" "HOL-Library.Char_ord" "HOL-Library.List_Lexorder"
    "HOL-Library.Product_Lexorder" "HOL-Library.Sublist"
begin

text \<open>
  Vocabulary shared by every theory of the development.

  A Rust \<open>str\<close> is modelled as the list of its UTF-8 bytes, with Isabelle's \<open>char\<close> as the byte:
  \<open>len()\<close> is \<open>length\<close>, the \<open>Ord\<close> instance of \<open>str\<close> is the lexicographic order of
  \<open>HOL-Library.List_Lexorder\<close>, and byte offsets are list positions. Fixed-width integers are words
  (\<open>u8\<close>, \<open>u32\<close>, \<open>u64\<close>) where only their value is printed or compared, and \<open>nat\<close> with the saturation
  written out where the source calls \<open>saturating_add\<close> or \<open>saturating_sub\<close>. A Rust \<open>Result\<close> is a sum
  with the error on the left.

  The collections declared here gather facts for the component proofs: \<open>str_simps\<close> for the string
  primitives, \<open>len_simps\<close> for length bounds.
\<close>

named_theorems str_simps \<open>equations of the string primitives\<close>
named_theorems len_simps \<open>length facts of the string primitives\<close>

type_synonym u8 = "8 word"
type_synonym u16 = "16 word"
type_synonym u32 = "32 word"
type_synonym u64 = "64 word"

subsection \<open>Results\<close>

text \<open>The \<open>?\<close> operator: continue with the value, or return the error.\<close>

definition bind_res :: "'e + 'a \<Rightarrow> ('a \<Rightarrow> 'e + 'b) \<Rightarrow> 'e + 'b" where
  "bind_res r k = (case r of Inl e \<Rightarrow> Inl e | Inr x \<Rightarrow> k x)"

lemma bind_res_simps [simp]:
  "bind_res (Inl e) k = Inl e"
  "bind_res (Inr x) k = k x"
  by (simp_all add: bind_res_def)

lemma bind_res_Inr_iff: "bind_res r k = Inr y \<longleftrightarrow> (\<exists>x. r = Inr x \<and> k x = Inr y)"
  by (cases r) auto

lemma bind_res_Inl_iff:
  "bind_res r k = Inl e \<longleftrightarrow> r = Inl e \<or> (\<exists>x. r = Inr x \<and> k x = Inl e)"
  by (cases r) auto

text \<open>A loop body that may return early, run over a list and collecting its results.\<close>

fun map_res :: "('a \<Rightarrow> 'e + 'b) \<Rightarrow> 'a list \<Rightarrow> 'e + 'b list" where
  "map_res f [] = Inr []"
| "map_res f (x # xs) = bind_res (f x) (\<lambda>y. bind_res (map_res f xs) (\<lambda>ys. Inr (y # ys)))"

lemma map_res_Inr_iff:
  "map_res f xs = Inr ys \<longleftrightarrow> list_all2 (\<lambda>x y. f x = Inr y) xs ys"
  by (induction xs arbitrary: ys) (auto simp: bind_res_Inr_iff list_all2_Cons1)

lemma map_res_InlE:
  assumes "map_res f xs = Inl e"
  obtains x where "x \<in> set xs" "f x = Inl e"
  using assms by (induction xs) (auto simp: bind_res_Inl_iff)

lemma map_res_total: "(\<And>x. x \<in> set xs \<Longrightarrow> f x = Inr (g x)) \<Longrightarrow> map_res f xs = Inr (map g xs)"
  by (induction xs) auto

text \<open>The elements of an \<open>Option\<close>, as \<open>into_iter\<close> gives them.\<close>

fun opt_list :: "'a option \<Rightarrow> 'a list" where
  "opt_list None = []"
| "opt_list (Some x) = [x]"

lemma set_opt_list [simp]: "set (opt_list a) = set_option a"
  by (cases a) simp_all

lemma list_all_opt_list: "list_all P (opt_list a) \<longleftrightarrow> (case a of None \<Rightarrow> True | Some x \<Rightarrow> P x)"
  by (cases a) simp_all

text \<open>\<open>get\<close> of a slice.\<close>

definition nth_opt :: "'a list \<Rightarrow> nat \<Rightarrow> 'a option" where
  "nth_opt xs i = (if i < length xs then Some (xs ! i) else None)"

subsection \<open>Saturating and bounded integers\<close>

definition u32_max :: nat where "u32_max = 4294967295"
definition u64_max :: nat where "u64_max = 18446744073709551615"

definition sat_add32 :: "nat \<Rightarrow> nat \<Rightarrow> nat" where
  "sat_add32 a b = min (a + b) u32_max"

definition sat_add64 :: "nat \<Rightarrow> nat \<Rightarrow> nat" where
  "sat_add64 a b = min (a + b) u64_max"

lemma sat_add32_le [simp]: "sat_add32 a b \<le> u32_max"
  by (simp add: sat_add32_def)

lemma sat_add64_le [simp]: "sat_add64 a b \<le> u64_max"
  by (simp add: sat_add64_def)

subsection \<open>ASCII case\<close>

definition lower_char :: "char \<Rightarrow> char" where
  "lower_char c =
     (let n = of_char c :: nat in if 65 \<le> n \<and> n \<le> 90 then char_of (n + 32) else c)"

text \<open>\<open>to_ascii_lowercase\<close> and \<open>eq_ignore_ascii_case\<close>.\<close>

definition ascii_lower :: "string \<Rightarrow> string" where
  "ascii_lower s = map lower_char s"

definition eq_ignore_case :: "string \<Rightarrow> string \<Rightarrow> bool" where
  "eq_ignore_case a b \<longleftrightarrow> ascii_lower a = ascii_lower b"

lemma lower_char_idem [simp]: "lower_char (lower_char c) = lower_char c"
  by (simp add: lower_char_def Let_def)

lemma length_ascii_lower [simp, len_simps]: "length (ascii_lower s) = length s"
  by (simp add: ascii_lower_def)

lemma ascii_lower_idem [simp]: "ascii_lower (ascii_lower s) = ascii_lower s"
  by (simp add: ascii_lower_def comp_def)

lemma ascii_lower_append [simp]: "ascii_lower (s @ t) = ascii_lower s @ ascii_lower t"
  by (simp add: ascii_lower_def)

lemma eq_ignore_case_refl [simp]: "eq_ignore_case s s"
  by (simp add: eq_ignore_case_def)

lemma eq_ignore_case_sym: "eq_ignore_case a b \<longleftrightarrow> eq_ignore_case b a"
  by (auto simp: eq_ignore_case_def)

lemma eq_ignore_case_trans: "eq_ignore_case a b \<Longrightarrow> eq_ignore_case b c \<Longrightarrow> eq_ignore_case a c"
  by (simp add: eq_ignore_case_def)

subsection \<open>Joining\<close>

text \<open>\<open>slice::join\<close>.\<close>

fun join :: "string \<Rightarrow> string list \<Rightarrow> string" where
  "join sep [] = []"
| "join sep [x] = x"
| "join sep (x # y # zs) = x @ sep @ join sep (y # zs)"

lemma join_Cons: "join sep (x # xs) = x @ (if xs = [] then [] else sep @ join sep xs)"
  by (cases xs) auto

subsection \<open>Decimal numbers\<close>

definition digit :: "nat \<Rightarrow> char" where
  "digit n = ''0123456789'' ! n"

text \<open>\<open>Display\<close> of an unsigned integer.\<close>

fun dec :: "nat \<Rightarrow> string" where
  "dec n = (if n < 10 then [digit n] else dec (n div 10) @ [digit (n mod 10)])"

declare dec.simps [simp del]

abbreviation dec_word :: "'a::len word \<Rightarrow> string" where
  "dec_word w \<equiv> dec (unat w)"

lemma dec_not_Nil [simp]: "dec n \<noteq> []"
  by (subst dec.simps) simp

definition is_digit :: "char \<Rightarrow> bool" where
  "is_digit c \<longleftrightarrow> c \<in> set ''0123456789''"

lemma is_digit_digit: "n < 10 \<Longrightarrow> is_digit (digit n)"
  unfolding is_digit_def digit_def by (rule nth_mem) simp

lemma dec_digits: "c \<in> set (dec n) \<Longrightarrow> is_digit c"
proof (induction n rule: dec.induct)
  case (1 n)
  then show ?case
    by (subst (asm) (2) dec.simps) (auto simp: is_digit_digit split: if_splits)
qed

end
