(* ===== verification/EventQuery.thy ===== *)
theory EventQuery
  imports Prelude
begin

text \<open>
  \<open>crates/cmtraceopen-parser/src/event_query/mod.rs\<close>: compiling a filter into the query string that
  is handed to the Windows Event Log service. The theory holds the filter's data types, the string
  builders in the order of the source, and \<open>build_query\<close>, with the facts about quoting, escaping
  and chunking that \<open>EventQuerySem\<close> uses.
\<close>

subsection \<open>Filters\<close>

datatype selector_mode = Include | Exclude

datatype event_id_selector =
    Single u32
  | Range u32 u32

datatype time_window =
    Last u64
  | Between "string option" "string option"

record event_query_filter =
  eq_time :: "time_window option"
  eq_levels :: "u8 list"
  eq_event_ids :: "event_id_selector list"
  eq_event_id_mode :: selector_mode
  eq_providers :: "string list"
  eq_provider_mode :: selector_mode
  eq_keywords :: "u64 option"

definition default_filter :: event_query_filter where
  "default_filter = \<lparr>eq_time = None, eq_levels = [], eq_event_ids = [], eq_event_id_mode = Include,
     eq_providers = [], eq_provider_mode = Include, eq_keywords = None\<rparr>"

definition is_unfiltered :: "event_query_filter \<Rightarrow> bool" where
  "is_unfiltered f \<longleftrightarrow> eq_time f = None \<and> eq_levels f = [] \<and> eq_event_ids f = []
     \<and> eq_providers f = [] \<and> eq_keywords f = None"

fun expression_cost :: "event_id_selector \<Rightarrow> nat" where
  "expression_cost (Single i) = 1"
| "expression_cost (Range low high) = (if low = high then 1 else 2)"

definition ordered_bounds :: "u32 \<Rightarrow> u32 \<Rightarrow> u32 \<times> u32" where
  "ordered_bounds low high = (if low \<le> high then (low, high) else (high, low))"

fun selector_predicate :: "event_id_selector \<Rightarrow> selector_mode \<Rightarrow> string" where
  "selector_predicate (Single i) Include = ''EventID='' @ dec_word i"
| "selector_predicate (Single i) Exclude = ''EventID!='' @ dec_word i"
| "selector_predicate (Range low high) mode =
     (if low = high then
        (case mode of
           Include \<Rightarrow> ''EventID='' @ dec_word low
         | Exclude \<Rightarrow> ''EventID!='' @ dec_word low)
      else
        (case (mode, ordered_bounds low high) of
           (Include, (lo, hi)) \<Rightarrow>
             ''(EventID >= '' @ dec_word lo @ '' and EventID <= '' @ dec_word hi @ '')''
         | (Exclude, (lo, hi)) \<Rightarrow>
             ''(EventID < '' @ dec_word lo @ '' or EventID > '' @ dec_word hi @ '')''))"

subsection \<open>Literals, escaping and joining\<close>

datatype query_build_error =
    UnquotableValue string
  | FilterTooComplex nat nat

definition max_expressions_per_select :: nat where
  "max_expressions_per_select = 20"

text \<open>The two quote bytes, \<open>'\<close> and \<open>"\<close>.\<close>

definition apos :: char where "apos = CHR 0x27"
definition dquote :: char where "dquote = CHR 0x22"

definition quote_literal :: "string \<Rightarrow> query_build_error + string" where
  "quote_literal v =
     (if apos \<notin> set v then Inr ([apos] @ v @ [apos])
      else if dquote \<notin> set v then Inr ([dquote] @ v @ [dquote])
      else Inl (UnquotableValue v))"

definition escape_char :: "char \<Rightarrow> string" where
  "escape_char c =
     (if c = CHR ''&'' then ''&amp;''
      else if c = CHR ''<'' then ''&lt;''
      else if c = CHR ''>'' then ''&gt;''
      else if c = dquote then ''&quot;''
      else [c])"

definition escape_for_xml :: "string \<Rightarrow> string" where
  "escape_for_xml s = concat (map escape_char s)"

definition join_or :: "string list \<Rightarrow> string" where
  "join_or ps = ''('' @ join '' or '' ps @ '')''"

definition join_and :: "string list \<Rightarrow> string" where
  "join_and ps = ''('' @ join '' and '' ps @ '')''"

subsection \<open>The predicates of one node\<close>

record predicate =
  clause :: string
  expressions :: nat

text \<open>One optional bound: \<open>@SystemTime >= literal\<close> or \<open>@SystemTime <= literal\<close>.\<close>

definition time_bound :: "string \<Rightarrow> string option \<Rightarrow> query_build_error + string list" where
  "time_bound operator b =
     (case b of
        None \<Rightarrow> Inr []
      | Some v \<Rightarrow> bind_res (quote_literal v) (\<lambda>q. Inr [''@SystemTime '' @ operator @ '' '' @ q]))"

fun time_predicate :: "time_window \<Rightarrow> query_build_error + predicate option" where
  "time_predicate (Last ms) =
     Inr (Some \<lparr>clause = ''TimeCreated[timediff(@SystemTime) <= '' @ dec_word ms @ '']'',
                expressions = 1\<rparr>)"
| "time_predicate (Between start end) =
     bind_res (time_bound ''>='' start) (\<lambda>lows.
     bind_res (time_bound ''<='' end) (\<lambda>highs.
       (let bounds = lows @ highs in
        if bounds = [] then Inr None
        else Inr (Some \<lparr>clause = ''TimeCreated['' @ join '' and '' bounds @ '']'',
                        expressions = length bounds\<rparr>))))"

text \<open>The \<open>seen\<close> accumulators of the two deduplication loops.\<close>

fun push_distinct :: "('a \<Rightarrow> 'a \<Rightarrow> bool) \<Rightarrow> 'a list \<Rightarrow> 'a list \<Rightarrow> 'a list" where
  "push_distinct same seen [] = seen"
| "push_distinct same seen (x # xs) =
     push_distinct same (if \<exists>y \<in> set seen. same y x then seen else seen @ [x]) xs"

definition distinct_levels :: "event_query_filter \<Rightarrow> u8 list" where
  "distinct_levels f = push_distinct (=) [] (eq_levels f)"

definition distinct_providers :: "event_query_filter \<Rightarrow> string list" where
  "distinct_providers f = push_distinct eq_ignore_case [] (eq_providers f)"

definition largest_selector_cost :: "event_query_filter \<Rightarrow> nat" where
  "largest_selector_cost f = fold max (map expression_cost (eq_event_ids f)) 0"

definition time_cost :: "event_query_filter \<Rightarrow> nat" where
  "time_cost f =
     (case eq_time f of
        None \<Rightarrow> 0
      | Some w \<Rightarrow> (case time_predicate w of Inr (Some p) \<Rightarrow> expressions p | _ \<Rightarrow> 0))"

definition fixed_expression_cost :: "event_query_filter \<Rightarrow> nat" where
  "fixed_expression_cost f =
     time_cost f + length (distinct_levels f) + length (distinct_providers f)
     + (if eq_keywords f = None then 0 else 1)"

definition time_clauses :: "event_query_filter \<Rightarrow> query_build_error + string list" where
  "time_clauses f =
     (case eq_time f of
        None \<Rightarrow> Inr []
      | Some w \<Rightarrow> bind_res (time_predicate w)
          (\<lambda>p. Inr (case p of None \<Rightarrow> [] | Some p \<Rightarrow> [clause p])))"

definition level_clauses :: "event_query_filter \<Rightarrow> string list" where
  "level_clauses f =
     (let levels = distinct_levels f in
      if levels = [] then [] else [join_or (map (\<lambda>l. ''Level='' @ dec_word l) levels)])"

definition id_clauses :: "selector_mode \<Rightarrow> event_id_selector list \<Rightarrow> string list" where
  "id_clauses mode ids =
     (if ids = [] then []
      else (let ps = map (\<lambda>s. selector_predicate s mode) ids in
            [case mode of Include \<Rightarrow> join_or ps | Exclude \<Rightarrow> join_and ps]))"

definition provider_clauses :: "event_query_filter \<Rightarrow> query_build_error + string list" where
  "provider_clauses f =
     (let names = distinct_providers f;
          (operator, joiner) =
            (case eq_provider_mode f of
               Include \<Rightarrow> (''='', '' or '')
             | Exclude \<Rightarrow> (''!='', '' and ''))
      in if names = [] then Inr []
         else bind_res
           (map_res (\<lambda>p. bind_res (quote_literal p) (\<lambda>q. Inr (''@Name'' @ operator @ q))) names)
           (\<lambda>ps. Inr [''Provider['' @ join joiner ps @ '']'']))"

definition keyword_clauses :: "event_query_filter \<Rightarrow> string list" where
  "keyword_clauses f =
     (case eq_keywords f of
        None \<Rightarrow> []
      | Some k \<Rightarrow> [''band(Keywords,'' @ dec_word k @ '')''])"

definition system_predicates ::
  "event_query_filter \<Rightarrow> event_id_selector list \<Rightarrow> query_build_error + string list" where
  "system_predicates f ids =
     bind_res (time_clauses f) (\<lambda>times.
     bind_res (provider_clauses f) (\<lambda>provs.
       Inr (times @ level_clauses f @ id_clauses (eq_event_id_mode f) ids @ provs
            @ keyword_clauses f)))"

definition wrap_body :: "string list \<Rightarrow> string" where
  "wrap_body ps = (if ps = [] then ''*'' else ''*[System['' @ join '' and '' ps @ '']]'')"

definition select_body ::
  "event_query_filter \<Rightarrow> event_id_selector list \<Rightarrow> query_build_error + string" where
  "select_body f ids = bind_res (system_predicates f ids) (\<lambda>ps. Inr (wrap_body ps))"

subsection \<open>Chunking\<close>

text \<open>The loop of \<open>chunk_by_expression_budget\<close> with its state: the chunks pushed, the current chunk
  and the expressions it has spent.\<close>

fun chunk_loop :: "nat \<Rightarrow> event_id_selector list list \<Rightarrow> event_id_selector list \<Rightarrow> nat
    \<Rightarrow> event_id_selector list \<Rightarrow> event_id_selector list list" where
  "chunk_loop budget chunks current spent [] =
     (if current \<noteq> [] then chunks @ [current] else chunks)"
| "chunk_loop budget chunks current spent (s # rest) =
     (let cost = expression_cost s in
      if current \<noteq> [] \<and> spent + cost > budget
      then chunk_loop budget (chunks @ [current]) [s] cost rest
      else chunk_loop budget chunks (current @ [s]) (spent + cost) rest)"

definition chunk_by_expression_budget ::
  "event_id_selector list \<Rightarrow> nat \<Rightarrow> event_id_selector list list" where
  "chunk_by_expression_budget selectors fixed_cost =
     chunk_loop (max_expressions_per_select - fixed_cost) [] [] 0 selectors"

subsection \<open>Building the query\<close>

definition suppress_node :: "event_id_selector list \<Rightarrow> string" where
  "suppress_node chunk =
     ''<Suppress>''
     @ escape_for_xml
         (''*[System[('' @ join_or (map (\<lambda>s. selector_predicate s Include) chunk) @ '')]]'')
     @ ''</Suppress>''"

definition build_suppressed_query :: "event_query_filter \<Rightarrow> query_build_error + string" where
  "build_suppressed_query f =
     bind_res (select_body f []) (\<lambda>selection.
       Inr (''<QueryList><Query Id='' @ [dquote] @ ''0'' @ [dquote] @ ''><Select>''
            @ escape_for_xml selection @ ''</Select>''
            @ concat (map suppress_node (chunk_by_expression_budget (eq_event_ids f) 0))
            @ ''</Query></QueryList>''))"

definition query_node :: "nat \<times> string \<Rightarrow> string" where
  "query_node n =
     ''<Query Id='' @ [dquote] @ dec (fst n) @ [dquote] @ ''><Select>''
     @ escape_for_xml (snd n) @ ''</Select></Query>''"

definition build_split_query :: "event_query_filter \<Rightarrow> nat \<Rightarrow> query_build_error + string" where
  "build_split_query f fixed_cost =
     bind_res (map_res (select_body f) (chunk_by_expression_budget (eq_event_ids f) fixed_cost))
       (\<lambda>bodies. Inr (''<QueryList>''
          @ concat (map query_node (zip [0..<length bodies] bodies)) @ ''</QueryList>''))"

definition over_budget :: "event_query_filter \<Rightarrow> bool" where
  "over_budget f \<longleftrightarrow> eq_event_ids f \<noteq> []
     \<and> fixed_expression_cost f + sum_list (map expression_cost (eq_event_ids f))
         > max_expressions_per_select"

definition build_query :: "event_query_filter \<Rightarrow> query_build_error + string" where
  "build_query f =
     (if is_unfiltered f then Inr ''*''
      else let fixed_cost = fixed_expression_cost f;
               indivisible = fixed_cost + largest_selector_cost f
           in if indivisible > max_expressions_per_select
              then Inl (FilterTooComplex indivisible max_expressions_per_select)
              else if over_budget f \<and> eq_event_id_mode f = Exclude then build_suppressed_query f
              else if over_budget f then build_split_query f fixed_cost
              else select_body f (eq_event_ids f))"

end
