(* ===== verification/EventQuerySem.thy ===== *)
theory EventQuerySem
  imports EventQuery
begin

unbundle bit_operations_syntax

text \<open>
  What the strings of \<open>EventQuery\<close> mean. The Windows Event Log service is not part of the repository;
  its documented query language (the XPath subset with \<open>=\<close>, \<open>!=\<close>, \<open>and\<close>, \<open>or\<close>, \<open>timediff\<close> and
  \<open>band\<close>, the union of \<open>Query\<close> nodes and the subtraction of \<open>Suppress\<close> nodes) is given here as an
  abstract syntax with a renderer and a denotation, written without the builders of \<open>EventQuery\<close>, and
  \<open>filter_matches\<close> is the meaning of a filter that its fields promise. The lemmas show that
  \<open>build_query\<close> emits the rendering of a document of that syntax that selects exactly the events of
  the filter, and keeps every node within the expression budget. \<open>EventQueryRead\<close> reads the emitted
  characters back.
\<close>

subsection \<open>Events and the meaning of a filter\<close>

text \<open>The last two fields are the service's comparison of the event's \<open>SystemTime\<close> with an ISO 8601
  literal; \<open>we_age\<close> is \<open>timediff(@SystemTime)\<close> in milliseconds.\<close>

record win_event =
  we_level :: u8
  we_event_id :: u32
  we_provider :: string
  we_keywords :: u64
  we_age :: nat
  we_not_before :: "string \<Rightarrow> bool"
  we_not_after :: "string \<Rightarrow> bool"

fun selector_matches :: "event_id_selector \<Rightarrow> u32 \<Rightarrow> bool" where
  "selector_matches (Single i) x \<longleftrightarrow> x = i"
| "selector_matches (Range low high) x \<longleftrightarrow> min low high \<le> x \<and> x \<le> max low high"

fun window_matches :: "time_window \<Rightarrow> win_event \<Rightarrow> bool" where
  "window_matches (Last ms) e \<longleftrightarrow> we_age e \<le> unat ms"
| "window_matches (Between start end) e \<longleftrightarrow>
     (case start of None \<Rightarrow> True | Some v \<Rightarrow> we_not_before e v)
     \<and> (case end of None \<Rightarrow> True | Some v \<Rightarrow> we_not_after e v)"

definition mode_matches :: "selector_mode \<Rightarrow> ('a \<Rightarrow> bool) \<Rightarrow> 'a list \<Rightarrow> bool" where
  "mode_matches mode p xs \<longleftrightarrow>
     xs = [] \<or> (case mode of Include \<Rightarrow> (\<exists>x \<in> set xs. p x) | Exclude \<Rightarrow> \<not> (\<exists>x \<in> set xs. p x))"

definition filter_matches :: "event_query_filter \<Rightarrow> win_event \<Rightarrow> bool" where
  "filter_matches f e \<longleftrightarrow>
     (case eq_time f of None \<Rightarrow> True | Some w \<Rightarrow> window_matches w e)
     \<and> (eq_levels f = [] \<or> we_level e \<in> set (eq_levels f))
     \<and> mode_matches (eq_event_id_mode f) (\<lambda>s. selector_matches s (we_event_id e)) (eq_event_ids f)
     \<and> mode_matches (eq_provider_mode f) (\<lambda>p. eq_ignore_case p (we_provider e)) (eq_providers f)
     \<and> (case eq_keywords f of None \<Rightarrow> True | Some k \<Rightarrow> we_keywords e AND k \<noteq> 0)"

subsection \<open>The query language\<close>

datatype id_test = IdEq u32 | IdNe u32 | IdWithin u32 u32 | IdOutside u32 u32

datatype xclause =
    XAge u64
  | XTime "string list" "string list"
  | XLevels "u8 list"
  | XIdAny "id_test list"
  | XIdAll "id_test list"
  | XProviderAny "string list"
  | XProviderNone "string list"
  | XKeywords u64

datatype xdoc =
    XBare "xclause list"
  | XUnion "xclause list list"
  | XMinus "xclause list" "id_test list list"

text \<open>Rendering.\<close>

fun render_id :: "id_test \<Rightarrow> string" where
  "render_id (IdEq i) = ''EventID='' @ dec_word i"
| "render_id (IdNe i) = ''EventID!='' @ dec_word i"
| "render_id (IdWithin lo hi) =
     ''(EventID >= '' @ dec_word lo @ '' and EventID <= '' @ dec_word hi @ '')''"
| "render_id (IdOutside lo hi) =
     ''(EventID < '' @ dec_word lo @ '' or EventID > '' @ dec_word hi @ '')''"

definition quoted :: "string \<Rightarrow> string" where
  "quoted v = (let q = (if apos \<in> set v then dquote else apos) in q # v @ [q])"

definition quotable :: "string \<Rightarrow> bool" where
  "quotable v \<longleftrightarrow> apos \<notin> set v \<or> dquote \<notin> set v"

fun render_clause :: "xclause \<Rightarrow> string" where
  "render_clause (XAge ms) = ''TimeCreated[timediff(@SystemTime) <= '' @ dec_word ms @ '']''"
| "render_clause (XTime los his) =
     ''TimeCreated['' @ join '' and ''
        (map (\<lambda>v. ''@SystemTime >= '' @ quoted v) los @ map (\<lambda>v. ''@SystemTime <= '' @ quoted v) his)
     @ '']''"
| "render_clause (XLevels ls) = ''('' @ join '' or '' (map (\<lambda>l. ''Level='' @ dec_word l) ls) @ '')''"
| "render_clause (XIdAny ts) = ''('' @ join '' or '' (map render_id ts) @ '')''"
| "render_clause (XIdAll ts) = ''('' @ join '' and '' (map render_id ts) @ '')''"
| "render_clause (XProviderAny ps) =
     ''Provider['' @ join '' or '' (map (\<lambda>p. ''@Name='' @ quoted p) ps) @ '']''"
| "render_clause (XProviderNone ps) =
     ''Provider['' @ join '' and '' (map (\<lambda>p. ''@Name!='' @ quoted p) ps) @ '']''"
| "render_clause (XKeywords k) = ''band(Keywords,'' @ dec_word k @ '')''"

text \<open>A node is one step of the expression; inside a query list it is XML character data.\<close>

definition render_node :: "xclause list \<Rightarrow> string" where
  "render_node cs =
     (if cs = [] then ''*'' else ''*[System['' @ join '' and '' (map render_clause cs) @ '']]'')"

fun xml_text :: "string \<Rightarrow> string" where
  "xml_text [] = []"
| "xml_text (c # s) =
     (if c = CHR ''<'' then ''&lt;'' else if c = CHR ''>'' then ''&gt;''
      else if c = CHR ''&'' then ''&amp;'' else if c = CHR 0x22 then ''&quot;'' else [c]) @ xml_text s"

definition render_select :: "nat \<Rightarrow> xclause list \<Rightarrow> string" where
  "render_select i cs =
     ''<Query Id='' @ [CHR 0x22] @ dec i @ [CHR 0x22] @ ''><Select>'' @ xml_text (render_node cs)
     @ ''</Select>''"

definition render_suppress :: "id_test list \<Rightarrow> string" where
  "render_suppress ts =
     ''<Suppress>'' @ xml_text (''*[System[(('' @ join '' or '' (map render_id ts) @ ''))]]'')
     @ ''</Suppress>''"

fun render_selects :: "nat \<Rightarrow> xclause list list \<Rightarrow> string" where
  "render_selects i [] = []"
| "render_selects i (cs # nodes) = render_select i cs @ ''</Query>'' @ render_selects (Suc i) nodes"

fun render_doc :: "xdoc \<Rightarrow> string" where
  "render_doc (XBare cs) = render_node cs"
| "render_doc (XUnion nodes) = ''<QueryList>'' @ render_selects 0 nodes @ ''</QueryList>''"
| "render_doc (XMinus cs chunks) =
     ''<QueryList>'' @ render_select 0 cs @ concat (map render_suppress chunks)
     @ ''</Query></QueryList>''"

text \<open>Meaning.\<close>

fun id_test_matches :: "id_test \<Rightarrow> u32 \<Rightarrow> bool" where
  "id_test_matches (IdEq i) x \<longleftrightarrow> x = i"
| "id_test_matches (IdNe i) x \<longleftrightarrow> x \<noteq> i"
| "id_test_matches (IdWithin lo hi) x \<longleftrightarrow> lo \<le> x \<and> x \<le> hi"
| "id_test_matches (IdOutside lo hi) x \<longleftrightarrow> x < lo \<or> x > hi"

fun clause_matches :: "xclause \<Rightarrow> win_event \<Rightarrow> bool" where
  "clause_matches (XAge ms) e \<longleftrightarrow> we_age e \<le> unat ms"
| "clause_matches (XTime los his) e \<longleftrightarrow>
     list_all (we_not_before e) los \<and> list_all (we_not_after e) his"
| "clause_matches (XLevels ls) e \<longleftrightarrow> list_ex (\<lambda>l. we_level e = l) ls"
| "clause_matches (XIdAny ts) e \<longleftrightarrow> list_ex (\<lambda>t. id_test_matches t (we_event_id e)) ts"
| "clause_matches (XIdAll ts) e \<longleftrightarrow> list_all (\<lambda>t. id_test_matches t (we_event_id e)) ts"
| "clause_matches (XProviderAny ps) e \<longleftrightarrow> list_ex (\<lambda>p. eq_ignore_case p (we_provider e)) ps"
| "clause_matches (XProviderNone ps) e \<longleftrightarrow> list_all (\<lambda>p. \<not> eq_ignore_case p (we_provider e)) ps"
| "clause_matches (XKeywords k) e \<longleftrightarrow> we_keywords e AND k \<noteq> 0"

definition node_matches :: "xclause list \<Rightarrow> win_event \<Rightarrow> bool" where
  "node_matches cs e \<longleftrightarrow> list_all (\<lambda>c. clause_matches c e) cs"

fun doc_matches :: "xdoc \<Rightarrow> win_event \<Rightarrow> bool" where
  "doc_matches (XBare cs) e \<longleftrightarrow> node_matches cs e"
| "doc_matches (XUnion nodes) e \<longleftrightarrow> list_ex (\<lambda>cs. node_matches cs e) nodes"
| "doc_matches (XMinus cs chunks) e \<longleftrightarrow>
     node_matches cs e \<and> \<not> list_ex (list_ex (\<lambda>t. id_test_matches t (we_event_id e))) chunks"

text \<open>The number of expressions the service counts in each node of a document.\<close>

fun id_test_cost :: "id_test \<Rightarrow> nat" where
  "id_test_cost (IdEq i) = 1"
| "id_test_cost (IdNe i) = 1"
| "id_test_cost (IdWithin lo hi) = 2"
| "id_test_cost (IdOutside lo hi) = 2"

fun clause_cost :: "xclause \<Rightarrow> nat" where
  "clause_cost (XAge ms) = 1"
| "clause_cost (XTime los his) = length los + length his"
| "clause_cost (XLevels ls) = length ls"
| "clause_cost (XIdAny ts) = sum_list (map id_test_cost ts)"
| "clause_cost (XIdAll ts) = sum_list (map id_test_cost ts)"
| "clause_cost (XProviderAny ps) = length ps"
| "clause_cost (XProviderNone ps) = length ps"
| "clause_cost (XKeywords k) = 1"

definition node_cost :: "xclause list \<Rightarrow> nat" where
  "node_cost cs = sum_list (map clause_cost cs)"

fun doc_node_costs :: "xdoc \<Rightarrow> nat list" where
  "doc_node_costs (XBare cs) = [node_cost cs]"
| "doc_node_costs (XUnion nodes) = map node_cost nodes"
| "doc_node_costs (XMinus cs chunks) =
     node_cost cs # map (\<lambda>ts. sum_list (map id_test_cost ts)) chunks"


subsection \<open>From a filter to a document\<close>

fun id_test_of :: "selector_mode \<Rightarrow> event_id_selector \<Rightarrow> id_test" where
  "id_test_of Include (Single i) = IdEq i"
| "id_test_of Exclude (Single i) = IdNe i"
| "id_test_of Include (Range a b) = (if a = b then IdEq a else IdWithin (min a b) (max a b))"
| "id_test_of Exclude (Range a b) = (if a = b then IdNe a else IdOutside (min a b) (max a b))"

definition time_node :: "event_query_filter \<Rightarrow> xclause list" where
  "time_node f =
     (case eq_time f of
        None \<Rightarrow> []
      | Some (Last ms) \<Rightarrow> [XAge ms]
      | Some (Between a b) \<Rightarrow>
          (if opt_list a @ opt_list b = [] then [] else [XTime (opt_list a) (opt_list b)]))"

definition level_node :: "event_query_filter \<Rightarrow> xclause list" where
  "level_node f = (if distinct_levels f = [] then [] else [XLevels (distinct_levels f)])"

definition id_node :: "selector_mode \<Rightarrow> event_id_selector list \<Rightarrow> xclause list" where
  "id_node mode ids =
     (if ids = [] then []
      else [(case mode of Include \<Rightarrow> XIdAny | Exclude \<Rightarrow> XIdAll) (map (id_test_of mode) ids)])"

definition provider_node :: "event_query_filter \<Rightarrow> xclause list" where
  "provider_node f =
     (if distinct_providers f = [] then []
      else [(case eq_provider_mode f of Include \<Rightarrow> XProviderAny | Exclude \<Rightarrow> XProviderNone)
              (distinct_providers f)])"

definition keyword_node :: "event_query_filter \<Rightarrow> xclause list" where
  "keyword_node f = (case eq_keywords f of None \<Rightarrow> [] | Some k \<Rightarrow> [XKeywords k])"

definition filter_node :: "event_query_filter \<Rightarrow> event_id_selector list \<Rightarrow> xclause list" where
  "filter_node f ids =
     time_node f @ level_node f @ id_node (eq_event_id_mode f) ids @ provider_node f @ keyword_node f"

definition filter_doc :: "event_query_filter \<Rightarrow> xdoc" where
  "filter_doc f =
     (if is_unfiltered f then XBare []
      else if over_budget f \<and> eq_event_id_mode f = Exclude
      then XMinus (filter_node f [])
             (map (map (id_test_of Include)) (chunk_by_expression_budget (eq_event_ids f) 0))
      else if over_budget f
      then XUnion (map (filter_node f)
             (chunk_by_expression_budget (eq_event_ids f) (fixed_expression_cost f)))
      else XBare (filter_node f (eq_event_ids f)))"

text \<open>The literals the filter carries, and whether all of them can be quoted.\<close>

definition time_literals :: "event_query_filter \<Rightarrow> string list" where
  "time_literals f =
     (case eq_time f of Some (Between a b) \<Rightarrow> opt_list a @ opt_list b | _ \<Rightarrow> [])"

definition filter_literals :: "event_query_filter \<Rightarrow> string list" where
  "filter_literals f = time_literals f @ eq_providers f"

subsection \<open>The strings of the code\<close>

lemma escape_for_xml_eq: "escape_for_xml s = xml_text s"
  by (induction s) (auto simp: escape_for_xml_def escape_char_def dquote_def)

lemma wrap_body_node: "wrap_body (map render_clause cs) = render_node cs"
  by (simp add: wrap_body_def render_node_def)

lemma query_nodes_render:
  "concat (map query_node (zip [i..<i + length nodes] (map render_node nodes)))
     = render_selects i nodes"
proof (induction nodes arbitrary: i)
  case (Cons cs nodes)
  have "[i..<i + length (cs # nodes)] = i # [Suc i..<Suc i + length nodes]"
    by (simp del: upt_Suc add: upt_conv_Cons)
  with Cons.IH [of "Suc i"] show ?case
    by (simp del: upt_Suc add: query_node_def render_select_def escape_for_xml_eq dquote_def)
qed simp

subsection \<open>Selectors\<close>

lemma render_id_test_of: "render_id (id_test_of mode s) = selector_predicate s mode"
  by (cases s; cases mode) (auto simp: ordered_bounds_def min_def max_def)

lemma id_test_of_cost: "id_test_cost (id_test_of mode s) = expression_cost s"
  by (cases s; cases mode) auto

lemma id_test_of_Include: "id_test_matches (id_test_of Include s) x \<longleftrightarrow> selector_matches s x"
  by (cases s) auto

lemma id_test_of_Exclude: "id_test_matches (id_test_of Exclude s) x \<longleftrightarrow> \<not> selector_matches s x"
  by (cases s) (auto simp: not_le)

lemmas id_test_of_simps = render_id_test_of id_test_of_cost id_test_of_Include id_test_of_Exclude

subsection \<open>Literals\<close>

lemma quote_literal_eq:
  "quote_literal v = (if quotable v then Inr (quoted v) else Inl (UnquotableValue v))"
  by (auto simp: quote_literal_def quotable_def quoted_def Let_def)

lemma lower_char_quote [simp]:
  "lower_char c = apos \<longleftrightarrow> c = apos" "lower_char c = dquote \<longleftrightarrow> c = dquote"
proof -
  have *: "char_of (n + 32) \<noteq> apos" "char_of (n + 32) \<noteq> dquote" if "65 \<le> n" "n \<le> 90" for n :: nat
  proof -
    have "of_char (char_of (n + 32) :: char) = n + 32" using that by simp
    then show "char_of (n + 32) \<noteq> apos" "char_of (n + 32) \<noteq> dquote"
      using that by (auto simp: apos_def dquote_def dest!: arg_cong [of _ _ "of_char :: char \<Rightarrow> nat"])
  qed
  show "lower_char c = apos \<longleftrightarrow> c = apos" "lower_char c = dquote \<longleftrightarrow> c = dquote"
    using * [of "of_char c"] by (auto simp: lower_char_def Let_def apos_def dquote_def)
qed

lemma quotable_ascii_lower: "quotable (ascii_lower v) \<longleftrightarrow> quotable v"
  by (auto simp: quotable_def ascii_lower_def image_iff eq_commute [of apos] eq_commute [of dquote])

lemma quotable_eq_ignore_case: "eq_ignore_case a b \<Longrightarrow> quotable a \<longleftrightarrow> quotable b"
  by (metis eq_ignore_case_def quotable_ascii_lower)

subsection \<open>The deduplication loops\<close>

lemma push_distinct_extends: "\<exists>ys. push_distinct same seen xs = seen @ ys \<and> set ys \<subseteq> set xs"
proof (induction xs arbitrary: seen)
  case (Cons x xs)
  from Cons.IH [of seen] Cons.IH [of "seen @ [x]"] show ?case
    by (cases "\<exists>y \<in> set seen. same y x") auto
qed simp

lemma push_distinct_subset: "set (push_distinct same seen xs) \<subseteq> set seen \<union> set xs"
  using push_distinct_extends [of same seen xs] by auto

lemma push_distinct_keeps: "y \<in> set seen \<Longrightarrow> y \<in> set (push_distinct same seen xs)"
  using push_distinct_extends [of same seen xs] by auto

lemma push_distinct_covers:
  assumes "\<And>x. same x x" and "x \<in> set xs"
  shows "\<exists>y \<in> set (push_distinct same seen xs). same y x"
  using assms(2)
proof (induction xs arbitrary: seen)
  case (Cons z xs)
  show ?case
  proof (cases "x = z")
    case True
    obtain y where "y \<in> set (if \<exists>y \<in> set seen. same y z then seen else seen @ [z])" "same y z"
      using assms(1) by (cases "\<exists>y \<in> set seen. same y z") auto
    then show ?thesis
      using True push_distinct_keeps [of y _ same xs] by fastforce
  next
    case False
    then show ?thesis using Cons by simp
  qed
qed simp

lemma set_distinct_levels: "set (distinct_levels f) = set (eq_levels f)"
  using push_distinct_subset [of "(=)" "[]" "eq_levels f"]
    push_distinct_covers [of "(=)" _ "eq_levels f" "[]"]
  by (auto simp: distinct_levels_def)

lemma distinct_levels_Nil: "distinct_levels f = [] \<longleftrightarrow> eq_levels f = []"
  using set_distinct_levels [of f] by auto

lemma distinct_providers_subset: "set (distinct_providers f) \<subseteq> set (eq_providers f)"
  using push_distinct_subset [of eq_ignore_case "[]" "eq_providers f"]
  by (simp add: distinct_providers_def)

lemma distinct_providers_covers:
  "p \<in> set (eq_providers f) \<Longrightarrow> \<exists>y \<in> set (distinct_providers f). eq_ignore_case y p"
  unfolding distinct_providers_def by (rule push_distinct_covers) simp_all

lemma distinct_providers_Nil: "distinct_providers f = [] \<longleftrightarrow> eq_providers f = []"
  using distinct_providers_subset [of f] distinct_providers_covers [of _ f]
  by (cases "eq_providers f") (fastforce simp: distinct_providers_def)+

lemma distinct_providers_match:
  "(\<exists>p \<in> set (distinct_providers f). eq_ignore_case p n)
     \<longleftrightarrow> (\<exists>p \<in> set (eq_providers f). eq_ignore_case p n)"
  by (meson distinct_providers_covers distinct_providers_subset eq_ignore_case_trans subsetD)

lemma distinct_providers_quotable:
  "list_all quotable (distinct_providers f) \<longleftrightarrow> list_all quotable (eq_providers f)"
proof -
  have "quotable p" if "\<forall>y \<in> set (distinct_providers f). quotable y" "p \<in> set (eq_providers f)" for p
    using that distinct_providers_covers [OF that(2)] quotable_eq_ignore_case by blast
  then show ?thesis using distinct_providers_subset [of f] by (auto simp: list_all_iff)
qed


subsection \<open>Chunks\<close>

abbreviation selectors_cost :: "event_id_selector list \<Rightarrow> nat" where
  "selectors_cost ss \<equiv> sum_list (map expression_cost ss)"

lemma expression_cost_pos: "0 < expression_cost s"
  by (cases s) auto

lemma concat_chunk_loop: "concat (chunk_loop b cs cur n ss) = concat cs @ cur @ ss"
  by (induction b cs cur n ss rule: chunk_loop.induct) (auto simp: Let_def)

lemma chunk_loop_cost:
  assumes "\<forall>s \<in> set ss. expression_cost s \<le> b" "\<forall>c \<in> set cs. selectors_cost c \<le> b"
    "n = selectors_cost cur" "n \<le> b"
  shows "\<forall>c \<in> set (chunk_loop b cs cur n ss). selectors_cost c \<le> b"
  using assms
proof (induction b cs cur n ss rule: chunk_loop.induct)
  case (2 b cs cur n s rest)
  show ?case
  proof (cases "cur \<noteq> [] \<and> n + expression_cost s > b")
    case True
    have "\<forall>c \<in> set (chunk_loop b (cs @ [cur]) [s] (expression_cost s) rest). selectors_cost c \<le> b"
      by (rule "2.IH"(1) [OF refl True]) (use "2.prems" in auto)
    with True show ?thesis by simp
  next
    case False
    then have "n + expression_cost s \<le> b" using "2.prems" by (cases "cur = []") auto
    then have "\<forall>c \<in> set (chunk_loop b cs (cur @ [s]) (n + expression_cost s) rest).
        selectors_cost c \<le> b"
      by (intro "2.IH"(2) [OF refl False]) (use "2.prems" in auto)
    with False show ?thesis by (auto simp: Let_def)
  qed
qed auto

lemma chunk_loop_nonempty:
  "[] \<notin> set cs \<Longrightarrow> [] \<notin> set (chunk_loop b cs cur n ss)"
  by (induction b cs cur n ss rule: chunk_loop.induct) (auto simp: Let_def)

lemma concat_chunks: "concat (chunk_by_expression_budget ss fixed) = ss"
  by (simp add: chunk_by_expression_budget_def concat_chunk_loop)

lemma chunks_nonempty: "[] \<notin> set (chunk_by_expression_budget ss fixed)"
  by (simp add: chunk_by_expression_budget_def chunk_loop_nonempty)

lemma chunks_cost:
  assumes "\<forall>s \<in> set ss. expression_cost s + fixed \<le> max_expressions_per_select"
    "c \<in> set (chunk_by_expression_budget ss fixed)"
  shows "selectors_cost c + fixed \<le> max_expressions_per_select"
proof (cases "ss = []")
  case True
  then show ?thesis using assms by (simp add: chunk_by_expression_budget_def)
next
  case False
  then have "fixed \<le> max_expressions_per_select" using assms(1) by (cases ss) auto
  moreover have "\<forall>s \<in> set ss. expression_cost s \<le> max_expressions_per_select - fixed"
    using assms(1) by auto
  then have "selectors_cost c \<le> max_expressions_per_select - fixed"
    using assms(2) chunk_loop_cost [of ss _ "[]" 0 "[]"]
    by (auto simp: chunk_by_expression_budget_def)
  ultimately show ?thesis by simp
qed

lemma chunks_ex:
  "list_ex (list_ex p) (chunk_by_expression_budget ss fixed) \<longleftrightarrow> list_ex p ss"
proof -
  have "list_ex p (concat cs) = list_ex (list_ex p) cs" for cs :: "'b list list" and p
    by (induction cs) auto
  from this [of p "chunk_by_expression_budget ss fixed"] show ?thesis
    by (simp add: concat_chunks)
qed

lemma fold_max_ge: "k \<in> set ks \<or> k \<le> m \<Longrightarrow> k \<le> fold max ks (m::nat)"
  unfolding Max.set_eq_fold [symmetric] by (rule Max_ge_iff [THEN iffD2]) auto

lemma largest_selector_cost_ge:
  assumes "s \<in> set (eq_event_ids f)"
  shows "expression_cost s \<le> largest_selector_cost f"
  unfolding largest_selector_cost_def by (rule fold_max_ge) (use assms in simp)

subsection \<open>One node\<close>

lemma time_bound_eq:
  "time_bound op b =
     (if list_all quotable (opt_list b)
      then Inr (map (\<lambda>v. ''@SystemTime '' @ op @ '' '' @ quoted v) (opt_list b))
      else Inl (UnquotableValue (the b)))"
  by (cases b) (simp_all add: time_bound_def quote_literal_eq)

lemma time_predicate_Between:
  "time_predicate (Between a b) =
     (if list_all quotable (opt_list a @ opt_list b)
      then Inr (if opt_list a @ opt_list b = [] then None
                else Some \<lparr>clause = render_clause (XTime (opt_list a) (opt_list b)),
                           expressions = clause_cost (XTime (opt_list a) (opt_list b))\<rparr>)
      else Inl (UnquotableValue (if list_all quotable (opt_list a) then the b else the a)))"
  by (simp add: time_bound_eq Let_def del: render_clause.simps)
     (simp add: append_assoc)

lemma time_clauses_ok:
  "list_all quotable (time_literals f) \<Longrightarrow> time_clauses f = Inr (map render_clause (time_node f))"
  by (auto simp: time_clauses_def time_node_def time_literals_def time_predicate_Between
      simp del: time_predicate.simps(2) render_clause.simps(2) split: option.splits time_window.splits)


lemma time_clauses_fail:
  "\<not> list_all quotable (time_literals f) \<Longrightarrow>
     \<exists>v \<in> set (time_literals f). \<not> quotable v \<and> time_clauses f = Inl (UnquotableValue v)"
  by (auto simp: time_clauses_def time_literals_def time_predicate_Between list_all_opt_list
      simp del: time_predicate.simps(2) split: option.splits time_window.splits)

lemma level_clauses_node: "level_clauses f = map render_clause (level_node f)"
  by (simp add: level_clauses_def level_node_def Let_def join_or_def)

lemma id_clauses_node: "id_clauses mode ids = map render_clause (id_node mode ids)"
  by (cases mode) (simp_all add: id_clauses_def id_node_def Let_def render_id_test_of comp_def
      join_or_def join_and_def)

lemma keyword_clauses_node: "keyword_clauses f = map render_clause (keyword_node f)"
  by (simp add: keyword_clauses_def keyword_node_def split: option.split)

lemma provider_clauses_ok:
  assumes "list_all quotable (eq_providers f)"
  shows "provider_clauses f = Inr (map render_clause (provider_node f))"
proof -
  have "map_res (\<lambda>p. bind_res (quote_literal p) (\<lambda>q. Inr (''@Name'' @ op @ q))) (distinct_providers f)
      = Inr (map (\<lambda>p. ''@Name'' @ op @ quoted p) (distinct_providers f))" for op
    using assms by (intro map_res_total)
      (auto simp: quote_literal_eq list_all_iff dest: subsetD [OF distinct_providers_subset])
  from this [of "''=''"] this [of "''!=''"] show ?thesis
    by (cases "eq_provider_mode f") (simp_all add: provider_clauses_def provider_node_def)
qed

lemma provider_clauses_fail:
  assumes "\<not> list_all quotable (eq_providers f)"
  shows "\<exists>v \<in> set (eq_providers f). \<not> quotable v \<and> provider_clauses f = Inl (UnquotableValue v)"
proof -
  define op where "op = (case eq_provider_mode f of Include \<Rightarrow> ''='' | Exclude \<Rightarrow> ''!='')"
  let ?g = "\<lambda>p. bind_res (quote_literal p) (\<lambda>q. Inr (''@Name'' @ op @ q))"
  from assms have nq: "\<not> list_all quotable (distinct_providers f)"
    by (simp add: distinct_providers_quotable)
  then have "distinct_providers f \<noteq> []" by auto
  obtain e where e: "map_res ?g (distinct_providers f) = Inl e"
  proof (cases "map_res ?g (distinct_providers f)")
    case (Inr ys)
    then have "list_all2 (\<lambda>p y. ?g p = Inr y) (distinct_providers f) ys"
      by (simp add: map_res_Inr_iff)
    then have "list_all quotable (distinct_providers f)"
      by (auto simp: list_all_iff in_set_conv_nth list_all2_conv_all_nth quote_literal_eq
          bind_res_Inr_iff split: if_splits)
    with nq show ?thesis by simp
  qed
  then obtain v where v: "v \<in> set (distinct_providers f)" "?g v = Inl e"
    by (elim map_res_InlE)
  then have "\<not> quotable v" "e = UnquotableValue v"
    by (auto simp: quote_literal_eq bind_res_Inl_iff split: if_splits)
  moreover have "provider_clauses f = Inl e"
    using e \<open>distinct_providers f \<noteq> []\<close>
    by (cases "eq_provider_mode f") (simp_all add: provider_clauses_def op_def)
  ultimately show ?thesis using v(1) distinct_providers_subset [of f] by blast
qed

lemma select_body_ok:
  "list_all quotable (filter_literals f) \<Longrightarrow>
     select_body f ids = Inr (render_node (filter_node f ids))"
  by (simp add: select_body_def system_predicates_def filter_literals_def time_clauses_ok
      provider_clauses_ok level_clauses_node id_clauses_node keyword_clauses_node filter_node_def
      flip: wrap_body_node)

lemma select_body_fail:
  assumes "\<not> list_all quotable (filter_literals f)"
  shows "\<exists>v \<in> set (filter_literals f).
    \<not> quotable v \<and> (\<forall>ids. select_body f ids = Inl (UnquotableValue v))"
proof (cases "list_all quotable (time_literals f)")
  case True
  with assms have "\<not> list_all quotable (eq_providers f)" by (simp add: filter_literals_def)
  from provider_clauses_fail [OF this] True show ?thesis
    by (auto simp: select_body_def system_predicates_def filter_literals_def time_clauses_ok)
next
  case False
  from time_clauses_fail [OF this] show ?thesis
    by (auto simp: select_body_def system_predicates_def filter_literals_def)
qed

lemma node_matches_append [simp]:
  "node_matches (cs @ ds) e \<longleftrightarrow> node_matches cs e \<and> node_matches ds e"
  by (simp add: node_matches_def)

lemma node_cost_append [simp]: "node_cost (cs @ ds) = node_cost cs + node_cost ds"
  by (simp add: node_cost_def)

lemma time_node_matches:
  "node_matches (time_node f) e \<longleftrightarrow>
     (case eq_time f of None \<Rightarrow> True | Some w \<Rightarrow> window_matches w e)"
  by (auto simp: time_node_def node_matches_def split: option.splits time_window.splits
      elim!: opt_list.elims)

lemma level_node_matches:
  "node_matches (level_node f) e \<longleftrightarrow> eq_levels f = [] \<or> we_level e \<in> set (eq_levels f)"
  by (auto simp: level_node_def node_matches_def distinct_levels_Nil list_ex_iff set_distinct_levels)

lemma id_node_matches:
  "node_matches (id_node mode ids) e \<longleftrightarrow>
     mode_matches mode (\<lambda>s. selector_matches s (we_event_id e)) ids"
  by (cases mode) (auto simp: id_node_def node_matches_def mode_matches_def list_ex_iff list_all_iff
      id_test_of_simps)

lemma provider_node_matches:
  "node_matches (provider_node f) e \<longleftrightarrow>
     mode_matches (eq_provider_mode f) (\<lambda>p. eq_ignore_case p (we_provider e)) (eq_providers f)"
  using distinct_providers_match [of f "we_provider e"]
  by (cases "eq_provider_mode f") (auto simp: provider_node_def node_matches_def mode_matches_def
      list_ex_iff list_all_iff distinct_providers_Nil)

lemma keyword_node_matches:
  "node_matches (keyword_node f) e \<longleftrightarrow>
     (case eq_keywords f of None \<Rightarrow> True | Some k \<Rightarrow> we_keywords e AND k \<noteq> 0)"
  by (auto simp: keyword_node_def node_matches_def split: option.split)

lemmas node_part_matches = time_node_matches level_node_matches id_node_matches
  provider_node_matches keyword_node_matches

lemma filter_node_cost:
  assumes "list_all quotable (filter_literals f)"
  shows "node_cost (filter_node f ids) = fixed_expression_cost f + selectors_cost ids"
proof -
  have "node_cost (time_node f) = time_cost f"
    using assms
    by (auto simp: time_node_def time_cost_def node_cost_def time_predicate_Between time_literals_def
        filter_literals_def simp del: time_predicate.simps(2) split: option.splits time_window.splits)
  moreover have "node_cost (id_node mode ids) = selectors_cost ids" for mode
    by (cases mode) (simp_all add: id_node_def node_cost_def id_test_of_cost comp_def)
  moreover have "node_cost (provider_node f) = length (distinct_providers f)"
    by (cases "eq_provider_mode f") (simp_all add: provider_node_def node_cost_def)
  ultimately show ?thesis
    by (simp add: filter_node_def fixed_expression_cost_def level_node_def keyword_node_def
        node_cost_def split: option.split)
qed


subsection \<open>The whole query\<close>

lemma indivisible_selectors:
  assumes "fixed_expression_cost f + largest_selector_cost f \<le> max_expressions_per_select"
  shows "\<forall>s \<in> set (eq_event_ids f).
    expression_cost s + fixed_expression_cost f \<le> max_expressions_per_select"
  using assms largest_selector_cost_ge [of _ f] by fastforce

lemma suppress_node_render: "suppress_node = (\<lambda>c. render_suppress (map (id_test_of Include) c))"
  by (simp add: suppress_node_def render_suppress_def render_id_test_of comp_def fun_eq_iff
      escape_for_xml_eq join_or_def)

lemma over_budget_ids: "over_budget f \<Longrightarrow> eq_event_ids f \<noteq> []"
  by (simp add: over_budget_def)

lemma build_query_ok:
  assumes "fixed_expression_cost f + largest_selector_cost f \<le> max_expressions_per_select"
    and lits: "list_all quotable (filter_literals f)"
  shows "build_query f = Inr (render_doc (filter_doc f))"
proof -
  have "map_res (select_body f) cs = Inr (map render_node (map (filter_node f) cs))" for cs
    using map_res_total [of cs "select_body f" "\<lambda>c. render_node (filter_node f c)"] lits
    by (simp add: select_body_ok comp_def)
  then show ?thesis
    using assms(1) query_nodes_render [of 0 "map (filter_node f) cs" for cs]
    by (simp add: build_query_def filter_doc_def build_suppressed_query_def
        build_split_query_def select_body_ok [OF lits] suppress_node_render comp_def
        render_node_def [of "[]"] escape_for_xml_eq render_select_def dquote_def dec.simps [of 0] digit_def)
qed

lemma build_query_unfiltered: "is_unfiltered f \<Longrightarrow> build_query f = Inr (render_doc (filter_doc f))"
  by (simp add: build_query_def filter_doc_def render_node_def)

lemma build_query_unquotable:
  assumes "\<not> is_unfiltered f"
    and "fixed_expression_cost f + largest_selector_cost f \<le> max_expressions_per_select"
    and "\<not> list_all quotable (filter_literals f)"
  shows "\<exists>v \<in> set (filter_literals f). \<not> quotable v \<and> build_query f = Inl (UnquotableValue v)"
proof -
  obtain v where v: "v \<in> set (filter_literals f)" "\<not> quotable v"
    and sel: "\<And>ids. select_body f ids = Inl (UnquotableValue v)"
    using select_body_fail [OF assms(3)] by blast
  have split: "build_split_query f n = Inl (UnquotableValue v)" if "eq_event_ids f \<noteq> []" for n
  proof -
    have "chunk_by_expression_budget (eq_event_ids f) n \<noteq> []"
      using that concat_chunks [of "eq_event_ids f" n] by auto
    then show ?thesis by (cases "chunk_by_expression_budget (eq_event_ids f) n")
        (simp_all add: build_split_query_def sel)
  qed
  have "build_query f = Inl (UnquotableValue v)"
    using assms(1,2) by (simp add: build_query_def build_suppressed_query_def sel split over_budget_ids Let_def)
  with v show ?thesis by blast
qed

lemma build_query_InrD:
  assumes "build_query f = Inr q"
  shows "q = render_doc (filter_doc f)"
    and "is_unfiltered f \<or> list_all quotable (filter_literals f)
           \<and> fixed_expression_cost f + largest_selector_cost f \<le> max_expressions_per_select"
proof -
  consider "is_unfiltered f"
    | "\<not> is_unfiltered f" "fixed_expression_cost f + largest_selector_cost f > max_expressions_per_select"
    | "\<not> is_unfiltered f" "fixed_expression_cost f + largest_selector_cost f \<le> max_expressions_per_select"
    by linarith
  note cs = this
  from cs show "is_unfiltered f \<or> list_all quotable (filter_literals f)
      \<and> fixed_expression_cost f + largest_selector_cost f \<le> max_expressions_per_select"
    by cases (use assms build_query_unquotable [of f] in \<open>auto simp: build_query_def\<close>)
  then show "q = render_doc (filter_doc f)"
    using assms build_query_ok [of f] build_query_unfiltered [of f] by auto
qed

lemma filter_doc_matches: "doc_matches (filter_doc f) e \<longleftrightarrow> filter_matches f e"
proof (cases "is_unfiltered f")
  case True
  then show ?thesis
    by (simp add: filter_doc_def is_unfiltered_def filter_matches_def node_matches_def mode_matches_def)
next
  case False
  let ?m = "\<lambda>s. selector_matches s (we_event_id e)"
  have union: "list_ex (\<lambda>cs. node_matches cs e) (map (filter_node f) chunks)
      \<longleftrightarrow> (\<exists>c \<in> set chunks. mode_matches (eq_event_id_mode f) ?m c) \<and> node_matches (filter_node f []) e"
    for chunks
    by (auto simp: list_ex_iff filter_node_def id_node_matches mode_matches_def)
  have inc: "(\<exists>c \<in> set (chunk_by_expression_budget (eq_event_ids f) n). mode_matches Include ?m c)
      \<longleftrightarrow> (\<exists>s \<in> set (eq_event_ids f). ?m s)" for n
    using chunks_ex [of ?m "eq_event_ids f" n] chunks_nonempty [of "eq_event_ids f" n]
    by (auto simp: list_ex_iff mode_matches_def)
  have exc: "list_ex (list_ex (\<lambda>t. id_test_matches t (we_event_id e)))
        (map (map (id_test_of Include)) (chunk_by_expression_budget (eq_event_ids f) 0))
      \<longleftrightarrow> (\<exists>s \<in> set (eq_event_ids f). ?m s)"
    using chunks_ex [of ?m "eq_event_ids f" 0]
    by (simp add: list_ex_iff id_test_of_Include)
  have spec: "filter_matches f e \<longleftrightarrow> node_matches (filter_node f []) e
      \<and> mode_matches (eq_event_id_mode f) ?m (eq_event_ids f)"
    by (auto simp: filter_matches_def filter_node_def node_part_matches mode_matches_def)
  have bare: "node_matches (filter_node f ids) e \<longleftrightarrow> node_matches (filter_node f []) e
      \<and> mode_matches (eq_event_id_mode f) ?m ids" for ids
    by (auto simp: filter_node_def id_node_matches mode_matches_def)
  consider "over_budget f" "eq_event_id_mode f = Exclude"
    | "over_budget f" "eq_event_id_mode f = Include" | "\<not> over_budget f"
    by (cases "eq_event_id_mode f") auto
  then show ?thesis
  proof cases
    case 1
    with False have "doc_matches (filter_doc f) e \<longleftrightarrow>
        node_matches (filter_node f []) e \<and> \<not> (\<exists>s \<in> set (eq_event_ids f). ?m s)"
      by (simp add: filter_doc_def exc)
    with 1 show ?thesis by (simp add: spec mode_matches_def over_budget_ids)
  next
    case 2
    with False have "doc_matches (filter_doc f) e \<longleftrightarrow>
        (\<exists>s \<in> set (eq_event_ids f). ?m s) \<and> node_matches (filter_node f []) e"
      using inc by (simp add: filter_doc_def union)
    with 2 show ?thesis by (auto simp: spec mode_matches_def over_budget_ids)
  next
    case 3
    with False have "doc_matches (filter_doc f) e \<longleftrightarrow> node_matches (filter_node f (eq_event_ids f)) e"
      by (simp add: filter_doc_def)
    then show ?thesis using spec bare [of "eq_event_ids f"] by blast
  qed
qed

lemma filter_doc_costs:
  assumes "build_query f = Inr q" "n \<in> set (doc_node_costs (filter_doc f))"
  shows "n \<le> max_expressions_per_select"
proof (cases "is_unfiltered f")
  case True
  then show ?thesis using assms(2) by (simp add: filter_doc_def node_cost_def)
next
  case False
  with build_query_InrD(2) [OF assms(1)]
  have lits: "list_all quotable (filter_literals f)"
    and ind: "fixed_expression_cost f + largest_selector_cost f \<le> max_expressions_per_select"
    by auto
  note sel = indivisible_selectors [OF ind]
  have "selectors_cost c \<le> max_expressions_per_select"
    if "c \<in> set (chunk_by_expression_budget (eq_event_ids f) 0)" for c
    using chunks_cost [OF _ that] sel by fastforce
  moreover have "fixed_expression_cost f + selectors_cost c \<le> max_expressions_per_select"
    if "c \<in> set (chunk_by_expression_budget (eq_event_ids f) (fixed_expression_cost f))" for c
    using chunks_cost [OF sel that] by simp
  ultimately show ?thesis
    using assms(2) False ind
    by (auto simp: filter_doc_def filter_node_cost [OF lits] id_test_of_cost comp_def over_budget_def
        split: if_splits)
qed


subsection \<open>Reading literals and XML text back\<close>

text \<open>How the service reads a string literal (to the next occurrence of the opening quote) and the
  character data of an XML document (the predefined entities).\<close>

definition read_literal :: "string \<Rightarrow> (string \<times> string) option" where
  "read_literal s =
     (case s of
        [] \<Rightarrow> None
      | q # rest \<Rightarrow>
          if q = apos \<or> q = dquote
          then (case dropWhile (\<lambda>c. c \<noteq> q) rest of
                  [] \<Rightarrow> None
                | _ # after \<Rightarrow> Some (takeWhile (\<lambda>c. c \<noteq> q) rest, after))
          else None)"

definition entity :: "string \<Rightarrow> (char \<times> nat) option" where
  "entity s =
     (if prefix ''amp;'' s then Some (CHR ''&'', 4)
      else if prefix ''lt;'' s then Some (CHR ''<'', 3)
      else if prefix ''gt;'' s then Some (CHR ''>'', 3)
      else if prefix ''quot;'' s then Some (dquote, 5)
      else None)"

function unescape_xml :: "string \<Rightarrow> string option" where
  "unescape_xml [] = Some []"
| "unescape_xml (c # s) =
     (if c = CHR ''&''
      then (case entity s of
              None \<Rightarrow> None
            | Some (d, n) \<Rightarrow> map_option (Cons d) (unescape_xml (drop n s)))
      else if c = CHR ''<'' then None
      else map_option (Cons c) (unescape_xml s))"
  by pat_completeness auto
termination
  by (relation "measure length") auto

lemma unescape_escape_char:
  "unescape_xml (escape_char c @ s) = map_option (Cons c) (unescape_xml s)"
  by (simp add: escape_char_def entity_def dquote_def)

lemma unescape_escape: "unescape_xml (escape_for_xml s) = Some s"
  by (induction s) (simp_all add: escape_for_xml_def unescape_escape_char)

lemma set_escape_for_xml: "c \<in> {CHR ''<'', CHR ''>'', dquote} \<Longrightarrow> c \<notin> set (escape_for_xml s)"
  by (auto simp: escape_for_xml_def escape_char_def dquote_def split: if_splits)

lemma read_literal_quoted: "quotable v \<Longrightarrow> read_literal (quoted v @ rest) = Some (v, rest)"
proof -
  have "dropWhile (\<lambda>c. c \<noteq> q) (v @ q # rest) = q # rest"
    and "takeWhile (\<lambda>c. c \<noteq> q) (v @ q # rest) = v" if "q \<notin> set v" for q
    using that by (induction v) auto
  moreover assume "quotable v"
  ultimately show ?thesis
    by (auto simp: quotable_def quoted_def read_literal_def Let_def)
qed


subsection \<open>Properties\<close>

definition sample_exclusion :: event_query_filter where
  "sample_exclusion = default_filter\<lparr>eq_levels := [2],
     eq_event_ids := map (\<lambda>n. Range (of_nat n) (of_nat n + 3)) [0..<12],
     eq_event_id_mode := Exclude\<rparr>"

lemma sample_exclusion_builds: "\<not> isl (build_query sample_exclusion)"
proof -
  have "fixed_expression_cost sample_exclusion + largest_selector_cost sample_exclusion
      \<le> max_expressions_per_select" "list_all quotable (filter_literals sample_exclusion)"
    by code_simp+
  then show ?thesis by (simp add: build_query_ok)
qed

text \<open>C21. No node of a query costs the service more than the twenty expressions the code budgets for:
  the terms repeated in every node, the chunk of Event IDs of the node, and every suppression.\<close>

theorem build_query_within_budget:
  assumes "build_query f = Inr q"
  shows "q = render_doc (filter_doc f) \<and> list_all (\<lambda>n. n \<le> 20) (doc_node_costs (filter_doc f))"
  using assms by (auto simp: build_query_InrD(1) list_all_iff max_expressions_per_select_def
      dest: filter_doc_costs)

theorem build_query_within_budget_witness:
  "\<exists>q. build_query sample_exclusion = Inr q \<and> q = render_doc (filter_doc sample_exclusion)
     \<and> list_all (\<lambda>n. n \<le> 20) (doc_node_costs (filter_doc sample_exclusion))
     \<and> length (doc_node_costs (filter_doc sample_exclusion)) = 3"
proof -
  obtain q where q: "build_query sample_exclusion = Inr q"
    using sample_exclusion_builds by (cases "build_query sample_exclusion") auto
  have "length (doc_node_costs (filter_doc sample_exclusion)) = 3" by code_simp
  with q build_query_within_budget [OF q] show ?thesis by blast
qed

text \<open>The result of \<open>build_query\<close> on every branch: a query exactly when the filter is empty or its
  indivisible terms fit one node and all its literals can be quoted; \<open>FilterTooComplex\<close> exactly when
  the indivisible terms do not fit, with their number and the limit; \<open>UnquotableValue\<close> only for a
  literal of the filter that holds both quote characters.\<close>

theorem build_query_outcomes:
  "(let needed = fixed_expression_cost f + largest_selector_cost f in
    case build_query f of
      Inr q \<Rightarrow> is_unfiltered f \<or> needed \<le> 20 \<and> list_all quotable (filter_literals f)
    | Inl (FilterTooComplex n limit) \<Rightarrow> \<not> is_unfiltered f \<and> needed > 20 \<and> n = needed \<and> limit = 20
    | Inl (UnquotableValue v) \<Rightarrow>
        \<not> is_unfiltered f \<and> needed \<le> 20 \<and> v \<in> set (filter_literals f)
        \<and> apos \<in> set v \<and> dquote \<in> set v)"
proof -
  let ?n = "fixed_expression_cost f + largest_selector_cost f"
  consider "is_unfiltered f" | "\<not> is_unfiltered f" "?n > 20"
    | "\<not> is_unfiltered f" "?n \<le> 20" "list_all quotable (filter_literals f)"
    | "\<not> is_unfiltered f" "?n \<le> 20" "\<not> list_all quotable (filter_literals f)"
    by linarith
  then show ?thesis
  proof cases
    case 1
    then show ?thesis by (simp add: build_query_unfiltered)
  next
    case 2
    then have "build_query f = Inl (FilterTooComplex ?n 20)"
      by (simp add: build_query_def max_expressions_per_select_def)
    with 2 show ?thesis by (simp add: Let_def)
  next
    case 3
    then have "build_query f = Inr (render_doc (filter_doc f))"
      by (simp add: build_query_ok max_expressions_per_select_def)
    with 3 show ?thesis by (simp add: Let_def)
  next
    case 4
    then obtain v where "v \<in> set (filter_literals f)" "\<not> quotable v"
      "build_query f = Inl (UnquotableValue v)"
      using build_query_unquotable [of f] by (auto simp: max_expressions_per_select_def)
    with 4 show ?thesis by (simp add: Let_def quotable_def)
  qed
qed

text \<open>A literal \<open>build_query\<close> embeds is read back by the service as the value that was quoted,
  whatever follows it: a value cannot end its own literal and inject query syntax.\<close>

theorem quote_literal_roundtrip:
  assumes "quote_literal v = Inr l"
  shows "read_literal (l @ rest) = Some (v, rest)"
  using assms by (auto simp: quote_literal_eq read_literal_quoted split: if_splits)

theorem quote_literal_roundtrip_witness:
  "read_literal ((dquote # ''Evil'' @ [apos] @ '' or '' @ [apos, dquote]) @ '']]'')
     = Some (''Evil'' @ [apos] @ '' or '' @ [apos], '']]'')"
  by (rule quote_literal_roundtrip) code_simp

text \<open>An expression embedded in a \<open>QueryList\<close> survives the XML layer: unescaping the character
  data gives the expression back, and the escaped text holds no markup or quote character.\<close>

theorem escape_for_xml_roundtrip:
  "unescape_xml (escape_for_xml s) = Some s
     \<and> set (escape_for_xml s) \<inter> {CHR ''<'', CHR ''>'', dquote} = {}"
  using unescape_escape set_escape_for_xml by blast

text \<open>Splitting Event IDs into chunks loses, repeats and reorders nothing, makes no empty chunk, and
  keeps every chunk within what the fixed terms leave of the budget.\<close>

theorem chunk_by_expression_budget_correct:
  assumes "\<forall>s \<in> set ss. expression_cost s + fixed \<le> max_expressions_per_select"
  shows "concat (chunk_by_expression_budget ss fixed) = ss
    \<and> [] \<notin> set (chunk_by_expression_budget ss fixed)
    \<and> (\<forall>c \<in> set (chunk_by_expression_budget ss fixed).
         selectors_cost c + fixed \<le> max_expressions_per_select)"
  using assms by (auto simp: concat_chunks chunks_nonempty intro: chunks_cost)

theorem chunk_by_expression_budget_correct_witness:
  "concat (chunk_by_expression_budget [Range 1 2, Single 3, Range 4 9, Single 5] 17)
     = [Range 1 2, Single 3, Range 4 9, Single 5]"
proof -
  have "\<forall>s \<in> set [Range 1 2, Single 3, Range 4 9, Single 5].
      expression_cost s + 17 \<le> max_expressions_per_select"
    by (simp add: max_expressions_per_select_def)
  from chunk_by_expression_budget_correct [OF this] show ?thesis by blast
qed

end
