(* ===== verification/EventQueryRead.thy ===== *)
theory EventQueryRead
  imports EventQuerySem
begin

unbundle bit_operations_syntax

text \<open>
  A reader of the service's query language. \<open>query_selects\<close> takes the finished string and an event
  and evaluates the query on it: the XML layer (query list, \<open>Select\<close> and \<open>Suppress\<close> nodes, character
  data with the predefined entities), then the expression of each node by recursive descent with
  \<open>and\<close> binding tighter than \<open>or\<close>, numbers in decimal and literals to their closing quote. It shares
  nothing with the builders of \<open>EventQuery\<close>, so that the theorem at the end is about the very
  characters \<open>build_query\<close> emits.
\<close>

subsection \<open>Comparisons\<close>

datatype comparison = CEq | CNe | CGe | CLe | CGt | CLt

definition read_token :: "string \<Rightarrow> string \<Rightarrow> string option" where
  "read_token t s = (if take (length t) s = t then Some (drop (length t) s) else None)"

definition skip_blanks :: "string \<Rightarrow> string" where
  "skip_blanks = dropWhile (\<lambda>c. c = CHR '' '')"

fun read_comparison :: "string \<Rightarrow> (comparison \<times> string) option" where
  "read_comparison (c # s) =
     (if c = CHR ''='' then Some (CEq, s)
      else if c = CHR ''!'' \<and> take 1 s = ''='' then Some (CNe, drop 1 s)
      else if c = CHR ''>'' then (if take 1 s = ''='' then Some (CGe, drop 1 s) else Some (CGt, s))
      else if c = CHR ''<'' then (if take 1 s = ''='' then Some (CLe, drop 1 s) else Some (CLt, s))
      else None)"
| "read_comparison [] = None"

fun compare_nat :: "comparison \<Rightarrow> nat \<Rightarrow> nat \<Rightarrow> bool" where
  "compare_nat CEq a b \<longleftrightarrow> a = b"
| "compare_nat CNe a b \<longleftrightarrow> a \<noteq> b"
| "compare_nat CGe a b \<longleftrightarrow> a \<ge> b"
| "compare_nat CLe a b \<longleftrightarrow> a \<le> b"
| "compare_nat CGt a b \<longleftrightarrow> a > b"
| "compare_nat CLt a b \<longleftrightarrow> a < b"

definition digit_value :: "char \<Rightarrow> nat" where
  "digit_value c = of_char c - 48"

definition read_number :: "string \<Rightarrow> (nat \<times> string) option" where
  "read_number s =
     (let ds = takeWhile is_digit s in
      if ds = [] then None
      else Some (foldl (\<lambda>n c. 10 * n + digit_value c) 0 ds, dropWhile is_digit s))"

text \<open>\<open>operand comparison value\<close>, with blanks allowed around the comparison.\<close>

definition number_test :: "nat \<Rightarrow> string \<Rightarrow> (bool \<times> string) option" where
  "number_test x s =
     (case read_comparison (skip_blanks s) of
        None \<Rightarrow> None
      | Some (r, s) \<Rightarrow>
          (case read_number (skip_blanks s) of
             None \<Rightarrow> None
           | Some (n, s) \<Rightarrow> Some (compare_nat r x n, s)))"

definition literal_test ::
  "(comparison \<Rightarrow> string \<Rightarrow> bool option) \<Rightarrow> string \<Rightarrow> (bool \<times> string) option" where
  "literal_test t s =
     (case read_comparison (skip_blanks s) of
        None \<Rightarrow> None
      | Some (r, s) \<Rightarrow>
          (case read_literal (skip_blanks s) of
             None \<Rightarrow> None
           | Some (v, s) \<Rightarrow> map_option (\<lambda>b. (b, s)) (t r v)))"

subsection \<open>Atoms\<close>

text \<open>The element whose children or attributes an expression names.\<close>

datatype focus = SystemElement | TimeCreatedElement | ProviderElement

fun time_literal_test :: "win_event \<Rightarrow> comparison \<Rightarrow> string \<Rightarrow> bool option" where
  "time_literal_test e CGe v = Some (we_not_before e v)"
| "time_literal_test e CLe v = Some (we_not_after e v)"
| "time_literal_test e _ v = None"

fun provider_test :: "win_event \<Rightarrow> comparison \<Rightarrow> string \<Rightarrow> bool option" where
  "provider_test e CEq v = Some (eq_ignore_case v (we_provider e))"
| "provider_test e CNe v = Some (\<not> eq_ignore_case v (we_provider e))"
| "provider_test e _ v = None"

definition keyword_test :: "win_event \<Rightarrow> string \<Rightarrow> (bool \<times> string) option" where
  "keyword_test e s =
     (case read_number s of
        Some (n, c # s) \<Rightarrow>
          if c = CHR '')'' \<and> n < 2 ^ 64 then Some (we_keywords e AND word_of_nat n \<noteq> 0, s) else None
      | _ \<Rightarrow> None)"

fun eval_atom :: "focus \<Rightarrow> win_event \<Rightarrow> string \<Rightarrow> (bool \<times> string) option" where
  "eval_atom SystemElement e s =
     (case read_token ''EventID'' s of
        Some s \<Rightarrow> number_test (unat (we_event_id e)) s
      | None \<Rightarrow>
      (case read_token ''Level'' s of
         Some s \<Rightarrow> number_test (unat (we_level e)) s
       | None \<Rightarrow>
       (case read_token ''band(Keywords,'' s of
          Some s \<Rightarrow> keyword_test e s
        | None \<Rightarrow> None)))"
| "eval_atom TimeCreatedElement e s =
     (case read_token ''timediff(@SystemTime)'' s of
        Some s \<Rightarrow> number_test (we_age e) s
      | None \<Rightarrow>
      (case read_token ''@SystemTime'' s of
         Some s \<Rightarrow> literal_test (time_literal_test e) s
       | None \<Rightarrow> None))"
| "eval_atom ProviderElement e s =
     (case read_token ''@Name'' s of
        Some s \<Rightarrow> literal_test (provider_test e) s
      | None \<Rightarrow> None)"

subsection \<open>Expressions\<close>

text \<open>\<open>or\<close> below \<open>and\<close> below units; the first argument is fuel, one per call.\<close>

function (sequential) eval_or :: "nat \<Rightarrow> focus \<Rightarrow> win_event \<Rightarrow> string \<Rightarrow> (bool \<times> string) option"
and eval_and :: "nat \<Rightarrow> focus \<Rightarrow> win_event \<Rightarrow> string \<Rightarrow> (bool \<times> string) option"
and eval_unit :: "nat \<Rightarrow> focus \<Rightarrow> win_event \<Rightarrow> string \<Rightarrow> (bool \<times> string) option"
and eval_closed :: "nat \<Rightarrow> char \<Rightarrow> focus \<Rightarrow> win_event \<Rightarrow> string \<Rightarrow> (bool \<times> string) option" where
  "eval_or 0 c e s = None"
| "eval_or (Suc n) c e s =
     (case eval_and n c e s of
        None \<Rightarrow> None
      | Some (b, s) \<Rightarrow>
          (case read_token '' or '' s of
             None \<Rightarrow> Some (b, s)
           | Some s \<Rightarrow> map_option (\<lambda>(b', s). (b \<or> b', s)) (eval_or n c e s)))"
| "eval_and 0 c e s = None"
| "eval_and (Suc n) c e s =
     (case eval_unit n c e s of
        None \<Rightarrow> None
      | Some (b, s) \<Rightarrow>
          (case read_token '' and '' s of
             None \<Rightarrow> Some (b, s)
           | Some s \<Rightarrow> map_option (\<lambda>(b', s). (b \<and> b', s)) (eval_and n c e s)))"
| "eval_unit 0 c e s = None"
| "eval_unit (Suc n) c e s =
     (case read_token ''('' s of
        Some s \<Rightarrow> eval_closed n (CHR '')'') c e s
      | None \<Rightarrow>
      (if c = SystemElement
       then (case read_token ''TimeCreated['' s of
               Some s \<Rightarrow> eval_closed n (CHR '']'') TimeCreatedElement e s
             | None \<Rightarrow>
             (case read_token ''Provider['' s of
                Some s \<Rightarrow> eval_closed n (CHR '']'') ProviderElement e s
              | None \<Rightarrow> eval_atom c e s))
       else eval_atom c e s))"
| "eval_closed 0 d c e s = None"
| "eval_closed (Suc n) d c e s =
     (case eval_or n c e s of
        Some (b, d' # s) \<Rightarrow> if d' = d then Some (b, s) else None
      | _ \<Rightarrow> None)"
  by pat_completeness auto
termination
  by (relation "measure (case_sum (case_sum fst fst) (case_sum fst fst))") simp_all

text \<open>A whole expression: every event, or the events whose \<open>System\<close> element satisfies a predicate.\<close>

definition expression_selects :: "string \<Rightarrow> win_event \<Rightarrow> bool option" where
  "expression_selects s e =
     (if s = ''*'' then Some True
      else (case read_token ''*[System['' s of
              None \<Rightarrow> None
            | Some s \<Rightarrow>
                (case eval_or (4 * length s + 4) SystemElement e s of
                   Some (b, rest) \<Rightarrow> if rest = '']]'' then Some b else None
                 | None \<Rightarrow> None)))"

subsection \<open>The XML layer\<close>

text \<open>The expression inside an element whose start tag has been read, up to its end tag.\<close>

definition element_selects :: "string \<Rightarrow> win_event \<Rightarrow> string \<Rightarrow> (bool \<times> string) option" where
  "element_selects close e s =
     (case unescape_xml (takeWhile (\<lambda>c. c \<noteq> CHR ''<'') s) of
        None \<Rightarrow> None
      | Some x \<Rightarrow>
          (case (expression_selects x e, read_token close (dropWhile (\<lambda>c. c \<noteq> CHR ''<'') s)) of
             (Some b, Some s) \<Rightarrow> Some (b, s)
           | _ \<Rightarrow> None))"

text \<open>The \<open>Suppress\<close> elements of a node: whether one of them matches.\<close>

fun suppressed :: "nat \<Rightarrow> win_event \<Rightarrow> string \<Rightarrow> (bool \<times> string) option" where
  "suppressed 0 e s = None"
| "suppressed (Suc n) e s =
     (case read_token ''<Suppress>'' s of
        None \<Rightarrow> Some (False, s)
      | Some s \<Rightarrow>
          (case element_selects ''</Suppress>'' e s of
             None \<Rightarrow> None
           | Some (b, s) \<Rightarrow> map_option (\<lambda>(b', s). (b \<or> b', s)) (suppressed n e s)))"

definition read_node_start :: "string \<Rightarrow> string option" where
  "read_node_start s =
     (case read_token (''<Query Id='' @ [dquote]) s of
        None \<Rightarrow> None
      | Some s \<Rightarrow>
          (case read_number s of
             None \<Rightarrow> None
           | Some (_, s) \<Rightarrow> read_token (dquote # ''><Select>'') s))"

text \<open>One \<open>Query\<close> node: selected and not suppressed.\<close>

definition node_selects :: "win_event \<Rightarrow> string \<Rightarrow> (bool \<times> string) option" where
  "node_selects e s =
     (case read_node_start s of
        None \<Rightarrow> None
      | Some s \<Rightarrow>
          (case element_selects ''</Select>'' e s of
             None \<Rightarrow> None
           | Some (b, s) \<Rightarrow>
               (case suppressed (length s + 1) e s of
                  None \<Rightarrow> None
                | Some (x, s) \<Rightarrow>
                    map_option (\<lambda>s. (b \<and> \<not> x, s)) (read_token ''</Query>'' s))))"

text \<open>The union of the nodes of a query list.\<close>

fun nodes_select :: "nat \<Rightarrow> win_event \<Rightarrow> string \<Rightarrow> bool option" where
  "nodes_select 0 e s = None"
| "nodes_select (Suc n) e s =
     (if s = ''</QueryList>'' then Some False
      else (case node_selects e s of
              None \<Rightarrow> None
            | Some (b, s) \<Rightarrow> map_option (\<lambda>b'. b \<or> b') (nodes_select n e s)))"

definition query_selects :: "string \<Rightarrow> win_event \<Rightarrow> bool option" where
  "query_selects q e =
     (case read_token ''<QueryList>'' q of
        None \<Rightarrow> expression_selects q e
      | Some s \<Rightarrow> nodes_select (length s + 1) e s)"

subsection \<open>Reading back what is rendered\<close>

text \<open>What may follow a unit of an expression, and a whole parenthesised expression.\<close>

definition ends :: "string \<Rightarrow> bool" where
  "ends rest \<longleftrightarrow> rest \<noteq> [] \<and> hd rest \<in> {CHR '' '', CHR '')'', CHR '']''}"

definition closes :: "string \<Rightarrow> bool" where
  "closes rest \<longleftrightarrow> rest \<noteq> [] \<and> hd rest \<in> {CHR '')'', CHR '']''}"

lemma ends_Cons [simp]: "ends (c # s) \<longleftrightarrow> c \<in> {CHR '' '', CHR '')'', CHR '']''}"
  and closes_Cons [simp]: "closes (c # s) \<longleftrightarrow> c \<in> {CHR '')'', CHR '']''}"
  by (simp_all add: ends_def closes_def)

lemma closes_ends: "closes s \<Longrightarrow> ends s"
  by (auto simp: closes_def ends_def)

lemma closes_no_token: "closes s \<Longrightarrow> read_token '' or '' s = None \<and> read_token '' and '' s = None"
  by (cases s) (auto simp: read_token_def)

lemma read_token_append: "read_token t (t @ s) = Some s"
  by (simp add: read_token_def)

lemma skip_blanks_simps [simp]:
  "skip_blanks (CHR '' '' # s) = skip_blanks s"
  "c \<noteq> CHR '' '' \<Longrightarrow> skip_blanks (c # s) = c # s"
  by (simp_all add: skip_blanks_def)

lemma digit_value_digit: "n < 10 \<Longrightarrow> digit_value (digit n) = n"
  by (cases "n \<in> {0,1,2,3,4,5,6,7,8,9}") (auto simp: digit_value_def digit_def)

lemma foldl_dec: "foldl (\<lambda>n c. 10 * n + digit_value c) 0 (dec n) = n"
proof (induction n rule: dec.induct)
  case (1 n)
  show ?case
  proof (cases "n < 10")
    case True
    then show ?thesis by (subst dec.simps) (simp add: digit_value_digit)
  next
    case False
    with 1 show ?thesis by (subst dec.simps) (simp add: digit_value_digit)
  qed
qed

lemma read_number_dec:
  assumes "rest = [] \<or> \<not> is_digit (hd rest)"
  shows "read_number (dec n @ rest) = Some (n, rest)"
proof -
  have "\<forall>c \<in> set (dec n). is_digit c" using dec_digits by blast
  then have "takeWhile is_digit (dec n @ rest) = dec n" "dropWhile is_digit (dec n @ rest) = rest"
    using assms by (cases rest; auto simp: takeWhile_append dropWhile_append)+
  then show ?thesis by (simp add: read_number_def foldl_dec)
qed

lemma skip_blanks_dec: "skip_blanks (dec n @ s) = dec n @ s"
proof -
  obtain c cs where "dec n = c # cs" by (cases "dec n") auto
  moreover from this have "is_digit c" using dec_digits [of c n] by simp
  ultimately show ?thesis by (auto simp: is_digit_def)
qed

lemma ends_no_digit: "ends rest \<Longrightarrow> rest = [] \<or> \<not> is_digit (hd rest)"
  by (auto simp: ends_def is_digit_def)

lemma number_test_dec:
  assumes "ends rest"
  shows "number_test x (''='' @ dec n @ rest) = Some (x = n, rest)"
    and "number_test x (''!='' @ dec n @ rest) = Some (x \<noteq> n, rest)"
    and "number_test x ('' >= '' @ dec n @ rest) = Some (x \<ge> n, rest)"
    and "number_test x ('' <= '' @ dec n @ rest) = Some (x \<le> n, rest)"
    and "number_test x ('' > '' @ dec n @ rest) = Some (x > n, rest)"
    and "number_test x ('' < '' @ dec n @ rest) = Some (x < n, rest)"
  using read_number_dec [OF ends_no_digit [OF assms], of n]
  by (simp_all add: number_test_def skip_blanks_dec)

lemma skip_blanks_quoted: "skip_blanks (quoted v @ s) = quoted v @ s"
  by (simp add: quoted_def Let_def apos_def dquote_def)

lemma literal_test_quoted:
  assumes "quotable v"
  shows "literal_test t (''='' @ quoted v @ rest) = map_option (\<lambda>b. (b, rest)) (t CEq v)"
    and "literal_test t (''!='' @ quoted v @ rest) = map_option (\<lambda>b. (b, rest)) (t CNe v)"
    and "literal_test t ('' >= '' @ quoted v @ rest) = map_option (\<lambda>b. (b, rest)) (t CGe v)"
    and "literal_test t ('' <= '' @ quoted v @ rest) = map_option (\<lambda>b. (b, rest)) (t CLe v)"
  using read_literal_quoted [OF assms, of rest]
  by (simp_all add: literal_test_def skip_blanks_quoted)

lemma unat_eq_iff: "unat (a :: 'a::len word) = unat b \<longleftrightarrow> a = b"
  by (simp add: word_unat_eq_iff)

text \<open>A text read as one unit, with the value it has.\<close>

definition unit_reads :: "focus \<Rightarrow> win_event \<Rightarrow> string \<Rightarrow> bool \<Rightarrow> bool" where
  "unit_reads c e s b \<longleftrightarrow>
     s \<noteq> [] \<and> (\<forall>n rest. 4 * length s \<le> n \<longrightarrow> ends rest \<longrightarrow> eval_unit n c e (s @ rest) = Some (b, rest))"

lemma unit_reads_atom:
  assumes "s \<noteq> []" and "\<And>rest. read_token ''('' (s @ rest) = None"
    and "c = SystemElement \<Longrightarrow>
      (\<forall>rest. read_token ''TimeCreated['' (s @ rest) = None \<and> read_token ''Provider['' (s @ rest) = None)"
    and "\<And>rest. ends rest \<Longrightarrow> eval_atom c e (s @ rest) = Some (b, rest)"
  shows "unit_reads c e s b"
  unfolding unit_reads_def
proof (intro conjI allI impI)
  fix n rest assume "4 * length s \<le> n" "ends rest"
  moreover have "0 < length s" using assms(1) by simp
  ultimately obtain m where "n = Suc m" by (cases n) auto
  then show "eval_unit n c e (s @ rest) = Some (b, rest)"
    using assms(2-4) \<open>ends rest\<close> by (cases "c = SystemElement") simp_all
qed (rule assms(1))

lemma eval_and_reads:
  assumes "\<forall>x \<in> set xs. unit_reads c e (f x) (p x)" "xs \<noteq> []"
    and "4 * length (join '' and '' (map f xs)) + 1 \<le> n" "ends rest" "read_token '' and '' rest = None"
  shows "eval_and n c e (join '' and '' (map f xs) @ rest) = Some (list_all p xs, rest)"
  using assms
proof (induction xs arbitrary: n)
  case (Cons x xs)
  from Cons.prems(3) obtain m where n: "n = Suc m" by (cases n) auto
  have x: "unit_reads c e (f x) (p x)" using Cons.prems(1) by simp
  show ?case
  proof (cases "xs = []")
    case True
    with x Cons.prems n show ?thesis by (simp add: unit_reads_def)
  next
    case False
    then have j: "join '' and '' (map f (x # xs)) = f x @ '' and '' @ join '' and '' (map f xs)"
      by (simp add: join_Cons)
    have len: "4 * length (f x) \<le> m" "4 * length (join '' and '' (map f xs)) + 1 \<le> m"
      using Cons.prems(3) [unfolded j n] by simp_all
    have "eval_unit m c e (f x @ '' and '' @ join '' and '' (map f xs) @ rest)
        = Some (p x, '' and '' @ join '' and '' (map f xs) @ rest)"
      using x len(1) by (simp add: unit_reads_def)
    moreover have "eval_and m c e (join '' and '' (map f xs) @ rest) = Some (list_all p xs, rest)"
      using Cons.IH [OF _ False len(2)] Cons.prems by simp
    ultimately show ?thesis unfolding n j by (simp add: read_token_def)
  qed
qed simp

lemma eval_or_reads:
  assumes "\<forall>x \<in> set xs. unit_reads c e (f x) (p x)" "xs \<noteq> []"
    and "4 * length (join '' or '' (map f xs)) + 2 \<le> n" "closes rest"
  shows "eval_or n c e (join '' or '' (map f xs) @ rest) = Some (list_ex p xs, rest)"
  using assms
proof (induction xs arbitrary: n)
  case (Cons x xs)
  from Cons.prems(3) obtain m where n: "n = Suc m" by (cases n) auto
  have one: "eval_and m c e (f x @ r) = Some (p x, r)"
    if "4 * length (f x) + 1 \<le> m" "ends r" "read_token '' and '' r = None" for r
    using eval_and_reads [of "[x]" c e f p m r] Cons.prems(1) that by simp
  show ?case
  proof (cases "xs = []")
    case True
    with one Cons.prems n show ?thesis by (simp add: closes_ends closes_no_token)
  next
    case False
    then have j: "join '' or '' (map f (x # xs)) = f x @ '' or '' @ join '' or '' (map f xs)"
      by (simp add: join_Cons)
    have len: "4 * length (f x) + 1 \<le> m" "4 * length (join '' or '' (map f xs)) + 2 \<le> m"
      using Cons.prems(3) [unfolded j n] by simp_all
    have "eval_and m c e (f x @ '' or '' @ join '' or '' (map f xs) @ rest)
        = Some (p x, '' or '' @ join '' or '' (map f xs) @ rest)"
      by (rule one [OF len(1)]) (simp_all add: read_token_def)
    moreover have "eval_or m c e (join '' or '' (map f xs) @ rest) = Some (list_ex p xs, rest)"
      using Cons.IH [OF _ False len(2)] Cons.prems by simp
    ultimately show ?thesis unfolding n j by (simp add: read_token_def)
  qed
qed simp

lemma eval_or_and_reads:
  assumes "\<forall>x \<in> set xs. unit_reads c e (f x) (p x)" "xs \<noteq> []"
    and "4 * length (join '' and '' (map f xs)) + 2 \<le> n" "closes rest"
  shows "eval_or n c e (join '' and '' (map f xs) @ rest) = Some (list_all p xs, rest)"
proof -
  obtain m where n: "n = Suc m" using assms(3) by (cases n) auto
  then show ?thesis
    using eval_and_reads [OF assms(1,2), of m rest] assms(3,4)
    by (simp add: closes_ends closes_no_token)
qed

text \<open>A text read as an \<open>or\<close> expression up to its closing bracket.\<close>

definition or_reads :: "focus \<Rightarrow> win_event \<Rightarrow> string \<Rightarrow> bool \<Rightarrow> bool" where
  "or_reads c e s b \<longleftrightarrow>
     (\<forall>n rest. 4 * length s + 2 \<le> n \<longrightarrow> closes rest \<longrightarrow> eval_or n c e (s @ rest) = Some (b, rest))"

lemma or_reads_join:
  assumes "\<forall>x \<in> set xs. unit_reads c e (f x) (p x)" "xs \<noteq> []"
  shows "or_reads c e (join '' or '' (map f xs)) (list_ex p xs)"
    and "or_reads c e (join '' and '' (map f xs)) (list_all p xs)"
  using eval_or_reads [OF assms] eval_or_and_reads [OF assms] by (simp_all add: or_reads_def)

lemma or_reads_unit: "unit_reads c e s b \<Longrightarrow> or_reads c e s b"
  using or_reads_join(1) [of "[()]" c e "\<lambda>_. s" "\<lambda>_. b"] by simp

lemma eval_closed_reads:
  assumes "or_reads c e s b" "4 * length s + 3 \<le> n" "d \<in> {CHR '')'', CHR '']''}"
  shows "eval_closed n d c e (s @ d # rest) = Some (b, rest)"
proof -
  obtain m where "n = Suc m" using assms(2) by (cases n) auto
  with assms show ?thesis by (auto simp: or_reads_def)
qed

lemma unit_reads_parens:
  assumes "or_reads c e s b"
  shows "unit_reads c e (''('' @ s @ '')'') b"
  unfolding unit_reads_def
proof (intro conjI allI impI)
  fix n rest assume len: "4 * length (''('' @ s @ '')'') \<le> n"
  then obtain m where n: "n = Suc m" by (cases n) auto
  with len have "4 * length s + 3 \<le> m" by simp
  from eval_closed_reads [OF assms this, of "CHR '')''"]
  show "eval_unit n c e ((''('' @ s @ '')'') @ rest) = Some (b, rest)"
    by (simp add: n read_token_def)
qed simp

lemma unit_reads_time:
  assumes "or_reads TimeCreatedElement e s b"
  shows "unit_reads SystemElement e (''TimeCreated['' @ s @ '']'') b"
  unfolding unit_reads_def
proof (intro conjI allI impI)
  fix n rest assume len: "4 * length (''TimeCreated['' @ s @ '']'') \<le> n"
  then obtain m where n: "n = Suc m" by (cases n) auto
  with len have "4 * length s + 3 \<le> m" by simp
  from eval_closed_reads [OF assms this, of "CHR '']''"]
  show "eval_unit n SystemElement e ((''TimeCreated['' @ s @ '']'') @ rest) = Some (b, rest)"
    by (simp add: n read_token_def)
qed simp

lemma unit_reads_provider:
  assumes "or_reads ProviderElement e s b"
  shows "unit_reads SystemElement e (''Provider['' @ s @ '']'') b"
  unfolding unit_reads_def
proof (intro conjI allI impI)
  fix n rest assume len: "4 * length (''Provider['' @ s @ '']'') \<le> n"
  then obtain m where n: "n = Suc m" by (cases n) auto
  with len have "4 * length s + 3 \<le> m" by simp
  from eval_closed_reads [OF assms this, of "CHR '']''"]
  show "eval_unit n SystemElement e ((''Provider['' @ s @ '']'') @ rest) = Some (b, rest)"
    by (simp add: n read_token_def)
qed simp

subsection \<open>The atoms\<close>

lemma id_equal_reads: "unit_reads SystemElement e (''EventID='' @ dec n) (unat (we_event_id e) = n)"
  and id_unequal_reads: "unit_reads SystemElement e (''EventID!='' @ dec n) (unat (we_event_id e) \<noteq> n)"
  and id_least_reads: "unit_reads SystemElement e (''EventID >= '' @ dec n) (unat (we_event_id e) \<ge> n)"
  and id_most_reads: "unit_reads SystemElement e (''EventID <= '' @ dec n) (unat (we_event_id e) \<le> n)"
  and id_above_reads: "unit_reads SystemElement e (''EventID > '' @ dec n) (unat (we_event_id e) > n)"
  and id_below_reads: "unit_reads SystemElement e (''EventID < '' @ dec n) (unat (we_event_id e) < n)"
  and level_reads: "unit_reads SystemElement e (''Level='' @ dec n) (unat (we_level e) = n)"
  and age_reads: "unit_reads TimeCreatedElement e (''timediff(@SystemTime) <= '' @ dec n) (we_age e \<le> n)"
  by (rule unit_reads_atom; use number_test_dec [of _ _ n] in \<open>simp add: read_token_def\<close>)+

lemma level_word_reads: "unit_reads SystemElement e (''Level='' @ dec_word l) (we_level e = l)"
  using level_reads [of e "unat l"] by (simp only: unat_eq_iff)

lemma keyword_reads:
  "unit_reads SystemElement e (''band(Keywords,'' @ dec_word k @ '')'') (we_keywords e AND k \<noteq> 0)"
proof (rule unit_reads_atom)
  fix rest
  have "read_number (dec_word k @ CHR '')'' # rest) = Some (unat k, CHR '')'' # rest)"
    by (rule read_number_dec) (simp add: is_digit_def)
  moreover have "unat k < 2 ^ 64" using unsigned_less [of k] by simp
  ultimately show "eval_atom SystemElement e ((''band(Keywords,'' @ dec_word k @ '')'') @ rest)
      = Some (we_keywords e AND k \<noteq> 0, rest)"
    by (simp add: read_token_def keyword_test_def)
qed (simp_all add: read_token_def)

lemma literal_reads:
  assumes "quotable v"
  shows "unit_reads TimeCreatedElement e (''@SystemTime >= '' @ quoted v) (we_not_before e v)"
    and "unit_reads TimeCreatedElement e (''@SystemTime <= '' @ quoted v) (we_not_after e v)"
    and "unit_reads ProviderElement e (''@Name='' @ quoted v) (eq_ignore_case v (we_provider e))"
    and "unit_reads ProviderElement e (''@Name!='' @ quoted v) (\<not> eq_ignore_case v (we_provider e))"
  by (rule unit_reads_atom; use literal_test_quoted [OF assms] in \<open>simp add: read_token_def\<close>)+

lemma render_id_reads:
  "unit_reads SystemElement e (render_id t) (id_test_matches t (we_event_id e))"
proof (cases t)
  case (IdEq i)
  then show ?thesis using id_equal_reads [of e "unat i"] by (simp add: unat_eq_iff)
next
  case (IdNe i)
  then show ?thesis using id_unequal_reads [of e "unat i"] by (simp add: unat_eq_iff)
next
  case (IdWithin lo hi)
  let ?f = "\<lambda>(s, b). s" and ?p = "\<lambda>(s, b). b"
  let ?xs = "[(''EventID >= '' @ dec_word lo, unat (we_event_id e) \<ge> unat lo),
    (''EventID <= '' @ dec_word hi, unat (we_event_id e) \<le> unat hi)]"
  have "\<forall>x \<in> set ?xs. unit_reads SystemElement e (?f x) (?p x)"
    using id_least_reads [of e "unat lo"] id_most_reads [of e "unat hi"] by simp
  from unit_reads_parens [OF or_reads_join(2) [OF this]] IdWithin show ?thesis
    by (simp add: word_le_nat_alt)
next
  case (IdOutside lo hi)
  let ?f = "\<lambda>(s, b). s" and ?p = "\<lambda>(s, b). b"
  let ?xs = "[(''EventID < '' @ dec_word lo, unat (we_event_id e) < unat lo),
    (''EventID > '' @ dec_word hi, unat (we_event_id e) > unat hi)]"
  have "\<forall>x \<in> set ?xs. unit_reads SystemElement e (?f x) (?p x)"
    using id_below_reads [of e "unat lo"] id_above_reads [of e "unat hi"] by simp
  from unit_reads_parens [OF or_reads_join(1) [OF this]] IdOutside show ?thesis
    by (simp add: word_less_nat_alt)
qed

subsection \<open>Clauses and nodes\<close>

text \<open>What the abstract syntax must satisfy for its rendering to be a query at all.\<close>

fun clause_ok :: "xclause \<Rightarrow> bool" where
  "clause_ok (XTime los his) \<longleftrightarrow> los @ his \<noteq> [] \<and> list_all quotable (los @ his)"
| "clause_ok (XLevels ls) \<longleftrightarrow> ls \<noteq> []"
| "clause_ok (XIdAny ts) \<longleftrightarrow> ts \<noteq> []"
| "clause_ok (XIdAll ts) \<longleftrightarrow> ts \<noteq> []"
| "clause_ok (XProviderAny ps) \<longleftrightarrow> ps \<noteq> [] \<and> list_all quotable ps"
| "clause_ok (XProviderNone ps) \<longleftrightarrow> ps \<noteq> [] \<and> list_all quotable ps"
| "clause_ok _ \<longleftrightarrow> True"

lemma time_clause_reads:
  assumes "los @ his \<noteq> []" "list_all quotable (los @ his)"
  shows "unit_reads SystemElement e (render_clause (XTime los his)) (clause_matches (XTime los his) e)"
proof -
  let ?xs = "map Inl los @ map Inr his"
  let ?f = "case_sum (\<lambda>v. ''@SystemTime >= '' @ quoted v) (\<lambda>v. ''@SystemTime <= '' @ quoted v)"
  let ?p = "case_sum (we_not_before e) (we_not_after e)"
  have "\<forall>x \<in> set ?xs. unit_reads TimeCreatedElement e (?f x) (?p x)"
    using assms(2) literal_reads(1,2) by (auto simp: list_all_iff)
  moreover have "?xs \<noteq> []" using assms(1) by simp
  ultimately have "or_reads TimeCreatedElement e (join '' and '' (map ?f ?xs)) (list_all ?p ?xs)"
    by (rule or_reads_join(2))
  from unit_reads_time [OF this] show ?thesis by (simp add: comp_def list.pred_map)
qed

lemma render_clause_reads:
  "clause_ok x \<Longrightarrow> unit_reads SystemElement e (render_clause x) (clause_matches x e)"
proof (cases x)
  case (XAge ms)
  with unit_reads_time [OF or_reads_unit [OF age_reads [of e "unat ms"]]] show ?thesis by simp
next
  case (XTime los his)
  moreover assume "clause_ok x"
  ultimately show ?thesis using time_clause_reads by simp
next
  case (XLevels ls)
  moreover assume "clause_ok x"
  ultimately show ?thesis
    using unit_reads_parens [OF or_reads_join(1)
        [of ls SystemElement e "\<lambda>l. ''Level='' @ dec_word l" "\<lambda>l. we_level e = l"]]
      level_word_reads by simp
next
  case (XIdAny ts)
  moreover assume "clause_ok x"
  ultimately show ?thesis
    using unit_reads_parens [OF or_reads_join(1)
        [of ts SystemElement e render_id "\<lambda>t. id_test_matches t (we_event_id e)"]] render_id_reads by simp
next
  case (XIdAll ts)
  moreover assume "clause_ok x"
  ultimately show ?thesis
    using unit_reads_parens [OF or_reads_join(2)
        [of ts SystemElement e render_id "\<lambda>t. id_test_matches t (we_event_id e)"]] render_id_reads by simp
next
  case (XProviderAny ps)
  moreover assume "clause_ok x"
  ultimately show ?thesis
    using unit_reads_provider [OF or_reads_join(1) [of ps ProviderElement e "\<lambda>p. ''@Name='' @ quoted p"
        "\<lambda>p. eq_ignore_case p (we_provider e)"]] literal_reads(3) by (simp add: list_all_iff)
next
  case (XProviderNone ps)
  moreover assume "clause_ok x"
  ultimately show ?thesis
    using unit_reads_provider [OF or_reads_join(2) [of ps ProviderElement e "\<lambda>p. ''@Name!='' @ quoted p"
        "\<lambda>p. \<not> eq_ignore_case p (we_provider e)"]] literal_reads(4) by (simp add: list_all_iff)
next
  case (XKeywords k)
  with keyword_reads show ?thesis by simp
qed

lemma expression_selects_or:
  assumes "or_reads SystemElement e s b"
  shows "expression_selects (''*[System['' @ s @ '']]'') e = Some b"
proof -
  have "eval_or (4 * length (s @ '']]'') + 4) SystemElement e (s @ '']]'') = Some (b, '']]'')"
    using assms unfolding or_reads_def by simp
  then show ?thesis by (simp add: expression_selects_def read_token_def)
qed

lemma render_node_selects:
  assumes "list_all clause_ok cs"
  shows "expression_selects (render_node cs) e = Some (node_matches cs e)"
proof (cases "cs = []")
  case True
  then show ?thesis by (simp add: render_node_def expression_selects_def node_matches_def)
next
  case False
  have "or_reads SystemElement e (join '' and '' (map render_clause cs))
      (list_all (\<lambda>x. clause_matches x e) cs)"
    using assms False by (intro or_reads_join(2)) (auto simp: list_all_iff render_clause_reads)
  from expression_selects_or [OF this] False show ?thesis
    by (simp add: render_node_def node_matches_def)
qed

subsection \<open>Query lists\<close>

lemma xml_text_no_tag: "CHR ''<'' \<notin> set (xml_text x)"
  using set_escape_for_xml [of "CHR ''<''" x] by (simp add: escape_for_xml_eq)

lemma element_reads:
  assumes "expression_selects x e = Some b" "close = ''</'' @ t"
  shows "element_selects close e (xml_text x @ close @ s) = Some (b, s)"
proof -
  have "takeWhile (\<lambda>c. c \<noteq> CHR ''<'') (xml_text x @ close @ s) = xml_text x"
    and "dropWhile (\<lambda>c. c \<noteq> CHR ''<'') (xml_text x @ close @ s) = close @ s"
    using xml_text_no_tag [of x] assms(2) by (auto simp: takeWhile_append dropWhile_append)
  moreover have "unescape_xml (xml_text x) = Some x"
    using unescape_escape [of x] by (simp add: escape_for_xml_eq)
  ultimately show ?thesis using assms(1) by (simp add: element_selects_def read_token_append)
qed

lemma suppress_element_reads:
  assumes "ts \<noteq> []"
  shows "element_selects ''</Suppress>'' e
     (xml_text (''*[System[(('' @ join '' or '' (map render_id ts) @ ''))]]'') @ ''</Suppress>'' @ s)
     = Some (list_ex (\<lambda>t. id_test_matches t (we_event_id e)) ts, s)"
proof -
  have "or_reads SystemElement e (''('' @ (''('' @ join '' or '' (map render_id ts) @ '')'') @ '')'')
      (list_ex (\<lambda>t. id_test_matches t (we_event_id e)) ts)"
    using assms render_id_reads by (intro or_reads_unit unit_reads_parens or_reads_join(1)) auto
  from expression_selects_or [OF this] show ?thesis by (intro element_reads) simp_all
qed

lemma suppressed_reads:
  assumes "[] \<notin> set chunks" "length chunks < n"
  shows "suppressed n e (concat (map render_suppress chunks) @ ''</Query>'' @ s)
     = Some (list_ex (list_ex (\<lambda>t. id_test_matches t (we_event_id e))) chunks, ''</Query>'' @ s)"
  using assms
proof (induction chunks arbitrary: n)
  case Nil
  then obtain m where "n = Suc m" by (cases n) auto
  then show ?case by (simp add: read_token_def)
next
  case (Cons ts chunks)
  then obtain m where n: "n = Suc m" by (cases n) auto
  let ?rest = "concat (map render_suppress chunks) @ ''</Query>'' @ s"
  have r: "concat (map render_suppress (ts # chunks)) @ ''</Query>'' @ s
      = ''<Suppress>'' @ xml_text (''*[System[(('' @ join '' or '' (map render_id ts) @ ''))]]'')
        @ ''</Suppress>'' @ ?rest"
    by (simp add: render_suppress_def)
  from Cons have "ts \<noteq> []" by auto
  from suppress_element_reads [OF this, of e ?rest] Cons show ?case
    unfolding n r by (simp only: suppressed.simps read_token_append) simp
qed

lemma length_render_suppress: "length chunks \<le> length (concat (map render_suppress chunks))"
  by (induction chunks) (simp_all add: render_suppress_def)

lemma read_node_start_reads:
  "read_node_start (''<Query Id='' @ [dquote] @ dec i @ [dquote] @ ''><Select>'' @ s) = Some s"
proof -
  let ?r = "dquote # ''><Select>'' @ s"
  have "read_number (dec i @ ?r) = Some (i, ?r)"
    by (rule read_number_dec) (simp add: is_digit_def dquote_def)
  moreover have "read_token (''<Query Id='' @ [dquote]) (''<Query Id='' @ [dquote] @ dec i @ ?r)
      = Some (dec i @ ?r)"
    using read_token_append [of "''<Query Id='' @ [dquote]" "dec i @ ?r"] by simp
  moreover have "read_token (dquote # ''><Select>'') ?r = Some s"
    using read_token_append [of "dquote # ''><Select>''" s] by simp
  ultimately show ?thesis by (simp add: read_node_start_def)
qed

lemma node_selects_reads:
  assumes "list_all clause_ok cs" "[] \<notin> set chunks"
  shows "node_selects e (render_select i cs @ concat (map render_suppress chunks) @ ''</Query>'' @ s)
     = Some (node_matches cs e
         \<and> \<not> list_ex (list_ex (\<lambda>t. id_test_matches t (we_event_id e))) chunks, s)"
proof -
  let ?rest = "concat (map render_suppress chunks) @ ''</Query>'' @ s"
  have "render_select i cs @ ?rest = ''<Query Id='' @ [dquote] @ dec i @ [dquote] @ ''><Select>''
      @ xml_text (render_node cs) @ ''</Select>'' @ ?rest"
    by (simp add: render_select_def dquote_def)
  then have "read_node_start (render_select i cs @ ?rest)
      = Some (xml_text (render_node cs) @ ''</Select>'' @ ?rest)"
    by (simp only: read_node_start_reads)
  moreover have "element_selects ''</Select>'' e (xml_text (render_node cs) @ ''</Select>'' @ ?rest)
      = Some (node_matches cs e, ?rest)"
    by (rule element_reads [OF render_node_selects [OF assms(1)]]) simp
  moreover have "length chunks < length ?rest + 1"
    using length_render_suppress [of chunks] by simp
  note suppressed_reads [OF assms(2) this, of e s]
  moreover have "read_token ''</Query>'' (''</Query>'' @ s) = Some s" by (rule read_token_append)
  ultimately show ?thesis
    unfolding node_selects_def by (simp only: option.case prod.case option.map)
qed

lemma nodes_select_reads:
  assumes "\<forall>cs \<in> set nodes. list_all clause_ok cs" "length nodes < n"
  shows "nodes_select n e (render_selects i nodes @ ''</QueryList>'')
     = Some (list_ex (\<lambda>cs. node_matches cs e) nodes)"
  using assms
proof (induction nodes arbitrary: i n)
  case Nil
  then show ?case by (cases n) simp_all
next
  case (Cons cs nodes)
  then obtain m where n: "n = Suc m" by (cases n) auto
  let ?rest = "render_selects (Suc i) nodes @ ''</QueryList>''"
  have r: "render_selects i (cs # nodes) @ ''</QueryList>'' = render_select i cs @ ''</Query>'' @ ?rest"
    by simp
  have ne: "render_select i cs @ ''</Query>'' @ ?rest \<noteq> ''</QueryList>''"
    by (simp add: render_select_def)
  have "node_selects e (render_select i cs @ ''</Query>'' @ ?rest) = Some (node_matches cs e, ?rest)"
    using node_selects_reads [of cs "[]" e i ?rest] Cons.prems by simp
  moreover have "nodes_select m e ?rest = Some (list_ex (\<lambda>cs. node_matches cs e) nodes)"
    using Cons n by simp
  ultimately show ?case unfolding n r using ne by simp
qed

fun doc_ok :: "xdoc \<Rightarrow> bool" where
  "doc_ok (XBare cs) \<longleftrightarrow> list_all clause_ok cs"
| "doc_ok (XUnion nodes) \<longleftrightarrow> (\<forall>cs \<in> set nodes. list_all clause_ok cs)"
| "doc_ok (XMinus cs chunks) \<longleftrightarrow> list_all clause_ok cs \<and> [] \<notin> set chunks"

lemma length_render_selects: "length nodes \<le> length (render_selects i nodes)"
proof (induction nodes arbitrary: i)
  case (Cons cs nodes)
  from Cons.IH [of "Suc i"] show ?case by (simp add: render_select_def)
qed simp

lemma render_doc_selects:
  assumes "doc_ok d"
  shows "query_selects (render_doc d) e = Some (doc_matches d e)"
proof (cases d)
  case (XBare cs)
  have "read_token ''<QueryList>'' (render_node cs) = None"
    by (simp add: render_node_def read_token_def)
  with XBare assms show ?thesis by (simp add: query_selects_def render_node_selects)
next
  case (XUnion nodes)
  have "nodes_select (length (render_selects 0 nodes @ ''</QueryList>'') + 1) e
      (render_selects 0 nodes @ ''</QueryList>'') = Some (list_ex (\<lambda>cs. node_matches cs e) nodes)"
    using XUnion assms length_render_selects [of nodes 0] by (intro nodes_select_reads) simp_all
  with XUnion show ?thesis by (simp add: query_selects_def read_token_def)
next
  case (XMinus cs chunks)
  let ?s = "render_select 0 cs @ concat (map render_suppress chunks) @ ''</Query></QueryList>''"
  have "node_selects e (render_select 0 cs @ concat (map render_suppress chunks) @ ''</Query>''
      @ ''</QueryList>'') = Some (doc_matches d e, ''</QueryList>'')"
    using XMinus assms node_selects_reads [of cs chunks e 0 "''</QueryList>''"] by simp
  moreover have "?s \<noteq> ''</QueryList>''" by (simp add: render_select_def)
  ultimately have "nodes_select (Suc (Suc n)) e ?s = Some (doc_matches d e)" for n by simp
  from this [of "length ?s - 1"] have "nodes_select (length ?s + 1) e ?s = Some (doc_matches d e)"
    by simp
  with XMinus show ?thesis by (simp add: query_selects_def read_token_def)
qed

subsection \<open>The documents of filters\<close>

lemma id_node_ok: "list_all clause_ok (id_node mode ids)"
  by (cases mode) (simp_all add: id_node_def)

lemma filter_node_ok:
  assumes "list_all quotable (filter_literals f)"
  shows "list_all clause_ok (filter_node f ids)"
proof -
  have "list_all clause_ok (time_node f)"
    using assms by (auto simp: time_node_def filter_literals_def time_literals_def
        split: option.split time_window.split)
  moreover have "list_all quotable (distinct_providers f)"
    using assms distinct_providers_subset [of f] by (auto simp: filter_literals_def list_all_iff)
  then have "list_all clause_ok (provider_node f)"
    by (simp add: provider_node_def split: selector_mode.split)
  ultimately show ?thesis
    by (simp add: filter_node_def level_node_def keyword_node_def id_node_ok split: option.split)
qed

lemma filter_doc_ok:
  assumes "is_unfiltered f \<or> list_all quotable (filter_literals f)"
  shows "doc_ok (filter_doc f)"
  using assms filter_node_ok [of f] chunks_nonempty
  by (auto simp: filter_doc_def)

subsection \<open>The property\<close>

text \<open>C1. The string a filter compiles to selects exactly the events the filter describes: whenever
  \<open>build_query\<close> succeeds, reading its output as the service does (the XML of a query list with its
  entities, and the expressions with their precedence, numbers and literals) succeeds, and the query
  holds of an event if and only if the filter does. This covers deduplicated levels and providers
  (compared without regard to case), reversed and degenerate ranges, exclusion by complement, values
  with quotes, and both splitting schemes.\<close>

theorem build_query_denotes_filter:
  assumes "build_query f = Inr q"
  shows "query_selects q e = Some (filter_matches f e)"
proof -
  from build_query_InrD(2) [OF assms] have "doc_ok (filter_doc f)"
    by (intro filter_doc_ok) blast
  from render_doc_selects [OF this] show ?thesis
    by (simp add: build_query_InrD(1) [OF assms] filter_doc_matches)
qed

text \<open>An exclusion of twelve ranges that needs suppressions, and events on either side of it.\<close>

definition sample_event :: "u32 \<Rightarrow> win_event" where
  "sample_event i = \<lparr>we_level = 2, we_event_id = i, we_provider = ''Disk'', we_keywords = 0,
     we_age = 5, we_not_before = (\<lambda>v. True), we_not_after = (\<lambda>v. True)\<rparr>"

theorem build_query_denotes_filter_witness:
  "\<exists>q. build_query sample_exclusion = Inr q
     \<and> query_selects q (sample_event 14) = Some False
     \<and> query_selects q (sample_event 15) = Some True"
proof -
  obtain q where q: "build_query sample_exclusion = Inr q"
    using sample_exclusion_builds by (cases "build_query sample_exclusion") auto
  have "filter_matches sample_exclusion (sample_event i)
      \<longleftrightarrow> \<not> (\<exists>n \<in> set [0..<12]. selector_matches (Range (of_nat n) (of_nat n + 3)) i)" for i
    by (auto simp: filter_matches_def sample_exclusion_def default_filter_def mode_matches_def
        sample_event_def)
  moreover have "\<exists>n \<in> set [0..<12]. selector_matches (Range (of_nat n) (of_nat n + 3)) 14"
    and "\<not> (\<exists>n \<in> set [0..<12]. selector_matches (Range (of_nat n) (of_nat n + 3)) 15)"
    by code_simp+
  ultimately show ?thesis using q build_query_denotes_filter [OF q] by auto
qed

end
