(* ===== verification/RustStr.thy ===== *)
theory RustStr
  imports Prelude
begin

text \<open>
  The operations of Rust's \<open>str\<close> the components use, on the UTF-8 bytes of the string: searching and
  splitting, trimming of Unicode white space, parsing of integers, character boundaries. The facts
  are in the collections \<open>str_simps\<close> and \<open>len_simps\<close> of \<open>Prelude\<close>.
\<close>

subsection \<open>Searching and splitting\<close>

text \<open>\<open>str::contains\<close> with a string pattern.\<close>

definition str_contains :: "string \<Rightarrow> string \<Rightarrow> bool" where
  "str_contains s p \<longleftrightarrow> sublist p s"

lemma str_contains_code [code]: "str_contains s p \<longleftrightarrow> (\<exists>t \<in> set (suffixes s). prefix p t)"
  by (auto simp: str_contains_def sublist_altdef' in_set_suffixes)

text \<open>\<open>strip_prefix\<close> and \<open>strip_suffix\<close> with a single ASCII character.\<close>

definition strip_first :: "char \<Rightarrow> string \<Rightarrow> string option" where
  "strip_first c s = (case s of [] \<Rightarrow> None | d # t \<Rightarrow> if d = c then Some t else None)"

definition strip_last :: "char \<Rightarrow> string \<Rightarrow> string option" where
  "strip_last c s = (if s \<noteq> [] \<and> last s = c then Some (butlast s) else None)"

lemma strip_first_simps [simp, str_simps]:
  "strip_first c [] = None"
  "strip_first c (d # t) = (if d = c then Some t else None)"
  by (simp_all add: strip_first_def)

lemma strip_last_snoc [simp, str_simps]:
  "strip_last c [] = None"
  "strip_last c (t @ [d]) = (if d = c then Some t else None)"
  by (simp_all add: strip_last_def)

text \<open>\<open>split_once\<close> at the first occurrence of a character.\<close>

definition split_once :: "char \<Rightarrow> string \<Rightarrow> (string \<times> string) option" where
  "split_once c s =
     (case dropWhile (\<lambda>d. d \<noteq> c) s of
        [] \<Rightarrow> None
      | _ # t \<Rightarrow> Some (takeWhile (\<lambda>d. d \<noteq> c) s, t))"

lemma dropWhile_first [simp]: "c \<notin> set u \<Longrightarrow> dropWhile (\<lambda>d. d \<noteq> c) (u @ c # t) = c # t"
  by (induction u) auto

lemma takeWhile_first [simp]: "c \<notin> set u \<Longrightarrow> takeWhile (\<lambda>d. d \<noteq> c) (u @ c # t) = u"
  by (induction u) auto

lemma split_once_at [simp, str_simps]: "c \<notin> set u \<Longrightarrow> split_once c (u @ c # t) = Some (u, t)"
  by (simp add: split_once_def)

lemma split_once_None [str_simps]: "split_once c s = None \<longleftrightarrow> c \<notin> set s"
proof -
  have nil: "dropWhile (\<lambda>d. d \<noteq> c) s = [] \<longleftrightarrow> c \<notin> set s"
    unfolding dropWhile_eq_Nil_conv by blast
  show ?thesis
  proof (cases "dropWhile (\<lambda>d. d \<noteq> c) s")
    case Nil
    with nil show ?thesis by (simp add: split_once_def del: dropWhile_eq_Nil_conv)
  next
    case (Cons d t)
    with nil have "c \<in> set s" by simp
    with Cons show ?thesis by (simp add: split_once_def)
  qed
qed

lemma split_once_absent [simp]: "c \<notin> set s \<Longrightarrow> split_once c s = None"
  by (simp add: split_once_None)

lemma split_once_Some: "split_once c s = Some (u, t) \<longleftrightarrow> s = u @ c # t \<and> c \<notin> set u"
proof
  assume h: "split_once c s = Some (u, t)"
  then obtain d where d: "dropWhile (\<lambda>d. d \<noteq> c) s = d # t" "u = takeWhile (\<lambda>d. d \<noteq> c) s"
    by (auto simp: split_once_def split: list.splits)
  then have "d = c" using hd_dropWhile [of "\<lambda>d. d \<noteq> c" s] by auto
  with d show "s = u @ c # t \<and> c \<notin> set u"
    using takeWhile_dropWhile_id [of "\<lambda>d. d \<noteq> c" s] by (metis set_takeWhileD)
qed simp

text \<open>\<open>split\<close> on a character: one segment more than there are separators.\<close>

fun split_on :: "char \<Rightarrow> string \<Rightarrow> string list" where
  "split_on c [] = [[]]"
| "split_on c (d # s) =
     (if d = c then [] # split_on c s
      else (case split_on c s of [] \<Rightarrow> [[d]] | seg # segs \<Rightarrow> (d # seg) # segs))"

lemma split_on_not_Nil [simp]: "split_on c s \<noteq> []"
  by (induction s) (auto split: list.splits)

lemma split_on_absent [str_simps]: "c \<notin> set s \<Longrightarrow> split_on c s = [s]"
  by (induction s) auto

lemma split_on_append [str_simps]: "c \<notin> set u \<Longrightarrow> split_on c (u @ c # s) = u # split_on c s"
  by (induction u) auto

lemma split_on_segments: "seg \<in> set (split_on c s) \<Longrightarrow> c \<notin> set seg"
  by (induction s arbitrary: seg) (auto split: list.splits if_splits)

lemma join_split_on: "join [c] (split_on c s) = s"
  by (induction s) (auto simp: join_Cons split: list.splits)

lemma split_on_join:
  "segs \<noteq> [] \<Longrightarrow> (\<forall>seg \<in> set segs. c \<notin> set seg) \<Longrightarrow> split_on c (join [c] segs) = segs"
  by (induction "[c]" segs rule: join.induct) (auto simp: split_on_absent split_on_append)

subsection \<open>White space\<close>

text \<open>The characters of \<open>char::is_whitespace\<close> (Unicode \<open>White_Space\<close>), in UTF-8.\<close>

definition ws_chars :: "string list" where
  "ws_chars =
     [[CHR 0x09], [CHR 0x0A], [CHR 0x0B], [CHR 0x0C], [CHR 0x0D], [CHR 0x20],
      [CHR 0xC2, CHR 0x85], [CHR 0xC2, CHR 0xA0], [CHR 0xE1, CHR 0x9A, CHR 0x80],
      [CHR 0xE2, CHR 0x80, CHR 0x80], [CHR 0xE2, CHR 0x80, CHR 0x81],
      [CHR 0xE2, CHR 0x80, CHR 0x82], [CHR 0xE2, CHR 0x80, CHR 0x83],
      [CHR 0xE2, CHR 0x80, CHR 0x84], [CHR 0xE2, CHR 0x80, CHR 0x85],
      [CHR 0xE2, CHR 0x80, CHR 0x86], [CHR 0xE2, CHR 0x80, CHR 0x87],
      [CHR 0xE2, CHR 0x80, CHR 0x88], [CHR 0xE2, CHR 0x80, CHR 0x89],
      [CHR 0xE2, CHR 0x80, CHR 0x8A], [CHR 0xE2, CHR 0x80, CHR 0xA8],
      [CHR 0xE2, CHR 0x80, CHR 0xA9], [CHR 0xE2, CHR 0x80, CHR 0xAF],
      [CHR 0xE2, CHR 0x81, CHR 0x9F], [CHR 0xE3, CHR 0x80, CHR 0x80]]"

text \<open>The length in bytes of the white-space character a string starts (or ends) with, else 0.\<close>

definition ws_len :: "string \<Rightarrow> nat" where
  "ws_len s = (case List.find (\<lambda>w. prefix w s) ws_chars of None \<Rightarrow> 0 | Some w \<Rightarrow> length w)"

definition ws_len_end :: "string \<Rightarrow> nat" where
  "ws_len_end s = (case List.find (\<lambda>w. suffix w s) ws_chars of None \<Rightarrow> 0 | Some w \<Rightarrow> length w)"

lemma ws_len_le: "ws_len s \<le> length s"
  by (auto simp: ws_len_def find_Some_iff dest: prefix_length_le split: option.split)

lemma ws_len_end_le: "ws_len_end s \<le> length s"
  by (auto simp: ws_len_end_def find_Some_iff dest: suffix_length_le split: option.split)

lemma ws_chars_nonempty: "w \<in> set ws_chars \<Longrightarrow> w \<noteq> []"
  by (auto simp: ws_chars_def)

lemma find_length_eq_0:
  assumes "\<And>w. w \<in> set ws \<Longrightarrow> w \<noteq> []"
  shows "(case List.find P ws of None \<Rightarrow> 0 | Some w \<Rightarrow> length w) = 0 \<longleftrightarrow> (\<forall>w \<in> set ws. \<not> P w)"
  using assms by (induction ws) auto

lemma ws_len_eq_0: "ws_len s = 0 \<longleftrightarrow> (\<forall>w \<in> set ws_chars. \<not> prefix w s)"
  unfolding ws_len_def by (rule find_length_eq_0) (rule ws_chars_nonempty)

lemma ws_len_end_eq_0: "ws_len_end s = 0 \<longleftrightarrow> (\<forall>w \<in> set ws_chars. \<not> suffix w s)"
  unfolding ws_len_end_def by (rule find_length_eq_0) (rule ws_chars_nonempty)

lemma ws_len_Nil [simp]: "ws_len [] = 0"
  using ws_len_le [of "[]"] by simp

lemma ws_len_end_Nil [simp]: "ws_len_end [] = 0"
  using ws_len_end_le [of "[]"] by simp

function trim_start :: "string \<Rightarrow> string" where
  "trim_start s = (if ws_len s = 0 then s else trim_start (drop (ws_len s) s))"
  by pat_completeness auto
termination
proof (relation "measure length")
  show "(drop (ws_len s) s, s) \<in> measure length" if "ws_len s \<noteq> 0" for s
    using that ws_len_le [of s] by simp
qed simp

function trim_end :: "string \<Rightarrow> string" where
  "trim_end s = (if ws_len_end s = 0 then s else trim_end (take (length s - ws_len_end s) s))"
  by pat_completeness auto
termination
proof (relation "measure length")
  show "(take (length s - ws_len_end s) s, s) \<in> measure length" if "ws_len_end s \<noteq> 0" for s
    using that ws_len_end_le [of s] by simp
qed simp

declare trim_start.simps [simp del] trim_end.simps [simp del]

text \<open>\<open>str::trim\<close>.\<close>

definition str_trim :: "string \<Rightarrow> string" where
  "str_trim s = trim_end (trim_start s)"

text \<open>\<open>contains(char::is_whitespace)\<close>.\<close>

fun has_ws :: "string \<Rightarrow> bool" where
  "has_ws [] \<longleftrightarrow> False"
| "has_ws (c # s) \<longleftrightarrow> ws_len (c # s) \<noteq> 0 \<or> has_ws s"

lemma trim_start_suffix: "suffix (trim_start s) s"
proof (induction s rule: trim_start.induct)
  case (1 s)
  then show ?case
    by (subst trim_start.simps) (auto intro: suffix_order.trans [OF _ suffix_drop])
qed

lemma trim_end_prefix: "prefix (trim_end s) s"
proof (induction s rule: trim_end.induct)
  case (1 s)
  then show ?case
    by (subst trim_end.simps) (auto intro: prefix_order.trans [OF _ take_is_prefix])
qed

lemma ws_len_trim_start [simp]: "ws_len (trim_start s) = 0"
proof (induction s rule: trim_start.induct)
  case (1 s)
  then show ?case by (cases "ws_len s = 0") (simp_all add: trim_start.simps [of s])
qed

lemma ws_len_end_trim_end [simp]: "ws_len_end (trim_end s) = 0"
proof (induction s rule: trim_end.induct)
  case (1 s)
  then show ?case by (cases "ws_len_end s = 0") (simp_all add: trim_end.simps [of s])
qed

lemma trim_start_id [simp]: "ws_len s = 0 \<Longrightarrow> trim_start s = s"
  by (simp add: trim_start.simps)

lemma trim_end_id [simp]: "ws_len_end s = 0 \<Longrightarrow> trim_end s = s"
  by (simp add: trim_end.simps)

lemma str_trim_id: "ws_len s = 0 \<Longrightarrow> ws_len_end s = 0 \<Longrightarrow> str_trim s = s"
  by (simp add: str_trim_def)

lemma str_trim_sublist: "sublist (str_trim s) s"
  unfolding str_trim_def
  by (meson prefix_imp_sublist sublist_order.order.trans suffix_imp_sublist trim_end_prefix
      trim_start_suffix)

lemma length_str_trim [len_simps]: "length (str_trim s) \<le> length s"
  using str_trim_sublist by (rule sublist_length_le)

lemma str_trim_Nil [simp]: "str_trim [] = []"
  by (simp add: str_trim_def)

lemma ws_len_prefix_mono: "ws_len s = 0 \<Longrightarrow> prefix t s \<Longrightarrow> ws_len t = 0"
  unfolding ws_len_eq_0 by (blast intro: prefix_order.trans)

lemma str_trim_idem [simp]: "str_trim (str_trim s) = str_trim s"
  using ws_len_prefix_mono [OF ws_len_trim_start trim_end_prefix, of s]
  by (simp add: str_trim_def)

lemma suffix_past_sep:
  assumes "c \<notin> set w" shows "suffix w (u @ c # t) \<longleftrightarrow> suffix w t"
proof
  assume "suffix w (u @ c # t)"
  then obtain zs where zs: "u @ c # t = zs @ w" by (auto simp: suffix_def)
  from this [unfolded append_eq_append_conv2]
  consider us where "u = zs @ us" "us @ c # t = w" | us where "u @ us = zs" "c # t = us @ w"
    by blast
  then show "suffix w t"
  proof cases
    case 1
    with assms show ?thesis by auto
  next
    case 2
    with assms show ?thesis by (cases us) (auto simp: suffix_def)
  qed
next
  assume "suffix w t"
  then show "suffix w (u @ c # t)"
    by (metis append_Cons append_assoc append_Nil suffix_def)
qed

lemma ws_len_end_suffix: "ws_len_end s = 0 \<Longrightarrow> suffix t s \<Longrightarrow> ws_len_end t = 0"
  unfolding ws_len_end_eq_0 by (blast intro: suffix_order.trans)

lemma ws_len_end_str_trim [simp]: "ws_len_end (str_trim s) = 0"
  by (simp add: str_trim_def)

lemma ws_len_str_trim [simp]: "ws_len (str_trim s) = 0"
  unfolding str_trim_def by (rule ws_len_prefix_mono [OF ws_len_trim_start trim_end_prefix])

lemma ws_len_take: "ws_len s \<noteq> 0 \<Longrightarrow> take (ws_len s) s \<in> set ws_chars"
proof -
  assume "ws_len s \<noteq> 0"
  then obtain w where "List.find (\<lambda>w. prefix w s) ws_chars = Some w" "ws_len s = length w"
    by (auto simp: ws_len_def split: option.splits)
  moreover from this have "prefix w s" "w \<in> set ws_chars" by (auto simp: find_Some_iff)
  ultimately show ?thesis by (auto simp: prefix_def)
qed

lemma trim_start_Nil_end: "trim_start s = [] \<Longrightarrow> ws_len_end s = 0 \<Longrightarrow> s = []"
proof (induction s rule: trim_start.induct)
  case (1 s)
  show ?case
  proof (cases "ws_len s = 0")
    case True
    with "1.prems" show ?thesis by simp
  next
    case False
    have "ws_len_end (drop (ws_len s) s) = 0"
      using ws_len_end_suffix [OF "1.prems"(2) suffix_drop] .
    moreover have "trim_start (drop (ws_len s) s) = []"
      using "1.prems"(1) False by (subst (asm) trim_start.simps) simp
    ultimately have "drop (ws_len s) s = []" using "1.IH" False by blast
    then have "take (ws_len s) s = s" by simp
    then have "s \<in> set ws_chars" using ws_len_take [OF False] by argo
    with "1.prems"(2) show ?thesis unfolding ws_len_end_eq_0 by blast
  qed
qed

lemma str_trim_eq_Nil: "ws_len_end s = 0 \<Longrightarrow> str_trim s = [] \<longleftrightarrow> s = []"
proof -
  assume z: "ws_len_end s = 0"
  then have "ws_len_end (trim_start s) = 0" by (rule ws_len_end_suffix) (rule trim_start_suffix)
  then have "str_trim s = trim_start s" by (simp add: str_trim_def)
  then show ?thesis using trim_start_Nil_end [OF _ z] by auto
qed

subsection \<open>Integers\<close>

definition digit_val :: "char \<Rightarrow> nat" where
  "digit_val c = of_char c - 48"

definition digits_val :: "string \<Rightarrow> nat" where
  "digits_val s = foldl (\<lambda>a c. a * 10 + digit_val c) 0 s"

text \<open>
  \<open>str::parse\<close> to an unsigned type with the given maximum: an optional \<open>+\<close>, then at least one
  decimal digit and nothing else, without overflow.
\<close>

definition parse_uint :: "nat \<Rightarrow> string \<Rightarrow> nat option" where
  "parse_uint bnd s =
     (let t = (case s of [] \<Rightarrow> [] | c # r \<Rightarrow> if c = CHR ''+'' then r else s)
      in if t \<noteq> [] \<and> list_all is_digit t \<and> digits_val t \<le> bnd then Some (digits_val t) else None)"

lemma digits_val_snoc: "digits_val (s @ [c]) = digits_val s * 10 + digit_val c"
  by (simp add: digits_val_def)

lemma less_10_cases: "n < (10::nat) \<Longrightarrow> n \<in> {0, 1, 2, 3, 4, 5, 6, 7, 8, 9}"
  by auto

lemma digit_val_digit [simp]: "n < 10 \<Longrightarrow> digit_val (digit n) = n"
  by (drule less_10_cases) (auto simp: digit_def digit_val_def)

lemma digits_val_dec [simp]: "digits_val (dec n) = n"
proof (induction n rule: dec.induct)
  case (1 n)
  show ?case
  proof (cases "n < 10")
    case True
    then show ?thesis by (simp add: dec.simps [of n] digits_val_def)
  next
    case False
    with 1 show ?thesis by (simp add: dec.simps [of n] digits_val_snoc)
  qed
qed

lemma parse_uint_dec [str_simps]: "n \<le> bnd \<Longrightarrow> parse_uint bnd (dec n) = Some n"
proof -
  assume le: "n \<le> bnd"
  have all: "list_all is_digit (dec n)" by (simp add: list_all_iff dec_digits)
  obtain c r where cr: "dec n = c # r" using dec_not_Nil [of n] by (cases "dec n") auto
  then have "c \<noteq> CHR ''+''" using all by (auto simp: is_digit_def)
  then show ?thesis using le all cr digits_val_dec [of n] by (simp add: parse_uint_def Let_def)
qed

lemma parse_uint_le: "parse_uint bnd s = Some n \<Longrightarrow> n \<le> bnd"
  by (auto simp: parse_uint_def Let_def split: if_splits)

subsection \<open>Character boundaries\<close>

text \<open>A byte that continues a UTF-8 sequence, and \<open>str::is_char_boundary\<close>.\<close>

definition is_cont :: "char \<Rightarrow> bool" where
  "is_cont c \<longleftrightarrow> (128::nat) \<le> of_char c \<and> of_char c < (192::nat)"

definition is_char_boundary :: "string \<Rightarrow> nat \<Rightarrow> bool" where
  "is_char_boundary s i \<longleftrightarrow> i = 0 \<or> i = length s \<or> (i < length s \<and> \<not> is_cont (s ! i))"

subsection \<open>Encoded characters\<close>

text \<open>The UTF-8 encoding of a character: its length is given by its first byte, the other bytes are
  continuation bytes. No encoded character is a proper prefix of another.\<close>

definition utf8_width :: "char \<Rightarrow> nat" where
  "utf8_width c =
     (let n = of_char c :: nat in
      if n < 128 then 1 else if n < 224 then 2 else if n < 240 then 3 else 4)"

definition valid_char :: "string \<Rightarrow> bool" where
  "valid_char ch \<longleftrightarrow>
     ch \<noteq> [] \<and> \<not> is_cont (hd ch) \<and> length ch = utf8_width (hd ch) \<and> list_all is_cont (tl ch)"

definition valid_text :: "string \<Rightarrow> bool" where
  "valid_text s \<longleftrightarrow> (\<exists>cs. list_all valid_char cs \<and> s = concat cs)"

lemma valid_char_unique:
  assumes "valid_char a" "valid_char b" "prefix a s" "prefix b s"
  shows "a = b"
proof -
  have "a \<noteq> []" "b \<noteq> []" using assms(1,2) by (auto simp: valid_char_def)
  then have "hd a = hd b"
    using assms(3,4) by (cases a; cases b; cases s) auto
  then have "length a = length b" using assms(1,2) by (simp add: valid_char_def)
  then show ?thesis using assms(3,4) by (auto simp: prefix_def append_eq_append_conv2)
qed

lemma ws_chars_valid: "list_all valid_char ws_chars"
  by code_simp

lemma ws_char_valid: "w \<in> set ws_chars \<Longrightarrow> valid_char w"
  using ws_chars_valid by (simp add: list_all_iff)

lemma valid_text_Nil [simp]: "valid_text []"
  unfolding valid_text_def by (rule exI [of _ "[]"]) simp

lemma valid_text_append: "valid_text s \<Longrightarrow> valid_text t \<Longrightarrow> valid_text (s @ t)"
  unfolding valid_text_def by (metis concat_append list_all_append)

lemma valid_text_char: "valid_char ch \<Longrightarrow> valid_text ch"
  unfolding valid_text_def by (rule exI [of _ "[ch]"]) simp

text \<open>Whether a text starts with white space does not change when it is extended.\<close>

lemma valid_text_first:
  "valid_text s \<Longrightarrow> s \<noteq> [] \<Longrightarrow> \<exists>c t. s = c @ t \<and> valid_char c \<and> valid_text t"
proof -
  assume h: "valid_text s" "s \<noteq> []"
  then obtain cs where cs: "list_all valid_char cs" "s = concat cs"
    by (auto simp: valid_text_def)
  then obtain c ds where "cs = c # ds" using h(2) by (cases cs) auto
  with cs show ?thesis by (auto simp: valid_text_def)
qed

lemma ws_len_extend:
  assumes "valid_text s" "s \<noteq> []" "ws_len s = 0"
  shows "ws_len (s @ u) = 0"
  unfolding ws_len_eq_0
proof (intro ballI notI)
  fix w assume w: "w \<in> set ws_chars" "prefix w (s @ u)"
  obtain c t where c: "s = c @ t" "valid_char c"
    using valid_text_first [OF assms(1,2)] by blast
  have "prefix c (s @ u)" by (simp add: c)
  then have "w = c" using valid_char_unique [OF ws_char_valid [OF w(1)] c(2) w(2)] by simp
  then have "prefix w s" by (simp add: c)
  then show False using assms(3) w(1) by (simp add: ws_len_eq_0)
qed

lemma valid_text_drop_ws:
  assumes "valid_text s" "ws_len s \<noteq> 0"
  shows "valid_text (drop (ws_len s) s)"
proof -
  have w: "take (ws_len s) s \<in> set ws_chars" by (rule ws_len_take [OF assms(2)])
  have "s \<noteq> []" using assms(2) by auto
  then obtain c t where c: "s = c @ t" "valid_char c" "valid_text t"
    using valid_text_first [OF assms(1)] by blast
  have "take (ws_len s) s = c"
    by (rule valid_char_unique [OF ws_char_valid [OF w] c(2) take_is_prefix]) (simp add: c(1))
  then have "s = c @ drop (ws_len s) s" by (metis append_take_drop_id)
  then show ?thesis using c by simp
qed

lemma trim_start_extend:
  "valid_text s \<Longrightarrow> trim_start s \<noteq> [] \<Longrightarrow> trim_start (s @ u) = trim_start s @ u"
proof (induction s rule: trim_start.induct)
  case (1 s)
  show ?case
  proof (cases "ws_len s = 0")
    case True
    with 1 show ?thesis using ws_len_extend [of s u] by simp
  next
    case False
    have k: "ws_len (s @ u) = ws_len s"
    proof -
      have w: "take (ws_len s) s \<in> set ws_chars" by (rule ws_len_take [OF False])
      have "prefix (take (ws_len s) s) (s @ u)" by (simp add: take_is_prefix)
      then have "ws_len (s @ u) \<noteq> 0" using w unfolding ws_len_eq_0 by blast
      from ws_len_take [OF this] have
        "take (ws_len (s @ u)) (s @ u) = take (ws_len s) s"
        using valid_char_unique [OF ws_char_valid ws_char_valid take_is_prefix
            \<open>prefix (take (ws_len s) s) (s @ u)\<close>] w by blast
      then have "length (take (ws_len (s @ u)) (s @ u)) = length (take (ws_len s) s)" by simp
      then show ?thesis using ws_len_le [of s] ws_len_le [of "s @ u"] by simp
    qed
    have "trim_start s = trim_start (drop (ws_len s) s)"
      using False by (subst trim_start.simps) simp
    moreover have "trim_start (s @ u) = trim_start (drop (ws_len s) s @ u)"
      using False k ws_len_le [of s] by (subst trim_start.simps) simp
    ultimately show ?thesis
      using "1.IH" [OF False] valid_text_drop_ws [OF "1.prems"(1) False] "1.prems"(2) by simp
  qed
qed

lemma trim_end_Nil_start: "trim_end t = [] \<Longrightarrow> ws_len t = 0 \<Longrightarrow> t = []"
proof (induction t rule: trim_end.induct)
  case (1 t)
  show ?case
  proof (cases "ws_len_end t = 0")
    case True
    with "1.prems" show ?thesis by simp
  next
    case False
    let ?u = "take (length t - ws_len_end t) t"
    have "trim_end ?u = []" using "1.prems"(1) False by (subst (asm) trim_end.simps) simp
    moreover have "ws_len ?u = 0" using ws_len_prefix_mono [OF "1.prems"(2) take_is_prefix] .
    ultimately have "?u = []" using "1.IH" False by blast
    then have len: "ws_len_end t = length t" using ws_len_end_le [of t] False by auto
    obtain w where "List.find (\<lambda>w. suffix w t) ws_chars = Some w" "ws_len_end t = length w"
      using False by (auto simp: ws_len_end_def split: option.splits)
    then have "suffix w t" "w \<in> set ws_chars" "length w = length t"
      using len by (auto simp: find_Some_iff)
    then have "t \<in> set ws_chars" by (auto simp: suffix_def)
    then show ?thesis using "1.prems"(2) by (auto simp: ws_len_eq_0)
  qed
qed

lemma str_trim_Nil_iff: "str_trim s = [] \<longleftrightarrow> trim_start s = []"
  using trim_end_Nil_start [of "trim_start s"] by (auto simp: str_trim_def)

end
