(* ===== verification/EventMap.thy ===== *)
theory EventMap
  imports RustStr "HOL-Library.AList"
begin

text \<open>
  The event-map engine of \<open>crates/cmtraceopen-parser/src/eventmap\<close>: the event tree (\<open>node.rs\<close>), the
  path language of the \<open>Value\<close> expressions (\<open>path.rs\<close>), the map schema (\<open>model.rs\<close>), its
  application to an event (\<open>apply.rs\<close>) and the registry of maps (\<open>mod.rs\<close>). \<open>usize\<close> is the 64-bit
  one. The memoised \<open>compiled\<close> cache is the list it caches; the deserialisation of a map is not
  modelled.
\<close>

subsection \<open>Event trees\<close>

datatype event_node =
  EventNode (node_name: string) (attributes: "(string \<times> string) list")
    (node_text: "string option") (children: "event_node list")

definition attribute :: "event_node \<Rightarrow> string \<Rightarrow> string option" where
  "attribute node nm = map_option snd (List.find (\<lambda>(key, _). key = nm) (attributes node))"

definition children_named :: "event_node \<Rightarrow> string \<Rightarrow> event_node list" where
  "children_named node nm = filter (\<lambda>child. node_name child = nm) (children node)"

subsection \<open>Value paths\<close>

datatype path_error =
    NotAbsolute string
  | EmptyPath string
  | MalformedPredicate string string
  | MalformedStep string string
  | MisplacedAttribute string

datatype predicate = AttributeEquals string string | Index nat

record step =
  step_name :: string
  step_predicate :: "predicate option"

record value_path =
  path_steps :: "step list"
  path_attribute :: "string option"

text \<open>The value between two equal quotes.\<close>

definition unquote :: "char \<Rightarrow> string \<Rightarrow> string option" where
  "unquote q raw = Option.bind (strip_first q raw) (strip_last q)"

definition parse_predicate :: "string \<Rightarrow> path_error \<Rightarrow> path_error + predicate" where
  "parse_predicate inner malformed =
     (case strip_first (CHR ''@'') inner of
        Some rest \<Rightarrow>
          (case split_once (CHR ''='') rest of
             None \<Rightarrow> Inl malformed
           | Some (attr, raw) \<Rightarrow>
               (case unquote (CHR 0x22) raw of
                  Some v \<Rightarrow> Inr (AttributeEquals attr v)
                | None \<Rightarrow>
                    (case unquote (CHR 0x27) raw of
                       Some v \<Rightarrow> Inr (AttributeEquals attr v)
                     | None \<Rightarrow> Inl malformed)))
      | None \<Rightarrow>
          (case parse_uint u64_max inner of
             None \<Rightarrow> Inl malformed
           | Some i \<Rightarrow> if i = 0 then Inl malformed else Inr (Index i)))"

definition parse_step :: "string \<Rightarrow> string \<Rightarrow> path_error + step" where
  "parse_step segment expression =
     (case split_once (CHR ''['') segment of
        None \<Rightarrow> Inr \<lparr>step_name = segment, step_predicate = None\<rparr>
      | Some (nm, rest) \<Rightarrow>
          (let malformed = MalformedPredicate expression segment in
           if last segment \<noteq> CHR '']'' then Inl malformed
           else bind_res (parse_predicate (butlast rest) malformed)
                  (\<lambda>p. Inr \<lparr>step_name = nm, step_predicate = Some p\<rparr>)))"

text \<open>
  The loop over the segments: \<open>steps\<close> are the steps so far and the last argument the segments still
  to read, so that \<open>index + 1 == segments.len()\<close> is \<open>segs = []\<close>.
\<close>

fun parse_segments :: "string \<Rightarrow> step list \<Rightarrow> string option \<Rightarrow> string list
    \<Rightarrow> path_error + (step list \<times> string option)" where
  "parse_segments expression steps attr [] = Inr (steps, attr)"
| "parse_segments expression steps attr (seg # segs) =
     (if seg = [] then
        (if segs = [] \<and> steps \<noteq> [] then parse_segments expression steps attr segs
         else Inl (MalformedStep expression []))
      else
        (case strip_first (CHR ''@'') seg of
           Some nm \<Rightarrow>
             (if segs \<noteq> [] then Inl (MisplacedAttribute expression)
              else if nm = [] then Inl (MalformedStep expression seg)
              else parse_segments expression steps (Some nm) segs)
         | None \<Rightarrow>
             bind_res (parse_step seg expression)
               (\<lambda>st. parse_segments expression (steps @ [st]) attr segs)))"

definition parse_path :: "string \<Rightarrow> path_error + value_path" where
  "parse_path expression =
     (case strip_first (CHR ''/'') (str_trim expression) of
        None \<Rightarrow> Inl (NotAbsolute expression)
      | Some body \<Rightarrow>
          if str_trim body = [] then Inl (EmptyPath expression)
          else
            bind_res (parse_segments expression [] None (split_on (CHR ''/'') body))
              (\<lambda>(steps, attr).
                 if steps = [] then Inl (EmptyPath expression)
                 else Inr \<lparr>path_steps = steps, path_attribute = attr\<rparr>))"

definition separator :: string where "separator = '', ''"

definition read_node :: "event_node \<Rightarrow> string option \<Rightarrow> string option" where
  "read_node node attr = (case attr of Some nm \<Rightarrow> attribute node nm | None \<Rightarrow> node_text node)"

definition select_one :: "event_node \<Rightarrow> step \<Rightarrow> event_node option" where
  "select_one parent st =
     (let candidates = children_named parent (step_name st) in
      case step_predicate st of
        None \<Rightarrow> nth_opt candidates 0
      | Some (Index i) \<Rightarrow> nth_opt candidates (i - 1)
      | Some (AttributeEquals nm v) \<Rightarrow>
          List.find (\<lambda>child. attribute child nm = Some v) candidates)"

definition text_or_empty :: "event_node \<Rightarrow> string" where
  "text_or_empty node = (case node_text node of None \<Rightarrow> [] | Some t \<Rightarrow> t)"

definition read_final :: "event_node \<Rightarrow> step \<Rightarrow> string option \<Rightarrow> string option" where
  "read_final parent st attr =
     (if step_predicate st \<noteq> None then
        Option.bind (select_one parent st) (\<lambda>node. read_node node attr)
      else
        (case filter (\<lambda>child. node_name child = step_name st) (children parent) of
           [] \<Rightarrow> None
         | [only] \<Rightarrow> read_node only attr
         | n # m # ns \<Rightarrow>
             (case attr of
                Some nm \<Rightarrow> attribute n nm
              | None \<Rightarrow> Some (join separator (map text_or_empty (n # m # ns))))))"

fun walk :: "event_node \<Rightarrow> step list \<Rightarrow> string option \<Rightarrow> string option" where
  "walk current [] attr = read_node current attr"
| "walk current [st] attr = read_final current st attr"
| "walk current (st # st' # sts) attr =
     Option.bind (select_one current st) (\<lambda>node. walk node (st' # sts) attr)"

definition evaluate :: "value_path \<Rightarrow> event_node \<Rightarrow> string option" where
  "evaluate p root =
     (case path_steps p of
        [] \<Rightarrow> None
      | first # remaining \<Rightarrow>
          if step_name first \<noteq> node_name root \<or> step_predicate first \<noteq> None then None
          else walk root remaining (path_attribute p))"

subsection \<open>The map schema\<close>

datatype map_property =
  UserName | RemoteHost | ExecutableInfo | PayloadData nat | OtherProperty string

definition payload_slot :: "string \<Rightarrow> nat option" where
  "payload_slot trimmed =
     (if 11 \<le> length trimmed \<and> is_char_boundary trimmed 11
         \<and> eq_ignore_case (take 11 trimmed) ''payloaddata''
      then (case parse_uint 255 (drop 11 trimmed) of
              Some slot \<Rightarrow> if 1 \<le> slot \<and> slot \<le> 6 then Some slot else None
            | None \<Rightarrow> None)
      else None)"

definition parse_property :: "string \<Rightarrow> map_property" where
  "parse_property raw =
     (let trimmed = str_trim raw in
      if eq_ignore_case trimmed ''username'' then UserName
      else if eq_ignore_case trimmed ''remotehost'' then RemoteHost
      else if eq_ignore_case trimmed ''executableinfo'' then ExecutableInfo
      else (case payload_slot trimmed of
              Some slot \<Rightarrow> PayloadData slot
            | None \<Rightarrow> OtherProperty trimmed))"

record value_binding =
  binding_name :: string
  binding_value :: string

record lookup =
  lookup_name :: string
  lookup_default :: "string option"
  lookup_values :: "string \<rightharpoonup> string"

definition translate :: "lookup \<Rightarrow> string \<Rightarrow> string option" where
  "translate l raw =
     (case lookup_values l raw of Some t \<Rightarrow> Some t | None \<Rightarrow> lookup_default l)"

record compiled_binding =
  placeholder :: string
  compiled_path :: "value_path option"

record map_entry =
  entry_property :: map_property
  template :: string
  bindings :: "value_binding list"

definition compile_binding :: "value_binding \<Rightarrow> compiled_binding" where
  "compile_binding b =
     \<lparr>placeholder = ''%'' @ binding_name b @ ''%'',
      compiled_path = (case parse_path (binding_value b) of Inr p \<Rightarrow> Some p | Inl _ \<Rightarrow> None)\<rparr>"

definition compiled :: "map_entry \<Rightarrow> compiled_binding list" where
  "compiled entry = map compile_binding (bindings entry)"

record event_map =
  map_author :: "string option"
  map_description :: "string option"
  map_event_id :: u32
  map_channel :: string
  map_provider :: string
  map_entries :: "map_entry list"
  map_lookups :: "lookup list"

definition lookup_for :: "event_map \<Rightarrow> string \<Rightarrow> lookup option" where
  "lookup_for em var = List.find (\<lambda>l. eq_ignore_case (lookup_name l) var) (map_lookups em)"

subsection \<open>Applying a map\<close>

record mapped_value =
  value_property :: map_property
  value_text :: string
  unresolved :: "string list"

definition is_complete :: "mapped_value \<Rightarrow> bool" where
  "is_complete v \<longleftrightarrow> unresolved v = []"

record mapped_event =
  mapped_values :: "mapped_value list"
  invalid_paths :: "(string \<times> string) list"

definition value_for :: "mapped_event \<Rightarrow> map_property \<Rightarrow> string option" where
  "value_for ev prop =
     map_option value_text (List.find (\<lambda>v. value_property v = prop) (mapped_values ev))"

text \<open>\<open>if !v.contains(&x) { v.push(x) }\<close>\<close>

definition push_new :: "'a \<Rightarrow> 'a list \<Rightarrow> 'a list" where
  "push_new x xs = (if x \<in> set xs then xs else xs @ [x])"

text \<open>
  \<open>render\<close>: the loop on \<open>rest\<close>, with the text and the unresolved names so far as accumulators.
\<close>

function render_loop :: "(string \<rightharpoonup> string) \<Rightarrow> string \<Rightarrow> string list \<Rightarrow> string
    \<Rightarrow> string \<times> string list" where
  "render_loop vs out unres rest =
     (case split_once (CHR ''%'') rest of
        None \<Rightarrow> (out @ rest, unres)
      | Some (before, after) \<Rightarrow>
          let out = out @ before in
          (case split_once (CHR ''%'') after of
             None \<Rightarrow> (out @ ''%'' @ after, unres)
           | Some (nm, rest') \<Rightarrow>
               if nm = [] \<or> has_ws nm then render_loop vs (out @ ''%'') unres after
               else
                 (case vs nm of
                    Some v \<Rightarrow> render_loop vs (out @ v) unres rest'
                  | None \<Rightarrow>
                      render_loop vs (out @ ''%'' @ nm @ ''%'') (push_new nm unres) rest')))"
  by pat_completeness auto
termination
  by (relation "measure (\<lambda>(_, _, _, rest). length rest)") (auto simp: split_once_Some)

declare render_loop.simps [simp del]

definition render :: "string \<Rightarrow> (string \<rightharpoonup> string) \<Rightarrow> string \<times> string list" where
  "render tmpl vs = render_loop vs [] [] tmpl"

text \<open>The loop of \<open>apply_entry\<close> over the bindings and their compiled forms.\<close>

definition apply_binding :: "event_map \<Rightarrow> string \<Rightarrow> event_node
    \<Rightarrow> value_binding \<times> compiled_binding
    \<Rightarrow> (string \<rightharpoonup> string) \<times> (string \<times> string) list
    \<Rightarrow> (string \<rightharpoonup> string) \<times> (string \<times> string) list" where
  "apply_binding em tmpl ev bc st =
     (case bc of (b, c) \<Rightarrow> case st of (resolved, invalid) \<Rightarrow>
        if \<not> str_contains tmpl (placeholder c) then (resolved, invalid)
        else
          let (val, invalid) =
                (case compiled_path c of
                   Some p \<Rightarrow> (evaluate p ev, invalid)
                 | None \<Rightarrow> (None, push_new (binding_name b, binding_value b) invalid));
              translated =
                Option.bind val (\<lambda>raw.
                  case lookup_for em (binding_name b) of
                    Some l \<Rightarrow> translate l raw
                  | None \<Rightarrow> Some raw)
          in (case translated of
                Some t \<Rightarrow> (resolved(binding_name b \<mapsto> t), invalid)
              | None \<Rightarrow> (resolved, invalid)))"

definition apply_entry :: "event_map \<Rightarrow> map_entry \<Rightarrow> event_node \<Rightarrow> (string \<times> string) list
    \<Rightarrow> mapped_value \<times> (string \<times> string) list" where
  "apply_entry em entry ev invalid =
     (let (resolved, invalid) =
            fold (apply_binding em (template entry) ev)
              (zip (bindings entry) (compiled entry)) (Map.empty, invalid);
          (text, unres) = render (template entry) resolved
      in (\<lparr>value_property = entry_property entry, value_text = text, unresolved = unres\<rparr>, invalid))"

definition apply_map :: "event_map \<Rightarrow> event_node \<Rightarrow> mapped_event" where
  "apply_map em ev =
     fold (\<lambda>entry result.
         let (v, invalid) = apply_entry em entry ev (invalid_paths result)
         in \<lparr>mapped_values = mapped_values result @ [v], invalid_paths = invalid\<rparr>)
       (map_entries em) \<lparr>mapped_values = [], invalid_paths = []\<rparr>"

subsection \<open>The registry\<close>

record map_key =
  key_channel :: string
  key_provider :: string
  key_event_id :: u32

definition new_key :: "string \<Rightarrow> string \<Rightarrow> u32 \<Rightarrow> map_key" where
  "new_key channel provider event_id =
     \<lparr>key_channel = ascii_lower (str_trim channel),
      key_provider = ascii_lower (str_trim provider), key_event_id = event_id\<rparr>"

text \<open>\<open>MapRegistry\<close>: its \<open>HashMap\<close> as an association list with distinct keys.\<close>

type_synonym registry = "(map_key \<times> event_map) list"

definition new_registry :: registry where "new_registry = []"

definition insert_map :: "event_map \<Rightarrow> registry \<Rightarrow> event_map option \<times> registry" where
  "insert_map em reg =
     (let key = new_key (map_channel em) (map_provider em) (map_event_id em)
      in (map_of reg key, AList.update key em reg))"

definition find_map :: "registry \<Rightarrow> string \<Rightarrow> string \<Rightarrow> u32 \<Rightarrow> event_map option" where
  "find_map reg channel provider event_id = map_of reg (new_key channel provider event_id)"

definition registry_len :: "registry \<Rightarrow> nat" where "registry_len reg = length reg"

definition registry_is_empty :: "registry \<Rightarrow> bool" where "registry_is_empty reg \<longleftrightarrow> reg = []"

definition registry_apply :: "registry \<Rightarrow> string \<Rightarrow> string \<Rightarrow> u32 \<Rightarrow> event_node
    \<Rightarrow> mapped_event option" where
  "registry_apply reg channel provider event_id ev =
     map_option (\<lambda>em. apply_map em ev) (find_map reg channel provider event_id)"

end
