(* ===== verification/EventMapPath.thy ===== *)
theory EventMapPath
  imports EventMap
begin

text \<open>
  The path language of \<open>EventMap\<close>: which expressions \<open>parse_path\<close> accepts and what they denote. A
  path has a canonical text, the accepted paths are the well-formed ones, and evaluation agrees with
  the XPath reading of a path on the events whose containers are unique.
\<close>

subsection \<open>Canonical texts\<close>

definition predicate_text :: "predicate \<Rightarrow> string" where
  "predicate_text p =
     (case p of
        Index i \<Rightarrow> dec i
      | AttributeEquals a v \<Rightarrow> ''@'' @ a @ ''='' @ [CHR 0x22] @ v @ [CHR 0x22])"

definition step_text :: "step \<Rightarrow> string" where
  "step_text st =
     step_name st @ (case step_predicate st of
                       None \<Rightarrow> []
                     | Some p \<Rightarrow> ''['' @ predicate_text p @ '']'')"

definition path_text :: "value_path \<Rightarrow> string" where
  "path_text p =
     ''/'' @ concat (map (\<lambda>st. step_text st @ ''/'') (path_steps p))
     @ (case path_attribute p of None \<Rightarrow> [] | Some a \<Rightarrow> ''@'' @ a)"

subsection \<open>Well-formed paths\<close>

definition wf_predicate :: "predicate \<Rightarrow> bool" where
  "wf_predicate p \<longleftrightarrow>
     (case p of
        Index i \<Rightarrow> 1 \<le> i \<and> i \<le> u64_max
      | AttributeEquals a v \<Rightarrow> CHR ''='' \<notin> set a \<and> CHR ''/'' \<notin> set a \<and> CHR ''/'' \<notin> set v)"

definition wf_step :: "step \<Rightarrow> bool" where
  "wf_step st \<longleftrightarrow>
     CHR ''['' \<notin> set (step_name st) \<and> CHR ''/'' \<notin> set (step_name st)
     \<and> strip_first (CHR ''@'') (step_name st) = None
     \<and> (case step_predicate st of None \<Rightarrow> step_name st \<noteq> [] | Some p \<Rightarrow> wf_predicate p)"

definition wf_attribute :: "string \<Rightarrow> bool" where
  "wf_attribute a \<longleftrightarrow> a \<noteq> [] \<and> CHR ''/'' \<notin> set a \<and> ws_len_end a = 0"

definition wf_path :: "value_path \<Rightarrow> bool" where
  "wf_path p \<longleftrightarrow> path_steps p \<noteq> [] \<and> list_all wf_step (path_steps p)
     \<and> (case path_attribute p of None \<Rightarrow> True | Some a \<Rightarrow> wf_attribute a)"

subsection \<open>Parsing a canonical text\<close>

lemma unquote_quoted [simp]: "unquote q (q # v @ [q]) = Some v"
  by (simp add: unquote_def)

lemma unquote_Some: "unquote q raw = Some v \<Longrightarrow> raw = q # v @ [q]"
  by (auto simp: unquote_def strip_first_def strip_last_def bind_eq_Some_conv
      split: list.splits if_splits)

lemma dec_starts: "strip_first (CHR ''@'') (dec n) = None"
proof -
  obtain c r where cr: "dec n = c # r" using dec_not_Nil [of n] by (cases "dec n") auto
  then have "is_digit c" using dec_digits [of c n] by simp
  then show ?thesis using cr by (auto simp: is_digit_def)
qed

lemma parse_predicate_text:
  "wf_predicate p \<Longrightarrow> parse_predicate (predicate_text p) m = Inr p"
  by (cases p) (auto simp: wf_predicate_def predicate_text_def parse_predicate_def dec_starts
      parse_uint_dec)

lemma parse_step_text: "wf_step st \<Longrightarrow> parse_step (step_text st) e = Inr st"
proof (cases "step_predicate st")
  case None
  then show "wf_step st \<Longrightarrow> ?thesis"
    by (cases st) (auto simp: wf_step_def step_text_def parse_step_def split_once_None)
next
  case (Some p)
  moreover assume "wf_step st"
  ultimately show ?thesis
    by (cases st) (simp add: wf_step_def step_text_def parse_step_def parse_predicate_text
        butlast_append)
qed

lemma step_text_shape:
  assumes "wf_step st"
  shows "step_text st \<noteq> []" "strip_first (CHR ''@'') (step_text st) = None"
    "CHR ''/'' \<notin> set (step_text st)"
proof -
  have "CHR ''/'' \<notin> set (dec n)" for n
    using dec_digits [of "CHR ''/''" n] by (auto simp: is_digit_def)
  then show "CHR ''/'' \<notin> set (step_text st)"
    using assms by (auto simp: wf_step_def step_text_def predicate_text_def wf_predicate_def
        split: option.splits predicate.splits)
  show "step_text st \<noteq> []"
    using assms by (auto simp: wf_step_def step_text_def split: option.splits)
  show "strip_first (CHR ''@'') (step_text st) = None"
    using assms by (auto simp: wf_step_def step_text_def strip_first_def split: option.splits list.splits)
qed

lemma split_path_body:
  "list_all wf_step sts \<Longrightarrow>
     split_on (CHR ''/'') (concat (map (\<lambda>st. step_text st @ ''/'') sts) @ u)
       = map step_text sts @ split_on (CHR ''/'') u"
proof (induction sts)
  case (Cons st sts)
  then show ?case using step_text_shape(3) [of st] by (simp add: split_on_append)
qed simp

lemma parse_segments_texts:
  "list_all wf_step sts \<Longrightarrow>
     parse_segments e acc attr (map step_text sts @ segs) = parse_segments e (acc @ sts) attr segs"
proof (induction sts arbitrary: acc)
  case (Cons st sts)
  then show ?case using step_text_shape [of st] parse_step_text [of st e] by simp
qed simp

lemma no_slash_in_ws: "w \<in> set ws_chars \<Longrightarrow> CHR ''/'' \<notin> set w \<and> CHR ''@'' \<notin> set w"
  by (auto simp: ws_chars_def)

lemma ws_len_slash: "ws_len (CHR ''/'' # s) = 0"
  by (simp add: ws_len_eq_0 ws_chars_def)

lemma ws_len_end_past:
  "c \<in> {CHR ''/'', CHR ''@''} \<Longrightarrow> ws_len_end (u @ c # t) = 0 \<longleftrightarrow> ws_len_end t = 0"
  unfolding ws_len_end_eq_0 by (intro ball_cong refl arg_cong [where f = Not] suffix_past_sep)
    (auto dest: no_slash_in_ws)

lemma ws_len_end_path_text:
  assumes "wf_path p"
  shows "ws_len_end (path_text p) = 0"
proof (cases "path_attribute p")
  case None
  obtain sts st where "path_steps p = sts @ [st]"
    using assms by (cases "path_steps p" rule: rev_cases) (auto simp: wf_path_def)
  with None have "path_text p
      = (''/'' @ concat (map (\<lambda>st. step_text st @ ''/'') sts) @ step_text st) @ CHR ''/'' # []"
    by (simp add: path_text_def)
  then show ?thesis by (simp only: ws_len_end_past insertI1 ws_len_end_Nil)
next
  case (Some a)
  then have "path_text p
      = (''/'' @ concat (map (\<lambda>st. step_text st @ ''/'') (path_steps p))) @ CHR ''@'' # a"
    by (simp add: path_text_def)
  moreover have "ws_len_end a = 0" using assms Some by (simp add: wf_path_def wf_attribute_def)
  ultimately show ?thesis by (simp only: ws_len_end_past insert_iff simp_thms)
qed

lemma parse_path_text:
  assumes "wf_path p"
  shows "parse_path (path_text p) = Inr p"
proof -
  let ?tail = "case path_attribute p of None \<Rightarrow> [] | Some a \<Rightarrow> ''@'' @ a"
  let ?body = "concat (map (\<lambda>st. step_text st @ ''/'') (path_steps p)) @ ?tail"
  have body_text: "path_text p = CHR ''/'' # ?body" by (simp add: path_text_def)
  have trim: "str_trim (path_text p) = path_text p"
    using ws_len_end_path_text [OF assms] by (intro str_trim_id) (simp_all add: body_text ws_len_slash)
  have steps: "path_steps p \<noteq> []" "list_all wf_step (path_steps p)"
    using assms by (auto simp: wf_path_def)
  have "ws_len_end ?body = 0"
    using ws_len_end_suffix [OF ws_len_end_path_text [OF assms]] by (simp add: body_text suffix_Cons)
  moreover have "?body \<noteq> []" using steps by (cases "path_steps p") auto
  ultimately have body: "str_trim ?body \<noteq> []" by (simp only: str_trim_eq_Nil not_False_eq_True)
  have "parse_segments (path_text p) [] None (split_on (CHR ''/'') ?body)
      = Inr (path_steps p, path_attribute p)"
    using assms steps
    by (auto simp: split_path_body parse_segments_texts wf_path_def wf_attribute_def
        split_on_absent split: option.split)
  then show ?thesis
    using trim body steps by (simp add: parse_path_def body_text)
qed

subsection \<open>What is accepted\<close>

lemma parse_predicate_wf:
  assumes "parse_predicate inner m = Inr p" "CHR ''/'' \<notin> set inner"
  shows "wf_predicate p"
proof (cases "strip_first (CHR ''@'') inner")
  case None
  with assms(1) show ?thesis
    by (auto simp: parse_predicate_def wf_predicate_def dest: parse_uint_le
        split: option.splits if_splits)
next
  case (Some rest)
  then have "CHR ''/'' \<notin> set rest"
    using assms(2) by (auto simp: strip_first_def split: list.splits if_splits)
  with assms(1) Some show ?thesis
    by (auto simp: parse_predicate_def wf_predicate_def split_once_Some dest!: unquote_Some
        split: option.splits)
qed

lemma parse_step_wf:
  assumes "parse_step seg e = Inr st" "CHR ''/'' \<notin> set seg" "seg \<noteq> []"
    "strip_first (CHR ''@'') seg = None"
  shows "wf_step st"
proof (cases "split_once (CHR ''['') seg")
  case None
  with assms show ?thesis by (auto simp: parse_step_def wf_step_def split_once_None)
next
  case (Some ur)
  obtain u r where ur: "ur = (u, r)" by fastforce
  with Some have seg: "seg = u @ CHR ''['' # r" "CHR ''['' \<notin> set u" by (auto simp: split_once_Some)
  from assms(1) Some ur obtain p m where p: "parse_predicate (butlast r) m = Inr p"
      "st = \<lparr>step_name = u, step_predicate = Some p\<rparr>"
    by (auto simp: parse_step_def Let_def bind_res_Inr_iff split: if_splits)
  moreover have "CHR ''/'' \<notin> set (butlast r)" using assms(2) seg by (auto dest: in_set_butlastD)
  ultimately have "wf_predicate p" using parse_predicate_wf by blast
  moreover have "strip_first (CHR ''@'') u = None"
    using assms(4) seg by (cases u) auto
  ultimately show ?thesis using assms(2) seg p by (auto simp: wf_step_def)
qed

lemma parse_segments_wf:
  assumes "parse_segments e acc attr segs = Inr (sts, attr')" "list_all wf_step acc"
    "\<And>seg. seg \<in> set segs \<Longrightarrow> CHR ''/'' \<notin> set seg"
  shows "list_all wf_step sts \<and>
    (attr' = attr \<or> segs \<noteq> [] \<and> (\<exists>a. attr' = Some a \<and> a \<noteq> [] \<and> last segs = CHR ''@'' # a))"
  using assms
proof (induction e acc attr segs rule: parse_segments.induct)
  case (2 e acc attr seg segs)
  show ?case
  proof (cases "seg = []")
    case True
    with 2 show ?thesis by (auto split: if_splits)
  next
    case seg: False
    show ?thesis
    proof (cases "strip_first (CHR ''@'') seg")
      case None
      with "2.prems" seg obtain st where st: "parse_step seg e = Inr st"
          "parse_segments e (acc @ [st]) attr segs = Inr (sts, attr')"
        by (auto simp: bind_res_Inr_iff)
      then have "list_all wf_step (acc @ [st])"
        using "2.prems" parse_step_wf [OF st(1)] seg None by simp
      from "2.IH"(2) [OF seg None st(2) this] "2.prems"(3)
      have "list_all wf_step sts \<and> (attr' = attr \<or> segs \<noteq> [] \<and>
          (\<exists>a. attr' = Some a \<and> a \<noteq> [] \<and> last segs = CHR ''@'' # a))" by simp
      then show ?thesis by auto
    next
      case (Some nm)
      with "2.prems"(1) seg have "segs = []" "nm \<noteq> []" "attr' = Some nm" "sts = acc"
        by (simp_all split: if_splits)
      moreover have "seg = CHR ''@'' # nm"
        using Some by (auto simp: strip_first_def split: list.splits if_splits)
      ultimately show ?thesis using "2.prems"(2) by simp
    qed
  qed
qed auto

lemma last_split_on_suffix: "suffix (last (split_on c s)) s"
proof (induction s)
  case (Cons d s)
  have "split_on c s = [x] \<Longrightarrow> x = s" for x using join_split_on [of c s] by simp
  with Cons show ?case by (auto simp: suffix_Cons split: list.splits if_splits)
qed simp

lemma parse_path_wf:
  assumes "parse_path e = Inr p"
  shows "wf_path p"
proof -
  obtain body sts attr where b: "str_trim e = CHR ''/'' # body" "sts \<noteq> []"
      "parse_segments e [] None (split_on (CHR ''/'') body) = Inr (sts, attr)"
      "p = \<lparr>path_steps = sts, path_attribute = attr\<rparr>"
    using assms by (auto simp: parse_path_def bind_res_Inr_iff strip_first_def
        split: option.splits if_splits list.splits)
  have "ws_len_end (str_trim e) = 0" by simp
  then have "ws_len_end body = 0"
    by (rule ws_len_end_suffix) (simp add: b suffix_Cons)
  then have e: "ws_len_end (last (split_on (CHR ''/'') body)) = 0"
    by (rule ws_len_end_suffix) (rule last_split_on_suffix)
  have segs: "CHR ''/'' \<notin> set seg" if "seg \<in> set (split_on (CHR ''/'') body)" for seg
    using that by (rule split_on_segments)
  have w: "list_all wf_step sts" "attr = None \<or>
      (\<exists>a. attr = Some a \<and> a \<noteq> [] \<and> last (split_on (CHR ''/'') body) = CHR ''@'' # a)"
    using parse_segments_wf [OF b(3) _ segs] by auto
  have "wf_attribute a" if "attr = Some a" for a
  proof -
    have a: "a \<noteq> []" "last (split_on (CHR ''/'') body) = CHR ''@'' # a" using w that by auto
    moreover have "last (split_on (CHR ''/'') body) \<in> set (split_on (CHR ''/'') body)" by simp
    ultimately have "CHR ''/'' \<notin> set a" using segs [of "CHR ''@'' # a"] by simp
    moreover have "ws_len_end a = 0"
      using e by (rule ws_len_end_suffix) (simp add: a suffix_Cons)
    ultimately show ?thesis using a by (simp add: wf_attribute_def)
  qed
  with w b show ?thesis by (simp add: wf_path_def split: option.split)
qed

subsection \<open>How a path may be spelled\<close>

text \<open>An index in decimal, with leading zeros and a plus sign if one likes; an attribute test with either
  quote; a step as its name and its bracketed predicate.\<close>

definition spells_index :: "string \<Rightarrow> nat \<Rightarrow> bool" where
  "spells_index s i \<longleftrightarrow> (\<exists>k. s = replicate k (CHR ''0'') @ dec i \<or> s = CHR ''+'' # replicate k (CHR ''0'') @ dec i)"

fun spells_predicate :: "string \<Rightarrow> predicate \<Rightarrow> bool" where
  "spells_predicate s (Index i) \<longleftrightarrow> spells_index s i"
| "spells_predicate s (AttributeEquals a v) \<longleftrightarrow>
     (\<exists>q \<in> {CHR 0x22, CHR 0x27}. s = CHR ''@'' # a @ CHR ''='' # q # v @ [q])"

definition spells_step :: "string \<Rightarrow> step \<Rightarrow> bool" where
  "spells_step s st \<longleftrightarrow>
     (case step_predicate st of
        None \<Rightarrow> s = step_name st
      | Some p \<Rightarrow> \<exists>inner. s = step_name st @ ''['' @ inner @ '']'' \<and> spells_predicate inner p)"

text \<open>A path: a slash and its steps between slashes, then its attribute, or a final slash if one likes;
  white space around it is ignored.\<close>

definition spells_path :: "string \<Rightarrow> value_path \<Rightarrow> bool" where
  "spells_path e p \<longleftrightarrow>
     (\<exists>segs tail. str_trim e = ''/'' @ join ''/'' segs @ tail
        \<and> list_all2 spells_step segs (path_steps p)
        \<and> (case path_attribute p of None \<Rightarrow> tail \<in> {[], ''/''} | Some a \<Rightarrow> tail = ''/@'' @ a))"

lemma zeros_dec:
  "list_all is_digit t \<Longrightarrow> t \<noteq> [] \<Longrightarrow> \<exists>k. t = replicate k (CHR ''0'') @ dec (digits_val t)"
proof (induction t rule: rev_induct)
  case (snoc c t)
  have c: "is_digit c" using snoc.prems by simp
  then have d: "digit_val c < 10" "digit (digit_val c) = c"
    by (auto simp: is_digit_def digit_val_def digit_def)
  then have one: "dec (digit_val c) = [c]" "digit_val c < 10" by (subst dec.simps, simp) (rule d(1))
  show ?case
  proof (cases "t = []")
    case True
    then show ?thesis using one by (intro exI [of _ 0]) (simp add: digits_val_def)
  next
    case False
    then obtain k where k: "t = replicate k (CHR ''0'') @ dec (digits_val t)" using snoc by auto
    show ?thesis
    proof (cases "digits_val t = 0")
      case True
      then have "t = replicate (Suc k) (CHR ''0'')"
        using k by (simp add: dec.simps [of 0] digit_def replicate_append_same)
      then show ?thesis
        using True one by (intro exI [of _ "Suc k"]) (simp only: digits_val_snoc, simp)
    next
      case False
      have "dec (digits_val (t @ [c])) = dec (digits_val t) @ [c]"
        using False d by (subst dec.simps) (simp add: digits_val_snoc)
      then show ?thesis using k by (metis append.assoc)
    qed
  qed
qed simp

lemma after_plus:
  "t = c # r \<Longrightarrow> c \<noteq> CHR ''+'' \<Longrightarrow> s = t \<or> s = CHR ''+'' # t \<Longrightarrow>
     (case s of [] \<Rightarrow> [] | c # r \<Rightarrow> if c = CHR ''+'' then r else s) = t"
  by auto

lemma spells_index_iff: "parse_uint m s = Some i \<longleftrightarrow> spells_index s i \<and> i \<le> m"
proof
  assume p: "parse_uint m s = Some i"
  let ?t = "case s of [] \<Rightarrow> [] | c # r \<Rightarrow> if c = CHR ''+'' then r else s"
  have t: "list_all is_digit ?t" "?t \<noteq> []" "i = digits_val ?t" "i \<le> m"
    using p by (simp_all add: parse_uint_def Let_def split: if_splits)
  obtain k where "?t = replicate k (CHR ''0'') @ dec i" using zeros_dec [OF t(1,2)] t(3) by blast
  moreover have "s = ?t \<or> s = CHR ''+'' # ?t" using t(2) by (cases s) auto
  ultimately have "spells_index s i" unfolding spells_index_def by metis
  then show "spells_index s i \<and> i \<le> m" using t(4) by simp
next
  assume s: "spells_index s i \<and> i \<le> m"
  then obtain k where k: "s = replicate k (CHR ''0'') @ dec i \<or> s = CHR ''+'' # replicate k (CHR ''0'') @ dec i"
    by (auto simp: spells_index_def)
  let ?t = "replicate k (CHR ''0'') @ dec i"
  have digits: "list_all is_digit ?t" "?t \<noteq> []"
  proof -
    have "is_digit (CHR ''0'')" by (simp add: is_digit_def)
    moreover have "\<forall>c \<in> set (dec i). is_digit c" using dec_digits by blast
    ultimately show "list_all is_digit ?t" by (auto simp only: list_all_iff set_append set_replicate_conv_if split: if_splits)
    show "?t \<noteq> []" by simp
  qed
  have "digits_val (replicate k (CHR ''0'') @ u) = digits_val u" for u
    by (induction k) (simp_all add: digits_val_def digit_val_def)
  then have v: "digits_val ?t = i" by simp
  obtain c r where cr: "?t = c # r" using digits(2) by (cases ?t) auto
  then have "c \<noteq> CHR ''+''" using digits(1) by (auto simp: is_digit_def)
  note t = after_plus [OF cr this k]
  have "i \<le> m" using s by simp
  then show "parse_uint m s = Some i"
    unfolding parse_uint_def Let_def t v by (simp only: digits if_True simp_thms)
qed

lemma spells_index_starts: "spells_index s i \<Longrightarrow> strip_first (CHR ''@'') s = None"
proof -
  assume "spells_index s i"
  then obtain k where k: "s = replicate k (CHR ''0'') @ dec i \<or> s = CHR ''+'' # replicate k (CHR ''0'') @ dec i"
    by (auto simp: spells_index_def)
  show ?thesis using k dec_starts [of i] by (cases k) auto
qed

lemma parse_predicate_iff:
  assumes "CHR ''/'' \<notin> set inner"
  shows "parse_predicate inner m = Inr p \<longleftrightarrow> spells_predicate inner p \<and> wf_predicate p"
proof
  assume p: "parse_predicate inner m = Inr p"
  have "spells_predicate inner p"
  proof (cases "strip_first (CHR ''@'') inner")
    case None
    with p show ?thesis
      by (auto simp: parse_predicate_def spells_index_iff split: option.splits if_splits)
  next
    case (Some rest)
    then have "inner = CHR ''@'' # rest" by (auto simp: strip_first_def split: list.splits if_splits)
    with p Some show ?thesis
      by (auto simp: parse_predicate_def split_once_Some dest!: unquote_Some split: option.splits)
  qed
  then show "spells_predicate inner p \<and> wf_predicate p" using parse_predicate_wf [OF p assms] by simp
next
  assume s: "spells_predicate inner p \<and> wf_predicate p"
  show "parse_predicate inner m = Inr p"
  proof (cases p)
    case (Index i)
    have "strip_first (CHR ''@'') inner = None" using s Index spells_index_starts by auto
    moreover have "parse_uint u64_max inner = Some i" using s Index by (simp add: spells_index_iff wf_predicate_def)
    ultimately show ?thesis using s Index by (simp add: parse_predicate_def wf_predicate_def)
  next
    case (AttributeEquals a v)
    obtain q where q: "q \<in> {CHR 0x22, CHR 0x27}" "inner = CHR ''@'' # a @ CHR ''='' # q # v @ [q]"
      using s AttributeEquals by auto
    have a: "CHR ''='' \<notin> set a" using s AttributeEquals by (simp add: wf_predicate_def)
    have "split_once (CHR ''='') (a @ CHR ''='' # q # v @ [q]) = Some (a, q # v @ [q])"
      using a by (simp add: split_once_Some)
    moreover have "unquote (CHR 0x22) (CHR 0x27 # v @ [CHR 0x27]) = None"
      by (simp add: unquote_def strip_first_def)
    ultimately show ?thesis using q AttributeEquals by (auto simp: parse_predicate_def)
  qed
qed

lemma parse_step_iff:
  assumes "seg \<noteq> []" "CHR ''/'' \<notin> set seg" "strip_first (CHR ''@'') seg = None"
  shows "parse_step seg e = Inr st \<longleftrightarrow> spells_step seg st \<and> wf_step st"
proof
  assume p: "parse_step seg e = Inr st"
  have "spells_step seg st"
  proof (cases "split_once (CHR ''['') seg")
    case None
    with p show ?thesis by (auto simp: parse_step_def spells_step_def)
  next
    case (Some ur)
    obtain u r where ur: "ur = (u, r)" by fastforce
    with Some have seg: "seg = u @ CHR ''['' # r" by (simp add: split_once_Some)
    from p Some ur obtain q m where q: "last seg = CHR '']''" "parse_predicate (butlast r) m = Inr q"
        "st = \<lparr>step_name = u, step_predicate = Some q\<rparr>"
      by (auto simp: parse_step_def Let_def bind_res_Inr_iff split: if_splits)
    have "r \<noteq> []" using q(1) seg by auto
    then have r: "r = butlast r @ '']''" using q(1) seg by (metis append_butlast_last_id last_ConsR last_appendR list.distinct(1))
    have "CHR ''/'' \<notin> set (butlast r)" using assms(2) seg by (auto dest: in_set_butlastD)
    then have "spells_predicate (butlast r) q" using q(2) by (simp add: parse_predicate_iff)
    then show ?thesis using seg r q(3) by (auto simp: spells_step_def)
  qed
  then show "spells_step seg st \<and> wf_step st" using parse_step_wf [OF p assms(2,1,3)] by simp
next
  assume s: "spells_step seg st \<and> wf_step st"
  show "parse_step seg e = Inr st"
  proof (cases "step_predicate st")
    case None
    with s show ?thesis
      by (cases st) (auto simp: spells_step_def wf_step_def parse_step_def split_once_None)
  next
    case (Some q)
    with s obtain inner where inner: "seg = step_name st @ ''['' @ inner @ '']''" "spells_predicate inner q"
      by (auto simp: spells_step_def)
    have name: "CHR ''['' \<notin> set (step_name st)" "wf_predicate q" using s Some by (simp_all add: wf_step_def)
    have "CHR ''/'' \<notin> set inner" using assms(2) inner(1) by auto
    then have "parse_predicate inner m = Inr q" for m using inner(2) name(2) by (simp add: parse_predicate_iff)
    moreover have "split_once (CHR ''['') seg = Some (step_name st, inner @ '']'')"
      using name(1) inner(1) by (simp add: split_once_Some)
    moreover have "last seg = CHR '']''" using inner(1) by simp
    ultimately show ?thesis using Some by (cases st) (simp add: parse_step_def Let_def butlast_append)
  qed
qed

lemma spelled_shape:
  assumes "spells_step seg st" "wf_step st"
  shows "seg \<noteq> []" "strip_first (CHR ''@'') seg = None" "CHR ''/'' \<notin> set seg"
proof -
  have digits: "CHR ''/'' \<notin> set (dec n)" for n
    using dec_digits [of "CHR ''/''" n] by (auto simp: is_digit_def)
  have "CHR ''/'' \<notin> set inner" if "spells_predicate inner p" "wf_predicate p" for inner p
    using that digits by (cases p) (auto simp: spells_index_def wf_predicate_def)
  then show "CHR ''/'' \<notin> set seg" "seg \<noteq> []"
    using assms by (auto simp: spells_step_def wf_step_def split: option.splits)
  show "strip_first (CHR ''@'') seg = None"
    using assms by (auto simp: spells_step_def wf_step_def strip_first_def split: option.splits list.splits)
qed

text \<open>The loop over the segments accepts exactly spelled steps, then nothing, an empty last segment or an
  attribute.\<close>

definition spells_end :: "string list \<Rightarrow> string option \<Rightarrow> bool" where
  "spells_end rst attr \<longleftrightarrow>
     (case attr of None \<Rightarrow> rst \<in> {[], [[]]} | Some a \<Rightarrow> a \<noteq> [] \<and> rst = [CHR ''@'' # a])"

lemma parse_segments_spelled:
  "list_all2 spells_step ss sts \<Longrightarrow> list_all wf_step sts \<Longrightarrow>
     parse_segments e acc attr (ss @ rst) = parse_segments e (acc @ sts) attr rst"
proof (induction ss arbitrary: acc sts)
  case (Cons s ss)
  then obtain st rest where st: "sts = st # rest" "spells_step s st" "list_all2 spells_step ss rest"
    by (auto simp: list_all2_Cons1)
  then have w: "wf_step st" "list_all wf_step rest" using Cons.prems by simp_all
  note shape = spelled_shape [OF st(2) w(1)]
  have "parse_step s e = Inr st" using st(2) w(1) shape by (simp add: parse_step_iff)
  then show ?case using Cons.IH [OF st(3) w(2)] shape st(1) by simp
qed simp

lemma parse_segments_spells:
  assumes "parse_segments e acc attr segs = Inr (sts, attr')" "attr = None"
    "\<And>seg. seg \<in> set segs \<Longrightarrow> CHR ''/'' \<notin> set seg"
  shows "\<exists>ss rst new. segs = ss @ rst \<and> sts = acc @ new \<and> list_all2 spells_step ss new \<and> spells_end rst attr'"
  using assms
proof (induction e acc attr segs rule: parse_segments.induct)
  case (1 e acc attr)
  then show ?case by (intro exI [of _ "[]"]) (simp add: spells_end_def)
next
  case (2 e acc attr seg segs)
  show ?case
  proof (cases "seg = []")
    case True
    with "2.prems" show ?thesis
      by (intro exI [of _ "[]"] exI [of _ "[[]]"]) (auto simp: spells_end_def split: if_splits)
  next
    case seg: False
    show ?thesis
    proof (cases "strip_first (CHR ''@'') seg")
      case None
      with "2.prems" seg obtain st where st: "parse_step seg e = Inr st"
          "parse_segments e (acc @ [st]) attr segs = Inr (sts, attr')"
        by (auto simp: bind_res_Inr_iff)
      from "2.IH"(2) [OF seg None st(2) "2.prems"(2)] "2.prems"(3)
      obtain ss rst new where r: "segs = ss @ rst" "sts = (acc @ [st]) @ new" "list_all2 spells_step ss new"
          "spells_end rst attr'" by (metis list.set_intros(2))
      have "spells_step seg st" using st(1) seg None "2.prems"(3) by (simp add: parse_step_iff)
      with r show ?thesis
        by (intro exI [of _ "seg # ss"] exI [of _ rst] exI [of _ "st # new"]) simp
    next
      case (Some nm)
      with "2.prems"(1) seg have "segs = []" "nm \<noteq> []" "attr' = Some nm" "sts = acc"
        by (simp_all split: if_splits)
      moreover have "seg = CHR ''@'' # nm"
        using Some by (auto simp: strip_first_def split: list.splits if_splits)
      ultimately show ?thesis
        by (intro exI [of _ "[]"] exI [of _ "[seg]"]) (simp add: spells_end_def)
    qed
  qed
qed

lemma join_snoc: "ss \<noteq> [] \<Longrightarrow> join sep (ss @ [x]) = join sep ss @ sep @ x"
  by (induction ss) (auto simp: join_Cons)

lemma parse_path_spells:
  assumes "parse_path e = Inr p"
  shows "spells_path e p"
proof -
  obtain body sts attr where b: "str_trim e = CHR ''/'' # body" "sts \<noteq> []"
      "parse_segments e [] None (split_on (CHR ''/'') body) = Inr (sts, attr)"
      "p = \<lparr>path_steps = sts, path_attribute = attr\<rparr>"
    using assms by (auto simp: parse_path_def bind_res_Inr_iff strip_first_def
        split: option.splits if_splits list.splits)
  have "CHR ''/'' \<notin> set seg" if "seg \<in> set (split_on (CHR ''/'') body)" for seg
    using that by (rule split_on_segments)
  from parse_segments_spells [OF b(3) refl this]
  obtain ss rst where ss: "split_on (CHR ''/'') body = ss @ rst" "list_all2 spells_step ss sts" "spells_end rst attr"
    by auto
  have "ss \<noteq> []" using ss(2) b(2) by auto
  then have "body = join ''/'' ss @ (case rst of [] \<Rightarrow> [] | t # _ \<Rightarrow> CHR ''/'' # t)"
    using join_split_on [of "CHR ''/''" body] ss(1,3) join_snoc [of ss "''/''"]
    by (auto simp: spells_end_def split: option.splits)
  then show ?thesis
    using b ss(2,3) unfolding spells_path_def spells_end_def
    by (intro exI [of _ ss] exI [of _ "case rst of [] \<Rightarrow> [] | t # _ \<Rightarrow> CHR ''/'' # t"])
      (auto split: option.splits)
qed

lemma spells_path_parses:
  assumes "wf_path p" "spells_path e p"
  shows "parse_path e = Inr p"
proof -
  obtain segs tail where t: "str_trim e = CHR ''/'' # join ''/'' segs @ tail" "list_all2 spells_step segs (path_steps p)"
      "case path_attribute p of None \<Rightarrow> tail \<in> {[], ''/''} | Some a \<Rightarrow> tail = ''/@'' @ a"
    using assms(2) by (auto simp: spells_path_def)
  have steps: "path_steps p \<noteq> []" "list_all wf_step (path_steps p)" using assms(1) by (simp_all add: wf_path_def)
  then have ne: "segs \<noteq> []" using t(2) by auto
  have shape: "seg \<noteq> [] \<and> CHR ''/'' \<notin> set seg" if mem: "seg \<in> set segs" for seg
  proof -
    obtain k where k: "k < length segs" "segs ! k = seg" using mem by (auto simp: in_set_conv_nth)
    then have "spells_step seg (path_steps p ! k)" using list_all2_nthD [OF t(2) k(1)] by simp
    moreover have "wf_step (path_steps p ! k)"
      using steps(2) k(1) list_all2_lengthD [OF t(2)] by (simp add: list_all_length)
    ultimately show ?thesis using spelled_shape(1,3) by blast
  qed
  define rest where "rest = (case path_attribute p of None \<Rightarrow> if tail = [] then [] else [[]] | Some a \<Rightarrow> [CHR ''@'' # a])"
  let ?body = "join ''/'' segs @ tail"
  have body: "?body = join ''/'' (segs @ rest)"
    using t(3) join_snoc [OF ne, of "''/''"] unfolding rest_def
    by (cases "path_attribute p") (auto simp del: join.simps)
  have "\<forall>seg \<in> set (segs @ rest). CHR ''/'' \<notin> set seg"
    using shape assms(1) by (auto simp: rest_def wf_path_def wf_attribute_def split: option.splits if_splits)
  then have split: "split_on (CHR ''/'') ?body = segs @ rest"
    unfolding body using ne by (intro split_on_join) auto
  have "ws_len_end (str_trim e) = 0" by simp
  then have "ws_len_end ?body = 0" by (rule ws_len_end_suffix) (simp add: t(1) suffix_Cons)
  moreover obtain seg more where "segs = seg # more" using ne by (cases segs) auto
  then have "?body \<noteq> []" using shape [of seg] by (simp add: join_Cons)
  ultimately have trim: "str_trim ?body \<noteq> []" by (simp only: str_trim_eq_Nil not_False_eq_True)
  have "parse_segments e [] None (segs @ rest) = Inr (path_steps p, path_attribute p)"
    using assms(1) steps parse_segments_spelled [OF t(2) steps(2), of e "[]" None rest]
    by (auto simp: rest_def wf_path_def wf_attribute_def split: option.splits)
  then show ?thesis using t(1) trim split steps(1) by (simp add: parse_path_def)
qed


subsection \<open>Agreement with XPath\<close>

text \<open>
  The XPath reading of a path: each step maps a list of context nodes to all the children it selects,
  in document order, with positions counted from one among the children of one parent.
\<close>

definition xp_step :: "step \<Rightarrow> event_node \<Rightarrow> event_node list" where
  "xp_step st node =
     (let named = children_named node (step_name st) in
      case step_predicate st of
        None \<Rightarrow> named
      | Some (Index i) \<Rightarrow> if 1 \<le> i \<and> i \<le> length named then [named ! (i - 1)] else []
      | Some (AttributeEquals a v) \<Rightarrow> filter (\<lambda>n. attribute n a = Some v) named)"

fun xp_nodes :: "step list \<Rightarrow> event_node list \<Rightarrow> event_node list" where
  "xp_nodes [] ns = ns"
| "xp_nodes (st # sts) ns = xp_nodes sts (concat (map (xp_step st) ns))"

text \<open>The nodes an absolute path selects in the tree of the root element.\<close>

definition xp_select :: "value_path \<Rightarrow> event_node \<Rightarrow> event_node list" where
  "xp_select p root =
     (case path_steps p of
        [] \<Rightarrow> []
      | st # sts \<Rightarrow>
          if step_name st = node_name root \<and> step_predicate st = None then xp_nodes sts [root]
          else [])"

text \<open>Every step but the last selects at most one container.\<close>

fun unique_containers :: "step list \<Rightarrow> event_node \<Rightarrow> bool" where
  "unique_containers [] n \<longleftrightarrow> True"
| "unique_containers [st] n \<longleftrightarrow> True"
| "unique_containers (st # st' # sts) n \<longleftrightarrow>
     (case xp_step st n of [] \<Rightarrow> True | [m] \<Rightarrow> unique_containers (st' # sts) m | _ \<Rightarrow> False)"

text \<open>The value of the selected nodes: the texts of repeated elements are joined, an attribute or a
  predicate reads the first.\<close>

definition xp_value :: "bool \<Rightarrow> string option \<Rightarrow> event_node list \<Rightarrow> string option" where
  "xp_value narrowed attr ns =
     (case ns of
        [] \<Rightarrow> None
      | n # rest \<Rightarrow>
          (case attr of
             Some a \<Rightarrow> attribute n a
           | None \<Rightarrow> if narrowed \<or> rest = [] then node_text n
                     else Some (join separator (map text_or_empty ns))))"

definition narrowed :: "step list \<Rightarrow> bool" where
  "narrowed sts \<longleftrightarrow> sts \<noteq> [] \<and> step_predicate (last sts) \<noteq> None"

lemma xp_nodes_Nil [simp]: "xp_nodes sts [] = []"
  by (induction sts) auto

lemma find_filter: "List.find P xs = (case filter P xs of [] \<Rightarrow> None | x # _ \<Rightarrow> Some x)"
  by (induction xs) auto

lemma nth_opt_case:
  "nth_opt xs i = (case (if i < length xs then [xs ! i] else []) of [] \<Rightarrow> None | x # _ \<Rightarrow> Some x)"
  by (simp add: nth_opt_def)

lemma nth_opt_0: "nth_opt xs 0 = (case xs of [] \<Rightarrow> None | x # _ \<Rightarrow> Some x)"
  by (cases xs) (auto simp: nth_opt_def)

lemma select_one_xp:
  "wf_step st \<Longrightarrow> select_one node st = (case xp_step st node of [] \<Rightarrow> None | n # _ \<Rightarrow> Some n)"
proof (cases "step_predicate st")
  case None
  then show ?thesis by (simp add: select_one_def xp_step_def nth_opt_0)
next
  case (Some p)
  assume "wf_step st"
  with Some show ?thesis
    by (cases p) (auto simp: select_one_def xp_step_def Let_def find_filter nth_opt_case
        wf_step_def wf_predicate_def)
qed

lemma read_final_xp:
  "wf_step st \<Longrightarrow> read_final node st attr = xp_value (narrowed [st]) attr (xp_step st node)"
proof (cases "step_predicate st")
  case None
  then show ?thesis
    by (auto simp: read_final_def xp_value_def xp_step_def Let_def children_named_def read_node_def
        narrowed_def split: list.split option.split)
next
  case (Some p)
  then show "wf_step st \<Longrightarrow> ?thesis"
    by (auto simp: read_final_def select_one_xp xp_value_def read_node_def narrowed_def
        split: list.split option.split)
qed

lemma walk_xp:
  "list_all wf_step sts \<Longrightarrow> unique_containers sts n \<Longrightarrow>
     walk n sts attr = xp_value (narrowed sts) attr (xp_nodes sts [n])"
proof (induction n sts attr rule: walk.induct)
  case (1 n attr)
  then show ?case by (simp add: xp_value_def narrowed_def read_node_def split: option.split)
next
  case (2 n st attr)
  then show ?case by (simp add: read_final_xp)
next
  case (3 n st st' sts attr)
  have nar: "narrowed (st # st' # sts) = narrowed (st' # sts)" by (simp add: narrowed_def)
  show ?case
  proof (cases "xp_step st n")
    case Nil
    with 3 show ?thesis by (simp add: select_one_xp xp_value_def)
  next
    case (Cons m ms)
    with "3.prems" have m: "xp_step st n = [m]" "unique_containers (st' # sts) m"
      by (auto split: list.splits)
    then have "select_one n st = Some m" using "3.prems"(1) by (simp add: select_one_xp)
    then show ?thesis using "3.IH" "3.prems"(1) m nar by simp
  qed
qed

text \<open>C14. On an event whose containers are unique, evaluating an accepted path gives what its XPath
  reading selects: nothing when no node is selected, the attribute or the text of the only (or first
  narrowed) node, and the texts of repeated elements joined in document order otherwise.\<close>

theorem evaluate_agrees_with_xpath:
  assumes "parse_path e = Inr p" "unique_containers (tl (path_steps p)) root"
  shows "evaluate p root
    = xp_value (narrowed (tl (path_steps p))) (path_attribute p) (xp_select p root)"
proof -
  obtain st sts where p: "path_steps p = st # sts" "list_all wf_step (st # sts)"
    using parse_path_wf [OF assms(1)] by (cases "path_steps p") (auto simp: wf_path_def)
  then show ?thesis
    using walk_xp [of sts root "path_attribute p"] assms(2)
    by (auto simp: evaluate_def xp_select_def xp_value_def)
qed

text \<open>An event with two data elements, and a path that joins them.\<close>

definition sample_event :: event_node where
  "sample_event =
     EventNode ''Event'' [] None
       [EventNode ''EventData'' [] None
          [EventNode ''Data'' [(''Name'', ''User'')] (Some ''adam'') [],
           EventNode ''Data'' [(''Name'', ''Type'')] (Some ''10'') []]]"

definition sample_path :: value_path where
  "sample_path =
     \<lparr>path_steps = [\<lparr>step_name = ''Event'', step_predicate = None\<rparr>,
        \<lparr>step_name = ''EventData'', step_predicate = None\<rparr>,
        \<lparr>step_name = ''Data'', step_predicate = None\<rparr>], path_attribute = None\<rparr>"

lemma sample_path_parsed: "parse_path (path_text sample_path) = Inr sample_path"
  by (rule parse_path_text)
    (simp add: wf_path_def sample_path_def wf_step_def)

lemma evaluate_agrees_with_xpath_witness:
  "evaluate sample_path sample_event
     = xp_value (narrowed (tl (path_steps sample_path))) (path_attribute sample_path)
         (xp_select sample_path sample_event)
   \<and> evaluate sample_path sample_event = Some ''adam, 10''"
proof
  show "evaluate sample_path sample_event
     = xp_value (narrowed (tl (path_steps sample_path))) (path_attribute sample_path)
         (xp_select sample_path sample_event)"
    by (rule evaluate_agrees_with_xpath [OF sample_path_parsed]) code_simp
  show "evaluate sample_path sample_event = Some ''adam, 10''" by code_simp
qed

end
