(* ===== verification/KeyedStore.thy ===== *)
theory KeyedStore
  imports Prelude
begin

text \<open>
  The contract of a map type (\<open>HashMap\<close>, \<open>BTreeMap\<close>) as its clients rely on it: what a lookup returns
  after an insertion, what an insertion does to the number of keys, and the facts that follow for a
  sequence of insertions. Each component that keeps such a map interprets it on its own operations.
\<close>

locale keyed_store =
  fixes empty :: 's
    and get :: "'s \<Rightarrow> 'k \<Rightarrow> 'v option"
    and put :: "'k \<Rightarrow> 'v \<Rightarrow> 's \<Rightarrow> 's"
    and count :: "'s \<Rightarrow> nat"
    and ok :: "'s \<Rightarrow> bool"
  assumes ok_empty: "ok empty"
    and get_empty: "get empty k = None"
    and count_empty: "count empty = 0"
    and ok_put: "ok s \<Longrightarrow> ok (put k v s)"
    and get_put: "ok s \<Longrightarrow> get (put k v s) k' = (if k' = k then Some v else get s k')"
    and count_put: "ok s \<Longrightarrow> count (put k v s) = count s + (if get s k = None then 1 else 0)"
begin

lemma put_all_ok: "ok s \<Longrightarrow> ok (fold (\<lambda>x. put (f x) (g x)) xs s)"
  by (induction xs arbitrary: s) (simp_all add: ok_put)

text \<open>The last insertion under a key wins.\<close>

lemma get_put_all:
  "ok s \<Longrightarrow> get (fold (\<lambda>x. put (f x) (g x)) xs s) k =
     (case List.find (\<lambda>x. f x = k) (rev xs) of None \<Rightarrow> get s k | Some x \<Rightarrow> Some (g x))"
proof (induction xs rule: rev_induct)
  case (snoc x xs)
  then show ?case using put_all_ok [of s f g xs] by (simp add: get_put)
qed simp

lemma get_put_all_None:
  "get (fold (\<lambda>x. put (f x) (g x)) xs empty) k = None \<longleftrightarrow> k \<notin> f ` set xs"
proof -
  have "List.find (\<lambda>x. f x = k) (rev xs) = None \<longleftrightarrow> k \<notin> f ` set xs"
    by (auto simp: find_None_iff)
  then show ?thesis
    by (auto simp: get_put_all ok_empty get_empty split: option.split)
qed

text \<open>There are as many entries as distinct keys.\<close>

lemma count_put_all: "count (fold (\<lambda>x. put (f x) (g x)) xs empty) = card (f ` set xs)"
proof (induction xs rule: rev_induct)
  case (snoc x xs)
  have ok: "ok (fold (\<lambda>x. put (f x) (g x)) xs empty)" by (rule put_all_ok) (rule ok_empty)
  show ?case
    by (simp add: count_put [OF ok] snoc get_put_all_None card_insert_if insert_absorb)
qed (simp add: count_empty)

end

end
