(* ===== verification/EventMapApply.thy ===== *)
theory EventMapApply
  imports EventMapPath KeyedStore
begin

text \<open>
  Correctness of map application and of the registry in \<open>EventMap\<close>: the single-pass renderer against a
  tokenisation of the template, \<open>apply_map\<close> against a reference that evaluates every binding, and the
  registry as an instance of the map contract of \<open>KeyedStore\<close>.
\<close>

subsection \<open>Distinct values in order of first occurrence\<close>

definition first_occurrences :: "'a list \<Rightarrow> 'a list" where
  "first_occurrences xs = rev (remdups (rev xs))"

lemma fold_push_new: "fold push_new xs [] = first_occurrences xs"
  by (induction xs rule: rev_induct) (auto simp: push_new_def first_occurrences_def)

lemma distinct_first_occurrences [simp]: "distinct (first_occurrences xs)"
  by (simp add: first_occurrences_def)

lemma set_first_occurrences [simp]: "set (first_occurrences xs) = set xs"
  by (simp add: first_occurrences_def)

subsection \<open>Templates\<close>

text \<open>The tokens of a template do not depend on the values.\<close>

datatype token = Lit string | Var string

function tokens :: "string \<Rightarrow> token list" where
  "tokens rest =
     (case split_once (CHR ''%'') rest of
        None \<Rightarrow> [Lit rest]
      | Some (before, after) \<Rightarrow>
          Lit before #
          (case split_once (CHR ''%'') after of
             None \<Rightarrow> [Lit (''%'' @ after)]
           | Some (nm, rest') \<Rightarrow>
               if nm = [] \<or> has_ws nm then Lit ''%'' # tokens after
               else Var nm # tokens rest'))"
  by pat_completeness auto
termination by (relation "measure length") (auto simp: split_once_Some)

declare tokens.simps [simp del]

fun token_source :: "token \<Rightarrow> string" where
  "token_source (Lit s) = s"
| "token_source (Var n) = ''%'' @ n @ ''%''"

text \<open>The text a token stands for: a variable is replaced by its value, or left as it was written.\<close>

fun expand :: "(string \<rightharpoonup> string) \<Rightarrow> token \<Rightarrow> string" where
  "expand vs (Lit s) = s"
| "expand vs (Var n) = (case vs n of Some v \<Rightarrow> v | None \<Rightarrow> ''%'' @ n @ ''%'')"

fun token_vars :: "token \<Rightarrow> string list" where
  "token_vars (Lit s) = []"
| "token_vars (Var n) = [n]"

definition template_vars :: "string \<Rightarrow> string list" where
  "template_vars tmpl = concat (map token_vars (tokens tmpl))"

definition is_placeholder_name :: "string \<Rightarrow> bool" where
  "is_placeholder_name n \<longleftrightarrow> n \<noteq> [] \<and> \<not> has_ws n \<and> CHR ''%'' \<notin> set n"

lemma concat_token_source: "concat (map token_source (tokens t)) = t"
proof (induction t rule: tokens.induct)
  case (1 t)
  then show ?case
    by (subst tokens.simps) (auto simp: split_once_Some split: option.split)
qed

lemma token_vars_names: "list_all is_placeholder_name (concat (map token_vars (tokens t)))"
proof (induction t rule: tokens.induct)
  case (1 t)
  show ?case
  proof (cases "split_once (CHR ''%'') t")
    case None
    then show ?thesis by (simp add: tokens.simps [of t])
  next
    case outer: (Some ba)
    obtain before after where ba: "ba = (before, after)" by fastforce
    show ?thesis
    proof (cases "split_once (CHR ''%'') after")
      case None
      with outer ba show ?thesis by (simp add: tokens.simps [of t])
    next
      case inner: (Some nr)
      obtain nm rest' where nr: "nr = (nm, rest')" by fastforce
      note IH = "1.IH" [OF outer ba [symmetric] inner nr [symmetric]]
      have "CHR ''%'' \<notin> set nm" using inner nr by (auto simp: split_once_Some)
      then show ?thesis
        using outer ba inner nr IH
        by (cases "nm = [] \<or> has_ws nm")
          (simp_all add: tokens.simps [of t] is_placeholder_name_def)
    qed
  qed
qed

lemma render_loop_tokens:
  "render_loop vs out unres rest =
     (out @ concat (map (expand vs) (tokens rest)),
      fold push_new (filter (\<lambda>n. vs n = None) (concat (map token_vars (tokens rest)))) unres)"
proof (induction vs out unres rest rule: render_loop.induct)
  case (1 vs out unres rest)
  show ?case
  proof (cases "split_once (CHR ''%'') rest")
    case None
    then show ?thesis by (simp add: render_loop.simps tokens.simps [of rest])
  next
    case outer: (Some ba)
    obtain before after where ba: "ba = (before, after)" by fastforce
    show ?thesis
    proof (cases "split_once (CHR ''%'') after")
      case None
      with outer ba show ?thesis
        by (simp add: render_loop.simps [of _ _ _ rest] tokens.simps [of rest])
    next
      case inner: (Some nr)
      obtain nm rest' where nr: "nr = (nm, rest')" by fastforce
      note IH = "1.IH" [OF outer ba [symmetric] refl inner nr [symmetric]]
      show ?thesis
        using outer ba inner nr IH
        by (cases "nm = [] \<or> has_ws nm"; cases "vs nm")
          (simp_all add: render_loop.simps [of _ _ _ rest] tokens.simps [of rest])
    qed
  qed
qed

lemma render_tokens:
  "render t vs =
     (concat (map (expand vs) (tokens t)),
      first_occurrences (filter (\<lambda>n. vs n = None) (template_vars t)))"
  by (simp add: render_def render_loop_tokens fold_push_new template_vars_def)

text \<open>C36. Rendering is one pass over the template: the template splits into tokens, which do not
  depend on the values and spell it out again; every placeholder token with a value becomes that
  value, which is not scanned again whatever it contains, and one without stays as written and is
  reported, once, in order of first occurrence.\<close>

theorem render_single_pass:
  "concat (map token_source (tokens tmpl)) = tmpl
   \<and> list_all is_placeholder_name (template_vars tmpl)
   \<and> render tmpl vs =
       (concat (map (expand vs) (tokens tmpl)),
        first_occurrences (filter (\<lambda>n. vs n = None) (template_vars tmpl)))"
  using concat_token_source token_vars_names [of tmpl] render_tokens
  by (simp add: template_vars_def)

subsection \<open>Entries\<close>

text \<open>The value a binding has in an event, translated when a table is bound to it.\<close>

definition bound_value :: "event_map \<Rightarrow> event_node \<Rightarrow> value_binding \<Rightarrow> string option" where
  "bound_value em ev b =
     (case parse_path (binding_value b) of
        Inl _ \<Rightarrow> None
      | Inr p \<Rightarrow>
          Option.bind (evaluate p ev) (\<lambda>raw.
            case lookup_for em (binding_name b) of Some l \<Rightarrow> translate l raw | None \<Rightarrow> Some raw))"

text \<open>The value of a variable: that of the last binding of its name that has one.\<close>

definition var_value :: "event_map \<Rightarrow> event_node \<Rightarrow> value_binding list \<Rightarrow> string \<rightharpoonup> string" where
  "var_value em ev bs n =
     Option.bind
       (List.find (\<lambda>b. binding_name b = n \<and> bound_value em ev b \<noteq> None) (rev bs))
       (bound_value em ev)"

text \<open>The defects an entry reports: its referenced bindings whose expression is malformed.\<close>

definition entry_defects :: "map_entry \<Rightarrow> (string \<times> string) list" where
  "entry_defects entry =
     map (\<lambda>b. (binding_name b, binding_value b))
       (filter (\<lambda>b. str_contains (template entry) (''%'' @ binding_name b @ ''%'')
                 \<and> isl (parse_path (binding_value b))) (bindings entry))"

definition reference_value :: "event_map \<Rightarrow> event_node \<Rightarrow> map_entry \<Rightarrow> mapped_value" where
  "reference_value em ev entry =
     (let vs = var_value em ev (bindings entry)
      in \<lparr>value_property = entry_property entry,
          value_text = concat (map (expand vs) (tokens (template entry))),
          unresolved =
            first_occurrences (filter (\<lambda>n. vs n = None) (template_vars (template entry)))\<rparr>)"

lemma apply_binding_eq:
  "apply_binding em tmpl ev (b, compile_binding b) (resolved, invalid) =
     (if \<not> str_contains tmpl (''%'' @ binding_name b @ ''%'') then (resolved, invalid)
      else
        ((case bound_value em ev b of
            Some t \<Rightarrow> resolved(binding_name b \<mapsto> t) | None \<Rightarrow> resolved),
         (if isl (parse_path (binding_value b))
          then push_new (binding_name b, binding_value b) invalid else invalid)))"
  by (cases "parse_path (binding_value b)")
    (simp_all add: apply_binding_def compile_binding_def bound_value_def split: option.split)

lemma apply_bindings_resolved:
  "fst (fold (apply_binding em tmpl ev) (map (\<lambda>b. (b, compile_binding b)) bs) (Map.empty, inv0)) n =
     (if str_contains tmpl (''%'' @ n @ ''%'') then var_value em ev bs n else None)"
proof (induction bs rule: rev_induct)
  case Nil
  then show ?case by (simp add: var_value_def)
next
  case (snoc b bs)
  obtain r i where ri: "fold (apply_binding em tmpl ev) (map (\<lambda>b. (b, compile_binding b)) bs)
      (Map.empty, inv0) = (r, i)" by fastforce
  with snoc have "r n = (if str_contains tmpl (''%'' @ n @ ''%'') then var_value em ev bs n else None)"
    by simp
  then show ?case
    by (auto simp: ri apply_binding_eq var_value_def split: option.split)
qed

lemma apply_bindings_invalid:
  "snd (fold (apply_binding em (template entry) ev)
       (map (\<lambda>b. (b, compile_binding b)) (bindings entry)) (r, inv0)) =
     fold push_new (entry_defects entry) inv0"
proof -
  have "snd (fold (apply_binding em t ev) (map (\<lambda>b. (b, compile_binding b)) bs) (r, inv0)) =
     fold push_new (map (\<lambda>b. (binding_name b, binding_value b))
       (filter (\<lambda>b. str_contains t (''%'' @ binding_name b @ ''%'')
                 \<and> isl (parse_path (binding_value b))) bs)) inv0" for t bs
    by (induction bs arbitrary: r inv0) (auto simp: apply_binding_eq)
  then show ?thesis by (simp add: entry_defects_def)
qed

lemma var_token_contained:
  assumes "Var n \<in> set (tokens tmpl)"
  shows "str_contains tmpl (''%'' @ n @ ''%'')"
proof -
  obtain us vs where "tokens tmpl = us @ Var n # vs" using assms by (meson split_list)
  then have "tmpl = concat (map token_source us) @ (''%'' @ n @ ''%'') @ concat (map token_source vs)"
    using concat_token_source [of tmpl] by simp
  then show ?thesis unfolding str_contains_def sublist_def by blast
qed

lemma template_vars_contained:
  "n \<in> set (template_vars tmpl) \<Longrightarrow> str_contains tmpl (''%'' @ n @ ''%'')"
proof -
  assume "n \<in> set (template_vars tmpl)"
  then obtain t where "t \<in> set (tokens tmpl)" "n \<in> set (token_vars t)"
    by (auto simp: template_vars_def)
  then have "Var n \<in> set (tokens tmpl)" by (cases t rule: token.exhaust) auto
  then show ?thesis by (rule var_token_contained)
qed

lemma apply_entry_reference:
  "apply_entry em entry ev inv0 =
     (reference_value em ev entry, fold push_new (entry_defects entry) inv0)"
proof -
  let ?pairs = "map (\<lambda>b. (b, compile_binding b)) (bindings entry)"
  have pairs: "zip (bindings entry) (compiled entry) = ?pairs"
    by (simp add: compiled_def zip_map2 zip_same_conv_map)
  obtain r i where ri: "fold (apply_binding em (template entry) ev) ?pairs (Map.empty, inv0) = (r, i)"
    by fastforce
  have r: "r n = (if str_contains (template entry) (''%'' @ n @ ''%'')
      then var_value em ev (bindings entry) n else None)" for n
    using apply_bindings_resolved [of em "template entry" ev "bindings entry" inv0 n] by (simp add: ri)
  have "expand r t = expand (var_value em ev (bindings entry)) t"
    if "t \<in> set (tokens (template entry))" for t
    using that var_token_contained [of _ "template entry"]
    by (cases t rule: token.exhaust) (auto simp: r)
  then have rendered: "map (expand r) (tokens (template entry))
      = map (expand (var_value em ev (bindings entry))) (tokens (template entry))" by simp
  have vars: "filter (\<lambda>n. r n = None) (template_vars (template entry))
      = filter (\<lambda>n. var_value em ev (bindings entry) n = None) (template_vars (template entry))"
    using template_vars_contained [of _ "template entry"] by (intro filter_cong) (auto simp: r)
  have "i = fold push_new (entry_defects entry) inv0"
    using apply_bindings_invalid [of em entry ev Map.empty inv0] by (simp add: ri)
  then show ?thesis
    by (simp add: apply_entry_def pairs ri render_tokens rendered vars reference_value_def Let_def)
qed

text \<open>C13. Applying a map gives one value per entry, in order, as the reference computes it: every
  variable has the translated value of the last of its bindings that resolves (the test that skips
  unreferenced bindings changes no value), the text is the template with exactly those substituted,
  the unresolved names are the placeholders without a value, and the malformed expressions of
  referenced bindings are reported once each.\<close>

theorem apply_map_reference:
  "apply_map em ev =
     \<lparr>mapped_values = map (reference_value em ev) (map_entries em),
      invalid_paths = first_occurrences (concat (map entry_defects (map_entries em)))\<rparr>"
proof -
  have "fold (\<lambda>entry result.
          let (v, invalid) = apply_entry em entry ev (invalid_paths result)
          in \<lparr>mapped_values = mapped_values result @ [v], invalid_paths = invalid\<rparr>) es
        \<lparr>mapped_values = vs, invalid_paths = inv0\<rparr> =
      \<lparr>mapped_values = vs @ map (reference_value em ev) es,
       invalid_paths = fold push_new (concat (map entry_defects es)) inv0\<rparr>" for es vs inv0
    by (induction es arbitrary: vs inv0) (simp_all add: apply_entry_reference)
  then show ?thesis by (simp add: apply_map_def fold_push_new)
qed

subsection \<open>The registry\<close>

definition put_map :: "map_key \<Rightarrow> event_map \<Rightarrow> registry \<Rightarrow> registry" where
  "put_map k em reg = AList.update k em reg"

definition registry_ok :: "registry \<Rightarrow> bool" where
  "registry_ok reg \<longleftrightarrow> distinct (map fst reg)"

lemma length_update:
  "distinct (map fst reg) \<Longrightarrow>
     length (AList.update k v reg) = length reg + (if map_of reg k = None then 1 else 0)"
  by (induction reg) auto

interpretation reg: keyed_store new_registry map_of put_map registry_len registry_ok
  by unfold_locales
    (auto simp: new_registry_def registry_ok_def put_map_def registry_len_def update_conv'
      length_update distinct_update)

definition map_identity :: "event_map \<Rightarrow> map_key" where
  "map_identity em = new_key (map_channel em) (map_provider em) (map_event_id em)"

definition load_maps :: "event_map list \<Rightarrow> registry" where
  "load_maps ems = fold (\<lambda>em reg. snd (insert_map em reg)) ems new_registry"

text \<open>An event's channel, provider and identifier name a map when they agree up to the case and to
  white space around the names.\<close>

definition names_map :: "string \<Rightarrow> string \<Rightarrow> u32 \<Rightarrow> event_map \<Rightarrow> bool" where
  "names_map channel provider event_id em \<longleftrightarrow>
     eq_ignore_case (str_trim (map_channel em)) (str_trim channel)
     \<and> eq_ignore_case (str_trim (map_provider em)) (str_trim provider)
     \<and> map_event_id em = event_id"

lemma names_map_key: "names_map ch pr i em \<longleftrightarrow> map_identity em = new_key ch pr i"
  by (auto simp: names_map_def map_identity_def new_key_def eq_ignore_case_def)

lemma load_maps_put: "load_maps ems = fold (\<lambda>em. put_map (map_identity em) em) ems new_registry"
  by (simp add: load_maps_def insert_map_def put_map_def [abs_def] map_identity_def Let_def)

text \<open>After loading maps in any order the registry resolves an event to the last loaded map
  that its channel, provider and identifier name, whatever the case of the names; it holds one map per
  identity, and inserting a map returns the one it replaces.\<close>

theorem registry_last_insert_wins:
  "find_map (load_maps ems) ch pr i = List.find (names_map ch pr i) (rev ems)
   \<and> registry_len (load_maps ems) = card (map_identity ` set ems)
   \<and> fst (insert_map em (load_maps ems))
       = find_map (load_maps ems) (map_channel em) (map_provider em) (map_event_id em)"
  using reg.get_put_all [OF reg.ok_empty, of map_identity "\<lambda>em. em" ems "new_key ch pr i"]
    reg.count_put_all [of map_identity "\<lambda>em. em" ems]
  by (simp add: find_map_def load_maps_put reg.get_empty names_map_key [abs_def] insert_map_def
      Let_def option.case_eq_if)

text \<open>Applying the registry is applying the map it resolves to.\<close>

lemma registry_apply_loaded:
  "registry_apply (load_maps ems) ch pr i ev =
     map_option (\<lambda>em. apply_map em ev) (find_map (load_maps ems) ch pr i)"
  by (simp add: registry_apply_def)

end
