(* ===== verification/TimelineModel.thy ===== *)
theory TimelineModel
  imports RustStr
begin

text \<open>
  The data and the merge of \<open>crates/cmtraceopen-parser/src/unified_timeline/mod.rs\<close>: severities,
  origins, items, the textual provenance key of an origin and the comparator that avoids building it,
  \<open>merge\<close>, \<open>append\<close>, and the conversion of a log entry. \<open>i64\<close> milliseconds are \<open>int\<close> (they are only
  compared), line and record numbers are words. Chrono is a record of parameters. Of \<open>LogEntry\<close> the
  record holds the fields the modelled code reads.
\<close>

subsection \<open>Orderings\<close>

text \<open>\<open>std::cmp::Ordering\<close>, \<open>Ord::cmp\<close> and \<open>then_with\<close>.\<close>

datatype ordering = Less | Equal | Greater

definition cmp :: "'a::linorder \<Rightarrow> 'a \<Rightarrow> ordering" where
  "cmp a b = (if a < b then Less else if a = b then Equal else Greater)"

fun then_with :: "ordering \<Rightarrow> ordering \<Rightarrow> ordering" where
  "then_with Equal b = b"
| "then_with a _ = a"

text \<open>\<open>sort_by\<close>: the stable sort of a slice by a comparator.\<close>

fun insert_by :: "('a \<Rightarrow> 'a \<Rightarrow> ordering) \<Rightarrow> 'a \<Rightarrow> 'a list \<Rightarrow> 'a list" where
  "insert_by c x [] = [x]"
| "insert_by c x (y # ys) = (if c x y = Greater then y # insert_by c x ys else x # y # ys)"

definition sort_by :: "('a \<Rightarrow> 'a \<Rightarrow> ordering) \<Rightarrow> 'a list \<Rightarrow> 'a list" where
  "sort_by c xs = foldr (insert_by c) xs []"

subsection \<open>Severities\<close>

text \<open>\<open>Severity\<close> of a log entry.\<close>

datatype severity = Success | LogInfo | LogWarning | LogError

datatype timeline_severity = Verbose | Info | Warning | Error | Critical

fun severity_rank :: "timeline_severity \<Rightarrow> nat" where
  "severity_rank Verbose = 0"
| "severity_rank Info = 1"
| "severity_rank Warning = 2"
| "severity_rank Error = 3"
| "severity_rank Critical = 4"

text \<open>The derived \<open>Ord\<close> follows the order of the variants.\<close>

instantiation timeline_severity :: linorder
begin

definition less_eq_timeline_severity :: "timeline_severity \<Rightarrow> timeline_severity \<Rightarrow> bool" where
  "less_eq_timeline_severity a b \<longleftrightarrow> severity_rank a \<le> severity_rank b"

definition less_timeline_severity :: "timeline_severity \<Rightarrow> timeline_severity \<Rightarrow> bool" where
  "less_timeline_severity a b \<longleftrightarrow> severity_rank a < severity_rank b"

instance
proof
  fix a b :: timeline_severity
  show "a \<le> b \<Longrightarrow> b \<le> a \<Longrightarrow> a = b"
    by (cases a; cases b) (simp_all add: less_eq_timeline_severity_def)
qed (auto simp: less_eq_timeline_severity_def less_timeline_severity_def)

end

definition from_log :: "severity \<Rightarrow> timeline_severity" where
  "from_log s =
     (case s of LogError \<Rightarrow> Error | LogWarning \<Rightarrow> Warning | LogInfo \<Rightarrow> Info | Success \<Rightarrow> Info)"

definition from_event_level :: "u8 \<Rightarrow> timeline_severity" where
  "from_event_level level =
     (if level = 1 then Critical else if level = 2 then Error else if level = 3 then Warning
      else if level = 5 then Verbose else Info)"

subsection \<open>Origins and items\<close>

record log_origin =
  log_file :: string
  log_component :: "string option"
  log_line :: u32
  log_source :: string
  log_machine :: "string option"
  log_bundle :: "string option"
  log_record_id :: u64

record event_origin =
  stable_id :: string
  ev_source :: string
  ev_machine :: "string option"
  ev_bundle :: "string option"
  ev_channel :: string
  ev_provider :: string
  process_id :: "u32 option"
  activity_id :: "string option"
  related_activity_id :: "string option"
  session_id :: "string option"
  device_id :: "string option"
  user_id :: "string option"
  process_start_time :: "string option"
  identity_conflicts :: "string list"
  event_id :: u32
  ev_record_id :: u64
  record_id_text :: "string option"

datatype timeline_origin = Log log_origin | Event event_origin

record timeline_item =
  timestamp_ms :: int
  item_severity :: timeline_severity
  item_message :: string
  item_origin :: timeline_origin

datatype unplaced_reason = MissingTimestamp

record unplaced_item =
  unplaced_origin :: timeline_origin
  unplaced_why :: unplaced_reason

subsection \<open>Provenance keys\<close>

definition key_part :: "string \<Rightarrow> string" where
  "key_part v = dec (length v) @ '':'' @ v"

definition optional_text_key :: "string option \<Rightarrow> string" where
  "optional_text_key v = (case v of Some t \<Rightarrow> key_part t | None \<Rightarrow> ''none'')"

definition optional_number_key :: "u32 option \<Rightarrow> string" where
  "optional_number_key v = (case v of Some n \<Rightarrow> ''some:'' @ dec_word n | None \<Rightarrow> ''none'')"

text \<open>\<open>{n:0w}\<close>\<close>

definition zero_padded :: "nat \<Rightarrow> nat \<Rightarrow> string" where
  "zero_padded w n = replicate (w - length (dec n)) (CHR ''0'') @ dec n"

definition log_sort_key :: "log_origin \<Rightarrow> string" where
  "log_sort_key o1 =
     ''log|'' @ key_part (log_source o1) @ ''|'' @ key_part (log_file o1)
     @ ''|'' @ zero_padded 10 (unat (log_line o1)) @ ''|''
     @ zero_padded 20 (unat (log_record_id o1)) @ ''|''
     @ optional_text_key (log_component o1) @ ''|'' @ optional_text_key (log_machine o1)
     @ ''|'' @ optional_text_key (log_bundle o1)"

definition event_sort_key :: "event_origin \<Rightarrow> string" where
  "event_sort_key o1 =
     ''event|'' @ key_part (stable_id o1) @ ''|'' @ key_part (ev_source o1)
     @ ''|'' @ optional_text_key (ev_machine o1) @ ''|'' @ optional_text_key (ev_bundle o1)
     @ ''|'' @ key_part (ev_channel o1) @ ''|'' @ key_part (ev_provider o1)
     @ ''|'' @ optional_number_key (process_id o1)
     @ ''|'' @ optional_text_key (activity_id o1)
     @ ''|'' @ optional_text_key (related_activity_id o1)
     @ ''|'' @ optional_text_key (session_id o1) @ ''|'' @ optional_text_key (device_id o1)
     @ ''|'' @ optional_text_key (user_id o1)
     @ ''|'' @ optional_text_key (process_start_time o1)
     @ ''|'' @ join '','' (map key_part (identity_conflicts o1))
     @ ''|'' @ zero_padded 10 (unat (event_id o1))
     @ ''|'' @ zero_padded 20 (unat (ev_record_id o1))
     @ ''|'' @ optional_text_key (record_id_text o1)"

definition origin_sort_key :: "timeline_origin \<Rightarrow> string" where
  "origin_sort_key orig = (case orig of Log l \<Rightarrow> log_sort_key l | Event e \<Rightarrow> event_sort_key e)"

subsection \<open>The comparator\<close>

text \<open>The loop that fills the buffer from its end.\<close>

function decimal_loop :: "nat \<Rightarrow> string \<Rightarrow> string" where
  "decimal_loop v output =
     (let output = digit (v mod 10) # output; v = v div 10
      in if v = 0 then output else decimal_loop v output)"
  by pat_completeness auto
termination by (relation "measure fst") auto

declare decimal_loop.simps [simp del]

definition decimal_bytes_with_terminator :: "nat \<Rightarrow> char \<Rightarrow> string" where
  "decimal_bytes_with_terminator v t = decimal_loop v [t]"

definition compare_decimal_text :: "nat \<Rightarrow> nat \<Rightarrow> char \<Rightarrow> ordering" where
  "compare_decimal_text l r t =
     cmp (decimal_bytes_with_terminator l t) (decimal_bytes_with_terminator r t)"

definition compare_key_part :: "string \<Rightarrow> string \<Rightarrow> ordering" where
  "compare_key_part l r =
     then_with (compare_decimal_text (length l) (length r) (CHR '':'')) (cmp l r)"

fun compare_optional_text :: "string option \<Rightarrow> string option \<Rightarrow> ordering" where
  "compare_optional_text (Some l) (Some r) = compare_key_part l r"
| "compare_optional_text (Some _) None = Less"
| "compare_optional_text None (Some _) = Greater"
| "compare_optional_text None None = Equal"

fun compare_optional_number :: "u32 option \<Rightarrow> u32 option \<Rightarrow> ordering" where
  "compare_optional_number (Some l) (Some r) = compare_decimal_text (unat l) (unat r) (CHR ''|'')"
| "compare_optional_number None (Some _) = Less"
| "compare_optional_number (Some _) None = Greater"
| "compare_optional_number None None = Equal"

text \<open>The loop over the common prefix, then the comparison of what is left of the lengths.\<close>

fun compare_conflicts :: "string list \<Rightarrow> string list \<Rightarrow> ordering" where
  "compare_conflicts (l # ls) (r # rs) =
     then_with (compare_key_part l r) (compare_conflicts ls rs)"
| "compare_conflicts ls rs = cmp (length rs) (length ls)"

definition log_sort_cmp :: "log_origin \<Rightarrow> log_origin \<Rightarrow> ordering" where
  "log_sort_cmp l r =
     then_with (compare_key_part (log_source l) (log_source r))
    (then_with (compare_key_part (log_file l) (log_file r))
    (then_with (cmp (log_line l) (log_line r))
    (then_with (cmp (log_record_id l) (log_record_id r))
    (then_with (compare_optional_text (log_component l) (log_component r))
    (then_with (compare_optional_text (log_machine l) (log_machine r))
      (compare_optional_text (log_bundle l) (log_bundle r)))))))"

definition event_sort_cmp :: "event_origin \<Rightarrow> event_origin \<Rightarrow> ordering" where
  "event_sort_cmp l r =
     then_with (compare_key_part (stable_id l) (stable_id r))
    (then_with (compare_key_part (ev_source l) (ev_source r))
    (then_with (compare_optional_text (ev_machine l) (ev_machine r))
    (then_with (compare_optional_text (ev_bundle l) (ev_bundle r))
    (then_with (compare_key_part (ev_channel l) (ev_channel r))
    (then_with (compare_key_part (ev_provider l) (ev_provider r))
    (then_with (compare_optional_number (process_id l) (process_id r))
    (then_with (compare_optional_text (activity_id l) (activity_id r))
    (then_with (compare_optional_text (related_activity_id l) (related_activity_id r))
    (then_with (compare_optional_text (session_id l) (session_id r))
    (then_with (compare_optional_text (device_id l) (device_id r))
    (then_with (compare_optional_text (user_id l) (user_id r))
    (then_with (compare_optional_text (process_start_time l) (process_start_time r))
    (then_with (compare_conflicts (identity_conflicts l) (identity_conflicts r))
    (then_with (cmp (event_id l) (event_id r))
    (then_with (cmp (ev_record_id l) (ev_record_id r))
      (compare_optional_text (record_id_text l) (record_id_text r)))))))))))))))))"

fun origin_sort_cmp :: "timeline_origin \<Rightarrow> timeline_origin \<Rightarrow> ordering" where
  "origin_sort_cmp (Log l) (Log r) = log_sort_cmp l r"
| "origin_sort_cmp (Event l) (Event r) = event_sort_cmp l r"
| "origin_sort_cmp (Event _) (Log _) = Less"
| "origin_sort_cmp (Log _) (Event _) = Greater"

subsection \<open>Correlation data\<close>

datatype correlation_kind =
    ActivityId | RelatedActivityId | ProviderChannelEventRecord | ProcessStart
  | SessionId | DeviceId | UserId | Secondary

fun kind_rank :: "correlation_kind \<Rightarrow> nat" where
  "kind_rank ActivityId = 0"
| "kind_rank RelatedActivityId = 1"
| "kind_rank ProviderChannelEventRecord = 2"
| "kind_rank ProcessStart = 3"
| "kind_rank SessionId = 4"
| "kind_rank DeviceId = 5"
| "kind_rank UserId = 6"
| "kind_rank Secondary = 7"

instantiation correlation_kind :: linorder
begin

definition less_eq_correlation_kind :: "correlation_kind \<Rightarrow> correlation_kind \<Rightarrow> bool" where
  "less_eq_correlation_kind a b \<longleftrightarrow> kind_rank a \<le> kind_rank b"

definition less_correlation_kind :: "correlation_kind \<Rightarrow> correlation_kind \<Rightarrow> bool" where
  "less_correlation_kind a b \<longleftrightarrow> kind_rank a < kind_rank b"

instance
proof
  fix a b :: correlation_kind
  show "a \<le> b \<Longrightarrow> b \<le> a \<Longrightarrow> a = b"
    by (cases a; cases b) (simp_all add: less_eq_correlation_kind_def)
qed (auto simp: less_eq_correlation_kind_def less_correlation_kind_def)

end

text \<open>\<open>TimelineCorrelationKey\<close> and \<open>TimelineCoverageGap\<close>, ordered field by field as derived.\<close>

datatype correlation_key = CorrelationKey (key_kind: correlation_kind) (key_value: string)

datatype coverage_gap = CoverageGap (gap_source: string) (gap_reason: string)

instantiation correlation_key :: linorder
begin

definition less_eq_correlation_key :: "correlation_key \<Rightarrow> correlation_key \<Rightarrow> bool" where
  "less_eq_correlation_key a b \<longleftrightarrow> (key_kind a, key_value a) \<le> (key_kind b, key_value b)"

definition less_correlation_key :: "correlation_key \<Rightarrow> correlation_key \<Rightarrow> bool" where
  "less_correlation_key a b \<longleftrightarrow> (key_kind a, key_value a) < (key_kind b, key_value b)"

instance
proof
  fix a b :: correlation_key
  assume "a \<le> b" "b \<le> a"
  then have "(key_kind a, key_value a) = (key_kind b, key_value b)"
    unfolding less_eq_correlation_key_def by (rule antisym)
  then show "a = b" by (simp add: correlation_key.expand)
next
  fix a b :: correlation_key
  show "a < b \<longleftrightarrow> a \<le> b \<and> \<not> b \<le> a"
    unfolding less_eq_correlation_key_def less_correlation_key_def by (rule less_le_not_le)
next
  fix a b c :: correlation_key
  show "a \<le> b \<Longrightarrow> b \<le> c \<Longrightarrow> a \<le> c"
    unfolding less_eq_correlation_key_def by (rule order_trans)
next
  fix a b :: correlation_key
  show "a \<le> b \<or> b \<le> a"
    unfolding less_eq_correlation_key_def by (rule linear)
qed (simp add: less_eq_correlation_key_def)

end

datatype correlation_strength = Exact | Candidate | Ambiguous

datatype correlation_confidence = High | Low | UnknownConfidence

record correlation_evidence =
  evidence_origin :: string
  evidence_field :: string
  evidence_value :: string

datatype correlation_coverage = Covered | Gap coverage_gap

record correlation_edge =
  edge_id :: string
  from_id :: string
  to_id :: "string option"
  edge_key :: correlation_key
  strength :: correlation_strength
  confidence :: correlation_confidence
  candidate_ids :: "string list"
  evidence :: "correlation_evidence list"
  edge_coverage :: correlation_coverage

record unified_timeline =
  items :: "timeline_item list"
  unplaced :: "unplaced_item list"
  edges :: "correlation_edge list"
  coverage_gaps :: "coverage_gap list"

definition is_complete :: "unified_timeline \<Rightarrow> bool" where
  "is_complete t \<longleftrightarrow> unplaced t = []"

definition span_ms :: "unified_timeline \<Rightarrow> (int \<times> int) option" where
  "span_ms t =
     (case map timestamp_ms (items t) of
        [] \<Rightarrow> None
      | first # stamps \<Rightarrow>
          Some (foldl (\<lambda>(low, high) stamp. (min low stamp, max high stamp)) (first, first) stamps))"

subsection \<open>Merging\<close>

definition merge :: "timeline_item list \<Rightarrow> unplaced_item list \<Rightarrow> unified_timeline" where
  "merge placed unpl =
     (let its = sort_by (\<lambda>l r. then_with (cmp (item_message l) (item_message r))
                                  (cmp (item_severity l) (item_severity r))) placed;
          its = sort_by (\<lambda>l r. then_with (cmp (timestamp_ms l) (timestamp_ms r))
                                  (origin_sort_cmp (item_origin l) (item_origin r))) its
      in \<lparr>items = its,
          unplaced = sort_by (\<lambda>l r. origin_sort_cmp (unplaced_origin l) (unplaced_origin r)) unpl,
          edges = [], coverage_gaps = []\<rparr>)"

subsection \<open>Log entries\<close>

record log_entry =
  entry_id :: u64
  line_number :: u32
  message :: string
  component :: "string option"
  timestamp :: "int option"
  entry_severity :: severity
  source_file :: "string option"
  file_path :: string

text \<open>What the code takes from chrono: dates and times that exist, the instant an RFC 3339 text or a
  local time with an offset denotes, and the printed form of an instant.\<close>

record 'i chrono =
  ymd_exists :: "nat \<Rightarrow> nat \<Rightarrow> nat \<Rightarrow> bool"
  hms_exists :: "nat \<Rightarrow> nat \<Rightarrow> nat \<Rightarrow> bool"
  parse_rfc3339 :: "string \<Rightarrow> 'i option"
  local_instant :: "nat \<Rightarrow> nat \<Rightarrow> nat \<Rightarrow> nat \<Rightarrow> nat \<Rightarrow> nat \<Rightarrow> nat \<Rightarrow> int \<Rightarrow> 'i option"
  show_instant :: "'i \<Rightarrow> string"

definition is_hexdigit :: "char \<Rightarrow> bool" where
  "is_hexdigit c \<longleftrightarrow> is_digit c \<or> lower_char c \<in> set ''abcdef''"

text \<open>\<open>splitn(3, c)\<close> when it gives three parts, and \<open>rsplit_once\<close>.\<close>

definition split_three :: "char \<Rightarrow> string \<Rightarrow> (string \<times> string \<times> string) option" where
  "split_three c s =
     (case split_once c s of
        None \<Rightarrow> None
      | Some (a, r) \<Rightarrow> (case split_once c r of None \<Rightarrow> None | Some (b, r') \<Rightarrow> Some (a, b, r')))"

definition rsplit_once :: "char \<Rightarrow> string \<Rightarrow> (string \<times> string) option" where
  "rsplit_once c s = map_option (\<lambda>(a, b). (rev b, rev a)) (split_once c (rev s))"

definition is_collector_bundle_id :: "'i chrono \<Rightarrow> string \<Rightarrow> bool" where
  "is_collector_bundle_id ch segment =
     (if length segment < 8 \<or> \<not> is_char_boundary segment 8
         \<or> \<not> eq_ignore_case (take 8 segment) ''CMTRACE-'' then False
      else
        (case split_three (CHR ''-'') (drop 8 segment) of
           None \<Rightarrow> False
         | Some (date, time, host_and_nonce) \<Rightarrow>
             (case rsplit_once (CHR ''-'') host_and_nonce of
                None \<Rightarrow> False
              | Some (hostname, nonce) \<Rightarrow>
                  length date = 8 \<and> list_all is_digit date
                  \<and> 1 \<le> digits_val (take 4 date)
                  \<and> ymd_exists ch (digits_val (take 4 date)) (digits_val (take 2 (drop 4 date)))
                      (digits_val (drop 6 date))
                  \<and> length time = 6 \<and> list_all is_digit time
                  \<and> hms_exists ch (digits_val (take 2 time)) (digits_val (take 2 (drop 2 time)))
                      (digits_val (drop 4 time))
                  \<and> hostname \<noteq> [] \<and> length nonce = 32 \<and> list_all is_hexdigit nonce)))"

text \<open>\<open>split(['/', '\\'])\<close>, then \<open>windows(2)\<close> and \<open>find_map\<close>.\<close>

definition path_segments :: "string \<Rightarrow> string list" where
  "path_segments s =
     filter (\<lambda>seg. seg \<noteq> []) (concat (map (split_on (CHR 0x5C)) (split_on (CHR ''/'') s)))"

fun find_bundle :: "'i chrono \<Rightarrow> string list \<Rightarrow> string option" where
  "find_bundle ch (bundle_id # evid # segs) =
     (if eq_ignore_case evid ''evidence'' \<and> is_collector_bundle_id ch bundle_id then Some bundle_id
      else find_bundle ch (evid # segs))"
| "find_bundle ch _ = None"

definition bundle_from_source :: "'i chrono \<Rightarrow> string \<Rightarrow> string option" where
  "bundle_from_source ch source = find_bundle ch (path_segments source)"

definition entry_origin :: "'i chrono \<Rightarrow> log_entry \<Rightarrow> timeline_origin" where
  "entry_origin ch entry =
     (let file = file_path entry;
          source = (case source_file entry of Some s \<Rightarrow> s | None \<Rightarrow> file);
          bundle = (case bundle_from_source ch source of
                      Some b \<Rightarrow> Some b | None \<Rightarrow> bundle_from_source ch file)
      in Log \<lparr>log_file = file, log_component = component entry, log_line = line_number entry,
              log_source = source, log_machine = None, log_bundle = bundle,
              log_record_id = entry_id entry\<rparr>)"

definition from_log_entry :: "'i chrono \<Rightarrow> log_entry \<Rightarrow> unplaced_item + timeline_item" where
  "from_log_entry ch entry =
     (case timestamp entry of
        Some t \<Rightarrow> Inr \<lparr>timestamp_ms = t, item_severity = from_log (entry_severity entry),
                       item_message = message entry, item_origin = entry_origin ch entry\<rparr>
      | None \<Rightarrow> Inl \<lparr>unplaced_origin = entry_origin ch entry, unplaced_why = MissingTimestamp\<rparr>)"

text \<open>\<open>append\<close>, and \<open>from_log_entries\<close> on the empty timeline.\<close>

definition append_entries :: "'i chrono \<Rightarrow> unified_timeline \<Rightarrow> log_entry list \<Rightarrow> unified_timeline" where
  "append_entries ch t entries =
     (let (placed, unpl) =
            fold (\<lambda>entry (placed, unpl).
                    case from_log_entry ch entry of
                      Inr item \<Rightarrow> (placed @ [item], unpl)
                    | Inl item \<Rightarrow> (placed, unpl @ [item]))
              entries (items t, unplaced t)
      in merge placed unpl)"

definition from_log_entries :: "'i chrono \<Rightarrow> log_entry list \<Rightarrow> unified_timeline" where
  "from_log_entries ch entries =
     append_entries ch \<lparr>items = [], unplaced = [], edges = [], coverage_gaps = []\<rparr> entries"

end
