(* ===== verification/TimelineOrder.thy ===== *)
theory TimelineOrder
  imports TimelineModel
begin

text \<open>
  The comparator of \<open>TimelineModel\<close> against the textual provenance key: \<open>origin_sort_cmp\<close> is the
  order of \<open>origin_sort_key\<close>. Each field of a key is a self-delimiting code that carries an order,
  the locale \<open>order_code\<close>; the origins are linearly ordered by their keys.
\<close>

subsection \<open>Comparing\<close>

lemma cmp_Equal [simp]: "cmp a b = Equal \<longleftrightarrow> a = b" "cmp a a = Equal"
  by (auto simp: cmp_def)

lemma cmp_less: "cmp a b = Less \<longleftrightarrow> a < b" "cmp a b = Greater \<longleftrightarrow> b < a"
  by (auto simp: cmp_def)

lemma then_with_Equal [simp]: "then_with a Equal = a"
  by (cases a) auto

lemma then_with_assoc [simp]: "then_with (then_with a b) c = then_with a (then_with b c)"
  by (cases a) auto

lemma then_with_eq_Equal [simp]: "then_with a b = Equal \<longleftrightarrow> a = Equal \<and> b = Equal"
  by (cases a) auto

lemma then_with_eq_Greater: "then_with a b = Greater \<longleftrightarrow> a = Greater \<or> a = Equal \<and> b = Greater"
  by (cases a) auto

lemma then_with_neq: "a \<noteq> b \<Longrightarrow> then_with (cmp a b) r = cmp a b"
  by (auto simp: cmp_def)

lemma cmp_nat [simp]: "cmp (Suc n) 0 = Greater" "cmp 0 (Suc n) = Less"
  by (simp_all add: cmp_less)

lemma cmp_Cons [simp]: "cmp (a # s) (b # t) = then_with (cmp a b) (cmp s t)" for s :: "'a::linorder list"
  by (auto simp: cmp_def)

lemma cmp_append [simp]: "cmp (u @ s) (u @ t) = cmp s t" for s :: "'a::linorder list"
  by (induction u) auto

lemma cmp_append_same_length:
  "length u = length v \<Longrightarrow> cmp (u @ s) (v @ t) = then_with (cmp u v) (cmp s t)"
  for s :: "'a::linorder list"
  by (induction u v rule: list_induct2) auto

lemma cmp_Pair: "cmp (a, b) (c, d) = then_with (cmp a c) (cmp b d)"
  by (auto simp: cmp_def less_prod_def)

subsection \<open>Decimal texts\<close>

lemma decimal_loop_dec: "decimal_loop v out = dec v @ out"
proof (induction v out rule: decimal_loop.induct)
  case (1 v out)
  show ?case
  proof (cases "v < 10")
    case True
    then show ?thesis by (simp add: decimal_loop.simps [of v] dec.simps [of v])
  next
    case False
    then have "v div 10 \<noteq> 0" by simp
    with 1 False show ?thesis by (simp add: decimal_loop.simps [of v] dec.simps [of v])
  qed
qed

lemma decimal_bytes_dec: "decimal_bytes_with_terminator v t = dec v @ [t]"
  by (simp add: decimal_bytes_with_terminator_def decimal_loop_dec)

lemma dec_inj [simp]: "dec a = dec b \<longleftrightarrow> a = b"
  by (metis digits_val_dec)

lemma cmp_terminated:
  "list_all P u \<Longrightarrow> list_all P v \<Longrightarrow> \<not> P c \<Longrightarrow>
     cmp (u @ c # s) (v @ c # t) = then_with (cmp (u @ [c]) (v @ [c])) (cmp s t)"
  for s :: "'a::linorder list"
proof (induction u arbitrary: v)
  case Nil
  show ?case
  proof (cases v)
    case (Cons a w)
    with Nil have "c \<noteq> a" by auto
    with Cons show ?thesis by (simp add: then_with_neq)
  qed simp
next
  case (Cons a u)
  then have "a \<noteq> c" by auto
  with Cons show ?case by (cases v) (simp_all add: then_with_neq)
qed

lemma list_all_dec: "list_all is_digit (dec n)"
  by (simp add: list_all_iff dec_digits)

lemma cmp_dec_terminated:
  "\<not> is_digit c \<Longrightarrow>
     cmp (dec a @ c # s) (dec b @ c # t) = then_with (compare_decimal_text a b c) (cmp s t)"
  unfolding compare_decimal_text_def decimal_bytes_dec
  by (rule cmp_terminated [OF list_all_dec list_all_dec])

lemma compare_decimal_text_Equal [simp]: "compare_decimal_text a b c = Equal \<longleftrightarrow> a = b"
  by (simp add: compare_decimal_text_def decimal_bytes_dec)

subsection \<open>Padded numbers\<close>

lemma digits_val_append: "digits_val (s @ t) = digits_val s * 10 ^ length t + digits_val t"
proof (induction t rule: rev_induct)
  case (snoc c t)
  have "digits_val (s @ t @ [c]) = digits_val (s @ t) * 10 + digit_val c"
    using digits_val_snoc [of "s @ t" c] by simp
  with snoc show ?case by (simp add: digits_val_snoc algebra_simps)
qed (simp add: digits_val_def)

lemma digits_val_Cons: "digits_val (c # s) = digit_val c * 10 ^ length s + digits_val s"
  using digits_val_append [of "[c]" s] by (simp add: digits_val_def)

lemma is_digit_nat: "is_digit c \<Longrightarrow> 48 \<le> (of_char c :: nat) \<and> (of_char c :: nat) < 58"
  by (auto simp: is_digit_def)

lemma digit_val_less: "is_digit c \<Longrightarrow> digit_val c < 10"
  by (drule is_digit_nat) (simp add: digit_val_def, linarith)

lemma digits_val_bound: "list_all is_digit s \<Longrightarrow> digits_val s < 10 ^ length s"
proof (induction s)
  case (Cons c s)
  then have "digit_val c * 10 ^ length s + digits_val s < (digit_val c + 1) * 10 ^ length s" by simp
  also have "\<dots> \<le> 10 * 10 ^ length s"
    using digit_val_less [of c] Cons.prems by (intro mult_right_mono) auto
  finally show ?case by (simp add: digits_val_Cons)
qed (simp add: digits_val_def)

lemma cmp_digit: "is_digit c \<Longrightarrow> is_digit d \<Longrightarrow> cmp c d = cmp (digit_val c) (digit_val d)"
proof -
  assume "is_digit c" "is_digit d"
  then have "(of_char c :: nat) = 48 + digit_val c" "(of_char d :: nat) = 48 + digit_val d"
    by (auto simp: digit_val_def dest!: is_digit_nat)
  moreover have "c = d \<longleftrightarrow> (of_char c :: nat) = of_char d" by simp
  ultimately show ?thesis by (simp add: cmp_def less_char_def)
qed

lemma cmp_scaled:
  fixes p q a b m :: nat
  assumes "p < m" "q < m"
  shows "cmp (a * m + p) (b * m + q) = then_with (cmp a b) (cmp p q)"
proof (cases a b rule: linorder_cases)
  case less
  then have "(a + 1) * m \<le> b * m" by (intro mult_right_mono) auto
  then have "a * m + p < b * m + q" using assms by simp
  then have "cmp (a * m + p) (b * m + q) = Less" by (simp add: cmp_less)
  with less show ?thesis by (simp add: cmp_def)
next
  case equal
  then show ?thesis by (simp add: cmp_def)
next
  case greater
  then have "(b + 1) * m \<le> a * m" by (intro mult_right_mono) auto
  then have "b * m + q < a * m + p" using assms by simp
  then have "cmp (a * m + p) (b * m + q) = Greater" by (simp add: cmp_less)
  with greater show ?thesis by (simp add: cmp_def)
qed

lemma cmp_digits:
  "length u = length v \<Longrightarrow> list_all is_digit u \<Longrightarrow> list_all is_digit v \<Longrightarrow>
     cmp u v = cmp (digits_val u) (digits_val v)"
proof (induction u v rule: list_induct2)
  case (Cons c u d v)
  then show ?case
    using digits_val_bound [of u] digits_val_bound [of v]
    by (simp add: digits_val_Cons cmp_scaled cmp_digit)
qed simp

lemma length_dec_le: "n < 10 ^ w \<Longrightarrow> 0 < w \<Longrightarrow> length (dec n) \<le> w"
proof (induction w arbitrary: n)
  case (Suc w)
  show ?case
  proof (cases "n < 10")
    case True
    then show ?thesis by (simp add: dec.simps [of n])
  next
    case False
    then have "w \<noteq> 0" using Suc.prems by (cases w) auto
    then have "length (dec (n div 10)) \<le> w" using Suc by (intro Suc.IH) auto
    with False show ?thesis by (simp add: dec.simps [of n])
  qed
qed simp

lemma zero_padded_facts:
  assumes "n < 10 ^ w" "0 < w"
  shows "length (zero_padded w n) = w" "list_all is_digit (zero_padded w n)"
    "digits_val (zero_padded w n) = n"
proof -
  show "length (zero_padded w n) = w" using length_dec_le [OF assms] by (simp add: zero_padded_def)
  have z: "is_digit (CHR ''0'')" by (simp add: is_digit_def)
  then show "list_all is_digit (zero_padded w n)"
    by (auto simp: zero_padded_def list_all_dec list_all_iff dec_digits)
  have "digits_val (replicate k (CHR ''0'')) = 0" for k
    by (induction k) (simp_all add: digits_val_Cons, simp_all add: digits_val_def digit_val_def)
  then show "digits_val (zero_padded w n) = n" by (simp add: zero_padded_def digits_val_append)
qed

lemma cmp_zero_padded:
  assumes "a < 10 ^ w" "b < 10 ^ w" "0 < w"
  shows "cmp (zero_padded w a @ s) (zero_padded w b @ t) = then_with (cmp a b) (cmp s t)"
  using zero_padded_facts [of a w] zero_padded_facts [of b w] assms
  by (simp add: cmp_append_same_length cmp_digits)

subsection \<open>Ordered codes\<close>

text \<open>A code of values as strings: no code word is a proper prefix of another, so that a text that
  starts with a code word determines the value, and the order of the texts is that of the values,
  then of what follows.\<close>

locale order_code =
  fixes enc :: "'a \<Rightarrow> string"
    and c :: "'a \<Rightarrow> 'a \<Rightarrow> ordering"
  assumes code: "cmp (enc x @ s) (enc y @ t) = then_with (c x y) (cmp s t)"
    and eq: "c x y = Equal \<longleftrightarrow> x = y"
begin

lemma code_end: "cmp (enc x) (enc y) = c x y"
  using code [of x "[]" y "[]"] by simp

lemma enc_inj: "enc x @ s = enc y @ t \<longleftrightarrow> x = y \<and> s = t"
  using code [of x s y t] eq [of x y] by (metis cmp_Equal(1) then_with_eq_Equal)

lemma enc_inj_end: "enc x = enc y \<longleftrightarrow> x = y"
  using enc_inj [of x "[]" y "[]"] by simp

lemma cmp_sym: "c x y = Less \<longleftrightarrow> c y x = Greater"
  using code_end [of x y] code_end [of y x] by (metis cmp_less)

end

lemma order_code_Pair:
  assumes "order_code e1 c1" "order_code e2 c2"
  shows "order_code (\<lambda>(x, y). e1 x @ e2 y) (\<lambda>(x, y) (x', y'). then_with (c1 x x') (c2 y y'))"
proof
  fix p q :: "'a \<times> 'b" and s t
  obtain x y x' y' where pq: "p = (x, y)" "q = (x', y')" by fastforce
  show "cmp ((case p of (x, y) \<Rightarrow> e1 x @ e2 y) @ s) ((case q of (x, y) \<Rightarrow> e1 x @ e2 y) @ t) =
      then_with ((case p of (x, y) \<Rightarrow> \<lambda>(x', y'). then_with (c1 x x') (c2 y y')) q) (cmp s t)"
    using assms by (simp add: pq order_code.code)
  show "(case p of (x, y) \<Rightarrow> \<lambda>(x', y'). then_with (c1 x x') (c2 y y')) q = Equal \<longleftrightarrow> p = q"
    using assms by (auto simp: pq order_code.eq)
qed

lemma colon_no_digit [simp]: "\<not> is_digit (CHR '':'')" "\<not> is_digit (CHR ''|'')"
  by (simp_all add: is_digit_def)

interpretation kp: order_code key_part compare_key_part
proof
  fix x y s t :: string
  show "cmp (key_part x @ s) (key_part y @ t) = then_with (compare_key_part x y) (cmp s t)"
  proof (cases "length x = length y")
    case True
    then show ?thesis
      by (simp add: key_part_def compare_key_part_def cmp_dec_terminated cmp_append_same_length
          compare_decimal_text_def)
  next
    case False
    then have "compare_decimal_text (length x) (length y) (CHR '':'') \<noteq> Equal" by simp
    then show ?thesis
      by (cases "compare_decimal_text (length x) (length y) (CHR '':'')")
        (simp_all add: key_part_def compare_key_part_def cmp_dec_terminated)
  qed
  show "compare_key_part x y = Equal \<longleftrightarrow> x = y"
    by (auto simp: compare_key_part_def)
qed

lemma key_part_starts: "\<exists>d u. key_part v = d # u \<and> is_digit d"
  using dec_not_Nil [of "length v"] dec_digits [of _ "length v"]
  by (cases "dec (length v)") (auto simp: key_part_def)

lemma digit_less [simp]:
  "is_digit d \<Longrightarrow> cmp d (CHR ''n'') = Less" "is_digit d \<Longrightarrow> cmp (CHR ''n'') d = Greater"
  "is_digit d \<Longrightarrow> cmp d (CHR ''|'') = Less" "is_digit d \<Longrightarrow> cmp (CHR ''|'') d = Greater"
  by (auto simp: cmp_less less_char_def dest!: is_digit_nat)

interpretation ot: order_code optional_text_key compare_optional_text
proof
  fix x y :: "string option" and s t :: string
  show "cmp (optional_text_key x @ s) (optional_text_key y @ t)
      = then_with (compare_optional_text x y) (cmp s t)"
  proof (cases x; cases y)
    fix a b assume "x = Some a" "y = Some b"
    then show ?thesis by (simp add: optional_text_key_def kp.code)
  next
    fix a assume "x = Some a" "y = None"
    then show ?thesis using key_part_starts [of a] by (auto simp: optional_text_key_def)
  next
    fix b assume "x = None" "y = Some b"
    then show ?thesis using key_part_starts [of b] by (auto simp: optional_text_key_def)
  qed (simp add: optional_text_key_def)
  show "compare_optional_text x y = Equal \<longleftrightarrow> x = y"
    by (cases x; cases y) (simp_all add: kp.eq)
qed

text \<open>The codes that include the separator after the field.\<close>

interpretation on: order_code "\<lambda>v. optional_number_key v @ ''|''" compare_optional_number
proof
  fix x y :: "u32 option" and s t :: string
  show "cmp ((optional_number_key x @ ''|'') @ s) ((optional_number_key y @ ''|'') @ t)
      = then_with (compare_optional_number x y) (cmp s t)"
  proof -
    have "cmp (CHR ''n'') (CHR ''s'') = Less" "cmp (CHR ''s'') (CHR ''n'') = Greater"
      by (simp_all add: cmp_less less_char_def)
    then show ?thesis
      by (cases x; cases y) (simp_all add: optional_number_key_def cmp_dec_terminated)
  qed
  show "compare_optional_number x y = Equal \<longleftrightarrow> x = y"
    by (cases x; cases y) (simp_all add: word_unat_eq_iff)
qed

lemma conflicts_code_Nil:
  "cmp (CHR ''|'' # s) (join '','' (map key_part vs) @ CHR ''|'' # t)
     = then_with (compare_conflicts [] vs) (cmp s t)"
  "cmp (join '','' (map key_part vs) @ CHR ''|'' # s) (CHR ''|'' # t)
     = then_with (compare_conflicts vs []) (cmp s t)"
  using key_part_starts [of "hd vs"] by (cases vs; auto simp: join_Cons)+

lemma conflicts_code:
  "cmp (join '','' (map key_part xs) @ CHR ''|'' # s) (join '','' (map key_part ys) @ CHR ''|'' # t)
     = then_with (compare_conflicts xs ys) (cmp s t)"
proof (induction xs ys rule: compare_conflicts.induct)
  case (1 l ls r rs)
  have sep: "cmp (CHR '','') (CHR ''|'') = Less" "cmp (CHR ''|'') (CHR '','') = Greater"
    by (simp_all add: cmp_less less_char_def)
  show ?case
  proof (cases ls; cases rs)
    fix a as b bs assume "ls = a # as" "rs = b # bs"
    then show ?thesis using 1 by (simp add: kp.code)
  qed (simp_all add: kp.code sep)
qed (simp_all add: conflicts_code_Nil)

lemma compare_conflicts_Equal: "compare_conflicts xs ys = Equal \<longleftrightarrow> xs = ys"
  by (induction xs ys rule: compare_conflicts.induct) (auto simp: kp.eq)

interpretation ic: order_code "\<lambda>cs. join '','' (map key_part cs) @ ''|''" compare_conflicts
  by unfold_locales (simp_all add: conflicts_code compare_conflicts_Equal)

lemma unat_less_power: "unat w < 2 ^ LENGTH('a)" for w :: "'a::len word"
  by (rule unsigned_less)

lemma cmp_unat: "cmp (unat a) (unat b) = cmp a b" for a b :: "'a::len word"
  by (simp add: cmp_def word_less_nat_alt word_unat_eq_iff)

interpretation u32: order_code "\<lambda>w :: u32. zero_padded 10 (unat w)" cmp
proof
  fix x y :: u32 and s t
  have "unat x < 10 ^ 10" "unat y < 10 ^ 10"
    using unat_less_power [of x] unat_less_power [of y] by simp_all
  then show "cmp (zero_padded 10 (unat x) @ s) (zero_padded 10 (unat y) @ t)
      = then_with (cmp x y) (cmp s t)"
    by (simp only: cmp_zero_padded zero_less_numeral cmp_unat)
qed simp

interpretation u64: order_code "\<lambda>w :: u64. zero_padded 20 (unat w)" cmp
proof
  fix x y :: u64 and s t
  have "unat x < 10 ^ 20" "unat y < 10 ^ 20"
    using unat_less_power [of x] unat_less_power [of y] by simp_all
  then show "cmp (zero_padded 20 (unat x) @ s) (zero_padded 20 (unat y) @ t)
      = then_with (cmp x y) (cmp s t)"
    by (simp only: cmp_zero_padded zero_less_numeral cmp_unat)
qed simp

lemmas number_codes = on.code [simplified] conflicts_code

lemmas origin_codes = kp.code ot.code ot.code_end u32.code u64.code number_codes

lemma log_sort_cmp_key: "log_sort_cmp l r = cmp (log_sort_key l) (log_sort_key r)"
  by (simp add: log_sort_cmp_def log_sort_key_def origin_codes)

lemma event_sort_cmp_key: "event_sort_cmp l r = cmp (event_sort_key l) (event_sort_key r)"
  by (simp add: event_sort_cmp_def event_sort_key_def origin_codes)

lemma origin_sort_cmp_key: "origin_sort_cmp a b = cmp (origin_sort_key a) (origin_sort_key b)"
proof (cases a; cases b)
  fix l e assume "a = Log l" "b = Event e"
  then show ?thesis
    by (simp add: origin_sort_key_def log_sort_key_def event_sort_key_def cmp_def less_char_def)
next
  fix l e assume "a = Event e" "b = Log l"
  then show ?thesis
    by (simp add: origin_sort_key_def log_sort_key_def event_sort_key_def cmp_def less_char_def)
qed (simp_all add: origin_sort_key_def log_sort_cmp_key event_sort_cmp_key)

subsection \<open>Keys identify origins\<close>

lemma log_sort_cmp_Equal: "log_sort_cmp l r = Equal \<longleftrightarrow> l = r"
  by (auto simp: log_sort_cmp_def kp.eq ot.eq)

lemma event_sort_cmp_Equal: "event_sort_cmp l r = Equal \<longleftrightarrow> l = r"
  by (auto simp: event_sort_cmp_def kp.eq ot.eq on.eq ic.eq)

lemma origin_sort_cmp_Equal: "origin_sort_cmp a b = Equal \<longleftrightarrow> a = b"
  by (cases a; cases b) (simp_all add: log_sort_cmp_Equal event_sort_cmp_Equal)

lemma origin_sort_key_inj [simp]: "origin_sort_key a = origin_sort_key b \<longleftrightarrow> a = b"
  using origin_sort_cmp_Equal [of a b] by (simp add: origin_sort_cmp_key)

text \<open>C28. The allocation-free comparator is the order of the textual provenance key: comparing two
  origins field by field gives exactly the lexicographic comparison of their keys, whatever the
  lengths of the fields, the optional fields present and the widths of the numbers; and it says equal
  only of equal origins.\<close>

theorem origin_sort_cmp_is_key_order:
  "origin_sort_cmp a b = cmp (origin_sort_key a) (origin_sort_key b)
   \<and> (origin_sort_cmp a b = Equal \<longleftrightarrow> a = b)"
  using origin_sort_cmp_key origin_sort_cmp_Equal by blast

end
