(* ===== verification/TimelineMerge.thy ===== *)
theory TimelineMerge
  imports TimelineOrder "HOL-Library.Multiset"
begin

text \<open>
  Correctness of \<open>merge\<close> and \<open>append\<close> of \<open>TimelineModel\<close>: nothing is lost, the order is the
  documented one, and neither the input order nor the append history changes the result.
\<close>

subsection \<open>Stable sorting by a comparator\<close>

lemma insert_by_key: "(\<And>x y. c x y = cmp (k x) (k y)) \<Longrightarrow> insert_by c x ys = insort_key k x ys"
  by (induction ys) (auto simp: cmp_less)

lemma sort_by_key: "(\<And>x y. c x y = cmp (k x) (k y)) \<Longrightarrow> sort_by c xs = sort_key k xs"
  by (induction xs) (simp_all add: sort_by_def insert_by_key)

lemma sorted_by_classes:
  fixes f :: "'a \<Rightarrow> 'b::linorder" and g :: "'a \<Rightarrow> 'c::linorder"
  assumes "sorted (map f ys)" "\<And>v. sorted (map g (filter (\<lambda>y. f y = v) ys))"
  shows "sorted (map (\<lambda>x. (f x, g x)) ys)"
  using assms
proof (induction ys)
  case (Cons y ys)
  have "sorted (map g (filter (\<lambda>y. f y = v) ys))" for v
    using Cons.prems(2) [of v] by (cases "f y = v") auto
  moreover have "(f y, g y) \<le> (f z, g z)" if z: "z \<in> set ys" for z
  proof (cases "f z = f y")
    case True
    then show ?thesis using Cons.prems(2) [of "f y"] z by auto
  next
    case False
    then show ?thesis using Cons.prems(1) z by (auto simp: less_eq_prod_def less_le)
  qed
  ultimately show ?case using Cons by auto
qed simp

text \<open>Sorting by the minor key and then stably by the major key sorts by the pair.\<close>

lemma sort_key_twice:
  fixes f :: "'a \<Rightarrow> 'b::linorder" and g :: "'a \<Rightarrow> 'c::linorder"
  shows "sorted (map (\<lambda>x. (f x, g x)) (sort_key f (sort_key g xs)))"
proof (rule sorted_by_classes)
  fix v
  have "sorted (map g (filter (\<lambda>y. f y = v) (sort_key g xs)))" by (rule sorted_filter) simp
  then show "sorted (map g (filter (\<lambda>y. f y = v) (sort_key f (sort_key g xs))))"
    by (simp add: sort_key_stable)
qed simp

lemma sorted_inj_unique:
  assumes "inj k" "sorted (map k xs)" "sorted (map k ys)" "mset xs = mset ys"
  shows "xs = ys"
proof -
  have "mset (map k xs) = mset (map k ys)" using assms(4) by simp
  then have "map k xs = map k ys"
    using assms(2,3) properties_for_sort by (metis sort_key_id_if_sorted)
  then show ?thesis using assms(1) by (simp add: inj_map_eq_map)
qed

subsection \<open>The merged order\<close>

text \<open>The documented order of a timeline: time, provenance, message, severity.\<close>

definition item_key :: "timeline_item \<Rightarrow> (int \<times> string) \<times> string \<times> timeline_severity" where
  "item_key it = ((timestamp_ms it, origin_sort_key (item_origin it)), item_message it,
     item_severity it)"

definition unplaced_key :: "unplaced_item \<Rightarrow> string" where
  "unplaced_key u = origin_sort_key (unplaced_origin u)"

lemma inj_item_key: "inj item_key"
  by (rule injI) (simp add: item_key_def timeline_item.equality)

lemma inj_unplaced_key: "inj unplaced_key"
proof (rule injI)
  fix u v :: unplaced_item
  assume "unplaced_key u = unplaced_key v"
  moreover have "unplaced_why u = unplaced_why v"
    by (cases "unplaced_why u"; cases "unplaced_why v") simp
  ultimately show "u = v" by (simp add: unplaced_key_def)
qed

lemma merge_sort_keys:
  "merge placed unpl =
     \<lparr>items = sort_key (\<lambda>it. (timestamp_ms it, origin_sort_key (item_origin it)))
                (sort_key (\<lambda>it. (item_message it, item_severity it)) placed),
      unplaced = sort_key unplaced_key unpl, edges = [], coverage_gaps = []\<rparr>"
proof -
  have "sort_by (\<lambda>l r. then_with (cmp (item_message l) (item_message r))
      (cmp (item_severity l) (item_severity r))) xs
    = sort_key (\<lambda>it. (item_message it, item_severity it)) xs" for xs :: "timeline_item list"
    by (rule sort_by_key) (simp add: cmp_Pair)
  moreover have "sort_by (\<lambda>l r. then_with (cmp (timestamp_ms l) (timestamp_ms r))
      (origin_sort_cmp (item_origin l) (item_origin r))) xs
    = sort_key (\<lambda>it. (timestamp_ms it, origin_sort_key (item_origin it))) xs"
    for xs :: "timeline_item list"
    by (rule sort_by_key) (simp add: cmp_Pair origin_sort_cmp_key)
  moreover have "sort_by (\<lambda>l r. origin_sort_cmp (unplaced_origin l) (unplaced_origin r)) us
    = sort_key unplaced_key us" for us :: "unplaced_item list"
    by (rule sort_by_key) (simp add: unplaced_key_def origin_sort_cmp_key)
  ultimately show ?thesis by (simp add: merge_def)
qed

lemma merge_items:
  "mset (items (merge placed unpl)) = mset placed"
  "sorted (map item_key (items (merge placed unpl)))"
  using sort_key_twice [of "\<lambda>it. (timestamp_ms it, origin_sort_key (item_origin it))"
      "\<lambda>it. (item_message it, item_severity it)" placed]
  by (simp_all add: merge_sort_keys item_key_def [abs_def])

lemma merge_unplaced:
  "mset (unplaced (merge placed unpl)) = mset unpl"
  "sorted (map unplaced_key (unplaced (merge placed unpl)))"
  by (simp_all add: merge_sort_keys)

text \<open>C37. Merging keeps every placed and every unplaced item, with its multiplicity, and orders the
  items by time, then provenance key, then message, then severity, the unplaced ones by provenance;
  the two passes of stable sorting amount to this one order. (The comment on the field \<open>unplaced\<close>
  promises them in input order; the code sorts them.)\<close>

theorem merge_sorted_permutation:
  "mset (items (merge placed unpl)) = mset placed
   \<and> mset (unplaced (merge placed unpl)) = mset unpl
   \<and> sorted (map item_key (items (merge placed unpl)))
   \<and> sorted (map unplaced_key (unplaced (merge placed unpl)))
   \<and> edges (merge placed unpl) = [] \<and> coverage_gaps (merge placed unpl) = []"
  using merge_items merge_unplaced by (auto simp: merge_sort_keys)

lemma merge_cong:
  assumes "mset placed = mset placed'" "mset unpl = mset unpl'"
  shows "merge placed unpl = merge placed' unpl'"
proof -
  have "items (merge placed unpl) = items (merge placed' unpl')"
    by (rule sorted_inj_unique [OF inj_item_key merge_items(2) merge_items(2)])
      (simp add: merge_items(1) assms)
  moreover have "unplaced (merge placed unpl) = unplaced (merge placed' unpl')"
    by (rule sorted_inj_unique [OF inj_unplaced_key merge_unplaced(2) merge_unplaced(2)])
      (simp add: merge_unplaced(1) assms)
  ultimately show ?thesis by (simp add: merge_sort_keys)
qed

text \<open>C11. The order in which the sources deliver their items does not matter: any permutation of the
  placed and of the unplaced items merges to the same timeline, the list of unplaced items included, which
  the comment on that field describes as being in input order.\<close>

theorem merge_order_independent:
  assumes "mset placed = mset placed'" "mset unpl = mset unpl'"
  shows "merge placed unpl = merge placed' unpl'"
  using assms by (rule merge_cong)

definition sample_origin :: "string \<Rightarrow> timeline_origin" where
  "sample_origin f =
     Log \<lparr>log_file = f, log_component = None, log_line = 1, log_source = f, log_machine = None,
          log_bundle = None, log_record_id = 1\<rparr>"

definition sample_item :: "string \<Rightarrow> timeline_item" where
  "sample_item f =
     \<lparr>timestamp_ms = 5, item_severity = Info, item_message = ''m'', item_origin = sample_origin f\<rparr>"

lemma merge_order_independent_witness:
  "merge [sample_item ''a'', sample_item ''b''] [] = merge [sample_item ''b'', sample_item ''a''] []"
  by (rule merge_order_independent) (simp_all add: add_mset_commute)

subsection \<open>Appending\<close>

text \<open>The items and the unplaced items a list of entries gives.\<close>

definition entry_items :: "'i chrono \<Rightarrow> log_entry list \<Rightarrow> timeline_item list" where
  "entry_items ch entries =
     concat (map (\<lambda>e. case from_log_entry ch e of Inr it \<Rightarrow> [it] | Inl _ \<Rightarrow> []) entries)"

definition entry_unplaced :: "'i chrono \<Rightarrow> log_entry list \<Rightarrow> unplaced_item list" where
  "entry_unplaced ch entries =
     concat (map (\<lambda>e. case from_log_entry ch e of Inr _ \<Rightarrow> [] | Inl u \<Rightarrow> [u]) entries)"

lemma append_entries_merge:
  "append_entries ch t entries =
     merge (items t @ entry_items ch entries) (unplaced t @ entry_unplaced ch entries)"
proof -
  have "fold (\<lambda>entry (placed, unpl).
          case from_log_entry ch entry of
            Inr item \<Rightarrow> (placed @ [item], unpl) | Inl item \<Rightarrow> (placed, unpl @ [item]))
        es (p, u) = (p @ entry_items ch es, u @ entry_unplaced ch es)" for es p u
    by (induction es arbitrary: p u)
      (auto simp: entry_items_def entry_unplaced_def split: sum.split)
  then show ?thesis by (simp add: append_entries_def)
qed

lemma append_entries_msets:
  "mset (items (append_entries ch t es)) = mset (items t) + mset (entry_items ch es)"
  "mset (unplaced (append_entries ch t es)) = mset (unplaced t) + mset (entry_unplaced ch es)"
  by (simp_all add: append_entries_merge merge_items merge_unplaced)

lemma entry_items_append:
  "entry_items ch (es @ es') = entry_items ch es @ entry_items ch es'"
  "entry_unplaced ch (es @ es') = entry_unplaced ch es @ entry_unplaced ch es'"
  by (simp_all add: entry_items_def entry_unplaced_def)

lemma entries_accounted:
  "length (entry_items ch es) + length (entry_unplaced ch es) = length es"
  by (induction es) (auto simp: entry_items_def entry_unplaced_def split: sum.split)

text \<open>Appending loses no record and does not depend on how the entries arrive: the timeline after
  two appends is the one after appending all entries at once; every entry is either placed or
  unplaced, and an entry is placed exactly when it has a timestamp.\<close>

theorem append_history_irrelevant:
  "append_entries ch (append_entries ch t es) es' = append_entries ch t (es @ es')
   \<and> length (items (append_entries ch t es)) + length (unplaced (append_entries ch t es))
       = length (items t) + length (unplaced t) + length es
   \<and> length (entry_items ch es) = length (filter (\<lambda>e. timestamp e \<noteq> None) es)"
proof (intro conjI)
  show "append_entries ch (append_entries ch t es) es' = append_entries ch t (es @ es')"
    unfolding append_entries_merge [of ch _ es'] append_entries_merge [of ch t "es @ es'"]
    by (rule merge_cong) (simp_all add: append_entries_msets entry_items_append)
  have "size (mset (items (append_entries ch t es))) = length (items t) + length (entry_items ch es)"
    "size (mset (unplaced (append_entries ch t es)))
      = length (unplaced t) + length (entry_unplaced ch es)"
    by (simp_all add: append_entries_msets)
  then show "length (items (append_entries ch t es)) + length (unplaced (append_entries ch t es))
       = length (items t) + length (unplaced t) + length es"
    using entries_accounted [of ch es] by simp
  show "length (entry_items ch es) = length (filter (\<lambda>e. timestamp e \<noteq> None) es)"
    by (induction es) (auto simp: entry_items_def from_log_entry_def split: option.split)
qed

subsection \<open>The span\<close>

lemma span_fold:
  "foldl (\<lambda>(low, high) stamp. (min low stamp, max high stamp)) (a, b) xs
     = (Min (insert a (set xs)), Max (insert b (set xs)))" for a b :: int
proof (induction xs arbitrary: a b)
  case (Cons x xs)
  have "Min (insert (min a x) (set xs)) = Min (insert a (insert x (set xs)))"
    "Max (insert (max b x) (set xs)) = Max (insert b (insert x (set xs)))"
    by (cases "xs = []"; simp add: min.assoc max.assoc)+
  with Cons show ?case by simp
qed simp

lemma span_ms_extremes:
  "span_ms t =
     (if items t = [] then None
      else Some (Min (timestamp_ms ` set (items t)), Max (timestamp_ms ` set (items t))))"
  by (cases "items t") (simp_all add: span_ms_def span_fold)

lemma sorted_Min_Max: "sorted xs \<Longrightarrow> xs \<noteq> [] \<Longrightarrow> Min (set xs) = hd xs \<and> Max (set xs) = last xs"
  for xs :: "int list"
proof (intro conjI)
  assume s: "sorted xs" "xs \<noteq> []"
  show "Min (set xs) = hd xs" using s by (cases xs) (auto intro: Min_eqI)
  show "Max (set xs) = last xs"
    using s by (cases xs rule: rev_cases) (auto simp: sorted_append intro: Max_eqI)
qed

lemma sorted_timestamps: "sorted (map timestamp_ms (items (merge placed unpl)))"
proof -
  have "sorted_wrt (\<lambda>a b. item_key a \<le> item_key b) (items (merge placed unpl))"
    using merge_items(2) [of placed unpl] by (simp add: sorted_map)
  then have "sorted_wrt (\<lambda>a b. timestamp_ms a \<le> timestamp_ms b) (items (merge placed unpl))"
    by (rule sorted_wrt_mono_rel [rotated]) (auto simp: item_key_def less_eq_prod_def)
  then show ?thesis by (simp add: sorted_map)
qed

text \<open>The span of a timeline is the least and the greatest timestamp of its items, whatever their
  order, and is absent exactly when nothing was placed; on a merged timeline it is the timestamps of
  the first and the last item.\<close>

theorem span_ms_bounds:
  "span_ms t =
     (if items t = [] then None
      else Some (Min (timestamp_ms ` set (items t)), Max (timestamp_ms ` set (items t))))
   \<and> span_ms (merge placed unpl) =
     (if placed = [] then None
      else Some (timestamp_ms (hd (items (merge placed unpl))),
                 timestamp_ms (last (items (merge placed unpl)))))"
proof
  show "span_ms t =
     (if items t = [] then None
      else Some (Min (timestamp_ms ` set (items t)), Max (timestamp_ms ` set (items t))))"
    by (rule span_ms_extremes)
  let ?its = "items (merge placed unpl)"
  have "?its = [] \<longleftrightarrow> placed = []" using merge_items(1) [of placed unpl] by (metis mset_zero_iff)
  then show "span_ms (merge placed unpl) =
     (if placed = [] then None
      else Some (timestamp_ms (hd ?its), timestamp_ms (last ?its)))"
    using sorted_Min_Max [OF sorted_timestamps [of placed unpl]]
    by (simp add: span_ms_extremes hd_map last_map)
qed

end
