(* ===== verification/OrdMap.thy ===== *)
theory OrdMap
  imports KeyedStore
begin

text \<open>
  \<open>BTreeSet\<close> and \<open>BTreeMap\<close>: strictly ascending lists and association lists with strictly ascending
  keys, so that iterating the collection is reading the list. \<open>om_entry\<close> is the entry API: it applies
  a function to the value under a key, or to its absence.
\<close>

subsection \<open>Sets\<close>

fun os_insert :: "'a::linorder \<Rightarrow> 'a list \<Rightarrow> 'a list" where
  "os_insert x [] = [x]"
| "os_insert x (y # ys) =
     (if x < y then x # y # ys else if x = y then y # ys else y # os_insert x ys)"

definition os_ok :: "'a::linorder list \<Rightarrow> bool" where
  "os_ok xs \<longleftrightarrow> sorted_wrt (<) xs"

definition os_extend :: "'a::linorder list \<Rightarrow> 'a list \<Rightarrow> 'a list" where
  "os_extend s xs = fold os_insert xs s"

definition os_of :: "'a::linorder list \<Rightarrow> 'a list" where
  "os_of xs = os_extend [] xs"

lemma set_os_insert [simp]: "set (os_insert x xs) = insert x (set xs)"
  by (induction xs) auto

lemma os_insert_not_Nil [simp]: "os_insert x xs \<noteq> []"
  by (cases xs) auto

lemma os_ok_insert [simp]: "os_ok xs \<Longrightarrow> os_ok (os_insert x xs)"
  by (induction xs) (auto simp: os_ok_def)

lemma os_ok_Nil [simp]: "os_ok []" "os_ok [x]"
  by (simp_all add: os_ok_def)

lemma set_os_extend [simp]: "set (os_extend s xs) = set s \<union> set xs"
  by (induction xs arbitrary: s) (auto simp: os_extend_def)

lemma os_ok_extend [simp]: "os_ok s \<Longrightarrow> os_ok (os_extend s xs)"
  by (induction xs arbitrary: s) (auto simp: os_extend_def)

lemma os_ok_distinct: "os_ok xs \<Longrightarrow> distinct xs \<and> sorted xs"
  by (auto simp: os_ok_def strict_sorted_iff)

lemma os_ok_iff: "os_ok xs \<longleftrightarrow> distinct xs \<and> sorted xs"
  by (auto simp: os_ok_def strict_sorted_iff)

text \<open>A set has one representation.\<close>

lemma os_unique: "os_ok xs \<Longrightarrow> os_ok ys \<Longrightarrow> set xs = set ys \<Longrightarrow> xs = ys"
  by (meson os_ok_distinct sorted_distinct_set_unique)

lemma set_os_of [simp]: "set (os_of xs) = set xs"
  by (simp add: os_of_def)

lemma os_ok_of [simp]: "os_ok (os_of xs)"
  by (simp add: os_of_def)

lemma os_of_id: "os_ok xs \<Longrightarrow> os_of xs = xs"
  by (rule os_unique) simp_all

lemma os_length_le: "set xs \<subseteq> A \<Longrightarrow> finite A \<Longrightarrow> os_ok xs \<Longrightarrow> length xs \<le> card A"
  by (metis card_mono distinct_card os_ok_distinct)

subsection \<open>Maps\<close>

type_synonym ('k, 'v) omap = "('k \<times> 'v) list"

fun om_entry :: "'k::linorder \<Rightarrow> ('v option \<Rightarrow> 'v) \<Rightarrow> ('k, 'v) omap \<Rightarrow> ('k, 'v) omap" where
  "om_entry k f [] = [(k, f None)]"
| "om_entry k f ((k', v) # m) =
     (if k < k' then (k, f None) # (k', v) # m
      else if k = k' then (k, f (Some v)) # m
      else (k', v) # om_entry k f m)"

definition om_put :: "'k::linorder \<Rightarrow> 'v \<Rightarrow> ('k, 'v) omap \<Rightarrow> ('k, 'v) omap" where
  "om_put k v m = om_entry k (\<lambda>_. v) m"

definition om_ok :: "('k::linorder, 'v) omap \<Rightarrow> bool" where
  "om_ok m \<longleftrightarrow> sorted_wrt (<) (map fst m)"

text \<open>\<open>entry(k).or_default().insert(x)\<close> on a map of sets.\<close>

definition om_add :: "'k::linorder \<Rightarrow> 'v::linorder \<Rightarrow> ('k, 'v list) omap \<Rightarrow> ('k, 'v list) omap" where
  "om_add k x m = om_entry k (\<lambda>s. os_insert x (case s of None \<Rightarrow> [] | Some s \<Rightarrow> s)) m"

lemma om_keys_entry [simp]: "fst ` set (om_entry k f m) = insert k (fst ` set m)"
  by (induction m rule: om_entry.induct) auto

lemma om_ok_Nil [simp]: "om_ok []"
  by (simp add: om_ok_def)

lemma om_ok_entry [simp]: "om_ok m \<Longrightarrow> om_ok (om_entry k f m)"
proof (induction k f m rule: om_entry.induct)
  case (2 k f k' v m)
  have "\<forall>x \<in> fst ` set (om_entry k f m). x = k \<or> x \<in> fst ` set m" by simp
  with 2 show ?case by (auto simp: om_ok_def)
qed (simp add: om_ok_def)

lemma map_of_om_entry:
  "om_ok m \<Longrightarrow>
     map_of (om_entry k f m) k' = (if k' = k then Some (f (map_of m k)) else map_of m k')"
proof (induction k f m rule: om_entry.induct)
  case (2 k f k1 v m)
  have "k < k1 \<Longrightarrow> map_of m k = None"
    using "2.prems" by (auto simp: om_ok_def map_of_eq_None_iff)
  with 2 show ?case by (auto simp: om_ok_def)
qed auto

lemma length_om_entry:
  "om_ok m \<Longrightarrow> length (om_entry k f m) = length m + (if map_of m k = None then 1 else 0)"
proof (induction k f m rule: om_entry.induct)
  case (2 k f k1 v m)
  have "k < k1 \<Longrightarrow> map_of m k = None"
    using "2.prems" by (auto simp: om_ok_def map_of_eq_None_iff)
  with 2 show ?case by (auto simp: om_ok_def)
qed auto

interpretation om: keyed_store "[]" map_of om_put length om_ok
  by unfold_locales (simp_all add: om_put_def map_of_om_entry length_om_entry)

lemma om_set_map_of: "om_ok m \<Longrightarrow> (k, v) \<in> set m \<longleftrightarrow> map_of m k = Some v"
  by (metis map_of_eq_Some_iff om_ok_def strict_sorted_iff)

text \<open>Iterating a map is iterating its keys.\<close>

lemma om_map_keys: "om_ok m \<Longrightarrow> map (\<lambda>k. (k, the (map_of m k))) (map fst m) = m"
  by (auto simp: om_set_map_of intro!: map_idI)

lemma om_keys_of:
  "om_ok m \<Longrightarrow> (\<And>k. map_of m k \<noteq> None \<longleftrightarrow> k \<in> set ks) \<Longrightarrow> map fst m = os_of ks"
proof (rule os_unique)
  assume "om_ok m" and k: "\<And>k. map_of m k \<noteq> None \<longleftrightarrow> k \<in> set ks"
  then show "os_ok (map fst m)" by (simp add: om_ok_def os_ok_def)
  show "set (map fst m) = set (os_of ks)" using k by (auto simp: map_of_eq_None_iff)
qed simp

text \<open>A map has one representation.\<close>

lemma om_ok_ConsD: "om_ok ((k, v) # m) \<Longrightarrow> om_ok m \<and> map_of m k = None"
  by (auto simp: om_ok_def map_of_eq_None_iff)

lemma om_unique:
  assumes "om_ok m" "om_ok m'" "map_of m = map_of m'"
  shows "m = m'"
proof -
  have "map fst m = map fst m'"
    using assms by (intro os_unique) (auto simp: om_ok_def os_ok_def, (metis map_of_eq_None_iff imageI fst_conv)+)
  then show ?thesis using om_map_keys [OF assms(1)] om_map_keys [OF assms(2)] assms(3) by metis
qed

lemma os_of_snoc: "os_of (xs @ [x]) = os_insert x (os_of xs)"
  by (simp add: os_of_def os_extend_def)

lemma os_of_cong: "set xs = set ys \<Longrightarrow> os_of xs = os_of ys"
  by (rule os_unique) simp_all

end
