(* ===== verification/Correlation.thy ===== *)
theory Correlation
  imports TimelineModel OrdMap
begin

text \<open>
  The correlation of timeline origins in \<open>crates/cmtraceopen-parser/src/unified_timeline/mod.rs\<close>:
  normalisation of identities, the observation an origin gives, the coalescing of duplicate
  observations, and the reducer \<open>correlate_observations\<close> with its member, relation, output and gap
  budgets. Its loops are folds over the ordered collections with the budgets in the state; the reading
  of process start times is that of \<open>intune/enrollment/windows/esp/correlation.rs\<close>.
\<close>

subsection \<open>Identities\<close>

definition trim_dots :: "string \<Rightarrow> string" where
  "trim_dots s = rev (dropWhile (\<lambda>c. c = CHR ''.'') (rev s))"

definition sentinels :: "string list" where
  "sentinels =
     [''unknown'', ''n/a'', ''na'', ''none'', ''null'', ''not available'', ''not_applicable'']"

definition identity_value :: "string \<Rightarrow> string option" where
  "identity_value v =
     (let v = trim_dots (str_trim v)
      in if v = [] \<or> ascii_lower v \<in> set sentinels then None else Some v)"

definition normalized_identity :: "string \<Rightarrow> string option" where
  "normalized_identity v = map_option ascii_lower (identity_value v)"

definition is_alphabetic :: "char \<Rightarrow> bool" where
  "is_alphabetic c \<longleftrightarrow>
     (let n = of_char (lower_char c) :: nat in 97 \<le> n \<and> n \<le> 122)"

definition source_identity :: "string \<Rightarrow> string option" where
  "source_identity v =
     (case identity_value v of
        None \<Rightarrow> None
      | Some v \<Rightarrow>
          let drive = 1 < length v \<and> v ! 1 = CHR '':'' \<and> is_alphabetic (v ! 0);
              shaped = drive \<or> (\<not> prefix ''/'' v \<and> CHR 0x5C \<in> set v)
          in Some (if shaped then ascii_lower v else v))"

definition usable_record_text :: "string option \<Rightarrow> string option" where
  "usable_record_text v =
     (case Option.bind v normalized_identity of
        Some t \<Rightarrow> if list_ex (\<lambda>c. c \<noteq> CHR ''0'') t then Some t else None
      | None \<Rightarrow> None)"

definition normalize_machine_identity :: "string option \<Rightarrow> string option" where
  "normalize_machine_identity v = Option.bind v normalized_identity"

fun key_label :: "correlation_kind \<Rightarrow> string" where
  "key_label ActivityId = ''activityId''"
| "key_label RelatedActivityId = ''relatedActivityId''"
| "key_label ProviderChannelEventRecord = ''providerChannelEventRecord''"
| "key_label ProcessStart = ''processStart''"
| "key_label SessionId = ''sessionId''"
| "key_label DeviceId = ''deviceId''"
| "key_label UserId = ''userId''"
| "key_label Secondary = ''secondary''"

text \<open>The derived \<open>Debug\<close> of the kind.\<close>

fun kind_debug :: "correlation_kind \<Rightarrow> string" where
  "kind_debug ActivityId = ''ActivityId''"
| "kind_debug RelatedActivityId = ''RelatedActivityId''"
| "kind_debug ProviderChannelEventRecord = ''ProviderChannelEventRecord''"
| "kind_debug ProcessStart = ''ProcessStart''"
| "kind_debug SessionId = ''SessionId''"
| "kind_debug DeviceId = ''DeviceId''"
| "kind_debug UserId = ''UserId''"
| "kind_debug Secondary = ''Secondary''"

definition canonical_kind :: "correlation_kind \<Rightarrow> correlation_kind" where
  "canonical_kind k = (if k = RelatedActivityId then ActivityId else k)"

definition keys_match :: "correlation_key \<Rightarrow> correlation_key \<Rightarrow> bool" where
  "keys_match l r \<longleftrightarrow>
     canonical_kind (key_kind l) = canonical_kind (key_kind r) \<and> key_value l = key_value r"

subsection \<open>Process start times\<close>

datatype timestamp_kind = Utc | Offset | Local | Unspecified | Invalid

definition raw_uses_utc_designator :: "string \<Rightarrow> bool" where
  "raw_uses_utc_designator raw \<longleftrightarrow> raw \<noteq> [] \<and> last raw \<in> {CHR ''Z'', CHR ''z''}"

definition raw_looks_like_wmi_datetime :: "string \<Rightarrow> bool" where
  "raw_looks_like_wmi_datetime raw \<longleftrightarrow> length raw = 25 \<and> raw ! 14 = CHR ''.''"

definition rfc3339_fraction_is_representable :: "string \<Rightarrow> bool" where
  "rfc3339_fraction_is_representable raw \<longleftrightarrow>
     \<not> (19 < length raw \<and> raw ! 19 = CHR ''.'')
     \<or> list_all (\<lambda>c. c = CHR ''0'') (drop 9 (takeWhile is_digit (drop 20 raw)))"

definition parse_rfc3339_utc :: "'i chrono \<Rightarrow> string \<Rightarrow> 'i option" where
  "parse_rfc3339_utc ch raw =
     (if \<not> rfc3339_fraction_is_representable raw then None else parse_rfc3339 ch raw)"

definition is_ascii :: "string \<Rightarrow> bool" where
  "is_ascii s \<longleftrightarrow> list_all (\<lambda>c. (of_char c :: nat) < 128) s"

definition wmi_component :: "string \<Rightarrow> nat \<Rightarrow> nat \<Rightarrow> nat option" where
  "wmi_component raw a b =
     (let v = take (b - a) (drop a raw) in
      if list_all is_digit v then parse_uint u32_max v else None)"

definition parse_wmi_process_start :: "'i chrono \<Rightarrow> string \<Rightarrow> 'i option" where
  "parse_wmi_process_start ch raw =
     (if \<not> raw_looks_like_wmi_datetime raw \<or> \<not> is_ascii raw then None
      else
        (case (wmi_component raw 0 4, wmi_component raw 4 6, wmi_component raw 6 8,
               wmi_component raw 8 10, wmi_component raw 10 12, wmi_component raw 12 14,
               wmi_component raw 15 21) of
           (Some year, Some month, Some day, Some hour, Some minute, Some second, Some micros) \<Rightarrow>
             if second > 60 then None
             else
               let nanos = micros * 1000 + (if second = 60 then 1000000000 else 0);
                   sign = (if raw ! 21 = CHR ''+'' then Some 1
                           else if raw ! 21 = CHR ''-'' then Some (-1 :: int) else None)
               in (case (sign, wmi_component raw 22 25) of
                     (Some sg, Some minutes) \<Rightarrow>
                       local_instant ch year month day hour minute (min second 59) nanos
                         (int minutes * sg * 60)
                   | _ \<Rightarrow> None)
         | _ \<Rightarrow> None))"

definition process_start_instant :: "'i chrono \<Rightarrow> string \<Rightarrow> timestamp_kind \<Rightarrow> 'i option" where
  "process_start_instant ch raw kind =
     (if str_trim raw = [] then None
      else if kind = Utc \<and> (raw_uses_utc_designator raw \<or> suffix ''+00:00'' raw)
        then parse_rfc3339_utc ch raw
      else if kind = Offset \<and> raw_looks_like_wmi_datetime raw
        then parse_wmi_process_start ch raw
      else if kind = Offset \<and> \<not> raw_uses_utc_designator raw \<and> \<not> suffix ''-00:00'' raw
        then parse_rfc3339_utc ch raw
      else None)"

definition start_kind :: "'i chrono \<Rightarrow> string \<Rightarrow> timestamp_kind option" where
  "start_kind ch raw =
     (if raw_looks_like_wmi_datetime raw then Some Offset
      else if parse_rfc3339 ch raw \<noteq> None then
        (if suffix ''Z'' raw \<or> suffix ''z'' raw \<or> suffix ''+00:00'' raw then Some Utc
         else if \<not> suffix ''-00:00'' raw then Some Offset
         else None)
      else None)"

definition validated_process_start :: "'i chrono \<Rightarrow> string option \<Rightarrow> string option" where
  "validated_process_start ch v =
     (case v of
        None \<Rightarrow> None
      | Some raw \<Rightarrow>
          let raw = str_trim raw in
          if raw = [] then None
          else
            (case start_kind ch raw of
               None \<Rightarrow> None
             | Some kind \<Rightarrow> map_option (show_instant ch) (process_start_instant ch raw kind)))"

subsection \<open>Observations\<close>

record observation =
  origin_id :: string
  machine :: "string option"
  exact_keys :: "correlation_key list"
  secondary_keys :: "correlation_key list"
  obs_gaps :: "coverage_gap list"

definition stable_origin_id :: "timeline_origin \<Rightarrow> string" where
  "stable_origin_id orig =
     (case orig of
        Log l \<Rightarrow>
          ''log|'' @ key_part (log_source l) @ ''|'' @ key_part (log_file l) @ ''|''
          @ dec_word (log_line l) @ ''|'' @ dec_word (log_record_id l)
      | Event e \<Rightarrow> stable_id e)"

definition push_exact ::
  "string list \<Rightarrow> correlation_kind \<Rightarrow> string option \<Rightarrow> string \<Rightarrow> correlation_key list" where
  "push_exact conflicts kind v field =
     (if field \<in> set conflicts then []
      else (case Option.bind v normalized_identity of
              Some t \<Rightarrow> [CorrelationKey kind t] | None \<Rightarrow> []))"

definition record_key :: "event_origin \<Rightarrow> correlation_key list" where
  "record_key e =
     (let rec =
            (case usable_record_text (record_id_text e) of
               Some t \<Rightarrow> Some t
             | None \<Rightarrow> if ev_record_id e \<noteq> 0 then Some (dec_word (ev_record_id e)) else None)
      in (case (source_identity (ev_source e), normalized_identity (ev_provider e),
                normalized_identity (ev_channel e), rec) of
            (Some source, Some provider, Some channel, Some rec) \<Rightarrow>
              [CorrelationKey ProviderChannelEventRecord
                 (key_part source @ ''|'' @ key_part provider @ ''|'' @ key_part channel @ ''|''
                  @ dec_word (event_id e) @ ''|'' @ key_part rec)]
          | _ \<Rightarrow> []))"

definition process_start_key ::
  "'i chrono \<Rightarrow> event_origin \<Rightarrow> correlation_key list \<times> coverage_gap list" where
  "process_start_key ch e =
     (case process_start_time e of
        None \<Rightarrow> ([], [])
      | Some start_time \<Rightarrow>
          (case process_id e of
             Some pid \<Rightarrow>
               if pid = 0 then
                 ([], [CoverageGap (stable_id e)
                         ''process start identity requires a nonzero process id''])
               else if ''processStartTime'' \<in> set (identity_conflicts e) then ([], [])
               else
                 (case validated_process_start ch (Some start_time) of
                    Some start \<Rightarrow>
                      ([CorrelationKey ProcessStart (dec_word pid @ ''|'' @ start)], [])
                  | None \<Rightarrow>
                      ([], [CoverageGap (stable_id e)
                         ''process start identity was present but its timestamp was invalid'']))
           | None \<Rightarrow>
               ([], [CoverageGap (stable_id e)
                       ''process start identity requires a nonzero process id''])))"

definition observation_from_origin :: "'i chrono \<Rightarrow> timeline_origin \<Rightarrow> observation" where
  "observation_from_origin ch orig =
     (case orig of
        Log l \<Rightarrow>
          \<lparr>origin_id = stable_origin_id orig, machine = None, exact_keys = [],
           secondary_keys = [], obs_gaps = []\<rparr>
      | Event e \<Rightarrow>
          (let cs = identity_conflicts e;
               conflict_gaps =
                 map (\<lambda>field. CoverageGap (stable_id e)
                        (''conflicting explicit identity aliases for '' @ field)) cs;
               (start_keys, start_gaps) = process_start_key ch e
           in \<lparr>origin_id = stable_id e,
               machine = normalize_machine_identity (ev_machine e),
               exact_keys =
                 push_exact cs ActivityId (activity_id e) ''activityId''
                 @ push_exact cs RelatedActivityId (related_activity_id e) ''relatedActivityId''
                 @ push_exact cs SessionId (session_id e) ''sessionId''
                 @ push_exact cs DeviceId (device_id e) ''deviceId''
                 @ push_exact cs UserId (user_id e) ''userId''
                 @ record_key e @ start_keys,
               secondary_keys = [],
               obs_gaps = conflict_gaps @ start_gaps\<rparr>))"

subsection \<open>Duplicate observations\<close>

record accumulator =
  acc_observation :: observation
  acc_machines :: "string list"
  acc_count :: nat

definition new_accumulator :: "string \<Rightarrow> accumulator" where
  "new_accumulator oid =
     \<lparr>acc_observation = \<lparr>origin_id = oid, machine = None, exact_keys = [], secondary_keys = [],
                         obs_gaps = []\<rparr>,
      acc_machines = [], acc_count = 0\<rparr>"

definition accumulate :: "observation \<Rightarrow> accumulator \<Rightarrow> accumulator" where
  "accumulate obs a =
     (let o1 = acc_observation a in
      \<lparr>acc_observation =
         o1\<lparr>exact_keys := exact_keys o1 @ exact_keys obs,
            secondary_keys := secondary_keys o1 @ secondary_keys obs,
            obs_gaps := obs_gaps o1 @ obs_gaps obs\<rparr>,
       acc_machines =
         (case normalize_machine_identity (machine obs) of
            Some mc \<Rightarrow> os_insert mc (acc_machines a) | None \<Rightarrow> acc_machines a),
       acc_count = acc_count a + 1\<rparr>)"

definition gap_cmp :: "coverage_gap \<Rightarrow> coverage_gap \<Rightarrow> ordering" where
  "gap_cmp l r =
     then_with (cmp (gap_source l) (gap_source r)) (cmp (gap_reason l) (gap_reason r))"

definition finish_accumulator :: "accumulator \<Rightarrow> observation" where
  "finish_accumulator a =
     (let o1 = acc_observation a;
          gaps = obs_gaps o1 @
            (if acc_count a > 1
             then [CoverageGap (origin_id o1)
                     (''duplicate origin identity coalesced from '' @ dec (acc_count a)
                      @ '' observations'')]
             else [])
      in \<lparr>origin_id = origin_id o1,
          machine = (if length (acc_machines a) = 1 then Some (hd (acc_machines a)) else None),
          exact_keys = remdups_adj (sort (exact_keys o1)),
          secondary_keys = remdups_adj (sort (secondary_keys o1)),
          obs_gaps = remdups_adj (sort_by gap_cmp gaps)\<rparr>)"

definition group_observations :: "observation list \<Rightarrow> (string, accumulator) omap" where
  "group_observations obs =
     fold (\<lambda>ob. om_entry (origin_id ob)
             (\<lambda>a. accumulate ob (case a of None \<Rightarrow> new_accumulator (origin_id ob) | Some a \<Rightarrow> a)))
       obs []"

definition disambiguate :: "observation list \<Rightarrow> observation list" where
  "disambiguate obs = map (\<lambda>(_, a). finish_accumulator a) (group_observations obs)"

subsection \<open>The budgets\<close>

definition max_group_members :: nat where "max_group_members = 256"
definition max_relations :: nat where "max_relations = 25000"
definition max_gaps :: nat where "max_gaps = 4096"
definition max_candidate_bytes :: nat where "max_candidate_bytes = 1048576"
definition max_edge_bytes :: nat where "max_edge_bytes = 16777216"

definition gap_truncation_source :: string where "gap_truncation_source = ''correlation''"

definition candidate_budget_reason :: string where
  "candidate_budget_reason =
     ''correlation candidate output budget reached; candidate IDs omitted''"

definition edge_budget_reason :: string where
  "edge_budget_reason = ''correlation edge output budget reached; additional edges omitted''"

definition exact_limit_reason :: "correlation_kind \<Rightarrow> string" where
  "exact_limit_reason kind =
     ''exact '' @ kind_debug kind @ '' identity group exceeds the '' @ dec max_group_members
     @ ''-member correlation limit''"

definition secondary_limit_reason :: string where
  "secondary_limit_reason =
     ''secondary identity group exceeds the '' @ dec max_group_members
     @ ''-member correlation limit''"

definition relation_budget_reason :: string where
  "relation_budget_reason = ''correlation relation budget of '' @ dec max_relations @ '' was reached''"

subsection \<open>Groups\<close>

type_synonym exact_group_key = "string \<times> correlation_kind \<times> string"
type_synonym relation = "string \<times> string"

definition add_exact_groups :: "observation \<Rightarrow> (exact_group_key, string list) omap
    \<Rightarrow> (exact_group_key, string list) omap" where
  "add_exact_groups ob groups =
     (case normalize_machine_identity (machine ob) of
        None \<Rightarrow> groups
      | Some mc \<Rightarrow>
          fold (\<lambda>key. om_add (mc, canonical_kind (key_kind key), key_value key) (origin_id ob))
            (exact_keys ob) groups)"

definition add_secondary_groups :: "observation \<Rightarrow> (string \<times> string, string list) omap
    \<Rightarrow> (string \<times> string, string list) omap" where
  "add_secondary_groups ob groups =
     (case normalize_machine_identity (machine ob) of
        None \<Rightarrow> groups
      | Some mc \<Rightarrow>
          fold (\<lambda>key. om_add (mc, key_value key) (origin_id ob)) (secondary_keys ob) groups)"

definition index_by_id :: "observation list \<Rightarrow> (string, observation) omap" where
  "index_by_id ordered = fold (\<lambda>ob. om_put (origin_id ob) ob) ordered []"

subsection \<open>Relations\<close>

record reducer =
  exact_candidates :: "(string, string list) omap"
  relation_keys :: "(relation, correlation_key list) omap"
  candidate_relations :: "(relation, correlation_key list) omap"
  fanout_gaps :: "(string \<times> string) list"
  relation_budget :: nat

definition add_gaps :: "string list \<Rightarrow> string \<Rightarrow> reducer \<Rightarrow> reducer" where
  "add_gaps ids reason r =
     r\<lparr>fanout_gaps := fold (\<lambda>i. os_insert (i, reason)) ids (fanout_gaps r)\<rparr>"

text \<open>The pairs the nested loops go through, in their order.\<close>

fun pairs_of :: "'a list \<Rightarrow> ('a \<times> 'a) list" where
  "pairs_of [] = []"
| "pairs_of (x # xs) = map (Pair x) xs @ pairs_of xs"

definition group_keys :: "(string, observation) omap \<Rightarrow> correlation_kind \<Rightarrow> string \<Rightarrow> string
    \<Rightarrow> correlation_key list" where
  "group_keys by_id kind val endpoint =
     (case map_of by_id endpoint of
        None \<Rightarrow> []
      | Some ob \<Rightarrow>
          filter (\<lambda>key. canonical_kind (key_kind key) = kind \<and> key_value key = val) (exact_keys ob))"

definition add_relation_keys :: "(string, observation) omap \<Rightarrow> correlation_kind \<Rightarrow> string
    \<Rightarrow> relation \<Rightarrow> string \<Rightarrow> (relation, correlation_key list) omap
    \<Rightarrow> (relation, correlation_key list) omap" where
  "add_relation_keys by_id kind val rel endpoint m =
     (case map_of by_id endpoint of
        None \<Rightarrow> m
      | Some _ \<Rightarrow>
          om_entry rel (\<lambda>s. os_extend (case s of None \<Rightarrow> [] | Some s \<Rightarrow> s)
                              (group_keys by_id kind val endpoint)) m)"

text \<open>One pair of an exact group, with the budget spent.\<close>

definition relate_exact :: "(string, observation) omap \<Rightarrow> correlation_kind \<Rightarrow> string
    \<Rightarrow> relation \<Rightarrow> reducer \<Rightarrow> reducer" where
  "relate_exact by_id kind val rel r =
     (case rel of (left, right) \<Rightarrow>
        r\<lparr>relation_budget := relation_budget r - 1,
          exact_candidates := om_add right left (om_add left right (exact_candidates r)),
          relation_keys :=
            add_relation_keys by_id kind val rel right
              (add_relation_keys by_id kind val rel left (relation_keys r))\<rparr>)"

text \<open>The labelled loop: it stops, reporting truncation, at the first pair without budget.\<close>

fun exact_pairs :: "(string, observation) omap \<Rightarrow> correlation_kind \<Rightarrow> string
    \<Rightarrow> relation list \<Rightarrow> reducer \<Rightarrow> bool \<times> reducer" where
  "exact_pairs by_id kind val [] r = (False, r)"
| "exact_pairs by_id kind val (rel # rels) r =
     (if relation_budget r = 0 then (True, r)
      else exact_pairs by_id kind val rels (relate_exact by_id kind val rel r))"

definition exact_group :: "(string, observation) omap \<Rightarrow> exact_group_key \<times> string list
    \<Rightarrow> reducer \<Rightarrow> reducer" where
  "exact_group by_id grp r =
     (case grp of ((_, kind, val), ids) \<Rightarrow>
        if length ids < 2 then r
        else if length ids > max_group_members then add_gaps ids (exact_limit_reason kind) r
        else if relation_budget r = 0 then add_gaps ids relation_budget_reason r
        else if length ids * (length ids - 1) div 2 > relation_budget r then
          (add_gaps ids relation_budget_reason r)\<lparr>relation_budget := 0\<rparr>
        else
          (let (truncated, r) = exact_pairs by_id kind val (pairs_of ids) r
           in if truncated then add_gaps ids relation_budget_reason r else r))"

definition has_exact :: "reducer \<Rightarrow> string \<Rightarrow> bool" where
  "has_exact r i \<longleftrightarrow> (case map_of (exact_candidates r) i of None \<Rightarrow> False | Some cs \<Rightarrow> cs \<noteq> [])"

definition relate_secondary :: "string \<Rightarrow> string \<Rightarrow> relation \<Rightarrow> reducer \<Rightarrow> reducer" where
  "relate_secondary mc val rel r =
     r\<lparr>relation_budget := relation_budget r - 1,
       candidate_relations :=
         om_add rel (CorrelationKey Secondary (mc @ ''|'' @ val)) (candidate_relations r)\<rparr>"

fun secondary_pairs :: "string \<Rightarrow> string \<Rightarrow> relation list \<Rightarrow> reducer \<Rightarrow> bool \<times> reducer" where
  "secondary_pairs mc val [] r = (False, r)"
| "secondary_pairs mc val ((left, right) # rels) r =
     (if has_exact r left then secondary_pairs mc val rels r
      else if relation_budget r = 0 then (True, r)
      else if has_exact r right then secondary_pairs mc val rels r
      else secondary_pairs mc val rels (relate_secondary mc val (left, right) r))"

definition secondary_group :: "(string \<times> string) \<times> string list \<Rightarrow> reducer \<Rightarrow> reducer" where
  "secondary_group grp r =
     (case grp of ((mc, val), ids) \<Rightarrow>
        if length ids < 2 then r
        else if length ids > max_group_members then add_gaps ids secondary_limit_reason r
        else if relation_budget r = 0 then add_gaps ids relation_budget_reason r
        else
          (let (truncated, r) = secondary_pairs mc val (pairs_of ids) r
           in if truncated then add_gaps ids relation_budget_reason r else r))"

definition initial_reducer :: reducer where
  "initial_reducer =
     \<lparr>exact_candidates = [], relation_keys = [], candidate_relations = [], fanout_gaps = [],
      relation_budget = max_relations\<rparr>"

definition reduce_groups :: "observation list \<Rightarrow> reducer" where
  "reduce_groups ordered =
     (let by_id = index_by_id ordered;
          exact_groups = fold add_exact_groups ordered [];
          secondary_groups = fold add_secondary_groups ordered []
      in fold secondary_group secondary_groups
           (fold (exact_group by_id) exact_groups initial_reducer))"

subsection \<open>Edges\<close>

record edge_output =
  out_edges :: "correlation_edge list"
  candidate_budget :: nat
  edge_budget :: nat
  edges_truncated :: bool
  out_gaps :: "(string \<times> string) list"

definition ids_of :: "(string, string list) omap \<Rightarrow> string \<Rightarrow> string list" where
  "ids_of m i = (case map_of m i of None \<Rightarrow> [] | Some cs \<Rightarrow> cs)"

definition edge_candidates :: "reducer \<Rightarrow> bool \<Rightarrow> relation \<Rightarrow> string list" where
  "edge_candidates r exact rel =
     (case rel of (left, right) \<Rightarrow>
        if exact then
          os_extend (os_extend [] (ids_of (exact_candidates r) left)) (ids_of (exact_candidates r) right)
        else os_insert right [])"

definition edge_strength :: "bool \<Rightarrow> bool \<Rightarrow> correlation_strength" where
  "edge_strength ambiguous exact =
     (if ambiguous then Ambiguous else if exact then Exact else Candidate)"

fun strength_confidence :: "correlation_strength \<Rightarrow> correlation_confidence" where
  "strength_confidence Exact = High"
| "strength_confidence Candidate = Low"
| "strength_confidence Ambiguous = UnknownConfidence"

definition edge_evidence :: "(string, observation) omap \<Rightarrow> correlation_key \<Rightarrow> string
    \<Rightarrow> correlation_evidence list" where
  "edge_evidence by_id key endpoint =
     (case map_of by_id endpoint of
        None \<Rightarrow> []
      | Some ob \<Rightarrow>
          (let matching =
                 (case List.find (\<lambda>c. keys_match c key) (exact_keys ob @ secondary_keys ob) of
                    Some m \<Rightarrow> m | None \<Rightarrow> key)
           in [\<lparr>evidence_origin = endpoint, evidence_field = key_label (key_kind matching),
                evidence_value = key_value matching\<rparr>]))"

definition total_bytes :: "string list \<Rightarrow> nat" where
  "total_bytes cs = foldl (\<lambda>total c. sat_add64 total (length c)) 0 cs"

definition first_gap :: "(string, observation) omap \<Rightarrow> string \<Rightarrow> coverage_gap option" where
  "first_gap by_id endpoint =
     (case map_of by_id endpoint of
        None \<Rightarrow> None
      | Some ob \<Rightarrow> (case obs_gaps ob of [] \<Rightarrow> None | g # _ \<Rightarrow> Some g))"

definition edge_gap :: "(string, observation) omap \<Rightarrow> relation \<Rightarrow> bool \<Rightarrow> bool \<Rightarrow> string list
    \<Rightarrow> coverage_gap option" where
  "edge_gap by_id rel ambiguous cand_truncated cands =
     (case rel of (left, right) \<Rightarrow>
        if cand_truncated then Some (CoverageGap left candidate_budget_reason)
        else
          (case first_gap by_id left of
             Some g \<Rightarrow> Some g
           | None \<Rightarrow>
               (case first_gap by_id right of
                  Some g \<Rightarrow> Some g
                | None \<Rightarrow>
                    if ambiguous then
                      Some (CoverageGap left
                        (''multiple exact identity candidates remain: '' @ join '', '' cands))
                    else None)))"

definition evidence_bytes :: "correlation_evidence \<Rightarrow> nat" where
  "evidence_bytes e =
     sat_add64 (sat_add64 (length (evidence_origin e)) (length (evidence_field e)))
       (length (evidence_value e))"

fun coverage_bytes :: "correlation_coverage \<Rightarrow> nat" where
  "coverage_bytes Covered = 0"
| "coverage_bytes (Gap g) = sat_add64 (length (gap_source g)) (length (gap_reason g))"

text \<open>\<open>estimated_edge_bytes\<close>: the payload, plus a fixed overhead, times eight.\<close>

definition estimated_bytes :: "correlation_edge \<Rightarrow> string \<Rightarrow> nat" where
  "estimated_bytes e right =
     (let payload =
            foldl sat_add64 (length (edge_id e))
              [length (from_id e), length right, length (key_label (key_kind (edge_key e))),
               length (key_value (edge_key e)), total_bytes (candidate_ids e),
               sum_list (map evidence_bytes (evidence e)), coverage_bytes (edge_coverage e), 512]
      in min (payload * 8) u64_max)"

definition conflicting :: "relation \<Rightarrow> string list \<Rightarrow> string list" where
  "conflicting rel cands =
     (case rel of (left, right) \<Rightarrow> filter (\<lambda>c. c \<noteq> left \<and> c \<noteq> right) cands)"

definition is_ambiguous :: "reducer \<Rightarrow> bool \<Rightarrow> relation \<Rightarrow> bool" where
  "is_ambiguous r exact rel \<longleftrightarrow> exact \<and> conflicting rel (edge_candidates r exact rel) \<noteq> []"

definition other_candidates :: "reducer \<Rightarrow> bool \<Rightarrow> relation \<Rightarrow> string list" where
  "other_candidates r exact rel = filter (\<lambda>c. c \<noteq> fst rel) (edge_candidates r exact rel)"

definition candidate_bytes :: "reducer \<Rightarrow> bool \<Rightarrow> relation \<Rightarrow> nat" where
  "candidate_bytes r exact rel =
     (if is_ambiguous r exact rel then total_bytes (other_candidates r exact rel) else 0)"

definition build_edge :: "(string, observation) omap \<Rightarrow> reducer \<Rightarrow> bool \<Rightarrow> relation
    \<Rightarrow> correlation_key \<Rightarrow> bool \<Rightarrow> correlation_edge" where
  "build_edge by_id r exact rel key cand_truncated =
     (let (left, right) = rel;
          ambiguous = is_ambiguous r exact rel;
          s = edge_strength ambiguous exact;
          ids = (if ambiguous \<and> \<not> cand_truncated then other_candidates r exact rel else [])
      in \<lparr>edge_id =
            ''edge|'' @ key_part left @ ''|'' @ key_part right @ ''|''
            @ key_label (key_kind key) @ ''|'' @ key_part (key_value key),
          from_id = left, to_id = Some right, edge_key = key, strength = s,
          confidence = strength_confidence s, candidate_ids = ids,
          evidence = edge_evidence by_id key left @ edge_evidence by_id key right,
          edge_coverage =
            (case edge_gap by_id rel ambiguous cand_truncated ids of
               None \<Rightarrow> Covered | Some g \<Rightarrow> Gap g)\<rparr>)"

text \<open>The candidate budget: candidates that do not fit are omitted, with a gap, and cost nothing.\<close>

definition spend_candidates :: "bool \<Rightarrow> bool \<Rightarrow> nat \<Rightarrow> edge_output \<Rightarrow> edge_output" where
  "spend_candidates ambiguous cand_truncated bytes out =
     (if cand_truncated then
        out\<lparr>out_gaps :=
              os_insert (gap_truncation_source, candidate_budget_reason) (out_gaps out)\<rparr>
      else if ambiguous then out\<lparr>candidate_budget := candidate_budget out - bytes\<rparr>
      else out)"

definition push_edge :: "correlation_edge \<Rightarrow> nat \<Rightarrow> edge_output \<Rightarrow> edge_output" where
  "push_edge e bytes out =
     (if bytes > edge_budget out
      then out\<lparr>edges_truncated := True,
               out_gaps := os_insert (gap_truncation_source, edge_budget_reason) (out_gaps out)\<rparr>
      else out\<lparr>edge_budget := edge_budget out - bytes, out_edges := out_edges out @ [e]\<rparr>)"

text \<open>One relation of the chained iteration. Its key set is never empty (\<open>reduce_groups_keys\<close> in
  \<open>CorrelationSound\<close>).\<close>

definition emit_edge :: "(string, observation) omap \<Rightarrow> reducer
    \<Rightarrow> relation \<times> correlation_key list \<times> bool \<Rightarrow> edge_output \<Rightarrow> edge_output" where
  "emit_edge by_id r x out =
     (if edges_truncated out then out
      else
        (case x of (rel, keys, exact) \<Rightarrow>
           let ambiguous = is_ambiguous r exact rel;
               bytes = candidate_bytes r exact rel;
               cand_truncated = (ambiguous \<and> bytes > candidate_budget out);
               e = build_edge by_id r exact rel (hd keys) cand_truncated
           in push_edge e (estimated_bytes e (snd rel))
                (spend_candidates ambiguous cand_truncated bytes out)))"

definition edge_inputs :: "reducer \<Rightarrow> (relation \<times> correlation_key list \<times> bool) list" where
  "edge_inputs r =
     map (\<lambda>(rel, keys). (rel, keys, True)) (relation_keys r)
     @ map (\<lambda>(rel, keys). (rel, keys, False)) (candidate_relations r)"

definition emit_edges :: "(string, observation) omap \<Rightarrow> reducer \<Rightarrow> edge_output" where
  "emit_edges by_id r =
     fold (emit_edge by_id r) (edge_inputs r)
       \<lparr>out_edges = [], candidate_budget = max_candidate_bytes, edge_budget = max_edge_bytes,
        edges_truncated = False, out_gaps = fanout_gaps r\<rparr>"

subsection \<open>Gaps\<close>

definition observation_gaps :: "observation \<Rightarrow> (string \<times> string) list \<Rightarrow> (string \<times> string) list" where
  "observation_gaps ob gaps =
     (let gaps = os_extend gaps (map (\<lambda>g. (gap_source g, gap_reason g)) (obs_gaps ob));
          specific = list_ex (\<lambda>g. gap_source g = origin_id ob) (obs_gaps ob)
      in if normalize_machine_identity (machine ob) = None then
           os_insert (origin_id ob, ''machine identity unavailable; exact correlation is restricted'')
             gaps
         else if exact_keys ob = [] \<and> secondary_keys ob \<noteq> [] \<and> \<not> specific then
           os_insert (origin_id ob,
             ''only secondary identity was present; correlation remains low confidence'') gaps
         else gaps)"

definition cap_gaps :: "(string \<times> string) list \<Rightarrow> coverage_gap list" where
  "cap_gaps gaps =
     (let truncated = length gaps > max_gaps;
          limit = (if truncated then max_gaps - 1 else max_gaps);
          omitted = length gaps - limit
      in map (\<lambda>(s, r). CoverageGap s r) (take limit gaps)
         @ (if truncated
            then [CoverageGap gap_truncation_source
                    (''coverage gap limit reached; '' @ dec omitted @ '' additional ''
                     @ (if omitted = 1 then ''gap'' else ''gaps'') @ '' omitted'')]
            else []))"

definition correlate_observations :: "observation list
    \<Rightarrow> correlation_edge list \<times> coverage_gap list" where
  "correlate_observations obs =
     (let ordered = sort_by (\<lambda>l r. cmp (origin_id l) (origin_id r)) (disambiguate obs);
          out = emit_edges (index_by_id ordered) (reduce_groups ordered)
      in (out_edges out, cap_gaps (fold observation_gaps ordered (out_gaps out))))"

definition correlate_origins :: "'i chrono \<Rightarrow> timeline_origin list
    \<Rightarrow> correlation_edge list \<times> coverage_gap list" where
  "correlate_origins ch origs = correlate_observations (map (observation_from_origin ch) origs)"

definition correlate_timeline :: "'i chrono \<Rightarrow> timeline_item list \<Rightarrow> unplaced_item list
    \<Rightarrow> correlation_edge list \<times> coverage_gap list" where
  "correlate_timeline ch its unpl =
     correlate_origins ch (map item_origin its @ map unplaced_origin unpl)"

subsection \<open>Classification of gaps\<close>

datatype coverage_state = Skipped | Absent | Malformed | Capped | Unsupported | UnknownState

definition group_limit_reason :: "string \<Rightarrow> bool" where
  "group_limit_reason l \<longleftrightarrow>
     (prefix ''exact '' l \<and> str_contains l '' identity group exceeds the ''
        \<and> suffix '' correlation limit'' l)
     \<or> (prefix ''secondary '' l \<and> str_contains l '' identity group exceeds the ''
        \<and> suffix '' correlation limit'' l)"

definition coverage_state :: "string \<Rightarrow> coverage_state" where
  "coverage_state reason =
     (let l = ascii_lower reason in
      if l = ''no explicit identity keys were present; timestamp-only correlation is not causal''
         \<or> l = ''only secondary identity was present; correlation remains low confidence''
      then Skipped
      else if l = ''machine identity unavailable; exact correlation is restricted''
         \<or> l = ''process start identity was unavailable for a nonzero process id''
         \<or> l = ''process start identity requires a nonzero process id''
      then Absent
      else if prefix ''conflicting explicit identity aliases for '' l
         \<or> prefix ''multiple exact identity candidates remain: '' l
      then Skipped
      else if prefix ''duplicate origin identity coalesced from '' l then UnknownState
      else if prefix ''process start identity was present but its timestamp was invalid'' l
      then Malformed
      else if (prefix ''correlation relation budget'' l \<and> suffix '' was reached'' l)
         \<or> prefix ''coverage gap limit reached;'' l
         \<or> prefix ''correlation input limit reached;'' l
         \<or> prefix ''timeline message preview budget reached;'' l
         \<or> prefix ''correlation candidate output budget reached;'' l
         \<or> prefix ''correlation edge output budget reached;'' l
         \<or> group_limit_reason l
      then Capped
      else Unsupported)"

end
