(* ===== verification/CorrelationOrder.thy ===== *)
theory CorrelationOrder
  imports Correlation TimelineMerge
begin

text \<open>
  Correlation does not depend on the order of the observations: coalescing puts each group into a
  canonical form, so everything after it sees the same input.
\<close>

subsection \<open>Coalescing\<close>

lemma group_observations_ok [simp]: "om_ok (group_observations obs)"
proof (induction obs rule: rev_induct)
  case (snoc ob obs)
  then show ?case by (simp add: group_observations_def)
qed (simp add: group_observations_def)

definition group_of :: "observation list \<Rightarrow> string \<Rightarrow> observation list" where
  "group_of obs i = filter (\<lambda>ob. origin_id ob = i) obs"

lemma group_observations_get:
  "map_of (group_observations obs) i =
     (if i \<in> origin_id ` set obs then Some (fold accumulate (group_of obs i) (new_accumulator i))
      else None)"
proof (induction obs rule: rev_induct)
  case (snoc ob obs)
  have "group_observations (obs @ [ob]) = om_entry (origin_id ob)
      (\<lambda>a. accumulate ob (case a of None \<Rightarrow> new_accumulator (origin_id ob) | Some a \<Rightarrow> a))
      (group_observations obs)"
    by (simp add: group_observations_def)
  moreover have "group_of obs i = []" if "i \<notin> origin_id ` set obs"
    using that by (auto simp: group_of_def filter_empty_conv)
  moreover have "group_of (obs @ [ob]) i = group_of obs i @ (if origin_id ob = i then [ob] else [])"
    by (simp add: group_of_def)
  ultimately show ?case using snoc by (auto simp: map_of_om_entry)
qed (simp add: group_observations_def)

text \<open>The canonical observation of a group.\<close>

definition coalesced :: "string \<Rightarrow> observation list \<Rightarrow> observation" where
  "coalesced i obs =
     (let machines = os_of (concat (map (\<lambda>ob. opt_list (normalize_machine_identity (machine ob))) obs));
          gaps = concat (map obs_gaps obs) @
            (if length obs > 1
             then [CoverageGap i (''duplicate origin identity coalesced from '' @ dec (length obs)
                      @ '' observations'')]
             else [])
      in \<lparr>origin_id = i,
          machine = (if length machines = 1 then Some (hd machines) else None),
          exact_keys = remdups_adj (sort (concat (map exact_keys obs))),
          secondary_keys = remdups_adj (sort (concat (map secondary_keys obs))),
          obs_gaps = remdups_adj (sort_key (\<lambda>g. (gap_source g, gap_reason g)) gaps)\<rparr>)"

lemma fold_accumulate:
  "fold accumulate obs (new_accumulator i) =
     \<lparr>acc_observation =
        \<lparr>origin_id = i, machine = None, exact_keys = concat (map exact_keys obs),
         secondary_keys = concat (map secondary_keys obs), obs_gaps = concat (map obs_gaps obs)\<rparr>,
      acc_machines =
        os_of (concat (map (\<lambda>ob. opt_list (normalize_machine_identity (machine ob))) obs)),
      acc_count = length obs\<rparr>"
proof (induction obs rule: rev_induct)
  case Nil
  then show ?case by (simp add: new_accumulator_def os_of_def os_extend_def)
next
  case (snoc ob obs)
  then show ?case
    by (cases "normalize_machine_identity (machine ob)") (simp_all add: accumulate_def os_of_snoc)
qed

lemma gap_cmp_key: "sort_by gap_cmp gaps = sort_key (\<lambda>g. (gap_source g, gap_reason g)) gaps"
  by (rule sort_by_key) (simp add: gap_cmp_def cmp_Pair)

lemma finish_accumulator_coalesced:
  "finish_accumulator (fold accumulate obs (new_accumulator i)) = coalesced i obs"
  by (simp add: finish_accumulator_def fold_accumulate coalesced_def gap_cmp_key Let_def)

lemma disambiguate_coalesced:
  "disambiguate obs = map (\<lambda>i. coalesced i (group_of obs i)) (os_of (map origin_id obs))"
proof -
  let ?g = "group_observations obs"
  have keys: "map fst ?g = os_of (map origin_id obs)"
    by (rule om_keys_of) (auto simp: group_observations_get)
  have "disambiguate obs = map (\<lambda>i. finish_accumulator (the (map_of ?g i))) (map fst ?g)"
    unfolding disambiguate_def
    by (subst (1) om_map_keys [symmetric, OF group_observations_ok]) (simp add: comp_def)
  also have "\<dots> = map (\<lambda>i. coalesced i (group_of obs i)) (map fst ?g)"
    by (rule map_cong)
      (auto simp: group_observations_get finish_accumulator_coalesced keys)
  finally show ?thesis by (simp add: keys)
qed

lemma coalesced_cong:
  assumes "mset obs = mset obs'"
  shows "coalesced i obs = coalesced i obs'"
proof -
  have m: "mset (concat (map f obs)) = mset (concat (map f obs'))" for f :: "observation \<Rightarrow> 'a list"
  proof -
    have "mset (concat (map f xs)) = (\<Sum>ob \<in># mset xs. mset (f ob))" for xs
      by (induction xs) auto
    then show ?thesis using assms by simp
  qed
  have s: "set obs = set obs'" "length obs = length obs'"
    using assms by (metis set_mset_mset, metis size_mset)
  have sorts: "sort xs = sort ys" if "mset xs = mset ys" for xs ys :: "correlation_key list"
    using that properties_for_sort by (metis mset_sort sorted_sort)
  have inj: "inj (\<lambda>g. (gap_source g, gap_reason g))"
    by (rule injI) (simp add: coverage_gap.expand)
  have gaps: "sort_key (\<lambda>g. (gap_source g, gap_reason g)) xs
      = sort_key (\<lambda>g. (gap_source g, gap_reason g)) ys"
    if "mset xs = mset ys" for xs ys
    by (rule sorted_inj_unique [OF inj]) (simp_all add: that)
  have "os_of (concat (map (\<lambda>ob. opt_list (normalize_machine_identity (machine ob))) obs))
      = os_of (concat (map (\<lambda>ob. opt_list (normalize_machine_identity (machine ob))) obs'))"
    by (rule os_of_cong) (simp add: s)
  moreover have "sort (concat (map exact_keys obs)) = sort (concat (map exact_keys obs'))"
    "sort (concat (map secondary_keys obs)) = sort (concat (map secondary_keys obs'))"
    by (rule sorts, rule m)+
  moreover have "sort_key (\<lambda>g. (gap_source g, gap_reason g)) (concat (map obs_gaps obs) @ x)
      = sort_key (\<lambda>g. (gap_source g, gap_reason g)) (concat (map obs_gaps obs') @ x)" for x
    by (rule gaps) (simp add: m)
  ultimately show ?thesis by (simp only: coalesced_def s Let_def)
qed

lemma disambiguate_cong:
  assumes "mset obs = mset obs'"
  shows "disambiguate obs = disambiguate obs'"
proof -
  have "coalesced i (group_of obs i) = coalesced i (group_of obs' i)" for i
    by (rule coalesced_cong) (simp add: group_of_def assms mset_filter)
  moreover have "os_of (map origin_id obs) = os_of (map origin_id obs')"
    by (rule os_of_cong) (use assms in \<open>metis list.set_map set_mset_mset\<close>)
  ultimately show ?thesis by (simp add: disambiguate_coalesced)
qed

text \<open>C15. Correlation is deterministic in the evidence: whatever the order in which the observations
  arrive, duplicates included, the edges and the gaps reported are the same.\<close>

theorem correlate_order_independent:
  assumes "mset obs = mset obs'"
  shows "correlate_observations obs = correlate_observations obs'"
  unfolding correlate_observations_def disambiguate_cong [OF assms] ..

definition sample_observation :: "string \<Rightarrow> observation" where
  "sample_observation i =
     \<lparr>origin_id = i, machine = Some ''host'', exact_keys = [CorrelationKey ActivityId ''a''],
      secondary_keys = [], obs_gaps = []\<rparr>"

lemma correlate_order_independent_witness:
  "correlate_observations [sample_observation ''x'', sample_observation ''y''] =
     correlate_observations [sample_observation ''y'', sample_observation ''x'']"
  by (rule correlate_order_independent) (simp add: add_mset_commute)

subsection \<open>The observations after coalescing\<close>

lemma disambiguate_ids: "map origin_id (disambiguate obs) = os_of (map origin_id obs)"
  by (simp add: disambiguate_coalesced comp_def) (simp add: coalesced_def Let_def)

lemma ordered_id: "sort_by (\<lambda>l r. cmp (origin_id l) (origin_id r)) (disambiguate obs) = disambiguate obs"
proof -
  have "sort_by (\<lambda>l r. cmp (origin_id l) (origin_id r)) (disambiguate obs)
      = sort_key origin_id (disambiguate obs)" by (rule sort_by_key) simp
  also have "\<dots> = disambiguate obs"
    using os_ok_distinct [OF os_ok_of, of "map origin_id obs"]
    by (intro sort_key_id_if_sorted) (simp add: disambiguate_ids)
  finally show ?thesis .
qed

end
