(* ===== verification/CorrelationSound.thy ===== *)
theory CorrelationSound
  imports CorrelationOrder
begin

text \<open>
  What the edges of \<open>Correlation\<close> mean and how much is produced: every relation of the reducer joins
  two observations of one machine that share the key it carries, an exact edge is the only edge at its
  endpoints, and the relation, byte and gap budgets hold of the output.
\<close>

subsection \<open>Groups\<close>

text \<open>An observation carries a key up to the two kinds of activity identifier.\<close>

definition carries :: "observation \<Rightarrow> correlation_kind \<Rightarrow> string \<Rightarrow> bool" where
  "carries ob kind val \<longleftrightarrow>
     (\<exists>key \<in> set (exact_keys ob). canonical_kind (key_kind key) = kind \<and> key_value key = val)"

definition on_machine :: "observation \<Rightarrow> string \<Rightarrow> bool" where
  "on_machine ob mc \<longleftrightarrow> normalize_machine_identity (machine ob) = Some mc"

lemma set_ids_of_add [simp]:
  "om_ok m \<Longrightarrow> set (ids_of (om_add k x m) i) =
     (if i = k then insert x (set (ids_of m k)) else set (ids_of m i))"
  by (cases "map_of m k"; cases "i = k") (simp_all add: ids_of_def om_add_def map_of_om_entry)

lemma om_ok_add [simp]: "om_ok m \<Longrightarrow> om_ok (om_add k x m)"
  by (simp add: om_add_def)

lemma om_add_sets:
  assumes "om_ok m" "\<And>k s. (k, s) \<in> set m \<Longrightarrow> P k s"
    "\<And>s. s = [] \<or> P k s \<Longrightarrow> P k (os_insert x s)"
  shows "(k', s') \<in> set (om_add k x m) \<Longrightarrow> P k' s'"
  using assms assms(3) [of "[]"]
  by (auto simp: om_set_map_of om_add_def map_of_om_entry split: if_splits option.splits)

definition exact_member :: "observation list \<Rightarrow> exact_group_key \<Rightarrow> string \<Rightarrow> bool" where
  "exact_member obs grp i \<longleftrightarrow>
     (case grp of (mc, kind, val) \<Rightarrow>
        \<exists>ob \<in> set obs. origin_id ob = i \<and> on_machine ob mc \<and> carries ob kind val)"

definition secondary_member :: "observation list \<Rightarrow> string \<times> string \<Rightarrow> string \<Rightarrow> bool" where
  "secondary_member obs grp i \<longleftrightarrow>
     (case grp of (mc, val) \<Rightarrow>
        \<exists>ob \<in> set obs. origin_id ob = i \<and> on_machine ob mc
          \<and> (\<exists>key \<in> set (secondary_keys ob). key_value key = val))"

definition groups_ok :: "('g \<Rightarrow> string \<Rightarrow> bool) \<Rightarrow> ('g::linorder, string list) omap \<Rightarrow> bool" where
  "groups_ok member groups \<longleftrightarrow>
     om_ok groups \<and> (\<forall>(g, ids) \<in> set groups. os_ok ids \<and> (\<forall>i \<in> set ids. member g i))"

lemma groups_ok_add:
  assumes "groups_ok member groups" "member g i"
  shows "groups_ok member (om_add g i groups)"
proof -
  have "os_ok s \<and> (\<forall>i \<in> set s. member g' i)" if "(g', s) \<in> set (om_add g i groups)" for g' s
    by (rule om_add_sets [OF _ _ _ that]) (use assms in \<open>auto simp: groups_ok_def\<close>)
  then show ?thesis using assms by (auto simp: groups_ok_def)
qed

lemma groups_ok_fold:
  assumes "groups_ok member groups" "\<And>x. x \<in> set xs \<Longrightarrow> member (f x) i"
  shows "groups_ok member (fold (\<lambda>x. om_add (f x) i) xs groups)"
  using assms by (induction xs arbitrary: groups) (simp_all add: groups_ok_add)

lemma exact_groups_ok:
  "set obs \<subseteq> set all \<Longrightarrow> groups_ok (exact_member all) groups \<Longrightarrow>
     groups_ok (exact_member all) (fold add_exact_groups obs groups)"
proof (induction obs arbitrary: groups)
  case (Cons ob obs)
  have "groups_ok (exact_member all) (add_exact_groups ob groups)"
  proof (cases "normalize_machine_identity (machine ob)")
    case (Some mc)
    have "groups_ok (exact_member all)
      (fold (\<lambda>key. om_add (mc, canonical_kind (key_kind key), key_value key) (origin_id ob))
         (exact_keys ob) groups)"
    proof (rule groups_ok_fold)
      show "exact_member all (mc, canonical_kind (key_kind key), key_value key) (origin_id ob)"
        if "key \<in> set (exact_keys ob)" for key
        using Cons.prems(1) Some that by (auto simp: exact_member_def on_machine_def carries_def)
    qed (rule Cons.prems(2))
    with Some show ?thesis by (simp add: add_exact_groups_def)
  qed (use Cons.prems in \<open>simp add: add_exact_groups_def\<close>)
  with Cons show ?case by simp
qed simp

lemma secondary_groups_ok:
  "set obs \<subseteq> set all \<Longrightarrow> groups_ok (secondary_member all) groups \<Longrightarrow>
     groups_ok (secondary_member all) (fold add_secondary_groups obs groups)"
proof (induction obs arbitrary: groups)
  case (Cons ob obs)
  have "groups_ok (secondary_member all) (add_secondary_groups ob groups)"
  proof (cases "normalize_machine_identity (machine ob)")
    case (Some mc)
    have "groups_ok (secondary_member all)
      (fold (\<lambda>key. om_add (mc, key_value key) (origin_id ob)) (secondary_keys ob) groups)"
    proof (rule groups_ok_fold)
      show "secondary_member all (mc, key_value key) (origin_id ob)"
        if "key \<in> set (secondary_keys ob)" for key
        using Cons.prems(1) Some that by (auto simp: secondary_member_def on_machine_def)
    qed (rule Cons.prems(2))
    with Some show ?thesis by (simp add: add_secondary_groups_def)
  qed (use Cons.prems in \<open>simp add: add_secondary_groups_def\<close>)
  with Cons show ?case by simp
qed simp

lemma groups_ok_Nil [simp]: "groups_ok member []"
  by (simp add: groups_ok_def)

subsection \<open>The index\<close>

lemma index_by_id_get:
  assumes "distinct (map origin_id obs)"
  shows "map_of (index_by_id obs) i = Some ob \<longleftrightarrow> ob \<in> set obs \<and> origin_id ob = i"
proof -
  have "map_of (index_by_id obs) i = List.find (\<lambda>ob. origin_id ob = i) (rev obs)"
    unfolding index_by_id_def using om.get_put_all [OF om.ok_empty, of origin_id "\<lambda>x. x" obs i]
    by (simp add: option.case_eq_if)
  also have "\<dots> = Some ob \<longleftrightarrow> ob \<in> set obs \<and> origin_id ob = i"
    using assms
  proof (induction obs rule: rev_induct)
    case (snoc o1 obs)
    then show ?case by auto
  qed simp
  finally show ?thesis .
qed

lemma pairs_of_sorted:
  "os_ok ids \<Longrightarrow> (l, r) \<in> set (pairs_of ids) \<Longrightarrow> l \<in> set ids \<and> r \<in> set ids \<and> l < r"
  by (induction ids) (auto simp: os_ok_def)

subsection \<open>What a relation rests on\<close>

definition shares_exact :: "observation list \<Rightarrow> relation \<Rightarrow> correlation_key \<Rightarrow> bool" where
  "shares_exact obs rel key \<longleftrightarrow>
     fst rel < snd rel \<and>
     (\<exists>a \<in> set obs. \<exists>b \<in> set obs. \<exists>mc.
        origin_id a = fst rel \<and> origin_id b = snd rel \<and> on_machine a mc \<and> on_machine b mc
        \<and> (key \<in> set (exact_keys a) \<or> key \<in> set (exact_keys b))
        \<and> (\<exists>k \<in> set (exact_keys a). keys_match k key) \<and> (\<exists>k \<in> set (exact_keys b). keys_match k key))"

definition shares_secondary :: "observation list \<Rightarrow> relation \<Rightarrow> correlation_key \<Rightarrow> bool" where
  "shares_secondary obs rel key \<longleftrightarrow>
     fst rel < snd rel \<and>
     (\<exists>a \<in> set obs. \<exists>b \<in> set obs. \<exists>mc val.
        origin_id a = fst rel \<and> origin_id b = snd rel \<and> on_machine a mc \<and> on_machine b mc
        \<and> key = CorrelationKey Secondary (mc @ ''|'' @ val)
        \<and> val \<in> key_value ` set (secondary_keys a) \<and> val \<in> key_value ` set (secondary_keys b))"

definition reducer_ok :: "observation list \<Rightarrow> reducer \<Rightarrow> bool" where
  "reducer_ok obs r \<longleftrightarrow>
     om_ok (exact_candidates r) \<and> om_ok (relation_keys r) \<and> om_ok (candidate_relations r)
     \<and> (\<forall>(rel, keys) \<in> set (relation_keys r). keys \<noteq> [] \<and> (\<forall>k \<in> set keys. shares_exact obs rel k))
     \<and> (\<forall>(rel, keys) \<in> set (candidate_relations r).
          keys \<noteq> [] \<and> (\<forall>k \<in> set keys. shares_secondary obs rel k)
          \<and> \<not> has_exact r (fst rel) \<and> \<not> has_exact r (snd rel))
     \<and> (\<forall>i j. j \<in> set (ids_of (exact_candidates r) i) \<longleftrightarrow>
          (i, j) \<in> fst ` set (relation_keys r) \<or> (j, i) \<in> fst ` set (relation_keys r))
     \<and> length (relation_keys r) + length (candidate_relations r) + relation_budget r \<le> max_relations"

lemma has_exact_ids: "has_exact r i \<longleftrightarrow> ids_of (exact_candidates r) i \<noteq> []"
  by (simp add: has_exact_def ids_of_def split: option.split)

lemma reducer_ok_add_gaps [simp]: "reducer_ok obs (add_gaps ids reason r) = reducer_ok obs r"
  by (simp add: reducer_ok_def add_gaps_def has_exact_def)

lemma add_gaps_fields [simp]:
  "relation_budget (add_gaps ids reason r) = relation_budget r"
  "candidate_relations (add_gaps ids reason r) = candidate_relations r"
  "exact_candidates (add_gaps ids reason r) = exact_candidates r"
  "relation_keys (add_gaps ids reason r) = relation_keys r"
  by (simp_all add: add_gaps_def)

lemma reducer_ok_no_budget: "reducer_ok obs r \<Longrightarrow> reducer_ok obs (r\<lparr>relation_budget := 0\<rparr>)"
  by (simp add: reducer_ok_def has_exact_def)

text \<open>Two members of an exact group.\<close>

definition exact_pair :: "observation list \<Rightarrow> correlation_kind \<Rightarrow> string \<Rightarrow> relation \<Rightarrow> bool" where
  "exact_pair obs kind val rel \<longleftrightarrow>
     fst rel < snd rel \<and>
     (\<exists>mc. exact_member obs (mc, kind, val) (fst rel) \<and> exact_member obs (mc, kind, val) (snd rel))"

lemma set_om_entry:
  "om_ok m \<Longrightarrow> (k', v) \<in> set (om_entry k f m) \<longleftrightarrow>
     (if k' = k then v = f (map_of m k) else (k', v) \<in> set m)"
  by (auto simp: om_set_map_of map_of_om_entry)

lemma length_om_entry_le:
  "om_ok m \<Longrightarrow> length (om_entry k f m) \<le> length m + 1"
  "om_ok m \<Longrightarrow> map_of m k \<noteq> None \<Longrightarrow> length (om_entry k f m) = length m"
  by (simp_all add: length_om_entry)

lemma group_keys_facts:
  assumes "distinct (map origin_id obs)" "exact_member obs (mc, kind, val) i"
  shows "map_of (index_by_id obs) i \<noteq> None" "group_keys (index_by_id obs) kind val i \<noteq> []"
proof -
  obtain ob where ob: "ob \<in> set obs" "origin_id ob = i" "carries ob kind val"
    using assms(2) by (auto simp: exact_member_def)
  then have "map_of (index_by_id obs) i = Some ob" using index_by_id_get [OF assms(1)] by simp
  then show "map_of (index_by_id obs) i \<noteq> None" "group_keys (index_by_id obs) kind val i \<noteq> []"
    using ob by (auto simp: group_keys_def carries_def filter_empty_conv)
qed

lemma shares_exact_group:
  assumes "distinct (map origin_id obs)" "exact_pair obs kind val rel"
    "i = fst rel \<or> i = snd rel" "k \<in> set (group_keys (index_by_id obs) kind val i)"
  shows "shares_exact obs rel k"
proof -
  obtain a b mc where ab: "a \<in> set obs" "b \<in> set obs" "origin_id a = fst rel" "origin_id b = snd rel"
      "on_machine a mc" "on_machine b mc" "carries a kind val" "carries b kind val" "fst rel < snd rel"
    using assms(2) by (auto simp: exact_pair_def exact_member_def)
  have "map_of (index_by_id obs) (fst rel) = Some a" "map_of (index_by_id obs) (snd rel) = Some b"
    using index_by_id_get [OF assms(1)] ab by auto
  then have "k \<in> set (exact_keys a) \<or> k \<in> set (exact_keys b)"
    and "canonical_kind (key_kind k) = kind" "key_value k = val"
    using assms(3,4) by (auto simp: group_keys_def)
  then have "\<exists>ka \<in> set (exact_keys a). keys_match ka k" "\<exists>kb \<in> set (exact_keys b). keys_match kb k"
    using ab(7,8) by (auto simp: carries_def keys_match_def)
  with \<open>k \<in> set (exact_keys a) \<or> k \<in> set (exact_keys b)\<close> show ?thesis
    unfolding shares_exact_def using ab(1-6,9) by (intro conjI bexI [of _ a] bexI [of _ b] exI [of _ mc])
qed

lemma add_relation_keys_entry:
  "map_of by_id i \<noteq> None \<Longrightarrow> add_relation_keys by_id kind val rel i m =
     om_entry rel (\<lambda>s. os_extend (case s of None \<Rightarrow> [] | Some s \<Rightarrow> s) (group_keys by_id kind val i)) m"
  by (auto simp: add_relation_keys_def split: option.split)

lemma relate_exact_ok:
  assumes d: "distinct (map origin_id obs)" and ok: "reducer_ok obs r"
    and pair: "exact_pair obs kind val rel" and budget: "relation_budget r \<noteq> 0"
    and none: "candidate_relations r = []"
  shows "reducer_ok obs (relate_exact (index_by_id obs) kind val rel r)
    \<and> candidate_relations (relate_exact (index_by_id obs) kind val rel r) = []"
proof -
  obtain left right where rel: "rel = (left, right)" by fastforce
  let ?ix = "index_by_id obs"
  let ?m1 = "add_relation_keys ?ix kind val rel left (relation_keys r)"
  let ?m2 = "add_relation_keys ?ix kind val rel right ?m1"
  have mem: "\<exists>mc. exact_member obs (mc, kind, val) i" if "i = left \<or> i = right" for i
    using pair that by (auto simp: exact_pair_def rel)
  have ix: "map_of ?ix left \<noteq> None" "map_of ?ix right \<noteq> None"
    "group_keys ?ix kind val left \<noteq> []"
    using mem [of left] mem [of right] group_keys_facts [OF d] by blast+
  have oks: "om_ok (relation_keys r)" "om_ok ?m1" "om_ok ?m2"
    using ok ix by (simp_all add: reducer_ok_def add_relation_keys_entry)
  have keys: "fst ` set ?m2 = insert rel (fst ` set (relation_keys r))"
    using ix by (simp add: add_relation_keys_entry)
  have len: "length ?m2 \<le> length (relation_keys r) + 1"
    using oks ix length_om_entry_le(1) [OF oks(1)] length_om_entry_le(2) [OF oks(2)]
    by (simp add: add_relation_keys_entry map_of_om_entry)
  have prev: "keys \<noteq> [] \<and> (\<forall>k \<in> set keys. shares_exact obs rl k)"
    if "(rl, keys) \<in> set (relation_keys r)" for rl keys
    using ok that by (auto simp: reducer_ok_def)
  have new: "\<forall>k \<in> set (group_keys ?ix kind val i). shares_exact obs rel k" if "i = left \<or> i = right" for i
    using shares_exact_group [OF d pair] that by (auto simp: rel)
  have nonempty: "os_extend s xs \<noteq> []" if "s \<noteq> [] \<or> xs \<noteq> []" for s xs :: "correlation_key list"
    using set_os_extend [of s xs] that by (metis Un_empty list.set(1) set_empty)
  have m1: "keys \<noteq> [] \<and> (\<forall>k \<in> set keys. shares_exact obs rl k)" if "(rl, keys) \<in> set ?m1" for rl keys
  proof (cases "rl = rel")
    case True
    then have keys: "keys = os_extend (case map_of (relation_keys r) rel of None \<Rightarrow> [] | Some s \<Rightarrow> s)
        (group_keys ?ix kind val left)"
      using that ix oks by (simp add: add_relation_keys_entry set_om_entry)
    have "\<forall>k \<in> set s. shares_exact obs rel k" if "map_of (relation_keys r) rel = Some s" for s
      using prev [OF map_of_SomeD [OF that]] by blast
    then show ?thesis
      using keys new [of left] nonempty ix(3) True by (auto split: option.splits)
  next
    case False
    then show ?thesis using prev that ix oks by (simp add: add_relation_keys_entry set_om_entry)
  qed
  have m2: "keys \<noteq> [] \<and> (\<forall>k \<in> set keys. shares_exact obs rl k)" if "(rl, keys) \<in> set ?m2" for rl keys
  proof (cases "rl = rel")
    case True
    obtain s where s: "map_of ?m1 rel = Some s" "(rel, s) \<in> set ?m1"
      using ix oks by (auto simp: add_relation_keys_entry map_of_om_entry set_om_entry)
    then have "keys = os_extend s (group_keys ?ix kind val right)"
      using that True ix oks by (simp add: add_relation_keys_entry [of ?ix right] set_om_entry)
    then show ?thesis using m1 [OF s(2)] new [of right] nonempty True by auto
  next
    case False
    then show ?thesis
      using m1 that ix oks by (simp add: add_relation_keys_entry [of ?ix right] set_om_entry)
  qed
  let ?c = "om_add right left (om_add left right (exact_candidates r))"
  have neq: "left \<noteq> right" using pair by (auto simp: exact_pair_def rel)
  have "om_ok (exact_candidates r)" using ok by (simp add: reducer_ok_def)
  then have cand: "j \<in> set (ids_of ?c i) \<longleftrightarrow>
      (i, j) \<in> fst ` set ?m2 \<or> (j, i) \<in> fst ` set ?m2" for i j
    using ok neq unfolding keys by (auto simp: reducer_ok_def rel)
  show ?thesis
    using ok none oks m2 cand len budget
    by (auto simp: reducer_ok_def relate_exact_def rel)
qed

lemma exact_pairs_ok:
  assumes "distinct (map origin_id obs)" "reducer_ok obs r" "candidate_relations r = []"
    "\<And>rel. rel \<in> set rels \<Longrightarrow> exact_pair obs kind val rel"
    "exact_pairs (index_by_id obs) kind val rels r = (t, r')"
  shows "reducer_ok obs r' \<and> candidate_relations r' = []"
  using assms(2-)
proof (induction rels arbitrary: r)
  case (Cons rel rels)
  show ?case
  proof (cases "relation_budget r = 0")
    case False
    then have "reducer_ok obs (relate_exact (index_by_id obs) kind val rel r)
        \<and> candidate_relations (relate_exact (index_by_id obs) kind val rel r) = []"
      using Cons.prems by (intro relate_exact_ok [OF assms(1)]) auto
    then show ?thesis
      using Cons.IH [of "relate_exact (index_by_id obs) kind val rel r"] Cons.prems False by simp
  qed (use Cons.prems in auto)
qed auto

lemma exact_group_ok:
  assumes d: "distinct (map origin_id obs)" and ok: "reducer_ok obs r" "candidate_relations r = []"
    and grp: "os_ok ids" "\<forall>i \<in> set ids. exact_member obs g i"
  shows "reducer_ok obs (exact_group (index_by_id obs) (g, ids) r)
    \<and> candidate_relations (exact_group (index_by_id obs) (g, ids) r) = []"
proof -
  obtain mc kind val where g: "g = (mc, kind, val)" by (cases g) auto
  have pair: "exact_pair obs kind val rel" if "rel \<in> set (pairs_of ids)" for rel
    using pairs_of_sorted [OF grp(1), of "fst rel" "snd rel"] that grp(2)
    by (auto simp: exact_pair_def g)
  obtain t r' where r': "exact_pairs (index_by_id obs) kind val (pairs_of ids) r = (t, r')" by fastforce
  have "reducer_ok obs r' \<and> candidate_relations r' = []"
    by (rule exact_pairs_ok [OF d ok pair r'])
  then show ?thesis
    using ok by (simp add: exact_group_def g r' reducer_ok_no_budget)
qed

lemma exact_phase_ok:
  assumes "distinct (map origin_id obs)"
  shows "groups_ok (exact_member obs) groups \<Longrightarrow> reducer_ok obs r \<Longrightarrow> candidate_relations r = [] \<Longrightarrow>
    reducer_ok obs (fold (exact_group (index_by_id obs)) groups r)"
proof (induction groups arbitrary: r)
  case (Cons grp groups)
  obtain g ids where g: "grp = (g, ids)" by fastforce
  with Cons.prems have "os_ok ids" "\<forall>i \<in> set ids. exact_member obs g i"
    by (auto simp: groups_ok_def)
  then have "reducer_ok obs (exact_group (index_by_id obs) grp r)
      \<and> candidate_relations (exact_group (index_by_id obs) grp r) = []"
    unfolding g by (intro exact_group_ok assms Cons.prems)
  moreover have "groups_ok (exact_member obs) groups"
    using Cons.prems by (auto simp: groups_ok_def om_ok_def)
  ultimately show ?case using Cons.IH by simp
qed simp

definition secondary_pair :: "observation list \<Rightarrow> string \<Rightarrow> string \<Rightarrow> relation \<Rightarrow> bool" where
  "secondary_pair obs mc val rel \<longleftrightarrow>
     fst rel < snd rel \<and> secondary_member obs (mc, val) (fst rel)
     \<and> secondary_member obs (mc, val) (snd rel)"

lemma secondary_pair_shares:
  assumes "secondary_pair obs mc val rel"
  shows "shares_secondary obs rel (CorrelationKey Secondary (mc @ ''|'' @ val))"
proof -
  obtain a b where ab: "a \<in> set obs" "b \<in> set obs" "origin_id a = fst rel" "origin_id b = snd rel"
      "on_machine a mc" "on_machine b mc" "val \<in> key_value ` set (secondary_keys a)"
      "val \<in> key_value ` set (secondary_keys b)" "fst rel < snd rel"
    using assms unfolding secondary_pair_def secondary_member_def prod.case by (metis imageI)
  then show ?thesis
    unfolding shares_secondary_def
    by (intro conjI bexI [of _ a] bexI [of _ b] exI [of _ mc] exI [of _ val]) simp_all
qed

lemma relate_secondary_ok:
  assumes ok: "reducer_ok obs r" and pair: "secondary_pair obs mc val rel"
    and budget: "relation_budget r \<noteq> 0" and free: "\<not> has_exact r (fst rel)" "\<not> has_exact r (snd rel)"
  shows "reducer_ok obs (relate_secondary mc val rel r)"
proof -
  let ?m = "om_add rel (CorrelationKey Secondary (mc @ ''|'' @ val)) (candidate_relations r)"
  have exact: "has_exact (relate_secondary mc val rel r) i = has_exact r i" for i
    by (simp add: has_exact_def relate_secondary_def)
  have om: "om_ok (candidate_relations r)" using ok by (simp add: reducer_ok_def)
  have each: "keys \<noteq> [] \<and> (\<forall>k \<in> set keys. shares_secondary obs rl k)
      \<and> \<not> has_exact r (fst rl) \<and> \<not> has_exact r (snd rl)" if "(rl, keys) \<in> set ?m" for rl keys
  proof (rule om_add_sets [OF om _ _ that])
    show "keys \<noteq> [] \<and> (\<forall>k \<in> set keys. shares_secondary obs rl k)
        \<and> \<not> has_exact r (fst rl) \<and> \<not> has_exact r (snd rl)"
      if "(rl, keys) \<in> set (candidate_relations r)" for rl keys
      using ok that by (auto simp: reducer_ok_def)
  qed (use secondary_pair_shares [OF pair] free in auto)
  have "length ?m \<le> length (candidate_relations r) + 1"
    unfolding om_add_def by (rule length_om_entry_le) (rule om)
  then show ?thesis
    using ok each budget om unfolding reducer_ok_def exact by (auto simp: relate_secondary_def)
qed

lemma secondary_pairs_ok:
  "reducer_ok obs r \<Longrightarrow> (\<And>rel. rel \<in> set rels \<Longrightarrow> secondary_pair obs mc val rel) \<Longrightarrow>
     secondary_pairs mc val rels r = (t, r') \<Longrightarrow> reducer_ok obs r'"
proof (induction mc val rels r rule: secondary_pairs.induct)
  case (2 mc val left right rels r)
  show ?case
  proof (cases "has_exact r left \<or> relation_budget r = 0 \<or> has_exact r right")
    case True
    with 2 show ?thesis by (auto split: if_splits)
  next
    case False
    then have "reducer_ok obs (relate_secondary mc val (left, right) r)"
      using "2.prems" by (intro relate_secondary_ok) auto
    with 2 False show ?thesis by (auto split: if_splits)
  qed
qed auto

lemma secondary_group_ok:
  assumes ok: "reducer_ok obs r" and grp: "os_ok ids" "\<forall>i \<in> set ids. secondary_member obs g i"
  shows "reducer_ok obs (secondary_group (g, ids) r)"
proof -
  obtain mc val where g: "g = (mc, val)" by fastforce
  have pair: "secondary_pair obs mc val rel" if "rel \<in> set (pairs_of ids)" for rel
    using pairs_of_sorted [OF grp(1), of "fst rel" "snd rel"] that grp(2)
    by (auto simp: secondary_pair_def g)
  obtain t r' where r': "secondary_pairs mc val (pairs_of ids) r = (t, r')" by fastforce
  have "reducer_ok obs r'" by (rule secondary_pairs_ok [OF ok pair r'])
  then show ?thesis using ok by (simp add: secondary_group_def g r')
qed

lemma secondary_phase_ok:
  "groups_ok (secondary_member obs) groups \<Longrightarrow> reducer_ok obs r \<Longrightarrow>
    reducer_ok obs (fold secondary_group groups r)"
proof (induction groups arbitrary: r)
  case (Cons grp groups)
  obtain g ids where g: "grp = (g, ids)" by fastforce
  with Cons.prems have "os_ok ids" "\<forall>i \<in> set ids. secondary_member obs g i"
    by (auto simp: groups_ok_def)
  then have "reducer_ok obs (secondary_group grp r)"
    unfolding g by (intro secondary_group_ok Cons.prems)
  moreover have "groups_ok (secondary_member obs) groups"
    using Cons.prems by (auto simp: groups_ok_def om_ok_def)
  ultimately show ?case using Cons.IH by simp
qed simp

lemma reduce_groups_ok:
  assumes "distinct (map origin_id obs)"
  shows "reducer_ok obs (reduce_groups obs)"
proof -
  have "reducer_ok obs initial_reducer"
    by (simp add: reducer_ok_def initial_reducer_def ids_of_def)
  then show ?thesis
    unfolding reduce_groups_def Let_def
    by (intro secondary_phase_ok exact_phase_ok assms secondary_groups_ok exact_groups_ok)
      (simp_all add: initial_reducer_def)
qed

text \<open>No relation reaches the edges without a key.\<close>

lemma reduce_groups_keys:
  assumes "distinct (map origin_id obs)" "(rel, keys, exact) \<in> set (edge_inputs (reduce_groups obs))"
  shows "keys \<noteq> []"
  using reduce_groups_ok [OF assms(1)] assms(2)
  by (fastforce simp: reducer_ok_def edge_inputs_def)

subsection \<open>Edges\<close>

definition edge_relation :: "correlation_edge \<Rightarrow> string \<times> string option" where
  "edge_relation e = (from_id e, to_id e)"

definition edge_bytes :: "correlation_edge \<Rightarrow> nat" where
  "edge_bytes e = estimated_bytes e (case to_id e of Some t \<Rightarrow> t | None \<Rightarrow> [])"

definition input_relation :: "relation \<times> correlation_key list \<times> bool \<Rightarrow> string \<times> string option" where
  "input_relation x = (fst (fst x), Some (snd (fst x)))"

text \<open>The invariant of the loop over the relations: what is emitted follows the relations, comes from
  them, and is paid for.\<close>

definition emitted :: "(string, observation) omap \<Rightarrow> reducer
    \<Rightarrow> (relation \<times> correlation_key list \<times> bool) list \<Rightarrow> correlation_edge \<Rightarrow> bool" where
  "emitted by_id r xs e \<longleftrightarrow>
     (\<exists>x \<in> set xs. \<exists>tr. e = build_edge by_id r (snd (snd x)) (fst x) (hd (fst (snd x))) tr)"

lemma emitted_snoc: "emitted by_id r xs e \<Longrightarrow> emitted by_id r (xs @ [x]) e"
  by (auto simp: emitted_def)

definition output_ok :: "(string, observation) omap \<Rightarrow> reducer
    \<Rightarrow> (relation \<times> correlation_key list \<times> bool) list \<Rightarrow> edge_output \<Rightarrow> bool" where
  "output_ok by_id r xs out \<longleftrightarrow>
     prefix (map edge_relation (out_edges out)) (map input_relation xs)
     \<and> (edges_truncated out \<or> length (out_edges out) = length xs)
     \<and> (\<forall>e \<in> set (out_edges out). emitted by_id r xs e)
     \<and> sum_list (map edge_bytes (out_edges out)) + edge_budget out = max_edge_bytes
     \<and> sum_list (map (\<lambda>e. total_bytes (candidate_ids e)) (out_edges out)) + candidate_budget out
         \<le> max_candidate_bytes"

lemma build_edge_fields [simp]:
  "from_id (build_edge by_id r exact (left, right) key tr) = left"
  "to_id (build_edge by_id r exact (left, right) key tr) = Some right"
  "edge_key (build_edge by_id r exact (left, right) key tr) = key"
  by (simp_all add: build_edge_def Let_def)

lemma build_edge_candidates:
  "candidate_ids (build_edge by_id r exact rel key tr) =
     (if is_ambiguous r exact rel \<and> \<not> tr then other_candidates r exact rel else [])"
  by (simp add: build_edge_def Let_def split: prod.split)

lemma build_edge_bytes:
  "\<not> tr \<Longrightarrow> total_bytes (candidate_ids (build_edge by_id r exact rel key tr)) = candidate_bytes r exact rel"
  "total_bytes (candidate_ids (build_edge by_id r exact rel key True)) = 0"
  by (simp_all add: build_edge_candidates candidate_bytes_def total_bytes_def)

lemma edge_of_input:
  "edge_relation (build_edge by_id r exact rel key tr) = input_relation (rel, keys, exact)"
  "edge_bytes (build_edge by_id r exact rel key tr)
     = estimated_bytes (build_edge by_id r exact rel key tr) (snd rel)"
  by (cases rel, simp add: edge_relation_def input_relation_def edge_bytes_def)+

lemma spend_candidates_fields:
  "out_edges (spend_candidates a t b out) = out_edges out"
  "edge_budget (spend_candidates a t b out) = edge_budget out"
  "edges_truncated (spend_candidates a t b out) = edges_truncated out"
  "candidate_budget (spend_candidates a t b out) =
     (if a \<and> \<not> t then candidate_budget out - b else candidate_budget out)"
  by (simp_all add: spend_candidates_def)

lemma output_ok_spend:
  assumes "output_ok by_id r xs out"
    "total_bytes (candidate_ids e) + candidate_budget out' \<le> candidate_budget out"
    "out_edges out' = out_edges out" "edge_budget out' = edge_budget out"
    "edges_truncated out' = edges_truncated out" "\<not> edges_truncated out"
    "edge_relation e = input_relation x" "bytes = edge_bytes e" "emitted by_id r (xs @ [x]) e"
  shows "output_ok by_id r (xs @ [x]) (push_edge e bytes out')"
proof -
  have pre: "map edge_relation (out_edges out) = map input_relation xs"
  proof -
    obtain zs where zs: "map input_relation xs = map edge_relation (out_edges out) @ zs"
        "length (out_edges out) = length xs"
      using assms by (auto simp: output_ok_def prefix_def)
    have "length (map input_relation xs) = length (map edge_relation (out_edges out) @ zs)"
      by (simp only: zs(1))
    then have "zs = []" using zs(2) by simp
    with zs show ?thesis by simp
  qed
  show ?thesis
    using assms pre by (auto simp: output_ok_def push_edge_def intro: emitted_snoc)
qed

lemma emit_edge_ok:
  assumes "output_ok by_id r xs out"
  shows "output_ok by_id r (xs @ [x]) (emit_edge by_id r x out)"
proof (cases "edges_truncated out")
  case True
  with assms show ?thesis
    by (auto simp: output_ok_def emit_edge_def intro: prefix_prefix emitted_snoc)
next
  case False
  obtain rel keys exact where x: "x = (rel, keys, exact)" by (metis surj_pair)
  let ?amb = "is_ambiguous r exact rel"
  let ?bytes = "candidate_bytes r exact rel"
  let ?tr = "?amb \<and> ?bytes > candidate_budget out"
  let ?e = "build_edge by_id r exact rel (hd keys) ?tr"
  have emit: "emit_edge by_id r x out =
      push_edge ?e (estimated_bytes ?e (snd rel)) (spend_candidates ?amb ?tr ?bytes out)"
    using False by (simp add: emit_edge_def x Let_def)
  have bytes: "total_bytes (candidate_ids ?e) + candidate_budget (spend_candidates ?amb ?tr ?bytes out)
      \<le> candidate_budget out"
  proof (cases ?tr)
    case True
    then show ?thesis by (simp add: spend_candidates_fields build_edge_bytes)
  next
    case False
    have "\<not> ?amb \<Longrightarrow> ?bytes = 0" by (simp add: candidate_bytes_def)
    moreover have "total_bytes (candidate_ids ?e) = ?bytes" using False by (rule build_edge_bytes)
    ultimately show ?thesis using False by (cases ?amb) (auto simp: spend_candidates_fields)
  qed
  have rel: "edge_relation ?e = input_relation x" "estimated_bytes ?e (snd rel) = edge_bytes ?e"
    unfolding x by (rule edge_of_input, rule edge_of_input(2) [symmetric])
  have em: "emitted by_id r (xs @ [x]) ?e"
    unfolding emitted_def by (intro bexI [of _ x] exI [of _ ?tr]) (simp_all add: x)
  show ?thesis
    unfolding emit
    by (rule output_ok_spend [OF assms bytes _ _ _ False rel em]) (simp_all add: spend_candidates_fields)
qed

lemma emit_edges_ok: "output_ok by_id r (edge_inputs r) (emit_edges by_id r)"
proof -
  have "output_ok by_id r xs (fold (emit_edge by_id r) xs
       \<lparr>out_edges = [], candidate_budget = max_candidate_bytes, edge_budget = max_edge_bytes,
        edges_truncated = False, out_gaps = gs\<rparr>)" for xs gs
    by (induction xs rule: rev_induct) (simp add: output_ok_def, simp add: emit_edge_ok)
  then show ?thesis by (simp add: emit_edges_def)
qed

subsection \<open>Budgets\<close>

lemma cap_gaps_le: "length (cap_gaps gaps) \<le> max_gaps"
  by (simp add: cap_gaps_def Let_def max_gaps_def)

text \<open>The observations correlation works on have distinct identifiers.\<close>

lemma disambiguate_distinct: "distinct (map origin_id (disambiguate obs))"
  using os_ok_distinct [OF os_ok_of, of "map origin_id obs"] by (simp add: disambiguate_ids)

lemma correlate_edges:
  "fst (correlate_observations obs) =
     out_edges (emit_edges (index_by_id (disambiguate obs)) (reduce_groups (disambiguate obs)))"
  by (simp add: correlate_observations_def ordered_id Let_def)

text \<open>C33. Correlation stays within every budget it announces, whatever the input: at most 25,000 edges,
  16 MiB of estimated edge output, 1 MiB of candidate identifiers in total, and 4,096 gaps, the
  truncation notice included.\<close>

theorem correlate_within_budgets:
  "length (fst (correlate_observations obs)) \<le> max_relations
   \<and> sum_list (map edge_bytes (fst (correlate_observations obs))) \<le> max_edge_bytes
   \<and> sum_list (map (\<lambda>e. total_bytes (candidate_ids e)) (fst (correlate_observations obs)))
       \<le> max_candidate_bytes
   \<and> length (snd (correlate_observations obs)) \<le> max_gaps"
proof -
  let ?obs = "disambiguate obs"
  let ?r = "reduce_groups ?obs"
  let ?out = "emit_edges (index_by_id ?obs) ?r"
  have out: "output_ok (index_by_id ?obs) ?r (edge_inputs ?r) ?out" by (rule emit_edges_ok)
  have "length (edge_inputs ?r) \<le> max_relations"
    using reduce_groups_ok [OF disambiguate_distinct, of obs]
    unfolding reducer_ok_def edge_inputs_def by simp
  moreover have "length (out_edges ?out) \<le> length (edge_inputs ?r)"
    using out by (auto simp: output_ok_def dest: prefix_length_le)
  moreover have "length (snd (correlate_observations obs)) \<le> max_gaps"
    by (simp add: correlate_observations_def Let_def cap_gaps_le)
  ultimately show ?thesis
    using out unfolding correlate_edges output_ok_def by simp
qed

subsection \<open>Soundness of the edges\<close>

text \<open>What an edge claims: the endpoints are two observations of one machine, in order, and both carry
  the key of the edge, as an exact identity with high or, among several counterparts, unknown
  confidence, or as a secondary identity with low confidence.\<close>

definition edge_sound :: "observation list \<Rightarrow> correlation_edge \<Rightarrow> bool" where
  "edge_sound obs e \<longleftrightarrow>
     (case to_id e of
        None \<Rightarrow> False
      | Some right \<Rightarrow>
          (case strength e of
             Exact \<Rightarrow> shares_exact obs (from_id e, right) (edge_key e) \<and> confidence e = High
           | Ambiguous \<Rightarrow>
               shares_exact obs (from_id e, right) (edge_key e) \<and> confidence e = UnknownConfidence
           | Candidate \<Rightarrow>
               shares_secondary obs (from_id e, right) (edge_key e) \<and> confidence e = Low))"

lemma build_edge_strength:
  "strength (build_edge by_id r exact rel key tr) =
     edge_strength (is_ambiguous r exact rel) exact"
  "confidence (build_edge by_id r exact rel key tr) =
     strength_confidence (strength (build_edge by_id r exact rel key tr))"
  by (simp_all add: build_edge_def Let_def split: prod.split)

lemma built_edge_sound:
  assumes "reducer_ok obs r" "(rel, keys, exact) \<in> set (edge_inputs r)"
  shows "edge_sound obs (build_edge by_id r exact rel (hd keys) tr)"
proof -
  obtain left right where rel: "rel = (left, right)" by fastforce
  have "if exact then keys \<noteq> [] \<and> (\<forall>k \<in> set keys. shares_exact obs rel k)
      else keys \<noteq> [] \<and> (\<forall>k \<in> set keys. shares_secondary obs rel k)"
    using assms by (fastforce simp: reducer_ok_def edge_inputs_def)
  then have "if exact then shares_exact obs rel (hd keys) else shares_secondary obs rel (hd keys)"
    by (cases exact) auto
  then show ?thesis
    by (auto simp: rel edge_sound_def build_edge_strength edge_strength_def is_ambiguous_def)
qed

text \<open>C12. Every edge is backed by evidence: its endpoints are distinct observations of the same known
  machine that both carry its key, and its strength and confidence say which kind of identity that
  is. No edge rests on a missing machine, a timestamp or a key of one side only.\<close>

theorem correlate_edges_sound:
  "list_all (edge_sound (disambiguate obs)) (fst (correlate_observations obs))"
proof -
  let ?obs = "disambiguate obs"
  let ?r = "reduce_groups ?obs"
  have "output_ok (index_by_id ?obs) ?r (edge_inputs ?r) (emit_edges (index_by_id ?obs) ?r)"
    by (rule emit_edges_ok)
  moreover have "edge_sound ?obs e" if e: "emitted (index_by_id ?obs) ?r (edge_inputs ?r) e" for e
  proof -
    obtain rel keys exact tr where x: "(rel, keys, exact) \<in> set (edge_inputs ?r)"
        "e = build_edge (index_by_id ?obs) ?r exact rel (hd keys) tr"
      using e by (auto simp: emitted_def)
    then show ?thesis
      using built_edge_sound [OF reduce_groups_ok [OF disambiguate_distinct] x(1)] by simp
  qed
  ultimately show ?thesis by (simp add: list_all_iff correlate_edges output_ok_def)
qed

subsection \<open>Exact edges\<close>

definition endpoints :: "correlation_edge \<Rightarrow> string set" where
  "endpoints e = insert (from_id e) (set_option (to_id e))"

text \<open>An exact edge is the only edge at either of its endpoints.\<close>

definition exact_exclusive :: "correlation_edge list \<Rightarrow> bool" where
  "exact_exclusive es \<longleftrightarrow>
     distinct (map edge_relation es)
     \<and> (\<forall>e \<in> set es. \<forall>e' \<in> set es. strength e = Exact \<and> e' \<noteq> e \<longrightarrow> endpoints e \<inter> endpoints e' = {})"

lemma om_keys_distinct: "om_ok m \<Longrightarrow> distinct (map fst m)"
  by (simp add: om_ok_def strict_sorted_iff)

lemma relation_candidates:
  assumes "reducer_ok obs r" "(left, right) \<in> fst ` set (relation_keys r)"
  shows "right \<in> set (ids_of (exact_candidates r) left)" "left \<in> set (ids_of (exact_candidates r) right)"
    "left < right"
proof -
  have "j \<in> set (ids_of (exact_candidates r) i) \<longleftrightarrow>
      (i, j) \<in> fst ` set (relation_keys r) \<or> (j, i) \<in> fst ` set (relation_keys r)" for i j
    using assms(1) unfolding reducer_ok_def by blast
  then show "right \<in> set (ids_of (exact_candidates r) left)"
    "left \<in> set (ids_of (exact_candidates r) right)"
    using assms(2) by blast+
  obtain keys where k: "((left, right), keys) \<in> set (relation_keys r)" using assms(2) by auto
  then have "keys \<noteq> []" "\<forall>k \<in> set keys. shares_exact obs (left, right) k"
    using assms(1) unfolding reducer_ok_def by blast+
  then show "left < right" by (cases keys) (auto simp: shares_exact_def)
qed

lemma candidate_relation_free:
  assumes "reducer_ok obs r" "(left, right) \<in> fst ` set (candidate_relations r)"
  shows "ids_of (exact_candidates r) left = []" "ids_of (exact_candidates r) right = []"
  using assms unfolding reducer_ok_def by (fastforce simp: has_exact_ids)+

lemma edge_inputs_distinct:
  assumes ok: "reducer_ok obs r"
  shows "distinct (map input_relation (edge_inputs r))"
proof -
  have inj: "inj (\<lambda>rel. (fst rel, Some (snd rel)))" by (auto intro: injI)
  have "fst ` set (relation_keys r) \<inter> fst ` set (candidate_relations r) = {}"
  proof -
    have "rel \<notin> fst ` set (candidate_relations r)" if "rel \<in> fst ` set (relation_keys r)" for rel
    proof
      assume "rel \<in> fst ` set (candidate_relations r)"
      then have "ids_of (exact_candidates r) (fst rel) = []"
        using candidate_relation_free(1) [OF ok, of "fst rel" "snd rel"] by simp
      then show False
        using relation_candidates(1) [OF ok, of "fst rel" "snd rel"] that by simp
    qed
    then show ?thesis by blast
  qed
  then have "distinct (map fst (relation_keys r) @ map fst (candidate_relations r))"
    using ok by (simp add: reducer_ok_def om_keys_distinct)
  then have "distinct (map (\<lambda>rel. (fst rel, Some (snd rel)))
      (map fst (relation_keys r) @ map fst (candidate_relations r)))"
    unfolding distinct_map by (blast intro: inj_on_subset [OF inj])
  moreover have "map input_relation (edge_inputs r) = map (\<lambda>rel. (fst rel, Some (snd rel)))
      (map fst (relation_keys r) @ map fst (candidate_relations r))"
    by (auto simp: edge_inputs_def input_relation_def comp_def)
  ultimately show ?thesis by simp
qed

lemma exact_edge_counterparts:
  assumes "strength (build_edge by_id r exact (left, right) key tr) = Exact"
  shows "exact" "set (ids_of (exact_candidates r) left) \<subseteq> {left, right}"
    "set (ids_of (exact_candidates r) right) \<subseteq> {left, right}"
proof -
  have "exact \<and> \<not> is_ambiguous r exact (left, right)"
    using assms by (simp add: build_edge_strength edge_strength_def split: if_splits)
  then have e: exact and c: "conflicting (left, right) (edge_candidates r True (left, right)) = []"
    by (auto simp: is_ambiguous_def)
  then show exact by simp
  show "set (ids_of (exact_candidates r) left) \<subseteq> {left, right}"
    "set (ids_of (exact_candidates r) right) \<subseteq> {left, right}"
    using c by (auto simp: conflicting_def edge_candidates_def filter_empty_conv)
qed

lemma exact_edges_meet:
  assumes ok: "reducer_ok obs r"
    and x: "((left, right), keys, exact) \<in> set (edge_inputs r)"
    and y: "((left', right'), keys', exact') \<in> set (edge_inputs r)"
    and s: "strength (build_edge by_id r exact (left, right) key tr) = Exact"
    and meet: "{left, right} \<inter> {left', right'} \<noteq> {}"
  shows "left' = left \<and> right' = right"
proof -
  note cps = exact_edge_counterparts [OF s]
  have rel: "(left, right) \<in> fst ` set (relation_keys r)"
    using x cps(1) by (force simp: edge_inputs_def)
  note rc = relation_candidates [OF ok rel]
  show ?thesis
  proof (cases exact')
    case True
    then have rel': "(left', right') \<in> fst ` set (relation_keys r)"
      using y by (force simp: edge_inputs_def)
    note rc' = relation_candidates [OF ok rel']
    show ?thesis using meet cps(2,3) rc rc' by auto
  next
    case False
    then have "(left', right') \<in> fst ` set (candidate_relations r)"
      using y by (force simp: edge_inputs_def)
    from candidate_relation_free [OF ok this] show ?thesis using meet rc by auto
  qed
qed

text \<open>C2. An exact edge names a unique counterpart: no other edge, exact, ambiguous or candidate,
  touches either of its endpoints, and no two edges join the same pair.\<close>

theorem exact_edges_exclusive:
  "exact_exclusive (fst (correlate_observations obs))"
proof -
  let ?obs = "disambiguate obs"
  let ?r = "reduce_groups ?obs"
  let ?ix = "index_by_id ?obs"
  let ?es = "out_edges (emit_edges ?ix ?r)"
  have ok: "reducer_ok ?obs ?r" by (rule reduce_groups_ok [OF disambiguate_distinct])
  have out: "output_ok ?ix ?r (edge_inputs ?r) (emit_edges ?ix ?r)" by (rule emit_edges_ok)
  then obtain zs where "map input_relation (edge_inputs ?r) = map edge_relation ?es @ zs"
    by (auto simp: output_ok_def prefix_def)
  then have d: "distinct (map edge_relation ?es)"
    using edge_inputs_distinct [OF ok] by simp
  have "endpoints e \<inter> endpoints e' = {}"
    if e: "e \<in> set ?es" and e': "e' \<in> set ?es" and s: "strength e = Exact" and neq: "e' \<noteq> e" for e e'
  proof (rule ccontr)
    assume meet: "endpoints e \<inter> endpoints e' \<noteq> {}"
    obtain left right keys exact tr where x: "((left, right), keys, exact) \<in> set (edge_inputs ?r)"
        "e = build_edge ?ix ?r exact (left, right) (hd keys) tr"
      using out e by (fastforce simp: output_ok_def emitted_def)
    obtain left' right' keys' exact' tr' where
        y: "((left', right'), keys', exact') \<in> set (edge_inputs ?r)"
        "e' = build_edge ?ix ?r exact' (left', right') (hd keys') tr'"
      using out e' by (fastforce simp: output_ok_def emitted_def)
    have "{left, right} \<inter> {left', right'} \<noteq> {}"
      using meet x(2) y(2) by (auto simp: endpoints_def)
    then have "left' = left \<and> right' = right"
      using exact_edges_meet [OF ok x(1) y(1), of ?ix "hd keys" tr] s x(2) by simp
    then have "edge_relation e' = edge_relation e" by (simp add: x(2) y(2) edge_relation_def)
    then show False using d e e' neq by (auto simp: distinct_map dest: inj_onD)
  qed
  then show ?thesis using d by (auto simp: exact_exclusive_def correlate_edges)
qed

end
