(* ===== verification/CorrelationGaps.thy ===== *)
theory CorrelationGaps
  imports CorrelationSound
begin

text \<open>
  Every gap the correlation of origins reports is recognised by \<open>coverage_state\<close>: the producers'
  texts and the classifier of \<open>Correlation\<close> agree.
\<close>

subsection \<open>Recognised reasons\<close>

definition classified :: "string \<Rightarrow> bool" where
  "classified reason \<longleftrightarrow> coverage_state reason \<noteq> Unsupported"

definition known_reasons :: "string list" where
  "known_reasons =
     [''no explicit identity keys were present; timestamp-only correlation is not causal'',
      ''only secondary identity was present; correlation remains low confidence'',
      ''machine identity unavailable; exact correlation is restricted'',
      ''process start identity was unavailable for a nonzero process id'',
      ''process start identity requires a nonzero process id'']"

definition known_prefixes :: "string list" where
  "known_prefixes =
     [''conflicting explicit identity aliases for '',
      ''multiple exact identity candidates remain: '',
      ''duplicate origin identity coalesced from '',
      ''process start identity was present but its timestamp was invalid'',
      ''coverage gap limit reached;'', ''correlation input limit reached;'',
      ''timeline message preview budget reached;'',
      ''correlation candidate output budget reached;'',
      ''correlation edge output budget reached;'']"

lemma if_Unsupported:
  "((if b then x else y) \<noteq> Unsupported) \<longleftrightarrow> (b \<and> x \<noteq> Unsupported) \<or> (\<not> b \<and> y \<noteq> Unsupported)"
  by simp

lemma coverage_state_Unsupported_iff:
  "coverage_state reason \<noteq> Unsupported \<longleftrightarrow>
     ascii_lower reason \<in> set known_reasons
     \<or> (\<exists>p \<in> set known_prefixes. prefix p (ascii_lower reason))
     \<or> (prefix ''correlation relation budget'' (ascii_lower reason)
        \<and> suffix '' was reached'' (ascii_lower reason))
     \<or> group_limit_reason (ascii_lower reason)"
  unfolding coverage_state_def Let_def known_reasons_def known_prefixes_def list.set
    bex_simps insert_iff empty_iff
  by (simp only: if_Unsupported coverage_state.distinct not_False_eq_True simp_thms) argo

lemma ascii_lower_prefix: "ascii_lower p = p \<Longrightarrow> prefix p (ascii_lower (p @ s))"
  by simp

lemma classified_prefix:
  "p \<in> set known_prefixes \<Longrightarrow> ascii_lower p = p \<Longrightarrow> classified (p @ s)"
  unfolding classified_def coverage_state_Unsupported_iff using ascii_lower_prefix by blast

lemma classified_known: "reason \<in> set known_reasons \<Longrightarrow> ascii_lower reason = reason \<Longrightarrow> classified reason"
  unfolding classified_def coverage_state_Unsupported_iff by simp

lemma known_lower: "list_all (\<lambda>p. ascii_lower p = p) (known_reasons @ known_prefixes)"
  by code_simp

lemma known_lowerD:
  "p \<in> set known_prefixes \<Longrightarrow> ascii_lower p = p" "r \<in> set known_reasons \<Longrightarrow> ascii_lower r = r"
  using known_lower by (auto simp: list_all_iff)

lemma classified_prefixI: "p \<in> set known_prefixes \<Longrightarrow> classified (p @ s)"
  by (simp add: classified_prefix known_lowerD)

lemma classified_knownI: "r \<in> set known_reasons \<Longrightarrow> classified r"
  by (simp add: classified_known known_lowerD)

lemma classified_start:
  "classified ''process start identity requires a nonzero process id''"
  "classified ''process start identity was present but its timestamp was invalid''"
proof -
  show "classified ''process start identity requires a nonzero process id''"
    by (rule classified_knownI) (simp add: known_reasons_def)
  have "classified (''process start identity was present but its timestamp was invalid'' @ [])"
    by (rule classified_prefixI) (simp only: known_prefixes_def list.set insert_iff simp_thms)
  then show "classified ''process start identity was present but its timestamp was invalid''"
    by simp
qed

lemma classified_observed:
  "classified ''machine identity unavailable; exact correlation is restricted''"
  "classified ''only secondary identity was present; correlation remains low confidence''"
  by (rule classified_knownI, simp add: known_reasons_def)+

lemma classified_conflict: "classified (''conflicting explicit identity aliases for '' @ field)"
  by (rule classified_prefixI) (simp only: known_prefixes_def list.set insert_iff simp_thms)

lemma classified_duplicate: "classified (''duplicate origin identity coalesced from '' @ s)"
  by (rule classified_prefixI) (simp only: known_prefixes_def list.set insert_iff simp_thms)

lemma classified_gap_limit: "classified (''coverage gap limit reached; '' @ s)"
proof -
  have "classified (''coverage gap limit reached;'' @ '' '' @ s)"
    by (rule classified_prefixI) (simp only: known_prefixes_def list.set insert_iff simp_thms)
  then show ?thesis by simp
qed

lemma classified_budgets: "classified candidate_budget_reason" "classified edge_budget_reason"
proof -
  have "classified (''correlation candidate output budget reached;'' @ '' candidate IDs omitted'')"
    by (rule classified_prefixI) (simp only: known_prefixes_def list.set insert_iff simp_thms)
  then show "classified candidate_budget_reason" by (simp add: candidate_budget_reason_def)
  have "classified (''correlation edge output budget reached;'' @ '' additional edges omitted'')"
    by (rule classified_prefixI) (simp only: known_prefixes_def list.set insert_iff simp_thms)
  then show "classified edge_budget_reason" by (simp add: edge_budget_reason_def)
qed

lemma lower_digit: "is_digit c \<Longrightarrow> lower_char c = c"
  by (auto simp: is_digit_def lower_char_def)

lemma ascii_lower_dec [simp]: "ascii_lower (dec n) = dec n"
  unfolding ascii_lower_def by (rule map_idI) (simp add: lower_digit dec_digits)

lemma lower_literals:
  "ascii_lower ''correlation relation budget of '' = ''correlation relation budget of ''"
  "ascii_lower '' was reached'' = '' was reached''"
  "ascii_lower ''exact '' = ''exact ''"
  "ascii_lower '' identity group exceeds the '' = '' identity group exceeds the ''"
  "ascii_lower ''-member correlation limit'' = ''-member correlation limit''"
  "ascii_lower ''secondary identity group exceeds the ''
     = ''secondary'' @ '' identity group exceeds the ''"
  by code_simp+

lemma classified_relation_budget: "classified relation_budget_reason"
proof -
  have "ascii_lower relation_budget_reason =
      ''correlation relation budget'' @ '' of '' @ dec max_relations @ '' was reached''"
    by (simp only: relation_budget_reason_def ascii_lower_append lower_literals ascii_lower_dec) simp
  then have "prefix ''correlation relation budget'' (ascii_lower relation_budget_reason)
      \<and> suffix '' was reached'' (ascii_lower relation_budget_reason)"
    by (simp only: prefixI suffixI append_assoc [symmetric] simp_thms) (auto simp: prefix_def suffix_def)
  then show ?thesis unfolding classified_def coverage_state_Unsupported_iff by blast
qed

lemma str_containsI: "str_contains (u @ p @ v) p"
  unfolding str_contains_def sublist_def by blast

lemma limit_suffix: "suffix '' correlation limit'' (u @ ''-member correlation limit'')"
  by (rule suffixI [of _ "u @ ''-member''"]) simp

lemma classified_exact_limit: "classified (exact_limit_reason kind)"
proof -
  have l: "ascii_lower (exact_limit_reason kind) =
      (''exact '' @ ascii_lower (kind_debug kind)) @ '' identity group exceeds the ''
      @ dec max_group_members @ ''-member correlation limit''"
    by (simp only: exact_limit_reason_def ascii_lower_append lower_literals ascii_lower_dec append_assoc)
  have "prefix ''exact '' (ascii_lower (exact_limit_reason kind))"
    unfolding l append_assoc by (rule prefixI) (rule refl)
  moreover have "str_contains (ascii_lower (exact_limit_reason kind)) '' identity group exceeds the ''"
    unfolding l by (rule str_containsI)
  moreover have "suffix '' correlation limit'' (ascii_lower (exact_limit_reason kind))"
    unfolding l append_assoc [symmetric] by (rule limit_suffix)
  ultimately show ?thesis
    unfolding classified_def coverage_state_Unsupported_iff group_limit_reason_def by blast
qed

lemma classified_secondary_limit: "classified secondary_limit_reason"
proof -
  have l: "ascii_lower secondary_limit_reason =
      ''secondary'' @ '' identity group exceeds the '' @ dec max_group_members
      @ ''-member correlation limit''"
    by (simp only: secondary_limit_reason_def ascii_lower_append lower_literals ascii_lower_dec
        append_assoc)
  have "prefix ''secondary '' (ascii_lower secondary_limit_reason)"
    unfolding l by simp
  moreover have "str_contains (ascii_lower secondary_limit_reason) '' identity group exceeds the ''"
    unfolding l by (rule str_containsI)
  moreover have "suffix '' correlation limit'' (ascii_lower secondary_limit_reason)"
    unfolding l append_assoc [symmetric] by (rule limit_suffix)
  ultimately show ?thesis
    unfolding classified_def coverage_state_Unsupported_iff group_limit_reason_def by blast
qed

lemmas classified_produced =
  classified_start classified_observed classified_conflict classified_duplicate classified_budgets
  classified_relation_budget classified_exact_limit classified_secondary_limit

subsection \<open>Produced reasons\<close>

definition pairs_classified :: "(string \<times> string) list \<Rightarrow> bool" where
  "pairs_classified gaps \<longleftrightarrow> (\<forall>p \<in> set gaps. classified (snd p))"

lemma pairs_classified_insert [simp]:
  "pairs_classified (os_insert p gaps) \<longleftrightarrow> classified (snd p) \<and> pairs_classified gaps"
  by (auto simp: pairs_classified_def)

lemma pairs_classified_extend [simp]:
  "pairs_classified (os_extend gaps ps) \<longleftrightarrow> pairs_classified gaps \<and> pairs_classified ps"
  by (auto simp: pairs_classified_def)

lemma pairs_classified_add_gaps:
  "classified reason \<Longrightarrow> pairs_classified (fanout_gaps r) \<Longrightarrow>
     pairs_classified (fanout_gaps (add_gaps ids reason r))"
proof -
  assume h: "classified reason" "pairs_classified (fanout_gaps r)"
  have "pairs_classified (fold (\<lambda>i. os_insert (i, reason)) ids gaps)" if "pairs_classified gaps" for gaps
    using that h(1) by (induction ids arbitrary: gaps) auto
  with h show ?thesis by (simp add: add_gaps_def)
qed

lemma exact_pairs_gaps:
  "exact_pairs by_id kind val rels r = (t, r') \<Longrightarrow> fanout_gaps r' = fanout_gaps r"
proof (induction rels arbitrary: r)
  case (Cons rel rels)
  have "fanout_gaps (relate_exact by_id kind val rel r) = fanout_gaps r"
    by (cases rel) (simp add: relate_exact_def)
  with Cons show ?case by (auto split: if_splits)
qed simp

lemma secondary_pairs_gaps:
  "secondary_pairs mc val rels r = (t, r') \<Longrightarrow> fanout_gaps r' = fanout_gaps r"
proof (induction mc val rels r rule: secondary_pairs.induct)
  case (2 mc val left right rels r)
  have "fanout_gaps (relate_secondary mc val (left, right) r) = fanout_gaps r"
    by (simp add: relate_secondary_def)
  with 2 show ?case by (auto split: if_splits)
qed simp

lemma exact_group_gaps:
  assumes "pairs_classified (fanout_gaps r)"
  shows "pairs_classified (fanout_gaps (exact_group by_id grp r))"
proof -
  obtain mc kind val ids where g: "grp = ((mc, kind, val), ids)" by (metis surj_pair)
  obtain t r' where r': "exact_pairs by_id kind val (pairs_of ids) r = (t, r')" by fastforce
  show ?thesis
    using assms exact_pairs_gaps [OF r']
    by (simp add: exact_group_def g r' pairs_classified_add_gaps classified_produced)
qed

lemma secondary_group_gaps:
  assumes "pairs_classified (fanout_gaps r)"
  shows "pairs_classified (fanout_gaps (secondary_group grp r))"
proof -
  obtain mc val ids where g: "grp = ((mc, val), ids)" by (metis surj_pair)
  obtain t r' where r': "secondary_pairs mc val (pairs_of ids) r = (t, r')" by fastforce
  show ?thesis
    using assms secondary_pairs_gaps [OF r']
    by (simp add: secondary_group_def g r' pairs_classified_add_gaps classified_produced)
qed

lemma reduce_groups_gaps: "pairs_classified (fanout_gaps (reduce_groups obs))"
proof -
  have e: "pairs_classified (fanout_gaps (fold (exact_group ix) gs r))"
    if "pairs_classified (fanout_gaps r)" for ix gs r
    using that by (induction gs arbitrary: r) (simp_all add: exact_group_gaps)
  have s: "pairs_classified (fanout_gaps (fold secondary_group gs r))"
    if "pairs_classified (fanout_gaps r)" for gs r
    using that by (induction gs arbitrary: r) (simp_all add: secondary_group_gaps)
  show ?thesis
    unfolding reduce_groups_def Let_def
    by (rule s, rule e) (simp add: initial_reducer_def pairs_classified_def)
qed

lemma emit_edge_gaps:
  "pairs_classified (out_gaps out) \<Longrightarrow> pairs_classified (out_gaps (emit_edge by_id r x out))"
  by (cases x) (simp add: emit_edge_def Let_def push_edge_def spend_candidates_def classified_produced)

lemma emit_edges_gaps:
  "pairs_classified (fanout_gaps r) \<Longrightarrow> pairs_classified (out_gaps (emit_edges by_id r))"
proof -
  have "pairs_classified (out_gaps (fold (emit_edge by_id r) xs out))"
    if "pairs_classified (out_gaps out)" for xs out
    using that by (induction xs arbitrary: out) (simp_all add: emit_edge_gaps)
  then show "pairs_classified (fanout_gaps r) \<Longrightarrow> ?thesis" by (simp add: emit_edges_def)
qed

definition gaps_classified :: "coverage_gap list \<Rightarrow> bool" where
  "gaps_classified gaps \<longleftrightarrow> list_all (\<lambda>g. classified (gap_reason g)) gaps"

lemma observation_gaps_classified:
  "gaps_classified (obs_gaps ob) \<Longrightarrow> pairs_classified gaps \<Longrightarrow>
     pairs_classified (observation_gaps ob gaps)"
  by (simp add: observation_gaps_def Let_def classified_produced)
    (auto simp: gaps_classified_def pairs_classified_def list_all_iff)

lemma cap_gaps_classified: "pairs_classified gaps \<Longrightarrow> gaps_classified (cap_gaps gaps)"
  using classified_gap_limit
  by (auto simp: cap_gaps_def Let_def gaps_classified_def pairs_classified_def list_all_iff
      dest!: in_set_takeD)

lemma coalesced_gaps:
  assumes "\<And>ob. ob \<in> set obs \<Longrightarrow> gaps_classified (obs_gaps ob)"
  shows "gaps_classified (obs_gaps (coalesced i obs))"
  using assms by (auto simp: coalesced_def Let_def gaps_classified_def list_all_iff
      classified_duplicate [simplified])

lemma correlate_gaps_classified:
  assumes "\<And>ob. ob \<in> set obs \<Longrightarrow> gaps_classified (obs_gaps ob)"
  shows "gaps_classified (snd (correlate_observations obs))"
proof -
  let ?obs = "disambiguate obs"
  have "gaps_classified (obs_gaps ob)" if "ob \<in> set ?obs" for ob
    using that assms by (auto simp: disambiguate_coalesced group_of_def intro!: coalesced_gaps)
  moreover have "pairs_classified (fold observation_gaps xs gaps)"
    if "\<And>ob. ob \<in> set xs \<Longrightarrow> gaps_classified (obs_gaps ob)" "pairs_classified gaps" for xs gaps
    using that by (induction xs arbitrary: gaps) (simp_all add: observation_gaps_classified)
  ultimately have "pairs_classified (fold observation_gaps ?obs
      (out_gaps (emit_edges (index_by_id ?obs) (reduce_groups ?obs))))"
    using emit_edges_gaps reduce_groups_gaps by blast
  then show ?thesis
    by (simp add: correlate_observations_def ordered_id Let_def cap_gaps_classified)
qed

lemma origin_gaps_classified: "gaps_classified (obs_gaps (observation_from_origin ch orig))"
proof (cases orig)
  case (Event e)
  have "gaps_classified (snd (process_start_key ch e))"
    by (simp add: process_start_key_def gaps_classified_def classified_start split: option.split)
  then show ?thesis
    by (cases "process_start_key ch e")
      (auto simp: observation_from_origin_def Event Let_def gaps_classified_def list_all_iff
        classified_conflict [simplified])
qed (simp add: observation_from_origin_def gaps_classified_def)

text \<open>C32. Every gap that correlating a set of origins reports, whichever budget, conflict, missing
  machine or unreadable process start it comes from, is recognised by the classifier: no reason the
  producer writes falls through to the unsupported state.\<close>

theorem correlation_gaps_are_classified:
  "list_all (\<lambda>g. coverage_state (gap_reason g) \<noteq> Unsupported) (snd (correlate_origins ch origs))"
proof -
  have "gaps_classified (snd (correlate_origins ch origs))"
    unfolding correlate_origins_def
    by (rule correlate_gaps_classified) (auto simp: origin_gaps_classified)
  then show ?thesis by (simp add: gaps_classified_def classified_def)
qed

subsection \<open>A sentinel that is not recognised\<close>

text \<open>
  The normalisation trims white space once, before it removes the final dots: a sentinel followed by
  a space and a dot is taken for a host name, although the documentation of
  \<open>normalize_machine_identity\<close> excludes sentinels. Normalising again recognises it, which is what
  \<open>correlate_observations\<close> does.
\<close>

lemma sentinel_before_dot:
  "normalize_machine_identity (Some ''unknown .'') = Some ''unknown ''
   \<and> normalize_machine_identity (normalize_machine_identity (Some ''unknown .'')) = None"
  by code_simp

end
