(* ===== verification/Firewall.thy ===== *)
theory Firewall
  imports TimelineModel
begin

text \<open>
  Windows Firewall logs: the record model of \<open>models/firewall.rs\<close>, the directives, the format probe and
  the record grammar of \<open>parser/windows_firewall.rs\<close>, and the physical-line stream of
  \<open>parser/firewall_stream.rs\<close> (all under \<open>crates/cmtraceopen-parser/src\<close>). A text pushed to the stream
  is the list of its characters, each by its UTF-8 bytes; the capacity of the pending buffer is not
  modelled, its length is. Counts are natural numbers with the saturation written out. Parsing a date
  with chrono and an address with the standard library are parameters.
\<close>

subsection \<open>Records and coverage\<close>

datatype schema_origin = Header | Canonical | Unavailable

datatype time_basis = LocalTime | UtcTime | UnknownTime

datatype record_kind = Traffic | EventsLost | MalformedRecord

record firewall_field =
  field_name :: string
  field_value :: "string option"

record firewall_record =
  raw_line :: string
  rec_declared :: "string list"
  rec_fields :: "firewall_field list"
  rec_origin :: schema_origin
  rec_time_basis :: time_basis
  rec_kind :: record_kind
  truncated :: bool

text \<open>\<open>FirewallRecord::field\<close>\<close>

definition field_of :: "firewall_record \<Rightarrow> string \<Rightarrow> string option" where
  "field_of r nm =
     Option.bind (List.find (\<lambda>f. eq_ignore_case (field_name f) nm) (rec_fields r)) field_value"

definition max_samples :: nat where "max_samples = 8"

record metric =
  metric_count :: nat
  metric_lines :: "u32 list"

definition no_metric :: metric where "no_metric = \<lparr>metric_count = 0, metric_lines = []\<rparr>"

definition sample :: "u32 \<Rightarrow> u32 list \<Rightarrow> u32 list" where
  "sample line ls = (if length ls < max_samples \<and> line \<notin> set ls then ls @ [line] else ls)"

definition metric_add :: "nat \<Rightarrow> u32 \<Rightarrow> metric \<Rightarrow> metric" where
  "metric_add n line m =
     \<lparr>metric_count = sat_add64 (metric_count m) n,
      metric_lines = (if n > 0 then sample line (metric_lines m) else metric_lines m)\<rparr>"

definition metric_merge :: "metric \<Rightarrow> metric \<Rightarrow> metric" where
  "metric_merge m other =
     \<lparr>metric_count = sat_add64 (metric_count m) (metric_count other),
      metric_lines = fold sample (metric_lines other) (metric_lines m)\<rparr>"

record coverage =
  padding :: metric
  malformed :: metric
  oversized :: metric
  loss_events :: metric
  lost_events :: metric
  unknown_loss_count :: metric
  unplaced_timestamps :: metric

definition no_coverage :: coverage where
  "no_coverage =
     \<lparr>padding = no_metric, malformed = no_metric, oversized = no_metric, loss_events = no_metric,
      lost_events = no_metric, unknown_loss_count = no_metric, unplaced_timestamps = no_metric\<rparr>"

definition coverage_merge :: "coverage \<Rightarrow> coverage \<Rightarrow> coverage" where
  "coverage_merge c other =
     \<lparr>padding = metric_merge (padding c) (padding other),
      malformed = metric_merge (malformed c) (malformed other),
      oversized = metric_merge (oversized c) (oversized other),
      loss_events = metric_merge (loss_events c) (loss_events other),
      lost_events = metric_merge (lost_events c) (lost_events other),
      unknown_loss_count = metric_merge (unknown_loss_count c) (unknown_loss_count other),
      unplaced_timestamps = metric_merge (unplaced_timestamps c) (unplaced_timestamps other)\<rparr>"

definition parse_errors :: "coverage \<Rightarrow> nat" where
  "parse_errors c = min (sat_add64 (metric_count (malformed c)) (metric_count (oversized c))) u32_max"

subsection \<open>White-space tokens\<close>

fun token_len :: "string \<Rightarrow> nat" where
  "token_len [] = 0"
| "token_len (c # s) = (if ws_len (c # s) \<noteq> 0 then 0 else Suc (token_len s))"

lemma token_len_pos: "s \<noteq> [] \<Longrightarrow> ws_len s = 0 \<Longrightarrow> 0 < token_len s"
  by (cases s) auto

function split_ws :: "string \<Rightarrow> string list" where
  "split_ws s =
     (let t = trim_start s in
      if t = [] then [] else take (token_len t) t # split_ws (drop (token_len t) t))"
  by pat_completeness auto
termination
proof (relation "measure length")
  fix s t :: string
  assume "t = trim_start s" "t \<noteq> []"
  then have "0 < token_len t" "length t \<le> length s"
    using suffix_length_le [OF trim_start_suffix [of s]] by (auto intro: token_len_pos)
  then show "(drop (token_len t) t, s) \<in> measure length"
    using \<open>t \<noteq> []\<close> by (simp add: length_greater_0_conv [symmetric] del: length_greater_0_conv)
qed simp

declare split_ws.simps [simp del]

subsection \<open>Directives\<close>

definition max_line_bytes :: nat where "max_line_bytes = 65536"
definition max_probe_lines :: nat where "max_probe_lines = 128"

definition canonical_fields :: "string list" where
  "canonical_fields =
     [''date'', ''time'', ''action'', ''protocol'', ''src-ip'', ''dst-ip'', ''src-port'',
      ''dst-port'', ''size'', ''tcpflags'', ''tcpsyn'', ''tcpack'', ''tcpwin'', ''icmptype'',
      ''icmpcode'', ''info'', ''path'', ''pid'']"

record fw_context =
  declared_fields :: "string list option"
  ctx_time_basis :: time_basis
  rejected_fields :: "string list"

definition default_context :: fw_context where
  "default_context =
     \<lparr>declared_fields = None, ctx_time_basis = UnknownTime, rejected_fields = []\<rparr>"

definition is_alpha :: "char \<Rightarrow> bool" where
  "is_alpha c \<longleftrightarrow> (let n = of_char (lower_char c) :: nat in 97 \<le> n \<and> n \<le> 122)"

definition field_name_ok :: "string \<Rightarrow> bool" where
  "field_name_ok f \<longleftrightarrow>
     list_all (\<lambda>c. is_alpha c \<or> is_digit c \<or> c = CHR ''-'' \<or> c = CHR ''_'') f"

fun fields_ok :: "string list \<Rightarrow> string list \<Rightarrow> bool" where
  "fields_ok seen [] \<longleftrightarrow> True"
| "fields_ok seen (f # fs) \<longleftrightarrow>
     field_name_ok f \<and> ascii_lower f \<notin> set seen \<and> fields_ok (ascii_lower f # seen) fs"

definition fields_directive :: "string \<Rightarrow> string \<Rightarrow> fw_context \<Rightarrow> fw_context" where
  "fields_directive line v c =
     (let c = c\<lparr>declared_fields := None, rejected_fields := []\<rparr> in
      if length line > max_line_bytes then c
      else
        (let fs = split_ws v in
         if fs \<noteq> [] \<and> fields_ok [] fs then c\<lparr>declared_fields := Some fs\<rparr>
         else c\<lparr>rejected_fields := fs\<rparr>))"

definition basis_of :: "string \<Rightarrow> time_basis" where
  "basis_of v =
     (if eq_ignore_case v ''Local'' then LocalTime
      else if eq_ignore_case v ''UTC'' then UtcTime
      else UnknownTime)"

definition directive :: "string \<Rightarrow> fw_context \<Rightarrow> bool \<times> fw_context" where
  "directive line c =
     (let line = str_trim line in
      if \<not> prefix ''#'' line then (False, c)
      else
        (True,
         case split_once (CHR '':'') (tl line) of
           None \<Rightarrow> c
         | Some (nm, v) \<Rightarrow>
             let v = str_trim v in
             if eq_ignore_case nm ''Software'' then default_context
             else if eq_ignore_case nm ''Time Format'' then c\<lparr>ctx_time_basis := basis_of v\<rparr>
             else if eq_ignore_case nm ''Fields'' then fields_directive line v c
             else c))"

subsection \<open>The record grammar\<close>

text \<open>\<open>parse_datetime\<close> is chrono's parser of \<open>%Y-%m-%d %H:%M:%S\<close> with the result as UTC milliseconds;
  \<open>is_ip\<close> is the standard library's parser of addresses.\<close>

record fw_env =
  parse_datetime :: "string \<Rightarrow> int option"
  is_ip :: "string \<Rightarrow> bool"

definition stamp :: "fw_env \<Rightarrow> string \<Rightarrow> string \<Rightarrow> int option" where
  "stamp env date time =
     (if length date \<noteq> 10 \<or> length time \<noteq> 8 then None
      else parse_datetime env (date @ '' '' @ time))"

definition number_or_hyphen :: "string \<Rightarrow> bool" where
  "number_or_hyphen s \<longleftrightarrow> s = ''-'' \<or> (s \<noteq> [] \<and> list_all is_digit s)"

definition canonical :: "fw_env \<Rightarrow> string list \<Rightarrow> bool" where
  "canonical env tokens \<longleftrightarrow>
     (length tokens = 17 \<or> length tokens = 18)
     \<and> stamp env (tokens ! 0) (tokens ! 1) \<noteq> None
     \<and> tokens ! 2 \<in> {''ALLOW'', ''DROP'', ''INFO-EVENTS-LOST''}
     \<and> (tokens ! 3 \<in> {''TCP'', ''UDP'', ''ICMP'', ''ICMPV6'', ''ICMPv6'', ''IPv6''}
        \<or> parse_uint 255 (tokens ! 3) \<noteq> None
        \<or> (tokens ! 2 = ''INFO-EVENTS-LOST'' \<and> tokens ! 3 = ''-''))
     \<and> list_all (\<lambda>i. tokens ! i = ''-'' \<or> is_ip env (tokens ! i)) [4, 5]
     \<and> list_all (\<lambda>i. number_or_hyphen (tokens ! i)) [6, 7, 8, 10, 11, 12, 13, 14]
     \<and> (length tokens = 18 \<longrightarrow> number_or_hyphen (tokens ! 17))
     \<and> list_all (\<lambda>c. is_alpha c \<or> c = CHR ''-'') (tokens ! 9)
     \<and> tokens ! 16 \<in> {''SEND'', ''RECEIVE'', ''FORWARD'', ''-''}"

text \<open>A row is a log entry with the firewall columns.\<close>

record row = log_entry +
  row_display :: "string option"
  row_offset :: "int option"
  row_firewall :: firewall_record

record record_result =
  result_entry :: row
  result_coverage :: coverage

definition or_dash :: "string option \<Rightarrow> string" where
  "or_dash v = (case v of Some s \<Rightarrow> s | None \<Rightarrow> ''-'')"

definition endpoint :: "string option \<Rightarrow> string option \<Rightarrow> string" where
  "endpoint ip port =
     (let ip = or_dash ip in
      case port of
        Some p \<Rightarrow>
          if p = ''-'' then ip
          else if CHR '':'' \<in> set ip then ''['' @ ip @ '']:'' @ p
          else ip @ '':'' @ p
      | None \<Rightarrow> ip)"

definition schema_of :: "fw_env \<Rightarrow> fw_context \<Rightarrow> string list \<Rightarrow> string list \<times> schema_origin" where
  "schema_of env c tokens =
     (case declared_fields c of
        Some fs \<Rightarrow> (fs, Header)
      | None \<Rightarrow>
          if canonical env tokens then (take (length tokens) canonical_fields, Canonical)
          else (rejected_fields c, Unavailable))"

text \<open>\<open>iter().position\<close>.\<close>

fun position :: "('a \<Rightarrow> bool) \<Rightarrow> 'a list \<Rightarrow> nat option" where
  "position P [] = None"
| "position P (x # xs) = (if P x then Some 0 else map_option Suc (position P xs))"

definition token_at :: "string list \<Rightarrow> nat \<Rightarrow> string option" where
  "token_at tokens i = (if i < length tokens then Some (tokens ! i) else None)"

definition map_fields :: "string list \<Rightarrow> string list \<Rightarrow> firewall_field list" where
  "map_fields declared tokens =
     map (\<lambda>i. \<lparr>field_name = declared ! i, field_value = token_at tokens i\<rparr>) [0..<length declared]"

definition build_record :: "fw_env \<Rightarrow> string \<Rightarrow> fw_context \<Rightarrow> firewall_record" where
  "build_record env line c =
     (let tokens = split_ws line;
          (declared, origin) = schema_of env c tokens;
          is_loss = (Option.bind (position (\<lambda>f. eq_ignore_case f ''action'') declared)
                       (token_at tokens) = Some ''INFO-EVENTS-LOST'');
          missing_final_pid = (is_loss \<and> declared \<noteq> [] \<and> eq_ignore_case (last declared) ''pid''
                               \<and> length tokens + 1 = length declared);
          mapped = (origin \<noteq> Unavailable
                    \<and> (length tokens = length declared \<or> missing_final_pid)
                    \<and> CHR 0x00 \<notin> set line)
      in \<lparr>raw_line = line, rec_declared = declared,
          rec_fields = (if mapped then map_fields declared tokens else []),
          rec_origin = origin, rec_time_basis = ctx_time_basis c,
          rec_kind = (if \<not> mapped then MalformedRecord else if is_loss then EventsLost else Traffic),
          truncated = False\<rparr>)"

definition display_of :: "firewall_record \<Rightarrow> string option" where
  "display_of r =
     (case (field_of r ''date'', field_of r ''time'') of
        (Some d, Some t) \<Rightarrow>
          Some (d @ '' '' @ t @ (if rec_time_basis r = UtcTime then '' UTC'' else []))
      | _ \<Rightarrow> None)"

definition timestamp_of :: "fw_env \<Rightarrow> firewall_record \<Rightarrow> int option" where
  "timestamp_of env r =
     (if rec_time_basis r = UtcTime then
        (case (field_of r ''date'', field_of r ''time'') of
           (Some d, Some t) \<Rightarrow> stamp env d t
         | _ \<Rightarrow> None)
      else None)"

definition loss_count :: "firewall_record \<Rightarrow> nat option" where
  "loss_count r = Option.bind (field_of r ''info'') (parse_uint u64_max)"

text \<open>The arrow of the message is U+2192.\<close>

definition message_of :: "string \<Rightarrow> firewall_record \<Rightarrow> string \<times> severity" where
  "message_of line r =
     (case rec_kind r of
        MalformedRecord \<Rightarrow> (''Unparsed firewall record: '' @ line, LogInfo)
      | EventsLost \<Rightarrow>
          ((case loss_count r of
              Some n \<Rightarrow> ''INFO-EVENTS-LOST: '' @ dec n @ '' events lost''
            | None \<Rightarrow> ''INFO-EVENTS-LOST: loss count unavailable''), LogWarning)
      | Traffic \<Rightarrow>
          (or_dash (field_of r ''action'') @ '' '' @ or_dash (field_of r ''protocol'') @ '' ''
           @ endpoint (field_of r ''src-ip'') (field_of r ''src-port'')
           @ '' '' @ [CHR 0xE2, CHR 0x86, CHR 0x92] @ '' ''
           @ endpoint (field_of r ''dst-ip'') (field_of r ''dst-port'')
           @ '' ('' @ or_dash (field_of r ''path'') @ '')'', LogInfo))"

definition record_coverage :: "fw_env \<Rightarrow> u32 \<Rightarrow> firewall_record \<Rightarrow> coverage" where
  "record_coverage env line_no r =
     (let c = (if timestamp_of env r = None
               then no_coverage\<lparr>unplaced_timestamps := metric_add 1 line_no no_metric\<rparr>
               else no_coverage)
      in case rec_kind r of
           MalformedRecord \<Rightarrow> c\<lparr>malformed := metric_add 1 line_no no_metric\<rparr>
         | EventsLost \<Rightarrow>
             (let c = c\<lparr>loss_events := metric_add 1 line_no no_metric\<rparr> in
              case loss_count r of
                Some n \<Rightarrow> c\<lparr>lost_events := metric_add n line_no no_metric\<rparr>
              | None \<Rightarrow> c\<lparr>unknown_loss_count := metric_add 1 line_no no_metric\<rparr>)
         | Traffic \<Rightarrow> c)"

definition parse_record :: "fw_env \<Rightarrow> string \<Rightarrow> fw_context \<Rightarrow> u64 \<Rightarrow> u32 \<Rightarrow> string \<Rightarrow> record_result" where
  "parse_record env line c rid line_no path =
     (let r = build_record env line c;
          (msg, sev) = message_of line r;
          ts = timestamp_of env r
      in \<lparr>result_entry =
            \<lparr>entry_id = rid, line_number = line_no, message = msg, component = None,
             timestamp = ts, entry_severity = sev, source_file = None, file_path = path,
             row_display = display_of r, row_offset = map_option (\<lambda>_. 0) ts, row_firewall = r\<rparr>,
          result_coverage = record_coverage env line_no r\<rparr>)"

subsection \<open>The probe\<close>

definition accepts_line :: "fw_env \<Rightarrow> string \<Rightarrow> bool" where
  "accepts_line env trimmed =
     (case Option.bind (strip_first (CHR ''#'') trimmed) (split_once (CHR '':'')) of
        Some (key, v) \<Rightarrow>
          (eq_ignore_case key ''Software''
             \<and> eq_ignore_case (str_trim v) ''Microsoft Windows Firewall'')
          \<or> (eq_ignore_case key ''Fields'' \<and>
             (case declared_fields (snd (directive trimmed default_context)) of
                None \<Rightarrow> False
              | Some fs \<Rightarrow>
                  list_all (\<lambda>req. list_ex (\<lambda>f. eq_ignore_case f req) fs) (take 8 canonical_fields)
                  \<and> \<not> list_ex (\<lambda>f. eq_ignore_case f ''cs-method'' \<or> eq_ignore_case f ''cs-uri-stem'')
                        fs))
      | None \<Rightarrow> canonical env (split_ws trimmed))"

lemma length_dropWhile_tl:
  "rest \<noteq> [] \<Longrightarrow> length (dropWhile P (dropWhile Q rest)) - Suc 0 < length rest"
proof -
  assume r: "rest \<noteq> []"
  have "length (dropWhile P (dropWhile Q rest)) \<le> length (dropWhile Q rest)"
    by (rule length_dropWhile_le)
  also have "\<dots> \<le> length rest" by (rule length_dropWhile_le)
  finally show ?thesis using r by (cases rest) auto
qed

text \<open>The state is what is left of the content, the bytes inspected and the meaningful lines seen.\<close>

function probe_loop :: "fw_env \<Rightarrow> string \<Rightarrow> nat \<Rightarrow> nat \<Rightarrow> bool \<times> nat" where
  "probe_loop env rest scanned meaningful =
     (if rest = [] \<or> meaningful \<ge> max_probe_lines then (False, scanned)
      else
        (let rest = dropWhile (\<lambda>c. c = CHR 0x00) rest;
             line = takeWhile (\<lambda>c. c \<noteq> CHR 0x0A) rest;
             after = dropWhile (\<lambda>c. c \<noteq> CHR 0x0A) rest
         in
         if scanned + length line > max_line_bytes then (False, max_line_bytes)
         else
           (let scanned = scanned + length line in
            if after \<noteq> [] \<and> scanned = max_line_bytes then (False, scanned)
            else
              (let scanned = (if after \<noteq> [] then scanned + 1 else scanned);
                   trimmed = str_trim line
               in
               if trimmed = [] then probe_loop env (tl after) scanned meaningful
               else if accepts_line env trimmed then (True, scanned)
               else probe_loop env (tl after) scanned (meaningful + 1)))))"
  by pat_completeness auto

termination
  by (relation "measure (\<lambda>(_, rest, _, _). length rest)") (simp_all add: length_dropWhile_tl)

declare probe_loop.simps [simp del]

definition probe_measured :: "fw_env \<Rightarrow> string \<Rightarrow> bool \<times> nat" where
  "probe_measured env content = probe_loop env content 0 0"

definition probe :: "fw_env \<Rightarrow> string \<Rightarrow> bool" where
  "probe env content = fst (probe_measured env content)"

end
