(* ===== verification/FirewallStream.thy ===== *)
theory FirewallStream
  imports Firewall
begin

text \<open>
  \<open>parser/firewall_stream.rs\<close>: the continuation that turns decoded text, in chunks of any size, into
  rows, with provisional rows for an unfinished line, and \<open>apply_delta\<close>, which its consumers run on
  their vector of rows.
\<close>

type_synonym rust_char = string

definition sat_inc :: "'a::len word \<Rightarrow> 'a word" where
  "sat_inc w = (if w = - 1 then w else w + 1)"

definition sat_dec :: "'a::len word \<Rightarrow> 'a word" where
  "sat_dec w = (if w = 0 then w else w - 1)"

record replacement =
  expected_id :: u64
  expected_line :: u32
  new_entry :: row

record context_change =
  change_line :: u32
  change_context :: fw_context

record delta =
  new_entries :: "row list"
  replacements :: "replacement list"
  delta_coverage :: coverage
  observed_through :: u32
  context_changes :: "context_change list"

definition empty_delta :: delta where
  "empty_delta =
     \<lparr>new_entries = [], replacements = [], delta_coverage = no_coverage, observed_through = 0,
      context_changes = []\<rparr>"

record stream =
  ctx :: fw_context
  next_id :: u64
  next_line :: u32
  observed :: u32
  pending :: string
  pending_cr :: bool
  line_active :: bool
  pad_count :: nat
  over :: bool
  provisional_id :: "u64 option"
  provisional_coverage :: coverage
  committed :: coverage

definition new_stream :: "u64 \<Rightarrow> u32 \<Rightarrow> stream" where
  "new_stream i line =
     \<lparr>ctx = default_context, next_id = i, next_line = line, observed = sat_dec line,
      pending = [], pending_cr = False, line_active = False, pad_count = 0, over = False,
      provisional_id = None, provisional_coverage = no_coverage, committed = no_coverage\<rparr>"

definition reset_generation :: "u64 \<Rightarrow> stream \<Rightarrow> stream" where
  "reset_generation i st = new_stream i 1"

definition stream_coverage :: "stream \<Rightarrow> coverage" where
  "stream_coverage st =
     (let c = coverage_merge (committed st) (provisional_coverage st)
      in c\<lparr>padding := metric_add (pad_count st) (next_line st) (padding c)\<rparr>)"

definition text_char :: "rust_char \<Rightarrow> stream \<Rightarrow> stream" where
  "text_char ch st =
     (if ch = [CHR 0x00] \<and> pending st = [] \<and> \<not> over st then
        st\<lparr>pad_count := sat_add64 (pad_count st) 1\<rparr>
      else if \<not> over st then
        (if length (pending st) + length ch \<le> max_line_bytes
         then st\<lparr>pending := pending st @ ch\<rparr>
         else st\<lparr>over := True\<rparr>)
      else st)"

text \<open>What an oversized line makes of a parsed record.\<close>

definition oversize :: "u32 \<Rightarrow> record_result \<Rightarrow> record_result" where
  "oversize line r =
     (let e = result_entry r in
      \<lparr>result_entry =
         e\<lparr>row_firewall := (row_firewall e)\<lparr>truncated := True, rec_kind := MalformedRecord,
                                            rec_fields := []\<rparr>,
           message := ''Oversized firewall record (truncated)'', entry_severity := LogInfo,
           timestamp := None, row_offset := None\<rparr>,
       result_coverage =
         no_coverage\<lparr>oversized := metric_add 1 line no_metric,
                     unplaced_timestamps := metric_add 1 line no_metric\<rparr>\<rparr>)"

definition line_record :: "fw_env \<Rightarrow> string \<Rightarrow> u64 \<Rightarrow> stream \<Rightarrow> record_result" where
  "line_record env path i st =
     (let r = parse_record env (pending st) (ctx st) i (next_line st) path
      in if over st then oversize (next_line st) r else r)"

definition emit_record :: "fw_env \<Rightarrow> string \<Rightarrow> bool \<Rightarrow> stream \<times> delta \<Rightarrow> stream \<times> delta" where
  "emit_record env path provisional sd =
     (let (st, d) = sd;
          i = (case provisional_id st of Some p \<Rightarrow> p | None \<Rightarrow> next_id st);
          parsed = line_record env path i st;
          (st, d) =
            (case provisional_id st of
               Some p \<Rightarrow>
                 (st, d\<lparr>replacements := replacements d @
                        [\<lparr>expected_id = p, expected_line = next_line st,
                          new_entry = result_entry parsed\<rparr>]\<rparr>)
             | None \<Rightarrow>
                 (st\<lparr>next_id := sat_inc (next_id st)\<rparr>,
                  d\<lparr>new_entries := new_entries d @ [result_entry parsed]\<rparr>));
          st = (if provisional
                then st\<lparr>provisional_id := Some i, provisional_coverage := result_coverage parsed\<rparr>
                else st\<lparr>committed := coverage_merge (committed st) (result_coverage parsed)\<rparr>)
      in (st, d))"

definition is_directive :: "string \<Rightarrow> bool" where
  "is_directive s \<longleftrightarrow> prefix ''#'' (trim_start s)"

text \<open>A capped directive applies as if its value were empty.\<close>

definition capped_directive :: "string \<Rightarrow> fw_context \<Rightarrow> fw_context" where
  "capped_directive s c =
     (let key = hd (split_on (CHR '':'') (trim_start s)) in
      if eq_ignore_case key ''#Fields'' then snd (directive ''#Fields:'' c)
      else if eq_ignore_case key ''#Software'' then snd (directive ''#Software:'' c)
      else if eq_ignore_case key ''#Time Format'' then snd (directive ''#Time Format:'' c)
      else c)"

definition line_content :: "fw_env \<Rightarrow> string \<Rightarrow> stream \<times> delta \<Rightarrow> stream \<times> delta" where
  "line_content env path sd =
     (let (st, d) = sd in
      if over st then
        emit_record env path False
          (if is_directive (pending st)
           then st\<lparr>ctx := capped_directive (pending st) (ctx st)\<rparr> else st, d)
      else if is_directive (pending st) then
        (st\<lparr>ctx := snd (directive (pending st) (ctx st))\<rparr>, d)
      else if str_trim (pending st) \<noteq> [] then emit_record env path False (st, d)
      else (st, d))"

text \<open>The resets at the end of a line.\<close>

definition close_line :: "stream \<Rightarrow> stream" where
  "close_line st =
     st\<lparr>committed := (committed st)\<lparr>padding :=
            metric_add (pad_count st) (next_line st) (padding (committed st))\<rparr>,
        observed := next_line st, next_line := sat_inc (next_line st), pending := [],
        pending_cr := False, line_active := False, pad_count := 0, over := False,
        provisional_id := None, provisional_coverage := no_coverage\<rparr>"

definition finish_line :: "fw_env \<Rightarrow> string \<Rightarrow> stream \<times> delta \<Rightarrow> stream \<times> delta" where
  "finish_line env path sd =
     (let before = ctx (fst sd);
          (st, d) = line_content env path sd;
          d = (if ctx st \<noteq> before
               then d\<lparr>context_changes := context_changes d @
                        [\<lparr>change_line = sat_inc (next_line st), change_context = ctx st\<rparr>]\<rparr>
               else d)
      in (close_line st, d))"

definition finish_delta :: "stream \<Rightarrow> delta \<Rightarrow> delta" where
  "finish_delta st d = d\<lparr>delta_coverage := stream_coverage st, observed_through := observed st\<rparr>"

text \<open>One character of \<open>push_text\<close>: a carriage return is held back until the next character says
  whether it belongs to the line ending.\<close>

definition flush_cr :: "stream \<Rightarrow> stream" where
  "flush_cr st =
     (if pending_cr st then text_char [CHR 0x0D] (st\<lparr>pending_cr := False\<rparr>) else st)"

definition push_char :: "fw_env \<Rightarrow> string \<Rightarrow> rust_char \<Rightarrow> stream \<times> delta \<Rightarrow> stream \<times> delta" where
  "push_char env path ch sd =
     (let (st, d) = sd;
          st = st\<lparr>line_active := True\<rparr>
      in if ch = [CHR 0x0A] then finish_line env path (st, d)
         else
           (let st = flush_cr st in
            if ch = [CHR 0x0D] then (st\<lparr>pending_cr := True\<rparr>, d) else (text_char ch st, d)))"

definition push_text :: "fw_env \<Rightarrow> string \<Rightarrow> rust_char list \<Rightarrow> stream \<Rightarrow> stream \<times> delta" where
  "push_text env path cs st =
     (let (st, d) = fold (push_char env path) cs (st, empty_delta);
          (st, d) = (if cs \<noteq> [] \<and> provisional_id st \<noteq> None
                     then emit_record env path True (st, d) else (st, d))
      in (st, finish_delta st d))"

definition has_record :: "stream \<Rightarrow> bool" where
  "has_record st \<longleftrightarrow>
     over st \<or> (str_trim (pending st) \<noteq> [] \<and> \<not> is_directive (pending st))"

definition snapshot_eof :: "fw_env \<Rightarrow> string \<Rightarrow> stream \<Rightarrow> stream \<times> delta" where
  "snapshot_eof env path st =
     (let st = (if line_active st then st\<lparr>observed := next_line st\<rparr> else st);
          (st, d) = (if has_record st then emit_record env path True (st, empty_delta)
                     else (st, empty_delta))
      in (st, finish_delta st d))"

subsection \<open>Consumers\<close>

definition row_key :: "row \<Rightarrow> u64 \<times> u32" where
  "row_key e = (entry_id e, line_number e)"

fun replace_first :: "('a \<Rightarrow> bool) \<Rightarrow> 'a \<Rightarrow> 'a list \<Rightarrow> 'a list" where
  "replace_first P v [] = []"
| "replace_first P v (x # xs) = (if P x then v # xs else x # replace_first P v xs)"

definition apply_replacement :: "replacement \<Rightarrow> row list \<Rightarrow> row list" where
  "apply_replacement r es =
     replace_first (\<lambda>e. row_key e = (expected_id r, expected_line r)) (new_entry r) es"

definition apply_delta :: "delta \<Rightarrow> row list \<Rightarrow> row list" where
  "apply_delta d es = fold apply_replacement (replacements d) (es @ new_entries d)"

end
