(* ===== verification/FirewallSim.thy ===== *)
theory FirewallSim
  imports FirewallStream
begin

text \<open>
  The stream of \<open>FirewallStream\<close> does not see its chunks: however a text is cut into pushes, and
  however many snapshots of the unfinished line are taken in between, the stream and the rows of the
  consumer end as if the text had been pushed at once. The proof is a simulation between the stream
  with provisional rows and the one without.
\<close>

subsection \<open>Deltas are only extended\<close>

definition dplus :: "delta \<Rightarrow> delta \<Rightarrow> delta" where
  "dplus d e =
     d\<lparr>new_entries := new_entries d @ new_entries e, replacements := replacements d @ replacements e,
       context_changes := context_changes d @ context_changes e\<rparr>"

lemma dplus_fields [simp]:
  "new_entries (dplus d e) = new_entries d @ new_entries e"
  "replacements (dplus d e) = replacements d @ replacements e"
  by (simp_all add: dplus_def)

lemma dplus_empty [simp]: "dplus d empty_delta = d"
  by (simp add: dplus_def empty_delta_def)

lemma dplus_assoc: "dplus (dplus a b) c = dplus a (dplus b c)"
  by (simp add: dplus_def)

lemma emit_record_dplus:
  "emit_record env path pr (st, d) =
     (fst (emit_record env path pr (st, empty_delta)),
      dplus d (snd (emit_record env path pr (st, empty_delta))))"
  by (cases "provisional_id st"; cases pr)
    (simp_all add: emit_record_def Let_def dplus_def empty_delta_def)

lemma line_content_dplus:
  "line_content env path (st, d) =
     (fst (line_content env path (st, empty_delta)),
      dplus d (snd (line_content env path (st, empty_delta))))"
  using emit_record_dplus [of env path False _ d]
  by (auto simp: line_content_def Let_def split: prod.split)

lemma finish_line_dplus:
  "finish_line env path (st, d) =
     (fst (finish_line env path (st, empty_delta)),
      dplus d (snd (finish_line env path (st, empty_delta))))"
  unfolding finish_line_def line_content_dplus [of env path st d]
  by (cases "line_content env path (st, empty_delta)") (simp add: dplus_def Let_def empty_delta_def)

lemma push_char_dplus:
  "push_char env path ch (st, d) =
     (fst (push_char env path ch (st, empty_delta)),
      dplus d (snd (push_char env path ch (st, empty_delta))))"
proof (cases "ch = [CHR 0x0A]")
  case True
  then show ?thesis
    using finish_line_dplus [of env path "st\<lparr>line_active := True\<rparr>" d] by (simp add: push_char_def Let_def)
qed (simp add: push_char_def Let_def)

text \<open>The characters of a push, from an empty delta.\<close>

definition feed :: "fw_env \<Rightarrow> string \<Rightarrow> rust_char list \<Rightarrow> stream \<Rightarrow> stream \<times> delta" where
  "feed env path cs st = fold (push_char env path) cs (st, empty_delta)"

lemma feed_dplus:
  "fold (push_char env path) cs (st, d) =
     (fst (feed env path cs st), dplus d (snd (feed env path cs st)))"
proof (induction cs arbitrary: st d)
  case (Cons ch cs)
  obtain st' e where e: "push_char env path ch (st, empty_delta) = (st', e)" by fastforce
  then have "push_char env path ch (st, d) = (st', dplus d e)"
    using push_char_dplus [of env path ch st d] by simp
  then show ?case
    using e Cons [of st' "dplus d e"] Cons [of st' e] by (simp add: feed_def dplus_assoc)
qed (simp add: feed_def)

lemma feed_Nil [simp]: "feed env path [] st = (st, empty_delta)"
  by (simp add: feed_def)

lemma feed_append:
  "feed env path (u @ v) st =
     (let (st', d) = feed env path u st; (st'', e) = feed env path v st' in (st'', dplus d e))"
proof -
  obtain st' d where u: "feed env path u st = (st', d)" by fastforce
  then have "feed env path (u @ v) st = fold (push_char env path) v (st', d)" by (simp add: feed_def)
  also have "\<dots> = (fst (feed env path v st'), dplus d (snd (feed env path v st')))"
    by (rule feed_dplus)
  finally show ?thesis by (simp add: u split: prod.split)
qed

lemma feed_Cons:
  "feed env path (ch # v) st =
     (let (st', d) = push_char env path ch (st, empty_delta); (st'', e) = feed env path v st'
      in (st'', dplus d e))"
  using feed_append [of env path "[ch]" v st] by (simp add: feed_def)

lemma push_text_feed:
  "push_text env path cs st =
     (let (st', d) = feed env path cs st;
          (st', d) = (if cs \<noteq> [] \<and> provisional_id st' \<noteq> None
                      then emit_record env path True (st', d) else (st', d))
      in (st', finish_delta st' d))"
  by (simp add: push_text_def feed_def)

subsection \<open>Characters inside a line\<close>

definition newline :: rust_char where "newline = [CHR 0x0A]"

text \<open>A character other than a line feed: the stream only accumulates.\<close>

definition absorb :: "rust_char \<Rightarrow> stream \<Rightarrow> stream" where
  "absorb ch st =
     (let st = flush_cr (st\<lparr>line_active := True\<rparr>) in
      if ch = [CHR 0x0D] then st\<lparr>pending_cr := True\<rparr> else text_char ch st)"

lemma push_char_absorb: "ch \<noteq> newline \<Longrightarrow> push_char env path ch (st, d) = (absorb ch st, d)"
  by (simp add: push_char_def absorb_def newline_def Let_def)

lemma feed_absorb:
  "newline \<notin> set cs \<Longrightarrow> feed env path cs st = (fold absorb cs st, empty_delta)"
proof (induction cs arbitrary: st)
  case (Cons ch cs)
  then have "push_char env path ch (st, empty_delta) = (absorb ch st, empty_delta)"
    by (intro push_char_absorb) auto
  with Cons show ?case by (simp add: feed_Cons)
qed simp

text \<open>Two streams that differ at most in what provisional rows leave behind.\<close>

definition same_core :: "stream \<Rightarrow> stream \<Rightarrow> bool" where
  "same_core a b \<longleftrightarrow>
     ctx a = ctx b \<and> next_line a = next_line b \<and> pending a = pending b
     \<and> pending_cr a = pending_cr b \<and> line_active a = line_active b \<and> pad_count a = pad_count b
     \<and> over a = over b \<and> committed a = committed b"

lemma same_core_refl [simp]: "same_core a a"
  by (simp add: same_core_def)

lemma same_core_eqI:
  "same_core a b \<Longrightarrow> next_id a = next_id b \<Longrightarrow> observed a = observed b \<Longrightarrow>
     provisional_id a = provisional_id b \<Longrightarrow> provisional_coverage a = provisional_coverage b \<Longrightarrow> a = b"
  by (simp add: same_core_def stream.equality)

lemma text_char_core: "same_core a b \<Longrightarrow> same_core (text_char ch a) (text_char ch b)"
  by (simp add: same_core_def text_char_def)

lemma flush_cr_core: "same_core a b \<Longrightarrow> same_core (flush_cr a) (flush_cr b)"
proof -
  assume c: "same_core a b"
  then have "same_core (a\<lparr>pending_cr := False\<rparr>) (b\<lparr>pending_cr := False\<rparr>)" by (simp add: same_core_def)
  then have "same_core (text_char [CHR 0x0D] (a\<lparr>pending_cr := False\<rparr>))
      (text_char [CHR 0x0D] (b\<lparr>pending_cr := False\<rparr>))" by (rule text_char_core)
  moreover have "pending_cr a = pending_cr b" using c by (simp add: same_core_def)
  ultimately show ?thesis using c by (simp add: flush_cr_def)
qed

lemma absorb_core: "same_core a b \<Longrightarrow> same_core (absorb ch a) (absorb ch b)"
proof -
  assume "same_core a b"
  then have "same_core (a\<lparr>line_active := True\<rparr>) (b\<lparr>line_active := True\<rparr>)" by (simp add: same_core_def)
  then have "same_core (flush_cr (a\<lparr>line_active := True\<rparr>)) (flush_cr (b\<lparr>line_active := True\<rparr>))"
    by (rule flush_cr_core)
  note f = this
  have "same_core (flush_cr (a\<lparr>line_active := True\<rparr>)\<lparr>pending_cr := True\<rparr>)
      (flush_cr (b\<lparr>line_active := True\<rparr>)\<lparr>pending_cr := True\<rparr>)"
    using f by (simp add: same_core_def)
  then show ?thesis using text_char_core [OF f] by (simp add: absorb_def Let_def)
qed

lemma fold_absorb_core: "same_core a b \<Longrightarrow> same_core (fold absorb cs a) (fold absorb cs b)"
  by (induction cs arbitrary: a b) (simp_all add: absorb_core)

lemma text_char_provisional [simp]:
  "provisional_id (text_char ch a) = provisional_id a" "next_id (text_char ch a) = next_id a"
  "provisional_coverage (text_char ch a) = provisional_coverage a"
  "next_line (text_char ch a) = next_line a" "ctx (text_char ch a) = ctx a"
  "committed (text_char ch a) = committed a" "observed (text_char ch a) = observed a"
  by (simp_all add: text_char_def)

lemma absorb_provisional [simp]:
  "provisional_id (absorb ch a) = provisional_id a" "next_id (absorb ch a) = next_id a"
  "provisional_coverage (absorb ch a) = provisional_coverage a"
  "next_line (absorb ch a) = next_line a"
  by (simp_all add: absorb_def flush_cr_def Let_def)

lemma fold_absorb_provisional [simp]:
  "provisional_id (fold absorb cs a) = provisional_id a" "next_id (fold absorb cs a) = next_id a"
  "provisional_coverage (fold absorb cs a) = provisional_coverage a"
  "next_line (fold absorb cs a) = next_line a"
  by (induction cs arbitrary: a) simp_all

subsection \<open>A line that has a record keeps it\<close>

definition wf_pending :: "stream \<Rightarrow> bool" where
  "wf_pending st \<longleftrightarrow> valid_text (pending st)"

lemma text_char_wf: "valid_char ch \<Longrightarrow> wf_pending st \<Longrightarrow> wf_pending (text_char ch st)"
  by (auto simp: wf_pending_def text_char_def intro: valid_text_append valid_text_char)

lemma has_record_extend:
  "over st = over st' \<Longrightarrow> wf_pending st \<Longrightarrow> has_record st \<Longrightarrow> pending st' = pending st @ u \<Longrightarrow> has_record st'"
proof -
  assume h: "over st = over st'" "wf_pending st" "has_record st" "pending st' = pending st @ u"
  show ?thesis
  proof (cases "over st")
    case False
    then have t: "trim_start (pending st) \<noteq> []" "\<not> prefix ''#'' (trim_start (pending st))"
      using h(3) by (auto simp: has_record_def str_trim_Nil_iff is_directive_def)
    then have "trim_start (pending st') = trim_start (pending st) @ u"
      using h(2,4) trim_start_extend by (simp add: wf_pending_def)
    with t show ?thesis
      by (cases "trim_start (pending st)") (auto simp: has_record_def str_trim_Nil_iff is_directive_def)
  qed (use h in \<open>simp add: has_record_def\<close>)
qed

lemma text_char_has_record: "wf_pending st \<Longrightarrow> has_record st \<Longrightarrow> has_record (text_char ch st)"
proof (cases "over (text_char ch st)")
  case False
  assume h: "wf_pending st" "has_record st"
  then have "over st = over (text_char ch st)" "\<exists>u. pending (text_char ch st) = pending st @ u"
    using False by (auto simp: text_char_def split: if_splits)
  then show ?thesis using has_record_extend h by blast
qed (simp add: has_record_def)

lemma cr_valid [simp]: "valid_char [CHR 0x0D]" "valid_char [CHR 0x0A]"
  by code_simp+

lemma flush_cr_keeps:
  "wf_pending st \<Longrightarrow> wf_pending (flush_cr st)"
  "wf_pending st \<Longrightarrow> has_record st \<Longrightarrow> has_record (flush_cr st)"
proof -
  assume w: "wf_pending st"
  then have w': "wf_pending (st\<lparr>pending_cr := False\<rparr>)" by (simp add: wf_pending_def)
  show "wf_pending (flush_cr st)"
    using w w' by (simp add: flush_cr_def text_char_wf)
  assume "has_record st"
  then have "has_record (st\<lparr>pending_cr := False\<rparr>)" by (simp add: has_record_def)
  then show "has_record (flush_cr st)"
    using w' \<open>has_record st\<close> by (simp add: flush_cr_def text_char_has_record)
qed

lemma absorb_keeps:
  assumes "valid_char ch" "wf_pending st"
  shows "wf_pending (absorb ch st)" "has_record st \<Longrightarrow> has_record (absorb ch st)"
proof -
  let ?s = "flush_cr (st\<lparr>line_active := True\<rparr>)"
  have w: "wf_pending (st\<lparr>line_active := True\<rparr>)" using assms(2) by (simp add: wf_pending_def)
  then have ws: "wf_pending ?s" by (rule flush_cr_keeps)
  then have "wf_pending (?s\<lparr>pending_cr := True\<rparr>)" by (simp add: wf_pending_def)
  then show "wf_pending (absorb ch st)"
    using ws assms(1) by (simp add: absorb_def Let_def text_char_wf)
  assume "has_record st"
  then have "has_record (st\<lparr>line_active := True\<rparr>)" by (simp add: has_record_def)
  then have hs: "has_record ?s" using flush_cr_keeps(2) w by blast
  then have "has_record (?s\<lparr>pending_cr := True\<rparr>)" by (simp add: has_record_def)
  then show "has_record (absorb ch st)"
    using hs ws by (simp add: absorb_def Let_def text_char_has_record)
qed

lemma fold_absorb_keeps:
  assumes "list_all valid_char cs" "wf_pending st"
  shows "wf_pending (fold absorb cs st)" "has_record st \<Longrightarrow> has_record (fold absorb cs st)"
  using assms by (induction cs arbitrary: st) (simp_all add: absorb_keeps)

subsection \<open>The end of a line\<close>

definition line_ctx :: "stream \<Rightarrow> fw_context" where
  "line_ctx st =
     (if is_directive (pending st) then
        (if over st then capped_directive (pending st) (ctx st)
         else snd (directive (pending st) (ctx st)))
      else ctx st)"

lemma line_content_alt:
  "line_content env path (st, d) =
     (if has_record st then emit_record env path False (st\<lparr>ctx := line_ctx st\<rparr>, d)
      else (st\<lparr>ctx := line_ctx st\<rparr>, d))"
  by (cases "over st"; cases "is_directive (pending st)")
    (simp_all add: line_content_def has_record_def line_ctx_def Let_def)

definition line_row :: "fw_env \<Rightarrow> string \<Rightarrow> u64 \<Rightarrow> stream \<Rightarrow> record_result" where
  "line_row env path i st = line_record env path i (st\<lparr>ctx := line_ctx st\<rparr>)"

lemma same_core_ctx: "same_core a b \<Longrightarrow> line_ctx a = line_ctx b \<and> has_record a = has_record b"
  by (simp add: same_core_def line_ctx_def has_record_def)

lemma line_record_core: "same_core a b \<Longrightarrow> line_record env path i a = line_record env path i b"
  by (simp add: same_core_def line_record_def Let_def)

lemma line_row_core: "same_core a b \<Longrightarrow> line_row env path i a = line_row env path i b"
  unfolding line_row_def by (rule line_record_core) (simp add: same_core_ctx, simp add: same_core_def)

lemma row_key_line_record [simp]:
  "row_key (result_entry (line_record env path i st)) = (i, next_line st)"
  by (simp add: line_record_def oversize_def parse_record_def row_key_def Let_def split: prod.split)

lemma row_key_line_row [simp]:
  "row_key (result_entry (line_row env path i st)) = (i, next_line st)"
  by (simp add: line_row_def)

lemma entry_id_line_row [simp]: "entry_id (result_entry (line_row env path i st)) = i"
  using row_key_line_row [of env path i st] by (simp add: row_key_def)

text \<open>The state after a line, without and with a provisional row, and the change it reports.\<close>

definition closed :: "fw_env \<Rightarrow> string \<Rightarrow> u64 \<Rightarrow> u64 \<Rightarrow> stream \<Rightarrow> stream" where
  "closed env path i i' st =
     (let st' = st\<lparr>ctx := line_ctx st, next_id := i'\<rparr> in
      close_line
        (if has_record st
         then st'\<lparr>committed := coverage_merge (committed st) (result_coverage (line_row env path i st))\<rparr>
         else st'))"

definition line_changes :: "stream \<Rightarrow> context_change list" where
  "line_changes st =
     (if line_ctx st \<noteq> ctx st
      then [\<lparr>change_line = sat_inc (next_line st), change_context = line_ctx st\<rparr>] else [])"

lemma finish_plain:
  assumes "provisional_id st = None"
  shows "finish_line env path (st, empty_delta) =
    (closed env path (next_id st) (if has_record st then sat_inc (next_id st) else next_id st) st,
     empty_delta\<lparr>new_entries := (if has_record st
                                then [result_entry (line_row env path (next_id st) st)] else []),
                 context_changes := line_changes st\<rparr>)"
  using assms
  by (simp add: finish_line_def line_content_alt emit_record_def closed_def line_changes_def
      line_row_def Let_def empty_delta_def)

lemma finish_provisional:
  assumes "provisional_id st = Some p" "has_record st"
  shows "finish_line env path (st, empty_delta) =
    (closed env path p (next_id st) st,
     empty_delta\<lparr>replacements := [\<lparr>expected_id = p, expected_line = next_line st,
                                   new_entry = result_entry (line_row env path p st)\<rparr>],
                 context_changes := line_changes st\<rparr>)"
  using assms
  by (simp add: finish_line_def line_content_alt emit_record_def closed_def line_changes_def
      line_row_def Let_def empty_delta_def)

lemma closed_core:
  assumes "same_core a b"
  shows "closed env path i i' a = closed env path i i' b"
proof -
  note c = same_core_ctx [OF assms] line_row_core [OF assms]
  show ?thesis
    using assms by (intro stream.equality) (simp_all add: closed_def Let_def c close_line_def same_core_def)
qed

lemma line_changes_core: "same_core a b \<Longrightarrow> line_changes a = line_changes b"
  using same_core_ctx [of a b] by (simp add: line_changes_def same_core_def)

lemma closed_fields [simp]:
  "provisional_id (closed env path i i' st) = None"
  "provisional_coverage (closed env path i i' st) = no_coverage"
  "next_id (closed env path i i' st) = i'" "wf_pending (closed env path i i' st)"
  by (simp_all add: closed_def Let_def close_line_def wf_pending_def)

subsection \<open>Streams without provisional rows\<close>

definition plain :: "stream \<Rightarrow> bool" where
  "plain st \<longleftrightarrow> provisional_id st = None \<and> provisional_coverage st = no_coverage \<and> wf_pending st"

definition fresh :: "row list \<Rightarrow> stream \<Rightarrow> bool" where
  "fresh es st \<longleftrightarrow> (\<forall>e \<in> set es. unat (entry_id e) < unat (next_id st))"

lemma sat_inc_unat: "unat w < 2 ^ LENGTH('a) - 1 \<Longrightarrow> unat (sat_inc w) = unat w + 1"
  for w :: "'a::len word"
proof -
  assume h: "unat w < 2 ^ LENGTH('a) - 1"
  then have "w \<noteq> - 1" by (auto simp: unsigned_minus_1_eq_mask mask_eq_exp_minus_1)
  moreover have "unat (w + 1) = unat w + 1" using h by (simp add: unat_word_ariths)
  ultimately show ?thesis by (simp add: sat_inc_def)
qed

definition room :: "stream \<Rightarrow> nat \<Rightarrow> bool" where
  "room st n \<longleftrightarrow> unat (next_id st) + n < 2 ^ 64"

lemma push_char_plain:
  assumes "plain st" "valid_char ch" "room st (Suc n)" "push_char env path ch (st, empty_delta) = (st', d)"
  shows "plain st' \<and> replacements d = [] \<and> room st' n
    \<and> (\<forall>es. fresh es st \<longrightarrow> fresh (es @ new_entries d) st')"
proof (cases "ch = newline")
  case True
  let ?s = "st\<lparr>line_active := True\<rparr>"
  have "provisional_id ?s = None" using assms(1) by (simp add: plain_def)
  from finish_plain [OF this, of env path] True assms(4)
  have "st' = closed env path (next_id ?s) (if has_record ?s then sat_inc (next_id ?s) else next_id ?s) ?s
    \<and> d = empty_delta\<lparr>new_entries := (if has_record ?s
        then [result_entry (line_row env path (next_id ?s) ?s)] else []),
        context_changes := line_changes ?s\<rparr>"
    unfolding push_char_def newline_def Let_def prod.case by (simp only: simp_thms if_True prod.inject)
  then have st': "st' = closed env path (next_id st) (if has_record ?s then sat_inc (next_id st) else next_id st) ?s"
    and d: "d = empty_delta\<lparr>new_entries := (if has_record ?s
        then [result_entry (line_row env path (next_id st) ?s)] else []),
        context_changes := line_changes ?s\<rparr>"
    by simp_all
  have "unat (sat_inc (next_id st)) = unat (next_id st) + 1"
    using assms(3) by (intro sat_inc_unat) (simp add: room_def)
  then show ?thesis
    using assms(3) by (auto simp: st' d plain_def room_def fresh_def empty_delta_def)
next
  case False
  then have "st' = absorb ch st" "d = empty_delta"
    using push_char_absorb [OF False] assms(4) by auto
  then show ?thesis
    using assms absorb_keeps(1) [of ch st]
    by (auto simp: plain_def room_def fresh_def empty_delta_def)
qed

lemma feed_plain:
  assumes "plain st" "list_all valid_char cs" "room st (length cs + n)" "feed env path cs st = (st', d)"
  shows "plain st' \<and> replacements d = [] \<and> room st' n
    \<and> (\<forall>es. fresh es st \<longrightarrow> fresh (es @ new_entries d) st')"
  using assms
proof (induction cs arbitrary: st st' d)
  case Nil
  then show ?case by (auto simp: empty_delta_def)
next
  case (Cons ch cs)
  obtain s1 d1 where 1: "push_char env path ch (st, empty_delta) = (s1, d1)" by fastforce
  obtain s2 d2 where 2: "feed env path cs s1 = (s2, d2)" by fastforce
  have eq: "st' = s2" "d = dplus d1 d2" using Cons.prems(4) by (simp_all add: feed_Cons 1 2)
  have p1: "plain s1 \<and> replacements d1 = [] \<and> room s1 (length cs + n)
      \<and> (\<forall>es. fresh es st \<longrightarrow> fresh (es @ new_entries d1) s1)"
    using Cons.prems by (intro push_char_plain [OF _ _ _ 1]) auto
  have p2: "plain s2 \<and> replacements d2 = [] \<and> room s2 n
      \<and> (\<forall>es. fresh es s1 \<longrightarrow> fresh (es @ new_entries d2) s2)"
    using Cons.prems p1 by (intro Cons.IH [OF _ _ _ 2]) auto
  show ?case using p1 p2 by (simp add: eq) (metis append_assoc)
qed

subsection \<open>The simulation\<close>

text \<open>The consumer of the first stream may hold one row more: the provisional one.\<close>

definition row_sim :: "stream \<Rightarrow> row list \<Rightarrow> stream \<Rightarrow> row list \<Rightarrow> bool" where
  "row_sim a es b fs \<longleftrightarrow>
     (case provisional_id a of
        None \<Rightarrow> provisional_coverage a = no_coverage \<and> next_id a = next_id b \<and> es = fs
      | Some p \<Rightarrow> p = next_id b \<and> next_id a = sat_inc p \<and> has_record a
                  \<and> (\<exists>r. es = fs @ [r] \<and> row_key r = (p, next_line b)))"

definition sim :: "stream \<times> row list \<Rightarrow> stream \<times> row list \<Rightarrow> bool" where
  "sim x y \<longleftrightarrow>
     same_core (fst x) (fst y) \<and> plain (fst y) \<and> fresh (snd y) (fst y)
     \<and> row_sim (fst x) (snd x) (fst y) (snd y)"

lemma replace_first_last:
  "\<forall>e \<in> set fs. \<not> P e \<Longrightarrow> P r \<Longrightarrow> replace_first P v (fs @ r # ys) = fs @ v # ys"
  by (induction fs) auto

lemma replace_provisional:
  assumes "fresh fs b" "expected_id q = next_id b" "row_key r = (next_id b, expected_line q)"
  shows "apply_replacement q (fs @ r # ys) = fs @ new_entry q # ys"
  using assms unfolding apply_replacement_def
  by (intro replace_first_last) (auto simp: fresh_def row_key_def)

lemma apply_delta_finish [simp]: "apply_delta (finish_delta st d) es = apply_delta d es"
  by (simp add: finish_delta_def apply_delta_def)

lemma apply_delta_empty [simp]: "apply_delta empty_delta es = es"
  by (simp add: apply_delta_def empty_delta_def)

lemma emit_provisional:
  "fst (emit_record env path True (st, d)) =
     st\<lparr>next_id := (if provisional_id st = None then sat_inc (next_id st) else next_id st),
        provisional_id := Some (case provisional_id st of Some p \<Rightarrow> p | None \<Rightarrow> next_id st),
        provisional_coverage := result_coverage (line_record env path
          (case provisional_id st of Some p \<Rightarrow> p | None \<Rightarrow> next_id st) st)\<rparr>"
  by (cases "provisional_id st") (simp_all add: emit_record_def Let_def)

lemma apply_delta_empty_dplus [simp]: "apply_delta (dplus empty_delta d) es = apply_delta d es"
  by (simp add: apply_delta_def) (simp add: empty_delta_def)

text \<open>Emitting a provisional row keeps the simulation.\<close>

lemma emit_sim:
  assumes s: "sim (a, es) (b, fs)" and h: "has_record a"
  shows "sim (fst (emit_record env path True (a, empty_delta)),
              apply_delta (snd (emit_record env path True (a, empty_delta))) es) (b, fs)"
proof (cases "provisional_id a")
  case None
  then show ?thesis
    using s h by (auto simp: sim_def row_sim_def same_core_def emit_record_def Let_def apply_delta_def
        empty_delta_def has_record_def)
next
  case (Some p)
  then obtain r where r: "p = next_id b" "es = fs @ [r]" "row_key r = (p, next_line b)"
    using s by (auto simp: sim_def row_sim_def)
  let ?q = "\<lparr>expected_id = p, expected_line = next_line a,
    new_entry = result_entry (line_record env path p a)\<rparr>"
  have "next_line a = next_line b" using s by (simp add: sim_def same_core_def)
  then have "apply_replacement ?q (fs @ [r]) = fs @ [new_entry ?q]"
    using r s by (intro replace_provisional [where b = b]) (simp_all add: sim_def)
  then have "apply_delta (snd (emit_record env path True (a, empty_delta))) es =
      fs @ [result_entry (line_record env path p a)]"
    using Some r(2) by (simp add: emit_record_def Let_def apply_delta_def empty_delta_def)
  then show ?thesis
    using s h Some by (simp add: sim_def row_sim_def emit_provisional same_core_def has_record_def)
qed

lemma observed_sim: "sim (a, es) y \<Longrightarrow> sim (a\<lparr>observed := n\<rparr>, es) y"
  by (auto simp: sim_def row_sim_def same_core_def has_record_def split: option.splits)

lemma emit_sim':
  "sim (a, es) (b, fs) \<Longrightarrow> has_record a \<Longrightarrow> emit_record env path True (a, empty_delta) = (a', d) \<Longrightarrow>
     sim (a', apply_delta d es) (b, fs)"
  using emit_sim [of a es b fs env path] by simp

subsection \<open>Operations\<close>

datatype op = Push "rust_char list" | Snapshot

fun run_op :: "fw_env \<Rightarrow> string \<Rightarrow> op \<Rightarrow> stream \<times> row list \<Rightarrow> stream \<times> row list" where
  "run_op env path (Push cs) (st, es) =
     (let (st', d) = push_text env path cs st in (st', apply_delta d es))"
| "run_op env path Snapshot (st, es) =
     (let (st', d) = snapshot_eof env path st in (st', apply_delta d es))"

definition run :: "fw_env \<Rightarrow> string \<Rightarrow> op list \<Rightarrow> stream \<times> row list \<Rightarrow> stream \<times> row list" where
  "run env path ops x = fold (run_op env path) ops x"

fun pushed :: "op list \<Rightarrow> rust_char list" where
  "pushed [] = []"
| "pushed (Push cs # ops) = cs @ pushed ops"
| "pushed (Snapshot # ops) = pushed ops"

lemma sim_snapshot: "sim x y \<Longrightarrow> sim (run_op env path Snapshot x) y"
proof -
  assume s: "sim x y"
  obtain a es b fs where x: "x = (a, es)" "y = (b, fs)" by (cases x; cases y)
  let ?a = "if line_active a then a\<lparr>observed := next_line a\<rparr> else a"
  have s': "sim (?a, es) (b, fs)" using s x observed_sim by simp
  show ?thesis
  proof (cases "has_record ?a")
    case True
    show ?thesis
      using emit_sim' [OF s' True] True
      by (auto simp: x snapshot_eof_def Let_def split: prod.splits if_splits)
  next
    case False
    then show ?thesis using s' by (simp add: x snapshot_eof_def Let_def split: if_splits)
  qed
qed

text \<open>A push without a line feed.\<close>

lemma sim_push_inside:
  assumes s: "sim (a, es) (b, fs)" and n: "newline \<notin> set cs" and v: "list_all valid_char cs"
  shows "sim (run_op env path (Push cs) (a, es)) (run_op env path (Push cs) (b, fs))"
proof -
  let ?a = "fold absorb cs a" and ?b = "fold absorb cs b"
  have pb: "plain b" using s by (simp add: sim_def)
  have wa: "wf_pending a" using s by (simp add: sim_def plain_def same_core_def wf_pending_def)
  have "same_core ?a ?b" using s by (simp add: sim_def fold_absorb_core)
  moreover have "plain ?b" using pb v fold_absorb_keeps(1) by (simp add: plain_def)
  moreover have "has_record a \<Longrightarrow> has_record ?a" using fold_absorb_keeps(2) [OF v wa] .
  ultimately have s': "sim (?a, es) (?b, fs)"
    using s by (simp add: sim_def row_sim_def fresh_def split: option.splits)
  have b: "run_op env path (Push cs) (b, fs) = (?b, fs)"
    using pb by (simp add: push_text_feed feed_absorb [OF n] plain_def)
  show ?thesis
  proof (cases "cs \<noteq> [] \<and> provisional_id a \<noteq> None")
    case True
    then have "has_record ?a" using s' by (auto simp: sim_def row_sim_def)
    from emit_sim' [OF s' this] True show ?thesis
      unfolding b by (auto simp: push_text_feed feed_absorb [OF n] split: prod.splits)
  next
    case False
    then have "run_op env path (Push cs) (a, es) = (?a, es)"
      by (auto simp: push_text_feed feed_absorb [OF n])
    with s' b show ?thesis by simp
  qed
qed

text \<open>A line feed brings the two streams together, and the rows too.\<close>

lemma newline_closes:
  assumes s: "sim (a, es) (b, fs)" and r: "replacements e = []"
    and pa: "push_char env path newline (a, empty_delta) = (a', da)"
    and pb: "push_char env path newline (b, empty_delta) = (b', db)"
  shows "a' = b' \<and> apply_delta (dplus da e) es = apply_delta (dplus db e) fs"
proof -
  let ?a = "a\<lparr>line_active := True\<rparr>" and ?b = "b\<lparr>line_active := True\<rparr>"
  have c: "same_core ?a ?b" using s by (simp add: sim_def same_core_def)
  have fa: "finish_line env path (?a, empty_delta) = (a', da)"
    and fb: "finish_line env path (?b, empty_delta) = (b', db)"
    using pa pb by (simp_all add: push_char_def newline_def Let_def)
  have none: "provisional_id ?b = None" using s by (simp add: sim_def plain_def)
  note fb' = fb [unfolded finish_plain [OF none]]
  show ?thesis
  proof (cases "provisional_id a")
    case None
    then have "provisional_id ?a = None" by simp
    note fa' = fa [unfolded finish_plain [OF this]]
    have "next_id a = next_id b" "es = fs" using s None by (simp_all add: sim_def row_sim_def)
    then show ?thesis
      using fa' fb' closed_core [OF c] line_row_core [OF c] line_changes_core [OF c] same_core_ctx [OF c]
      by auto
  next
    case (Some p)
    then obtain r where r: "p = next_id b" "es = fs @ [r]" "row_key r = (p, next_line b)"
      and h: "has_record ?a" and i: "next_id a = sat_inc p"
      using s by (auto simp: sim_def row_sim_def has_record_def)
    have "provisional_id ?a = Some p" using Some by simp
    note fa' = fa [unfolded finish_provisional [OF this h]]
    let ?q = "\<lparr>expected_id = p, expected_line = next_line ?a,
      new_entry = result_entry (line_row env path p ?a)\<rparr>"
    have "apply_replacement ?q (fs @ r # new_entries e) = fs @ new_entry ?q # new_entries e"
      using r s by (intro replace_provisional [where b = b]) (simp_all add: sim_def same_core_def)
    then have "apply_delta (dplus da e) es = fs @ result_entry (line_row env path p ?a) # new_entries e"
      using fa' r(2) \<open>replacements e = []\<close> by (auto simp: apply_delta_def empty_delta_def)
    moreover have "has_record ?b" using h same_core_ctx [OF c] by simp
    then have "apply_delta (dplus db e) fs = fs @ result_entry (line_row env path p ?b) # new_entries e"
      using fb' r(1) \<open>replacements e = []\<close> by (auto simp: apply_delta_def empty_delta_def)
    ultimately show ?thesis
      using fa' fb' \<open>has_record ?b\<close> r(1) i closed_core [OF c] line_row_core [OF c] by auto
  qed
qed

lemma run_Push_plain:
  assumes "plain b" "list_all valid_char cs" "room b (length cs + n)" "feed env path cs b = (b', d)"
  shows "run_op env path (Push cs) (b, fs) = (b', fs @ new_entries d)"
  using feed_plain [OF assms] assms(4)
  by (simp add: push_text_feed plain_def) (simp add: apply_delta_def)

text \<open>A push with a line feed.\<close>

lemma sim_push_newline:
  assumes s: "sim (a, es) (b, fs)" and v: "list_all valid_char cs" and n: "newline \<in> set cs"
    and room: "room b (length cs)"
  shows "run_op env path (Push cs) (a, es) = run_op env path (Push cs) (b, fs)"
proof -
  from n obtain u w where cs: "cs = u @ newline # w" and u: "newline \<notin> set u"
    using split_list_first by metis
  have vu: "list_all valid_char u" "list_all valid_char w" using v by (simp_all add: cs)
  have pb: "plain b" and wa: "wf_pending a"
    using s by (simp_all add: sim_def plain_def same_core_def wf_pending_def)
  let ?a = "fold absorb u a" and ?b = "fold absorb u b"
  have s': "sim (?a, es) (?b, fs)"
  proof -
    have "same_core ?a ?b" using s by (simp add: sim_def fold_absorb_core)
    moreover have "plain ?b" using pb vu(1) fold_absorb_keeps(1) by (simp add: plain_def)
    moreover have "has_record a \<Longrightarrow> has_record ?a" using fold_absorb_keeps(2) [OF vu(1) wa] .
    ultimately show ?thesis
      using s by (simp add: sim_def row_sim_def fresh_def split: option.splits)
  qed
  obtain a' da where na: "push_char env path newline (?a, empty_delta) = (a', da)" by fastforce
  obtain b' db where nb: "push_char env path newline (?b, empty_delta) = (b', db)" by fastforce
  obtain b'' e where fe: "feed env path w b' = (b'', e)" by fastforce
  have "plain b' \<and> replacements db = [] \<and> room b' (length w)
      \<and> (\<forall>es. fresh es ?b \<longrightarrow> fresh (es @ new_entries db) b')"
    using s' room by (intro push_char_plain [OF _ _ _ nb]) (simp_all add: sim_def newline_def cs room_def)
  then have pb': "plain b'" "room b' (length w + 0)" by simp_all
  have e: "replacements e = []" "plain b''" using feed_plain [OF pb'(1) vu(2) pb'(2) fe] by simp_all
  note eq = newline_closes [OF s' e(1) na nb]
  have fa: "feed env path cs a = (b'', dplus empty_delta (dplus da e))"
    and fb: "feed env path cs b = (b'', dplus empty_delta (dplus db e))"
    using eq by (simp_all add: cs feed_append feed_absorb [OF u] feed_Cons na nb fe)
  show ?thesis using fa fb e(2) eq by (simp add: push_text_feed plain_def)
qed

lemma run_push_append:
  assumes "plain b" "list_all valid_char (u @ v)" "room b (length (u @ v) + n)"
  shows "run_op env path (Push v) (run_op env path (Push u) (b, fs)) = run_op env path (Push (u @ v)) (b, fs)
    \<and> plain (fst (run_op env path (Push u) (b, fs)))
    \<and> room (fst (run_op env path (Push u) (b, fs))) (length v + n)
    \<and> (fresh fs b \<longrightarrow> fresh (snd (run_op env path (Push u) (b, fs))) (fst (run_op env path (Push u) (b, fs))))"
proof -
  have v: "list_all valid_char u" "list_all valid_char v" using assms(2) by simp_all
  obtain b' d where u: "feed env path u b = (b', d)" by fastforce
  obtain b'' e where w: "feed env path v b' = (b'', e)" by fastforce
  have r: "room b (length u + (length v + n))" using assms(3) by (simp add: ac_simps)
  note p = feed_plain [OF assms(1) v(1) r u]
  have uv: "feed env path (u @ v) b = (b'', dplus d e)" by (simp add: feed_append u w)
  have r': "room b' (length v + n)" using p by blast
  show ?thesis
    using p run_Push_plain [OF assms(1) v(1) r u, of fs] run_Push_plain [OF _ v(2) r' w, of "fs @ new_entries d"]
      run_Push_plain [OF assms uv, of fs] by auto
qed

text \<open>Any operations keep the simulation with the single push of their text.\<close>

lemma run_sim:
  assumes "plain b" "fresh fs b" "list_all valid_char (pushed ops)" "room b (length (pushed ops) + n)"
  shows "sim (run env path ops (b, fs)) (run_op env path (Push (pushed ops)) (b, fs))"
proof -
  have "sim (run env path ops x) (run_op env path (Push (pushed ops)) (b, fs))"
    if "sim x (b, fs)" "plain b" "list_all valid_char (pushed ops)" "room b (length (pushed ops) + n)"
    for x
    using that
  proof (induction ops arbitrary: x b fs)
    case Nil
    then show ?case by (simp add: run_def push_text_feed plain_def)
  next
    case (Cons o1 ops)
    show ?case
    proof (cases o1)
      case Snapshot
      then show ?thesis
        using Cons.IH [OF sim_snapshot [OF Cons.prems(1)]] Cons.prems by (simp add: run_def)
    next
      case (Push cs)
      obtain a es where x: "x = (a, es)" by fastforce
      obtain b' fs' where b': "run_op env path (Push cs) (b, fs) = (b', fs')" by fastforce
      have v: "list_all valid_char cs" "list_all valid_char (cs @ pushed ops)"
        and r: "room b (length (cs @ pushed ops) + n)"
        using Cons.prems by (simp_all add: Push)
      note nxt = run_push_append [OF Cons.prems(2) v(2) r, of env path fs, unfolded b', simplified]
      have "sim (run_op env path (Push cs) x) (b', fs')"
      proof (cases "newline \<in> set cs")
        case True
        have "room b (length cs)" using r by (simp add: room_def)
        from sim_push_newline [OF Cons.prems(1) [unfolded x] v(1) True this, of env path]
        have "run_op env path (Push cs) x = (b', fs')" by (simp only: x b')
        moreover have "fresh fs' b'" using nxt Cons.prems(1) by (simp add: sim_def)
        ultimately show ?thesis using nxt by (simp add: sim_def row_sim_def plain_def)
      next
        case False
        from sim_push_inside [OF Cons.prems(1) [unfolded x] False v(1), of env path] show ?thesis
          by (simp only: x b')
      qed
      from Cons.IH [OF this] nxt v show ?thesis by (simp add: Push run_def)
    qed
  qed
  moreover have "sim (b, fs) (b, fs)" using assms by (simp add: sim_def row_sim_def plain_def)
  ultimately show ?thesis using assms by blast
qed

lemma run_chunks:
  assumes "plain b" "fresh fs b" "list_all valid_char (pushed ops @ cs)"
    "room b (length (pushed ops @ cs))" "newline \<in> set cs"
  shows "run env path (ops @ [Push cs]) (b, fs) = run_op env path (Push (pushed ops @ cs)) (b, fs)"
proof -
  obtain a es where a: "run env path ops (b, fs) = (a, es)" by fastforce
  obtain b' fs' where b': "run_op env path (Push (pushed ops)) (b, fs) = (b', fs')" by fastforce
  have "sim (a, es) (b', fs')"
    using run_sim [where env = env and path = path, OF assms(1,2), of ops "length cs", unfolded a b']
      assms(3,4) by simp
  moreover note nxt = run_push_append [OF assms(1,3), of 0 env path fs, unfolded b']
  moreover have "room b' (length cs)" using nxt assms(4) by simp
  ultimately have "run_op env path (Push cs) (a, es) = run_op env path (Push cs) (b', fs')"
    using assms(3,5) by (intro sim_push_newline) simp_all
  then show ?thesis using a nxt assms(4) by (simp add: run_def)
qed

lemma new_stream_plain [simp]: "plain (new_stream i line)"
  by (simp add: new_stream_def plain_def wf_pending_def)

lemma new_stream_next_id [simp]: "next_id (new_stream i line) = i"
  by (simp add: new_stream_def)

text \<open>C3. Provisional rows leave no trace: pushing a text in any chunks, with snapshots of the unfinished
  line anywhere between them, ends in the same stream and the same rows as pushing the whole text at
  once, as soon as the last chunk holds a line feed. Rows the consumer already had are untouched if
  their ids are below the first id of the stream, and ids must not run out.\<close>

theorem chunking_invisible:
  assumes "list_all valid_char (pushed ops @ cs)" and "newline \<in> set cs"
    and "unat i + length (pushed ops @ cs) < 2 ^ 64"
    and "\<forall>e \<in> set es. unat (entry_id e) < unat i"
  shows "run env path (ops @ [Push cs]) (new_stream i line, es) =
         run_op env path (Push (pushed ops @ cs)) (new_stream i line, es)"
  using assms by (intro run_chunks) (simp_all add: fresh_def room_def)

theorem chunking_invisible_witness:
  "run \<lparr>parse_datetime = \<lambda>_. None, is_ip = \<lambda>_. False\<rparr> ''f''
     ([Push [''a''], Snapshot, Push ['' '', ''b''], Snapshot] @ [Push [''c'', newline, ''d'']])
     (new_stream 7 1, []) =
   run_op \<lparr>parse_datetime = \<lambda>_. None, is_ip = \<lambda>_. False\<rparr> ''f''
     (Push (pushed [Push [''a''], Snapshot, Push ['' '', ''b''], Snapshot] @ [''c'', newline, ''d'']))
     (new_stream 7 1, [])"
proof (rule chunking_invisible)
  show "list_all valid_char
     (pushed [Push [''a''], Snapshot, Push ['' '', ''b''], Snapshot] @ [''c'', newline, ''d''])"
    by code_simp
qed simp_all

end
