(* ===== verification/FirewallProps.thy ===== *)
theory FirewallProps
  imports FirewallSim
begin

text \<open>
  What holds of every stream the code can reach (bounded buffers and counters, an unambiguous schema),
  what a mapped record promises, and the work bound of the format probe.
\<close>

subsection \<open>The schema is unambiguous\<close>

definition schema_ok :: "string list \<Rightarrow> bool" where
  "schema_ok fs \<longleftrightarrow> fs \<noteq> [] \<and> list_all field_name_ok fs \<and> distinct (List.map ascii_lower fs)"

definition context_ok :: "fw_context \<Rightarrow> bool" where
  "context_ok c \<longleftrightarrow> (case declared_fields c of None \<Rightarrow> True | Some fs \<Rightarrow> schema_ok fs \<and> rejected_fields c = [])"

lemma fields_ok_distinct:
  "fields_ok seen fs \<longleftrightarrow>
     list_all field_name_ok fs \<and> distinct (List.map ascii_lower fs)
     \<and> set (List.map ascii_lower fs) \<inter> set seen = {}"
  by (induction fs arbitrary: seen) auto

lemma context_ok_default [simp]: "context_ok default_context"
  by (simp add: context_ok_def default_context_def)

lemma fields_directive_ok: "context_ok (fields_directive line v c)"
  by (auto simp: fields_directive_def context_ok_def schema_ok_def fields_ok_distinct Let_def)

lemma context_ok_basis [simp]: "context_ok (c\<lparr>ctx_time_basis := b\<rparr>) = context_ok c"
  by (simp add: context_ok_def split: option.split)

lemma directive_ok: "context_ok c \<Longrightarrow> context_ok (snd (directive line c))"
  by (simp add: directive_def Let_def fields_directive_ok split: option.split prod.split)

lemma line_ctx_ok: "context_ok (ctx st) \<Longrightarrow> context_ok (line_ctx st)"
  by (simp add: line_ctx_def capped_directive_def Let_def directive_ok)

subsection \<open>Counters and samples\<close>

definition metric_ok :: "metric \<Rightarrow> bool" where
  "metric_ok m \<longleftrightarrow>
     metric_count m \<le> u64_max \<and> length (metric_lines m) \<le> max_samples \<and> distinct (metric_lines m)"

definition coverage_ok :: "coverage \<Rightarrow> bool" where
  "coverage_ok c \<longleftrightarrow>
     list_all metric_ok [padding c, malformed c, oversized c, loss_events c, lost_events c,
                         unknown_loss_count c, unplaced_timestamps c]"

lemma metric_ok_none [simp]: "metric_ok no_metric"
  by (simp add: metric_ok_def no_metric_def)

lemma sample_ok:
  "length ls \<le> max_samples \<and> distinct ls \<Longrightarrow> length (sample l ls) \<le> max_samples \<and> distinct (sample l ls)"
  by (auto simp: sample_def)

lemma fold_sample_ok:
  "length ls \<le> max_samples \<and> distinct ls \<Longrightarrow>
     length (fold sample xs ls) \<le> max_samples \<and> distinct (fold sample xs ls)"
  by (induction xs arbitrary: ls) (simp_all add: sample_ok)

lemma metric_add_ok [intro, simp]: "metric_ok m \<Longrightarrow> metric_ok (metric_add n l m)"
  using sample_ok by (simp add: metric_ok_def metric_add_def)

lemma metric_merge_ok [intro, simp]: "metric_ok m \<Longrightarrow> metric_ok (metric_merge m m')"
  using fold_sample_ok by (simp add: metric_ok_def metric_merge_def)

lemma coverage_ok_none [simp]: "coverage_ok no_coverage"
  by (simp add: coverage_ok_def no_coverage_def)

lemma coverage_merge_ok [simp]: "coverage_ok c \<Longrightarrow> coverage_ok (coverage_merge c c')"
  by (simp add: coverage_ok_def coverage_merge_def)

lemma coverage_padding_ok [simp]:
  "coverage_ok c \<Longrightarrow> coverage_ok (c\<lparr>padding := metric_add n l (padding c)\<rparr>)"
  by (simp add: coverage_ok_def)

subsection \<open>Reachable streams\<close>

inductive reachable :: "fw_env \<Rightarrow> string \<Rightarrow> stream \<Rightarrow> bool" for env path where
  start: "reachable env path (new_stream i line)"
| pushes: "reachable env path st \<Longrightarrow> reachable env path (fst (push_text env path cs st))"
| snapshots: "reachable env path st \<Longrightarrow> reachable env path (fst (snapshot_eof env path st))"
| resets: "reachable env path st \<Longrightarrow> reachable env path (reset_generation i st)"

definition stream_ok :: "stream \<Rightarrow> bool" where
  "stream_ok st \<longleftrightarrow>
     length (pending st) \<le> max_line_bytes \<and> pad_count st \<le> u64_max
     \<and> context_ok (ctx st) \<and> coverage_ok (committed st)"

lemma new_stream_ok [simp]: "stream_ok (new_stream i line)"
  by (simp add: stream_ok_def new_stream_def)

lemma text_char_ok: "stream_ok st \<Longrightarrow> stream_ok (text_char ch st)"
  by (simp add: stream_ok_def text_char_def)

lemma absorb_ok: "stream_ok st \<Longrightarrow> stream_ok (absorb ch st)"
proof -
  have keep: "stream_ok st \<Longrightarrow> stream_ok (st\<lparr>pending_cr := b\<rparr>)"
    "stream_ok st \<Longrightarrow> stream_ok (st\<lparr>line_active := b\<rparr>)" for st b
    by (simp_all add: stream_ok_def)
  assume "stream_ok st"
  then have "stream_ok (flush_cr (st\<lparr>line_active := True\<rparr>))"
    using keep text_char_ok by (simp add: flush_cr_def)
  then show ?thesis using keep text_char_ok by (simp add: absorb_def Let_def)
qed

lemma emit_record_ok: "stream_ok st \<Longrightarrow> stream_ok (fst (emit_record env path pr (st, d)))"
  by (cases "provisional_id st"; cases pr) (simp_all add: emit_record_def Let_def stream_ok_def)

lemma line_content_ok: "stream_ok st \<Longrightarrow> stream_ok (fst (line_content env path (st, d)))"
proof -
  assume "stream_ok st"
  then have "stream_ok (st\<lparr>ctx := line_ctx st\<rparr>)" by (simp add: stream_ok_def line_ctx_ok)
  then show ?thesis by (simp add: line_content_alt emit_record_ok)
qed

lemma close_line_ok: "stream_ok st \<Longrightarrow> stream_ok (close_line st)"
  by (simp add: close_line_def stream_ok_def)

lemma push_char_ok: "stream_ok st \<Longrightarrow> stream_ok (fst (push_char env path ch (st, d)))"
proof (cases "ch = newline")
  case True
  assume "stream_ok st"
  then have "stream_ok (st\<lparr>line_active := True\<rparr>)" by (simp add: stream_ok_def)
  then have "stream_ok (close_line (fst (line_content env path (st\<lparr>line_active := True\<rparr>, d))))"
    by (intro close_line_ok line_content_ok)
  then show ?thesis
    using True by (auto simp: push_char_def newline_def finish_line_def Let_def split: prod.split)
qed (simp add: push_char_absorb absorb_ok)

lemma fold_push_ok: "stream_ok (fst sd) \<Longrightarrow> stream_ok (fst (fold (push_char env path) cs sd))"
proof (induction cs arbitrary: sd)
  case (Cons ch cs)
  then show ?case using push_char_ok [of "fst sd" env path ch "snd sd"] by simp
qed simp

lemma push_text_ok: "stream_ok st \<Longrightarrow> stream_ok (fst (push_text env path cs st))"
  using fold_push_ok [of "(st, empty_delta)" env path cs]
  by (auto simp: push_text_def Let_def intro: emit_record_ok split: prod.split)
    (metis emit_record_ok fst_conv)

lemma snapshot_ok: "stream_ok st \<Longrightarrow> stream_ok (fst (snapshot_eof env path st))"
proof -
  assume "stream_ok st"
  then have "stream_ok (if line_active st then st\<lparr>observed := next_line st\<rparr> else st)"
    by (simp add: stream_ok_def)
  then show ?thesis
    using emit_record_ok by (simp add: snapshot_eof_def Let_def split: prod.split) (metis fst_conv)
qed

lemma reachable_ok: "reachable env path st \<Longrightarrow> stream_ok st"
  by (induction rule: reachable.induct) (simp_all add: push_text_ok snapshot_ok reset_generation_def)

text \<open>C35. Whatever is pushed, the pending line never outgrows its byte limit, the padding counter and
  every coverage counter stay machine integers, every coverage metric keeps at most eight distinct
  sample lines, and an installed schema is non-empty, made of plain names, and has no two names that
  differ only in case.\<close>

theorem reachable_bounded:
  assumes "reachable env path st"
  shows "length (pending st) \<le> 65536 \<and> pad_count st < 2 ^ 64 \<and> coverage_ok (stream_coverage st)
    \<and> context_ok (ctx st)"
  using reachable_ok [OF assms]
  by (simp add: stream_ok_def max_line_bytes_def u64_max_def stream_coverage_def Let_def)

lemma reachable_bounded_witness:
  "length (pending (fst (snapshot_eof \<lparr>parse_datetime = \<lambda>_. None, is_ip = \<lambda>_. False\<rparr> ''f''
     (new_stream 1 1)))) \<le> 65536"
  using reachable_bounded [OF reachable.snapshots [OF reachable.start]] by blast

subsection \<open>Mapped records\<close>

lemma find_distinct_name:
  assumes "distinct (List.map ascii_lower fs)" "i < length fs"
  shows "List.find (\<lambda>f. eq_ignore_case (field_name f) (fs ! i)) (map_fields fs tokens) =
    Some \<lparr>field_name = fs ! i, field_value = token_at tokens i\<rparr>"
proof -
  have "eq_ignore_case (fs ! j) (fs ! i) \<longleftrightarrow> j = i" if "j < length fs" for j
    using that assms nth_eq_iff_index_eq [of "List.map ascii_lower fs" j i]
    by (simp add: eq_ignore_case_def)
  then show ?thesis
    using assms(2) by (auto simp: find_Some_iff map_fields_def nth_Cons' intro!: exI [of _ i])
qed

lemma canonical_fields_distinct: "distinct (List.map ascii_lower (take n canonical_fields))"
proof -
  have "distinct (List.map ascii_lower canonical_fields)" by code_simp
  then show ?thesis using distinct_take [of "List.map ascii_lower canonical_fields" n] by (simp add: take_map)
qed

lemma schema_of_distinct:
  "context_ok c \<Longrightarrow> schema_of env c tokens = (fs, origin) \<Longrightarrow> origin \<noteq> Unavailable \<Longrightarrow>
     distinct (List.map ascii_lower fs)"
  by (auto simp: schema_of_def context_ok_def schema_ok_def canonical_fields_distinct
      split: option.splits if_splits)

lemma parse_record_fields [simp]:
  "row_firewall (result_entry (parse_record env line c i n path)) = build_record env line c"
  "raw_line (build_record env line c) = line"
  by (simp_all add: parse_record_def build_record_def Let_def split: prod.split)

text \<open>C34. A record that is not malformed loses nothing: each column of its schema reads back the
  white-space token at its position, found by name whatever the case; the only column that may be
  missing is the last one, of an events-lost record. Every record keeps its line as it was.\<close>

theorem mapped_record_lossless:
  assumes "context_ok c"
    and "r = row_firewall (result_entry (parse_record env line c i n path))"
    and "rec_kind r \<noteq> MalformedRecord"
  shows "raw_line r = line
    \<and> List.map field_name (rec_fields r) = rec_declared r
    \<and> list_all (\<lambda>k. field_of r (rec_declared r ! k) = token_at (split_ws line) k)
        [0..<length (rec_declared r)]
    \<and> length (split_ws line) + (if rec_kind r = EventsLost then 1 else 0) \<ge> length (rec_declared r)
    \<and> length (split_ws line) \<le> length (rec_declared r)"
proof -
  obtain fs origin where s: "schema_of env c (split_ws line) = (fs, origin)" by fastforce
  have r: "r = build_record env line c" using assms(2) by simp
  have o: "origin \<noteq> Unavailable" "rec_fields r = map_fields fs (split_ws line)" "rec_declared r = fs"
    using assms(3) s by (auto simp: r build_record_def Let_def split: if_splits)
  have len: "length (split_ws line) + (if rec_kind r = EventsLost then 1 else 0) \<ge> length fs"
    "length (split_ws line) \<le> length fs"
    using assms(3) s by (auto simp: r build_record_def Let_def split: if_splits)
  have "field_of r (fs ! k) = token_at (split_ws line) k" if "k < length fs" for k
    using find_distinct_name [OF schema_of_distinct [OF assms(1) s o(1)] that] o(2)
    by (simp add: field_of_def)
  moreover have "List.map field_name (map_fields fs (split_ws line)) = fs"
    by (simp add: map_fields_def comp_def map_nth)
  ultimately show ?thesis using o len r by (simp add: list_all_iff)
qed

lemma mapped_record_lossless_witness:
  "raw_line (row_firewall (result_entry (parse_record \<lparr>parse_datetime = \<lambda>_. None, is_ip = \<lambda>_. False\<rparr>
     ''x  DROP'' (default_context\<lparr>declared_fields := Some [''date'', ''Action'']\<rparr>) 1 1 ''f''))) = ''x  DROP''"
proof -
  have "rec_kind (build_record \<lparr>parse_datetime = \<lambda>_. None, is_ip = \<lambda>_. False\<rparr>
     ''x  DROP'' (default_context\<lparr>declared_fields := Some [''date'', ''Action'']\<rparr>)) = Traffic"
    by code_simp
  moreover have "context_ok (default_context\<lparr>declared_fields := Some [''date'', ''Action'']\<rparr>)"
    by (simp add: context_ok_def schema_ok_def default_context_def field_name_ok_def is_alpha_def
        is_digit_def ascii_lower_def lower_char_def)
  ultimately show ?thesis
    using mapped_record_lossless [OF _ refl, of "default_context\<lparr>declared_fields := Some [''date'', ''Action'']\<rparr>"
        "\<lparr>parse_datetime = \<lambda>_. None, is_ip = \<lambda>_. False\<rparr>" "''x  DROP''" 1 1 "''f''"]
    by simp
qed

subsection \<open>The probe\<close>

lemma probe_loop_bound: "scanned \<le> max_line_bytes \<Longrightarrow> snd (probe_loop env rest scanned m) \<le> max_line_bytes"
proof (induction env rest scanned m rule: probe_loop.induct)
  case (1 env rest scanned m)
  show ?case
    using 1 by (subst probe_loop.simps) (auto simp: Let_def)
qed

text \<open>However long the content and its lines, the probe inspects at most 65536 bytes besides the
  NUL padding at the start of lines.\<close>

theorem probe_within_budget: "snd (probe_measured env content) \<le> 65536"
  using probe_loop_bound [of 0 env content 0] by (simp add: probe_measured_def max_line_bytes_def)

definition meaningful_lines :: "string \<Rightarrow> string list" where
  "meaningful_lines s = List.filter (\<lambda>l. l \<noteq> []) (List.map str_trim (split_on (CHR 0x0A) s))"

lemma meaningful_lines_Nil [simp]: "meaningful_lines [] = []"
  by (simp add: meaningful_lines_def)

lemma in_set_tlD: "x \<in> set (tl xs) \<Longrightarrow> x \<in> set xs"
  by (cases xs) auto

lemma dropWhile_no_nul: "CHR 0x00 \<notin> set s \<Longrightarrow> dropWhile (\<lambda>c. c = CHR 0x00) s = s"
  by (cases s) auto

lemma meaningful_lines_step:
  fixes s :: string
  defines "l \<equiv> takeWhile (\<lambda>c. c \<noteq> CHR 0x0A) s" and "t \<equiv> dropWhile (\<lambda>c. c \<noteq> CHR 0x0A) s"
  shows "meaningful_lines s =
    (if str_trim l = [] then meaningful_lines (tl t) else str_trim l # meaningful_lines (tl t))"
proof (cases "t = []")
  case True
  then have "CHR 0x0A \<notin> set s" by (auto simp: t_def)
  moreover have "l = s"
    using True takeWhile_dropWhile_id [of "\<lambda>c. c \<noteq> CHR 0x0A" s] by (simp add: l_def t_def)
  ultimately show ?thesis by (simp add: True meaningful_lines_def split_on_absent)
next
  case False
  then have "t = CHR 0x0A # tl t" using hd_dropWhile [of "\<lambda>c. c \<noteq> CHR 0x0A" s]
    by (cases t) (auto simp: t_def)
  then have "s = l @ CHR 0x0A # tl t" using takeWhile_dropWhile_id [of "\<lambda>c. c \<noteq> CHR 0x0A" s] l_def t_def by simp
  moreover have "CHR 0x0A \<notin> set l" using set_takeWhileD by (fastforce simp: l_def)
  ultimately have "split_on (CHR 0x0A) s = l # split_on (CHR 0x0A) (tl t)"
    by (metis split_on_append)
  then show ?thesis by (simp add: meaningful_lines_def)
qed

lemma probe_loop_reference:
  "CHR 0x00 \<notin> set rest \<Longrightarrow> scanned + length rest \<le> max_line_bytes \<Longrightarrow>
     fst (probe_loop env rest scanned m) =
     list_ex (accepts_line env) (take (max_probe_lines - m) (meaningful_lines rest))"
proof (induction rest arbitrary: scanned m rule: measure_induct_rule [of length])
  case (less rest)
  let ?l = "takeWhile (\<lambda>c. c \<noteq> CHR 0x0A) rest" and ?t = "dropWhile (\<lambda>c. c \<noteq> CHR 0x0A) rest"
  show ?case
  proof (cases "rest = [] \<or> m \<ge> max_probe_lines")
    case True
    then show ?thesis by (auto simp: probe_loop.simps [of env rest])
  next
    case False
    have n: "dropWhile (\<lambda>c. c = CHR 0x00) rest = rest" using less.prems(1) by (rule dropWhile_no_nul)
    have lt: "length ?l + length ?t = length rest" by (metis length_append takeWhile_dropWhile_id)
    have nt: "CHR 0x00 \<notin> set (tl ?t)" using less.prems(1) in_set_tlD set_dropWhileD by metis
    have sh: "length (tl ?t) < length rest"
      using length_dropWhile_tl [of rest "\<lambda>c. c \<noteq> CHR 0x0A" "\<lambda>c. False"] False by simp
    let ?s = "if ?t \<noteq> [] then scanned + length ?l + 1 else scanned + length ?l"
    have le: "scanned + length ?l \<le> max_line_bytes" "?t \<noteq> [] \<Longrightarrow> scanned + length ?l < max_line_bytes"
      using lt less.prems(2) by (auto simp flip: length_greater_0_conv simp del: dropWhile_eq_Nil_conv)
    have sc: "?s + length (tl ?t) \<le> max_line_bytes"
      using lt less.prems(2) by (cases ?t) (auto simp del: dropWhile_eq_Nil_conv)
    have step: "probe_loop env rest scanned m =
      (if str_trim ?l = [] then probe_loop env (tl ?t) ?s m
       else if accepts_line env (str_trim ?l) then (True, ?s) else probe_loop env (tl ?t) ?s (m + 1))"
      using False le by (subst probe_loop.simps) (auto simp: n Let_def simp del: dropWhile_eq_Nil_conv)
    note ih = less.IH [OF sh nt sc]
    have "max_probe_lines - m = Suc (max_probe_lines - (m + 1))" using False by auto
    then show ?thesis
      using ih by (simp add: step meaningful_lines_step [of rest] del: dropWhile_eq_Nil_conv)
  qed
qed

text \<open>On a content within the byte budget and without NUL padding the probe accepts exactly when one
  of its first 128 non-blank lines, trimmed, is an accepted directive or record.\<close>

theorem probe_reference:
  assumes "CHR 0x00 \<notin> set content" and "length content \<le> 65536"
  shows "probe env content \<longleftrightarrow> list_ex (accepts_line env) (take 128 (meaningful_lines content))"
  using probe_loop_reference [of content 0 env 0] assms
  by (simp add: probe_def probe_measured_def max_line_bytes_def max_probe_lines_def)

lemma probe_reference_witness:
  "probe \<lparr>parse_datetime = \<lambda>_. None, is_ip = \<lambda>_. False\<rparr> ''#Software: Microsoft Windows Firewall'' \<longleftrightarrow>
   list_ex (accepts_line \<lparr>parse_datetime = \<lambda>_. None, is_ip = \<lambda>_. False\<rparr>)
     (take 128 (meaningful_lines ''#Software: Microsoft Windows Firewall''))"
  by (rule probe_reference) simp_all

end
