(* ===== verification/Dns.thy ===== *)
theory Dns
  imports TimelineModel
begin

text \<open>
  \<open>parser/dns_types.rs\<close> of \<open>cmtraceopen-parser\<close>: the names of query types and response codes, the
  severity of a response, and the names of queries in wire or dotted notation. A \<open>u32\<close> code is a
  natural number, a string its UTF-8 bytes, \<open>usize\<close> 64 bits wide.
\<close>

subsection \<open>Codes\<close>

definition qtypes :: "(nat \<times> string) list" where
  "qtypes =
    [(1, ''A''), (2, ''NS''), (5, ''CNAME''), (6, ''SOA''), (12, ''PTR''), (13, ''HINFO''),
     (15, ''MX''), (16, ''TXT''), (17, ''RP''), (18, ''AFSDB''), (24, ''SIG''), (25, ''KEY''),
     (28, ''AAAA''), (29, ''LOC''), (33, ''SRV''), (35, ''NAPTR''), (36, ''KX''), (37, ''CERT''),
     (39, ''DNAME''), (41, ''OPT''), (43, ''DS''), (44, ''SSHFP''), (45, ''IPSECKEY''),
     (46, ''RRSIG''), (47, ''NSEC''), (48, ''DNSKEY''), (49, ''DHCID''), (50, ''NSEC3''),
     (51, ''NSEC3PARAM''), (52, ''TLSA''), (53, ''SMIMEA''), (55, ''HIP''), (59, ''CDS''),
     (60, ''CDNSKEY''), (61, ''OPENPGPKEY''), (64, ''SVCB''), (65, ''HTTPS''), (99, ''SPF''),
     (249, ''TKEY''), (250, ''TSIG''), (251, ''IXFR''), (252, ''AXFR''), (255, ''ANY''),
     (256, ''URI''), (257, ''CAA''), (65281, ''WINS''), (65282, ''WINSR'')]"

definition qtype_name :: "nat \<Rightarrow> string" where
  "qtype_name code =
     (case map_of qtypes code of Some n \<Rightarrow> n | None \<Rightarrow> ''UNKNOWN('' @ dec code @ '')'')"

definition rcodes :: "(nat \<times> string) list" where
  "rcodes =
    [(0, ''NOERROR''), (1, ''FORMERR''), (2, ''SERVFAIL''), (3, ''NXDOMAIN''), (4, ''NOTIMP''),
     (5, ''REFUSED''), (6, ''YXDOMAIN''), (7, ''YXRRSET''), (8, ''NXRRSET''), (9, ''NOTAUTH''),
     (10, ''NOTZONE''), (16, ''BADSIG''), (17, ''BADKEY''), (18, ''BADTIME''), (19, ''BADMODE''),
     (20, ''BADNAME''), (21, ''BADALG''), (22, ''BADTRUNC''), (23, ''BADCOOKIE'')]"

definition rcode_name :: "nat \<Rightarrow> string" where
  "rcode_name code =
     (case map_of rcodes code of Some n \<Rightarrow> n | None \<Rightarrow> ''RCODE('' @ dec code @ '')'')"

definition rcode_to_severity :: "string \<Rightarrow> severity" where
  "rcode_to_severity rcode =
     (if rcode = ''NOERROR'' then LogInfo
      else if rcode = ''NXDOMAIN'' then LogWarning
      else if rcode \<in> {''SERVFAIL'', ''REFUSED'', ''FORMERR''} then LogError
      else LogWarning)"

subsection \<open>Names\<close>

text \<open>The bytes of the first character.\<close>

definition first_char_len :: "string \<Rightarrow> nat" where
  "first_char_len s = 1 + length (takeWhile is_cont (tl s))"

lemma split_once_shorter: "split_once c s = Some (u, t) \<Longrightarrow> length t < length s"
  by (auto simp: split_once_Some)

text \<open>The loop of \<open>decode_wire_format\<close>: \<open>[\<dots>]\<close> is a compression pointer and skipped, \<open>(N)\<close> announces a
  label of \<open>N\<close> bytes, \<open>(0)\<close> and anything malformed ends the name.\<close>

function wire_labels :: "string \<Rightarrow> string list" where
  "wire_labels s =
     (if s = [] then []
      else if hd s = CHR ''['' then
        (case split_once (CHR '']'') s of
           None \<Rightarrow> []
         | Some (_, rest) \<Rightarrow> wire_labels rest)
      else if hd s = CHR ''('' then
        (case split_once (CHR '')'') s of
           None \<Rightarrow> []
         | Some (u, after) \<Rightarrow>
             (case parse_uint u64_max (tl u) of
                None \<Rightarrow> []
              | Some len \<Rightarrow>
                  if len = 0 then []
                  else
                    (let e = min len (length after) in
                     if \<not> is_char_boundary after e then []
                     else if take e after \<noteq> [] then take e after # wire_labels (drop e after)
                     else wire_labels (drop e after))))
      else wire_labels (drop (first_char_len s) s))"
  by pat_completeness auto

termination
  by (relation "measure length") (auto simp: first_char_len_def dest!: split_once_shorter)

declare wire_labels.simps [simp del]

definition decode_wire_format :: "string \<Rightarrow> string" where
  "decode_wire_format raw =
     (let labels = wire_labels raw in
      if labels = [] then (if str_trim raw = ''(0)'' then ''.'' else [])
      else join ''.'' labels)"

text \<open>\<open>trim_matches\<close> with a character.\<close>

definition trim_matches :: "char \<Rightarrow> string \<Rightarrow> string" where
  "trim_matches c s = rev (dropWhile (\<lambda>d. d = c) (rev (dropWhile (\<lambda>d. d = c) s)))"

definition decode_query_name :: "string \<Rightarrow> string" where
  "decode_query_name raw =
     (if raw = [] then []
      else if CHR ''('' \<in> set raw then decode_wire_format raw
      else trim_matches (CHR ''.'') raw)"

subsection \<open>Names of codes are not ambiguous\<close>

lemma table_name_inj:
  fixes pre suf :: string
  assumes tab: "distinct (List.map snd tab)" "list_all (\<lambda>(_, n). \<not> prefix pre n) tab"
  defines "nm \<equiv> \<lambda>c. (case map_of tab c of Some n \<Rightarrow> n | None \<Rightarrow> pre @ dec c @ suf)"
  shows "nm a = nm b \<longleftrightarrow> a = b"
proof
  assume eq: "nm a = nm b"
  have np: "n \<noteq> pre @ x" if "map_of tab c = Some n" for c n x
    using map_of_SomeD [OF that] tab(2) by (auto simp: list_all_iff)
  show "a = b"
  proof (cases "map_of tab a")
    case None
    then have "map_of tab b = None" using eq np by (auto simp: nm_def split: option.splits)
    then have "dec a = dec b" using None eq by (simp add: nm_def)
    then show ?thesis using digits_val_dec by metis
  next
    case (Some n)
    then obtain "map_of tab b = Some n" using eq np by (auto simp: nm_def split: option.splits)
    then have "(a, n) \<in> set tab" "(b, n) \<in> set tab" using Some by (auto dest: map_of_SomeD)
    then show ?thesis using tab(1) inj_onD [of snd "set tab" "(a, n)" "(b, n)"] by (simp add: distinct_map)
  qed
qed simp

lemma qtypes_table: "distinct (List.map snd qtypes)" "list_all (\<lambda>(_, n). \<not> prefix ''UNKNOWN('' n) qtypes"
  by (simp_all add: qtypes_def)

lemma rcodes_table: "distinct (List.map snd rcodes)" "list_all (\<lambda>(_, n). \<not> prefix ''RCODE('' n) rcodes"
  by (simp_all add: rcodes_def)

text \<open>The printed name of a query type or of a response code determines the code: known names are
  not shared, and no known name looks like the rendering of an unknown code.\<close>

theorem code_names_injective:
  "(qtype_name a = qtype_name b \<longleftrightarrow> a = b) \<and> (rcode_name a = rcode_name b \<longleftrightarrow> a = b)"
  unfolding qtype_name_def rcode_name_def
  using table_name_inj [OF qtypes_table] table_name_inj [OF rcodes_table] by blast

subsection \<open>Wire names\<close>

text \<open>What a server prints for a name: labels with their length, and pointers between them.\<close>

datatype wire_item = Label string | Pointer string

fun print_item :: "wire_item \<Rightarrow> string" where
  "print_item (Label l) = ''('' @ dec (length l) @ '')'' @ l"
| "print_item (Pointer p) = ''['' @ p @ '']''"

fun item_ok :: "wire_item \<Rightarrow> bool" where
  "item_ok (Label l) \<longleftrightarrow> l \<noteq> [] \<and> length l \<le> u64_max"
| "item_ok (Pointer p) \<longleftrightarrow> CHR '']'' \<notin> set p"

fun labels_of :: "wire_item list \<Rightarrow> string list" where
  "labels_of [] = []"
| "labels_of (Label l # ws) = l # labels_of ws"
| "labels_of (Pointer p # ws) = labels_of ws"

definition print_name :: "wire_item list \<Rightarrow> string" where
  "print_name ws = concat (List.map print_item ws) @ ''(0)''"

lemma wire_labels_pointer:
  "CHR '']'' \<notin> set p \<Longrightarrow> wire_labels (CHR ''['' # p @ CHR '']'' # t) = wire_labels t"
proof -
  assume "CHR '']'' \<notin> set p"
  then have "split_once (CHR '']'') ((CHR ''['' # p) @ CHR '']'' # t) = Some (CHR ''['' # p, t)"
    by (intro split_once_at) simp
  then show ?thesis by (subst wire_labels.simps) simp
qed

lemma split_once_length:
  "split_once (CHR '')'') (CHR ''('' # dec n @ CHR '')'' # t) = Some (CHR ''('' # dec n, t)"
proof -
  have "CHR '')'' \<notin> set (dec n)" using dec_digits [of "CHR '')''" n] by (auto simp: is_digit_def)
  then have "split_once (CHR '')'') ((CHR ''('' # dec n) @ CHR '')'' # t) = Some (CHR ''('' # dec n, t)"
    by (intro split_once_at) simp
  then show ?thesis by simp
qed

lemma wire_labels_label:
  "l \<noteq> [] \<Longrightarrow> length l \<le> u64_max \<Longrightarrow> t \<noteq> [] \<Longrightarrow> \<not> is_cont (hd t) \<Longrightarrow>
     wire_labels (CHR ''('' # dec (length l) @ CHR '')'' # l @ t) = l # wire_labels t"
  by (subst wire_labels.simps)
    (simp add: split_once_length parse_uint_dec is_char_boundary_def nth_append hd_conv_nth)

lemma wire_labels_root: "wire_labels ''(0)'' = []"
  by (subst wire_labels.simps)
    (simp add: split_once_def parse_uint_def digits_val_def digit_val_def is_digit_def)

lemma print_name_start: "print_name ws \<noteq> []" "\<not> is_cont (hd (print_name ws))"
proof -
  have "\<exists>c t. print_name ws = c # t \<and> c \<in> {CHR ''('', CHR ''[''}"
    by (cases ws rule: labels_of.cases) (auto simp: print_name_def)
  moreover have "\<not> is_cont (CHR ''('')" "\<not> is_cont (CHR ''['')" by code_simp+
  ultimately show "print_name ws \<noteq> []" "\<not> is_cont (hd (print_name ws))" by auto
qed

lemma wire_labels_print: "list_all item_ok ws \<Longrightarrow> wire_labels (print_name ws) = labels_of ws"
proof (induction ws rule: labels_of.induct)
  case (2 l ws)
  then have "wire_labels (CHR ''('' # dec (length l) @ CHR '')'' # l @ print_name ws) = l # labels_of ws"
    using wire_labels_label [of l "print_name ws"] print_name_start by simp
  then show ?case by (simp add: print_name_def)
next
  case (3 p ws)
  then show ?case using wire_labels_pointer [of p "print_name ws"] by (simp add: print_name_def)
qed (simp add: print_name_def wire_labels_root)

text \<open>A printed query name decodes to its labels joined by dots, whatever bytes the labels hold
  (parentheses, brackets and non-ASCII text included) and wherever compression pointers stand.\<close>

theorem query_name_roundtrip:
  assumes "list_all item_ok ws" and "labels_of ws \<noteq> []"
  shows "decode_query_name (print_name ws) = join ''.'' (labels_of ws)"
proof -
  have "CHR ''('' \<in> set (print_name ws)" by (simp add: print_name_def)
  then show ?thesis
    using wire_labels_print [OF assms(1)] assms(2) print_name_start(1)
    by (simp add: decode_query_name_def decode_wire_format_def)
qed

lemma query_name_roundtrip_witness:
  "decode_query_name (print_name [Pointer ''C02B'', Label ''dns3'', Pointer ''C00C'', Label ''a(b'']) = ''dns3.a(b''"
  using query_name_roundtrip [of "[Pointer ''C02B'', Label ''dns3'', Pointer ''C00C'', Label ''a(b'']"]
  by (simp add: u64_max_def)

text \<open>Bounds: the labels fit in the text, with room for the dots.\<close>

lemma wire_labels_bound: "sum_list (List.map length (wire_labels s)) + 3 * length (wire_labels s) \<le> length s"
proof (induction s rule: measure_induct_rule [of length])
  case (less s)
  consider "s = []" | "s \<noteq> []" "hd s = CHR ''[''" | "s \<noteq> []" "hd s = CHR ''(''"
    | "s \<noteq> []" "hd s \<noteq> CHR ''[''" "hd s \<noteq> CHR ''(''" by blast
  then show ?case
  proof cases
    case 2
    then show ?thesis
      using less [OF split_once_shorter] less_imp_le split_once_shorter
      by (fastforce simp: wire_labels.simps [of s] split: option.split intro: order.trans)
  next
    case 3
    show ?thesis
    proof (cases "split_once (CHR '')'') s")
      case None
      then show ?thesis using 3 by (simp add: wire_labels.simps [of s])
    next
      case (Some ut)
      obtain u after where ua: "ut = (u, after)" by fastforce
      note so = Some [unfolded ua]
      show ?thesis
      proof (cases "parse_uint u64_max (tl u)")
        case None
        then show ?thesis using 3 so by (simp add: wire_labels.simps [of s])
      next
        case (Some len)
        let ?e = "min len (length after)"
        have "tl u \<noteq> []" using Some by (auto simp: parse_uint_def)
        then have "length u \<ge> 2" by (cases u; cases "tl u") auto
        then have long: "length after + 3 \<le> length s" using so by (auto simp: split_once_Some)
        have wl: "wire_labels s =
          (if len = 0 \<or> \<not> is_char_boundary after ?e then []
           else if take ?e after \<noteq> [] then take ?e after # wire_labels (drop ?e after)
           else wire_labels (drop ?e after))"
          using 3 so Some by (simp add: wire_labels.simps [of s] Let_def)
        have ih: "sum_list (List.map length (wire_labels (drop ?e after)))
            + 3 * length (wire_labels (drop ?e after)) \<le> length (drop ?e after)"
          using long by (intro less) simp
        show ?thesis using ih long by (auto simp: wl)
      qed
    qed
  next
    case 4
    then have "wire_labels s = wire_labels (drop (first_char_len s) s)" by (simp add: wire_labels.simps [of s])
    moreover have "length (drop (first_char_len s) s) < length s" using 4 by (simp add: first_char_len_def)
    ultimately show ?thesis using less [of "drop (first_char_len s) s"] by simp
  qed (simp add: wire_labels.simps)
qed

lemma length_join_dots: "length (join [c] ls) \<le> sum_list (List.map length ls) + length ls"
  by (induction ls) (simp_all add: join_Cons)

lemma length_trim_matches: "length (trim_matches c s) \<le> length s"
  using length_dropWhile_le [of "\<lambda>d. d = c" "rev (dropWhile (\<lambda>d. d = c) s)"]
    length_dropWhile_le [of "\<lambda>d. d = c" s] by (simp add: trim_matches_def)

text \<open>A decoded name is never longer than what was read, whatever length the log claims for a label.\<close>

theorem query_name_no_longer: "length (decode_query_name raw) \<le> length raw"
proof (cases "CHR ''('' \<in> set raw \<and> wire_labels raw \<noteq> []")
  case True
  then have "length (decode_query_name raw) \<le> sum_list (List.map length (wire_labels raw)) + length (wire_labels raw)"
    using length_join_dots by (auto simp: decode_query_name_def decode_wire_format_def)
  then show ?thesis using wire_labels_bound [of raw] by linarith
next
  case False
  then show ?thesis
    using length_trim_matches [of "CHR ''.''" raw]
    by (cases "raw = []") (auto simp: decode_query_name_def decode_wire_format_def Suc_le_eq)
qed

end
