(* ===== verification/TextSeverity.thy ===== *)
theory TextSeverity
  imports TimelineModel
begin

text \<open>
  \<open>parser/severity.rs\<close> of \<open>cmtraceopen-parser\<close>: the keyword search that gives plain-text lines their
  severity, with its allocation-free comparison, and its specification over the lower-cased text.
\<close>

subsection \<open>The search\<close>

text \<open>\<open>slice::windows\<close>\<close>

definition windows :: "nat \<Rightarrow> string \<Rightarrow> string list" where
  "windows n h = List.map (\<lambda>i. take n (drop i h)) [0..<length h + 1 - n]"

definition contains_ci :: "string \<Rightarrow> string \<Rightarrow> bool" where
  "contains_ci h needle \<longleftrightarrow>
     (if length h < length needle then False
      else list_ex (\<lambda>w. list_all (\<lambda>(a, b). lower_char a = b) (zip w needle))
             (windows (length needle) h))"

definition detect_severity_from_text :: "string \<Rightarrow> severity" where
  "detect_severity_from_text txt =
     (if contains_ci txt ''error'' \<or> contains_ci txt ''exception'' \<or> contains_ci txt ''critical''
         \<or> contains_ci txt ''fatal''
      then LogError
      else if contains_ci txt ''fail'' \<and> \<not> contains_ci txt ''failover'' then LogError
      else if contains_ci txt ''warn'' then LogWarning
      else LogInfo)"

subsection \<open>Its specification\<close>

lemma list_all_zip_lower:
  "length w = length p \<Longrightarrow> list_all (\<lambda>(a, b). lower_char a = b) (zip w p) \<longleftrightarrow> ascii_lower w = p"
  by (induction w p rule: list_induct2) (auto simp: ascii_lower_def)

lemma windows_length: "w \<in> set (windows n h) \<Longrightarrow> n \<le> length h \<Longrightarrow> length w = n"
  by (auto simp: windows_def)

lemma windows_sublist: "n \<le> length h \<Longrightarrow> w \<in> set (windows n h) \<longleftrightarrow> length w = n \<and> sublist w h"
proof
  assume n: "n \<le> length h"
  show "length w = n \<and> sublist w h \<Longrightarrow> w \<in> set (windows n h)"
  proof -
    assume "length w = n \<and> sublist w h"
    then obtain u v where "h = u @ w @ v" "length w = n" by (auto simp: sublist_def)
    then show ?thesis by (auto simp: windows_def intro!: image_eqI [of _ _ "length u"])
  qed
  assume w: "w \<in> set (windows n h)"
  then obtain i where "w = take n (drop i h)" by (auto simp: windows_def)
  then have "h = take i h @ w @ drop n (drop i h)" by (metis append_take_drop_id)
  then have "sublist w h" unfolding sublist_def by blast
  with w n show "length w = n \<and> sublist w h" by (simp add: windows_length)
qed

lemma sublist_map_inv: "sublist p (List.map f h) \<longleftrightarrow> (\<exists>w. sublist w h \<and> p = List.map f w)"
proof
  assume "sublist p (List.map f h)"
  then obtain u v where "List.map f h = u @ p @ v" by (auto simp: sublist_def)
  then obtain a b c where "h = a @ b @ c" "p = List.map f b" by (auto simp: map_eq_append_conv append_eq_map_conv)
  then show "\<exists>w. sublist w h \<and> p = List.map f w" by (auto simp: sublist_def)
next
  assume "\<exists>w. sublist w h \<and> p = List.map f w"
  then show "sublist p (List.map f h)" by (metis map_append sublist_def)
qed

lemma contains_ci_iff: "contains_ci h p \<longleftrightarrow> str_contains (ascii_lower h) p"
proof (cases "length p \<le> length h")
  case True
  then have "contains_ci h p \<longleftrightarrow> (\<exists>w. sublist w h \<and> ascii_lower w = p)"
    by (auto simp: contains_ci_def list_ex_iff windows_sublist list_all_zip_lower)
  then show ?thesis by (auto simp: str_contains_def ascii_lower_def sublist_map_inv)
next
  case False
  then show ?thesis
    using sublist_length_le [of p "ascii_lower h"] by (auto simp: contains_ci_def str_contains_def)
qed

text \<open>The search without a lower-cased copy decides as a search in the lower-cased text would: an
  error for the four error words, and for the word fail unless failover occurs; then a warning; else
  information. The case of the text does not matter.\<close>

theorem detect_severity_reference:
  "detect_severity_from_text t =
     (let has = str_contains (ascii_lower t) in
      if list_ex has [''error'', ''exception'', ''critical'', ''fatal''] \<or> (has ''fail'' \<and> \<not> has ''failover'')
      then LogError
      else if has ''warn'' then LogWarning else LogInfo)
   \<and> detect_severity_from_text (ascii_lower t) = detect_severity_from_text t"
  by (simp add: detect_severity_from_text_def contains_ci_iff Let_def)

text \<open>A failure that is reported after a failover is not an error.\<close>

lemma failover_hides_failure: "detect_severity_from_text ''Failover done, backup failed'' = LogInfo"
  by code_simp

end
