(* ===== verification/TextScan.thy ===== *)
theory TextScan
  imports RustStr
begin

text \<open>
  More of \<open>str\<close>, for the code that scans a text by byte offsets: slices, substring search, physical
  lines, the largest character boundary below an offset, hexadecimal printing, and \<open>i32\<close> and \<open>i64\<close>
  arithmetic (a value is an integer; \<open>wrap32\<close> and \<open>wrap64\<close> are what the wrapping operations of the
  release profile return).
\<close>

subsection \<open>Slices\<close>

definition slice :: "string \<Rightarrow> nat \<Rightarrow> nat \<Rightarrow> string" where
  "slice s a b = take (b - a) (drop a s)"

lemma slice_same [simp]: "slice s a a = []"
  by (simp add: slice_def)

lemma length_slice: "b \<le> length s \<Longrightarrow> length (slice s a b) = b - a"
  by (simp add: slice_def)

lemma slice_append: "a \<le> b \<Longrightarrow> b \<le> c \<Longrightarrow> slice s a b @ slice s b c = slice s a c"
proof -
  assume "a \<le> b" "b \<le> c"
  then have "take (c - a) (drop a s) = take (b - a) (drop a s) @ take (c - b) (drop (b - a) (drop a s))"
    using take_add [of "b - a" "c - b" "drop a s"] by simp
  then show ?thesis using \<open>a \<le> b\<close> by (simp add: slice_def)
qed

lemma slice_to_end: "slice s a (length s) = drop a s"
  by (simp add: slice_def)

subsection \<open>Searching\<close>

text \<open>\<open>str::find\<close> with a string: the byte offset of the first occurrence.\<close>

fun str_find :: "string \<Rightarrow> string \<Rightarrow> nat option" where
  "str_find p [] = (if p = [] then Some 0 else None)"
| "str_find p (c # s) = (if prefix p (c # s) then Some 0 else map_option Suc (str_find p s))"

lemma str_find_Some:
  "str_find p s = Some i \<Longrightarrow> prefix p (drop i s) \<and> i + length p \<le> length s \<and> (\<forall>j < i. \<not> prefix p (drop j s))"
proof (induction s arbitrary: i)
  case (Cons c s)
  show ?case
  proof (cases "prefix p (c # s)")
    case True
    then show ?thesis using Cons.prems prefix_length_le [OF True] by simp
  next
    case False
    then obtain k where k: "str_find p s = Some k" "i = Suc k" using Cons.prems by auto
    show ?thesis using Cons.IH [OF k(1)] False k(2) by (auto simp: less_Suc_eq_0_disj)
  qed
qed (simp split: if_splits)

lemma str_find_None: "str_find p s = None \<longleftrightarrow> (\<forall>i. \<not> prefix p (drop i s))"
proof (induction s)
  case (Cons c s)
  have "(\<forall>i. \<not> prefix p (drop i (c # s))) \<longleftrightarrow> \<not> prefix p (c # s) \<and> (\<forall>i. \<not> prefix p (drop i s))"
    by (metis drop0 drop_Suc_Cons not0_implies_Suc)
  then show ?case using Cons by simp
qed simp

lemma str_find_first: "prefix p (drop i s) \<Longrightarrow> (\<forall>j < i. \<not> prefix p (drop j s)) \<Longrightarrow> str_find p s = Some i"
proof (cases "str_find p s")
  case (Some k)
  assume "prefix p (drop i s)" "\<forall>j < i. \<not> prefix p (drop j s)"
  then show ?thesis using str_find_Some [OF Some] Some by (metis linorder_neqE_nat)
qed (simp add: str_find_None)

text \<open>\<open>str::rfind\<close> with a character.\<close>

fun last_index :: "char \<Rightarrow> string \<Rightarrow> nat option" where
  "last_index c [] = None"
| "last_index c (d # s) =
     (case last_index c s of Some i \<Rightarrow> Some (Suc i) | None \<Rightarrow> if d = c then Some 0 else None)"

lemma last_index_None: "last_index c s = None \<longleftrightarrow> c \<notin> set s"
  by (induction s) (auto split: option.splits)

lemma last_index_Some: "last_index c s = Some i \<Longrightarrow> i < length s \<and> s ! i = c \<and> c \<notin> set (drop (Suc i) s)"
  by (induction s arbitrary: i) (auto simp: last_index_None split: option.splits if_splits)

subsection \<open>Lines\<close>

text \<open>\<open>split_inclusive\<close> at line feeds, and \<open>lines\<close>.\<close>

function split_inclusive :: "string \<Rightarrow> string list" where
  "split_inclusive [] = []"
| "split_inclusive (c # s) =
     (let l = takeWhile (\<lambda>d. d \<noteq> CHR 0x0A) (c # s); t = dropWhile (\<lambda>d. d \<noteq> CHR 0x0A) (c # s)
      in if t = [] then [l] else (l @ [CHR 0x0A]) # split_inclusive (tl t))"
  by pat_completeness auto
termination
  by (relation "measure length") (auto simp: length_dropWhile_le le_imp_less_Suc less_Suc_eq_le
      intro: order.strict_trans1 [OF _ lessI] order.trans [OF diff_le_self])

fun strip_cr :: "string \<Rightarrow> string" where
  "strip_cr s = (if s \<noteq> [] \<and> last s = CHR 0x0D then butlast s else s)"

definition strip_newline :: "string \<Rightarrow> string" where
  "strip_newline s = (if s \<noteq> [] \<and> last s = CHR 0x0A then strip_cr (butlast s) else s)"

definition str_lines :: "string \<Rightarrow> string list" where
  "str_lines s = List.map strip_newline (split_inclusive s)"

text \<open>\<open>trim_end_matches\<close> with a set of characters.\<close>

definition trim_end_any :: "char list \<Rightarrow> string \<Rightarrow> string" where
  "trim_end_any cs s = rev (dropWhile (\<lambda>c. c \<in> set cs) (rev s))"

lemma concat_split_inclusive: "concat (split_inclusive s) = s"
proof (induction s rule: split_inclusive.induct)
  case (2 c s)
  let ?t = "dropWhile (\<lambda>d. d \<noteq> CHR 0x0A) (c # s)"
  have id: "takeWhile (\<lambda>d. d \<noteq> CHR 0x0A) (c # s) @ ?t = c # s" by (rule takeWhile_dropWhile_id)
  show ?case
  proof (cases "?t = []")
    case False
    then have "?t = CHR 0x0A # tl ?t" using hd_dropWhile [of "\<lambda>d. d \<noteq> CHR 0x0A" "c # s"] by (cases ?t) auto
    then show ?thesis using 2 [OF refl refl False] id False by (simp add: Let_def)
  qed (use id in \<open>simp add: Let_def\<close>)
qed simp

subsection \<open>Boundaries\<close>

text \<open>The largest character boundary at or below an offset.\<close>

fun floor_boundary :: "string \<Rightarrow> nat \<Rightarrow> nat" where
  "floor_boundary s 0 = 0"
| "floor_boundary s (Suc n) =
     (if is_char_boundary s (Suc n) then Suc n else floor_boundary s n)"

lemma floor_boundary_le: "floor_boundary s n \<le> n"
  by (induction n) auto

lemma floor_boundary_boundary: "is_char_boundary s (floor_boundary s n)"
  by (induction n) (auto simp: is_char_boundary_def)

lemma floor_boundary_greatest: "j \<le> n \<Longrightarrow> is_char_boundary s j \<Longrightarrow> j \<le> floor_boundary s n"
  by (induction n) (auto simp: le_Suc_eq)

lemma floor_boundary_id [simp]: "is_char_boundary s n \<Longrightarrow> floor_boundary s n = n"
  by (cases n) auto

subsection \<open>Hexadecimal\<close>

definition hex_digit :: "nat \<Rightarrow> char" where
  "hex_digit n = ''0123456789ABCDEF'' ! n"

fun hex_upper :: "nat \<Rightarrow> string" where
  "hex_upper n = (if n < 16 then [hex_digit n] else hex_upper (n div 16) @ [hex_digit (n mod 16)])"

declare hex_upper.simps [simp del]

definition hex_padded :: "nat \<Rightarrow> nat \<Rightarrow> string" where
  "hex_padded w n = replicate (w - length (hex_upper n)) (CHR ''0'') @ hex_upper n"

subsection \<open>\<open>i32\<close>\<close>

definition wrap32 :: "int \<Rightarrow> int" where
  "wrap32 i = sint (word_of_int i :: 32 word)"

definition fits32 :: "int \<Rightarrow> bool" where
  "fits32 i \<longleftrightarrow> - 2147483648 \<le> i \<and> i \<le> 2147483647"

lemma wrap32_id [simp]: "fits32 i \<Longrightarrow> wrap32 i = i"
  by (simp add: wrap32_def fits32_def sint_sbintrunc' signed_take_bit_int_eq_self)

lemma fits32_wrap [simp]: "fits32 (wrap32 i)"
  using signed_take_bit_int_greater_eq_minus_exp [of 31 i] signed_take_bit_int_less_exp [of 31 i]
  by (simp add: wrap32_def fits32_def sint_sbintrunc')

definition checked_mul32 :: "int \<Rightarrow> int \<Rightarrow> int option" where
  "checked_mul32 a b = (if fits32 (a * b) then Some (a * b) else None)"

subsection \<open>\<open>i64\<close>\<close>

definition wrap64 :: "int \<Rightarrow> int" where
  "wrap64 i = sint (word_of_int i :: 64 word)"

definition fits64 :: "int \<Rightarrow> bool" where
  "fits64 i \<longleftrightarrow> - 9223372036854775808 \<le> i \<and> i \<le> 9223372036854775807"

lemma wrap64_id [simp]: "fits64 i \<Longrightarrow> wrap64 i = i"
  by (simp add: wrap64_def fits64_def sint_sbintrunc' signed_take_bit_int_eq_self)

end
