(* ===== verification/ImeFields.thy ===== *)
theory ImeFields
  imports TextScan TextSeverity "HOL-Library.Signed_Division" "HOL-Library.Monad_Syntax"
begin

text \<open>
  The attribute part of a CCM record as \<open>parser/ccm/logical.rs\<close> reads it: the attribute scanner, the
  strict integers, date and time, and the helpers of \<open>parser/ccm.rs\<close> it calls. A \<open>u32\<close> is a natural
  number, an \<open>i32\<close> an integer (\<open>wrap32\<close> where the release profile wraps). chrono, the local time zone
  and the one regular expression with Unicode digits are parameters.
\<close>

text \<open>\<open>'n\<close> is \<open>NaiveDateTime\<close>; an offset is in seconds. \<open>offset_ms\<close> is \<open>FixedOffset::east_opt\<close> with
  \<open>from_local_datetime\<close>, \<open>local_minutes\<close> is \<open>local_minus_utc_minutes_at\<close>, and \<open>simple_ts\<close> is the regular
  expression of the fallback format with its two groups.\<close>

record 'n ime_env =
  naive_of :: "int \<Rightarrow> nat \<Rightarrow> nat \<Rightarrow> nat \<Rightarrow> nat \<Rightarrow> nat \<Rightarrow> nat \<Rightarrow> 'n option"
  utc_ms :: "'n \<Rightarrow> int"
  offset_ms :: "int \<Rightarrow> 'n \<Rightarrow> int option"
  offset_text :: "int \<Rightarrow> 'n \<Rightarrow> string option"
  utc_text :: "'n \<Rightarrow> string"
  local_text :: "'n \<Rightarrow> string option"
  local_minutes :: "'n \<Rightarrow> int option"
  now_offset :: int
  simple_ts :: "string \<Rightarrow> (string \<times> string) option"
  fallback_utc :: "string \<Rightarrow> string option"

subsection \<open>Integers\<close>

fun ascii_u32_loop :: "nat \<Rightarrow> string \<Rightarrow> nat option" where
  "ascii_u32_loop acc [] = Some acc"
| "ascii_u32_loop acc (c # s) =
     (if \<not> is_digit c then None
      else if acc * 10 > u32_max then None
      else if acc * 10 + digit_val c > u32_max then None
      else ascii_u32_loop (acc * 10 + digit_val c) s)"

definition parse_ascii_u32 :: "string \<Rightarrow> nat option" where
  "parse_ascii_u32 s = (if s = [] then None else ascii_u32_loop 0 s)"

definition parse_ascii_i32 :: "string \<Rightarrow> int option" where
  "parse_ascii_i32 s =
     (if s = [] then None
      else
        (let (sgn, digits) =
               (if hd s = CHR ''+'' then (1, tl s)
                else if hd s = CHR ''-'' then (- 1, tl s)
                else (1, s))
         in do { n \<leftarrow> parse_ascii_u32 digits; checked_mul32 (wrap32 (int n)) sgn }))"

subsection \<open>Dates and times\<close>

definition parse_date :: "string \<Rightarrow> (nat \<times> nat \<times> int) option" where
  "parse_date date =
     do { (month, remainder) \<leftarrow> split_once (CHR ''-'') date;
          (day, year) \<leftarrow> split_once (CHR ''-'') remainder;
          m \<leftarrow> parse_ascii_u32 month;
          d \<leftarrow> parse_ascii_u32 day;
          y \<leftarrow> parse_ascii_i32 year;
          Some (m, d, y) }"

definition is_sign :: "char \<Rightarrow> bool" where
  "is_sign c \<longleftrightarrow> c = CHR ''+'' \<or> c = CHR ''-''"

definition find_timezone_start :: "string \<Rightarrow> nat option" where
  "find_timezone_start time =
     (let u = takeWhile (\<lambda>c. \<not> is_sign c) (tl time)
      in if length u + 1 < length time then Some (length u + 1) else None)"

fun fraction_loop :: "nat \<Rightarrow> nat \<Rightarrow> string \<Rightarrow> (nat \<times> nat) option" where
  "fraction_loop millis digits [] = Some (millis, digits)"
| "fraction_loop millis digits (c # s) =
     (if \<not> is_digit c then None
      else if digits < 3 then fraction_loop (millis * 10 + digit_val c) (digits + 1) s
      else fraction_loop millis digits s)"

definition truncate_fraction_to_millis :: "string \<Rightarrow> nat option" where
  "truncate_fraction_to_millis v =
     map_option (\<lambda>(millis, digits). millis * 10 ^ (3 - digits)) (fraction_loop 0 0 v)"

definition parse_timezone_offset :: "string \<Rightarrow> int option" where
  "parse_timezone_offset v =
     (if eq_ignore_case v ''z'' then Some 0
      else if CHR '':'' \<in> set v then
        (let sgn = (if prefix ''-'' v then - 1 else 1);
             trimmed = dropWhile is_sign v
         in do { (hours, minutes) \<leftarrow> split_once (CHR '':'') trimmed;
                 h \<leftarrow> parse_ascii_i32 hours;
                 m \<leftarrow> parse_ascii_i32 minutes;
                 Some (wrap32 (sgn * wrap32 (wrap32 (h * 60) + m))) })
      else parse_ascii_i32 v)"

definition parse_time :: "string \<Rightarrow> (nat \<times> nat \<times> nat \<times> nat \<times> int option) option" where
  "parse_time time =
     (let (time_value, timezone_value) =
            (case find_timezone_start time of
               Some i \<Rightarrow> (take i time, Some (drop i time))
             | None \<Rightarrow> (time, None))
      in do { (hour, remainder) \<leftarrow> split_once (CHR '':'') time_value;
              (minute, second_and_fraction) \<leftarrow> split_once (CHR '':'') remainder;
              let (second, fraction) =
                (case split_once (CHR ''.'') second_and_fraction of
                   Some sf \<Rightarrow> sf | None \<Rightarrow> (second_and_fraction, []));
              millis \<leftarrow> (if fraction = [] then Some 0 else truncate_fraction_to_millis fraction);
              h \<leftarrow> parse_ascii_u32 hour;
              m \<leftarrow> parse_ascii_u32 minute;
              s \<leftarrow> parse_ascii_u32 second;
              Some (h, m, s, millis, Option.bind timezone_value parse_timezone_offset) })"

subsection \<open>Timestamps\<close>

text \<open>The display pads with zeros; a sign counts towards the width.\<close>

definition padded_int :: "nat \<Rightarrow> int \<Rightarrow> string" where
  "padded_int w i = (if i < 0 then ''-'' @ zero_padded (w - 1) (nat (- i)) else zero_padded w (nat i))"

definition naive_to_utc_millis :: "'n ime_env \<Rightarrow> 'n \<Rightarrow> int option \<Rightarrow> int" where
  "naive_to_utc_millis env nv off =
     (case do { mins \<leftarrow> off; secs \<leftarrow> checked_mul32 mins 60; offset_ms env secs nv } of
        Some t \<Rightarrow> t | None \<Rightarrow> utc_ms env nv)"

definition build_timestamp ::
  "'n ime_env \<Rightarrow> nat \<Rightarrow> nat \<Rightarrow> int \<Rightarrow> nat \<Rightarrow> nat \<Rightarrow> nat \<Rightarrow> nat \<Rightarrow> int option \<Rightarrow> int option \<times> string option"
  where
  "build_timestamp env month day year hour minute second millis off =
     (map_option (\<lambda>nv. naive_to_utc_millis env nv off) (naive_of env year month day hour minute second millis),
      Some (zero_padded 2 month @ ''-'' @ zero_padded 2 day @ ''-'' @ padded_int 4 year @ '' ''
            @ zero_padded 2 hour @ '':'' @ zero_padded 2 minute @ '':'' @ zero_padded 2 second @ ''.''
            @ zero_padded 3 millis))"

definition build_utc_timestamp ::
  "'n ime_env \<Rightarrow> nat \<Rightarrow> nat \<Rightarrow> int \<Rightarrow> nat \<Rightarrow> nat \<Rightarrow> nat \<Rightarrow> nat \<Rightarrow> int option \<Rightarrow> string option" where
  "build_utc_timestamp env month day year hour minute second millis off =
     do { nv \<leftarrow> naive_of env year month day hour minute second millis;
          Some (case (case off of
                        Some mins \<Rightarrow> do { secs \<leftarrow> checked_mul32 mins 60; offset_text env secs nv }
                      | None \<Rightarrow> local_text env nv) of
                  Some t \<Rightarrow> t | None \<Rightarrow> utc_text env nv) }"

type_synonym timestamp_fields =
  "int option \<times> string option \<times> int option \<times> string option \<times> string option"

definition parse_timestamp_fields :: "'n ime_env \<Rightarrow> string option \<Rightarrow> string option \<Rightarrow> timestamp_fields" where
  "parse_timestamp_fields env date time =
     (case do { d \<leftarrow> date; t \<leftarrow> time; md \<leftarrow> parse_date d; hm \<leftarrow> parse_time t; Some (md, hm) } of
        None \<Rightarrow> (None, None, None, None, None)
      | Some ((month, day, year), (hour, minute, second, millis, tz)) \<Rightarrow>
          let effective_tz =
                (case tz of
                   Some mins \<Rightarrow> Some mins
                 | None \<Rightarrow>
                     (case Option.bind (naive_of env year month day hour minute second millis)
                             (local_minutes env) of
                        Some mins \<Rightarrow> Some mins
                      | None \<Rightarrow> Some (now_offset env sdiv 60)));
              (millis_value, display) =
                build_timestamp env month day year hour minute second millis effective_tz
          in (millis_value, display, tz, display,
              build_utc_timestamp env month day year hour minute second millis tz))"

subsection \<open>Attributes\<close>

definition dquote :: char where "dquote = CHR 0x22"

definition is_key_char :: "char \<Rightarrow> bool" where
  "is_key_char c \<longleftrightarrow>
     (let n = of_char c :: nat in
      48 \<le> n \<and> n \<le> 57 \<or> 65 \<le> n \<and> n \<le> 90 \<or> 97 \<le> n \<and> n \<le> 122 \<or> n = 95)"

definition is_ascii_ws :: "char \<Rightarrow> bool" where
  "is_ascii_ws c \<longleftrightarrow> c \<in> {CHR 0x20, CHR 0x09, CHR 0x0A, CHR 0x0C, CHR 0x0D}"

record ime_attrs =
  at_component :: "string option"
  at_file :: "string option"
  at_thread :: "nat option"
  at_type :: "nat option"
  at_date :: "string option"
  at_time :: "string option"

definition no_attrs :: ime_attrs where
  "no_attrs =
     \<lparr>at_component = None, at_file = None, at_thread = None, at_type = None, at_date = None,
      at_time = None\<rparr>"

definition match_attribute :: "ime_attrs \<Rightarrow> string \<Rightarrow> string \<Rightarrow> ime_attrs" where
  "match_attribute p key v =
     (if eq_ignore_case key ''component'' then p\<lparr>at_component := Some v\<rparr>
      else if eq_ignore_case key ''file'' then p\<lparr>at_file := Some v\<rparr>
      else if eq_ignore_case key ''thread'' then p\<lparr>at_thread := parse_ascii_u32 v\<rparr>
      else if eq_ignore_case key ''type'' then p\<lparr>at_type := parse_ascii_u32 v\<rparr>
      else if eq_ignore_case key ''date'' then p\<lparr>at_date := Some v\<rparr>
      else if eq_ignore_case key ''time'' then p\<lparr>at_time := Some v\<rparr>
      else p)"

text \<open>The loop of \<open>parse_attributes\<close> on what is left of the text.\<close>

function attrs_loop :: "ime_attrs \<Rightarrow> string \<Rightarrow> ime_attrs" where
  "attrs_loop parsed s =
     (if s = [] then parsed
      else
        (let s = dropWhile is_ascii_ws s;
             key = takeWhile is_key_char s;
             t = dropWhile is_key_char s
         in
         if key = [] then attrs_loop parsed (tl s)
         else if \<not> prefix [CHR ''='', dquote] t then
           attrs_loop parsed (dropWhile (\<lambda>c. \<not> is_ascii_ws c) t)
         else
           (let v = drop 2 t; rest = dropWhile (\<lambda>c. c \<noteq> dquote) v in
            if rest = [] then parsed
            else attrs_loop (match_attribute parsed key (takeWhile (\<lambda>c. c \<noteq> dquote) v)) (tl rest))))"
  by pat_completeness auto
termination
proof (relation "measure (\<lambda>(_, s). length s)", goal_cases)
  case (2 parsed s x xa xb)
  have "length x \<le> length s" using 2 length_dropWhile_le by metis
  moreover have "0 < length s" using 2 by simp
  ultimately show ?case by (simp del: length_greater_0_conv)
next
  case (3 parsed s x xa xb)
  have "length (dropWhile (\<lambda>c. \<not> is_ascii_ws c) xb) \<le> length xb" by (rule length_dropWhile_le)
  moreover have "length xa + length xb = length x" using 3 by (metis length_append takeWhile_dropWhile_id)
  moreover have "length x \<le> length s" using 3 length_dropWhile_le by metis
  ultimately show ?case using 3(5) by (cases xa) auto
next
  case (4 parsed s x xa xb xc xd)
  have "length xd \<le> length xc" using 4 length_dropWhile_le by metis
  moreover have "length xc \<le> length xb" using 4 by simp
  moreover have "length xa + length xb = length x" using 4 by (metis length_append takeWhile_dropWhile_id)
  moreover have "length x \<le> length s" using 4 length_dropWhile_le by metis
  ultimately show ?case using 4(5) by (cases xa; cases xd) auto
qed simp

declare attrs_loop.simps [simp del]

definition parse_attributes :: "string \<Rightarrow> ime_attrs" where
  "parse_attributes s = attrs_loop no_attrs s"

subsection \<open>Severity and thread\<close>

definition severity_from_type_field :: "nat option \<Rightarrow> string \<Rightarrow> severity" where
  "severity_from_type_field t msg =
     (case t of
        Some n \<Rightarrow> if n = 0 then Success else if n = 2 then LogWarning else if n = 3 then LogError else LogInfo
      | None \<Rightarrow> detect_severity_from_text msg)"

definition format_thread_display :: "nat \<Rightarrow> string" where
  "format_thread_display n = dec n @ '' (0x'' @ hex_padded 4 n @ '')''"

end
