(* ===== verification/ImeFrames.thy ===== *)
theory ImeFrames
  imports ImeFields
begin

text \<open>
  Framing of IME logs, \<open>parser/ccm/logical.rs\<close>: where a record ends, the records and fragments of a
  content, and the prefix that an incremental read may publish. Offsets are byte offsets into the whole
  text, as in the source; \<open>usize\<close> is a natural number. The two attribute expressions and the record
  expression of the regex crate are deterministic and written out as scanners. The loops that split
  oversized text advance only because the text is UTF-8; they are partial functions here, and
  \<open>ImeProps\<close> proves that they return.
\<close>

subsection \<open>Boundaries\<close>

definition record_start :: string where "record_start = ''<![LOG[''"
definition attrs_start :: string where "attrs_start = '']LOG]!><''"
definition max_record_bytes :: nat where "max_record_bytes = 1048576"

definition bounded_prefix :: "string \<Rightarrow> nat \<Rightarrow> nat" where
  "bounded_prefix content limit =
     (let e = floor_boundary content (min (length content) limit)
      in if e = max_record_bytes \<and> content ! (e - 1) = CHR 0x0D then e - 1 else e)"

datatype boundary = Complete nat | Interrupted nat | Capped nat | Incomplete

text \<open>The offset of the first \<open>>\<close> outside quotes.\<close>

fun attrs_scan :: "bool \<Rightarrow> string \<Rightarrow> nat option" where
  "attrs_scan quoted [] = None"
| "attrs_scan quoted (c # s) =
     (if c = dquote then map_option Suc (attrs_scan (\<not> quoted) s)
      else if c = CHR ''>'' \<and> \<not> quoted then Some 0
      else map_option Suc (attrs_scan quoted s))"

definition attributes_end :: "string \<Rightarrow> nat \<Rightarrow> nat option" where
  "attributes_end content start = map_option (\<lambda>r. start + r + 1) (attrs_scan False (drop start content))"

text \<open>What is left after the longest run of \<open>key="value"\<close> items, the common part of the two attribute
  expressions.\<close>

function attr_items :: "string \<Rightarrow> string" where
  "attr_items s =
     (let key = takeWhile is_key_char s;
          t = dropWhile is_key_char s;
          rest = dropWhile (\<lambda>c. c \<noteq> dquote) (drop 2 t)
      in if key \<noteq> [] \<and> prefix [CHR ''='', dquote] t \<and> rest \<noteq> []
         then attr_items (trim_start (tl rest)) else s)"
  by pat_completeness auto
termination
proof (relation "measure length", goal_cases)
  case (2 s x xa xb)
  have "length (trim_start (tl xb)) \<le> length (tl xb)"
    using suffix_length_le trim_start_suffix by blast
  moreover have "length xb \<le> length (drop 2 xa)" unfolding 2(3) by (rule length_dropWhile_le)
  moreover have "length x + length xa = length s" using 2 by (metis length_append takeWhile_dropWhile_id)
  ultimately show ?case using 2(4) by (cases x) auto
qed simp

declare attr_items.simps [simp del]

definition skip_attributes :: "string \<Rightarrow> string" where
  "skip_attributes s = attr_items (trim_start s)"

definition valid_attributes :: "string \<Rightarrow> bool" where
  "valid_attributes s \<longleftrightarrow> skip_attributes s = []"

definition valid_attributes_end :: "string \<Rightarrow> nat \<Rightarrow> nat option" where
  "valid_attributes_end content start =
     (case skip_attributes (drop start content) of
        [] \<Rightarrow> None
      | c # rest \<Rightarrow> if c = CHR ''>'' then Some (length content - length rest) else None)"

text \<open>\<open>match_indices\<close> of the opener, from an offset on.\<close>

function opener_indices :: "string \<Rightarrow> nat \<Rightarrow> nat list" where
  "opener_indices s off =
     (case str_find record_start s of
        None \<Rightarrow> []
      | Some i \<Rightarrow> (off + i) # opener_indices (drop (i + 7) s) (off + i + 7))"
  by pat_completeness auto
termination
  by (relation "measure (\<lambda>(s, _). length s)") (auto simp: record_start_def dest!: str_find_Some)

declare opener_indices.simps [simp del]

fun interrupted_at :: "'n ime_env \<Rightarrow> string \<Rightarrow> nat \<Rightarrow> nat list \<Rightarrow> nat option" where
  "interrupted_at env bounded limit [] = None"
| "interrupted_at env bounded limit (nxt # starts) =
     (let message = nxt + 7;
          message_end = (case starts of [] \<Rightarrow> limit | n # _ \<Rightarrow> n)
      in case str_find attrs_start (slice bounded message message_end) of
           None \<Rightarrow> interrupted_at env bounded limit starts
         | Some a \<Rightarrow>
             (let attrs = message + a + 8 in
              case valid_attributes_end bounded attrs of
                None \<Rightarrow> interrupted_at env bounded limit starts
              | Some e \<Rightarrow>
                  (let parsed = parse_attributes (slice bounded attrs (e - 1)) in
                   if fst (parse_timestamp_fields env (at_date parsed) (at_time parsed)) \<noteq> None
                   then Some nxt else interrupted_at env bounded limit starts)))"

text \<open>A closed record, or an opener inside broken attributes, within the bounded text.\<close>

definition closed_boundary :: "'n ime_env \<Rightarrow> string \<Rightarrow> nat \<Rightarrow> nat \<Rightarrow> boundary option" where
  "closed_boundary env bounded limit a =
     (let interrupted = map_option Interrupted
            (interrupted_at env bounded limit (opener_indices (drop a bounded) a))
      in case attributes_end bounded a of
           Some e \<Rightarrow>
             if valid_attributes (slice bounded a (e - 1))
                \<or> \<not> str_contains (slice bounded a e) record_start
             then Some (Complete e) else interrupted
         | None \<Rightarrow> interrupted)"

definition record_boundary :: "'n ime_env \<Rightarrow> string \<Rightarrow> nat \<Rightarrow> boundary" where
  "record_boundary env content start =
     (let limit = start + bounded_prefix (drop start content) max_record_bytes;
          bounded = take limit content;
          message_start = start + 7
      in if message_start > limit then Incomplete
         else
           (case (case str_find attrs_start (drop message_start bounded) of
                    None \<Rightarrow> None
                  | Some r \<Rightarrow> closed_boundary env bounded limit (message_start + r + 8)) of
              Some b \<Rightarrow> b
            | None \<Rightarrow> if length content - start \<ge> max_record_bytes then Capped limit else Incomplete))"

subsection \<open>Records\<close>

record ime_line =
  il_line :: u32
  il_timestamp :: "string option"
  il_timestamp_utc :: "string option"
  il_message :: string
  il_component :: "string option"
  il_thread :: "nat option"
  il_offset :: "int option"

datatype ime_format = Ccm | Plain

record ime_record =
  ir_line :: ime_line
  ir_millis :: "int option"
  ir_display :: "string option"
  ir_severity :: severity
  ir_thread_display :: "string option"
  ir_file :: "string option"
  ir_format :: ime_format
  is_fragment :: bool

record ime_chunk =
  ime_entries :: "ime_record list"
  ime_errors :: u32

definition no_chunk :: ime_chunk where "no_chunk = \<lparr>ime_entries = [], ime_errors = 0\<rparr>"

definition non_empty :: "string option \<Rightarrow> string option" where
  "non_empty v = (case v of Some [] \<Rightarrow> None | _ \<Rightarrow> v)"

definition build_line_starts :: "string \<Rightarrow> nat list" where
  "build_line_starts s =
     0 # List.map Suc (List.filter (\<lambda>i. s ! i = CHR 0x0A) [0..<length s])"

text \<open>A binary search in ascending offsets: one more than the index of a hit, else the number below.\<close>

definition line_number_for_offset :: "nat list \<Rightarrow> nat \<Rightarrow> u32" where
  "line_number_for_offset starts off =
     of_nat (length (List.filter (\<lambda>s. s \<le> off) starts))"

text \<open>The record expression: the leftmost opener from which a shortest message and attributes match.\<close>

fun message_match :: "string \<Rightarrow> (string \<times> string) option" where
  "message_match [] = None"
| "message_match (c # s) =
     (let later = map_option (\<lambda>(m, a). (c # m, a)) (message_match s) in
      if prefix attrs_start (c # s) then
        (case attrs_scan False (drop 8 (c # s)) of
           Some r \<Rightarrow> Some ([], take r (drop 8 (c # s)))
         | None \<Rightarrow> later)
      else later)"

fun record_captures :: "string \<Rightarrow> (string \<times> string) option" where
  "record_captures [] = None"
| "record_captures (c # s) =
     (if prefix record_start (c # s) then
        (case message_match (drop 7 (c # s)) of
           Some ma \<Rightarrow> Some ma
         | None \<Rightarrow> record_captures s)
      else record_captures s)"

definition parse_ime_record ::
  "'n ime_env \<Rightarrow> string \<times> string \<Rightarrow> nat \<Rightarrow> nat list \<Rightarrow> ime_record" where
  "parse_ime_record env caps off starts =
     (let attrs = parse_attributes (snd caps);
          (millis, display, tz, line_ts, line_utc) = parse_timestamp_fields env (at_date attrs) (at_time attrs)
      in \<lparr>ir_line =
            \<lparr>il_line = line_number_for_offset starts off, il_timestamp = line_ts,
             il_timestamp_utc = line_utc, il_message = fst caps,
             il_component = non_empty (at_component attrs), il_thread = at_thread attrs, il_offset = tz\<rparr>,
          ir_millis = millis, ir_display = display,
          ir_severity = severity_from_type_field (at_type attrs) (fst caps),
          ir_thread_display = map_option format_thread_display (at_thread attrs),
          ir_file = non_empty (at_file attrs), ir_format = Ccm, is_fragment = False\<rparr>)"

subsection \<open>Fragments\<close>

definition plain_line :: "u32 \<Rightarrow> string \<Rightarrow> ime_line" where
  "plain_line n msg =
     \<lparr>il_line = n, il_timestamp = None, il_timestamp_utc = None, il_message = msg,
      il_component = None, il_thread = None, il_offset = None\<rparr>"

definition plain_record :: "u32 \<Rightarrow> string \<Rightarrow> ime_record" where
  "plain_record n msg =
     \<lparr>ir_line = plain_line n msg, ir_millis = None, ir_display = None, ir_severity = LogInfo,
      ir_thread_display = None, ir_file = None, ir_format = Plain, is_fragment = True\<rparr>"

definition push_fragment :: "u32 \<Rightarrow> string \<Rightarrow> ime_chunk \<Rightarrow> ime_chunk" where
  "push_fragment n msg st =
     \<lparr>ime_entries = ime_entries st @ [plain_record n msg], ime_errors = ime_errors st + 1\<rparr>"

text \<open>The bounded pieces of one physical line. The inner early return leaves the outer loop too, whose
  own test is the same.\<close>

partial_function (option) push_pieces :: "nat \<Rightarrow> u32 \<Rightarrow> string \<Rightarrow> ime_chunk \<Rightarrow> ime_chunk option" where
  "push_pieces max_entries n line st =
     (if line = [] \<or> length (ime_entries st) \<ge> max_entries then Some st
      else
        (let e = bounded_prefix line max_record_bytes
         in push_pieces max_entries n (drop e line) (push_fragment n (take e line) st)))"

declare push_pieces.simps [code]

fun push_lines ::
  "nat \<Rightarrow> nat list \<Rightarrow> nat \<Rightarrow> string list \<Rightarrow> ime_chunk \<Rightarrow> ime_chunk option" where
  "push_lines max_entries starts off [] st = Some st"
| "push_lines max_entries starts off (piece # pieces) st =
     (if length (ime_entries st) \<ge> max_entries then Some st
      else
        do { st \<leftarrow> push_pieces max_entries (line_number_for_offset starts off)
                     (trim_end_any [CHR 0x0D, CHR 0x0A] piece) st;
             push_lines max_entries starts (off + length piece) pieces st })"

definition push_unmatched ::
  "nat \<Rightarrow> nat list \<Rightarrow> string \<Rightarrow> nat \<Rightarrow> ime_chunk \<Rightarrow> ime_chunk option" where
  "push_unmatched max_entries starts segment off st =
     push_lines max_entries starts off (split_inclusive segment) st"

subsection \<open>The scan\<close>

lemma bounded_prefix_le: "bounded_prefix content limit \<le> min (length content) limit"
proof -
  have "bounded_prefix content limit \<le> floor_boundary content (min (length content) limit)"
    by (simp add: bounded_prefix_def Let_def)
  also have "\<dots> \<le> min (length content) limit" by (rule floor_boundary_le)
  finally show ?thesis .
qed

lemma attributes_end_le: "attributes_end content a = Some e \<Longrightarrow> a < e \<and> e \<le> length content"
proof -
  have "attrs_scan q s = Some r \<Longrightarrow> r < length s" for q s r
    by (induction q s arbitrary: r rule: attrs_scan.induct) (auto split: if_splits)
  then show "attributes_end content a = Some e \<Longrightarrow> a < e \<and> e \<le> length content"
    by (fastforce simp: attributes_end_def)
qed

lemma opener_indices_ge: "k \<in> set (opener_indices s off) \<Longrightarrow> \<exists>i. k = off + i \<and> i + 7 \<le> length s"
proof (induction s off rule: opener_indices.induct)
  case (1 s off)
  show ?case
  proof (cases "str_find record_start s")
    case (Some i)
    then have i: "i + 7 \<le> length s" using str_find_Some [OF Some] by (simp add: record_start_def)
    show ?thesis
    proof (cases "k = off + i")
      case False
      then obtain j where "k = off + i + 7 + j" "j + 7 \<le> length (drop (i + 7) s)"
        using 1 Some by (auto simp: opener_indices.simps [of s])
      then show ?thesis using i by (intro exI [of _ "i + 7 + j"]) simp
    qed (use i in auto)
  qed (use 1 in \<open>simp add: opener_indices.simps [of s]\<close>)
qed

lemma interrupted_at_mem: "interrupted_at env bounded limit starts = Some n \<Longrightarrow> n \<in> set starts"
  by (induction env bounded limit starts rule: interrupted_at.induct)
    (auto simp: Let_def split: option.splits if_splits)

definition past :: "nat \<Rightarrow> nat \<Rightarrow> boundary \<Rightarrow> bool" where
  "past start n b \<longleftrightarrow>
     (case b of Complete e \<Rightarrow> start < e \<and> e \<le> n | Interrupted e \<Rightarrow> start < e \<and> e \<le> n
      | Capped e \<Rightarrow> start < e \<and> e \<le> n | Incomplete \<Rightarrow> True)"

lemma closed_boundary_past:
  assumes "closed_boundary env bounded limit a = Some b" "start < a"
  shows "past start (length bounded) b"
proof -
  have "past start (length bounded) (Interrupted k)"
    if "interrupted_at env bounded limit (opener_indices (drop a bounded) a) = Some k" for k
    using opener_indices_ge [OF interrupted_at_mem [OF that]] assms(2) by (auto simp: past_def)
  moreover have "past start (length bounded) (Complete e)" if "attributes_end bounded a = Some e" for e
    using attributes_end_le [OF that] assms(2) by (simp add: past_def)
  ultimately show ?thesis
    using assms(1) by (auto simp: closed_boundary_def Let_def split: option.splits if_splits)
qed

text \<open>A boundary is past the opener and inside the text, so the scan advances.\<close>

lemma record_boundary_past:
  assumes "start \<le> length content"
  shows "past start (length content) (record_boundary env content start)"
proof -
  let ?limit = "start + bounded_prefix (drop start content) max_record_bytes"
  have limit: "?limit \<le> length content"
    using bounded_prefix_le [of "drop start content" max_record_bytes] assms by (simp add: min_def split: if_splits)
  have "past start (length content) b"
    if "closed_boundary env (take ?limit content) ?limit a = Some b" "start < a" for a b
    using closed_boundary_past [OF that] limit by (auto simp: past_def split: boundary.splits)
  then show ?thesis
    using limit by (auto simp: record_boundary_def Let_def past_def split: option.split)
qed

lemma record_boundary_cases:
  "start \<le> length content \<Longrightarrow> record_boundary env content start = Complete e \<Longrightarrow> start < e \<and> e \<le> length content"
  "start \<le> length content \<Longrightarrow> record_boundary env content start = Interrupted e \<Longrightarrow> start < e \<and> e \<le> length content"
  "start \<le> length content \<Longrightarrow> record_boundary env content start = Capped e \<Longrightarrow> start < e \<and> e \<le> length content"
  using record_boundary_past [of start content env] by (simp_all add: past_def)

lemma opener_found:
  "str_find record_start (drop search content) = Some rel \<Longrightarrow> search + rel + 7 \<le> length content"
proof -
  assume "str_find record_start (drop search content) = Some rel"
  then have "rel + 7 \<le> length content - search" using str_find_Some by (fastforce simp: record_start_def)
  then show ?thesis by linarith
qed

text \<open>The state of the scan: what was pushed, how far, and whether a record was matched.\<close>

function scan_loop ::
  "'n ime_env \<Rightarrow> nat \<Rightarrow> string \<Rightarrow> nat list \<Rightarrow> nat \<Rightarrow> nat \<Rightarrow> ime_chunk \<Rightarrow> bool
     \<Rightarrow> (nat \<times> ime_chunk \<times> bool) option" where
  "scan_loop env max_entries content starts cursor search st matched =
     (case str_find record_start (drop search content) of
        None \<Rightarrow> Some (cursor, st, matched)
      | Some rel \<Rightarrow>
          if length (ime_entries st) \<ge> max_entries then Some (cursor, st, matched)
          else
            (case record_boundary env content (search + rel) of
               Complete e \<Rightarrow>
                 do { st \<leftarrow> push_unmatched max_entries starts (slice content cursor (search + rel)) cursor st;
                      if length (ime_entries st) \<ge> max_entries then Some (cursor, st, matched)
                      else
                        do { let framed = slice content (search + rel) e;
                             st \<leftarrow> (case record_captures framed of
                                      Some caps \<Rightarrow>
                                        Some (st\<lparr>ime_entries := ime_entries st @
                                                [parse_ime_record env caps (search + rel) starts]\<rparr>)
                                    | None \<Rightarrow> push_unmatched max_entries starts framed (search + rel) st);
                             scan_loop env max_entries content starts e e st True } }
             | Interrupted n \<Rightarrow> scan_loop env max_entries content starts cursor n st matched
             | Capped e \<Rightarrow>
                 do { st \<leftarrow> push_unmatched max_entries starts (slice content cursor e) cursor st;
                      scan_loop env max_entries content starts e e st True }
             | Incomplete \<Rightarrow> Some (cursor, st, matched)))"
  by pat_completeness auto
termination
proof (relation "measure (\<lambda>(_, _, content, _, _, search, _, _). length content - search)", goal_cases)
  case (2 env max_entries content starts cursor search st matched rel e st' framed st'')
  have "search + rel + 7 \<le> length content" using opener_found [OF 2(1)] .
  moreover from this have "search + rel < e \<and> e \<le> length content"
    by (intro record_boundary_cases(1) [OF _ 2(3)]) linarith
  ultimately show ?case unfolding in_measure prod.case by linarith
next
  case (3 env max_entries content starts cursor search st matched rel e)
  have "search + rel + 7 \<le> length content" using opener_found [OF 3(1)] .
  moreover from this have "search + rel < e \<and> e \<le> length content"
    by (intro record_boundary_cases(2) [OF _ 3(3)]) linarith
  ultimately show ?case unfolding in_measure prod.case by linarith
next
  case (4 env max_entries content starts cursor search st matched rel e st')
  have "search + rel + 7 \<le> length content" using opener_found [OF 4(1)] .
  moreover from this have "search + rel < e \<and> e \<le> length content"
    by (intro record_boundary_cases(3) [OF _ 4(3)]) linarith
  ultimately show ?case unfolding in_measure prod.case by linarith
qed simp

declare scan_loop.simps [simp del]

text \<open>Lines of a content without records: each is one entry, or bounded pieces of the same line.\<close>

definition set_line :: "u32 \<Rightarrow> ime_record \<Rightarrow> ime_record" where
  "set_line n r = r\<lparr>ir_line := (ir_line r)\<lparr>il_line := n\<rparr>\<rparr>"

definition timestamped_record :: "'n ime_env \<Rightarrow> u32 \<Rightarrow> string \<Rightarrow> string \<Rightarrow> ime_record" where
  "timestamped_record env n ts msg =
     (plain_record n msg)\<lparr>
        ir_line := (plain_line n msg)\<lparr>il_timestamp := Some ts, il_timestamp_utc := fallback_utc env ts\<rparr>,
        ir_display := Some ts, ir_severity := detect_severity_from_text msg, is_fragment := False\<rparr>"

definition fallback_line ::
  "'n ime_env \<Rightarrow> nat \<Rightarrow> nat \<Rightarrow> string \<Rightarrow> ime_record list \<Rightarrow> ime_record list option" where
  "fallback_line env max_entries index line entries =
     (let n = of_nat (index + 1); trimmed = str_trim line in
      if trimmed = [] \<and> length line < max_record_bytes then Some entries
      else if length line \<ge> max_record_bytes then
        do { st \<leftarrow> push_unmatched max_entries [0] line 0 \<lparr>ime_entries = entries, ime_errors = 0\<rparr>;
             let kept = length (ime_entries st) - unat (ime_errors st);
             Some (take kept (ime_entries st) @ List.map (set_line n) (drop kept (ime_entries st))) }
      else
        (case simple_ts env trimmed of
           Some (ts, msg) \<Rightarrow> Some (entries @ [timestamped_record env n ts msg])
         | None \<Rightarrow> Some (entries @ [plain_record n line])))"

fun fallback_loop ::
  "'n ime_env \<Rightarrow> nat \<Rightarrow> nat \<Rightarrow> string list \<Rightarrow> ime_record list \<Rightarrow> ime_record list option" where
  "fallback_loop env max_entries index [] entries = Some entries"
| "fallback_loop env max_entries index (line # lines) entries =
     (if length entries \<ge> max_entries then Some entries
      else
        do { entries \<leftarrow> fallback_line env max_entries index line entries;
             fallback_loop env max_entries (index + 1) lines entries })"

definition parse_fallback_lines :: "'n ime_env \<Rightarrow> string \<Rightarrow> nat \<Rightarrow> ime_chunk option" where
  "parse_fallback_lines env content max_entries =
     do { entries \<leftarrow> fallback_loop env max_entries 0 (str_lines content) [];
          Some \<lparr>ime_entries = entries, ime_errors = of_nat (length (List.filter is_fragment entries))\<rparr> }"

definition parse_ime_records :: "'n ime_env \<Rightarrow> string \<Rightarrow> nat \<Rightarrow> ime_chunk option" where
  "parse_ime_records env content max_entries =
     do { let starts = build_line_starts content;
          (cursor, st, matched) \<leftarrow> scan_loop env max_entries content starts 0 0 no_chunk False;
          st \<leftarrow> push_unmatched max_entries starts (drop cursor content) cursor st;
          if matched then Some st else parse_fallback_lines env content max_entries }"

definition usize_max :: nat where "usize_max = u64_max"

definition parse_ime_content :: "'n ime_env \<Rightarrow> string \<Rightarrow> ime_line list option" where
  "parse_ime_content env content =
     map_option (\<lambda>p. List.map ir_line (ime_entries p)) (parse_ime_records env content usize_max)"

definition parse_ime_content_bounded :: "'n ime_env \<Rightarrow> string \<Rightarrow> nat \<Rightarrow> (ime_line list \<times> bool) option" where
  "parse_ime_content_bounded env content limit =
     map_option
       (\<lambda>p. let lines = List.map ir_line (ime_entries p)
            in (take limit lines, length lines > limit))
       (parse_ime_records env content (min (limit + 1) usize_max))"

subsection \<open>Log entries\<close>

definition unparsed_tag :: string where "unparsed_tag = ''cmtrace:unparsed-ime-record''"

record ime_entry = log_entry +
  ie_display :: "string option"
  ie_thread :: "nat option"
  ie_thread_display :: "string option"
  ie_format :: ime_format
  ie_offset :: "int option"
  ie_tags :: "string list option"

definition extract_subsystem_prefix :: "string \<Rightarrow> string option" where
  "extract_subsystem_prefix msg =
     (let m = trim_start msg in
      if \<not> prefix ''['' m then None
      else
        do { (u, _) \<leftarrow> split_once (CHR '']'') m;
             let name = tl u;
             if CHR ''-'' \<in> set name \<and> length name > 20 then None
             else if name = [] then None
             else Some name })"

definition enrich_subsystem_source :: "ime_entry \<Rightarrow> ime_entry" where
  "enrich_subsystem_source e =
     (if (case ie_tags e of Some tags \<Rightarrow> unparsed_tag \<in> set tags | None \<Rightarrow> False) \<or> source_file e \<noteq> None
      then e
      else
        (case extract_subsystem_prefix (message e) of
           Some s \<Rightarrow> e\<lparr>source_file := Some s\<rparr>
         | None \<Rightarrow> e))"

definition entry_of_record :: "string \<Rightarrow> nat \<Rightarrow> ime_record \<Rightarrow> ime_entry" where
  "entry_of_record path i r =
     \<lparr>entry_id = of_nat i, line_number = il_line (ir_line r), message = il_message (ir_line r),
      component = il_component (ir_line r), timestamp = ir_millis r, entry_severity = ir_severity r,
      source_file = ir_file r, file_path = path, ie_display = ir_display r,
      ie_thread = il_thread (ir_line r), ie_thread_display = ir_thread_display r,
      ie_format = ir_format r, ie_offset = il_offset (ir_line r),
      ie_tags = (if is_fragment r then Some [unparsed_tag] else None)\<rparr>"

definition parse_ime_entries :: "'n ime_env \<Rightarrow> string \<Rightarrow> string \<Rightarrow> (ime_entry list \<times> u32) option" where
  "parse_ime_entries env content path =
     map_option
       (\<lambda>p. (List.map enrich_subsystem_source
               (List.map (\<lambda>i. entry_of_record path i (ime_entries p ! i)) [0..<length (ime_entries p)]),
             ime_errors p))
       (parse_ime_records env content usize_max)"

subsection \<open>Publishing\<close>

partial_function (option) flush_tail :: "string \<Rightarrow> nat \<Rightarrow> nat option" where
  "flush_tail tail consumed =
     (if length tail - consumed \<ge> max_record_bytes
      then flush_tail tail (consumed + bounded_prefix (drop consumed tail) max_record_bytes)
      else Some consumed)"

declare flush_tail.simps [code]

function publish_loop :: "'n ime_env \<Rightarrow> string \<Rightarrow> nat \<Rightarrow> nat \<Rightarrow> nat option" where
  "publish_loop env content cursor search =
     (case str_find record_start (drop search content) of
        None \<Rightarrow>
          (let tail = drop cursor content in
           map_option (\<lambda>n. cursor + n)
             (flush_tail tail (case last_index (CHR 0x0A) tail of Some i \<Rightarrow> i + 1 | None \<Rightarrow> 0)))
      | Some rel \<Rightarrow>
          (case record_boundary env content (search + rel) of
             Complete e \<Rightarrow> publish_loop env content e e
           | Capped e \<Rightarrow> publish_loop env content e e
           | Interrupted n \<Rightarrow> publish_loop env content cursor n
           | Incomplete \<Rightarrow>
               Some (if length content - cursor \<ge> max_record_bytes then search + rel else cursor)))"
  by pat_completeness auto
termination
proof (relation "measure (\<lambda>(_, content, _, search). length content - search)", goal_cases)
  case (2 env content cursor search rel e)
  have "search + rel + 7 \<le> length content" using opener_found [OF 2(1)] .
  moreover from this have "search + rel < e \<and> e \<le> length content"
    by (intro record_boundary_cases(1) [OF _ 2(2)]) linarith
  ultimately show ?case unfolding in_measure prod.case by linarith
next
  case (3 env content cursor search rel e)
  have "search + rel + 7 \<le> length content" using opener_found [OF 3(1)] .
  moreover from this have "search + rel < e \<and> e \<le> length content"
    by (intro record_boundary_cases(2) [OF _ 3(2)]) linarith
  ultimately show ?case unfolding in_measure prod.case by linarith
next
  case (4 env content cursor search rel e)
  have "search + rel + 7 \<le> length content" using opener_found [OF 4(1)] .
  moreover from this have "search + rel < e \<and> e \<le> length content"
    by (intro record_boundary_cases(3) [OF _ 4(2)]) linarith
  ultimately show ?case unfolding in_measure prod.case by linarith
qed simp

declare publish_loop.simps [simp del]

definition complete_ime_prefix_len :: "'n ime_env \<Rightarrow> string \<Rightarrow> nat option" where
  "complete_ime_prefix_len env content = publish_loop env content 0 0"

end
