(* ===== verification/Utf8Cuts.thy ===== *)
theory Utf8Cuts
  imports TextScan
begin

text \<open>
  Cutting UTF-8: a valid text may be cut at its character boundaries and nowhere else, every ASCII byte
  is a character of its own, and a boundary is never more than four bytes away.
\<close>

lemma valid_text_induct [consumes 1, case_names Nil Char]:
  assumes "valid_text s" "P []" "\<And>c t. valid_char c \<Longrightarrow> valid_text t \<Longrightarrow> P t \<Longrightarrow> P (c @ t)"
  shows "P s"
proof -
  obtain cs where cs: "list_all valid_char cs" "s = concat cs" using assms(1) by (auto simp: valid_text_def)
  have "P (concat cs)" using cs(1)
  proof (induction cs)
    case (Cons c cs)
    then show ?case using assms(3) [of c "concat cs"] by (auto simp: valid_text_def)
  qed (simp add: assms(2))
  then show ?thesis using cs(2) by simp
qed

lemma valid_char_nth: "valid_char c \<Longrightarrow> i < length c \<Longrightarrow> is_cont (c ! i) \<longleftrightarrow> i > 0"
  by (cases c; cases i) (auto simp: valid_char_def list_all_length)

lemma valid_char_width: "valid_char c \<Longrightarrow> 1 \<le> length c \<and> length c \<le> 4"
  by (auto simp: valid_char_def utf8_width_def Let_def split: if_splits)

lemma valid_text_hd: "valid_text s \<Longrightarrow> s \<noteq> [] \<Longrightarrow> \<not> is_cont (s ! 0)"
proof -
  assume "valid_text s" "s \<noteq> []"
  then obtain c t where c: "s = c @ t" "valid_char c" using valid_text_first by blast
  then have "c \<noteq> []" by (auto simp: valid_char_def)
  then show ?thesis using valid_char_nth [OF c(2), of 0] c(1) by (simp add: nth_append)
qed

lemma char_boundary_append:
  "valid_char c \<Longrightarrow> valid_text t \<Longrightarrow>
     is_char_boundary (c @ t) j \<longleftrightarrow> j = 0 \<or> (length c \<le> j \<and> is_char_boundary t (j - length c))"
proof -
  assume c: "valid_char c" and t: "valid_text t"
  have len: "0 < length c" using valid_char_width [OF c] by linarith
  show ?thesis
  proof (cases "j < length c")
    case True
    then show ?thesis
      using valid_char_nth [OF c, of j] len by (auto simp: is_char_boundary_def nth_append)
  next
    case False
    then obtain k where k: "j = length c + k" using le_Suc_ex not_less by blast
    have "k = 0 \<Longrightarrow> t \<noteq> [] \<Longrightarrow> \<not> is_cont (t ! 0)" using valid_text_hd [OF t] by simp
    then show ?thesis using k len by (cases t) (auto simp: is_char_boundary_def nth_append)
  qed
qed

lemma boundary_0 [simp]: "is_char_boundary s 0"
  by (simp add: is_char_boundary_def)

lemma boundary_length [simp]: "is_char_boundary s (length s)"
  by (simp add: is_char_boundary_def)

lemma valid_text_cut: "valid_text s \<Longrightarrow> is_char_boundary s j \<Longrightarrow> valid_text (take j s) \<and> valid_text (drop j s)"
proof (induction s arbitrary: j rule: valid_text_induct)
  case (Char c t)
  show ?case
  proof (cases "j = 0")
    case True
    then show ?thesis using Char by (simp add: valid_text_append valid_text_char)
  next
    case False
    then have "length c \<le> j" "is_char_boundary t (j - length c)"
      using Char char_boundary_append by simp_all
    then show ?thesis using Char by (simp add: valid_text_append valid_text_char)
  qed
qed simp

lemma boundary_add:
  assumes "valid_text s" "is_char_boundary s i" "i \<le> length s" "is_char_boundary (drop i s) j"
  shows "is_char_boundary s (i + j)"
proof (cases "j = 0 \<or> i + j \<ge> length s")
  case True
  then show ?thesis using assms by (auto simp: is_char_boundary_def)
next
  case False
  then show ?thesis using assms by (auto simp: is_char_boundary_def)
qed

lemma boundary_diff:
  "i \<le> j \<Longrightarrow> is_char_boundary s j \<Longrightarrow> is_char_boundary (drop i s) (j - i)"
  by (auto simp: is_char_boundary_def)

lemma valid_text_slice:
  assumes "valid_text s" "is_char_boundary s a" "is_char_boundary s b" "a \<le> b"
  shows "valid_text (slice s a b)"
  using assms valid_text_cut [of "drop a s" "b - a"] valid_text_cut [of s a] boundary_diff [of a b s]
  by (simp add: slice_def)

lemma ascii_boundary:
  "valid_text s \<Longrightarrow> i < length s \<Longrightarrow> (of_char (s ! i) :: nat) < 128 \<Longrightarrow> is_char_boundary s (Suc i) \<and> is_char_boundary s i"
proof (induction s arbitrary: i rule: valid_text_induct)
  case (Char c t)
  show ?case
  proof (cases "i < length c")
    case True
    then have "\<not> is_cont (c ! i)" using Char.prems(2) by (simp add: is_cont_def nth_append)
    then have i: "i = 0" using valid_char_nth [OF Char.hyps(1) True] by simp
    then have "hd c = c ! 0" using True by (simp add: hd_conv_nth)
    then have "length c = 1"
      using Char.hyps(1) Char.prems(2) i True by (simp add: valid_char_def utf8_width_def nth_append)
    then show ?thesis using i Char.hyps char_boundary_append [of c t 1] by simp
  next
    case False
    then have "is_char_boundary t (Suc (i - length c)) \<and> is_char_boundary t (i - length c)"
      using Char.prems by (intro Char.IH) (simp_all add: nth_append)
    then show ?thesis using False Char.hyps char_boundary_append by (simp add: Suc_diff_le)
  qed
qed simp

lemma first_boundary: "valid_text s \<Longrightarrow> s \<noteq> [] \<Longrightarrow> \<exists>k. 1 \<le> k \<and> k \<le> 4 \<and> k \<le> length s \<and> is_char_boundary s k"
proof -
  assume "valid_text s" "s \<noteq> []"
  then obtain c t where c: "s = c @ t" "valid_char c" "valid_text t" using valid_text_first by blast
  then have "is_char_boundary s (length c)" using char_boundary_append [of c t "length c"] by simp
  then show ?thesis using valid_char_width [OF c(2)] c(1) by (intro exI [of _ "length c"]) simp
qed

lemma floor_boundary_pos: "valid_text s \<Longrightarrow> s \<noteq> [] \<Longrightarrow> 4 \<le> n \<Longrightarrow> n \<le> length s \<or> n = length s \<Longrightarrow> 0 < floor_boundary s n"
proof -
  assume "valid_text s" "s \<noteq> []" "4 \<le> n"
  then obtain k where "1 \<le> k" "k \<le> 4" "is_char_boundary s k" using first_boundary by blast
  then show ?thesis using floor_boundary_greatest [of k n s] \<open>4 \<le> n\<close> by simp
qed

end
