(* ===== verification/ImeProps.thy ===== *)
theory ImeProps
  imports ImeFrames Utf8Cuts
begin

text \<open>
  The IME scan against a reference: a framing of the content into loose text and framed records, whose
  concatenation is the content and whose rows are the entries. The bound on entries is a prefix of the
  rows, every loop returns on UTF-8 text, and what may be published is bounded.
\<close>

subsection \<open>Bounded pieces\<close>

lemma bounded_prefix_cut:
  assumes "valid_text s" "s \<noteq> []"
  shows "0 < bounded_prefix s max_record_bytes" "bounded_prefix s max_record_bytes \<le> length s"
    "bounded_prefix s max_record_bytes \<le> max_record_bytes"
    "is_char_boundary s (bounded_prefix s max_record_bytes)"
proof -
  let ?n = "min (length s) max_record_bytes"
  have b: "is_char_boundary s (floor_boundary s ?n)" by (rule floor_boundary_boundary)
  have pos: "0 < floor_boundary s ?n"
  proof (cases "max_record_bytes \<le> length s")
    case True
    then show ?thesis
      using floor_boundary_pos [OF assms, of max_record_bytes] by (simp add: min_def max_record_bytes_def)
  next
    case False
    then show ?thesis using assms(2) by (simp add: min_def)
  qed
  show "bounded_prefix s max_record_bytes \<le> length s" "bounded_prefix s max_record_bytes \<le> max_record_bytes"
    using bounded_prefix_le [of s max_record_bytes] by simp_all
  show "0 < bounded_prefix s max_record_bytes"
    using pos by (simp add: bounded_prefix_def Let_def max_record_bytes_def)
  show "is_char_boundary s (bounded_prefix s max_record_bytes)"
  proof (cases "floor_boundary s ?n = max_record_bytes \<and> s ! (max_record_bytes - 1) = CHR 0x0D")
    case True
    then have "max_record_bytes \<le> length s" using floor_boundary_le [of s ?n] by simp
    then have "is_char_boundary s (max_record_bytes - 1)"
      using True ascii_boundary [OF assms(1), of "max_record_bytes - 1"] by (simp add: max_record_bytes_def)
    then show ?thesis using True by (simp add: bounded_prefix_def Let_def)
  next
    case False
    then show ?thesis using b by (auto simp: bounded_prefix_def Let_def)
  qed
qed

text \<open>The pieces of a line, as a total function.\<close>

function line_pieces :: "string \<Rightarrow> string list" where
  "line_pieces s =
     (let e = bounded_prefix s max_record_bytes
      in if e = 0 then [] else take e s # line_pieces (drop e s))"
  by pat_completeness auto
termination
proof (relation "measure length", goal_cases)
  case (2 s e)
  then have "e \<le> length s" using bounded_prefix_le [of s max_record_bytes] by simp
  then show ?case using 2 by simp
qed simp

declare line_pieces.simps [simp del]

lemma bounded_prefix_Nil [simp]: "bounded_prefix [] n = 0"
  by (simp add: bounded_prefix_def Let_def max_record_bytes_def)

lemma line_pieces_Nil [simp]: "line_pieces [] = []"
  by (simp add: line_pieces.simps)

lemma line_pieces_step:
  "valid_text s \<Longrightarrow> s \<noteq> [] \<Longrightarrow>
     line_pieces s = take (bounded_prefix s max_record_bytes) s
       # line_pieces (drop (bounded_prefix s max_record_bytes) s)"
  using bounded_prefix_cut(1) [of s] by (subst line_pieces.simps) (simp add: Let_def)

lemma valid_bounded_drop: "valid_text s \<Longrightarrow> valid_text (drop (bounded_prefix s max_record_bytes) s)"
  by (cases "s = []") (simp_all add: bounded_prefix_cut(4) valid_text_cut)

lemma line_pieces_induct [consumes 1, case_names Nil Cut]:
  assumes "valid_text s" "P []"
    "\<And>s. valid_text s \<Longrightarrow> s \<noteq> [] \<Longrightarrow> P (drop (bounded_prefix s max_record_bytes) s) \<Longrightarrow> P s"
  shows "P s"
  using assms(1)
proof (induction s rule: measure_induct_rule [of length])
  case (less s)
  show ?case
  proof (cases "s = []")
    case False
    have "length (drop (bounded_prefix s max_record_bytes) s) < length s"
      using bounded_prefix_cut(1) [OF less.prems False] False by simp
    then show ?thesis using less valid_bounded_drop assms(3) [OF less.prems False] by blast
  qed (simp add: assms(2))
qed

lemma concat_line_pieces: "valid_text s \<Longrightarrow> concat (line_pieces s) = s"
  by (induction s rule: line_pieces_induct) (simp_all add: line_pieces_step)

lemma line_pieces_bounds:
  "valid_text s \<Longrightarrow> list_all (\<lambda>p. p \<noteq> [] \<and> length p \<le> max_record_bytes) (line_pieces s)"
proof (induction s rule: line_pieces_induct)
  case (Cut s)
  then show ?case using bounded_prefix_cut(1,3) [of s] by (simp add: line_pieces_step)
qed simp

text \<open>A piece that is not the last one of its line is at least a million bytes, so a line has few.\<close>

lemma floor_boundary_near:
  assumes "valid_text s" "n \<le> length s"
  shows "n \<le> floor_boundary s n + 3"
proof (rule ccontr)
  let ?f = "floor_boundary s n"
  assume "\<not> n \<le> ?f + 3"
  then have far: "?f + 4 \<le> n" by simp
  have "valid_text (drop ?f s)" using valid_text_cut [OF assms(1) floor_boundary_boundary] by simp
  moreover have "drop ?f s \<noteq> []" using far assms(2) by simp
  ultimately obtain k where k: "1 \<le> k" "k \<le> 4" "k \<le> length (drop ?f s)" "is_char_boundary (drop ?f s) k"
    using first_boundary by blast
  have "is_char_boundary s (?f + k)"
    using boundary_add [OF assms(1) floor_boundary_boundary, of n k] k(3,4) far assms(2) by simp
  then have "?f + k \<le> ?f" using far k(2) by (intro floor_boundary_greatest) simp_all
  then show False using k(1) by simp
qed

lemma bounded_prefix_long:
  assumes "valid_text s" "drop (bounded_prefix s max_record_bytes) s \<noteq> []"
  shows "1000000 \<le> bounded_prefix s max_record_bytes"
proof -
  have "max_record_bytes \<le> length s"
  proof (rule ccontr)
    assume "\<not> max_record_bytes \<le> length s"
    then have "bounded_prefix s max_record_bytes = length s"
      by (simp add: bounded_prefix_def Let_def min_def)
    then show False using assms(2) by simp
  qed
  with floor_boundary_near [OF assms(1) this] show ?thesis
    by (auto simp: bounded_prefix_def Let_def min_def max_record_bytes_def)
qed

lemma few_line_pieces:
  "valid_text s \<Longrightarrow> length (line_pieces s) * 1000000 \<le> length s + 999999"
proof (induction s rule: line_pieces_induct)
  case (Cut s)
  let ?d = "drop (bounded_prefix s max_record_bytes) s"
  show ?case
  proof (cases "?d = []")
    case True
    then show ?thesis using Cut(1,2) by (simp add: line_pieces_step Suc_le_eq)
  next
    case False
    have "length ?d + bounded_prefix s max_record_bytes = length s"
      using bounded_prefix_le [of s max_record_bytes] by simp
    then show ?thesis
      using Cut bounded_prefix_long [OF Cut(1) False] by (simp add: line_pieces_step)
  qed
qed simp

subsection \<open>Pushing up to the bound\<close>

definition chunk_of :: "ime_record list \<Rightarrow> ime_chunk" where
  "chunk_of rs = \<lparr>ime_entries = rs, ime_errors = of_nat (length (List.filter is_fragment rs))\<rparr>"

definition push_upto :: "nat \<Rightarrow> ime_record list \<Rightarrow> ime_chunk \<Rightarrow> ime_chunk" where
  "push_upto max_entries rs st =
     (let new = take (max_entries - length (ime_entries st)) rs in
      \<lparr>ime_entries = ime_entries st @ new,
       ime_errors = ime_errors st + of_nat (length (List.filter is_fragment new))\<rparr>)"

lemma push_upto_Nil [simp]: "push_upto m [] st = st"
  by (simp add: push_upto_def)

lemma push_upto_full: "length (ime_entries st) \<ge> m \<Longrightarrow> push_upto m rs st = st"
  by (simp add: push_upto_def)

lemma push_upto_append: "push_upto m b (push_upto m a st) = push_upto m (a @ b) st"
proof -
  have "m - (k + min (length a) (m - k)) = m - k - length a" for k
    by (simp add: min_def)
  then show ?thesis by (simp add: push_upto_def Let_def)
qed

lemma push_upto_Cons:
  "length (ime_entries st) < m \<Longrightarrow>
     push_upto m (r # rs) st =
     push_upto m rs \<lparr>ime_entries = ime_entries st @ [r],
                     ime_errors = ime_errors st + (if is_fragment r then 1 else 0)\<rparr>"
  by (simp add: push_upto_def Let_def take_Cons' Suc_diff_Suc)

lemma push_upto_chunk: "length rs \<le> m \<Longrightarrow> push_upto m b (chunk_of rs) = chunk_of (take m (rs @ b))"
  by (simp add: push_upto_def chunk_of_def Let_def)

lemma is_fragment_plain [simp]: "is_fragment (plain_record n msg)"
  by (simp add: plain_record_def)

lemma push_pieces_total:
  "valid_text line \<Longrightarrow>
     push_pieces m n line st = Some (push_upto m (List.map (plain_record n) (line_pieces line)) st)"
proof (induction line arbitrary: st rule: line_pieces_induct)
  case (Cut line)
  show ?case
  proof (cases "length (ime_entries st) \<ge> m")
    case True
    then show ?thesis by (subst push_pieces.simps) (simp add: push_upto_full)
  next
    case False
    then have "push_pieces m n line st = push_pieces m n (drop (bounded_prefix line max_record_bytes) line)
        (push_fragment n (take (bounded_prefix line max_record_bytes) line) st)"
      using Cut.hyps(2) by (subst push_pieces.simps) (simp add: Let_def)
    then show ?thesis
      using Cut False by (simp add: line_pieces_step push_upto_Cons push_fragment_def)
  qed
qed (simp add: push_pieces.simps)

text \<open>The rows of loose text.\<close>

definition line_end :: "char list" where "line_end = [CHR 0x0D, CHR 0x0A]"

fun lines_rows :: "nat list \<Rightarrow> nat \<Rightarrow> string list \<Rightarrow> ime_record list" where
  "lines_rows starts off [] = []"
| "lines_rows starts off (piece # pieces) =
     List.map (plain_record (line_number_for_offset starts off)) (line_pieces (trim_end_any line_end piece))
     @ lines_rows starts (off + length piece) pieces"

definition loose_rows :: "nat list \<Rightarrow> nat \<Rightarrow> string \<Rightarrow> ime_record list" where
  "loose_rows starts off s = lines_rows starts off (split_inclusive s)"

lemma push_lines_total:
  "list_all (\<lambda>p. valid_text (trim_end_any line_end p)) pieces \<Longrightarrow>
     push_lines m starts off pieces st = Some (push_upto m (lines_rows starts off pieces) st)"
proof (induction pieces arbitrary: off st)
  case (Cons piece pieces)
  show ?case
  proof (cases "length (ime_entries st) \<ge> m")
    case False
    have "push_pieces m n (trim_end_any line_end piece) st =
        Some (push_upto m (List.map (plain_record n) (line_pieces (trim_end_any line_end piece))) st)" for n
      using Cons.prems by (intro push_pieces_total) simp
    then show ?thesis using Cons False by (simp add: push_upto_append line_end_def)
  qed (simp add: push_upto_full)
qed simp

subsection \<open>Loose text is valid line by line\<close>

lemma trim_end_any_take: "\<exists>k \<le> length s. trim_end_any cs s = take k s \<and> (k < length s \<longrightarrow> s ! k \<in> set cs)"
proof (induction s rule: rev_induct)
  case (snoc c s)
  then obtain k where k: "k \<le> length s" "trim_end_any cs s = take k s" "k < length s \<longrightarrow> s ! k \<in> set cs" by blast
  show ?case
  proof (cases "c \<in> set cs")
    case True
    then show ?thesis
      using k by (intro exI [of _ k]) (auto simp: trim_end_any_def nth_append)
  next
    case False
    then show ?thesis by (intro exI [of _ "Suc (length s)"]) (simp add: trim_end_any_def)
  qed
qed (simp add: trim_end_any_def)

lemma trim_end_any_valid:
  assumes "valid_text s" "list_all (\<lambda>c. (of_char c :: nat) < 128) cs"
  shows "valid_text (trim_end_any cs s)"
proof -
  obtain k where k: "k \<le> length s" "trim_end_any cs s = take k s" "k < length s \<longrightarrow> s ! k \<in> set cs"
    using trim_end_any_take by blast
  have "is_char_boundary s k"
  proof (cases "k < length s")
    case True
    then show ?thesis using ascii_boundary [OF assms(1) True] k(3) assms(2) by (simp add: list_all_iff)
  next
    case False
    then show ?thesis using k(1) by simp
  qed
  then show ?thesis using valid_text_cut [OF assms(1)] k(2) by simp
qed

lemma split_inclusive_valid: "valid_text s \<Longrightarrow> list_all valid_text (split_inclusive s)"
proof (induction s rule: split_inclusive.induct)
  case (2 c s)
  let ?l = "takeWhile (\<lambda>d. d \<noteq> CHR 0x0A) (c # s)" and ?t = "dropWhile (\<lambda>d. d \<noteq> CHR 0x0A) (c # s)"
  have id: "?l @ ?t = c # s" by (rule takeWhile_dropWhile_id)
  show ?case
  proof (cases "?t = []")
    case True
    then show ?thesis using 2(2) id by (simp add: Let_def)
  next
    case False
    then have t: "?t = CHR 0x0A # tl ?t"
      using hd_dropWhile [of "\<lambda>d. d \<noteq> CHR 0x0A" "c # s"] by (cases ?t) auto
    then have at: "(c # s) ! length ?l = CHR 0x0A" "length ?l < length (c # s)"
      using id by (metis nth_append_length, metis False length_append length_greater_0_conv less_add_same_cancel1)
    have "is_char_boundary (c # s) (Suc (length ?l))"
      using ascii_boundary [OF 2(2) at(2)] at(1) by simp
    from valid_text_cut [OF 2(2) this] have
      "valid_text (take (Suc (length ?l)) (c # s))" "valid_text (drop (Suc (length ?l)) (c # s))" by simp_all
    moreover have "take (Suc (length ?l)) (c # s) = ?l @ [CHR 0x0A]" "drop (Suc (length ?l)) (c # s) = tl ?t"
      using id t by (metis append.assoc append_Cons append_Nil append_eq_conv_conj length_append_singleton)+
    ultimately show ?thesis using False 2(1) [OF refl refl False] by (simp add: Let_def)
  qed
qed simp

lemma push_unmatched_total:
  assumes "valid_text s"
  shows "push_unmatched m starts s off st = Some (push_upto m (loose_rows starts off s) st)"
proof -
  have "list_all (\<lambda>p. valid_text (trim_end_any line_end p)) (split_inclusive s)"
    using split_inclusive_valid [OF assms] trim_end_any_valid
    by (auto simp: list_all_iff line_end_def)
  then show ?thesis by (simp add: push_unmatched_def push_lines_total loose_rows_def)
qed

subsection \<open>Boundaries are character boundaries\<close>

lemma attrs_scan_Some: "attrs_scan q s = Some r \<Longrightarrow> r < length s \<and> s ! r = CHR ''>''"
  by (induction q s arbitrary: r rule: attrs_scan.induct) (auto split: if_splits)

lemma opener_indices_prefix: "k \<in> set (opener_indices s off) \<Longrightarrow> \<exists>i. k = off + i \<and> prefix record_start (drop i s)"
proof (induction s off rule: opener_indices.induct)
  case (1 s off)
  show ?case
  proof (cases "str_find record_start s")
    case (Some i)
    show ?thesis
    proof (cases "k = off + i")
      case True
      then show ?thesis using str_find_Some [OF Some] by auto
    next
      case False
      then obtain j where "k = off + i + 7 + j" "prefix record_start (drop j (drop (i + 7) s))"
        using 1 Some by (auto simp: opener_indices.simps [of s])
      then show ?thesis by (intro exI [of _ "i + 7 + j"]) (simp add: add.commute add.left_commute)
    qed
  qed (use 1 in \<open>simp add: opener_indices.simps [of s]\<close>)
qed

lemma record_start_nth: "prefix record_start (drop k s) \<Longrightarrow> k < length s \<and> s ! k = CHR ''<''"
  by (cases "drop k s") (auto simp: record_start_def drop_eq_Nil2 nth_via_drop intro: ccontr)

lemma closed_boundary_at:
  assumes "closed_boundary env (take l content) limit a = Some b"
  shows "case b of
      Complete e \<Rightarrow> a < e \<and> e \<le> length content \<and> content ! (e - 1) = CHR ''>''
    | Interrupted n \<Rightarrow> n < length content \<and> content ! n = CHR ''<''
    | _ \<Rightarrow> False"
proof -
  have "n < length content \<and> content ! n = CHR ''<''"
    if int: "interrupted_at env (take l content) limit (opener_indices (drop a (take l content)) a) = Some n" for n
  proof -
    obtain i where "n = a + i" "prefix record_start (drop i (drop a (take l content)))"
      using opener_indices_prefix [OF interrupted_at_mem [OF int]] by blast
    then have "prefix record_start (drop n (take l content))" by (simp add: add.commute)
    from record_start_nth [OF this] show ?thesis by auto
  qed
  moreover have "a < e \<and> e \<le> length content \<and> content ! (e - 1) = CHR ''>''"
    if ae: "attributes_end (take l content) a = Some e" for e
  proof -
    obtain r where r: "attrs_scan False (drop a (take l content)) = Some r" "e = a + r + 1"
      using ae by (auto simp: attributes_end_def)
    moreover have "a \<le> length (take l content)" using attrs_scan_Some [OF r(1)] by (cases "a \<le> length (take l content)") auto
    ultimately show ?thesis using attrs_scan_Some [OF r(1)] by auto
  qed
  ultimately show ?thesis
    using assms by (auto simp: closed_boundary_def Let_def split: option.splits if_splits)
qed

text \<open>Where a boundary of the scan may be cut.\<close>

definition cut_ok :: "string \<Rightarrow> nat \<Rightarrow> bool" where
  "cut_ok content k \<longleftrightarrow> k \<le> length content \<and> is_char_boundary content k"

lemma cut_ok_0 [simp]: "cut_ok content 0" and cut_ok_length [simp]: "cut_ok content (length content)"
  by (simp_all add: cut_ok_def)

lemma record_boundary_cut:
  assumes v: "valid_text content" and p: "prefix record_start (drop start content)"
  shows "record_boundary env content start = Complete e \<Longrightarrow> cut_ok content e \<and> start < e"
    and "record_boundary env content start = Interrupted e \<Longrightarrow> cut_ok content e \<and> start < e"
    and "record_boundary env content start = Capped e \<Longrightarrow> cut_ok content e \<and> start < e"
proof -
  let ?limit = "start + bounded_prefix (drop start content) max_record_bytes"
  have start: "start < length content" "content ! start = CHR ''<''" using record_start_nth [OF p] by simp_all
  then have sb: "is_char_boundary content start" using ascii_boundary [OF v start(1)] by simp
  note past = record_boundary_cases [of start content env e]
  have ascii: "is_char_boundary content (Suc k) \<and> is_char_boundary content k"
    if "k < length content" "content ! k \<in> {CHR ''<'', CHR ''>''}" for k
    using ascii_boundary [OF v that(1)] that(2) by auto
  note at = closed_boundary_at [of env ?limit content ?limit _ "record_boundary env content start"]
  show "record_boundary env content start = Complete e \<Longrightarrow> cut_ok content e \<and> start < e"
  proof -
    assume b: "record_boundary env content start = Complete e"
    then have "e \<le> length content \<and> content ! (e - 1) = CHR ''>''" "start < e"
      using at past(1) start(1) by (auto simp: record_boundary_def Let_def split: if_splits option.splits)
    then show ?thesis using ascii [of "e - 1"] by (cases e) (simp_all add: cut_ok_def)
  qed
  show "record_boundary env content start = Interrupted e \<Longrightarrow> cut_ok content e \<and> start < e"
  proof -
    assume b: "record_boundary env content start = Interrupted e"
    then have "e < length content \<and> content ! e = CHR ''<''" "start < e"
      using at past(2) start(1) by (auto simp: record_boundary_def Let_def split: if_splits option.splits)
    then show ?thesis using ascii [of e] by (simp add: cut_ok_def)
  qed
  show "record_boundary env content start = Capped e \<Longrightarrow> cut_ok content e \<and> start < e"
  proof -
    assume b: "record_boundary env content start = Capped e"
    then have "e = ?limit"
      using at by (auto simp: record_boundary_def Let_def split: if_splits option.splits)
    moreover have "valid_text (drop start content)" using valid_text_cut [OF v sb] by simp
    then have "is_char_boundary (drop start content) (bounded_prefix (drop start content) max_record_bytes)"
      using start(1) by (intro bounded_prefix_cut(4)) simp_all
    then have "is_char_boundary content ?limit" using boundary_add [OF v sb] start(1) by simp
    ultimately show ?thesis using past(3) [OF _ b] start(1) by (simp add: cut_ok_def)
  qed
qed

subsection \<open>The framing\<close>

datatype frame = Loose nat string | Framed nat string

fun frame_text :: "frame \<Rightarrow> string" where
  "frame_text (Loose off s) = s"
| "frame_text (Framed off s) = s"

function frames :: "'n ime_env \<Rightarrow> string \<Rightarrow> nat \<Rightarrow> nat \<Rightarrow> frame list" where
  "frames env content cursor search =
     (case str_find record_start (drop search content) of
        None \<Rightarrow> [Loose cursor (drop cursor content)]
      | Some rel \<Rightarrow>
          (case record_boundary env content (search + rel) of
             Complete e \<Rightarrow>
               Loose cursor (slice content cursor (search + rel))
               # Framed (search + rel) (slice content (search + rel) e) # frames env content e e
           | Capped e \<Rightarrow> Loose cursor (slice content cursor e) # frames env content e e
           | Interrupted n \<Rightarrow> frames env content cursor n
           | Incomplete \<Rightarrow> [Loose cursor (drop cursor content)]))"
  by pat_completeness auto
termination
proof (relation "measure (\<lambda>(_, content, _, search). length content - search)", goal_cases)
  case (2 env content cursor search rel e)
  have "search + rel + 7 \<le> length content" using opener_found [OF 2(1)] .
  moreover from this have "search + rel < e \<and> e \<le> length content"
    by (intro record_boundary_cases(1) [OF _ 2(2)]) linarith
  ultimately show ?case unfolding in_measure prod.case by linarith
next
  case (3 env content cursor search rel e)
  have "search + rel + 7 \<le> length content" using opener_found [OF 3(1)] .
  moreover from this have "search + rel < e \<and> e \<le> length content"
    by (intro record_boundary_cases(2) [OF _ 3(2)]) linarith
  ultimately show ?case unfolding in_measure prod.case by linarith
next
  case (4 env content cursor search rel e)
  have "search + rel + 7 \<le> length content" using opener_found [OF 4(1)] .
  moreover from this have "search + rel < e \<and> e \<le> length content"
    by (intro record_boundary_cases(3) [OF _ 4(2)]) linarith
  ultimately show ?case unfolding in_measure prod.case by linarith
qed simp

declare frames.simps [simp del]

fun frame_rows :: "'n ime_env \<Rightarrow> nat list \<Rightarrow> frame \<Rightarrow> ime_record list" where
  "frame_rows env starts (Loose off s) = loose_rows starts off s"
| "frame_rows env starts (Framed off s) =
     (case record_captures s of
        Some caps \<Rightarrow> [parse_ime_record env caps off starts]
      | None \<Rightarrow> loose_rows starts off s)"

definition rows_of :: "'n ime_env \<Rightarrow> nat list \<Rightarrow> frame list \<Rightarrow> ime_record list" where
  "rows_of env starts fs = concat (List.map (frame_rows env starts) fs)"

lemma rows_of_simps [simp]:
  "rows_of env starts [] = []"
  "rows_of env starts (f # fs) = frame_rows env starts f @ rows_of env starts fs"
  by (simp_all add: rows_of_def)

text \<open>Whether the bounded scan gets to its first record.\<close>

fun opens :: "nat list \<Rightarrow> nat \<Rightarrow> nat \<Rightarrow> frame list \<Rightarrow> bool" where
  "opens starts k m (Loose off s # Framed off' t # fs) \<longleftrightarrow> k + length (loose_rows starts off s) < m"
| "opens starts k m (f # g # fs) \<longleftrightarrow> k < m"
| "opens starts k m fs \<longleftrightarrow> False"

text \<open>One step of the scan, with what induction on the rest of the text needs.\<close>

lemma scan_cases:
  assumes v: "valid_text content"
  obtains (Stop) "str_find record_start (drop search content) = None \<or>
      (\<exists>rel. str_find record_start (drop search content) = Some rel
         \<and> record_boundary env content (search + rel) = Incomplete)"
  | (Done) rel e where "str_find record_start (drop search content) = Some rel"
      "record_boundary env content (search + rel) = Complete e"
      "search + rel < e" "cut_ok content e" "cut_ok content (search + rel)"
  | (Broken) rel e where "str_find record_start (drop search content) = Some rel"
      "record_boundary env content (search + rel) = Interrupted e" "search + rel < e" "cut_ok content e"
  | (Over) rel e where "str_find record_start (drop search content) = Some rel"
      "record_boundary env content (search + rel) = Capped e" "search + rel < e" "cut_ok content e"
proof (cases "str_find record_start (drop search content)")
  case (Some rel)
  have p: "prefix record_start (drop (search + rel) content)"
    using str_find_Some [OF Some] by (simp add: add.commute)
  have "cut_ok content (search + rel)"
    using record_start_nth [OF p] ascii_boundary [OF v, of "search + rel"] by (simp add: cut_ok_def)
  then show ?thesis
    using that Some record_boundary_cut [OF v p, of env]
    by (cases "record_boundary env content (search + rel)") blast+
qed (use that in blast)

lemma frames_induct [consumes 4, case_names Stop Done Broken Over]:
  assumes v: "valid_text content" and "cut_ok content cursor" "cut_ok content search" "cursor \<le> search"
    and stop: "\<And>cursor search. cut_ok content cursor \<Longrightarrow> cursor \<le> search \<Longrightarrow>
        str_find record_start (drop search content) = None \<or>
          (\<exists>rel. str_find record_start (drop search content) = Some rel
             \<and> record_boundary env content (search + rel) = Incomplete) \<Longrightarrow> P cursor search"
    and closing: "\<And>cursor search rel e. cut_ok content cursor \<Longrightarrow> cursor \<le> search \<Longrightarrow>
        str_find record_start (drop search content) = Some rel \<Longrightarrow>
        record_boundary env content (search + rel) = Complete e \<Longrightarrow> search + rel < e \<Longrightarrow>
        cut_ok content e \<Longrightarrow> cut_ok content (search + rel) \<Longrightarrow> P e e \<Longrightarrow> P cursor search"
    and broken: "\<And>cursor search rel e. cut_ok content cursor \<Longrightarrow> cursor \<le> search \<Longrightarrow>
        str_find record_start (drop search content) = Some rel \<Longrightarrow>
        record_boundary env content (search + rel) = Interrupted e \<Longrightarrow> search + rel < e \<Longrightarrow>
        cut_ok content e \<Longrightarrow> P cursor e \<Longrightarrow> P cursor search"
    and over: "\<And>cursor search rel e. cut_ok content cursor \<Longrightarrow> cursor \<le> search \<Longrightarrow>
        str_find record_start (drop search content) = Some rel \<Longrightarrow>
        record_boundary env content (search + rel) = Capped e \<Longrightarrow> search + rel < e \<Longrightarrow>
        cut_ok content e \<Longrightarrow> P e e \<Longrightarrow> P cursor search"
  shows "P cursor search"
  using assms(2-4)
proof (induction "length content - search" arbitrary: cursor search rule: less_induct)
  case less
  have dec: "length content - e < length content - search" if "search + rel < e" "cut_ok content e" for rel e
    using that by (auto simp: cut_ok_def)
  show ?case
    using v
  proof (cases rule: scan_cases [where search = search and env = env])
    case Stop
    then show ?thesis using stop less.prems by blast
  next
    case (Done rel e)
    then show ?thesis using closing less.prems less.hyps [OF dec [OF Done(3,4)], of e] by blast
  next
    case (Broken rel e)
    then have "cursor \<le> e" using less.prems by simp
    then show ?thesis using broken Broken less.prems less.hyps [OF dec [OF Broken(3,4)], of cursor] by blast
  next
    case (Over rel e)
    then show ?thesis using over less.prems less.hyps [OF dec [OF Over(3,4)], of e] by blast
  qed
qed

lemma valid_frame_texts:
  assumes "valid_text content" "cut_ok content a"
  shows "valid_text (drop a content)" "cut_ok content b \<Longrightarrow> a \<le> b \<Longrightarrow> valid_text (slice content a b)"
  using assms valid_text_cut [of content a] valid_text_slice [of content a b] by (simp_all add: cut_ok_def)

text \<open>The scan and its final push, bounded by \<open>m\<close>: the first \<open>m\<close> rows of the framing.\<close>

definition scan_all ::
  "'n ime_env \<Rightarrow> nat \<Rightarrow> string \<Rightarrow> nat list \<Rightarrow> nat \<Rightarrow> nat \<Rightarrow> ime_chunk \<Rightarrow> bool \<Rightarrow> (ime_chunk \<times> bool) option" where
  "scan_all env m content starts cursor search st matched =
     do { (cursor, st, matched) \<leftarrow> scan_loop env m content starts cursor search st matched;
          st \<leftarrow> push_unmatched m starts (drop cursor content) cursor st;
          Some (st, matched) }"

lemma scan_all_stop:
  assumes "valid_text content" "cut_ok content cursor" "length rs \<le> m"
    and "scan_loop env m content starts cursor search (chunk_of rs) matched = Some (cursor, chunk_of rs, matched)"
  shows "scan_all env m content starts cursor search (chunk_of rs) matched =
    Some (chunk_of (take m (rs @ loose_rows starts cursor (drop cursor content))), matched)"
  using assms valid_frame_texts(1) [OF assms(1,2)]
  by (simp add: scan_all_def push_unmatched_total push_upto_chunk)

lemma scan_all_full:
  assumes "valid_text content" "cut_ok content cursor"
    and "scan_loop env m content starts cursor search (chunk_of rs) matched = Some (cursor, chunk_of rs, matched)"
    and "length rs = m"
  shows "scan_all env m content starts cursor search (chunk_of rs) matched =
    Some (chunk_of (take m (rs @ any)), matched)"
  using scan_all_stop [OF assms(1,2) _ assms(3)] assms(4) by simp

lemma chunk_of_entries [simp]: "ime_entries (chunk_of rs) = rs"
  by (simp add: chunk_of_def)

lemma push_loose:
  assumes "valid_text content" "cut_ok content a" "cut_ok content b" "a \<le> b" "length rs \<le> m"
  shows "push_unmatched m starts (slice content a b) a (chunk_of rs) =
    Some (chunk_of (take m (rs @ loose_rows starts a (slice content a b))))"
  using valid_frame_texts(2) [OF assms(1,2,3,4)] assms(5) by (simp add: push_unmatched_total push_upto_chunk)

lemma take_append_take [simp]: "take m (take m xs @ ys) = take m (xs @ ys)"
  by (cases "length xs \<le> m") simp_all

text \<open>The induction needs the scan from a state that already holds \<open>rs\<close>; a full state ends it.\<close>

lemma scan_all_end:
  assumes "scan_loop env m content starts cursor search st matched = Some (c, chunk_of rs, b)"
    and "valid_text content" "cut_ok content c" "length rs = m"
  shows "scan_all env m content starts cursor search st matched = Some (chunk_of rs, b)"
  using assms valid_frame_texts(1) [OF assms(2,3)]
  by (simp add: scan_all_def push_unmatched_total push_upto_chunk)

lemma scan_all_step:
  "scan_loop env m content starts cursor search st matched = scan_loop env m content starts c s st' b \<Longrightarrow>
   scan_all env m content starts cursor search st matched = scan_all env m content starts c s st' b"
  by (simp add: scan_all_def)

lemma scan_full:
  "length rs \<ge> m \<Longrightarrow> str_find record_start (drop search content) = Some rel \<Longrightarrow>
   scan_loop env m content starts cursor search (chunk_of rs) matched = Some (cursor, chunk_of rs, matched)"
  by (subst scan_loop.simps) simp

lemma frames_Loose: "\<exists>s fs. frames env content cursor search = Loose cursor s # fs"
  by (induction env content cursor search rule: frames.induct)
    (subst frames.simps, auto split: option.split boundary.split)

lemma opens_Loose2: "opens starts k m (Loose off s # frames env content c d) \<longleftrightarrow> k < m"
  using frames_Loose [of env content c d] by auto

lemma push_framed:
  assumes "valid_text content" "cut_ok content a" "cut_ok content b" "a \<le> b" "length rs < m"
  shows "(case record_captures (slice content a b) of
      Some caps \<Rightarrow> Some ((chunk_of rs)\<lparr>ime_entries := ime_entries (chunk_of rs) @ [parse_ime_record env caps a starts]\<rparr>)
    | None \<Rightarrow> push_unmatched m starts (slice content a b) a (chunk_of rs)) =
    Some (chunk_of (take m (rs @ frame_rows env starts (Framed a (slice content a b)))))"
  using push_loose [OF assms(1-4), of rs m] assms(5)
  by (auto simp: chunk_of_def parse_ime_record_def Let_def split: option.split prod.split)

lemma scan_total:
  assumes v: "valid_text content" and c: "cut_ok content cursor" "cut_ok content search" "cursor \<le> search"
  shows "length rs \<le> m \<Longrightarrow>
    scan_all env m content starts cursor search (chunk_of rs) matched =
    Some (chunk_of (take m (rs @ rows_of env starts (frames env content cursor search))),
          matched \<or> opens starts (length rs) m (frames env content cursor search))"
  using v c
proof (induction arbitrary: rs matched rule: frames_induct [where env = env])
  case (Stop cursor search)
  then have "scan_loop env m content starts cursor search (chunk_of rs) matched =
      Some (cursor, chunk_of rs, matched)"
    by (subst scan_loop.simps) auto
  then show ?case
    using scan_all_stop [OF v Stop(1)] Stop by (auto simp: frames.simps [of env content cursor search])
next
  case (Done cursor search rel e)
  let ?a = "search + rel"
  let ?L = "loose_rows starts cursor (slice content cursor ?a)"
  let ?F = "frame_rows env starts (Framed ?a (slice content ?a e))"
  have fr: "frames env content cursor search =
      Loose cursor (slice content cursor ?a) # Framed ?a (slice content ?a e) # frames env content e e"
    using Done by (subst frames.simps) simp
  note push = push_loose [OF v Done(1,7), of rs m starts]
  show ?case
  proof (cases "length rs + length ?L < m")
    case True
    define F where "F = ?F"
    have first: "push_unmatched m starts (slice content cursor ?a) cursor (chunk_of rs) = Some (chunk_of (rs @ ?L))"
      using push Done True by simp
    note framed = push_framed [OF v Done(7,6), where rs = "rs @ ?L" and m = m and env = env and starts = starts,
        folded F_def]
    have "scan_loop env m content starts cursor search (chunk_of rs) matched =
        scan_loop env m content starts e e (chunk_of (take m (rs @ ?L @ F))) True"
      using Done(3-5) True first framed unfolding F_def [symmetric] by (subst scan_loop.simps) (simp add: Let_def)
    note step = scan_all_step [OF this]
    have "scan_all env m content starts e e (chunk_of (take m (rs @ ?L @ F))) True =
        Some (chunk_of (take m (take m (rs @ ?L @ F) @ rows_of env starts (frames env content e e))), True)"
      using Done.IH [of "take m (rs @ ?L @ F)" True] by (simp del: take_append take_append_take)
    moreover have "rows_of env starts (frames env content cursor search) =
        ?L @ F @ rows_of env starts (frames env content e e)"
      by (simp add: fr F_def)
    ultimately show ?thesis
      using step True fr by (simp del: take_append)
  next
    case False
    show ?thesis
    proof (cases "length rs = m")
      case True
      then show ?thesis using scan_all_end [OF scan_full [of m rs] v Done(1)] Done fr by simp
    next
      case shorter: False
      then have "scan_loop env m content starts cursor search (chunk_of rs) matched =
          Some (cursor, chunk_of (take m (rs @ ?L)), matched)"
        using Done False push by (subst scan_loop.simps) simp
      from scan_all_end [OF this v Done(1)] show ?thesis using False fr by simp
    qed
  qed
next
  case (Broken cursor search rel e)
  have fr: "frames env content cursor search = frames env content cursor e"
    using Broken by (subst frames.simps) simp
  show ?case
  proof (cases "length rs = m")
    case True
    obtain s fs where "frames env content cursor e = Loose cursor s # fs" using frames_Loose by blast
    moreover have "\<not> opens starts m m (Loose cursor s # fs)" by (cases fs; cases "hd fs") auto
    ultimately show ?thesis
      using True scan_all_end [OF scan_full [of m rs] v Broken(1)] Broken fr by simp
  next
    case False
    then have "scan_loop env m content starts cursor search (chunk_of rs) matched =
        scan_loop env m content starts cursor e (chunk_of rs) matched"
      using Broken by (subst scan_loop.simps) simp
    from scan_all_step [OF this] show ?thesis using Broken fr by simp
  qed
next
  case (Over cursor search rel e)
  let ?L = "loose_rows starts cursor (slice content cursor e)"
  have fr: "frames env content cursor search = Loose cursor (slice content cursor e) # frames env content e e"
    using Over by (subst frames.simps) simp
  show ?case
  proof (cases "length rs = m")
    case True
    then show ?thesis
      using scan_all_end [OF scan_full [of m rs] v Over(1)] Over fr by (simp add: opens_Loose2)
  next
    case False
    then have "scan_loop env m content starts cursor search (chunk_of rs) matched =
        scan_loop env m content starts e e (chunk_of (take m (rs @ ?L))) True"
      using Over push_loose [OF v Over(1,6), of rs m starts] by (subst scan_loop.simps) simp
    note step = scan_all_step [OF this]
    have "scan_all env m content starts e e (chunk_of (take m (rs @ ?L))) True =
        Some (chunk_of (take m (take m (rs @ ?L) @ rows_of env starts (frames env content e e))), True)"
      using Over.IH [of "take m (rs @ ?L)" True] by (simp del: take_append take_append_take)
    then show ?thesis
      using Over.prems False fr step by (simp add: opens_Loose2 del: take_append)
  qed
qed

end
