(* ===== verification/ImeRecords.thy ===== *)
theory ImeRecords
  imports ImeProps
begin

text \<open>
  What the IME parsers return, over the rows of \<open>ImeProps\<close>: the fallback lines, the two cases of
  \<open>parse_ime_records\<close>, evidence that survives unchanged, and the bounded parse against the unbounded one.
\<close>

subsection \<open>Fallback lines\<close>

definition fallback_line_rows :: "'n ime_env \<Rightarrow> nat \<Rightarrow> string \<Rightarrow> ime_record list" where
  "fallback_line_rows env index line =
     (let n = of_nat (index + 1); trimmed = str_trim line in
      if trimmed = [] \<and> length line < max_record_bytes then []
      else if length line \<ge> max_record_bytes then List.map (set_line n) (loose_rows [0] 0 line)
      else
        (case simple_ts env trimmed of
           Some (ts, msg) \<Rightarrow> [timestamped_record env n ts msg]
         | None \<Rightarrow> [plain_record n line]))"

fun fallback_rows :: "'n ime_env \<Rightarrow> nat \<Rightarrow> string list \<Rightarrow> ime_record list" where
  "fallback_rows env index [] = []"
| "fallback_rows env index (line # lines) =
     fallback_line_rows env index line @ fallback_rows env (index + 1) lines"

lemma is_fragment_lines: "r \<in> set (lines_rows starts off ps) \<Longrightarrow> is_fragment r"
  by (induction starts off ps rule: lines_rows.induct) auto

lemma is_fragment_loose: "r \<in> set (loose_rows starts off s) \<Longrightarrow> is_fragment r"
  by (simp add: loose_rows_def is_fragment_lines)

lemma filter_fragments: "List.filter is_fragment (take k (loose_rows starts off s)) = take k (loose_rows starts off s)"
  by (rule filter_True) (meson in_set_takeD is_fragment_loose)

text \<open>The error counter of a long line is a \<open>u32\<close>; it cannot wrap on a line shorter than two pebibytes.
  Whatever it counts, the line gives a result.\<close>

abbreviation countable_length :: nat where "countable_length \<equiv> 2251799813685248"

lemma lines_rows_single: "CHR 0x0A \<notin> set s \<Longrightarrow>
    loose_rows starts off s =
      List.map (plain_record (line_number_for_offset starts off)) (line_pieces (trim_end_any line_end s))"
proof -
  assume n: "CHR 0x0A \<notin> set s"
  then have "takeWhile (\<lambda>c. c \<noteq> CHR 0x0A) s = s" "dropWhile (\<lambda>c. c \<noteq> CHR 0x0A) s = []"
    by (auto simp: takeWhile_eq_all_conv dropWhile_eq_Nil_conv)
  then show ?thesis
    by (cases s) (simp_all add: loose_rows_def Let_def trim_end_any_def)
qed

lemma length_long_line:
  assumes "valid_text line" "CHR 0x0A \<notin> set line" "length line < countable_length"
  shows "length (loose_rows [0] 0 line) < 2 ^ 32"
proof -
  let ?t = "trim_end_any line_end line"
  have "valid_text ?t" using trim_end_any_valid [OF assms(1)] by (simp add: line_end_def)
  moreover have "length ?t \<le> length line" using trim_end_any_take [of line line_end] by auto
  ultimately show ?thesis
    using few_line_pieces [of ?t] assms(3) by (simp add: lines_rows_single [OF assms(2)])
qed

lemma fallback_line_total:
  assumes "valid_text line" "CHR 0x0A \<notin> set line" "length line < countable_length" "length es < m"
  shows "fallback_line env m index line es = Some (take m (es @ fallback_line_rows env index line))"
proof (cases "str_trim line = [] \<and> length line < max_record_bytes \<or> length line < max_record_bytes")
  case True
  then show ?thesis
    using assms(4) by (auto simp: fallback_line_def fallback_line_rows_def Let_def split: option.split)
next
  case False
  then have long: "length line \<ge> max_record_bytes" by simp
  let ?rows = "take (m - length es) (loose_rows [0] 0 line)"
  have "push_unmatched m [0] line 0 \<lparr>ime_entries = es, ime_errors = 0\<rparr> =
      Some (push_upto m (loose_rows [0] 0 line) \<lparr>ime_entries = es, ime_errors = 0\<rparr>)"
    by (rule push_unmatched_total [OF assms(1)])
  moreover have "length ?rows < 2 ^ 32"
    using length_long_line [OF assms(1-3)] by simp
  then have "unat (of_nat (length ?rows) :: u32) = length ?rows"
    by (simp add: unat_of_nat take_bit_nat_eq_self)
  ultimately show ?thesis
    using long assms(4)
    by (simp add: fallback_line_def fallback_line_rows_def Let_def push_upto_def filter_fragments take_map)
qed

lemma fallback_line_returns: "valid_text line \<Longrightarrow> \<exists>es'. fallback_line env m index line es = Some es'"
  using push_unmatched_total [of line m "[0]" 0] by (auto simp: fallback_line_def Let_def split: option.split)

lemma fallback_loop_returns:
  "list_all valid_text lines \<Longrightarrow> \<exists>es'. fallback_loop env m index lines es = Some es'"
proof (induction lines arbitrary: index es)
  case (Cons line lines)
  then obtain es' where "fallback_line env m index line es = Some es'" using fallback_line_returns by fastforce
  with Cons show ?case by simp
qed simp

lemma fallback_loop_total:
  "list_all (\<lambda>l. valid_text l \<and> CHR 0x0A \<notin> set l \<and> length l < countable_length) lines \<Longrightarrow> length es \<le> m \<Longrightarrow>
     fallback_loop env m index lines es = Some (take m (es @ fallback_rows env index lines))"
proof (induction lines arbitrary: index es)
  case (Cons line lines)
  show ?case
  proof (cases "length es < m")
    case True
    then have "fallback_loop env m index (line # lines) es =
        fallback_loop env m (index + 1) lines (take m (es @ fallback_line_rows env index line))"
      using Cons.prems by (simp add: fallback_line_total)
    also have "\<dots> = Some (take m (take m (es @ fallback_line_rows env index line)
        @ fallback_rows env (index + 1) lines))"
      using Cons by (simp del: take_append take_append_take)
    finally show ?thesis by (simp del: take_append)
  qed (use Cons.prems in simp)
qed simp

lemma strip_newline_take:
  "\<exists>k \<le> length s. strip_newline s = take k s \<and> (k < length s \<longrightarrow> s ! k \<in> {CHR 0x0A, CHR 0x0D})"
proof (cases "s \<noteq> [] \<and> last s = CHR 0x0A")
  case True
  then obtain t where t: "s = t @ [CHR 0x0A]" by (metis append_butlast_last_id)
  show ?thesis
  proof (cases "t \<noteq> [] \<and> last t = CHR 0x0D")
    case True
    then obtain u where "t = u @ [CHR 0x0D]" by (metis append_butlast_last_id)
    then show ?thesis using t by (intro exI [of _ "length u"]) (simp add: strip_newline_def nth_append butlast_append)
  next
    case False
    then show ?thesis using t by (intro exI [of _ "length t"]) (auto simp: strip_newline_def)
  qed
next
  case False
  then show ?thesis by (intro exI [of _ "length s"]) (auto simp: strip_newline_def)
qed

lemma strip_newline_valid: "valid_text s \<Longrightarrow> valid_text (strip_newline s)"
proof -
  assume v: "valid_text s"
  obtain k where k: "k \<le> length s" "strip_newline s = take k s"
      "k < length s \<longrightarrow> s ! k \<in> {CHR 0x0A, CHR 0x0D}"
    using strip_newline_take by blast
  have "is_char_boundary s k"
    using k(1,3) ascii_boundary [OF v, of k] by (cases "k < length s") auto
  then show ?thesis using valid_text_cut [OF v] k(2) by simp
qed

lemma str_lines_valid: "valid_text s \<Longrightarrow> list_all valid_text (str_lines s)"
  using split_inclusive_valid [of s] by (auto simp: str_lines_def list_all_iff strip_newline_valid)

lemma split_inclusive_piece:
  "x \<in> set (split_inclusive s) \<Longrightarrow> length x \<le> length s \<and> CHR 0x0A \<notin> set (butlast x)"
proof (induction s rule: split_inclusive.induct)
  case (2 c s)
  let ?l = "takeWhile (\<lambda>d. d \<noteq> CHR 0x0A) (c # s)" and ?t = "dropWhile (\<lambda>d. d \<noteq> CHR 0x0A) (c # s)"
  have id: "length ?l + length ?t = length (c # s)" by (metis length_append takeWhile_dropWhile_id)
  have no: "CHR 0x0A \<notin> set ?l" using set_takeWhileD by fastforce
  show ?case
  proof (cases "?t = []")
    case True
    then have "x = ?l" using 2(2) by (simp add: Let_def)
    moreover have "length ?l \<le> length (c # s)" by (rule length_takeWhile_le)
    ultimately show ?thesis using no in_set_butlastD by metis
  next
    case False
    then consider "x = ?l @ [CHR 0x0A]" | "x \<in> set (split_inclusive (tl ?t))"
      using 2(2) by (auto simp: Let_def)
    then show ?thesis
    proof cases
      case 1
      moreover have "0 < length ?t" using False by simp
      ultimately show ?thesis using id no by (simp del: takeWhile.simps dropWhile.simps length_greater_0_conv)
    next
      case 2
      then have "length x \<le> length (tl ?t)" "CHR 0x0A \<notin> set (butlast x)"
        using "2.IH" [OF refl refl False] by blast+
      moreover have "length (tl ?t) \<le> length (c # s)" using id by (simp only: length_tl)
      ultimately show ?thesis by linarith
    qed
  qed
qed simp

lemma strip_newline_line:
  assumes "CHR 0x0A \<notin> set (butlast x)"
  shows "length (strip_newline x) \<le> length x \<and> CHR 0x0A \<notin> set (strip_newline x)"
  using assms by (cases x rule: rev_cases) (auto simp: strip_newline_def dest: in_set_butlastD)

lemma str_lines_countable:
  "valid_text s \<Longrightarrow> length s < countable_length \<Longrightarrow>
     list_all (\<lambda>l. valid_text l \<and> CHR 0x0A \<notin> set l \<and> length l < countable_length) (str_lines s)"
  using str_lines_valid [of s] split_inclusive_piece [of _ s] strip_newline_line
  by (fastforce simp: str_lines_def list_all_iff)

lemma parse_fallback_lines_total:
  "valid_text content \<Longrightarrow> length content < countable_length \<Longrightarrow>
     parse_fallback_lines env content m = Some (chunk_of (take m (fallback_rows env 0 (str_lines content))))"
  by (simp add: parse_fallback_lines_def fallback_loop_total [OF str_lines_countable] chunk_of_def)

lemma parse_fallback_lines_returns:
  "valid_text content \<Longrightarrow> \<exists>rs. parse_fallback_lines env content m = Some (chunk_of rs)"
  using fallback_loop_returns [OF str_lines_valid, of content env m 0 "[]"]
  by (auto simp: parse_fallback_lines_def chunk_of_def)

subsection \<open>The records of a content\<close>

abbreviation content_frames :: "'n ime_env \<Rightarrow> string \<Rightarrow> frame list" where
  "content_frames env content \<equiv> frames env content 0 0"

definition record_rows :: "'n ime_env \<Rightarrow> string \<Rightarrow> ime_record list" where
  "record_rows env content = rows_of env (build_line_starts content) (content_frames env content)"

definition line_rows :: "'n ime_env \<Rightarrow> string \<Rightarrow> ime_record list" where
  "line_rows env content = fallback_rows env 0 (str_lines content)"

lemma scan_content:
  assumes "valid_text content"
  shows "scan_all env m content (build_line_starts content) 0 0 no_chunk False =
      Some (chunk_of (take m (record_rows env content)),
            opens (build_line_starts content) 0 m (content_frames env content))"
proof -
  have no: "no_chunk = chunk_of []" by (simp add: no_chunk_def chunk_of_def)
  show ?thesis
    using scan_total [OF assms, of 0 0 "[]" m env "build_line_starts content" False]
    by (simp add: no record_rows_def)
qed

lemma parse_ime_records_cases:
  assumes "valid_text content"
  shows "parse_ime_records env content m =
    (if opens (build_line_starts content) 0 m (content_frames env content)
     then Some (chunk_of (take m (record_rows env content)))
     else parse_fallback_lines env content m)"
  using scan_content [OF assms, of env m]
  by (auto simp: parse_ime_records_def scan_all_def Option.bind_eq_Some_conv)

lemma parse_ime_records_total:
  assumes "valid_text content" "length content < countable_length"
  shows "parse_ime_records env content m =
    Some (chunk_of (take m (if opens (build_line_starts content) 0 m (content_frames env content)
                            then record_rows env content else line_rows env content)))"
  using parse_fallback_lines_total [OF assms, of env m]
  by (simp add: parse_ime_records_cases [OF assms(1)] line_rows_def)

lemma parse_ime_records_returns:
  assumes "valid_text content"
  shows "\<exists>rs. parse_ime_records env content m = Some (chunk_of rs)"
  using parse_fallback_lines_returns [OF assms, of env m]
  by (auto simp: parse_ime_records_cases [OF assms])

subsection \<open>The line grammar keeps its lines\<close>

text \<open>A line past the record bound is cut into pieces that together are the line without the carriage
  returns at its end; a blank line gives nothing; any other line gives one row, the whole line as evidence
  or the message behind a leading timestamp. Every row carries the number of its line.\<close>

definition line_kept :: "'n ime_env \<Rightarrow> nat \<times> string \<Rightarrow> ime_record list \<Rightarrow> bool" where
  "line_kept env il rows \<longleftrightarrow>
     (let line = snd il in
      list_all (\<lambda>r. il_line (ir_line r) = of_nat (fst il + 1)) rows
      \<and> (if length line \<ge> max_record_bytes
         then concat (List.map (\<lambda>r. il_message (ir_line r)) rows) = trim_end_any line_end line
              \<and> list_all (\<lambda>r. is_fragment r \<and> length (il_message (ir_line r)) \<le> max_record_bytes) rows
         else if str_trim line = [] then rows = []
         else (\<exists>r. rows = [r]
                 \<and> (case simple_ts env (str_trim line) of
                      Some (ts, msg) \<Rightarrow> \<not> is_fragment r \<and> il_message (ir_line r) = msg
                        \<and> il_timestamp (ir_line r) = Some ts
                    | None \<Rightarrow> is_fragment r \<and> il_message (ir_line r) = line))))"

lemma set_line_simps [simp]:
  "il_line (ir_line (set_line n r)) = n" "il_message (ir_line (set_line n r)) = il_message (ir_line r)"
  "is_fragment (set_line n r) = is_fragment r"
  by (simp_all add: set_line_def)

lemma plain_message [simp]: "il_message (ir_line (plain_record n s)) = s" "il_line (ir_line (plain_record n s)) = n"
  by (simp_all add: plain_record_def plain_line_def)

lemma fallback_line_kept:
  assumes "valid_text line" "CHR 0x0A \<notin> set line"
  shows "line_kept env (index, line) (fallback_line_rows env index line)"
proof (cases "length line \<ge> max_record_bytes")
  case True
  have v: "valid_text (trim_end_any line_end line)"
    using trim_end_any_valid [OF assms(1)] by (simp add: line_end_def)
  then show ?thesis
    using True concat_line_pieces [OF v] line_pieces_bounds [OF v]
    by (auto simp: line_kept_def Let_def fallback_line_rows_def lines_rows_single [OF assms(2)] comp_def list_all_iff)
next
  case False
  then show ?thesis
    by (auto simp: line_kept_def Let_def fallback_line_rows_def timestamped_record_def plain_line_def
        split: option.split)
qed

lemma fallback_rows_kept:
  "list_all (\<lambda>l. valid_text l \<and> CHR 0x0A \<notin> set l) lines \<Longrightarrow>
     \<exists>rss. fallback_rows env index lines = concat rss
       \<and> list_all2 (line_kept env) (enumerate index lines) rss"
proof (induction lines arbitrary: index)
  case (Cons line lines)
  then obtain rss where rss: "fallback_rows env (index + 1) lines = concat rss"
      "list_all2 (line_kept env) (enumerate (Suc index) lines) rss"
    using Cons.IH [of "index + 1"] by auto
  moreover have "line_kept env (index, line) (fallback_line_rows env index line)"
    using Cons.prems by (intro fallback_line_kept) simp_all
  ultimately show ?case by (intro exI [of _ "fallback_line_rows env index line # rss"]) simp
qed (intro exI [of _ "[]"], simp)

lemma line_rows_kept:
  assumes "valid_text content"
  shows "\<exists>rss. line_rows env content = concat rss
    \<and> list_all2 (line_kept env) (enumerate 0 (str_lines content)) rss"
proof -
  have "list_all (\<lambda>l. valid_text l \<and> CHR 0x0A \<notin> set l) (str_lines content)"
    using str_lines_valid [OF assms] split_inclusive_piece [of _ content] strip_newline_line
    by (fastforce simp: str_lines_def list_all_iff)
  then show ?thesis unfolding line_rows_def by (rule fallback_rows_kept)
qed

subsection \<open>The framing loses nothing\<close>

lemma prefix_take_iff: "length p \<le> n \<Longrightarrow> prefix p (take n s) \<longleftrightarrow> prefix p s"
proof -
  have eq: "prefix p t \<longleftrightarrow> take (length p) t = p" for t
    by (metis append_eq_conv_conj prefix_def take_is_prefix)
  assume "length p \<le> n"
  then show ?thesis by (simp add: eq min_absorb1)
qed

lemma str_find_take: "r + length p \<le> n \<Longrightarrow> str_find p (take n s) = Some r \<longleftrightarrow> str_find p s = Some r"
proof -
  assume r: "r + length p \<le> n"
  have at: "prefix p (drop j (take n s)) \<longleftrightarrow> prefix p (drop j s)" if "j \<le> r" for j
    using prefix_take_iff [of p "n - j" "drop j s"] r that by (simp add: drop_take)
  show ?thesis
  proof
    assume "str_find p (take n s) = Some r"
    from str_find_Some [OF this] show "str_find p s = Some r" by (intro str_find_first) (auto simp: at)
  next
    assume "str_find p s = Some r"
    from str_find_Some [OF this] show "str_find p (take n s) = Some r" by (intro str_find_first) (auto simp: at)
  qed
qed

lemma str_find_split: "str_find p s = Some r \<Longrightarrow> s = take r s @ p @ drop (r + length p) s"
proof -
  assume "str_find p s = Some r"
  then obtain v where v: "drop r s = p @ v" using str_find_Some by (fastforce simp: prefix_def)
  then have "v = drop (length p) (drop r s)" by simp
  then have "v = drop (r + length p) s" by (simp add: add.commute)
  then show ?thesis using v by (metis append_take_drop_id)
qed

lemma message_match_first:
  "str_find attrs_start s = Some r \<Longrightarrow> attrs_scan False (drop (r + 8) s) = Some k \<Longrightarrow>
     message_match s = Some (take r s, take k (drop (r + 8) s))"
proof (induction s arbitrary: r)
  case (Cons c s)
  show ?case
  proof (cases "prefix attrs_start (c # s)")
    case True
    then show ?thesis using Cons.prems by (simp add: Let_def)
  next
    case False
    then obtain r' where r': "str_find attrs_start s = Some r'" "r = Suc r'" using Cons.prems by auto
    have "drop (Suc r' + 8) (c # s) = drop (r' + 8) s" by (simp only: add_Suc drop_Suc_Cons)
    then show ?thesis using Cons False r' by (auto simp: Let_def)
  qed
qed (simp add: attrs_start_def)

lemma attrs_scan_take: "r < n \<Longrightarrow> attrs_scan q (take n s) = Some r \<longleftrightarrow> attrs_scan q s = Some r"
proof (induction q s arbitrary: r n rule: attrs_scan.induct)
  case (2 q c s)
  then obtain n' where n: "n = Suc n'" by (cases n) auto
  have "map_option Suc (attrs_scan q' (take n' s)) = Some r \<longleftrightarrow> map_option Suc (attrs_scan q' s) = Some r"
    if "\<And>r. r < n' \<Longrightarrow> attrs_scan q' (take n' s) = Some r \<longleftrightarrow> attrs_scan q' s = Some r" for q'
    using that 2(3) n by (cases r) (auto dest: attrs_scan_Some)
  then show ?case using 2 n by auto
qed simp

text \<open>A closed record, with its message and attributes, is what the record expression reads.\<close>

definition record_text :: "string \<Rightarrow> string \<Rightarrow> string" where
  "record_text msg attrs = record_start @ msg @ attrs_start @ attrs @ ''>''"

lemma lengths [simp]: "length record_start = 7" "length attrs_start = 8"
  by (simp_all add: record_start_def attrs_start_def)

lemma record_captures_text:
  assumes "str_find attrs_start (msg @ attrs_start @ attrs @ ''>'') = Some (length msg)"
    and "attrs_scan False (attrs @ ''>'') = Some (length attrs)"
  shows "record_captures (record_text msg attrs) = Some (msg, attrs)"
proof -
  have "message_match (msg @ attrs_start @ attrs @ ''>'') = Some (msg, attrs)"
    using message_match_first [OF assms(1), of "length attrs"] assms(2) by simp
  then show ?thesis by (simp add: record_text_def record_start_def)
qed

lemma complete_record:
  assumes b: "record_boundary env content start = Complete e" and p: "prefix record_start (drop start content)"
  shows "\<exists>msg attrs. slice content start e = record_text msg attrs
    \<and> record_captures (slice content start e) = Some (msg, attrs)"
proof -
  let ?limit = "start + bounded_prefix (drop start content) max_record_bytes"
  obtain u where u: "drop start content = record_start @ u" using p by (auto simp: prefix_def)
  let ?n = "bounded_prefix (drop start content) max_record_bytes - 7"
  have cut: "drop (start + 7 + j) (take ?limit content) = take (?n - j) (drop j u)" for j
  proof -
    have "drop (start + 7 + j) content = drop j (drop 7 (drop start content))" by (simp add: ac_simps)
    then have "drop (start + 7 + j) content = drop j u" unfolding u by simp
    then show ?thesis by (simp add: drop_take diff_diff_eq)
  qed
  obtain r where r: "str_find attrs_start (take ?n u) = Some r"
      and c: "closed_boundary env (take ?limit content) ?limit (start + 7 + r + 8) = Some (Complete e)"
    using b cut [of 0] by (auto simp: record_boundary_def Let_def split: if_splits option.splits)
  obtain k where k: "attrs_scan False (drop (start + 7 + r + 8) (take ?limit content)) = Some k"
      and e: "e = start + 7 + r + 8 + k + 1"
    using c by (auto simp: closed_boundary_def attributes_end_def Let_def split: option.splits if_splits)
  let ?v = "drop (r + 8) u"
  have "r + 8 \<le> length (take ?n u)" using str_find_Some [OF r] by simp
  then have ru: "str_find attrs_start u = Some r" and rl: "r \<le> length u"
    using r str_find_take [of r attrs_start ?n u] by simp_all
  have kv: "attrs_scan False (take (?n - (r + 8)) ?v) = Some k"
    using k cut [of "r + 8"] by (simp add: add.assoc)
  have "k < length (take (?n - (r + 8)) ?v)" using attrs_scan_Some [OF kv] by simp
  then have kv: "attrs_scan False ?v = Some k"
    using kv attrs_scan_take [of k "?n - (r + 8)" False ?v] by simp
  note kk = attrs_scan_Some [OF kv]
  have cutu: "u = take r u @ attrs_start @ ?v" using str_find_split [OF ru] by simp
  have len: "e - start = 7 + (r + (8 + (k + 1)))" using e by simp
  have "slice content start e = record_start @ take r u @ attrs_start @ take (k + 1) ?v"
    unfolding slice_def u len by (subst cutu) (use rl in simp)
  also have "take (k + 1) ?v = take k ?v @ ''>''" using kk by (simp add: take_Suc_conv_app_nth)
  finally have whole: "slice content start e = record_text (take r u) (take k ?v)" by (simp add: record_text_def)
  have t: "take (r + 8 + (k + 1)) u = take r u @ attrs_start @ take k ?v @ ''>''"
    by (subst cutu) (use rl kk in \<open>simp add: take_Suc_conv_app_nth\<close>)
  have "record_captures (slice content start e) = Some (take r u, take k ?v)"
    unfolding whole
  proof (rule record_captures_text)
    show "str_find attrs_start (take r u @ attrs_start @ take k ?v @ ''>'') = Some (length (take r u))"
      using str_find_take [of r attrs_start "r + 8 + (k + 1)" u] ru rl t by simp
    have "attrs_scan False (take (k + 1) ?v) = Some k" using attrs_scan_take [of k "k + 1"] kv by simp
    then show "attrs_scan False (take k ?v @ ''>'') = Some (length (take k ?v))"
      using kk by (simp add: take_Suc_conv_app_nth)
  qed
  then show ?thesis using whole by blast
qed

text \<open>A framing tiles the content from an offset, and keeps what it frames.\<close>

fun frame_offset :: "frame \<Rightarrow> nat" where
  "frame_offset (Loose off s) = off"
| "frame_offset (Framed off s) = off"

fun tiles :: "nat \<Rightarrow> frame list \<Rightarrow> bool" where
  "tiles off [] \<longleftrightarrow> True"
| "tiles off (f # fs) \<longleftrightarrow> frame_offset f = off \<and> tiles (off + length (frame_text f)) fs"

fun frame_kept :: "'n ime_env \<Rightarrow> nat list \<Rightarrow> frame \<Rightarrow> bool" where
  "frame_kept env starts (Loose off s) \<longleftrightarrow>
     concat (List.map (\<lambda>r. il_message (ir_line r)) (loose_rows starts off s)) =
       concat (List.map (trim_end_any line_end) (split_inclusive s))
     \<and> list_all (\<lambda>r. is_fragment r \<and> il_message (ir_line r) \<noteq> []
                  \<and> length (il_message (ir_line r)) \<le> max_record_bytes) (loose_rows starts off s)"
| "frame_kept env starts (Framed off s) \<longleftrightarrow>
     (\<exists>msg attrs. s = record_text msg attrs
        \<and> frame_rows env starts (Framed off s) = [parse_ime_record env (msg, attrs) off starts])"

lemma parse_ime_record_simps [simp]:
  "il_message (ir_line (parse_ime_record env caps off starts)) = fst caps"
  "il_line (ir_line (parse_ime_record env caps off starts)) = line_number_for_offset starts off"
  "is_fragment (parse_ime_record env caps off starts) = False"
  by (simp_all add: parse_ime_record_def Let_def split: prod.split)

lemma lines_rows_kept:
  "list_all (\<lambda>p. valid_text (trim_end_any line_end p)) ps \<Longrightarrow>
     concat (List.map (\<lambda>r. il_message (ir_line r)) (lines_rows starts off ps)) =
       concat (List.map (trim_end_any line_end) ps)
     \<and> list_all (\<lambda>r. is_fragment r \<and> il_message (ir_line r) \<noteq> []
                  \<and> length (il_message (ir_line r)) \<le> max_record_bytes) (lines_rows starts off ps)"
proof (induction starts off ps rule: lines_rows.induct)
  case (2 starts off p ps)
  then have "valid_text (trim_end_any line_end p)" by simp
  from concat_line_pieces [OF this] line_pieces_bounds [OF this] show ?case
    using 2 by (auto simp: comp_def list_all_iff)
qed simp

lemma loose_kept: "valid_text s \<Longrightarrow> frame_kept env starts (Loose off s)"
proof -
  assume "valid_text s"
  then have "list_all (\<lambda>p. valid_text (trim_end_any line_end p)) (split_inclusive s)"
    using split_inclusive_valid trim_end_any_valid by (auto simp: list_all_iff line_end_def)
  from lines_rows_kept [OF this] show ?thesis by (simp add: loose_rows_def)
qed

lemma frames_kept:
  assumes v: "valid_text content" and c: "cut_ok content cursor" "cut_ok content search" "cursor \<le> search"
  shows "concat (List.map frame_text (frames env content cursor search)) = drop cursor content
    \<and> tiles cursor (frames env content cursor search)
    \<and> list_all (frame_kept env starts) (frames env content cursor search)"
  using v c
proof (induction rule: frames_induct [where env = env])
  case (Stop cursor search)
  then have "frames env content cursor search = [Loose cursor (drop cursor content)]"
    by (subst frames.simps) auto
  then show ?case using loose_kept valid_frame_texts(1) [OF v Stop(1)] by (simp del: frame_kept.simps)
next
  case (Done cursor search rel e)
  let ?a = "search + rel"
  have "prefix record_start (drop ?a content)" using str_find_Some [OF Done(3)] by (simp add: add.commute)
  from complete_record [OF Done(4) this] have framed: "frame_kept env starts (Framed ?a (slice content ?a e))"
    by fastforce
  have loose: "frame_kept env starts (Loose cursor (slice content cursor ?a))"
    using Done by (intro loose_kept valid_frame_texts(2) [OF v]) auto
  have "slice content cursor ?a @ slice content ?a e @ drop e content = drop cursor content"
    using slice_append [of cursor ?a e content] slice_append [of cursor e "length content" content] Done(2,5,6)
    by (simp add: slice_to_end cut_ok_def flip: append_assoc)
  moreover have "length (slice content cursor ?a) = ?a - cursor" "length (slice content ?a e) = e - ?a"
    using Done(5,6) by (auto intro!: length_slice simp: cut_ok_def)
  ultimately show ?case
    using Done framed loose by (subst (1 2 3) frames.simps) (simp del: frame_kept.simps)
next
  case (Broken cursor search rel e)
  then show ?case by (subst (1 2 3) frames.simps) simp
next
  case (Over cursor search rel e)
  have loose: "frame_kept env starts (Loose cursor (slice content cursor e))"
    using Over by (intro loose_kept valid_frame_texts(2) [OF v]) auto
  have "slice content cursor e @ drop e content = drop cursor content"
    using slice_append [of cursor e "length content" content] Over(2,5,6) by (simp add: slice_to_end cut_ok_def)
  moreover have "length (slice content cursor e) = e - cursor"
    using Over(6) by (intro length_slice) (simp add: cut_ok_def)
  ultimately show ?case
    using Over loose by (subst (1 2 3) frames.simps) (simp del: frame_kept.simps)
qed

subsection \<open>How many rows\<close>

lemma length_line_pieces: "length (line_pieces s) \<le> length s"
proof (induction s rule: line_pieces.induct)
  case (1 s)
  show ?case
  proof (cases "bounded_prefix s max_record_bytes")
    case (Suc k)
    moreover from this have "Suc k \<le> length s" using bounded_prefix_le [of s max_record_bytes] by simp
    ultimately show ?thesis using 1 by (subst line_pieces.simps) (simp add: Let_def)
  qed (simp add: line_pieces.simps)
qed

lemma length_trim_end: "length (trim_end_any cs s) \<le> length s"
  using trim_end_any_take [of s cs] by auto

lemma length_lines_rows: "length (lines_rows starts off ps) \<le> length (concat ps)"
proof (induction starts off ps rule: lines_rows.induct)
  case (2 starts off p ps)
  have "length (line_pieces (trim_end_any line_end p)) \<le> length p"
    using length_line_pieces length_trim_end order_trans by blast
  then show ?case using 2 by simp
qed simp

lemma length_loose_rows: "length (loose_rows starts off s) \<le> length s"
  using length_lines_rows [of starts off "split_inclusive s"]
  by (simp add: loose_rows_def concat_split_inclusive)

lemma length_rows_of: "list_all (frame_kept env starts) fs \<Longrightarrow>
    length (rows_of env starts fs) \<le> length (concat (List.map frame_text fs))"
proof (induction fs)
  case (Cons f fs)
  have "length (frame_rows env starts f) \<le> length (frame_text f)"
  proof (cases f)
    case (Framed off s)
    then show ?thesis using Cons.prems by (auto simp: record_text_def simp del: frame_rows.simps)
  qed (simp add: length_loose_rows)
  then show ?case using Cons by simp
qed simp

lemma length_line_rows: "length (line_rows env content) \<le> length content"
proof -
  have line: "length (fallback_line_rows env i l) \<le> length l" for env :: "'n ime_env" and i l
  proof (cases "l = []")
    case False
    then have "Suc 0 \<le> length l" by (cases l) auto
    then show ?thesis using length_loose_rows [of "[0]" 0 l]
      by (auto simp: fallback_line_rows_def Let_def split: option.split)
  qed (simp add: fallback_line_rows_def Let_def str_trim_def max_record_bytes_def)
  have "length (fallback_rows env i ls) \<le> length (concat ls)" for i ls
    by (induction env i ls rule: fallback_rows.induct) (simp_all add: add_mono line)
  moreover have "length (concat (List.map strip_newline ps)) \<le> length (concat ps)" for ps
  proof (induction ps)
    case (Cons p ps)
    have "length (strip_newline p) \<le> length p" using strip_newline_take [of p] by auto
    then show ?case using Cons by simp
  qed simp
  ultimately show ?thesis
    unfolding line_rows_def str_lines_def
    by (metis concat_split_inclusive order_trans)
qed

fun leading_fragments :: "nat list \<Rightarrow> frame list \<Rightarrow> nat" where
  "leading_fragments starts (Loose off s # Framed off' t # fs) = length (loose_rows starts off s)"
| "leading_fragments starts fs = 0"

lemma opens_iff: "opens starts k m fs \<longleftrightarrow> 1 < length fs \<and> k + leading_fragments starts fs < m"
  by (cases "(starts, k, m, fs)" rule: opens.cases) auto

end
