(* ===== verification/ImeSamples.thy ===== *)
theory ImeSamples
  imports ImeRecords
begin

text \<open>
  Concrete inputs for the IME properties. The environment counts fields instead of calendar days, keeps
  every offset chrono would accept and has UTC as its local zone.
\<close>

lemma valid_ascii: "list_all (\<lambda>c. (of_char c :: nat) < 128) s \<Longrightarrow> valid_text s"
proof (induction s)
  case (Cons c s)
  then have "valid_char [c]" by (simp add: valid_char_def utf8_width_def is_cont_def)
  from valid_text_append [OF valid_text_char [OF this]] show ?case using Cons by simp
qed simp

definition sample_env :: "int ime_env" where
  "sample_env =
     \<lparr>naive_of = (\<lambda>y m d h i s f. if 1 \<le> m \<and> m \<le> 12 \<and> 1 \<le> d \<and> d \<le> 31 \<and> h < 24 \<and> i < 60 \<and> s < 60
         then Some ((((((y * 12 + int m) * 31 + int d) * 24 + int h) * 60 + int i) * 60 + int s) * 1000 + int f)
         else None),
      utc_ms = (\<lambda>n. n),
      offset_ms = (\<lambda>secs n. if \<bar>secs\<bar> < 86400 then Some (n - secs * 1000) else None),
      offset_text = (\<lambda>secs n. if \<bar>secs\<bar> < 86400 then Some ''utc'' else None),
      utc_text = (\<lambda>_. ''utc''), local_text = (\<lambda>_. Some ''local''), local_minutes = (\<lambda>_. Some 0),
      now_offset = 0, simple_ts = (\<lambda>_. None), fallback_utc = (\<lambda>_. None)\<rparr>"

definition blank_led :: string where
  "blank_led = [CHR '' '', CHR 0x0A, CHR '' '', CHR 0x0A] @ ''<![LOG[m]LOG]!><>''"

lemma blank_led_valid: "valid_text blank_led"
  by (rule valid_ascii) (simp add: blank_led_def)

lemma bounded_prefix_short: "length s < 1048576 \<Longrightarrow> bounded_prefix s max_record_bytes = length s"
  by (simp add: bounded_prefix_def Let_def max_record_bytes_def)

lemmas frame_eval = frames.simps record_start_def attrs_start_def record_boundary_def
  closed_boundary_def attributes_end_def valid_attributes_def skip_attributes_def attr_items.simps
  str_contains_def slice_def dquote_def bounded_prefix_short

lemma blank_led_countable: "length blank_led < 2 ^ 51"
  by (simp add: blank_led_def)

lemma blank_led_frames:
  "frames sample_env blank_led 0 0 =
     [Loose 0 [CHR '' '', CHR 0x0A, CHR '' '', CHR 0x0A], Framed 4 ''<![LOG[m]LOG]!><>'', Loose 21 []]"
  by (simp add: blank_led_def frame_eval Let_def)

lemma line_pieces_short: "s \<noteq> [] \<Longrightarrow> length s < 1048576 \<Longrightarrow> line_pieces s = [s]"
  by (subst line_pieces.simps) (simp add: bounded_prefix_short Let_def)

lemmas row_eval = loose_rows_def trim_end_any_def line_end_def line_pieces_short

lemma blank_led_starts: "build_line_starts blank_led = [0, 2, 4]"
  by code_simp

lemma blank_led_leading:
  "leading_fragments (build_line_starts blank_led) (frames sample_env blank_led 0 0) = 2"
  by (simp add: blank_led_frames row_eval Let_def)

lemma blank_led_lines:
  "line_rows sample_env blank_led = [plain_record 3 ''<![LOG[m]LOG]!><>'']"
proof -
  have "str_trim '' '' = []" "str_trim ''<![LOG[m]LOG]!><>'' = ''<![LOG[m]LOG]!><>''" by code_simp+
  then show ?thesis
    by (simp add: line_rows_def str_lines_def strip_newline_def blank_led_def fallback_line_rows_def
        sample_env_def max_record_bytes_def Let_def)
qed

lemma blank_led_rows:
  "List.map (\<lambda>r. (il_line (ir_line r), il_message (ir_line r), is_fragment r)) (record_rows sample_env blank_led) =
     [(1, '' '', True), (2, '' '', True), (3, ''m'', False)]"
  by (simp add: record_rows_def blank_led_frames blank_led_starts row_eval Let_def line_number_for_offset_def
      record_start_def attrs_start_def dquote_def)

end
