(* ===== verification/ImeSpec.thy ===== *)
theory ImeSpec
  imports ImeSamples
begin

text \<open>
  The IME parsers' contracts: they return on every UTF-8 text, keep all of it, and a bounded parse is a
  prefix of the unbounded one once the scan reaches its first record.
\<close>

lemma opens_unbounded:
  assumes v: "valid_text content" and len: "length content \<le> usize_max"
  shows "opens starts 0 usize_max (content_frames env content) \<longleftrightarrow> 1 < length (content_frames env content)"
proof -
  have "leading_fragments starts (content_frames env content) < usize_max"
    if two: "1 < length (content_frames env content)"
  proof (cases "(starts, content_frames env content)" rule: leading_fragments.cases)
    case (1 starts' off s off' t fs)
    have "list_all (frame_kept env starts) (content_frames env content)"
      and all: "concat (List.map frame_text (content_frames env content)) = content"
      using frames_kept [OF v, of 0 0 env starts] by simp_all
    then have "t \<noteq> []" using 1 by (auto simp: record_text_def record_start_def simp del: frame_rows.simps)
    then have "length s < length content" using all 1 by (metis (no_types, lifting) add_less_same_cancel1
        concat.simps(2) frame_text.simps length_append length_greater_0_conv less_add_same_cancel1
        list.simps(9) prod.inject trans_less_add1 add.assoc)
    then show ?thesis using length_loose_rows [of starts off s] len 1 by simp
  qed (use two in \<open>simp_all add: usize_max_def u64_max_def\<close>)
  then show ?thesis by (auto simp: opens_iff)
qed

lemma countable_usize: "length content < countable_length \<Longrightarrow> length content \<le> usize_max"
  by (simp add: usize_max_def u64_max_def)

lemma parse_ime_records_framed:
  assumes v: "valid_text content" and len: "length content \<le> usize_max"
    and two: "1 < length (content_frames env content)"
  shows "parse_ime_records env content usize_max = Some (chunk_of (record_rows env content))"
proof -
  have "length (record_rows env content) \<le> usize_max"
    using length_rows_of [of env "build_line_starts content" "content_frames env content"]
      frames_kept [OF v, of 0 0 env] len
    by (simp add: record_rows_def)
  then show ?thesis using two by (simp add: parse_ime_records_cases [OF v] opens_unbounded [OF v len])
qed

lemma parse_ime_records_unbounded:
  assumes v: "valid_text content" and len: "length content < countable_length"
  shows "parse_ime_records env content usize_max =
    Some (chunk_of (if 1 < length (content_frames env content)
                    then record_rows env content else line_rows env content))"
proof (cases "1 < length (content_frames env content)")
  case True
  then show ?thesis using parse_ime_records_framed [OF v countable_usize [OF len]] by simp
next
  case False
  have "length (line_rows env content) \<le> usize_max"
    using length_line_rows [of env content] countable_usize [OF len] by simp
  then show ?thesis
    using False by (simp add: parse_ime_records_total [OF v len] opens_unbounded [OF v countable_usize [OF len]])
qed

text \<open>C18. \<open>parse_ime_entries\<close> returns on every UTF-8 content: the loops that cut oversized text always advance.
  The ids are the positions, and the error count is the number of entries tagged as unparsed evidence, as
  the \<open>u32\<close> counter of the code holds it (modulo \<open>2 ^ 32\<close>, so exactly for fewer entries than that).
\<close>

theorem parse_ime_entries_returns:
  assumes "valid_text content"
  shows "\<exists>es errs. parse_ime_entries env content path = Some (es, errs)
    \<and> List.map entry_id es = List.map of_nat [0..<length es]
    \<and> unat errs = length (List.filter (\<lambda>e. ie_tags e = Some [unparsed_tag]) es) mod 2 ^ 32"
proof -
  obtain rs where rs: "parse_ime_records env content usize_max = Some (chunk_of rs)"
    using parse_ime_records_returns [OF assms] by blast
  let ?e = "\<lambda>i. enrich_subsystem_source (entry_of_record path i (rs ! i))"
  have keep: "entry_id (?e i) = of_nat i" "ie_tags (?e i) = (if is_fragment (rs ! i) then Some [unparsed_tag] else None)" for i
    by (auto simp: enrich_subsystem_source_def entry_of_record_def split: option.split)
  let ?es = "List.map ?e [0..<length rs]"
  have "parse_ime_entries env content path = Some (?es, of_nat (length (List.filter is_fragment rs)))"
    using rs by (simp add: parse_ime_entries_def chunk_of_def)
  moreover have "List.map entry_id ?es = List.map of_nat [0..<length ?es]"
    by (simp add: keep comp_def)
  moreover have "length (List.filter (\<lambda>e. ie_tags e = Some [unparsed_tag]) ?es) = length (List.filter is_fragment rs)"
  proof -
    have "List.filter (\<lambda>e. ie_tags e = Some [unparsed_tag]) ?es =
        List.map ?e (List.filter (\<lambda>i. is_fragment (rs ! i)) [0..<length rs])"
      by (simp add: filter_map comp_def keep if_distrib [of "\<lambda>x. x = _"] cong: if_cong)
    moreover have "List.filter is_fragment rs =
        List.map ((!) rs) (List.filter (\<lambda>i. is_fragment (rs ! i)) [0..<length rs])"
      using filter_map [of is_fragment "(!) rs" "[0..<length rs]"] by (simp add: map_nth comp_def)
    ultimately show ?thesis by simp
  qed
  ultimately show ?thesis by (auto simp: unat_of_nat take_bit_nat_def)
qed

theorem parse_ime_entries_returns_witness:
  "\<exists>es errs. parse_ime_entries sample_env blank_led ''p'' = Some (es, errs)
    \<and> List.map entry_id es = List.map of_nat [0..<length es]
    \<and> unat errs = length (List.filter (\<lambda>e. ie_tags e = Some [unparsed_tag]) es) mod 2 ^ 32"
  by (rule parse_ime_entries_returns [OF blank_led_valid])

text \<open>C4. Nothing of the evidence is lost. The frames tile the content; a framed record has exactly one row,
  with the message between its markers, and loose text has as rows fragments of at most the record bound
  that together are its lines without their terminators. When a record or an oversized record is framed,
  the unbounded parse is the rows of the frames. When the content is one loose frame, it is the rows of the
  line grammar, line by line: a line past the record bound in pieces that together are the line, no row for
  a blank line, and one row for any other line, under the number of the line. The bound of two pebibytes
  keeps the \<open>u32\<close> counter of the pieces of one line from wrapping.
\<close>

theorem ime_evidence_kept:
  assumes "valid_text content" "length content < 2 ^ 51"
  shows "concat (List.map frame_text (frames env content 0 0)) = content
    \<and> tiles 0 (frames env content 0 0)
    \<and> list_all (frame_kept env (build_line_starts content)) (frames env content 0 0)
    \<and> (\<exists>rss. line_rows env content = concat rss
         \<and> list_all2 (line_kept env) (enumerate 0 (str_lines content)) rss)
    \<and> parse_ime_records env content usize_max =
        Some (chunk_of (if 1 < length (frames env content 0 0)
                        then rows_of env (build_line_starts content) (frames env content 0 0)
                        else line_rows env content))"
  using frames_kept [OF assms(1), of 0 0 env "build_line_starts content"]
    parse_ime_records_unbounded [OF assms(1), of env] line_rows_kept [OF assms(1), of env] assms(2)
  by (simp add: record_rows_def)

theorem ime_evidence_kept_witness:
  "parse_ime_records sample_env blank_led usize_max = Some (chunk_of (record_rows sample_env blank_led))
    \<and> List.map (\<lambda>r. (il_line (ir_line r), il_message (ir_line r), is_fragment r)) (record_rows sample_env blank_led) =
        [(1, '' '', True), (2, '' '', True), (3, ''m'', False)]"
  using ime_evidence_kept [OF blank_led_valid blank_led_countable, of sample_env]
  by (simp add: blank_led_frames blank_led_rows del: frame_rows.simps) (simp add: record_rows_def blank_led_frames)

text \<open>C22. The bounded parse is the first \<open>limit\<close> lines of the unbounded parse, and reports whether there are
  more, when the fragments before the first record do not exceed the limit. (Past two pebibytes the \<open>u32\<close>
  counter of the pieces of a single line could wrap and leave their line numbers unset.)
\<close>

theorem ime_bounded_prefix:
  assumes "valid_text content" "length content < 2 ^ 51" "limit \<le> usize_max"
    and "leading_fragments (build_line_starts content) (frames env content 0 0) \<le> limit"
  shows "\<exists>full. parse_ime_content env content = Some full
    \<and> parse_ime_content_bounded env content limit = Some (take limit full, limit < length full)"
proof -
  have countable: "length content < countable_length" using assms(2) by simp
  note small = countable_usize [OF countable]
  define rows where "rows = (if 1 < length (content_frames env content)
    then record_rows env content else line_rows env content)"
  let ?m = "min (limit + 1) usize_max"
  have un: "parse_ime_records env content usize_max = Some (chunk_of rows)"
    using parse_ime_records_unbounded [OF assms(1) countable, of env] by (simp add: rows_def)
  have len: "length rows \<le> usize_max"
    using parse_ime_records_total [OF assms(1) countable, of env usize_max] un
    by (metis chunk_of_entries length_take min.cobounded2 option.inject)
  have "opens (build_line_starts content) 0 ?m (content_frames env content) \<longleftrightarrow>
      1 < length (content_frames env content)"
    using assms(4) opens_unbounded [OF assms(1) small, of "build_line_starts content" env]
    by (auto simp: opens_iff)
  then have "parse_ime_records env content ?m = Some (chunk_of (take ?m rows))"
    by (simp add: parse_ime_records_total [OF assms(1) countable] rows_def)
  moreover have "take limit (take ?m (List.map ir_line rows)) = take limit (List.map ir_line rows)"
    using len by (cases "limit < usize_max") (simp_all add: min_def)
  moreover have "limit < length (take ?m rows) \<longleftrightarrow> limit < length rows"
    using len by (auto simp: min_def)
  ultimately have "parse_ime_content_bounded env content limit =
      Some (take limit (List.map ir_line rows), limit < length (List.map ir_line rows))"
    by (simp add: parse_ime_content_bounded_def Let_def take_map [symmetric] del: take_take length_take)
  then show ?thesis using un by (simp add: parse_ime_content_def)
qed

theorem ime_bounded_prefix_witness:
  "\<exists>full. parse_ime_content sample_env blank_led = Some full
    \<and> parse_ime_content_bounded sample_env blank_led 2 = Some (take 2 full, 2 < length full)"
  by (rule ime_bounded_prefix [OF blank_led_valid blank_led_countable])
    (simp_all add: blank_led_leading usize_max_def u64_max_def)

text \<open>C23. When the fragments before the first record exceed the limit, the scan stops before it has framed a
  record and the bounded parse returns what the line grammar makes of the text, markers and all, with the
  truncation flag of those lines.
\<close>

theorem ime_bounded_reparses:
  assumes "valid_text content" "length content < 2 ^ 51" "limit < usize_max"
    and "1 < length (frames env content 0 0)"
    and "limit < leading_fragments (build_line_starts content) (frames env content 0 0)"
  shows "parse_ime_content_bounded env content limit =
    Some (take limit (List.map ir_line (line_rows env content)), limit < length (line_rows env content))"
proof -
  let ?m = "min (limit + 1) usize_max" and ?rows = "line_rows env content"
  have countable: "length content < countable_length" using assms(2) by simp
  have m: "?m = limit + 1" using assms(3) by simp
  have "\<not> opens (build_line_starts content) 0 ?m (content_frames env content)"
    using assms(5) m by (simp add: opens_iff)
  then have "parse_ime_records env content ?m = Some (chunk_of (take (limit + 1) ?rows))"
    using m by (simp add: parse_ime_records_total [OF assms(1) countable])
  moreover have "limit < length (take (limit + 1) ?rows) \<longleftrightarrow> limit < length ?rows" by auto
  moreover have "take limit (take (limit + 1) (List.map ir_line ?rows)) = take limit (List.map ir_line ?rows)"
    by simp
  ultimately show ?thesis
    by (simp add: parse_ime_content_bounded_def Let_def take_map [symmetric] del: take_take length_take)
qed

theorem ime_bounded_reparses_witness:
  "parse_ime_content_bounded sample_env blank_led 1 = Some ([plain_line 3 ''<![LOG[m]LOG]!><>''], False)
    \<and> map_option (List.map (\<lambda>l. (il_line l, il_message l))) (parse_ime_content sample_env blank_led) =
        Some [(1, '' ''), (2, '' ''), (3, ''m'')]"
proof -
  have "List.map (\<lambda>r. (il_line (ir_line r), il_message (ir_line r))) (record_rows sample_env blank_led) =
      List.map (\<lambda>(l, s, f). (l, s)) [(1, '' '', True), (2, '' '', True), (3, ''m'', False)]"
    unfolding blank_led_rows [symmetric] by (simp add: comp_def)
  then have "map_option (List.map (\<lambda>l. (il_line l, il_message l))) (parse_ime_content sample_env blank_led) =
      Some [(1, '' ''), (2, '' ''), (3, ''m'')]"
    using parse_ime_records_unbounded [OF blank_led_valid, of sample_env] blank_led_countable
    by (simp add: parse_ime_content_def blank_led_frames comp_def)
  moreover have "parse_ime_content_bounded sample_env blank_led 1 =
      Some (take 1 (List.map ir_line (line_rows sample_env blank_led)), 1 < length (line_rows sample_env blank_led))"
    by (rule ime_bounded_reparses [OF blank_led_valid blank_led_countable])
      (simp_all only: blank_led_leading, simp_all add: blank_led_frames usize_max_def u64_max_def)
  ultimately show ?thesis by (simp add: blank_led_lines plain_record_def)
qed

end
