(* ===== verification/ImePublish.thy ===== *)
theory ImePublish
  imports ImeSamples
begin

text \<open>
  What an incremental read may publish: \<open>complete_ime_prefix_len\<close> returns on every UTF-8 text, at a
  character boundary, and never holds back a whole record bound.
\<close>

lemma opener_fits: "prefix record_start s \<Longrightarrow> valid_text s \<Longrightarrow> 7 \<le> bounded_prefix s max_record_bytes"
proof -
  assume p: "prefix record_start s" and v: "valid_text s"
  then obtain t where t: "s = record_start @ t" by (auto simp: prefix_def)
  then have "s ! 6 = CHR ''[''" "7 \<le> length s" by (simp_all add: record_start_def)
  then have "is_char_boundary s 7" using ascii_boundary [OF v, of 6] by simp
  then have "7 \<le> floor_boundary s (min (length s) max_record_bytes)"
    using \<open>7 \<le> length s\<close> by (intro floor_boundary_greatest) (simp_all add: max_record_bytes_def)
  then show ?thesis by (auto simp: bounded_prefix_def Let_def max_record_bytes_def)
qed

lemma incomplete_short:
  assumes v: "valid_text content" and p: "prefix record_start (drop start content)"
    and i: "record_boundary env content start = Incomplete"
  shows "length content - start < max_record_bytes"
proof -
  have "is_char_boundary content start"
    using record_start_nth [OF p] ascii_boundary [OF v, of start] by simp
  then have "7 \<le> bounded_prefix (drop start content) max_record_bytes"
    using opener_fits [OF p] valid_text_cut [OF v] by simp
  then show ?thesis
    using i closed_boundary_at [of env "start + bounded_prefix (drop start content) max_record_bytes" content]
    by (fastforce simp: record_boundary_def Let_def split: if_splits option.splits)
qed

lemma flush_tail_total:
  assumes v: "valid_text tail"
  shows "cut_ok tail consumed \<Longrightarrow>
    \<exists>n. flush_tail tail consumed = Some n \<and> cut_ok tail n \<and> length tail - n < max_record_bytes"
proof (induction "length tail - consumed" arbitrary: consumed rule: less_induct)
  case less
  show ?case
  proof (cases "length tail - consumed \<ge> max_record_bytes")
    case True
    let ?k = "bounded_prefix (drop consumed tail) max_record_bytes"
    have ne: "drop consumed tail \<noteq> []" using True by (auto simp: max_record_bytes_def)
    have vd: "valid_text (drop consumed tail)" using valid_text_cut [OF v] less.prems by (simp add: cut_ok_def)
    note k = bounded_prefix_cut [OF vd ne]
    have "cut_ok tail (consumed + ?k)"
      using k(2,4) less.prems boundary_add [OF v, of consumed ?k] by (auto simp: cut_ok_def)
    moreover have "length tail - (consumed + ?k) < length tail - consumed"
      using k(1) ne by (simp add: diff_less_mono2)
    ultimately show ?thesis
      using less.hyps [of "consumed + ?k"] True by (subst flush_tail.simps) simp
  next
    case False
    then show ?thesis using less.prems by (subst flush_tail.simps) simp
  qed
qed

lemma after_newline_cut:
  "valid_text tail \<Longrightarrow> cut_ok tail (case last_index (CHR 0x0A) tail of Some i \<Rightarrow> i + 1 | None \<Rightarrow> 0)"
proof (cases "last_index (CHR 0x0A) tail")
  case (Some i)
  assume "valid_text tail"
  then show ?thesis using last_index_Some [OF Some] ascii_boundary [of tail i] Some by (simp add: cut_ok_def)
qed simp

lemma publish_loop_total:
  assumes v: "valid_text content" and c: "cut_ok content cursor" "cut_ok content search" "cursor \<le> search"
  shows "\<exists>n. publish_loop env content cursor search = Some n
    \<and> cut_ok content n \<and> length content - n < max_record_bytes"
  using v c
proof (induction rule: frames_induct [where env = env])
  case (Stop cursor search)
  show ?case
  proof (cases "str_find record_start (drop search content)")
    case None
    let ?tail = "drop cursor content"
    have vt: "valid_text ?tail" by (rule valid_frame_texts(1) [OF v Stop(1)])
    obtain n where n: "flush_tail ?tail (case last_index (CHR 0x0A) ?tail of Some i \<Rightarrow> i + 1 | None \<Rightarrow> 0) = Some n"
        "cut_ok ?tail n" "length ?tail - n < max_record_bytes"
      using flush_tail_total [OF vt after_newline_cut [OF vt]] by blast
    then have "cut_ok content (cursor + n)"
      using boundary_add [OF v, of cursor n] Stop(1) by (auto simp: cut_ok_def)
    then show ?thesis using None n by (subst publish_loop.simps) (simp add: Let_def)
  next
    case (Some rel)
    then have i: "record_boundary env content (search + rel) = Incomplete" using Stop(3) by simp
    have p: "prefix record_start (drop (search + rel) content)"
      using str_find_Some [OF Some] by (simp add: add.commute)
    then have "cut_ok content (search + rel)"
      using record_start_nth [OF p] ascii_boundary [OF v, of "search + rel"] by (simp add: cut_ok_def)
    then show ?thesis using Some i incomplete_short [OF v p i] Stop(1) by (subst publish_loop.simps) simp
  qed
next
  case (Done cursor search rel e)
  then show ?case by (subst publish_loop.simps) simp
next
  case (Broken cursor search rel e)
  then show ?case by (subst publish_loop.simps) simp
next
  case (Over cursor search rel e)
  then show ?case by (subst publish_loop.simps) simp
qed

text \<open>C24. The incremental framing returns on every UTF-8 text, publishes up to a character boundary and holds
  back less than one record bound, whatever openers, quotes and broken attributes the text has.
\<close>

theorem publish_holds_back_less:
  assumes "valid_text content"
  shows "\<exists>n. complete_ime_prefix_len env content = Some n \<and> n \<le> length content
    \<and> is_char_boundary content n \<and> length content - n < max_record_bytes"
  using publish_loop_total [OF assms, of 0 0 env] by (auto simp: complete_ime_prefix_len_def cut_ok_def)

theorem publish_holds_back_less_witness:
  "\<exists>n. complete_ime_prefix_len sample_env blank_led = Some n \<and> n \<le> length blank_led
    \<and> is_char_boundary blank_led n \<and> length blank_led - n < max_record_bytes"
  by (rule publish_holds_back_less [OF blank_led_valid])

end
