(* ===== verification/ImeWritten.thy ===== *)
theory ImeWritten
  imports ImeSpec ImePublish
begin

text \<open>
  Written logs read back: attributes in any order, records one per line. A record is a message and its
  attributes as written; what the parser makes of it is stated field by field.
\<close>

subsection \<open>Attributes\<close>

definition attr_item :: "string \<times> string \<Rightarrow> string" where
  "attr_item kv = fst kv @ [CHR ''='', dquote] @ snd kv @ [dquote]"

fun written_attrs :: "(string \<times> string) list \<Rightarrow> string" where
  "written_attrs [] = []"
| "written_attrs [kv] = attr_item kv"
| "written_attrs (kv # kvs) = attr_item kv @ CHR '' '' # written_attrs kvs"

definition attr_ok :: "string \<times> string \<Rightarrow> bool" where
  "attr_ok kv \<longleftrightarrow> fst kv \<noteq> [] \<and> list_all is_key_char (fst kv) \<and> dquote \<notin> set (snd kv)"

definition read_attrs :: "(string \<times> string) list \<Rightarrow> ime_attrs" where
  "read_attrs kvs = fold (\<lambda>(k, v) p. match_attribute p k v) kvs no_attrs"

lemma key_char_facts:
  "is_key_char c \<Longrightarrow> c \<noteq> dquote \<and> c \<noteq> CHR ''>'' \<and> c \<noteq> CHR ''='' \<and> \<not> is_ascii_ws c \<and> (of_char c :: nat) < 128"
  by (auto simp: is_key_char_def dquote_def is_ascii_ws_def Let_def)

lemma key_split:
  assumes "list_all is_key_char k"
  shows "takeWhile is_key_char (k @ CHR ''='' # s) = k" "dropWhile is_key_char (k @ CHR ''='' # s) = CHR ''='' # s"
proof -
  have "\<not> is_key_char (CHR ''='')" by (simp add: is_key_char_def)
  then show "takeWhile is_key_char (k @ CHR ''='' # s) = k"
    "dropWhile is_key_char (k @ CHR ''='' # s) = CHR ''='' # s"
    using assms by (induction k) auto
qed

lemma value_split:
  assumes "dquote \<notin> set v"
  shows "takeWhile (\<lambda>c. c \<noteq> dquote) (v @ dquote # s) = v"
    "dropWhile (\<lambda>c. c \<noteq> dquote) (v @ dquote # s) = dquote # s"
  using assms by (induction v) auto

lemma attrs_loop_item:
  assumes "attr_ok kv"
  shows "attrs_loop p (attr_item kv @ s) = attrs_loop (match_attribute p (fst kv) (snd kv)) s"
proof -
  obtain c k where k: "fst kv = c # k" using assms by (cases "fst kv") (auto simp: attr_ok_def)
  then have "\<not> is_ascii_ws c" using assms key_char_facts by (simp add: attr_ok_def)
  then have ws: "dropWhile is_ascii_ws (attr_item kv @ s) = attr_item kv @ s" by (simp add: attr_item_def k)
  have item: "attr_item kv @ s = fst kv @ CHR ''='' # dquote # snd kv @ dquote # s" by (simp add: attr_item_def)
  have keys: "list_all is_key_char (fst kv)" "fst kv \<noteq> []" "dquote \<notin> set (snd kv)"
    using assms by (simp_all add: attr_ok_def)
  show ?thesis
    by (subst attrs_loop.simps, unfold ws, unfold item)
      (simp add: Let_def key_split [OF keys(1)] value_split [OF keys(3)] keys(2))
qed

lemma attrs_loop_space: "attrs_loop p (CHR '' '' # s) = attrs_loop p s"
proof (cases "s = []")
  case False
  have "is_ascii_ws (CHR '' '')" by (simp add: is_ascii_ws_def)
  then show ?thesis
    using False by (subst (1 2) attrs_loop.simps) simp
qed (simp add: attrs_loop.simps is_ascii_ws_def)

lemma attrs_loop_written:
  "list_all attr_ok kvs \<Longrightarrow>
     attrs_loop p (written_attrs kvs) = fold (\<lambda>(k, v) p. match_attribute p k v) kvs p"
proof (induction kvs arbitrary: p rule: written_attrs.induct)
  case (2 kv)
  then show ?case using attrs_loop_item [of kv p "[]"] by (simp add: attrs_loop.simps [of _ "[]"] case_prod_beta)
next
  case (3 kv kv' kvs)
  then show ?case by (simp add: attrs_loop_item attrs_loop_space case_prod_beta)
qed (simp add: attrs_loop.simps)

lemma parse_attributes_written: "list_all attr_ok kvs \<Longrightarrow> parse_attributes (written_attrs kvs) = read_attrs kvs"
  by (simp add: parse_attributes_def read_attrs_def attrs_loop_written)

lemma attr_items_item:
  "attr_ok kv \<Longrightarrow> attr_items (attr_item kv @ s) = attr_items (trim_start s)"
proof -
  assume ok: "attr_ok kv"
  have item: "attr_item kv @ s = fst kv @ CHR ''='' # dquote # snd kv @ dquote # s" by (simp add: attr_item_def)
  have keys: "list_all is_key_char (fst kv)" "fst kv \<noteq> []" "dquote \<notin> set (snd kv)"
    using ok by (simp_all add: attr_ok_def)
  show ?thesis
    by (subst attr_items.simps, unfold item)
      (simp add: Let_def key_split [OF keys(1)] value_split [OF keys(3)] keys(2))
qed

lemma ws_chars_first: "w \<in> set ws_chars \<Longrightarrow> w \<noteq> [] \<and> \<not> is_key_char (hd w)"
  by (auto simp: ws_chars_def is_key_char_def)

lemma ws_len_key: "s \<noteq> [] \<Longrightarrow> is_key_char (hd s) \<Longrightarrow> ws_len s = 0"
  using ws_chars_first by (fastforce simp: ws_len_eq_0 prefix_def)

lemma trim_start_key: "s \<noteq> [] \<Longrightarrow> is_key_char (hd s) \<Longrightarrow> trim_start s = s"
  by (simp add: ws_len_key)

lemma trim_start_space: "trim_start (CHR '' '' # s) = trim_start s"
proof -
  have "ws_len (CHR '' '' # s) = 1" by (simp add: ws_len_def ws_chars_def)
  then show ?thesis by (subst trim_start.simps) simp
qed

lemma written_hd: "list_all attr_ok kvs \<Longrightarrow> kvs \<noteq> [] \<Longrightarrow> written_attrs kvs \<noteq> [] \<and> is_key_char (hd (written_attrs kvs))"
  by (cases kvs rule: written_attrs.cases) (auto simp: attr_ok_def attr_item_def list_all_iff)

lemma trim_start_written: "list_all attr_ok kvs \<Longrightarrow> trim_start (written_attrs kvs) = written_attrs kvs"
  using written_hd trim_start_key by (cases "kvs = []") (auto simp: trim_start.simps)

lemma attr_items_written: "list_all attr_ok kvs \<Longrightarrow> attr_items (written_attrs kvs) = []"
proof (induction kvs rule: written_attrs.induct)
  case (2 kv)
  then show ?case using attr_items_item [of kv "[]"] by (simp add: trim_start.simps attr_items.simps)
next
  case (3 kv kv' kvs)
  have "trim_start (written_attrs (kv' # kvs)) = written_attrs (kv' # kvs)"
    using 3 by (intro trim_start_written) simp
  then show ?case using 3 by (simp add: attr_items_item trim_start_space del: written_attrs.simps(2))
qed (simp add: attr_items.simps)

lemma attrs_scan_outside:
  "list_all (\<lambda>c. c \<noteq> dquote \<and> c \<noteq> CHR ''>'') t \<Longrightarrow>
     attrs_scan False (t @ s) = map_option ((+) (length t)) (attrs_scan False s)"
  by (cases "attrs_scan False s"; induction t) auto

lemma attrs_scan_inside:
  "dquote \<notin> set v \<Longrightarrow> attrs_scan True (v @ dquote # s) = map_option ((+) (Suc (length v))) (attrs_scan False s)"
  by (cases "attrs_scan False s"; induction v) auto

lemma attrs_scan_item:
  assumes "attr_ok kv"
  shows "attrs_scan False (attr_item kv @ s) = map_option ((+) (length (attr_item kv))) (attrs_scan False s)"
proof -
  have "list_all (\<lambda>c. c \<noteq> dquote \<and> c \<noteq> CHR ''>'') (fst kv @ ''='')"
    using assms key_char_facts by (auto simp: attr_ok_def list_all_iff dquote_def)
  from attrs_scan_outside [OF this, of "dquote # snd kv @ dquote # s"] show ?thesis
    using assms attrs_scan_inside [of "snd kv" s]
    by (auto simp: attr_item_def attr_ok_def option.map_comp comp_def intro!: option.map_cong)
qed

lemma attrs_scan_written:
  "list_all attr_ok kvs \<Longrightarrow>
     attrs_scan False (written_attrs kvs @ s) = map_option ((+) (length (written_attrs kvs))) (attrs_scan False s)"
proof (induction kvs rule: written_attrs.induct)
  case (3 kv kv' kvs)
  have "attrs_scan False (CHR '' '' # t) = map_option Suc (attrs_scan False t)" for t
    by (simp add: dquote_def)
  then show ?case using 3 by (simp add: attrs_scan_item option.map_comp comp_def add.assoc del: written_attrs.simps(2))
next
  case 1
  show ?case by (cases "attrs_scan False s") simp_all
qed (simp add: attrs_scan_item)

subsection \<open>Records\<close>

definition written_record :: "string \<times> (string \<times> string) list \<Rightarrow> string" where
  "written_record r = record_text (fst r) (written_attrs (snd r))"

definition written_log :: "(string \<times> (string \<times> string) list) list \<Rightarrow> string" where
  "written_log rs = concat (List.map (\<lambda>r. written_record r @ line_end) rs)"

definition record_ok :: "string \<times> (string \<times> string) list \<Rightarrow> bool" where
  "record_ok r \<longleftrightarrow> list_all attr_ok (snd r) \<and> str_find attrs_start (fst r @ attrs_start) = Some (length (fst r))
     \<and> length (written_record r) < max_record_bytes"

text \<open>The bounded text after an opener, which is what \<open>record_boundary\<close> looks at.\<close>

lemma bounded_drop:
  assumes "drop start content = record_start @ u"
  shows "drop (start + 7 + j) (take (start + n) content) = take (n - 7 - j) (drop j u)"
proof -
  have "drop (start + 7 + j) content = drop j (drop 7 (drop start content))" by (simp add: ac_simps)
  then have "drop (start + 7 + j) content = drop j u" unfolding assms by simp
  then show ?thesis by (simp add: drop_take diff_diff_eq)
qed

lemma written_fits:
  assumes v: "valid_text s" and s: "s = t @ ''>'' @ rest" and len: "Suc (length t) < max_record_bytes"
  shows "Suc (length t) \<le> bounded_prefix s max_record_bytes"
proof -
  have "is_char_boundary s (Suc (length t))" using ascii_boundary [OF v, of "length t"] s by simp
  then have "Suc (length t) \<le> floor_boundary s (min (length s) max_record_bytes)"
    using s len by (intro floor_boundary_greatest) simp_all
  then show ?thesis using len by (auto simp: bounded_prefix_def Let_def)
qed

lemma closed_complete:
  "attributes_end b a = Some e \<Longrightarrow> valid_attributes (slice b a (e - 1)) \<Longrightarrow>
     closed_boundary env b l a = Some (Complete e)"
  by (simp add: closed_boundary_def Let_def)

lemma valid_attributes_written: "list_all attr_ok kvs \<Longrightarrow> valid_attributes (written_attrs kvs)"
  by (simp add: valid_attributes_def skip_attributes_def trim_start_written attr_items_written)

lemma written_boundary:
  assumes v: "valid_text content" and r: "record_ok r" and d: "drop start content = written_record r @ rest"
  shows "record_boundary env content start = Complete (start + length (written_record r))"
proof -
  obtain msg kvs where mk: "r = (msg, kvs)" by (cases r)
  let ?w = "written_attrs kvs" and ?n = "bounded_prefix (drop start content) max_record_bytes"
  define u where "u = msg @ attrs_start @ ?w @ CHR ''>'' # rest"
  have wr: "written_record r = record_start @ msg @ attrs_start @ ?w @ ''>''"
    by (simp add: written_record_def record_text_def mk)
  have du: "drop start content = record_start @ u" by (simp add: d wr u_def)
  then have p: "prefix record_start (drop start content)" by simp
  have "is_char_boundary content start" using record_start_nth [OF p] ascii_boundary [OF v, of start] by simp
  then have vd: "valid_text (drop start content)" using valid_text_cut [OF v] by simp
  have n: "16 + length msg + length ?w \<le> ?n"
    using written_fits [OF vd, of "record_start @ msg @ attrs_start @ ?w" rest] r by (simp add: d wr record_ok_def)
  have msg: "str_find attrs_start u = Some (length msg)"
    using r str_find_take [of "length msg" attrs_start "length msg + 8" u] by (simp add: u_def record_ok_def mk)
  have kvs: "list_all attr_ok kvs" using r by (simp add: record_ok_def mk)
  have scan: "attrs_scan False (?w @ CHR ''>'' # rest) = Some (length ?w)"
    by (simp add: attrs_scan_written [OF kvs] dquote_def)
  let ?b = "take (start + ?n) content" and ?a = "start + 7 + length msg + 8"
  have found: "str_find attrs_start (drop (start + 7) ?b) = Some (length msg)"
    using bounded_drop [OF du, of 0 ?n] msg n str_find_take [of "length msg" attrs_start "?n - 7" u] by simp
  have da: "drop ?a ?b = take (?n - 7 - (length msg + 8)) (?w @ CHR ''>'' # rest)"
    using bounded_drop [OF du, of "length msg + 8" ?n] by (simp add: u_def add.assoc)
  have "attrs_scan False (drop ?a ?b) = Some (length ?w)"
    unfolding da
    using scan n attrs_scan_take [of "length ?w" "?n - 7 - (length msg + 8)" False "?w @ CHR ''>'' # rest"]
    by simp
  then have ae: "attributes_end ?b ?a = Some (?a + length ?w + 1)"
    unfolding attributes_end_def by (simp only: option.map)
  have sl: "slice ?b ?a (?a + length ?w + 1 - 1) = ?w"
    using n unfolding slice_def da by simp
  have "closed_boundary env ?b (start + ?n) ?a = Some (Complete (?a + length ?w + 1))"
    by (rule closed_complete [OF ae], unfold sl, rule valid_attributes_written [OF kvs])
  then show ?thesis
    using found n by (simp add: record_boundary_def Let_def wr)
qed

definition record_view :: "ime_record \<Rightarrow> string \<times> string option \<times> nat option \<times> severity \<times> string option
    \<times> int option \<times> bool" where
  "record_view r = (il_message (ir_line r), il_component (ir_line r), il_thread (ir_line r), ir_severity r,
     ir_file r, ir_millis r, is_fragment r)"

definition written_view :: "'n ime_env \<Rightarrow> string \<times> (string \<times> string) list \<Rightarrow> string \<times> string option \<times> nat option
    \<times> severity \<times> string option \<times> int option \<times> bool" where
  "written_view env r =
     (let p = read_attrs (snd r) in
      (fst r, non_empty (at_component p), at_thread p, severity_from_type_field (at_type p) (fst r),
       non_empty (at_file p), fst (parse_timestamp_fields env (at_date p) (at_time p)), False))"

lemma written_row:
  assumes "record_ok r"
  shows "\<exists>row. frame_rows env starts (Framed off (written_record r)) = [row] \<and> record_view row = written_view env r"
proof -
  have kvs: "list_all attr_ok (snd r)" using assms by (simp add: record_ok_def)
  have "str_find attrs_start (fst r @ attrs_start @ written_attrs (snd r) @ ''>'') = Some (length (fst r))"
    using assms str_find_take [of "length (fst r)" attrs_start "length (fst r) + 8"
        "fst r @ attrs_start @ written_attrs (snd r) @ ''>''"]
    by (simp add: record_ok_def)
  moreover have "attrs_scan False (written_attrs (snd r) @ ''>'') = Some (length (written_attrs (snd r)))"
    by (simp add: attrs_scan_written [OF kvs] dquote_def)
  ultimately have "record_captures (written_record r) = Some (fst r, written_attrs (snd r))"
    unfolding written_record_def by (rule record_captures_text)
  then show ?thesis
    by (simp add: record_view_def written_view_def parse_ime_record_def parse_attributes_written [OF kvs] Let_def
        split: prod.split)
qed

lemma loose_separator: "sep \<in> {[], line_end} \<Longrightarrow> loose_rows starts off sep = []"
  by (auto simp: loose_rows_def line_end_def trim_end_any_def)

lemma find_opener: "sep \<in> {[], line_end} \<Longrightarrow> str_find record_start (sep @ written_record r @ rest) = Some (length sep)"
  by (auto simp: line_end_def written_record_def record_text_def record_start_def)

lemma written_frames:
  assumes v: "valid_text content"
  shows "sep \<in> {[], line_end} \<Longrightarrow> list_all record_ok rs \<Longrightarrow> drop c content = sep @ written_log rs \<Longrightarrow>
    List.map record_view (rows_of env starts (frames env content c c)) = List.map (written_view env) rs
    \<and> (rs \<noteq> [] \<longrightarrow> 1 < length (frames env content c c))"
proof (induction rs arbitrary: c sep)
  case Nil
  have "str_find record_start sep = None"
    using Nil(1) by (auto simp: line_end_def record_start_def)
  then show ?case using Nil loose_separator by (subst (1 2) frames.simps) (simp add: written_log_def)
next
  case (Cons r rs)
  let ?s = "c + length sep" and ?w = "written_record r"
  have d: "drop c content = sep @ ?w @ line_end @ written_log rs" using Cons.prems(3) by (simp add: written_log_def)
  then have ds: "drop ?s content = ?w @ line_end @ written_log rs" by (metis append_eq_conv_conj drop_drop add.commute)
  then have de: "drop (?s + length ?w) content = line_end @ written_log rs"
    by (metis append_eq_conv_conj drop_drop add.commute)
  have ok: "record_ok r" "list_all record_ok rs" using Cons.prems(2) by simp_all
  note b = written_boundary [OF v ok(1) ds, of env]
  have found: "str_find record_start (drop c content) = Some (length sep)"
    unfolding d by (rule find_opener [OF Cons.prems(1)])
  have "slice content c ?s = sep" "slice content ?s (?s + length ?w) = ?w" by (simp_all add: slice_def d ds)
  then have fr: "frames env content c c =
      Loose c sep # Framed ?s ?w # frames env content (?s + length ?w) (?s + length ?w)"
    using found b by (subst frames.simps) simp
  obtain row where row: "frame_rows env starts (Framed ?s ?w) = [row]" "record_view row = written_view env r"
    using written_row [OF ok(1)] by blast
  show ?case
    using Cons.IH [OF _ ok(2) de] fr row loose_separator [OF Cons.prems(1)] by (simp del: frame_rows.simps(2))
qed

text \<open>C16. A log written record by record parses back: one entry per record in order, with the message, the
  component, thread, severity, file and instant of its attributes, and no fragment.
\<close>

theorem written_log_parses:
  assumes "valid_text (written_log rs)" "list_all record_ok rs" "length (written_log rs) \<le> usize_max"
  shows "\<exists>p. parse_ime_records env (written_log rs) usize_max = Some p
    \<and> List.map record_view (ime_entries p) = List.map (written_view env) rs \<and> ime_errors p = 0"
proof -
  have rows: "List.map record_view (record_rows env (written_log rs)) = List.map (written_view env) rs"
    and two: "rs \<noteq> [] \<longrightarrow> 1 < length (content_frames env (written_log rs))"
    using written_frames [OF assms(1), of "[]" rs 0 env] assms(2) by (simp_all add: record_rows_def)
  have "rs = [] \<Longrightarrow> parse_ime_records env (written_log rs) usize_max = Some (chunk_of [])"
    using parse_ime_records_unbounded [of "[]" env]
    by (simp add: written_log_def line_rows_def str_lines_def frames.simps record_start_def valid_text_def exI [of _ "[]"])
  then obtain k where k: "parse_ime_records env (written_log rs) usize_max = Some (chunk_of k)"
      "List.map record_view k = List.map (written_view env) rs"
    using parse_ime_records_framed [OF assms(1,3), of env] rows two by (cases "rs = []") auto
  have "is_fragment r = snd (snd (snd (snd (snd (snd (record_view r))))))" for r by (simp add: record_view_def)
  then have "List.map is_fragment k = List.map (\<lambda>v. snd (snd (snd (snd (snd (snd v)))))) (List.map record_view k)"
    by simp
  also have "\<dots> = List.map (\<lambda>_. False) rs" unfolding k(2) by (simp add: written_view_def Let_def)
  finally have "\<forall>r \<in> set k. \<not> is_fragment r" by (metis (no_types, lifting) in_set_conv_nth length_map nth_map)
  then show ?thesis using k by (auto simp: chunk_of_def)
qed

definition sample_log :: "(string \<times> (string \<times> string) list) list" where
  "sample_log =
     [(''started'', [(''time'', ''08:00:00.123+060''), (''date'', ''1-2-2026''), (''component'', ''IME''),
                     (''type'', ''2''), (''thread'', ''7'')]),
      (''[Win32App] failed'', [(''file'', [])])]"

lemma attr_keys: "list_all (\<lambda>a. list_all (\<lambda>b. eq_ignore_case a b \<longleftrightarrow> a = b)
    [''component'', ''file'', ''thread'', ''type'', ''date'', ''time''])
    [''component'', ''file'', ''thread'', ''type'', ''date'', ''time'']"
  by code_simp

lemma sample_attrs:
  "read_attrs (snd (sample_log ! 0)) =
      \<lparr>at_component = Some ''IME'', at_file = None, at_thread = Some 7, at_type = Some 2,
       at_date = Some ''1-2-2026'', at_time = Some ''08:00:00.123+060''\<rparr>"
  "read_attrs (snd (sample_log ! 1)) = no_attrs\<lparr>at_file := Some []\<rparr>"
  using attr_keys
  by (simp_all add: sample_log_def read_attrs_def match_attribute_def parse_ascii_u32_def is_digit_def
      digit_val_def no_attrs_def u32_max_def)

theorem written_log_parses_witness:
  "\<exists>p. parse_ime_records sample_env (written_log sample_log) usize_max = Some p
    \<and> List.map record_view (ime_entries p) =
        [(''started'', Some ''IME'', Some 7, LogWarning, None,
          fst (parse_timestamp_fields sample_env (Some ''1-2-2026'') (Some ''08:00:00.123+060'')), False),
         (''[Win32App] failed'', None, None, LogError, None, None, False)]
    \<and> ime_errors p = 0"
proof -
  have "valid_text (written_log sample_log)"
    by (rule valid_ascii) (simp add: written_log_def sample_log_def written_record_def record_text_def
        record_start_def attrs_start_def attr_item_def dquote_def line_end_def)
  moreover have "list_all record_ok sample_log"
    by (simp add: sample_log_def record_ok_def attr_ok_def is_key_char_def dquote_def attrs_start_def
        written_record_def record_text_def record_start_def attr_item_def max_record_bytes_def)
  moreover have "length (written_log sample_log) \<le> usize_max"
    by (simp add: written_log_def sample_log_def written_record_def record_text_def
        record_start_def attrs_start_def attr_item_def line_end_def usize_max_def u64_max_def)
  moreover have "detect_severity_from_text ''[Win32App] failed'' = LogError" by code_simp
  ultimately show ?thesis
    using written_log_parses [of sample_log sample_env] sample_attrs
    by (simp add: sample_log_def written_view_def non_empty_def severity_from_type_field_def
        parse_timestamp_fields_def no_attrs_def Let_def)
qed

end
