(* ===== verification/ImeNumbers.thy ===== *)
theory ImeNumbers
  imports ImeFields
begin

text \<open>
  The strict integers of CCM attributes: which texts are numbers, and what the conversion to \<open>i32\<close> makes
  of values that do not fit.
\<close>

lemma foldl_digits_ge: "list_all is_digit s \<Longrightarrow> a \<le> foldl (\<lambda>a c. a * 10 + digit_val c) (a :: nat) s"
proof (induction s arbitrary: a)
  case (Cons c s)
  then have "a * 10 + digit_val c \<le> foldl (\<lambda>a c. a * 10 + digit_val c) (a * 10 + digit_val c) s" by simp
  then show ?case by simp
qed simp

lemma ascii_u32_loop_value:
  "a \<le> u32_max \<Longrightarrow> ascii_u32_loop a s =
     (if list_all is_digit s \<and> foldl (\<lambda>a c. a * 10 + digit_val c) a s \<le> u32_max
      then Some (foldl (\<lambda>a c. a * 10 + digit_val c) a s) else None)"
proof (induction s arbitrary: a)
  case (Cons c s)
  show ?case
  proof (cases "is_digit c \<and> a * 10 + digit_val c \<le> u32_max")
    case True
    then show ?thesis using Cons by simp
  next
    case False
    then show ?thesis using foldl_digits_ge [of s "a * 10 + digit_val c"] by auto
  qed
qed simp

lemma parse_ascii_u32_value:
  "parse_ascii_u32 s = (if s \<noteq> [] \<and> list_all is_digit s \<and> digits_val s \<le> u32_max then Some (digits_val s) else None)"
  by (simp add: parse_ascii_u32_def ascii_u32_loop_value u32_max_def digits_val_def)

lemma wrap32_above: "2147483648 \<le> n \<Longrightarrow> n \<le> 4294967295 \<Longrightarrow> wrap32 n = n - 4294967296"
proof -
  assume n: "2147483648 \<le> n" "n \<le> 4294967295"
  have "wrap32 n = wrap32 (n - 4294967296)"
    unfolding wrap32_def by (rule arg_cong [of _ _ sint]) (simp add: word_of_int_eq_iff take_bit_eq_mod)
  then show ?thesis using n by (simp add: fits32_def)
qed

lemma wrap32_u32: "n \<le> u32_max \<Longrightarrow>
    wrap32 (int n) = (if n \<le> 2147483647 then int n else int n - 4294967296)"
  using wrap32_above [of "int n"] by (auto simp: u32_max_def fits32_def)

lemma sign_not_digit: "list_all is_digit s \<Longrightarrow> s \<noteq> [] \<Longrightarrow> hd s \<noteq> CHR ''+'' \<and> hd s \<noteq> CHR ''-''"
  by (cases s) (auto simp: is_digit_def)

text \<open>A signed attribute is read through \<open>u32\<close>: up to the largest \<open>i32\<close> the value is exact for either sign,
  above it the value comes out with the opposite sign, off by the range of the type, instead of being
  refused; only the least value, which an \<open>i32\<close> could hold, is refused. Above \<open>u32\<close> nothing is read.
\<close>

theorem parse_ascii_i32_value:
  assumes "d \<noteq> []" "list_all is_digit d"
  shows "parse_ascii_i32 d =
      (if digits_val d \<le> 2147483647 then Some (int (digits_val d))
       else if digits_val d \<le> u32_max then Some (int (digits_val d) - 4294967296) else None)
    \<and> parse_ascii_i32 (CHR ''-'' # d) =
      (if digits_val d \<le> 2147483647 then Some (- int (digits_val d))
       else if digits_val d = 2147483648 then None
       else if digits_val d \<le> u32_max then Some (4294967296 - int (digits_val d)) else None)"
  using assms sign_not_digit [OF assms(2,1)] wrap32_above [of 2147483648]
  by (auto simp: parse_ascii_i32_def parse_ascii_u32_value Let_def wrap32_u32 checked_mul32_def fits32_def u32_max_def)

theorem parse_ascii_i32_value_witness:
  "parse_ascii_i32 ''2147483648'' = Some (- 2147483648) \<and> parse_ascii_i32 ''-2147483648'' = None"
  using parse_ascii_i32_value [of "''2147483648''"]
  by (simp add: is_digit_def digits_val_def digit_val_def u32_max_def)

end
