(* ===== verification/CcmRecords.thy ===== *)
theory CcmRecords
  imports ImeFrames
begin

text \<open>
  The CCM grammar of \<open>parser/ccm.rs\<close>: the record expression, the fields of a match, the content scan in
  its two modes with an optional bound, and the line-by-line fallback. The expression is deterministic
  after the end of the message and is written out as a scanner; \<open>0\<close> to \<open>9\<close> are its only digits.
\<close>

subsection \<open>The record expression\<close>

record ccm_caps =
  c_h :: string
  c_m :: string
  c_s :: string
  c_time_tail :: string
  c_mon :: string
  c_day :: string
  c_yr :: string
  c_comp :: string
  c_context :: string
  c_typ :: "string option"
  c_thr :: "string option"
  c_file :: "string option"

definition log_end :: string where "log_end = '']LOG]!>''"

definition literal :: "string \<Rightarrow> string \<Rightarrow> string option" where
  "literal p s = (if prefix p s then Some (drop (length p) s) else None)"

definition attr_open :: "string \<Rightarrow> string" where
  "attr_open key = key @ [CHR ''='', dquote]"

text \<open>A run of digits whose length is within bounds, a quoted value with its closing quote, and \<open>\s+\<close>.\<close>

definition digit_run :: "nat \<Rightarrow> nat \<Rightarrow> string \<Rightarrow> (string \<times> string) option" where
  "digit_run lo hi s =
     (let d = takeWhile is_digit s
      in if lo \<le> length d \<and> length d \<le> hi then Some (d, dropWhile is_digit s) else None)"

definition quoted_value :: "string \<Rightarrow> (string \<times> string) option" where
  "quoted_value s =
     (let t = dropWhile (\<lambda>c. c \<noteq> dquote) s
      in if t = [] then None else Some (takeWhile (\<lambda>c. c \<noteq> dquote) s, tl t))"

definition some_ws :: "string \<Rightarrow> string option" where
  "some_ws s = (if ws_len s = 0 then None else Some (trim_start s))"

definition attr_key :: "string \<Rightarrow> string \<Rightarrow> string option" where
  "attr_key key s = do { s \<leftarrow> some_ws s; literal (attr_open key) s }"

definition match_time :: "string \<Rightarrow> ((string \<times> string \<times> string \<times> string) \<times> string) option" where
  "match_time s =
     do { s \<leftarrow> literal (attr_open ''<time'') s;
          (h, s) \<leftarrow> digit_run 1 2 s;
          s \<leftarrow> literal '':'' s;
          (m, s) \<leftarrow> digit_run 1 2 s;
          s \<leftarrow> literal '':'' s;
          (sec, s) \<leftarrow> digit_run 1 2 s;
          s \<leftarrow> literal ''.'' s;
          (frac, s) \<leftarrow> digit_run 1 (length s) s;
          (tail, s) \<leftarrow> (case s of
              [] \<Rightarrow> None
            | c # r \<Rightarrow>
                if is_sign c then
                  do { (off, r) \<leftarrow> digit_run 1 (length r) r; Some (frac @ c # off, r) }
                else Some (frac, s));
          s \<leftarrow> literal [dquote] s;
          Some ((h, m, sec, tail), s) }"

definition match_date :: "string \<Rightarrow> ((string \<times> string \<times> string) \<times> string) option" where
  "match_date s =
     do { s \<leftarrow> attr_key ''date'' s;
          (mon, s) \<leftarrow> digit_run 1 2 s;
          s \<leftarrow> literal ''-'' s;
          (day, s) \<leftarrow> digit_run 1 2 s;
          s \<leftarrow> literal ''-'' s;
          (yr, s) \<leftarrow> digit_run 4 4 s;
          s \<leftarrow> literal [dquote] s;
          Some ((mon, day, yr), s) }"

definition match_quoted :: "string \<Rightarrow> string \<Rightarrow> (string \<times> string) option" where
  "match_quoted key s = do { s \<leftarrow> attr_key key s; quoted_value s }"

text \<open>An optional digit or run of digits, up to the closing quote.\<close>

definition match_digits :: "string \<Rightarrow> nat option \<Rightarrow> string \<Rightarrow> (string option \<times> string) option" where
  "match_digits key hi s =
     do { s \<leftarrow> attr_key key s;
          (d, s) \<leftarrow> digit_run 0 (case hi of Some n \<Rightarrow> n | None \<Rightarrow> length s) s;
          s \<leftarrow> literal [dquote] s;
          Some (if d = [] then None else Some d, s) }"

definition match_attrs :: "string \<Rightarrow> (ccm_caps \<times> string) option" where
  "match_attrs s =
     do { ((h, m, sec, tail), s) \<leftarrow> match_time s;
          ((mon, day, yr), s) \<leftarrow> match_date s;
          (cp, s) \<leftarrow> match_quoted ''component'' s;
          (ctx, s) \<leftarrow> match_quoted ''context'' s;
          (typ, s) \<leftarrow> match_digits ''type'' (Some 1) s;
          (thr, s) \<leftarrow> match_digits ''thread'' None s;
          (file, s) \<leftarrow> (case match_quoted ''file'' s of
              Some (f, r) \<Rightarrow> Some (Some f, r) | None \<Rightarrow> Some (None, s));
          s \<leftarrow> literal ''>'' s;
          Some (\<lparr>c_h = h, c_m = m, c_s = sec, c_time_tail = tail, c_mon = mon, c_day = day, c_yr = yr,
                 c_comp = cp, c_context = ctx, c_typ = typ, c_thr = thr, c_file = file\<rparr>, s) }"

text \<open>The shortest message from an opener, and the leftmost opener: what \<open>captures_at\<close> returns.\<close>

fun shortest_message :: "string \<Rightarrow> (string \<times> ccm_caps \<times> string) option" where
  "shortest_message [] = None"
| "shortest_message (c # s) =
     (let later = map_option (\<lambda>(m, caps, r). (c # m, caps, r)) (shortest_message s) in
      if prefix log_end (c # s) then
        (case match_attrs (drop 7 (c # s)) of
           Some (caps, r) \<Rightarrow> Some ([], caps, r)
         | None \<Rightarrow> later)
      else later)"

fun ccm_match :: "string \<Rightarrow> (nat \<times> string \<times> ccm_caps \<times> string) option" where
  "ccm_match [] = None"
| "ccm_match (c # s) =
     (let later = map_option (\<lambda>(i, rest). (Suc i, rest)) (ccm_match s) in
      if prefix record_start (c # s) then
        (case shortest_message (drop 7 (c # s)) of
           Some found \<Rightarrow> Some (0, found)
         | None \<Rightarrow> later)
      else later)"

subsection \<open>The fields of a match\<close>

datatype timestamp_state = NormalizedUtc | OffsetMissing | OffsetInvalid | TimestampMissing

record timestamp_parse =
  original_display :: "string option"
  offset_minutes :: "int option"
  utc_millis :: "int option"
  ordering_state :: timestamp_state

definition missing_timestamp :: timestamp_parse where
  "missing_timestamp =
     \<lparr>original_display = None, offset_minutes = None, utc_millis = None, ordering_state = TimestampMissing\<rparr>"

record ccm_parsed =
  p_message :: string
  p_component :: "string option"
  p_timestamp :: "int option"
  p_display :: "string option"
  p_severity :: severity
  p_thread :: nat
  p_thread_display :: "string option"
  p_file :: "string option"
  p_offset :: int
  p_context :: "string option"
  p_parse :: timestamp_parse

definition parse_i32 :: "string \<Rightarrow> int option" where
  "parse_i32 s =
     (if prefix ''-'' s then
        (let d = tl s
         in if d \<noteq> [] \<and> list_all is_digit d \<and> digits_val d \<le> 2147483648
            then Some (- int (digits_val d)) else None)
      else map_option int (parse_uint 2147483647 s))"

definition truncate_subsecond_to_millis :: "string \<Rightarrow> nat option" where
  "truncate_subsecond_to_millis v =
     (if length v = 1 then map_option (\<lambda>n. n * 100) (parse_uint u32_max v)
      else if length v = 2 then map_option (\<lambda>n. n * 10) (parse_uint u32_max v)
      else if length v < 3 \<or> \<not> is_char_boundary v 3 then None
      else parse_uint u32_max (take 3 v))"

definition split_ccm_time_tail :: "string \<Rightarrow> string \<times> string option" where
  "split_ccm_time_tail v =
     (let frac = takeWhile (\<lambda>c. \<not> is_sign c) v
      in if length frac < length v then (frac, Some (drop (length frac) v)) else (v, None))"

definition normalized_utc_millis :: "'n ime_env \<Rightarrow> 'n \<Rightarrow> int \<Rightarrow> int option" where
  "normalized_utc_millis env nv mins = do { secs \<leftarrow> checked_mul32 mins 60; offset_ms env secs nv }"

definition timestamp_of :: "string \<Rightarrow> ccm_caps \<Rightarrow> string \<Rightarrow> 'n ime_env \<Rightarrow> 'n option \<Rightarrow> string option
    \<Rightarrow> int option \<Rightarrow> timestamp_parse" where
  "timestamp_of msg caps ms_text env nv tz_text tz =
     (let utc = (if tz_text \<noteq> None
                 then do { v \<leftarrow> nv; off \<leftarrow> tz; normalized_utc_millis env v off } else None)
      in \<lparr>original_display =
            Some (c_mon caps @ ''-'' @ c_day caps @ ''-'' @ c_yr caps @ '' '' @ c_h caps @ '':'' @ c_m caps
                  @ '':'' @ c_s caps @ ''.'' @ ms_text),
          offset_minutes = (if tz_text \<noteq> None then tz else None),
          utc_millis = utc,
          ordering_state =
            (if nv = None then TimestampMissing
             else if tz_text = None then OffsetMissing
             else if utc \<noteq> None then NormalizedUtc
             else OffsetInvalid)\<rparr>)"

definition parse_captures :: "'n ime_env \<Rightarrow> string \<Rightarrow> ccm_caps \<Rightarrow> ccm_parsed option" where
  "parse_captures env msg caps =
     do { h \<leftarrow> parse_uint u32_max (c_h caps);
          m \<leftarrow> parse_uint u32_max (c_m caps);
          s \<leftarrow> parse_uint u32_max (c_s caps);
          let (ms_text, tz_text) = split_ccm_time_tail (c_time_tail caps);
          ms \<leftarrow> truncate_subsecond_to_millis ms_text;
          let tz = Option.bind tz_text parse_i32;
          mon \<leftarrow> parse_uint u32_max (c_mon caps);
          day \<leftarrow> parse_uint u32_max (c_day caps);
          yr \<leftarrow> parse_i32 (c_yr caps);
          let thr = (case Option.bind (c_thr caps) (parse_uint u32_max) of Some n \<Rightarrow> n | None \<Rightarrow> 0);
          let (ts, display) = build_timestamp env mon day yr h m s ms tz;
          Some \<lparr>p_message = msg, p_component = Some (c_comp caps), p_timestamp = ts, p_display = display,
                p_severity = severity_from_type_field (Option.bind (c_typ caps) (parse_uint u32_max)) msg,
                p_thread = thr, p_thread_display = Some (format_thread_display thr), p_file = c_file caps,
                p_offset = (case tz of Some n \<Rightarrow> n | None \<Rightarrow> 0), p_context = Some (c_context caps),
                p_parse = timestamp_of msg caps ms_text env (naive_of env yr mon day h m s ms) tz_text tz\<rparr> }"

record ccm_record =
  r_entry :: ime_entry
  r_context :: "string option"
  r_line_start :: u32
  r_line_end :: u32
  r_timestamp :: timestamp_parse

definition into_logical_record :: "ccm_parsed \<Rightarrow> nat \<Rightarrow> u32 \<Rightarrow> u32 \<Rightarrow> string \<Rightarrow> ccm_record" where
  "into_logical_record p i l_start l_end path =
     \<lparr>r_entry =
        \<lparr>entry_id = of_nat i, line_number = l_start, message = p_message p, component = p_component p,
         timestamp = p_timestamp p, entry_severity = p_severity p, source_file = p_file p, file_path = path,
         ie_display = p_display p, ie_thread = Some (p_thread p), ie_thread_display = p_thread_display p,
         ie_format = Ccm, ie_offset = Some (p_offset p), ie_tags = None\<rparr>,
      r_context = p_context p, r_line_start = l_start, r_line_end = l_end, r_timestamp = p_parse p\<rparr>"

definition plain_entry :: "nat \<Rightarrow> u32 \<Rightarrow> string \<Rightarrow> string \<Rightarrow> ime_entry" where
  "plain_entry i n path msg =
     \<lparr>entry_id = of_nat i, line_number = n, message = msg, component = None, timestamp = None,
      entry_severity = detect_severity_from_text msg, source_file = None, file_path = path,
      ie_display = None, ie_thread = None, ie_thread_display = None, ie_format = Plain,
      ie_offset = None, ie_tags = None\<rparr>"

definition logical_record_of_line :: "ime_entry \<Rightarrow> ccm_record" where
  "logical_record_of_line e =
     \<lparr>r_entry = e, r_context = None, r_line_start = line_number e, r_line_end = line_number e,
      r_timestamp = missing_timestamp\<rparr>"

subsection \<open>The content scan\<close>

datatype scan_mode = PublicProjection | SccmEvidence

record ccm_build =
  b_records :: "ccm_record list"
  b_errors :: u32
  b_ids :: nat
  b_limit :: "nat option"
  b_exceeded :: bool

definition new_build :: "nat option \<Rightarrow> ccm_build" where
  "new_build limit = \<lparr>b_records = [], b_errors = 0, b_ids = 0, b_limit = limit, b_exceeded = False\<rparr>"

definition record_limit_reached :: "ccm_build \<Rightarrow> bool \<times> ccm_build" where
  "record_limit_reached b =
     (if (case b_limit b of Some n \<Rightarrow> length (b_records b) \<ge> n | None \<Rightarrow> False)
      then (True, b\<lparr>b_exceeded := True\<rparr>) else (False, b))"

definition push_record :: "ccm_record \<Rightarrow> u32 \<Rightarrow> ccm_build \<Rightarrow> ccm_build" where
  "push_record r errors b =
     b\<lparr>b_records := b_records b @ [r], b_ids := b_ids b + 1, b_errors := b_errors b + errors\<rparr>"

fun push_plain_lines :: "nat list \<Rightarrow> string \<Rightarrow> nat \<Rightarrow> string list \<Rightarrow> ccm_build \<Rightarrow> ccm_build" where
  "push_plain_lines starts path off [] b = b"
| "push_plain_lines starts path off (piece # pieces) b =
     (let trimmed = str_trim (trim_end_any [CHR 0x0D, CHR 0x0A] piece) in
      if trimmed \<noteq> [] then
        (let (reached, b) = record_limit_reached b in
         if reached then b
         else
           push_plain_lines starts path (off + length piece) pieces
             (push_record (logical_record_of_line
                 (plain_entry (b_ids b) (line_number_for_offset starts off) path trimmed)) 1 b))
      else push_plain_lines starts path (off + length piece) pieces b)"

definition push_unmatched_plain :: "string \<Rightarrow> nat \<Rightarrow> nat list \<Rightarrow> string \<Rightarrow> ccm_build \<Rightarrow> ccm_build" where
  "push_unmatched_plain segment off starts path b =
     push_plain_lines starts path off (split_inclusive segment) b"

text \<open>The offsets of the openers inside a message, last first.\<close>

definition newest_nested_opener :: "string \<Rightarrow> nat \<Rightarrow> nat \<Rightarrow> nat option" where
  "newest_nested_opener content start message_end =
     List.find (\<lambda>k. k = 0 \<or> content ! (k - 1) \<in> {CHR 0x0A, CHR 0x0D})
       (rev (opener_indices (slice content (start + 7) message_end) (start + 7)))"

text \<open>Every scanner leaves a suffix of its text.\<close>

lemma bindE: "Option.bind m f = Some y \<Longrightarrow> (\<And>x. m = Some x \<Longrightarrow> f x = Some y \<Longrightarrow> P) \<Longrightarrow> P"
  by (auto simp: Option.bind_eq_Some_conv)

lemma suffix_app [intro]: "suffix t s \<Longrightarrow> suffix t (u @ s)"
  by (auto simp: suffix_def)

lemma literal_left: "literal p s = Some t \<Longrightarrow> s = p @ t"
  by (auto simp: literal_def prefix_def split: if_splits)

lemma digit_run_left: "digit_run lo hi s = Some (d, t) \<Longrightarrow> s = d @ t"
  by (auto simp: digit_run_def Let_def split: if_splits)

lemma quoted_value_left: "quoted_value s = Some (v, t) \<Longrightarrow> s = v @ dquote # t"
proof -
  assume q: "quoted_value s = Some (v, t)"
  let ?r = "dropWhile (\<lambda>c. c \<noteq> dquote) s"
  have ne: "?r \<noteq> []" "v = takeWhile (\<lambda>c. c \<noteq> dquote) s" "t = tl ?r"
    using q by (auto simp: quoted_value_def Let_def split: if_splits)
  then have "?r = dquote # t" using hd_dropWhile [of "\<lambda>c. c \<noteq> dquote" s] by (cases ?r) auto
  then show ?thesis using ne takeWhile_dropWhile_id [of "\<lambda>c. c \<noteq> dquote" s] by simp
qed

lemma some_ws_left: "some_ws s = Some t \<Longrightarrow> suffix t s"
  by (auto simp: some_ws_def trim_start_suffix split: if_splits)

lemma attr_key_left: "attr_key key s = Some t \<Longrightarrow> suffix t s"
  by (auto simp: attr_key_def elim!: bindE dest!: some_ws_left literal_left)
    (meson suffix_order.trans suffixI)

lemma tail_left: "(case s of [] \<Rightarrow> None
      | c # r \<Rightarrow> if is_sign c then do { (off, r) \<leftarrow> digit_run lo (length r) r; Some (frac @ c # off, r) }
               else Some (frac, s)) = Some (tail, t) \<Longrightarrow> suffix t s"
  by (cases s) (auto elim!: bindE dest!: digit_run_left split: if_splits simp: suffix_def)

lemma match_time_left: "match_time s = Some (x, t) \<Longrightarrow> suffix t s"
  unfolding match_time_def
  by (auto elim!: bindE split: prod.splits dest!: literal_left digit_run_left tail_left
      intro!: suffix_app intro: suffix_order.trans)

lemma match_date_left: "match_date s = Some (x, t) \<Longrightarrow> suffix t s"
  unfolding match_date_def
  by (auto elim!: bindE split: prod.splits dest!: literal_left digit_run_left attr_key_left
      simp: suffix_def)

lemma match_quoted_left: "match_quoted key s = Some (v, t) \<Longrightarrow> suffix t s"
  unfolding match_quoted_def
  by (auto elim!: bindE dest!: attr_key_left quoted_value_left simp: suffix_def)

lemma match_digits_left: "match_digits key hi s = Some (v, t) \<Longrightarrow> suffix t s"
  unfolding match_digits_def
  by (auto elim!: bindE split: prod.splits dest!: attr_key_left literal_left digit_run_left simp: suffix_def)

lemma match_attrs_left: "match_attrs s = Some (caps, t) \<Longrightarrow> suffix t s"
  unfolding match_attrs_def
  by (auto elim!: bindE split: prod.splits option.splits
      dest!: match_time_left match_date_left match_quoted_left match_digits_left literal_left
      simp: suffix_def)

lemma shortest_message_left:
  "shortest_message s = Some (m, caps, t) \<Longrightarrow>
     \<exists>a. s = m @ log_end @ a @ t \<and> match_attrs (a @ t) = Some (caps, t)"
proof (induction s arbitrary: m)
  case (Cons c s)
  show ?case
  proof (cases "prefix log_end (c # s) \<and> match_attrs (drop 7 (c # s)) \<noteq> None")
    case True
    then have m: "m = []" "match_attrs (drop 7 (c # s)) = Some (caps, t)"
      using Cons.prems by (auto simp: Let_def)
    obtain u where u: "c # s = log_end @ u" using True by (auto simp: prefix_def)
    then have "drop 7 (c # s) = u" by (simp add: log_end_def)
    then show ?thesis using m u match_attrs_left [of u caps t] by (auto simp: suffix_def)
  next
    case False
    then obtain m' where "shortest_message s = Some (m', caps, t)" "m = c # m'"
      using Cons.prems by (auto simp: Let_def split: option.splits if_splits)
    then show ?thesis using Cons.IH by auto
  qed
qed simp

lemma ccm_match_left:
  "ccm_match s = Some (i, m, caps, t) \<Longrightarrow>
     i \<le> length s \<and> (\<exists>a. drop i s = record_start @ m @ log_end @ a @ t \<and> match_attrs (a @ t) = Some (caps, t))"
proof (induction s arbitrary: i)
  case (Cons c s)
  show ?case
  proof (cases "prefix record_start (c # s) \<and> shortest_message (drop 7 (c # s)) \<noteq> None")
    case True
    then have i: "i = 0" "shortest_message (drop 7 (c # s)) = Some (m, caps, t)"
      using Cons.prems by (auto simp: Let_def)
    obtain u where u: "c # s = record_start @ u" using True by (auto simp: prefix_def)
    then have "drop 7 (c # s) = u" by (simp add: record_start_def)
    then show ?thesis using i u shortest_message_left [of u m caps t] by simp
  next
    case False
    then obtain j where "ccm_match s = Some (j, m, caps, t)" "i = Suc j"
      using Cons.prems by (auto simp: Let_def split: option.splits if_splits)
    then show ?thesis using Cons.IH by auto
  qed
qed simp

lemma ccm_match_length: "ccm_match s = Some (i, m, caps, t) \<Longrightarrow> i + 7 + length m + 7 + length t \<le> length s"
proof -
  assume f: "ccm_match s = Some (i, m, caps, t)"
  obtain a where a: "drop i s = record_start @ m @ log_end @ a @ t" using ccm_match_left [OF f] by blast
  have "length (drop i s) = 7 + length m + 7 + length a + length t"
    unfolding a by (simp add: record_start_def log_end_def)
  then show ?thesis using ccm_match_left [OF f] by simp
qed

lemma ccm_match_shrinks:
  assumes "Some (rel, msg, caps, rest) = ccm_match (drop search content)"
  shows "length content - (length content - length rest) < length content - search"
  using ccm_match_length [OF assms [symmetric]] by simp

text \<open>The loop state: the build, how far the text is consumed, and whether anything matched; \<open>Inl\<close> is the
  return from inside the loop when the bound is reached.\<close>

function ccm_loop ::
  "'n ime_env \<Rightarrow> string \<Rightarrow> string \<Rightarrow> scan_mode \<Rightarrow> nat list \<Rightarrow> nat \<Rightarrow> nat \<Rightarrow> ccm_build \<Rightarrow> bool
     \<Rightarrow> ccm_build + (ccm_build \<times> nat \<times> bool)" where
  "ccm_loop env content path mode starts cursor search b matched =
     (case ccm_match (drop search content) of
        None \<Rightarrow> Inr (b, cursor, matched)
      | Some (rel, msg, caps, rest) \<Rightarrow>
          let start = search + rel; fin = length content - length rest in
          if newest_nested_opener content start (start + 7 + length msg) \<noteq> None \<and> mode = SccmEvidence then
            ccm_loop env content path mode starts fin fin
              (push_unmatched_plain (slice content cursor fin) cursor starts path b) True
          else
            (let b = push_unmatched_plain (slice content cursor start) cursor starts path b in
             case parse_captures env msg caps of
               Some p \<Rightarrow>
                 (let (reached, b) = record_limit_reached b in
                  if reached then Inl b
                  else
                    ccm_loop env content path mode starts fin fin
                      (push_record (into_logical_record p (b_ids b) (line_number_for_offset starts start)
                          (line_number_for_offset starts (fin - 1)) path) 0 b) True)
             | None \<Rightarrow>
                 ccm_loop env content path mode starts fin fin
                   (push_unmatched_plain (slice content start fin) start starts path b) True))"
  by pat_completeness auto
termination
  by (relation "measure (\<lambda>(_, content, _, _, _, _, search, _, _). length content - search)")
    (auto simp: ccm_match_shrinks)

declare ccm_loop.simps [simp del]

subsection \<open>Single lines\<close>

definition parse_line :: "'n ime_env \<Rightarrow> string \<Rightarrow> ccm_parsed option" where
  "parse_line env line = do { (_, msg, caps, _) \<leftarrow> ccm_match line; parse_captures env msg caps }"

text \<open>The loop of \<open>parse_lines\<close> from the line with index \<open>i\<close>; the id counter is the number of entries.\<close>

fun parse_lines_loop ::
  "'n ime_env \<Rightarrow> string \<Rightarrow> nat \<Rightarrow> string list \<Rightarrow> ime_entry list \<Rightarrow> u32 \<Rightarrow> ime_entry list \<times> u32" where
  "parse_lines_loop env path i [] entries errors = (entries, errors)"
| "parse_lines_loop env path i (line # lines) entries errors =
     (if str_trim line = [] then parse_lines_loop env path (i + 1) lines entries errors
      else
        (case parse_line env line of
           Some p \<Rightarrow>
             parse_lines_loop env path (i + 1) lines
               (entries @ [r_entry (into_logical_record p (length entries) (of_nat (i + 1)) (of_nat (i + 1)) path)])
               errors
         | None \<Rightarrow>
             parse_lines_loop env path (i + 1) lines
               (entries @ [plain_entry (length entries) (of_nat (i + 1)) path line]) (errors + 1)))"

definition ccm_parse_lines :: "'n ime_env \<Rightarrow> string list \<Rightarrow> string \<Rightarrow> ime_entry list \<times> u32" where
  "ccm_parse_lines env lines path = parse_lines_loop env path 0 lines [] 0"

subsection \<open>Scans\<close>

record ccm_scan =
  sc_records :: "ccm_record list"
  sc_errors :: u32
  sc_exceeded :: bool

definition finish_build :: "ccm_build \<Rightarrow> ccm_scan" where
  "finish_build b = \<lparr>sc_records = b_records b, sc_errors = b_errors b, sc_exceeded = b_exceeded b\<rparr>"

definition scan_ccm_content ::
  "'n ime_env \<Rightarrow> string \<Rightarrow> string \<Rightarrow> scan_mode \<Rightarrow> nat option \<Rightarrow> ccm_scan" where
  "scan_ccm_content env content path mode limit =
     (let starts = build_line_starts content in
      case ccm_loop env content path mode starts 0 0 (new_build limit) False of
        Inl b \<Rightarrow> finish_build b
      | Inr (b, cursor, matched) \<Rightarrow>
          (let b = push_unmatched_plain (drop cursor content) cursor starts path b in
           if \<not> matched \<and> limit \<noteq> None then finish_build b
           else if \<not> matched then
             (let (entries, errors) = ccm_parse_lines env (str_lines content) path
              in \<lparr>sc_records = List.map logical_record_of_line entries, sc_errors = errors,
                  sc_exceeded = b_exceeded b\<rparr>)
           else finish_build b))"

definition parse_content_multiline :: "'n ime_env \<Rightarrow> string \<Rightarrow> string \<Rightarrow> ime_entry list \<times> u32" where
  "parse_content_multiline env content path =
     (let s = scan_ccm_content env content path PublicProjection None
      in (List.map r_entry (sc_records s), sc_errors s))"

definition scan_logical_records :: "'n ime_env \<Rightarrow> string \<Rightarrow> string \<Rightarrow> ccm_record list" where
  "scan_logical_records env content path =
     List.filter (\<lambda>r. ie_format (r_entry r) = Ccm)
       (sc_records (scan_ccm_content env content path SccmEvidence None))"

record bounded_scan =
  bs_records :: "ccm_record list"
  bs_complete :: bool
  bs_exceeded :: bool

definition scan_logical_records_bounded :: "'n ime_env \<Rightarrow> string \<Rightarrow> string \<Rightarrow> nat \<Rightarrow> bounded_scan" where
  "scan_logical_records_bounded env content path max_records =
     (let s = scan_ccm_content env content path SccmEvidence (Some max_records)
      in \<lparr>bs_records = List.filter (\<lambda>r. ie_format (r_entry r) = Ccm) (sc_records s),
          bs_complete = (sc_errors s = 0 \<and> \<not> sc_exceeded s), bs_exceeded = sc_exceeded s\<rparr>)"

text \<open>The IME specialization goes to the logical record parser, every other one to the content scan.\<close>

datatype parser_specialization = Ime | IntuneDeviceInventoryHarvester | IntuneDeviceInventoryAdaptor
  | IntuneDeviceInventoryRotationFailure

definition ccm_parse_content ::
  "'n ime_env \<Rightarrow> string \<Rightarrow> string \<Rightarrow> parser_specialization option \<Rightarrow> (ime_entry list \<times> u32) option" where
  "ccm_parse_content env content path specialization =
     (if specialization = Some Ime then parse_ime_entries env content path
      else Some (parse_content_multiline env content path))"

fun join_lines :: "string list \<Rightarrow> string" where
  "join_lines [] = []"
| "join_lines [l] = l"
| "join_lines (l # ls) = l @ CHR 0x0A # join_lines ls"

definition parse_lines_with_specialization ::
  "'n ime_env \<Rightarrow> string list \<Rightarrow> string \<Rightarrow> parser_specialization option \<Rightarrow> (ime_entry list \<times> u32) option" where
  "parse_lines_with_specialization env lines path specialization =
     ccm_parse_content env (join_lines lines) path specialization"

end
