(* ===== verification/CcmGrammar.thy ===== *)
theory CcmGrammar
  imports CcmRecords ImeWritten
begin

text \<open>
  The texts the CCM record expression matches, as a grammar: each scanner accepts exactly the texts of its
  part, whatever follows. So a match is a property of its own text.
\<close>

subsection \<open>White space\<close>

definition ws_text :: "string \<Rightarrow> bool" where
  "ws_text w \<longleftrightarrow> (\<exists>ws. ws \<noteq> [] \<and> set ws \<subseteq> set ws_chars \<and> w = concat ws)"

lemma ws_prefix_free: "list_all (\<lambda>w. list_all (\<lambda>v. prefix v w \<longrightarrow> v = w) ws_chars) ws_chars"
  by (simp add: ws_chars_def)

lemma ws_len_char: "w \<in> set ws_chars \<Longrightarrow> ws_len (w @ s) = length w"
proof -
  assume w: "w \<in> set ws_chars"
  have only: "v = w" if "v \<in> set ws_chars" "prefix v (w @ s)" for v
  proof -
    have "prefix v w \<or> prefix w v" using that(2) by (auto simp: prefix_append)
    then show ?thesis using ws_prefix_free w that(1) unfolding list_all_iff by blast
  qed
  show ?thesis
  proof (cases "List.find (\<lambda>v. prefix v (w @ s)) ws_chars")
    case None
    then show ?thesis using w by (auto simp: find_None_iff)
  next
    case (Some v)
    then have "v = w" using only by (auto simp: find_Some_iff)
    then show ?thesis using Some by (simp add: ws_len_def)
  qed
qed

lemma trim_start_char: "w \<in> set ws_chars \<Longrightarrow> trim_start (w @ s) = trim_start s"
  using ws_len_char [of w s] ws_chars_nonempty [of w] by (subst trim_start.simps) simp

lemma trim_start_ws: "set ws \<subseteq> set ws_chars \<Longrightarrow> trim_start (concat ws @ s) = trim_start s"
  by (induction ws) (simp_all add: trim_start_char)

lemma trim_start_cut: "\<exists>ws. set ws \<subseteq> set ws_chars \<and> s = concat ws @ trim_start s"
proof (induction s rule: trim_start.induct)
  case (1 s)
  show ?case
  proof (cases "ws_len s = 0")
    case True
    then show ?thesis by (intro exI [of _ "[]"]) simp
  next
    case False
    then obtain ws where ws: "set ws \<subseteq> set ws_chars" "drop (ws_len s) s = concat ws @ trim_start (drop (ws_len s) s)"
      using 1 by blast
    moreover have "trim_start s = trim_start (drop (ws_len s) s)" using False by (simp add: trim_start.simps [of s])
    ultimately show ?thesis
      using ws_len_take [OF False] append_take_drop_id [of "ws_len s" s]
      by (intro exI [of _ "take (ws_len s) s # ws"]) simp
  qed
qed

lemma some_ws_iff: "some_ws s = Some t \<longleftrightarrow> (\<exists>w. ws_text w \<and> s = w @ t \<and> ws_len t = 0)"
proof
  assume "some_ws s = Some t"
  then have ne: "ws_len s \<noteq> 0" and t: "t = trim_start s" by (auto simp: some_ws_def split: if_splits)
  obtain ws where ws: "set ws \<subseteq> set ws_chars" "s = concat ws @ trim_start s" using trim_start_cut by blast
  have "ws \<noteq> []"
  proof
    assume "ws = []"
    then have "ws_len s = ws_len (trim_start s)" using ws(2) by simp
    then show False using ne by simp
  qed
  then show "\<exists>w. ws_text w \<and> s = w @ t \<and> ws_len t = 0" using ws t by (auto simp: ws_text_def)
next
  assume "\<exists>w. ws_text w \<and> s = w @ t \<and> ws_len t = 0"
  then obtain ws where ws: "ws \<noteq> []" "set ws \<subseteq> set ws_chars" "s = concat ws @ t" "ws_len t = 0"
    by (auto simp: ws_text_def)
  then have "ws_len s \<noteq> 0"
    using ws_len_char [of "hd ws" "concat (tl ws) @ t"] ws_chars_nonempty [of "hd ws"] by (cases ws) auto
  then show "some_ws s = Some t" using trim_start_ws [OF ws(2), of t] ws by (simp add: some_ws_def)
qed

subsection \<open>Pieces\<close>

definition digits :: "nat \<Rightarrow> nat \<Rightarrow> string \<Rightarrow> bool" where
  "digits lo hi d \<longleftrightarrow> lo \<le> length d \<and> length d \<le> hi \<and> list_all is_digit d"

definition no_digit :: "string \<Rightarrow> bool" where
  "no_digit t \<longleftrightarrow> t = [] \<or> \<not> is_digit (hd t)"

lemma digit_run_iff: "digit_run lo hi s = Some (d, t) \<longleftrightarrow> s = d @ t \<and> digits lo hi d \<and> no_digit t"
proof
  assume "digit_run lo hi s = Some (d, t)"
  then show "s = d @ t \<and> digits lo hi d \<and> no_digit t"
    using hd_dropWhile [of is_digit s]
    by (auto simp: digit_run_def digits_def no_digit_def Let_def list_all_iff dest: set_takeWhileD split: if_splits)
next
  assume a: "s = d @ t \<and> digits lo hi d \<and> no_digit t"
  then have "takeWhile is_digit s = d \<and> dropWhile is_digit s = t"
    by (cases t) (auto simp: digits_def no_digit_def list_all_iff takeWhile_append dropWhile_append)
  then show "digit_run lo hi s = Some (d, t)" using a by (simp add: digit_run_def digits_def)
qed

lemma literal_iff: "literal p s = Some t \<longleftrightarrow> s = p @ t"
  by (auto simp: literal_def prefix_def)

lemma quoted_value_iff: "quoted_value s = Some (v, t) \<longleftrightarrow> s = v @ dquote # t \<and> dquote \<notin> set v"
proof
  assume "quoted_value s = Some (v, t)"
  then show "s = v @ dquote # t \<and> dquote \<notin> set v"
    using quoted_value_left by (auto simp: quoted_value_def Let_def split: if_splits dest: set_takeWhileD)
next
  assume "s = v @ dquote # t \<and> dquote \<notin> set v"
  then show "quoted_value s = Some (v, t)" by (simp add: quoted_value_def value_split)
qed

lemma attr_key_iff:
  assumes "key \<noteq> []" "is_key_char (hd key)"
  shows "attr_key key s = Some t \<longleftrightarrow> (\<exists>w. ws_text w \<and> s = w @ attr_open key @ t)"
proof -
  have "ws_len (attr_open key @ t) = 0"
    using assms by (intro ws_len_key) (auto simp: attr_open_def)
  then show ?thesis
    by (auto simp: attr_key_def Option.bind_eq_Some_conv some_ws_iff literal_iff)
qed

text \<open>What follows a number is never a digit.\<close>

lemma no_digit_simps [simp]:
  "no_digit (CHR '':'' # t)" "no_digit (CHR ''.'' # t)" "no_digit (CHR ''-'' # t)" "no_digit (dquote # t)"
  "is_sign c \<Longrightarrow> no_digit (c # t)" "no_digit []"
  by (auto simp: no_digit_def is_digit_def dquote_def is_sign_def)

lemma digits_self: "digits lo hi d \<Longrightarrow> digits lo (length d) d"
  by (simp add: digits_def)

lemma digits_more: "digits lo (length d) d \<Longrightarrow> length d \<le> n \<Longrightarrow> digits lo n d"
  by (simp add: digits_def)

lemma digit_run_cons: "digits lo hi d \<Longrightarrow> no_digit (c # t) \<Longrightarrow> digit_run lo hi (d @ c # t) = Some (d, c # t)"
  by (simp add: digit_run_iff)

lemma literal_append [simp]: "literal p (p @ t) = Some t" "literal [c] (c # t) = Some t"
  by (simp_all add: literal_iff)

definition tail_text :: "string \<Rightarrow> bool" where
  "tail_text tail \<longleftrightarrow> (\<exists>frac off. tail = frac @ off \<and> digits 1 (length frac) frac
     \<and> (off = [] \<or> (\<exists>c d. off = c # d \<and> is_sign c \<and> digits 1 (length d) d)))"

definition time_text :: "string \<times> string \<times> string \<times> string \<Rightarrow> string \<Rightarrow> bool" where
  "time_text x a \<longleftrightarrow> (case x of (h, m, s, tail) \<Rightarrow>
     digits 1 2 h \<and> digits 1 2 m \<and> digits 1 2 s \<and> tail_text tail
     \<and> a = attr_open ''<time'' @ h @ '':'' @ m @ '':'' @ s @ ''.'' @ tail @ [dquote])"

lemma tail_iff:
  "(case s of [] \<Rightarrow> None
      | c # r \<Rightarrow> if is_sign c then do { (off, r) \<leftarrow> digit_run 1 (length r) r; Some (frac @ c # off, r) }
               else Some (frac, s)) = Some (tail, t) \<longleftrightarrow>
   (s = t \<and> tail = frac \<and> t \<noteq> [] \<and> \<not> is_sign (hd t)
    \<or> (\<exists>c d. is_sign c \<and> s = c # d @ t \<and> tail = frac @ c # d \<and> digits 1 (length d) d \<and> no_digit t))"
  by (cases s) (auto simp: Option.bind_eq_Some_conv digit_run_iff digits_def)

lemma match_time_text: "time_text x a \<Longrightarrow> match_time (a @ t) = Some (x, t)"
proof -
  assume a: "time_text x a"
  obtain h m sec tail where x: "x = (h, m, sec, tail)" by (cases x)
  obtain frac off where f: "tail = frac @ off" "digits 1 (length frac) frac"
      "off = [] \<or> (\<exists>c d. off = c # d \<and> is_sign c \<and> digits 1 (length d) d)"
    using a by (auto simp: time_text_def x tail_text_def)
  have n: "digits 1 2 h" "digits 1 2 m" "digits 1 2 sec" using a by (auto simp: time_text_def x)
  have q: "\<not> is_sign dquote" by (simp add: is_sign_def dquote_def)
  have run: "digit_run 1 (length (frac @ z)) (frac @ z) = Some (frac, z)" if "no_digit z" for z
    using digits_more [OF f(2)] that by (simp add: digit_run_iff)
  have at: "a @ t = attr_open ''<time'' @ h @ '':'' @ m @ '':'' @ sec @ ''.'' @ frac @ off @ dquote # t"
    using a by (simp add: time_text_def x f(1))
  show ?thesis
  proof (cases off)
    case Nil
    then show ?thesis
      unfolding at match_time_def by (simp add: n [simplified] digit_run_cons run [of "dquote # t", simplified] q x f(1))
  next
    case (Cons c d)
    then have c: "is_sign c" "digits 1 (length d) d" using f(3) by auto
    have "digit_run 1 (length (d @ dquote # t)) (d @ dquote # t) = Some (d, dquote # t)"
      using digits_more [OF c(2)] by (simp add: digit_run_iff)
    then show ?thesis
      unfolding at match_time_def
      by (simp add: n [simplified] digit_run_cons run [of "c # d @ dquote # t", simplified] c Cons x f(1))
  qed
qed

lemma match_time_iff: "match_time s = Some (x, t) \<longleftrightarrow> (\<exists>a. time_text x a \<and> s = a @ t)"
proof
  assume "match_time s = Some (x, t)"
  moreover obtain h m sec tail where x: "x = (h, m, sec, tail)" by (cases x)
  ultimately obtain frac z where z: "s = attr_open ''<time'' @ h @ '':'' @ m @ '':'' @ sec @ ''.'' @ frac @ z"
      "digits 1 2 h" "digits 1 2 m" "digits 1 2 sec" "digits 1 (length (frac @ z)) frac"
      "z = dquote # t \<and> tail = frac \<or>
       (\<exists>c d. is_sign c \<and> z = c # d @ dquote # t \<and> tail = frac @ c # d \<and> digits 1 (length d) d)"
    unfolding match_time_def
    by (simp only: Option.bind_eq_Some_conv literal_iff split_paired_Ex prod.case digit_run_iff tail_iff
        option.inject prod.inject) auto
  then have "tail_text tail"
    unfolding tail_text_def using digits_self [OF z(5)] by auto
  then show "\<exists>a. time_text x a \<and> s = a @ t"
    using z(1-4,6) by (auto simp: time_text_def x)
qed (auto intro: match_time_text)

definition date_text :: "string \<times> string \<times> string \<Rightarrow> string \<Rightarrow> bool" where
  "date_text x a \<longleftrightarrow> (case x of (mon, day, yr) \<Rightarrow>
     digits 1 2 mon \<and> digits 1 2 day \<and> digits 4 4 yr
     \<and> (\<exists>w. ws_text w \<and> a = w @ attr_open ''date'' @ mon @ ''-'' @ day @ ''-'' @ yr @ [dquote]))"

definition quoted_text :: "string \<Rightarrow> string \<Rightarrow> string \<Rightarrow> bool" where
  "quoted_text key v a \<longleftrightarrow> dquote \<notin> set v \<and> (\<exists>w. ws_text w \<and> a = w @ attr_open key @ v @ [dquote])"

definition digits_text :: "string \<Rightarrow> nat option \<Rightarrow> string option \<Rightarrow> string \<Rightarrow> bool" where
  "digits_text key hi x a \<longleftrightarrow>
     (case x of None \<Rightarrow> True | Some d \<Rightarrow> digits 1 (case hi of Some n \<Rightarrow> n | None \<Rightarrow> length d) d)
     \<and> (\<exists>w. ws_text w \<and> a = w @ attr_open key @ (case x of None \<Rightarrow> [] | Some d \<Rightarrow> d) @ [dquote])"

lemma match_date_iff: "match_date s = Some (x, t) \<longleftrightarrow> (\<exists>a. date_text x a \<and> s = a @ t)"
proof
  obtain mon day yr where x: "x = (mon, day, yr)" by (cases x)
  assume "match_date s = Some (x, t)"
  then show "\<exists>a. date_text x a \<and> s = a @ t"
    unfolding match_date_def x
    by (auto simp: Option.bind_eq_Some_conv literal_iff digit_run_iff attr_key_iff is_key_char_def date_text_def)
next
  assume "\<exists>a. date_text x a \<and> s = a @ t"
  moreover obtain mon day yr where x: "x = (mon, day, yr)" by (cases x)
  ultimately obtain w where w: "ws_text w" "digits 1 2 mon" "digits 1 2 day" "digits 4 4 yr"
      "s = w @ attr_open ''date'' @ mon @ CHR ''-'' # day @ CHR ''-'' # yr @ dquote # t"
    by (auto simp: date_text_def)
  then have "attr_key ''date'' s = Some (mon @ CHR ''-'' # day @ CHR ''-'' # yr @ dquote # t)"
    by (auto simp: attr_key_iff is_key_char_def)
  then show "match_date s = Some (x, t)"
    using w(2-4) by (simp add: match_date_def x digit_run_cons)
qed

lemma match_quoted_iff:
  assumes "key \<noteq> []" "is_key_char (hd key)"
  shows "match_quoted key s = Some (v, t) \<longleftrightarrow> (\<exists>a. quoted_text key v a \<and> s = a @ t)"
  by (auto simp: match_quoted_def Option.bind_eq_Some_conv quoted_value_iff attr_key_iff [OF assms] quoted_text_def)

lemma match_digits_iff:
  assumes "key \<noteq> []" "is_key_char (hd key)"
  shows "match_digits key hi s = Some (x, t) \<longleftrightarrow> (\<exists>a. digits_text key hi x a \<and> s = a @ t)"
proof
  assume "match_digits key hi s = Some (x, t)"
  then obtain z d where z: "attr_key key s = Some z"
      "digit_run 0 (case hi of Some n \<Rightarrow> n | None \<Rightarrow> length z) z = Some (d, dquote # t)"
      "x = (if d = [] then None else Some d)"
    by (auto simp: match_digits_def Option.bind_eq_Some_conv literal_iff)
  moreover obtain w where "ws_text w" "s = w @ attr_open key @ z" using z(1) attr_key_iff [OF assms] by blast
  ultimately show "\<exists>a. digits_text key hi x a \<and> s = a @ t"
    by (cases d) (auto simp: digits_text_def digit_run_iff digits_def split: option.splits)
next
  assume "\<exists>a. digits_text key hi x a \<and> s = a @ t"
  then obtain w where w: "ws_text w" "s = w @ attr_open key @ (case x of None \<Rightarrow> [] | Some d \<Rightarrow> d) @ dquote # t"
      "case x of None \<Rightarrow> True | Some d \<Rightarrow> digits 1 (case hi of Some n \<Rightarrow> n | None \<Rightarrow> length d) d"
    by (auto simp: digits_text_def)
  then have k: "attr_key key s = Some ((case x of None \<Rightarrow> [] | Some d \<Rightarrow> d) @ dquote # t)"
    using attr_key_iff [OF assms] by blast
  have "digit_run 0 n (dquote # t) = Some ([], dquote # t)" for n by (simp add: digit_run_iff digits_def)
  moreover have "x = Some d \<Longrightarrow> d \<noteq> [] \<and> digits 0 (case hi of Some n \<Rightarrow> n | None \<Rightarrow> length (d @ dquote # t)) d" for d
    using w(3) by (auto simp: digits_def split: option.splits)
  ultimately show "match_digits key hi s = Some (x, t)"
    using k by (cases x) (auto simp: match_digits_def digit_run_cons)
qed

text \<open>The attributes of a record: in order, \<open>file\<close> may be missing.\<close>

definition attrs_text :: "ccm_caps \<Rightarrow> string \<Rightarrow> bool" where
  "attrs_text c a \<longleftrightarrow> (\<exists>a1 a2 a3 a4 a5 a6 a7.
     time_text (c_h c, c_m c, c_s c, c_time_tail c) a1 \<and> date_text (c_mon c, c_day c, c_yr c) a2
     \<and> quoted_text ''component'' (c_comp c) a3 \<and> quoted_text ''context'' (c_context c) a4
     \<and> digits_text ''type'' (Some 1) (c_typ c) a5 \<and> digits_text ''thread'' None (c_thr c) a6
     \<and> (case c_file c of None \<Rightarrow> a7 = [] | Some f \<Rightarrow> quoted_text ''file'' f a7)
     \<and> a = a1 @ a2 @ a3 @ a4 @ a5 @ a6 @ a7 @ ''>'')"

lemma key_chars [simp]:
  "is_key_char (CHR ''f'')" "is_key_char (CHR ''c'')" "is_key_char (CHR ''t'')" "is_key_char (CHR ''d'')"
  by (simp_all add: is_key_char_def)

lemma match_text:
  "time_text x1 a \<Longrightarrow> match_time (a @ t) = Some (x1, t)"
  "date_text x2 a \<Longrightarrow> match_date (a @ t) = Some (x2, t)"
  "key \<noteq> [] \<Longrightarrow> is_key_char (hd key) \<Longrightarrow> quoted_text key v a \<Longrightarrow> match_quoted key (a @ t) = Some (v, t)"
  "key \<noteq> [] \<Longrightarrow> is_key_char (hd key) \<Longrightarrow> digits_text key hi d a \<Longrightarrow> match_digits key hi (a @ t) = Some (d, t)"
  by (auto simp: match_time_iff match_date_iff match_quoted_iff match_digits_iff)

lemma no_file: "match_quoted ''file'' (CHR ''>'' # t) = None"
proof -
  have "ws_len (CHR ''>'' # t) = 0" by (simp add: ws_len_eq_0 ws_chars_def)
  then show ?thesis by (simp add: match_quoted_def attr_key_def some_ws_def)
qed

lemma match_attrs_text:
  assumes "attrs_text c a"
  shows "match_attrs (a @ t) = Some (c, t)"
proof -
  obtain a1 a2 a3 a4 a5 a6 a7 where a:
      "time_text (c_h c, c_m c, c_s c, c_time_tail c) a1" "date_text (c_mon c, c_day c, c_yr c) a2"
      "quoted_text ''component'' (c_comp c) a3" "quoted_text ''context'' (c_context c) a4"
      "digits_text ''type'' (Some 1) (c_typ c) a5" "digits_text ''thread'' None (c_thr c) a6"
      "case c_file c of None \<Rightarrow> a7 = [] | Some f \<Rightarrow> quoted_text ''file'' f a7"
      "a = a1 @ a2 @ a3 @ a4 @ a5 @ a6 @ a7 @ ''>''"
    using assms by (auto simp: attrs_text_def)
  have "(case match_quoted ''file'' (a7 @ CHR ''>'' # t) of Some (f, r) \<Rightarrow> Some (Some f, r)
      | None \<Rightarrow> Some (None, a7 @ CHR ''>'' # t)) = Some (c_file c, CHR ''>'' # t)"
    using a(7) by (cases "c_file c") (simp_all add: no_file match_text)
  then show ?thesis
    using a(1-6) by (simp add: a(8) match_attrs_def match_text)
qed

lemma match_attrs_iff: "match_attrs s = Some (c, t) \<longleftrightarrow> (\<exists>a. attrs_text c a \<and> s = a @ t)"
proof
  assume "match_attrs s = Some (c, t)"
  then obtain h m sec tail s1 mon day yr s2 cp s3 ctx s4 ty s5 thr s6 fl where
    m: "match_time s = Some ((h, m, sec, tail), s1)" "match_date s1 = Some ((mon, day, yr), s2)"
      "match_quoted ''component'' s2 = Some (cp, s3)" "match_quoted ''context'' s3 = Some (ctx, s4)"
      "match_digits ''type'' (Some 1) s4 = Some (ty, s5)" "match_digits ''thread'' None s5 = Some (thr, s6)"
    and f: "(case match_quoted ''file'' s6 of Some (f, r) \<Rightarrow> Some (Some f, r) | None \<Rightarrow> Some (None, s6)) =
        Some (fl, CHR ''>'' # t)"
    and c: "c = \<lparr>c_h = h, c_m = m, c_s = sec, c_time_tail = tail, c_mon = mon, c_day = day, c_yr = yr,
                 c_comp = cp, c_context = ctx, c_typ = ty, c_thr = thr, c_file = fl\<rparr>"
    by (auto simp: match_attrs_def literal_iff elim!: bindE split: prod.splits)
  obtain a7 where a7: "s6 = a7 @ CHR ''>'' # t" "case fl of None \<Rightarrow> a7 = [] | Some f \<Rightarrow> quoted_text ''file'' f a7"
    using f by (auto simp: match_quoted_iff split: option.splits)
  from m obtain a1 a2 a3 a4 a5 a6 where
      "time_text (h, m, sec, tail) a1" "s = a1 @ s1" "date_text (mon, day, yr) a2" "s1 = a2 @ s2"
      "quoted_text ''component'' cp a3" "s2 = a3 @ s3" "quoted_text ''context'' ctx a4" "s3 = a4 @ s4"
      "digits_text ''type'' (Some 1) ty a5" "s4 = a5 @ s5" "digits_text ''thread'' None thr a6" "s5 = a6 @ s6"
    by (auto simp: match_time_iff match_date_iff match_quoted_iff match_digits_iff)
  then have "attrs_text c (a1 @ a2 @ a3 @ a4 @ a5 @ a6 @ a7 @ ''>'')" "s = (a1 @ a2 @ a3 @ a4 @ a5 @ a6 @ a7 @ ''>'') @ t"
    using a7 unfolding attrs_text_def c by (simp_all, blast)
  then show "\<exists>a. attrs_text c a \<and> s = a @ t" by blast
qed (auto simp: match_attrs_text)

subsection \<open>Records\<close>

text \<open>The text of a record, and when an expression matches anywhere in a text.\<close>

definition ccm_text :: "string \<Rightarrow> string \<Rightarrow> string" where
  "ccm_text msg a = record_start @ msg @ log_end @ a"

lemma shortest_message_Some:
  "shortest_message s \<noteq> None \<longleftrightarrow> (\<exists>m c a t. attrs_text c a \<and> s = m @ log_end @ a @ t)"
proof
  assume "shortest_message s \<noteq> None"
  then obtain m c t where "shortest_message s = Some (m, c, t)" by auto
  from shortest_message_left [OF this] show "\<exists>m c a t. attrs_text c a \<and> s = m @ log_end @ a @ t"
    by (auto simp: match_attrs_iff)
next
  assume "\<exists>m c a t. attrs_text c a \<and> s = m @ log_end @ a @ t"
  then obtain m c a t where s: "attrs_text c a" "s = m @ log_end @ a @ t" by blast
  show "shortest_message s \<noteq> None"
    unfolding s(2)
  proof (induction m)
    case Nil
    then show ?case using match_attrs_text [OF s(1), of t] by (simp add: log_end_def)
  next
    case (Cons x m)
    then show ?case by (auto simp: Let_def split: option.split)
  qed
qed

lemma ccm_match_Some:
  "ccm_match s \<noteq> None \<longleftrightarrow> (\<exists>u m c a t. attrs_text c a \<and> s = u @ ccm_text m a @ t)"
proof
  assume "ccm_match s \<noteq> None"
  then obtain i m c t where "ccm_match s = Some (i, m, c, t)" by auto
  from ccm_match_left [OF this] obtain a where a: "drop i s = ccm_text m a @ t" "attrs_text c a"
    by (auto simp: match_attrs_iff ccm_text_def)
  then have "s = take i s @ ccm_text m a @ t" by (metis append_take_drop_id)
  then show "\<exists>u m c a t. attrs_text c a \<and> s = u @ ccm_text m a @ t" using a(2) by blast
next
  assume "\<exists>u m c a t. attrs_text c a \<and> s = u @ ccm_text m a @ t"
  then obtain u m c a t where s: "attrs_text c a" "s = u @ ccm_text m a @ t" by blast
  show "ccm_match s \<noteq> None"
    unfolding s(2)
  proof (induction u)
    case Nil
    have "shortest_message (m @ log_end @ a @ t) \<noteq> None" using shortest_message_Some s(1) by blast
    then show ?case by (auto simp: ccm_text_def record_start_def)
  next
    case (Cons x u)
    then show ?case by (auto simp: Let_def split: option.split)
  qed
qed

lemma ccm_match_mono: "ccm_match s = None \<Longrightarrow> s = u @ l @ v \<Longrightarrow> ccm_match l = None"
  by (metis ccm_match_Some append_assoc)

end
