(* ===== verification/CcmScan.thy ===== *)
theory CcmScan
  imports CcmGrammar TimelineOrder
begin

text \<open>
  The content scan against a reference: the pieces of a content, loose text and matches, and their rows. The
  scan with a bound is the rows up to the bound; what an evidence scan promotes are the unambiguous matches.
\<close>

subsection \<open>Every match parses\<close>

lemma parse_uint_digits:
  "digits 1 hi d \<Longrightarrow> 10 ^ hi \<le> Suc n \<Longrightarrow> parse_uint n d = Some (digits_val d)"
proof -
  assume d: "digits 1 hi d" and n: "10 ^ hi \<le> Suc n"
  then obtain c r where cr: "d = c # r" "is_digit c" by (cases d) (auto simp: digits_def)
  then have "c \<noteq> CHR ''+''" by (auto simp: is_digit_def)
  moreover have "digits_val d < 10 ^ length d" using d by (intro digits_val_bound) (simp add: digits_def)
  moreover have "(10::nat) ^ length d \<le> 10 ^ hi" using d by (intro power_increasing) (simp_all add: digits_def)
  ultimately show ?thesis using cr d n by (simp add: parse_uint_def digits_def)
qed

lemma parse_uint_short: "digits 1 2 d \<Longrightarrow> parse_uint u32_max d = Some (digits_val d)"
  by (rule parse_uint_digits [of 2]) (simp_all add: u32_max_def)

lemma parse_i32_year: "digits 4 4 d \<Longrightarrow> parse_i32 d = Some (int (digits_val d))"
proof -
  assume d: "digits 4 4 d"
  then have "digits 1 4 d" by (simp add: digits_def)
  moreover from this have "\<not> prefix ''-'' d" by (cases d) (auto simp: digits_def is_digit_def)
  ultimately show ?thesis using parse_uint_digits [of 4 d 2147483647] by (simp add: parse_i32_def)
qed

lemma digit_no_sign: "is_digit c \<Longrightarrow> \<not> is_sign c"
  by (auto simp: is_digit_def is_sign_def)

lemma split_tail: "digits 1 (length frac) frac \<Longrightarrow>
    off = [] \<or> (\<exists>c d. off = c # d \<and> is_sign c \<and> digits 1 (length d) d) \<Longrightarrow>
    split_ccm_time_tail (frac @ off) = (frac, if off = [] then None else Some off)"
proof -
  assume f: "digits 1 (length frac) frac" and o: "off = [] \<or> (\<exists>c d. off = c # d \<and> is_sign c \<and> digits 1 (length d) d)"
  have "\<forall>c \<in> set frac. \<not> is_sign c" using f digit_no_sign by (simp add: digits_def list_all_iff)
  then have "takeWhile (\<lambda>c. \<not> is_sign c) (frac @ off) = frac @ takeWhile (\<lambda>c. \<not> is_sign c) off"
    by (intro takeWhile_append2) blast
  also have "takeWhile (\<lambda>c. \<not> is_sign c) off = []" using o by (elim disjE exE) simp_all
  finally have "takeWhile (\<lambda>c. \<not> is_sign c) (frac @ off) = frac" by simp
  then show ?thesis by (simp add: split_ccm_time_tail_def Let_def)
qed

lemma digit_no_cont: "is_digit c \<Longrightarrow> \<not> is_cont c"
  by (auto simp: is_digit_def is_cont_def)

lemma truncate_total: "digits 1 (length f) f \<Longrightarrow> truncate_subsecond_to_millis f \<noteq> None"
proof -
  assume f: "digits 1 (length f) f"
  consider "length f = 1 \<or> length f = 2" | "3 \<le> length f" using f by (fastforce simp: digits_def)
  then show ?thesis
  proof cases
    case 1
    then have "digits 1 2 f" using f by (auto simp: digits_def)
    then show ?thesis using 1 by (auto simp: truncate_subsecond_to_millis_def parse_uint_short)
  next
    case 2
    have "is_char_boundary f 3"
      using f 2 digit_no_cont by (cases "length f = 3") (auto simp: is_char_boundary_def digits_def list_all_length)
    moreover have "parse_uint u32_max (take 3 f) = Some (digits_val (take 3 f))"
      using f 2 by (intro parse_uint_digits [of 3]) (auto simp: digits_def list_all_iff u32_max_def dest: in_set_takeD)
    ultimately show ?thesis using 2 by (simp add: truncate_subsecond_to_millis_def)
  qed
qed

lemma parse_captures_total:
  assumes "attrs_text c a"
  shows "parse_captures env msg c \<noteq> None"
proof -
  have t: "digits 1 2 (c_h c)" "digits 1 2 (c_m c)" "digits 1 2 (c_s c)" "tail_text (c_time_tail c)"
      "digits 1 2 (c_mon c)" "digits 1 2 (c_day c)" "digits 4 4 (c_yr c)"
    using assms by (auto simp: attrs_text_def time_text_def date_text_def)
  obtain frac off where f: "c_time_tail c = frac @ off" "digits 1 (length frac) frac"
      "off = [] \<or> (\<exists>c d. off = c # d \<and> is_sign c \<and> digits 1 (length d) d)"
    using t(4) by (auto simp: tail_text_def)
  obtain ms where "truncate_subsecond_to_millis frac = Some ms" using truncate_total [OF f(2)] by blast
  then show ?thesis
    using t by (simp add: parse_captures_def f(1) split_tail [OF f(2,3)] parse_uint_short parse_i32_year
        Let_def split: prod.split)
qed

subsection \<open>Builds as numbered rows\<close>

text \<open>A row is a record up to its id, and the errors it counts.\<close>

type_synonym ccm_row = "(nat \<Rightarrow> ccm_record) \<times> nat"

definition upto :: "nat option \<Rightarrow> 'a list \<Rightarrow> 'a list" where
  "upto limit xs = (case limit of None \<Rightarrow> xs | Some n \<Rightarrow> take n xs)"

definition numbered :: "ccm_row list \<Rightarrow> ccm_record list" where
  "numbered rows = List.map (\<lambda>(i, r). fst r i) (enumerate 0 rows)"

definition build_of :: "nat option \<Rightarrow> ccm_row list \<Rightarrow> ccm_build" where
  "build_of limit rows =
     \<lparr>b_records = numbered (upto limit rows), b_errors = of_nat (sum_list (List.map snd (upto limit rows))),
      b_ids = length (upto limit rows), b_limit = limit,
      b_exceeded = (case limit of None \<Rightarrow> False | Some n \<Rightarrow> n < length rows)\<rparr>"

lemma length_numbered [simp]: "length (numbered rows) = length rows"
  by (simp add: numbered_def)

lemma numbered_append: "numbered (rows @ [r]) = numbered rows @ [fst r (length rows)]"
  by (simp add: numbered_def enumerate_append_eq)

lemma numbered_take: "numbered (take n rows) = take n (numbered rows)"
  by (cases "n \<le> length rows") (simp_all add: numbered_def take_map enumerate_eq_zip take_zip take_upt)

definition full :: "nat option \<Rightarrow> ccm_row list \<Rightarrow> bool" where
  "full limit rows \<longleftrightarrow> (case limit of None \<Rightarrow> False | Some n \<Rightarrow> n \<le> length rows)"

lemma new_build_of: "new_build limit = build_of limit []"
  by (simp add: new_build_def build_of_def upto_def numbered_def split: option.split)

lemma limit_reached_build:
  "record_limit_reached (build_of limit rows) =
     (if full limit rows then (True, build_of limit (rows @ r # ys)) else (False, build_of limit rows))"
  by (auto simp: record_limit_reached_def build_of_def full_def upto_def split: option.split)

lemma push_record_build:
  "\<not> full limit rows \<Longrightarrow> push_record (f (b_ids (build_of limit rows))) (of_nat e) (build_of limit rows) = build_of limit (rows @ [(f, e)])"
  by (auto simp: push_record_def build_of_def full_def upto_def numbered_append split: option.split)

lemma push_match_build:
  "\<not> full limit rows \<Longrightarrow> push_record (f (b_ids (build_of limit rows))) 0 (build_of limit rows) = build_of limit (rows @ [(f, 0)])"
  using push_record_build [of limit rows f 0] by simp

subsection \<open>Loose lines\<close>

fun plain_rows :: "nat list \<Rightarrow> string \<Rightarrow> nat \<Rightarrow> string list \<Rightarrow> ccm_row list" where
  "plain_rows starts path off [] = []"
| "plain_rows starts path off (piece # pieces) =
     (let trimmed = str_trim (trim_end_any line_end piece) in
      if trimmed \<noteq> []
      then [(\<lambda>i. logical_record_of_line (plain_entry i (line_number_for_offset starts off) path trimmed), 1)]
      else [])
     @ plain_rows starts path (off + length piece) pieces"

definition text_rows :: "nat list \<Rightarrow> string \<Rightarrow> nat \<Rightarrow> string \<Rightarrow> ccm_row list" where
  "text_rows starts path off s = plain_rows starts path off (split_inclusive s)"

lemma push_plain_lines_build:
  "push_plain_lines starts path off ps (build_of limit rows) = build_of limit (rows @ plain_rows starts path off ps)"
proof (induction starts path off ps arbitrary: rows rule: plain_rows.induct)
  case (2 starts path off p ps)
  let ?t = "str_trim (trim_end_any line_end p)"
  let ?f = "\<lambda>i. logical_record_of_line (plain_entry i (line_number_for_offset starts off) path ?t)"
  show ?case
  proof (cases "?t = []")
    case True
    then show ?thesis using 2 by (simp add: line_end_def [symmetric] Let_def)
  next
    case ne: False
    show ?thesis
    proof (cases "full limit rows")
      case True
      then show ?thesis
        using ne limit_reached_build [of limit rows "(?f, 1)" "plain_rows starts path (off + length p) ps"]
        by (simp add: line_end_def [symmetric] Let_def)
    next
      case False
      then show ?thesis
        using ne limit_reached_build [of limit rows] push_record_build [OF False, of ?f 1] 2
        by (simp add: line_end_def [symmetric] Let_def)
    qed
  qed
qed simp

lemma push_unmatched_build:
  "push_unmatched_plain s off starts path (build_of limit rows) = build_of limit (rows @ text_rows starts path off s)"
  by (simp add: push_unmatched_plain_def push_plain_lines_build text_rows_def)

subsection \<open>Pieces\<close>

datatype ccm_piece = Text nat string | Match nat string string ccm_caps

fun piece_text :: "ccm_piece \<Rightarrow> string" where
  "piece_text (Text off s) = s"
| "piece_text (Match off s msg c) = s"

fun piece_offset :: "ccm_piece \<Rightarrow> nat" where
  "piece_offset (Text off s) = off"
| "piece_offset (Match off s msg c) = off"

definition ambiguous :: "string \<Rightarrow> nat \<Rightarrow> string \<Rightarrow> bool" where
  "ambiguous content start msg \<longleftrightarrow> newest_nested_opener content start (start + 7 + length msg) \<noteq> None"

function ccm_pieces :: "scan_mode \<Rightarrow> string \<Rightarrow> nat \<Rightarrow> ccm_piece list" where
  "ccm_pieces mode content cursor =
     (case ccm_match (drop cursor content) of
        None \<Rightarrow> [Text cursor (drop cursor content)]
      | Some (rel, msg, caps, rest) \<Rightarrow>
          let start = cursor + rel; fin = length content - length rest in
          if ambiguous content start msg \<and> mode = SccmEvidence
          then Text cursor (slice content cursor fin) # ccm_pieces mode content fin
          else Text cursor (slice content cursor start) # Match start (slice content start fin) msg caps
            # ccm_pieces mode content fin)"
  by pat_completeness auto
termination
  by (relation "measure (\<lambda>(_, content, cursor). length content - cursor)") (auto simp: ccm_match_shrinks)

declare ccm_pieces.simps [simp del]

text \<open>The row of a match, with its lines.\<close>

definition match_row :: "'n ime_env \<Rightarrow> nat list \<Rightarrow> string \<Rightarrow> nat \<Rightarrow> string \<Rightarrow> string \<Rightarrow> ccm_caps \<Rightarrow> nat \<Rightarrow> ccm_record" where
  "match_row env starts path off s msg c i =
     (case parse_captures env msg c of
        Some p \<Rightarrow> into_logical_record p i (line_number_for_offset starts off)
                   (line_number_for_offset starts (off + length s - 1)) path
      | None \<Rightarrow> logical_record_of_line (plain_entry i (line_number_for_offset starts off) path []))"

fun piece_rows :: "'n ime_env \<Rightarrow> nat list \<Rightarrow> string \<Rightarrow> ccm_piece \<Rightarrow> ccm_row list" where
  "piece_rows env starts path (Text off s) = text_rows starts path off s"
| "piece_rows env starts path (Match off s msg c) = [(match_row env starts path off s msg c, 0)]"

definition ccm_rows :: "'n ime_env \<Rightarrow> nat list \<Rightarrow> string \<Rightarrow> ccm_piece list \<Rightarrow> ccm_row list" where
  "ccm_rows env starts path ps = concat (List.map (piece_rows env starts path) ps)"

lemma ccm_rows_simps [simp]:
  "ccm_rows env starts path [] = []"
  "ccm_rows env starts path (p # ps) = piece_rows env starts path p @ ccm_rows env starts path ps"
  by (simp_all add: ccm_rows_def)

lemma ccm_pieces_Cons: "\<exists>p ps. ccm_pieces mode content cursor = p # ps"
  by (subst ccm_pieces.simps) (auto simp: Let_def split: option.split prod.split)

text \<open>A match of the scan is a record text at its place.\<close>

lemma ccm_match_at:
  assumes "ccm_match (drop cursor content) = Some (rel, msg, caps, rest)"
  shows "\<exists>a. attrs_text caps a \<and> slice content (cursor + rel) (length content - length rest) = ccm_text msg a
    \<and> drop (length content - length rest) content = rest \<and> cursor + rel < length content - length rest"
proof -
  obtain a where a: "drop rel (drop cursor content) = ccm_text msg a @ rest" "attrs_text caps a"
    using ccm_match_left [OF assms] by (auto simp: match_attrs_iff ccm_text_def)
  then have d: "drop (cursor + rel) content = ccm_text msg a @ rest" by (simp add: add.commute)
  have len: "cursor + rel + length (ccm_text msg a) + length rest = length content"
    using arg_cong [OF d, of length] ccm_match_length [OF assms] by simp
  then have fin: "length content - length rest = cursor + rel + length (ccm_text msg a)" by simp
  have "drop (cursor + rel + length (ccm_text msg a)) content = drop (length (ccm_text msg a)) (drop (cursor + rel) content)"
    by (simp add: add.commute)
  then have "drop (length content - length rest) content = rest" unfolding fin d by simp
  then show ?thesis
    using a(2) d by (intro exI [of _ a]) (simp add: fin slice_def, simp add: ccm_text_def log_end_def)
qed

text \<open>The loop and the final push, as one function.\<close>

definition ccm_all ::
  "'n ime_env \<Rightarrow> string \<Rightarrow> string \<Rightarrow> scan_mode \<Rightarrow> nat list \<Rightarrow> nat \<Rightarrow> ccm_build \<Rightarrow> bool \<Rightarrow> ccm_build \<times> bool" where
  "ccm_all env content path mode starts cursor b matched =
     (case ccm_loop env content path mode starts cursor cursor b matched of
        Inl b \<Rightarrow> (b, True)
      | Inr (b, c, matched) \<Rightarrow> (push_unmatched_plain (drop c content) c starts path b, matched))"

lemma ccm_all_step:
  "ccm_loop env content path mode starts cursor cursor b matched = ccm_loop env content path mode starts c c b' True \<Longrightarrow>
   ccm_all env content path mode starts cursor b matched = ccm_all env content path mode starts c b' True"
  by (simp add: ccm_all_def)

lemma ccm_all_rows:
  "ccm_all env content path mode starts cursor (build_of limit rows) matched =
     (build_of limit (rows @ ccm_rows env starts path (ccm_pieces mode content cursor)),
      matched \<or> 1 < length (ccm_pieces mode content cursor))"
proof (induction mode content cursor arbitrary: rows matched rule: ccm_pieces.induct)
  case (1 mode content cursor)
  let ?goal = "?case"
  show ?case
  proof (cases "ccm_match (drop cursor content)")
    case None
    then show ?thesis
      by (simp add: ccm_all_def ccm_loop.simps ccm_pieces.simps push_unmatched_build)
  next
    case (Some x)
    obtain rel msg caps rest where x: "x = (rel, msg, caps, rest)" by (cases x) auto
    note found = Some [unfolded x]
    let ?start = "cursor + rel" and ?fin = "length content - length rest"
    let ?T = "text_rows starts path cursor (slice content cursor ?start)"
    obtain a where a: "attrs_text caps a" "slice content ?start ?fin = ccm_text msg a" "?start < ?fin"
      using ccm_match_at [OF found] by blast
    obtain p where p: "parse_captures env msg caps = Some p" using parse_captures_total [OF a(1)] by blast
    have last: "?start + length (slice content ?start ?fin) - 1 = ?fin - 1"
      using a(3) by (simp add: length_slice)
    obtain q qs where more: "ccm_pieces mode content ?fin = q # qs" using ccm_pieces_Cons by blast
    show ?thesis
    proof (cases "ambiguous content ?start msg \<and> mode = SccmEvidence")
      case True
      have "ccm_loop env content path mode starts cursor cursor (build_of limit rows) matched =
          ccm_loop env content path mode starts ?fin ?fin
            (build_of limit (rows @ text_rows starts path cursor (slice content cursor ?fin))) True"
        using True by (subst ccm_loop.simps) (simp add: found ambiguous_def Let_def push_unmatched_build)
      moreover have "ccm_pieces mode content cursor = Text cursor (slice content cursor ?fin) # ccm_pieces mode content ?fin"
        using True found by (subst ccm_pieces.simps) (simp add: Let_def)
      ultimately show ?thesis
        using 1(1) [OF found refl refl refl refl refl True] more by (simp add: ccm_all_def)
    next
      case unamb: False
      let ?row = "match_row env starts path ?start (slice content ?start ?fin) msg caps"
      have row: "into_logical_record p i (line_number_for_offset starts ?start)
          (line_number_for_offset starts (?fin - 1)) path = ?row i" for i
        using last by (simp only: match_row_def p option.case)
      have pieces: "ccm_pieces mode content cursor =
          Text cursor (slice content cursor ?start) # Match ?start (slice content ?start ?fin) msg caps
            # ccm_pieces mode content ?fin"
        using unamb found by (subst ccm_pieces.simps) (simp add: Let_def)
      have guard: "\<not> (newest_nested_opener content ?start (?start + 7 + length msg) \<noteq> None \<and> mode = SccmEvidence)"
        using unamb by (simp add: ambiguous_def)
      show ?thesis
      proof (cases "full limit (rows @ ?T)")
        case True
        have "ccm_loop env content path mode starts cursor cursor (build_of limit rows) matched =
            Inl (build_of limit ((rows @ ?T) @ (?row, 0) # ccm_rows env starts path (ccm_pieces mode content ?fin)))"
          using True limit_reached_build [of limit "rows @ ?T" "(?row, 0)" "ccm_rows env starts path (ccm_pieces mode content ?fin)"]
          by (subst ccm_loop.simps)
            (simp only: found option.case prod.case Let_def guard if_False push_unmatched_build p if_True simp_thms)
        then show ?thesis by (simp add: ccm_all_def pieces)
      next
        case False
        have "ccm_loop env content path mode starts cursor cursor (build_of limit rows) matched =
            ccm_loop env content path mode starts ?fin ?fin (build_of limit ((rows @ ?T) @ [(?row, 0)])) True"
          using False limit_reached_build [of limit "rows @ ?T"] push_match_build [OF False, of ?row]
          by (subst ccm_loop.simps)
            (simp only: found option.case prod.case Let_def guard if_False push_unmatched_build p row if_True simp_thms)
        from ccm_all_step [OF this] show ?thesis
          using 1(2) [OF found refl refl refl refl refl unamb] by (simp add: pieces)
      qed
    qed
  qed
qed

end
