(* ===== verification/CcmSpec.thy ===== *)
theory CcmSpec
  imports CcmScan
begin

text \<open>
  What a CCM scan promises: pieces tile the content, evidence is promoted only from unambiguous records,
  and a bounded scan that calls itself complete has lost nothing.
\<close>

subsection \<open>The scan in rows\<close>

abbreviation content_pieces :: "scan_mode \<Rightarrow> string \<Rightarrow> ccm_piece list" where
  "content_pieces mode content \<equiv> ccm_pieces mode content 0"

definition content_rows :: "'n ime_env \<Rightarrow> string \<Rightarrow> string \<Rightarrow> scan_mode \<Rightarrow> ccm_row list" where
  "content_rows env content path mode =
     ccm_rows env (build_line_starts content) path (content_pieces mode content)"

lemma scan_rows:
  "scan_ccm_content env content path mode limit =
     (if length (content_pieces mode content) \<le> 1 \<and> limit = None
      then \<lparr>sc_records = List.map logical_record_of_line (fst (ccm_parse_lines env (str_lines content) path)),
            sc_errors = snd (ccm_parse_lines env (str_lines content) path), sc_exceeded = False\<rparr>
      else finish_build (build_of limit (content_rows env content path mode)))"
proof -
  let ?starts = "build_line_starts content"
  have all: "ccm_all env content path mode ?starts 0 (new_build limit) False =
      (build_of limit (content_rows env content path mode), 1 < length (content_pieces mode content))"
    using ccm_all_rows [of env content path mode ?starts 0 limit "[]" False]
    by (simp add: new_build_of content_rows_def)
  show ?thesis
  proof (cases "ccm_loop env content path mode ?starts 0 0 (new_build limit) False")
    case (Inl b)
    then show ?thesis using all by (simp add: scan_ccm_content_def ccm_all_def)
  next
    case (Inr x)
    obtain b c m where x: "x = (b, c, m)" by (cases x)
    have "push_unmatched_plain (drop c content) c ?starts path b = build_of limit (content_rows env content path mode)"
      and "m \<longleftrightarrow> 1 < length (content_pieces mode content)"
      using all Inr by (simp_all add: ccm_all_def x)
    then show ?thesis
      using Inr by (simp add: scan_ccm_content_def x Let_def not_less build_of_def split: prod.split)
  qed
qed

subsection \<open>Pieces tile the content\<close>

fun contiguous :: "nat \<Rightarrow> ccm_piece list \<Rightarrow> bool" where
  "contiguous off [] \<longleftrightarrow> True"
| "contiguous off (p # ps) \<longleftrightarrow> piece_offset p = off \<and> contiguous (off + length (piece_text p)) ps"

fun piece_kept :: "string \<Rightarrow> scan_mode \<Rightarrow> ccm_piece \<Rightarrow> bool" where
  "piece_kept content mode (Text off s) \<longleftrightarrow> True"
| "piece_kept content mode (Match off s msg c) \<longleftrightarrow>
     (\<exists>a. attrs_text c a \<and> s = ccm_text msg a) \<and> (mode = SccmEvidence \<longrightarrow> \<not> ambiguous content off msg)"

lemma pieces_kept:
  "concat (List.map piece_text (ccm_pieces mode content cursor)) = drop cursor content
   \<and> contiguous cursor (ccm_pieces mode content cursor)
   \<and> list_all (piece_kept content mode) (ccm_pieces mode content cursor)"
proof (induction mode content cursor rule: ccm_pieces.induct)
  case (1 mode content cursor)
  show ?case
  proof (cases "ccm_match (drop cursor content)")
    case None
    then show ?thesis by (subst (1 2 3) ccm_pieces.simps) simp
  next
    case (Some x)
    obtain rel msg caps rest where x: "x = (rel, msg, caps, rest)" by (cases x) auto
    note found = Some [unfolded x]
    let ?start = "cursor + rel" and ?fin = "length content - length rest"
    obtain a where a: "attrs_text caps a" "slice content ?start ?fin = ccm_text msg a" "?start < ?fin"
      using ccm_match_at [OF found] by blast
    have len: "length (slice content cursor ?fin) = ?fin - cursor" "length (slice content cursor ?start) = rel"
        "length (slice content ?start ?fin) = ?fin - ?start"
      using a(3) by (simp_all add: length_slice)
    have parts: "slice content cursor ?fin @ drop ?fin content = drop cursor content"
        "slice content cursor ?start @ slice content ?start ?fin @ drop ?fin content = drop cursor content"
      using slice_append [of cursor ?fin "length content" content] slice_append [of cursor ?start ?fin content] a(3)
      by (simp_all add: slice_to_end flip: append_assoc)
    show ?thesis
    proof (cases "ambiguous content ?start msg \<and> mode = SccmEvidence")
      case True
      have "ccm_pieces mode content cursor = Text cursor (slice content cursor ?fin) # ccm_pieces mode content ?fin"
        using True found by (subst ccm_pieces.simps) (simp add: Let_def)
      then show ?thesis using 1(1) [OF found refl refl refl refl refl True] len parts a(3) by simp
    next
      case False
      have "ccm_pieces mode content cursor =
          Text cursor (slice content cursor ?start) # Match ?start (slice content ?start ?fin) msg caps
            # ccm_pieces mode content ?fin"
        using False found by (subst ccm_pieces.simps) (simp add: Let_def)
      then show ?thesis using 1(2) [OF found refl refl refl refl refl False] len parts a False by auto
    qed
  qed
qed

subsection \<open>Openers inside a message\<close>

lemma opener_no_overlap: "prefix record_start s \<Longrightarrow> 0 < k \<Longrightarrow> k < 7 \<Longrightarrow> \<not> prefix record_start (drop k s)"
proof
  assume p: "prefix record_start s" "prefix record_start (drop k s)" and k: "0 < k" "k < 7"
  obtain t where t: "s = record_start @ t" using p(1) by (auto simp: prefix_def)
  have "k \<in> {1, 2, 3, 4, 5, 6}" using k by auto
  then have "s ! k \<noteq> CHR ''<''" unfolding t by (auto simp: record_start_def)
  then show False using record_start_nth [OF p(2)] by simp
qed

lemma opener_indices_iff: "k \<in> set (opener_indices s off) \<longleftrightarrow> (\<exists>i. k = off + i \<and> prefix record_start (drop i s))"
proof
  assume "\<exists>i. k = off + i \<and> prefix record_start (drop i s)"
  then obtain i where "k = off + i" "prefix record_start (drop i s)" by blast
  then show "k \<in> set (opener_indices s off)"
  proof (induction s off arbitrary: i rule: opener_indices.induct)
    case (1 s off)
    obtain j where j: "str_find record_start s = Some j"
      using 1(3) str_find_None [of record_start s] by (cases "str_find record_start s") auto
    have first: "prefix record_start (drop j s)" "\<forall>l < j. \<not> prefix record_start (drop l s)"
      using str_find_Some [OF j] by auto
    consider "i = j" | "j + 7 \<le> i"
    proof -
      have "\<not> i < j" using first(2) 1(3) by blast
      moreover have "\<not> (j < i \<and> i < j + 7)"
        using opener_no_overlap [OF first(1), of "i - j"] 1(3) by (auto simp: less_diff_conv2)
      ultimately show thesis using that by linarith
    qed
    then show ?case
    proof cases
      case 1
      then show ?thesis using j \<open>k = off + i\<close> by (simp add: opener_indices.simps [of s])
    next
      case 2
      then obtain l where l: "i = j + 7 + l" using le_Suc_ex by blast
      then have "prefix record_start (drop l (drop (j + 7) s))" "k = off + j + 7 + l"
        using 1(2,3) by (simp_all add: add.commute add.left_commute)
      then show ?thesis using 1(1) [OF j] j by (simp add: opener_indices.simps [of s])
    qed
  qed
qed (use opener_indices_prefix in blast)

text \<open>A message is ambiguous when an opener starts one of its lines.\<close>

definition line_opener :: "string \<Rightarrow> bool" where
  "line_opener msg \<longleftrightarrow> (\<exists>k. prefix record_start (drop (Suc k) msg) \<and> msg ! k \<in> {CHR 0x0A, CHR 0x0D})"

lemma ambiguous_iff:
  assumes "drop start content = ccm_text msg a @ rest"
  shows "ambiguous content start msg \<longleftrightarrow> line_opener msg"
proof -
  let ?from = "start + 7"
  have d: "drop ?from content = msg @ log_end @ a @ rest"
  proof -
    have "drop ?from content = drop 7 (drop start content)" by (simp add: add.commute)
    then show ?thesis unfolding assms by (simp add: ccm_text_def)
  qed
  have msg: "slice content ?from (?from + length msg) = msg" by (simp add: slice_def d)
  have "drop start content \<noteq> []" unfolding assms by (simp add: ccm_text_def record_start_def)
  then have start: "start \<le> length content" by simp
  have at0: "content ! (start + 6) = CHR ''[''"
    using nth_drop [OF start, of 6] unfolding assms by (simp add: ccm_text_def record_start_def)
  have at: "content ! (?from + j) = msg ! j" if "j < length msg" for j
  proof -
    have "?from \<le> length content" using d by (cases "?from \<le> length content") (auto simp: log_end_def)
    from nth_drop [OF this, of j] show ?thesis using that by (simp add: d nth_append)
  qed
  have line: "(?from + i = 0 \<or> content ! (?from + i - 1) \<in> {CHR 0x0A, CHR 0x0D}) \<longleftrightarrow>
      (\<exists>k. i = Suc k \<and> msg ! k \<in> {CHR 0x0A, CHR 0x0D})"
    if p: "prefix record_start (drop i msg)" for i
  proof (cases i)
    case 0
    then show ?thesis using at0 by (simp add: add.commute)
  next
    case (Suc k)
    then have "k < length msg" using record_start_nth [OF p] by simp
    then show ?thesis using at [of k] Suc by (simp add: ac_simps)
  qed
  have "ambiguous content start msg \<longleftrightarrow>
      (\<exists>k. k \<in> set (opener_indices msg ?from) \<and> (k = 0 \<or> content ! (k - 1) \<in> {CHR 0x0A, CHR 0x0D}))"
    by (auto simp: ambiguous_def newest_nested_opener_def msg find_None_iff)
  also have "\<dots> \<longleftrightarrow> (\<exists>i. prefix record_start (drop i msg) \<and> (?from + i = 0 \<or> content ! (?from + i - 1) \<in> {CHR 0x0A, CHR 0x0D}))"
    unfolding opener_indices_iff by blast
  also have "\<dots> \<longleftrightarrow> line_opener msg" unfolding line_opener_def using line by blast
  finally show ?thesis .
qed

subsection \<open>Formats\<close>

lemma text_rows_plain: "(f, e) \<in> set (text_rows starts path off s) \<Longrightarrow> e = 1 \<and> ie_format (r_entry (f i)) = Plain"
proof -
  have "(f, e) \<in> set (plain_rows starts path off ps) \<Longrightarrow> e = 1 \<and> ie_format (r_entry (f i)) = Plain" for ps
    by (induction starts path off ps rule: plain_rows.induct)
      (auto simp: Let_def logical_record_of_line_def plain_entry_def split: if_splits)
  then show "(f, e) \<in> set (text_rows starts path off s) \<Longrightarrow> e = 1 \<and> ie_format (r_entry (f i)) = Plain"
    by (simp add: text_rows_def)
qed

lemma match_row_simps:
  assumes "attrs_text c a"
  shows "ie_format (r_entry (match_row env starts path off s msg c i)) = Ccm"
    "message (r_entry (match_row env starts path off s msg c i)) = msg"
    "r_line_start (match_row env starts path off s msg c i) = line_number_for_offset starts off"
proof -
  obtain p where p: "parse_captures env msg c = Some p" using parse_captures_total [OF assms] by blast
  then have "p_message p = msg"
    unfolding parse_captures_def Let_def by (auto elim!: bindE split: prod.splits)
  then show "ie_format (r_entry (match_row env starts path off s msg c i)) = Ccm"
    "message (r_entry (match_row env starts path off s msg c i)) = msg"
    "r_line_start (match_row env starts path off s msg c i) = line_number_for_offset starts off"
    by (simp_all add: match_row_def p into_logical_record_def)
qed

definition is_record :: "ccm_record \<Rightarrow> bool" where
  "is_record r \<longleftrightarrow> ie_format (r_entry r) = Ccm"

text \<open>The records among numbered rows, piece by piece.\<close>

definition numbered_from :: "nat \<Rightarrow> ccm_row list \<Rightarrow> ccm_record list" where
  "numbered_from n rows = List.map (\<lambda>(i, r). fst r i) (enumerate n rows)"

lemma numbered_from_append: "numbered_from n (xs @ ys) = numbered_from n xs @ numbered_from (n + length xs) ys"
  by (simp add: numbered_from_def enumerate_append_eq)

lemma numbered_from_0: "numbered rows = numbered_from 0 rows"
  by (simp add: numbered_def numbered_from_def)

lemma numbered_from_Cons: "numbered_from n (r # rows) = fst r n # numbered_from (Suc n) rows"
  by (simp add: numbered_from_def)

lemma in_numbered_from: "r \<in> set (numbered_from n rows) \<Longrightarrow> \<exists>f e i. (f, e) \<in> set rows \<and> r = f i"
proof -
  assume "r \<in> set (numbered_from n rows)"
  then obtain i row where "(i, row) \<in> set (enumerate n rows)" "r = fst row i" by (auto simp: numbered_from_def)
  then have "row \<in> set rows" by (auto simp: enumerate_eq_zip dest: set_zip_rightD)
  then show ?thesis using \<open>r = fst row i\<close> by (metis prod.collapse)
qed

lemma records_of_text: "List.filter is_record (numbered_from n (text_rows starts path off s)) = []"
  using in_numbered_from text_rows_plain by (fastforce simp: filter_empty_conv is_record_def)

fun piece_record :: "ccm_piece \<Rightarrow> (string \<times> nat) list" where
  "piece_record (Text off s) = []"
| "piece_record (Match off s msg c) = [(msg, off)]"

definition promoted :: "ccm_piece list \<Rightarrow> (string \<times> nat) list" where
  "promoted ps = concat (List.map piece_record ps)"

lemma records_of_pieces:
  "list_all (piece_kept content mode) ps \<Longrightarrow>
   List.map (\<lambda>r. (message (r_entry r), r_line_start r))
     (List.filter is_record (numbered_from n (ccm_rows env starts path ps))) =
   List.map (\<lambda>(msg, off). (msg, line_number_for_offset starts off)) (promoted ps)"
proof (induction ps arbitrary: n)
  case Nil
  then show ?case by (simp add: promoted_def numbered_from_def)
next
  case (Cons p ps)
  show ?case
  proof (cases p)
    case (Text off s)
    then show ?thesis using Cons by (simp add: numbered_from_append records_of_text promoted_def)
  next
    case (Match off s msg c)
    then obtain a where "attrs_text c a" using Cons.prems by auto
    then show ?thesis
      using Cons Match
      by (simp add: numbered_from_append numbered_from_Cons promoted_def is_record_def match_row_simps del: piece_kept.simps)
  qed
qed

subsection \<open>A content without matches\<close>

lemma parse_lines_plain:
  "list_all (\<lambda>l. ccm_match l = None) lines \<Longrightarrow>
   e \<in> set (fst (parse_lines_loop env path i lines es errs)) \<Longrightarrow> e \<in> set es \<or> ie_format e = Plain"
proof (induction env path i lines es errs rule: parse_lines_loop.induct)
  case (2 env path i line lines entries errors)
  then have "parse_line env line = None" by (simp add: parse_line_def)
  then show ?case using 2 by (fastforce simp: plain_entry_def split: if_splits)
qed simp

lemma line_in_content: "l \<in> set (str_lines content) \<Longrightarrow> \<exists>u v. content = u @ l @ v"
proof -
  assume "l \<in> set (str_lines content)"
  then obtain p where p: "p \<in> set (split_inclusive content)" "l = strip_newline p" by (auto simp: str_lines_def)
  then obtain xs ys where "split_inclusive content = xs @ p # ys" by (meson split_list)
  then have "content = concat xs @ p @ concat ys" using concat_split_inclusive [of content] by simp
  moreover obtain k where "l = take k p" using strip_newline_take [of p] p(2) by blast
  then have "p = l @ drop k p" by simp
  ultimately have "content = concat xs @ l @ drop k p @ concat ys" by (metis append_assoc)
  then show ?thesis by blast
qed

lemma no_match_single: "length (content_pieces mode content) \<le> 1 \<Longrightarrow> ccm_match content = None"
  using ccm_pieces_Cons [of mode content]
  by (subst (asm) ccm_pieces.simps) (auto simp: Let_def split: option.splits prod.splits if_splits, metis list.distinct(1))

lemma no_match_rows:
  "ccm_match content = None \<Longrightarrow> List.filter is_record (numbered (content_rows env content path mode)) = []"
  by (simp add: content_rows_def ccm_pieces.simps numbered_from_0 records_of_text)

lemma no_match_lines:
  "ccm_match content = None \<Longrightarrow>
   List.filter is_record (List.map logical_record_of_line (fst (ccm_parse_lines env (str_lines content) path))) = []"
proof -
  assume n: "ccm_match content = None"
  then have "list_all (\<lambda>l. ccm_match l = None) (str_lines content)"
    unfolding list_all_iff using line_in_content ccm_match_mono by (intro ballI) metis
  from parse_lines_plain [OF this, of _ env path 0 "[]" 0] show ?thesis
    by (auto simp: filter_empty_conv ccm_parse_lines_def is_record_def logical_record_of_line_def)
qed

lemma scan_logical_records_rows:
  "scan_logical_records env content path = List.filter is_record (numbered (content_rows env content path SccmEvidence))"
proof (cases "length (content_pieces SccmEvidence content) \<le> 1")
  case True
  from no_match_single [OF this] show ?thesis
    using True
    by (simp add: scan_logical_records_def scan_rows is_record_def [symmetric] no_match_rows no_match_lines)
next
  case False
  then show ?thesis
    by (simp add: scan_logical_records_def scan_rows is_record_def [symmetric] finish_build_def build_of_def upto_def)
qed

subsection \<open>Contracts\<close>

text \<open>The pieces of a content tile it, each match is the text of a record, no promoted message has an opener
  at the start of one of its lines, and the records are the matches, in order, each at its line with its
  message.\<close>

lemma ccm_evidence_pieces:
  "concat (List.map piece_text (ccm_pieces SccmEvidence content 0)) = content
   \<and> contiguous 0 (ccm_pieces SccmEvidence content 0)
   \<and> list_all (piece_kept content SccmEvidence) (ccm_pieces SccmEvidence content 0)
   \<and> List.map (\<lambda>r. (message (r_entry r), r_line_start r)) (scan_logical_records env content path) =
       List.map (\<lambda>(msg, off). (msg, line_number_for_offset (build_line_starts content) off))
         (promoted (ccm_pieces SccmEvidence content 0))
   \<and> list_all (\<lambda>r. \<not> line_opener (message (r_entry r))) (scan_logical_records env content path)"
proof -
  let ?ps = "content_pieces SccmEvidence content"
  note kept = pieces_kept [of SccmEvidence content 0]
  have recs: "List.map (\<lambda>r. (message (r_entry r), r_line_start r)) (scan_logical_records env content path) =
      List.map (\<lambda>(msg, off). (msg, line_number_for_offset (build_line_starts content) off)) (promoted ?ps)"
    using records_of_pieces [of content SccmEvidence ?ps 0 env "build_line_starts content" path] kept
    by (simp add: scan_logical_records_rows content_rows_def numbered_from_0)
  have clear: "\<not> line_opener msg" if m: "(msg, off) \<in> set (promoted ?ps)" for msg off
  proof -
    obtain p where p: "p \<in> set ?ps" "(msg, off) \<in> set (piece_record p)" using m by (auto simp: promoted_def)
    obtain s c where "p = Match off s msg c" by (cases p) (use p(2) in auto)
    then have "Match off s msg c \<in> set ?ps" using p(1) by simp
    then obtain xs ys where split: "?ps = xs @ Match off s msg c # ys" by (meson split_list)
    have tile: "contiguous k (us @ p # vs) \<Longrightarrow> piece_offset p = k + length (concat (List.map piece_text us))" for k us p vs
      by (induction us arbitrary: k) auto
    have "off = length (concat (List.map piece_text xs))" using tile [of 0 xs "Match off s msg c" ys] kept split by simp
    moreover have "content = concat (List.map piece_text xs) @ s @ concat (List.map piece_text ys)"
      using kept split by simp
    moreover obtain a where "s = ccm_text msg a" using kept split by auto
    ultimately have "drop off content = ccm_text msg a @ concat (List.map piece_text ys)" by simp
    then show ?thesis using ambiguous_iff kept split by fastforce
  qed
  have "list_all (\<lambda>x. \<not> line_opener (fst x)) (List.map (\<lambda>r. (message (r_entry r), r_line_start r)) (scan_logical_records env content path))"
    unfolding recs using clear by (auto simp: list_all_iff)
  then have "list_all (\<lambda>r. \<not> line_opener (message (r_entry r))) (scan_logical_records env content path)"
    by (simp add: list_all_iff)
  then show ?thesis using kept recs by simp
qed

text \<open>Both modes find the same matches; an evidence scan keeps the ones that are not ambiguous.\<close>

fun match_message :: "ccm_piece \<Rightarrow> string option" where
  "match_message (Text off s) = None"
| "match_message (Match off s msg c) = Some msg"

definition matches_with :: "(string \<Rightarrow> bool) \<Rightarrow> ccm_piece list \<Rightarrow> ccm_piece list" where
  "matches_with P = List.filter (\<lambda>p. case match_message p of None \<Rightarrow> False | Some msg \<Rightarrow> P msg)"

lemma matches_with_simps [simp]:
  "matches_with P [] = []"
  "matches_with P (Text off s # ps) = matches_with P ps"
  "matches_with P (Match off s msg c # ps) = (if P msg then [Match off s msg c] else []) @ matches_with P ps"
  by (simp_all add: matches_with_def)

lemma evidence_matches:
  "mode = PublicProjection \<Longrightarrow>
     matches_with (\<lambda>_. True) (ccm_pieces SccmEvidence content cursor) =
     matches_with (\<lambda>msg. \<not> line_opener msg) (ccm_pieces mode content cursor)"
proof (induction mode content cursor rule: ccm_pieces.induct)
  case (1 mode content cursor)
  show ?case
  proof (cases "ccm_match (drop cursor content)")
    case None
    then show ?thesis by (subst (1 2) ccm_pieces.simps) simp
  next
    case (Some x)
    obtain rel msg caps rest where x: "x = (rel, msg, caps, rest)" by (cases x) auto
    note found = Some [unfolded x]
    let ?start = "cursor + rel" and ?fin = "length content - length rest"
    have public: "\<not> (ambiguous content ?start msg \<and> mode = SccmEvidence)" using 1(3) by simp
    note IH = 1(2) [OF found refl refl refl refl refl public 1(3)]
    obtain a where a: "slice content ?start ?fin = ccm_text msg a" "drop ?fin content = rest" "?start < ?fin"
      using ccm_match_at [OF found] by blast
    have "drop ?start content = slice content ?start ?fin @ drop ?fin content"
      using slice_append [of ?start ?fin "length content" content] a(3) by (simp add: slice_to_end)
    then have "drop ?start content = ccm_text msg a @ rest" unfolding a(1,2) .
    from ambiguous_iff [OF this] show ?thesis
      using found public IH by (subst (1 2) ccm_pieces.simps) (simp add: Let_def)
  qed
qed

text \<open>A record up to its entry id: the id counts the loose rows too, which differ between the modes.\<close>

definition without_id :: "ccm_record \<Rightarrow> ccm_record" where
  "without_id r = r\<lparr>r_entry := (r_entry r)\<lparr>entry_id := 0\<rparr>\<rparr>"

fun match_record :: "'n ime_env \<Rightarrow> nat list \<Rightarrow> string \<Rightarrow> ccm_piece \<Rightarrow> ccm_record option" where
  "match_record env starts path (Text off s) = None"
| "match_record env starts path (Match off s msg c) = Some (without_id (match_row env starts path off s msg c 0))"

lemma without_id_match_row:
  "without_id (match_row env starts path off s msg c i) = without_id (match_row env starts path off s msg c j)"
  by (simp add: match_row_def without_id_def into_logical_record_def logical_record_of_line_def plain_entry_def
      split: option.split)

lemma records_with_message:
  "list_all (piece_kept content mode) ps \<Longrightarrow>
   List.map (\<lambda>r. Some (without_id r))
     (List.filter (\<lambda>r. is_record r \<and> P (message (r_entry r))) (numbered_from n (ccm_rows env starts path ps))) =
   List.map (match_record env starts path) (matches_with P ps)"
proof (induction ps arbitrary: n)
  case Nil
  then show ?case by (simp add: numbered_from_def)
next
  case (Cons p ps)
  show ?case
  proof (cases p)
    case (Text off s)
    have "List.filter (\<lambda>r. is_record r \<and> P (message (r_entry r))) (numbered_from n (text_rows starts path off s)) = []"
      using records_of_text [of n starts path off s] by (auto simp: filter_empty_conv)
    then show ?thesis using Text Cons by (simp add: numbered_from_append)
  next
    case (Match off s msg c)
    then obtain a where "attrs_text c a" using Cons.prems by auto
    then show ?thesis
      using Cons Match without_id_match_row [of env starts path off s msg c n 0]
      by (simp add: numbered_from_append numbered_from_Cons is_record_def match_row_simps del: piece_kept.simps)
  qed
qed

lemma public_records:
  "List.filter is_record (sc_records (scan_ccm_content env content path PublicProjection None)) =
     List.filter is_record (numbered (content_rows env content path PublicProjection))"
proof (cases "length (content_pieces PublicProjection content) \<le> 1")
  case True
  from no_match_single [OF this] show ?thesis using True by (simp add: scan_rows no_match_rows no_match_lines)
next
  case False
  then show ?thesis by (simp add: scan_rows finish_build_def build_of_def upto_def)
qed

text \<open>C17. Evidence comes only from records that can be read in one way: the records of an evidence scan are,
  up to the running entry id, exactly the records of the public scan of the same content whose message has
  no line after its first that starts with an opener, in order, with every field. An opener inside a line
  does not make a message ambiguous.\<close>

theorem ccm_evidence_unambiguous:
  "List.map without_id (scan_logical_records env content path) =
     List.map without_id
       (List.filter (\<lambda>r. ie_format (r_entry r) = Ccm \<and> \<not> line_opener (message (r_entry r)))
         (sc_records (scan_ccm_content env content path PublicProjection None)))"
proof -
  let ?starts = "build_line_starts content" and ?P = "\<lambda>msg. \<not> line_opener msg"
  have "List.map (\<lambda>r. Some (without_id r)) (scan_logical_records env content path) =
      List.map (match_record env ?starts path) (matches_with (\<lambda>_. True) (content_pieces SccmEvidence content))"
    using records_with_message [of content SccmEvidence "content_pieces SccmEvidence content" "\<lambda>_. True" 0 env ?starts path]
      pieces_kept [of SccmEvidence content 0]
    by (simp add: scan_logical_records_rows content_rows_def numbered_from_0)
  also have "\<dots> = List.map (match_record env ?starts path) (matches_with ?P (content_pieces PublicProjection content))"
    by (simp only: evidence_matches [OF refl])
  also have "\<dots> = List.map (\<lambda>r. Some (without_id r)) (List.filter (\<lambda>r. is_record r \<and> ?P (message (r_entry r)))
      (numbered (content_rows env content path PublicProjection)))"
    using records_with_message [of content PublicProjection "content_pieces PublicProjection content" ?P 0 env ?starts path]
      pieces_kept [of PublicProjection content 0]
    by (simp add: content_rows_def numbered_from_0)
  also have "List.filter (\<lambda>r. is_record r \<and> ?P (message (r_entry r))) (numbered (content_rows env content path PublicProjection)) =
      List.filter (\<lambda>r. is_record r \<and> ?P (message (r_entry r))) (sc_records (scan_ccm_content env content path PublicProjection None))"
    using arg_cong [OF public_records [of env content path], of "List.filter (\<lambda>r. ?P (message (r_entry r)))"]
    by (simp add: conj_commute)
  finally have "List.map Some (List.map without_id (scan_logical_records env content path)) =
      List.map Some (List.map without_id (List.filter (\<lambda>r. is_record r \<and> ?P (message (r_entry r)))
        (sc_records (scan_ccm_content env content path PublicProjection None))))"
    by (simp add: comp_def)
  then show ?thesis unfolding is_record_def by (simp only: inj_map_eq_map [OF inj_Some])
qed

text \<open>The loose text of a content is blank.\<close>

fun blank_piece :: "ccm_piece \<Rightarrow> bool" where
  "blank_piece (Text off s) \<longleftrightarrow> list_all (\<lambda>l. str_trim (trim_end_any line_end l) = []) (split_inclusive s)"
| "blank_piece (Match off s msg c) \<longleftrightarrow> True"

lemma text_rows_blank: "text_rows starts path off s = [] \<longleftrightarrow> blank_piece (Text off s)"
proof -
  have "plain_rows starts path off ps = [] \<longleftrightarrow> list_all (\<lambda>l. str_trim (trim_end_any line_end l) = []) ps" for ps
    by (induction starts path off ps rule: plain_rows.induct) (auto simp: Let_def)
  then show ?thesis by (simp add: text_rows_def)
qed

lemma text_rows_errors: "sum_list (List.map snd (text_rows starts path off s)) = length (text_rows starts path off s)"
proof -
  have "List.map snd (text_rows starts path off s) = List.map (\<lambda>_. 1) (text_rows starts path off s)"
    using text_rows_plain by (intro map_cong refl) (metis prod.collapse)
  then show ?thesis by (simp only: sum_list_triv) simp
qed

lemma errors_blank: "sum_list (List.map snd (ccm_rows env starts path ps)) = 0 \<longleftrightarrow> list_all blank_piece ps"
proof (induction ps)
  case (Cons p ps)
  show ?case
  proof (cases p)
    case (Text off s)
    have "sum_list (List.map snd (text_rows starts path off s)) = 0 \<longleftrightarrow> blank_piece (Text off s)"
      using text_rows_blank [of starts path off s] by (simp only: text_rows_errors length_0_conv)
    then show ?thesis using Cons Text by (simp add: sum_list_append del: blank_piece.simps sum_list_eq_0_iff)
  qed (use Cons in \<open>simp del: sum_list_eq_0_iff\<close>)
qed simp

lemma ccm_rows_few:
  "list_all (piece_kept content mode) ps \<Longrightarrow>
     length (ccm_rows env starts path ps) \<le> length (concat (List.map piece_text ps))
     \<and> (\<forall>row \<in> set (ccm_rows env starts path ps). snd row \<le> 1)"
proof (induction ps)
  case (Cons p ps)
  have plain: "length (plain_rows starts path off ls) \<le> length (concat ls)" for off ls
  proof (induction starts path off ls rule: plain_rows.induct)
    case (2 starts path off l ls)
    have "str_trim (trim_end_any line_end l) \<noteq> [] \<Longrightarrow> l \<noteq> []"
      by (auto simp: trim_end_any_def str_trim_def)
    then have "str_trim (trim_end_any line_end l) \<noteq> [] \<Longrightarrow> Suc 0 \<le> length l" by (cases l) simp_all
    then show ?case using 2 by (auto simp: Let_def)
  qed simp
  have "length (piece_rows env starts path p) \<le> length (piece_text p)
      \<and> (\<forall>row \<in> set (piece_rows env starts path p). snd row \<le> 1)"
  proof (cases p)
    case (Text off s)
    then show ?thesis
      using plain [of off "split_inclusive s"] text_rows_plain
      by (fastforce simp: text_rows_def concat_split_inclusive)
  next
    case (Match off s msg c)
    then show ?thesis using Cons.prems by (auto simp: ccm_text_def record_start_def)
  qed
  then show ?case using Cons by auto
qed simp

lemma sum_list_ones: "\<forall>x \<in> set xs. x \<le> 1 \<Longrightarrow> sum_list xs \<le> length (xs :: nat list)"
  by (induction xs) auto

text \<open>C20. A bounded evidence scan returns at most the bound, a prefix of the unbounded scan. It calls itself
  complete exactly when the bound held and everything outside the records is blank, and then it returns all
  of them. The bound or the length of the content is below \<open>2 ^ 32\<close>, so that the \<open>u32\<close> error counter, whose
  zero is part of the completeness test, cannot wrap back to it.\<close>

theorem bounded_scan_sound:
  assumes "min n (length content) < 2 ^ 32"
  shows "let b = scan_logical_records_bounded env content path n; full = scan_logical_records env content path in
   prefix (bs_records b) full \<and> length (bs_records b) \<le> n
   \<and> (bs_complete b \<longleftrightarrow> \<not> bs_exceeded b \<and> list_all blank_piece (ccm_pieces SccmEvidence content 0))
   \<and> (bs_complete b \<longrightarrow> bs_records b = full)"
proof -
  let ?rows = "content_rows env content path SccmEvidence"
  let ?b = "scan_logical_records_bounded env content path n"
  let ?errors = "sum_list (List.map snd (take n ?rows))"
  have b: "?b = \<lparr>bs_records = List.filter is_record (take n (numbered ?rows)),
      bs_complete = ((of_nat ?errors :: u32) = 0 \<and> \<not> n < length ?rows), bs_exceeded = n < length ?rows\<rparr>"
    by (simp add: scan_logical_records_bounded_def scan_rows is_record_def [symmetric] finish_build_def build_of_def
        upto_def numbered_take)
  have few: "length ?rows \<le> length content" "\<forall>row \<in> set ?rows. snd row \<le> 1"
    using ccm_rows_few [of content SccmEvidence "content_pieces SccmEvidence content" env "build_line_starts content" path]
      pieces_kept [of SccmEvidence content 0]
    unfolding content_rows_def by simp_all
  have "?errors \<le> length (List.map snd (take n ?rows))"
    using few(2) by (intro sum_list_ones) (auto dest: in_set_takeD)
  also have "\<dots> < 2 ^ 32" using few(1) assms by (simp add: min_def split: if_splits)
  finally have exact: "(of_nat ?errors :: u32) = 0 \<longleftrightarrow> ?errors = 0"
    using nat_dvd_not_less [of ?errors "2 ^ 32"]
    by (cases "?errors = 0") (auto simp: word_of_nat_eq_0_iff simp del: sum_list_eq_0_iff)
  have "prefix (List.filter P (take n xs)) (List.filter P xs)" for P and xs :: "ccm_record list"
    by (metis append_take_drop_id filter_append prefixI)
  moreover have "length (List.filter is_record (take n (numbered ?rows))) \<le> n"
    using length_filter_le [of is_record "take n (numbered ?rows)"] by simp
  moreover have "sum_list (List.map snd ?rows) = 0 \<longleftrightarrow> list_all blank_piece (content_pieces SccmEvidence content)"
    unfolding content_rows_def by (rule errors_blank)
  then have "bs_complete ?b \<longleftrightarrow> \<not> bs_exceeded ?b \<and> list_all blank_piece (content_pieces SccmEvidence content)"
    unfolding b by (auto simp: exact not_less simp del: sum_list_eq_0_iff)
  ultimately show ?thesis by (simp add: Let_def b scan_logical_records_rows)
qed

end
