(* ===== verification/CcmWritten.thy ===== *)
theory CcmWritten
  imports CcmSpec ImeSamples
begin

text \<open>
  CCM logs as the CMTrace format writes them, field by field, and what the parser reads back.
\<close>

record ccm_fields =
  w_msg :: string
  w_h :: nat
  w_m :: nat
  w_s :: nat
  w_ms :: nat
  w_off :: "int option"
  w_mon :: nat
  w_day :: nat
  w_yr :: nat
  w_comp :: string
  w_ctx :: string
  w_type :: "nat option"
  w_thread :: "nat option"
  w_file :: "string option"

definition written_off :: "int option \<Rightarrow> string" where
  "written_off x =
     (case x of None \<Rightarrow> []
      | Some i \<Rightarrow> (if i < 0 then CHR ''-'' # zero_padded 3 (nat (- i)) else CHR ''+'' # zero_padded 3 (nat i)))"

definition opt_dec :: "nat option \<Rightarrow> string option" where "opt_dec = map_option dec"

definition caps_of :: "ccm_fields \<Rightarrow> ccm_caps" where
  "caps_of w =
     \<lparr>c_h = zero_padded 2 (w_h w), c_m = zero_padded 2 (w_m w), c_s = zero_padded 2 (w_s w),
      c_time_tail = zero_padded 3 (w_ms w) @ written_off (w_off w), c_mon = zero_padded 2 (w_mon w),
      c_day = zero_padded 2 (w_day w), c_yr = zero_padded 4 (w_yr w), c_comp = w_comp w, c_context = w_ctx w,
      c_typ = opt_dec (w_type w), c_thr = opt_dec (w_thread w), c_file = w_file w\<rparr>"

definition quoted :: "string \<Rightarrow> string \<Rightarrow> string" where
  "quoted key v = CHR '' '' # attr_open key @ v @ [dquote]"

definition written_ccm_attrs :: "ccm_caps \<Rightarrow> string" where
  "written_ccm_attrs c =
     attr_open ''<time'' @ c_h c @ '':'' @ c_m c @ '':'' @ c_s c @ ''.'' @ c_time_tail c @ [dquote]
     @ quoted ''date'' (c_mon c @ ''-'' @ c_day c @ ''-'' @ c_yr c) @ quoted ''component'' (c_comp c)
     @ quoted ''context'' (c_context c) @ quoted ''type'' (case c_typ c of None \<Rightarrow> [] | Some d \<Rightarrow> d)
     @ quoted ''thread'' (case c_thr c of None \<Rightarrow> [] | Some d \<Rightarrow> d)
     @ (case c_file c of None \<Rightarrow> [] | Some f \<Rightarrow> quoted ''file'' f) @ ''>''"

definition fields_ok :: "ccm_fields \<Rightarrow> bool" where
  "fields_ok w \<longleftrightarrow>
     w_h w < 100 \<and> w_m w < 100 \<and> w_s w < 100 \<and> w_ms w < 1000 \<and> w_mon w < 100 \<and> w_day w < 100 \<and> w_yr w < 10000
     \<and> (case w_off w of None \<Rightarrow> True | Some i \<Rightarrow> \<bar>i\<bar> < 1000)
     \<and> dquote \<notin> set (w_comp w) \<and> dquote \<notin> set (w_ctx w)
     \<and> (case w_file w of None \<Rightarrow> True | Some f \<Rightarrow> dquote \<notin> set f)
     \<and> (case w_type w of None \<Rightarrow> True | Some n \<Rightarrow> n < 10) \<and> (case w_thread w of None \<Rightarrow> True | Some n \<Rightarrow> n \<le> u32_max)
     \<and> str_find log_end (w_msg w @ log_end) = Some (length (w_msg w))"

lemma padded_digits: "n < 10 ^ k \<Longrightarrow> 0 < k \<Longrightarrow> digits k k (zero_padded k n)"
  using zero_padded_facts [of n k] by (simp add: digits_def)

lemma padded_range: "n < 10 ^ k \<Longrightarrow> 0 < k \<Longrightarrow> digits 1 k (zero_padded k n)"
  using padded_digits [of n k] by (simp add: digits_def)

lemma padded_value: "n < 10 ^ k \<Longrightarrow> 0 < k \<Longrightarrow> digits_val (zero_padded k n) = n"
  using zero_padded_facts [of n k] by simp

lemma dec_digits_all: "digits 1 (length (dec n)) (dec n)"
  by (simp add: digits_def list_all_iff dec_digits Suc_le_eq)

lemma ws_space: "ws_text '' ''"
  unfolding ws_text_def by (intro exI [of _ "['' '']"]) (simp add: ws_chars_def)

lemma tail_written:
  assumes "w_ms w < 1000" "case w_off w of None \<Rightarrow> True | Some i \<Rightarrow> \<bar>i\<bar> < 1000"
  shows "digits 1 (length (zero_padded 3 (w_ms w))) (zero_padded 3 (w_ms w))"
    "written_off (w_off w) = [] \<or> (\<exists>c d. written_off (w_off w) = c # d \<and> is_sign c \<and> digits 1 (length d) d)"
proof -
  have pad: "n < 1000 \<Longrightarrow> digits 1 (length (zero_padded 3 n)) (zero_padded 3 n)" for n
    using padded_range [of n 3] by (simp add: digits_def)
  show "digits 1 (length (zero_padded 3 (w_ms w))) (zero_padded 3 (w_ms w))" by (rule pad [OF assms(1)])
  show "written_off (w_off w) = [] \<or> (\<exists>c d. written_off (w_off w) = c # d \<and> is_sign c \<and> digits 1 (length d) d)"
    using assms(2) pad by (auto simp: written_off_def is_sign_def split: option.splits)
qed

lemma quoted_text_written: "dquote \<notin> set v \<Longrightarrow> quoted_text key v (quoted key v)"
  unfolding quoted_text_def quoted_def using ws_space by (intro conjI exI [of _ "'' ''"]) simp_all

lemma written_attrs_text:
  assumes "fields_ok w"
  shows "attrs_text (caps_of w) (written_ccm_attrs (caps_of w))"
proof -
  let ?c = "caps_of w"
  have n: "w_h w < 10 ^ 2" "w_m w < 10 ^ 2" "w_s w < 10 ^ 2" "w_mon w < 10 ^ 2" "w_day w < 10 ^ 2" "w_yr w < 10 ^ 4"
    using assms by (simp_all add: fields_ok_def)
  have tail: "tail_text (c_time_tail ?c)"
    using tail_written [of w] assms unfolding tail_text_def by (auto simp: caps_of_def fields_ok_def)
  have t: "time_text (c_h ?c, c_m ?c, c_s ?c, c_time_tail ?c)
      (attr_open ''<time'' @ c_h ?c @ '':'' @ c_m ?c @ '':'' @ c_s ?c @ ''.'' @ c_time_tail ?c @ [dquote])"
    using n tail padded_range by (simp add: time_text_def, simp add: caps_of_def)
  have d: "date_text (c_mon ?c, c_day ?c, c_yr ?c) (quoted ''date'' (c_mon ?c @ ''-'' @ c_day ?c @ ''-'' @ c_yr ?c))"
    using n padded_range padded_digits ws_space
    by (auto simp: date_text_def quoted_def caps_of_def intro!: exI [of _ "'' ''"])
  have ty: "digits_text ''type'' (Some 1) (c_typ ?c) (quoted ''type'' (case c_typ ?c of None \<Rightarrow> [] | Some d \<Rightarrow> d))"
  proof -
    have "n < 10 \<Longrightarrow> length (dec n) = 1" for n by (simp add: dec.simps [of n])
    then have "n < 10 \<Longrightarrow> digits 1 1 (dec n)" for n using dec_digits_all [of n] by simp
    then show ?thesis
      using assms ws_space
      by (auto simp: digits_text_def quoted_def caps_of_def opt_dec_def fields_ok_def split: option.splits
          intro!: exI [of _ "'' ''"])
  qed
  have th: "digits_text ''thread'' None (c_thr ?c) (quoted ''thread'' (case c_thr ?c of None \<Rightarrow> [] | Some d \<Rightarrow> d))"
    using dec_digits_all ws_space
    by (auto simp: digits_text_def quoted_def caps_of_def opt_dec_def split: option.splits intro!: exI [of _ "'' ''"])
  have f: "case c_file ?c of None \<Rightarrow> (case c_file ?c of None \<Rightarrow> [] | Some f \<Rightarrow> quoted ''file'' f) = []
      | Some f \<Rightarrow> quoted_text ''file'' f (case c_file ?c of None \<Rightarrow> [] | Some f \<Rightarrow> quoted ''file'' f)"
    using assms by (auto simp: caps_of_def fields_ok_def quoted_text_written split: option.splits)
  have "quoted_text ''component'' (c_comp ?c) (quoted ''component'' (c_comp ?c))"
    and "quoted_text ''context'' (c_context ?c) (quoted ''context'' (c_context ?c))"
    using assms by (simp_all add: caps_of_def fields_ok_def quoted_text_written)
  then show ?thesis
    unfolding attrs_text_def using t d ty th f
    by (intro exI conjI) (assumption | simp add: written_ccm_attrs_def)+
qed

subsection \<open>Reading back\<close>

lemma shortest_message_first:
  "str_find log_end s = Some r \<Longrightarrow> match_attrs (drop (r + 7) s) = Some (c, t) \<Longrightarrow>
     shortest_message s = Some (take r s, c, t)"
proof (induction s arbitrary: r)
  case (Cons x s)
  show ?case
  proof (cases "prefix log_end (x # s)")
    case True
    then show ?thesis using Cons.prems by (simp add: Let_def)
  next
    case False
    then obtain r' where r': "str_find log_end s = Some r'" "r = Suc r'" using Cons.prems by auto
    have "drop (Suc r' + 7) (x # s) = drop (r' + 7) s" by (simp only: add_Suc drop_Suc_Cons)
    then show ?thesis using Cons False r' by (auto simp: Let_def)
  qed
qed (simp add: log_end_def)

lemma log_end_length [simp]: "length log_end = 7"
  by (simp add: log_end_def)

lemma written_match:
  assumes "fields_ok w" "sep \<in> {[], line_end}"
  shows "ccm_match (sep @ ccm_text (w_msg w) (written_ccm_attrs (caps_of w)) @ t) =
    Some (length sep, w_msg w, caps_of w, t)"
proof -
  let ?a = "written_ccm_attrs (caps_of w)"
  have "str_find log_end (w_msg w @ log_end @ ?a @ t) = Some (length (w_msg w))"
    using assms(1) str_find_take [of "length (w_msg w)" log_end "length (w_msg w) + 7" "w_msg w @ log_end @ ?a @ t"]
    by (simp add: fields_ok_def)
  from shortest_message_first [OF this, of "caps_of w" t]
  have s: "shortest_message (w_msg w @ log_end @ ?a @ t) = Some (w_msg w, caps_of w, t)"
    using match_attrs_text [OF written_attrs_text [OF assms(1)], of t] by simp
  have "ccm_match (ccm_text (w_msg w) ?a @ t) = Some (0, w_msg w, caps_of w, t)"
    using s by (simp add: ccm_text_def record_start_def)
  moreover have "ccm_match (line_end @ z) = map_option (\<lambda>x. (Suc (Suc (fst x)), snd x)) (ccm_match z)" for z
    by (simp add: line_end_def record_start_def Let_def option.map_comp comp_def case_prod_beta)
  moreover have "length line_end = 2" by (simp add: line_end_def)
  ultimately show ?thesis using assms(2) by (cases "sep = []") simp_all
qed

definition written_millis :: "'n ime_env \<Rightarrow> ccm_fields \<Rightarrow> int option \<times> string option" where
  "written_millis env w = build_timestamp env (w_mon w) (w_day w) (int (w_yr w)) (w_h w) (w_m w) (w_s w) (w_ms w) (w_off w)"

lemma written_off_value:
  "case x of None \<Rightarrow> True | Some i \<Rightarrow> \<bar>i\<bar> < 1000 \<Longrightarrow>
     Option.bind (if written_off x = [] then None else Some (written_off x)) parse_i32 = x"
proof (cases x)
  case (Some i)
  assume "case x of None \<Rightarrow> True | Some i \<Rightarrow> \<bar>i\<bar> < 1000"
  then have i: "\<bar>i\<bar> < 1000" using Some by simp
  have z: "list_all is_digit (zero_padded 3 n)" "zero_padded 3 n \<noteq> []" "digits_val (zero_padded 3 n) = n"
    if "n < 1000" for n
    using zero_padded_facts [of n 3] that by auto
  show ?thesis
  proof (cases "i < 0")
    case True
    then show ?thesis using i z [of "nat (- i)"] Some by (simp add: written_off_def parse_i32_def)
  next
    case False
    then show ?thesis using i z [of "nat i"] Some by (simp add: written_off_def parse_i32_def parse_uint_def)
  qed
qed (simp add: written_off_def)

lemma written_parsed:
  assumes "fields_ok w"
  shows "\<exists>p. parse_captures env (w_msg w) (caps_of w) = Some p
    \<and> p_message p = w_msg w \<and> p_component p = Some (w_comp w) \<and> p_timestamp p = fst (written_millis env w)
    \<and> p_display p = snd (written_millis env w) \<and> p_severity p = severity_from_type_field (w_type w) (w_msg w)
    \<and> p_thread p = (case w_thread w of None \<Rightarrow> 0 | Some n \<Rightarrow> n) \<and> p_file p = w_file w
    \<and> p_offset p = (case w_off w of None \<Rightarrow> 0 | Some n \<Rightarrow> n) \<and> p_context p = Some (w_ctx w)"
proof -
  let ?c = "caps_of w"
  have short: "parse_uint u32_max (zero_padded 2 n) = Some n" if "n < 100" for n
    using parse_uint_short [OF padded_range [of n 2]] padded_value [of n 2] that by simp
  have yr: "parse_i32 (zero_padded 4 (w_yr w)) = Some (int (w_yr w))"
    using parse_i32_year [OF padded_digits [of "w_yr w" 4]] padded_value [of "w_yr w" 4] assms by (simp add: fields_ok_def)
  have tail: "split_ccm_time_tail (c_time_tail ?c) =
      (zero_padded 3 (w_ms w), if written_off (w_off w) = [] then None else Some (written_off (w_off w)))"
    using split_tail tail_written [of w] assms by (simp add: caps_of_def fields_ok_def)
  have ms: "truncate_subsecond_to_millis (zero_padded 3 (w_ms w)) = Some (w_ms w)"
  proof -
    have z: "length (zero_padded 3 (w_ms w)) = 3" "digits 1 3 (zero_padded 3 (w_ms w))"
      using zero_padded_facts [of "w_ms w" 3] padded_range [of "w_ms w" 3] assms by (simp_all add: fields_ok_def)
    then have "parse_uint u32_max (zero_padded 3 (w_ms w)) = Some (w_ms w)"
      using parse_uint_digits [of 3] padded_value [of "w_ms w" 3] assms by (simp add: fields_ok_def u32_max_def)
    then show ?thesis using z(1) by (simp add: truncate_subsecond_to_millis_def is_char_boundary_def)
  qed
  have ty: "Option.bind (c_typ ?c) (parse_uint u32_max) = w_type w"
    using assms by (cases "w_type w") (simp_all add: caps_of_def opt_dec_def fields_ok_def parse_uint_dec u32_max_def)
  have th: "Option.bind (c_thr ?c) (parse_uint u32_max) = w_thread w"
    using assms by (cases "w_thread w") (simp_all add: caps_of_def opt_dec_def fields_ok_def parse_uint_dec)
  have off: "Option.bind (if written_off (w_off w) = [] then None else Some (written_off (w_off w))) parse_i32 = w_off w"
    using assms by (intro written_off_value) (simp add: fields_ok_def)
  have parts: "parse_uint u32_max (c_h ?c) = Some (w_h w)" "parse_uint u32_max (c_m ?c) = Some (w_m w)"
      "parse_uint u32_max (c_s ?c) = Some (w_s w)" "parse_uint u32_max (c_mon ?c) = Some (w_mon w)"
      "parse_uint u32_max (c_day ?c) = Some (w_day w)" "parse_i32 (c_yr ?c) = Some (int (w_yr w))"
      "c_comp ?c = w_comp w" "c_context ?c = w_ctx w" "c_file ?c = w_file w"
    using assms short yr by (simp_all add: caps_of_def fields_ok_def)
  show ?thesis
    unfolding parse_captures_def Let_def tail prod.case
    by (simp only: parts ms off ty th Option.bind.simps option.inject ex_simps)
      (simp add: written_millis_def split: prod.split)
qed

subsection \<open>Logs\<close>

definition ccm_log :: "ccm_fields list \<Rightarrow> string" where
  "ccm_log ws = concat (List.map (\<lambda>w. ccm_text (w_msg w) (written_ccm_attrs (caps_of w)) @ line_end) ws)"

definition entry_view :: "ime_entry \<Rightarrow> string \<times> string option \<times> int option \<times> string option \<times> severity
    \<times> nat option \<times> string option \<times> int option" where
  "entry_view e = (message e, component e, timestamp e, ie_display e, entry_severity e, ie_thread e, source_file e,
     ie_offset e)"

definition fields_view :: "'n ime_env \<Rightarrow> ccm_fields \<Rightarrow> string \<times> string option \<times> int option \<times> string option
    \<times> severity \<times> nat option \<times> string option \<times> int option" where
  "fields_view env w =
     (w_msg w, Some (w_comp w), fst (written_millis env w), snd (written_millis env w),
      severity_from_type_field (w_type w) (w_msg w), Some (case w_thread w of None \<Rightarrow> 0 | Some n \<Rightarrow> n), w_file w,
      Some (case w_off w of None \<Rightarrow> 0 | Some n \<Rightarrow> n))"

lemma blank_separator: "sep \<in> {[], line_end} \<Longrightarrow> text_rows starts path off sep = []"
  by (auto simp: text_rows_def line_end_def trim_end_any_def)

lemma ccm_log_rows:
  assumes "mode = SccmEvidence \<Longrightarrow> list_all (\<lambda>w. \<not> line_opener (w_msg w)) ws"
  shows "sep \<in> {[], line_end} \<Longrightarrow> list_all fields_ok ws \<Longrightarrow> drop c content = sep @ ccm_log ws \<Longrightarrow>
    \<exists>fs. ccm_rows env starts path (ccm_pieces mode content c) = List.map (\<lambda>f. (f, 0)) fs
      \<and> list_all2 (\<lambda>f w. \<forall>i. entry_view (r_entry (f i)) = fields_view env w \<and> is_record (f i)
           \<and> entry_id (r_entry (f i)) = of_nat i) fs ws
      \<and> list_all blank_piece (ccm_pieces mode content c)
      \<and> (ws \<noteq> [] \<longrightarrow> 1 < length (ccm_pieces mode content c))"
  using assms
proof (induction ws arbitrary: c sep)
  case Nil
  have "ccm_match sep = None" using Nil(1) by (auto simp: line_end_def record_start_def Let_def)
  then have "ccm_pieces mode content c = [Text c sep]" using Nil by (subst ccm_pieces.simps) (simp add: ccm_log_def)
  then show ?case using blank_separator [OF Nil(1)] text_rows_blank by (auto intro!: exI [of _ "[]"])
next
  case (Cons w ws)
  let ?t = "ccm_text (w_msg w) (written_ccm_attrs (caps_of w))" and ?s = "c + length sep"
  have d: "drop c content = sep @ ?t @ line_end @ ccm_log ws" using Cons.prems(3) by (simp add: ccm_log_def)
  have ok: "fields_ok w" "list_all fields_ok ws" using Cons.prems(2) by simp_all
  have found: "ccm_match (drop c content) = Some (length sep, w_msg w, caps_of w, line_end @ ccm_log ws)"
    unfolding d by (rule written_match [OF ok(1) Cons.prems(1)])
  let ?fin = "length content - length (line_end @ ccm_log ws)"
  obtain a where a: "slice content ?s ?fin = ccm_text (w_msg w) a" "drop ?fin content = line_end @ ccm_log ws"
      "?s < ?fin"
    using ccm_match_at [OF found] by blast
  have ds: "drop ?s content = ?t @ line_end @ ccm_log ws"
    using arg_cong [OF d, of "drop (length sep)"] by (simp add: add.commute)
  have "length content - ?s = length (?t @ line_end @ ccm_log ws)" using arg_cong [OF ds, of length] by (simp only: length_drop)
  then have "?s + length ?t + length (line_end @ ccm_log ws) = length content" using a(3) by simp
  then have fin: "?fin = ?s + length ?t" by linarith
  have sl: "slice content ?s ?fin = ?t" "slice content c ?s = sep" unfolding fin by (simp_all add: slice_def ds d)
  have clear: "\<not> (ambiguous content ?s (w_msg w) \<and> mode = SccmEvidence)"
    using ambiguous_iff [OF ds] Cons.prems(4) by (cases mode) simp_all
  have pieces: "ccm_pieces mode content c = Text c sep # Match ?s ?t (w_msg w) (caps_of w) # ccm_pieces mode content ?fin"
    using found clear sl by (subst ccm_pieces.simps) (simp add: Let_def)
  obtain fs where fs: "ccm_rows env starts path (ccm_pieces mode content ?fin) = List.map (\<lambda>f. (f, 0)) fs"
      "list_all2 (\<lambda>f w. \<forall>i. entry_view (r_entry (f i)) = fields_view env w \<and> is_record (f i)
           \<and> entry_id (r_entry (f i)) = of_nat i) fs ws"
      "list_all blank_piece (ccm_pieces mode content ?fin)"
    using Cons.IH [OF _ ok(2) a(2)] Cons.prems(4) by auto
  obtain p where p: "parse_captures env (w_msg w) (caps_of w) = Some p"
      "p_message p = w_msg w" "p_component p = Some (w_comp w)" "p_timestamp p = fst (written_millis env w)"
      "p_display p = snd (written_millis env w)" "p_severity p = severity_from_type_field (w_type w) (w_msg w)"
      "p_thread p = (case w_thread w of None \<Rightarrow> 0 | Some n \<Rightarrow> n)" "p_file p = w_file w"
      "p_offset p = (case w_off w of None \<Rightarrow> 0 | Some n \<Rightarrow> n)"
    using written_parsed [OF ok(1)] by blast
  let ?f = "match_row env starts path ?s ?t (w_msg w) (caps_of w)"
  have "entry_view (r_entry (?f i)) = fields_view env w \<and> is_record (?f i) \<and> entry_id (r_entry (?f i)) = of_nat i" for i
    by (simp add: match_row_def p into_logical_record_def entry_view_def fields_view_def is_record_def)
  then show ?case
    using fs pieces blank_separator [OF Cons.prems(1)] text_rows_blank
    by (intro exI [of _ "?f # fs"]) (auto simp del: blank_piece.simps(1))
qed

lemma numbered_fs: "numbered (List.map (\<lambda>f. (f, 0)) fs) = List.map (\<lambda>(i, f). f i) (enumerate 0 fs)"
  by (simp add: numbered_def enumerate_eq_zip zip_map2 comp_def case_prod_beta)

lemma list_all2_enumerate:
  "list_all2 (\<lambda>f w. \<forall>i. g (f i) = h w \<and> k (f i) = (of_nat i :: 'b :: semiring_1)) fs ws \<Longrightarrow>
   List.map g (List.map (\<lambda>(i, f). f i) (enumerate n fs)) = List.map h ws
   \<and> List.map k (List.map (\<lambda>(i, f). f i) (enumerate n fs)) = List.map of_nat [n..<n + length ws]"
proof (induction fs ws arbitrary: n rule: list_all2_induct)
  case (Cons f fs w ws)
  have "[n..<n + length (w # ws)] = n # [Suc n..<Suc n + length ws]" by (simp add: upt_conv_Cons del: upt_Suc)
  then show ?case using Cons Cons.IH [of "Suc n"] by (simp del: upt_Suc)
qed simp

text \<open>C19. A log written in the CMTrace format parses back: one entry per record in order, with the message,
  component, instant and its display, severity, thread, file and offset that were written, no parse error,
  and ids that are the positions.\<close>

theorem ccm_log_parses:
  assumes "list_all fields_ok ws"
  shows "\<exists>es. parse_content_multiline env (ccm_log ws) path = (es, 0)
    \<and> List.map entry_view es = List.map (fields_view env) ws \<and> List.map entry_id es = List.map of_nat [0..<length ws]"
proof (cases "ws = []")
  case True
  then show ?thesis
    by (simp add: ccm_log_def parse_content_multiline_def scan_rows ccm_pieces.simps str_lines_def
        ccm_parse_lines_def)
next
  case False
  let ?ps = "content_pieces PublicProjection (ccm_log ws)" and ?starts = "build_line_starts (ccm_log ws)"
  obtain fs where fs: "ccm_rows env ?starts path ?ps = List.map (\<lambda>f. (f, 0)) fs"
      "list_all2 (\<lambda>f w. \<forall>i. entry_view (r_entry (f i)) = fields_view env w \<and> is_record (f i)
           \<and> entry_id (r_entry (f i)) = of_nat i) fs ws"
      "1 < length ?ps"
    using ccm_log_rows [of PublicProjection ws "[]" 0 "ccm_log ws" env ?starts path] assms False by auto
  have all2: "list_all2 (\<lambda>f w. \<forall>i. entry_view (r_entry (f i)) = fields_view env w
      \<and> entry_id (r_entry (f i)) = of_nat i) fs ws"
    using fs(2) by (rule list_all2_mono) blast
  have "sum_list (List.map snd (List.map (\<lambda>f. (f, 0 :: nat)) fs)) = 0" by simp
  then have "parse_content_multiline env (ccm_log ws) path =
      (List.map r_entry (List.map (\<lambda>(i, f). f i) (enumerate 0 fs)), 0)"
    using fs by (simp add: parse_content_multiline_def scan_rows content_rows_def finish_build_def build_of_def
        upto_def numbered_fs comp_def)
  then show ?thesis
    using list_all2_enumerate [of "\<lambda>r. entry_view (r_entry r)" "fields_view env" "\<lambda>r. entry_id (r_entry r)" fs ws 0] all2
    by (simp add: comp_def)
qed

subsection \<open>A log of two records\<close>

definition sample_ccm :: "ccm_fields list" where
  "sample_ccm =
     [\<lparr>w_msg = ''Install [x] failed'', w_h = 10, w_m = 5, w_s = 9, w_ms = 7, w_off = Some (- 60), w_mon = 1, w_day = 2,
       w_yr = 2024, w_comp = ''AppEnforce'', w_ctx = [], w_type = Some 3, w_thread = Some 4711, w_file = Some ''a.cpp:12''\<rparr>,
      \<lparr>w_msg = ''ok'', w_h = 25, w_m = 0, w_s = 0, w_ms = 0, w_off = None, w_mon = 1, w_day = 2, w_yr = 2024,
       w_comp = [], w_ctx = ''SYSTEM'', w_type = None, w_thread = None, w_file = None\<rparr>]"

lemma sample_ccm_ok: "list_all fields_ok sample_ccm"
  by (simp add: sample_ccm_def fields_ok_def log_end_def u32_max_def dquote_def)

lemma sample_ccm_openers: "list_all (\<lambda>w. \<not> line_opener (w_msg w)) sample_ccm"
proof -
  have "prefix record_start (drop k s) \<Longrightarrow> CHR ''<'' \<in> set s" for k s
    by (auto simp: record_start_def prefix_def dest!: arg_cong [where f = set] intro: in_set_dropD)
  then have "CHR ''<'' \<notin> set s \<Longrightarrow> \<not> line_opener s" for s unfolding line_opener_def by blast
  then show ?thesis by (simp add: sample_ccm_def)
qed

theorem ccm_log_parses_witness:
  "\<exists>es. parse_content_multiline sample_env (ccm_log sample_ccm) ''c.log'' = (es, 0)
     \<and> List.map (\<lambda>e. (message e, component e)) es = [(''Install [x] failed'', Some ''AppEnforce''), (''ok'', Some [])]
     \<and> List.map (\<lambda>e. (entry_severity e, ie_thread e, ie_offset e)) es =
         [(LogError, Some 4711, Some (- 60)), (LogInfo, Some 0, Some 0)]
     \<and> List.map entry_id es = [0, 1]"
proof -
  obtain es where es: "parse_content_multiline sample_env (ccm_log sample_ccm) ''c.log'' = (es, 0)"
      "List.map entry_view es = List.map (fields_view sample_env) sample_ccm"
      "List.map entry_id es = List.map of_nat [0..<length sample_ccm]"
    using ccm_log_parses [OF sample_ccm_ok, of sample_env "''c.log''"] by blast
  have plain: "detect_severity_from_text ''ok'' = LogInfo" by code_simp
  obtain e f where ef: "es = [e, f]" using es(2) by (auto simp: sample_ccm_def)
  show ?thesis
    using es unfolding ef
    by (simp add: sample_ccm_def entry_view_def fields_view_def severity_from_type_field_def plain)
qed

theorem bounded_scan_sound_witness:
  "let b = scan_logical_records_bounded sample_env (ccm_log sample_ccm) ''c.log'' 2 in
   bs_complete b \<and> bs_records b = scan_logical_records sample_env (ccm_log sample_ccm) ''c.log''"
proof -
  let ?rows = "content_rows sample_env (ccm_log sample_ccm) ''c.log'' SccmEvidence"
  obtain fs where fs: "?rows = List.map (\<lambda>f. (f, 0)) fs" "length fs = length sample_ccm"
      "list_all blank_piece (content_pieces SccmEvidence (ccm_log sample_ccm))"
    using ccm_log_rows [of SccmEvidence sample_ccm "[]" 0 "ccm_log sample_ccm" sample_env
        "build_line_starts (ccm_log sample_ccm)" "''c.log''"] sample_ccm_ok sample_ccm_openers
    unfolding content_rows_def by (auto dest: list_all2_lengthD)
  have "\<not> bs_exceeded (scan_logical_records_bounded sample_env (ccm_log sample_ccm) ''c.log'' 2)"
    using fs(1,2)
    by (simp add: scan_logical_records_bounded_def scan_rows finish_build_def build_of_def sample_ccm_def)
  then show ?thesis
    using bounded_scan_sound [of 2 "ccm_log sample_ccm" sample_env "''c.log''"] fs(3) by (simp add: Let_def)
qed

end
