(* ===== verification/FirewallSource.thy ===== *)
theory FirewallSource
  imports FirewallStream TextScan
begin

text \<open>
  \<open>src-tauri/src/parser/firewall_source.rs\<close>: the incremental decoder of a Windows Firewall log (byte order
  marks, UTF-8, UTF-16, Windows-1252), the raw spans of its lines, and \<open>snapshot_bytes\<close>, which runs the
  decoder and the stream on a whole file. Decoded text is a list of characters, each its UTF-8 bytes. The
  table of Windows-1252 is the \<open>encoding_rs\<close> crate's: the argument \<open>w1252\<close>, one character per byte.
\<close>

subsection \<open>The decoder\<close>

datatype fw_encoding = Undetermined | Utf8 | Windows1252 | Utf16Le | Utf16Be

datatype decode_error = InvalidExplicitEncoding | NeedsWindows1252

record raw_span =
  span_line :: u32
  span_start :: nat
  span_end :: nat

record decoded =
  dc_text :: "rust_char list"
  dc_lines :: "raw_span list"

record decoder =
  dec_encoding :: fw_encoding
  explicit_bom :: bool
  carry :: string
  raw_offset :: nat
  decoded_end :: nat
  line_start :: nat
  completed_lines :: u32
  line_has_text :: bool

definition default_decoder :: decoder where
  "default_decoder =
     \<lparr>dec_encoding = Undetermined, explicit_bom = False, carry = [], raw_offset = 0, decoded_end = 0,
      line_start = 0, completed_lines = 0, line_has_text = False\<rparr>"

definition for_encoding :: "fw_encoding \<Rightarrow> decoder" where
  "for_encoding e = default_decoder\<lparr>dec_encoding := e, explicit_bom := (e \<noteq> Windows1252)\<rparr>"

definition windows1252_decoder :: decoder where
  "windows1252_decoder = default_decoder\<lparr>dec_encoding := Windows1252\<rparr>"

definition pending_bytes :: "decoder \<Rightarrow> nat" where
  "pending_bytes d = length (carry d)"

definition pending_span :: "decoder \<Rightarrow> raw_span option" where
  "pending_span d =
     (if decoded_end d > line_start d
      then Some \<lparr>span_line = sat_inc (completed_lines d), span_start = line_start d, span_end = decoded_end d\<rparr>
      else None)"

text \<open>One decoded character, which ends at the raw offset \<open>end\<close>.\<close>

definition scalar :: "rust_char \<Rightarrow> nat \<Rightarrow> decoder \<times> decoded \<Rightarrow> decoder \<times> decoded" where
  "scalar ch fin s =
     (let (d, out) = s; d = d\<lparr>decoded_end := fin\<rparr>; out = out\<lparr>dc_text := dc_text out @ [ch]\<rparr> in
      if ch = [CHR 0x00] \<and> \<not> line_has_text d then (d\<lparr>line_start := fin\<rparr>, out)
      else if ch = [CHR 0x0A] then
        (d\<lparr>completed_lines := sat_inc (completed_lines d), line_start := fin, line_has_text := False\<rparr>,
         out\<lparr>dc_lines := dc_lines out @
           [\<lparr>span_line = sat_inc (completed_lines d), span_start = line_start d, span_end = fin\<rparr>]\<rparr>)
      else (d\<lparr>line_has_text := True\<rparr>, out))"

subsection \<open>Encodings\<close>

text \<open>What the head of a text is: a character and its raw width, the beginning of one, or neither.\<close>

datatype verdict = Scalar rust_char nat | Short | Bad

abbreviation byte :: "char \<Rightarrow> nat" where "byte c \<equiv> of_char c"

text \<open>\<open>std::str::from_utf8\<close>: which bytes may follow the first one.\<close>

definition utf8_size :: "nat \<Rightarrow> nat" where
  "utf8_size b = (if b < 0x80 then 1 else if 0xC2 \<le> b \<and> b < 0xE0 then 2 else if 0xE0 \<le> b \<and> b < 0xF0 then 3
     else if 0xF0 \<le> b \<and> b < 0xF5 then 4 else 0)"

definition second_ok :: "nat \<Rightarrow> nat \<Rightarrow> bool" where
  "second_ok b c \<longleftrightarrow>
     (if b = 0xE0 then 0xA0 \<le> c \<and> c < 0xC0 else if b = 0xED then 0x80 \<le> c \<and> c < 0xA0
      else if b = 0xF0 then 0x90 \<le> c \<and> c < 0xC0 else if b = 0xF4 then 0x80 \<le> c \<and> c < 0x90
      else 0x80 \<le> c \<and> c < 0xC0)"

definition utf8_next :: "string \<Rightarrow> verdict" where
  "utf8_next s =
     (let w = utf8_size (byte (hd s)); seen = take w s in
      if w = 0 \<or> (1 < length seen \<and> \<not> second_ok (byte (hd s)) (byte (seen ! 1)))
         \<or> list_ex (\<lambda>c. \<not> is_cont c) (drop 2 seen)
      then Bad
      else if length seen < w then Short
      else Scalar seen w)"

text \<open>The UTF-8 bytes of a code point, for \<open>String::push\<close>.\<close>

definition utf8_bytes :: "nat \<Rightarrow> rust_char" where
  "utf8_bytes n = List.map char_of
     (if n < 0x80 then [n]
      else if n < 0x800 then [0xC0 + n div 64, 0x80 + n mod 64]
      else if n < 0x10000 then [0xE0 + n div 4096, 0x80 + n div 64 mod 64, 0x80 + n mod 64]
      else [0xF0 + n div 262144, 0x80 + n div 4096 mod 64, 0x80 + n div 64 mod 64, 0x80 + n mod 64])"

definition unit_at :: "bool \<Rightarrow> string \<Rightarrow> nat \<Rightarrow> nat" where
  "unit_at le s i =
     (if le then byte (s ! i) + 256 * byte (s ! (i + 1)) else 256 * byte (s ! i) + byte (s ! (i + 1)))"

definition utf16_next :: "bool \<Rightarrow> string \<Rightarrow> verdict" where
  "utf16_next le s =
     (if length s < 2 then Short
      else
        (let first = unit_at le s 0; width = (if 0xD800 \<le> first \<and> first < 0xDC00 then 4 else 2) in
         if width > length s then Short
         else if width = 4 then
           (let second = unit_at le s 2 in
            if 0xDC00 \<le> second \<and> second < 0xE000
            then Scalar (utf8_bytes (0x10000 + (first - 0xD800) * 0x400 + (second - 0xDC00))) 4 else Bad)
         else if 0xDC00 \<le> first \<and> first < 0xE000 then Bad
         else Scalar (utf8_bytes first) 2))"

definition next_scalar :: "(char \<Rightarrow> rust_char) \<Rightarrow> fw_encoding \<Rightarrow> string \<Rightarrow> verdict" where
  "next_scalar w1252 e s =
     (case e of
        Utf16Le \<Rightarrow> utf16_next True s
      | Utf16Be \<Rightarrow> utf16_next False s
      | Windows1252 \<Rightarrow> Scalar (w1252 (hd s)) 1
      | _ \<Rightarrow> utf8_next s)"

lemma next_scalar_width: "next_scalar w1252 e s = Scalar ch n \<Longrightarrow> 0 < n"
  by (auto simp: next_scalar_def utf16_next_def utf8_next_def Let_def split: fw_encoding.splits if_splits)

text \<open>Characters and their raw ends, and the bytes of an unfinished one; \<open>None\<close> is malformed input.\<close>

function decode_loop ::
  "(char \<Rightarrow> rust_char) \<Rightarrow> fw_encoding \<Rightarrow> nat \<Rightarrow> string \<Rightarrow> ((rust_char \<times> nat) list \<times> string) option" where
  "decode_loop w1252 e off s =
     (if s = [] then Some ([], [])
      else
        (case next_scalar w1252 e s of
           Bad \<Rightarrow> None
         | Short \<Rightarrow> Some ([], s)
         | Scalar ch n \<Rightarrow>
             map_option (\<lambda>(cs, rest). ((ch, off + n) # cs, rest)) (decode_loop w1252 e (off + n) (drop n s))))"
  by pat_completeness auto
termination
  by (relation "measure (\<lambda>(_, _, _, s). length s)") (auto dest: next_scalar_width)

declare decode_loop.simps [simp del]

subsection \<open>Pushing bytes\<close>

definition boms :: "(string \<times> fw_encoding) list" where
  "boms = [([CHR 0xEF, CHR 0xBB, CHR 0xBF], Utf8), ([CHR 0xFF, CHR 0xFE], Utf16Le), ([CHR 0xFE, CHR 0xFF], Utf16Be)]"

text \<open>The encoding of a source whose encoding is not known yet: none when more bytes are needed, else the
  state and how many bytes of the data were a mark.\<close>

definition detect_bom :: "string \<Rightarrow> nat \<Rightarrow> decoder \<Rightarrow> (decoder \<times> nat) option" where
  "detect_bom data base d =
     (case List.find (\<lambda>(bom, _). prefix bom data) boms of
        Some (bom, e) \<Rightarrow>
          Some (d\<lparr>dec_encoding := e, explicit_bom := True, line_start := base + length bom,
                  decoded_end := base + length bom\<rparr>, length bom)
      | None \<Rightarrow> if list_ex (\<lambda>(bom, _). prefix data bom) boms then None
                else Some (d\<lparr>dec_encoding := Utf8\<rparr>, 0))"

definition empty_decoded :: decoded where
  "empty_decoded = \<lparr>dc_text = [], dc_lines = []\<rparr>"

definition decode_rest ::
  "(char \<Rightarrow> rust_char) \<Rightarrow> string \<Rightarrow> nat \<Rightarrow> decoder \<times> nat \<Rightarrow> decode_error + (decoder \<times> decoded)" where
  "decode_rest w1252 data base s =
     (let (d, start) = s in
      case decode_loop w1252 (dec_encoding d) (base + start) (drop start data) of
        None \<Rightarrow> Inl (if dec_encoding d = Utf8 \<and> \<not> explicit_bom d then NeedsWindows1252 else InvalidExplicitEncoding)
      | Some (cs, rest) \<Rightarrow>
          (let (d, out) = fold (\<lambda>(ch, fin). scalar ch fin) cs (d, empty_decoded)
           in Inr (d\<lparr>carry := rest\<rparr>, out)))"

definition decode :: "(char \<Rightarrow> rust_char) \<Rightarrow> string \<Rightarrow> decoder \<Rightarrow> decode_error + (decoder \<times> decoded)" where
  "decode w1252 bytes d =
     (let base = raw_offset d - length (carry d);
          data = carry d @ bytes;
          d = d\<lparr>raw_offset := raw_offset d + length bytes, carry := []\<rparr>
      in if dec_encoding d = Undetermined then
           (if data = [] then Inr (d, empty_decoded)
            else (case detect_bom data base d of
                    None \<Rightarrow> Inr (d\<lparr>carry := data\<rparr>, empty_decoded)
                  | Some s \<Rightarrow> decode_rest w1252 data base s))
         else decode_rest w1252 data base (d, 0))"

text \<open>\<open>push\<close>: nothing is committed on an error, so the state is part of the result only on success.\<close>

definition push_bytes :: "(char \<Rightarrow> rust_char) \<Rightarrow> string \<Rightarrow> decoder \<Rightarrow> decoder \<times> (decode_error + decoded)" where
  "push_bytes w1252 bytes d =
     (case decode w1252 bytes d of
        Inl e \<Rightarrow> (d, Inl e)
      | Inr (d', out) \<Rightarrow> (d', Inr out))"

subsection \<open>Snapshots\<close>

record snapshot =
  sn_entries :: "row list"
  sn_total_lines :: u32
  sn_parse_errors :: nat
  sn_byte_offset :: nat
  sn_coverage :: coverage
  sn_decoder :: decoder
  sn_stream :: stream
  sn_spans :: "raw_span list"
  sn_changes :: "context_change list"

definition snapshot_bytes ::
  "fw_env \<Rightarrow> (char \<Rightarrow> rust_char) \<Rightarrow> string \<Rightarrow> string \<Rightarrow> u64 \<Rightarrow> bool \<Rightarrow> decode_error + snapshot" where
  "snapshot_bytes env w1252 bytes path i force_windows1252 =
     (let (d, pushed) = push_bytes w1252 bytes (if force_windows1252 then windows1252_decoder else default_decoder);
          (d, pushed) = (if pushed = Inl NeedsWindows1252 then push_bytes w1252 bytes windows1252_decoder
                         else (d, pushed))
      in bind_res pushed (\<lambda>decoded.
           let (st, delta) = push_text env path (dc_text decoded) (new_stream i 1);
               entries = apply_delta delta [];
               (st, fin) = snapshot_eof env path st
           in Inr \<lparr>sn_entries = apply_delta fin entries, sn_total_lines = observed_through fin,
                   sn_parse_errors = parse_errors (delta_coverage fin), sn_byte_offset = raw_offset d,
                   sn_coverage = delta_coverage fin, sn_decoder = d, sn_stream = st,
                   sn_spans = dc_lines decoded @ opt_list (pending_span d), sn_changes = context_changes delta\<rparr>))"

end
