(* ===== verification/FirewallTail.thy ===== *)
theory FirewallTail
  imports FirewallSource
begin

text \<open>
  \<open>src-tauri/src/watcher/firewall.rs\<close>, \<open>fs_identity.rs\<close> and the tail control of \<open>commands/parsing.rs\<close>: who owns
  the continuation of an open firewall source, the control tokens that start, pause and stop its watchers, a
  read of what was appended, and the commit of a read. A file is what opening it gave: its identity, its
  length, and its two kinds of read, each of which may fail; \<open>None\<close> is a file that does not open.
\<close>

subsection \<open>Data\<close>

record control_token =
  source_session_id :: string
  watch_epoch :: u64

datatype start_admission = Started | Current | Rejected

datatype transition = Generation | ToWindows1252

datatype decoding_kind = Ready | PendingText | Gap

datatype gap_reason = ReadFailed | InvalidEncoding | GenerationUnverifiable

record decoding_status =
  ds_kind :: decoding_kind
  ds_pending :: u8
  ds_reason :: "gap_reason option"

definition from_decoder :: "decoder \<Rightarrow> decoding_status" where
  "from_decoder d =
     \<lparr>ds_kind = (if pending_bytes d = 0 then Ready else PendingText), ds_pending = of_nat (pending_bytes d),
      ds_reason = None\<rparr>"

record 'id checkpoint =
  cp_decoder :: decoder
  cp_stream :: stream
  cp_identity :: "'id option"

record 'id owner =
  session_id :: string
  ow_checkpoint :: "'id checkpoint"
  ow_pending :: "transition option"
  ow_decoding :: decoding_status
  ow_epoch :: u64
  ow_revision :: u64
  ow_active :: bool
  ow_paused :: bool

record 'id read_request =
  rq_revision :: u64
  rq_checkpoint :: "'id checkpoint"
  rq_pending :: "transition option"

record batch =
  bt_entries :: "row list"
  bt_replacements :: "replacement list"
  bt_coverage :: coverage
  bt_observed :: u32
  bt_reset :: bool
  bt_decoding :: decoding_status

record 'id outcome =
  oc_checkpoint :: "'id checkpoint option"
  oc_pending :: "transition option"
  oc_batch :: batch
  oc_changed :: bool

subsection \<open>The owner\<close>

text \<open>The session id is a fresh UUID.\<close>

definition new_owner :: "string \<Rightarrow> snapshot \<Rightarrow> 'id option \<Rightarrow> 'id owner" where
  "new_owner uuid s identity =
     \<lparr>session_id = uuid,
      ow_checkpoint = \<lparr>cp_decoder = sn_decoder s, cp_stream = sn_stream s, cp_identity = identity\<rparr>,
      ow_pending = None, ow_decoding = from_decoder (sn_decoder s), ow_epoch = 0, ow_revision = 0,
      ow_active = False, ow_paused = False\<rparr>"

definition same_session :: "'id owner \<Rightarrow> control_token \<Rightarrow> bool" where
  "same_session ow t \<longleftrightarrow>
     source_session_id t = session_id ow \<and> watch_epoch t > 0 \<and> watch_epoch t \<le> 9007199254740991"

definition is_current :: "'id owner \<Rightarrow> control_token \<Rightarrow> bool" where
  "is_current ow t \<longleftrightarrow> same_session ow t \<and> watch_epoch t = ow_epoch ow \<and> ow_active ow"

definition start :: "control_token option \<Rightarrow> 'id owner \<Rightarrow> 'id owner \<times> start_admission" where
  "start token ow =
     (case token of
        None \<Rightarrow> (ow, Rejected)
      | Some t \<Rightarrow>
          if \<not> same_session ow t then (ow, Rejected)
          else if watch_epoch t < ow_epoch ow then (ow, Rejected)
          else if watch_epoch t = ow_epoch ow then (ow, if ow_active ow then Current else Rejected)
          else (ow\<lparr>ow_epoch := watch_epoch t, ow_revision := ow_revision ow + 1, ow_active := True,
                   ow_paused := False\<rparr>, Started))"

definition stop :: "control_token option \<Rightarrow> 'id owner \<Rightarrow> 'id owner \<times> bool" where
  "stop token ow =
     (case token of
        None \<Rightarrow> (ow, False)
      | Some t \<Rightarrow>
          if same_session ow t \<and> watch_epoch t \<ge> ow_epoch ow
          then (ow\<lparr>ow_epoch := watch_epoch t, ow_revision := ow_revision ow + 1, ow_active := False\<rparr>, True)
          else (ow, False))"

definition set_paused :: "control_token option \<Rightarrow> bool \<Rightarrow> 'id owner \<Rightarrow> 'id owner \<times> bool" where
  "set_paused token paused ow =
     (case token of
        None \<Rightarrow> (ow, False)
      | Some t \<Rightarrow>
          if is_current ow t then (ow\<lparr>ow_paused := paused, ow_revision := ow_revision ow + 1\<rparr>, True)
          else (ow, False))"

definition request :: "control_token \<Rightarrow> 'id owner \<Rightarrow> 'id read_request option" where
  "request t ow =
     (if is_current ow t \<and> \<not> ow_paused ow
      then Some \<lparr>rq_revision = ow_revision ow, rq_checkpoint = ow_checkpoint ow, rq_pending = ow_pending ow\<rparr>
      else None)"

text \<open>The new owner, whether the outcome was committed, and the batch that was published.\<close>

definition commit ::
  "control_token \<Rightarrow> u64 \<Rightarrow> 'id outcome \<Rightarrow> 'id owner \<Rightarrow> 'id owner \<times> bool \<times> batch option" where
  "commit t revision oc ow =
     (if \<not> is_current ow t \<or> ow_paused ow \<or> revision \<noteq> ow_revision ow then (ow, False, None)
      else
        (let cp = (case oc_checkpoint oc of Some c \<Rightarrow> c | None \<Rightarrow> ow_checkpoint ow);
             report = (oc_changed oc \<or> bt_decoding (oc_batch oc) \<noteq> ow_decoding ow)
         in (ow\<lparr>ow_checkpoint := cp, ow_pending := oc_pending oc, ow_revision := ow_revision ow + 1,
                ow_decoding := bt_decoding (oc_batch oc)\<rparr>,
             True, if report then Some (oc_batch oc) else None)))"

subsection \<open>Reading\<close>

definition identities_differ :: "'id option \<Rightarrow> 'id option \<Rightarrow> bool" where
  "identities_differ previous current =
     (case (previous, current) of (Some l, Some r) \<Rightarrow> l \<noteq> r | _ \<Rightarrow> False)"

record 'id tail_file =
  tf_identity :: "'id option"
  tf_length :: nat
  tf_chunk :: "nat \<Rightarrow> nat \<Rightarrow> string option"
  tf_whole :: "string option"

definition read_chunk_bytes :: nat where "read_chunk_bytes = 65536"

definition gap_outcome ::
  "fw_env \<Rightarrow> string \<Rightarrow> 'id read_request \<Rightarrow> transition option \<Rightarrow> gap_reason \<Rightarrow> 'id outcome" where
  "gap_outcome env path rq due reason =
     (let (st, delta) = push_text env path [] (cp_stream (rq_checkpoint rq)) in
      \<lparr>oc_checkpoint = None, oc_pending = due,
       oc_batch =
         \<lparr>bt_entries = [], bt_replacements = [], bt_coverage = stream_coverage st,
          bt_observed = observed_through delta, bt_reset = False,
          bt_decoding = \<lparr>ds_kind = Gap, ds_pending = of_nat (pending_bytes (cp_decoder (rq_checkpoint rq))),
                         ds_reason = Some reason\<rparr>\<rparr>,
       oc_changed = False\<rparr>)"

text \<open>The whole file again: another generation, or a source that turned out to be Windows-1252.\<close>

definition read_again ::
  "fw_env \<Rightarrow> (char \<Rightarrow> rust_char) \<Rightarrow> string \<Rightarrow> 'id read_request \<Rightarrow> 'id tail_file \<Rightarrow> transition option
     \<Rightarrow> gap_reason + 'id outcome" where
  "read_again env w1252 path rq f due =
     (let force = (due = Some ToWindows1252) in
      if force \<and> (tf_identity f = None \<or> tf_identity f \<noteq> cp_identity (rq_checkpoint rq))
      then Inl GenerationUnverifiable
      else
        (case tf_whole f of
           None \<Rightarrow> Inl ReadFailed
         | Some bytes \<Rightarrow>
             (case snapshot_bytes env w1252 bytes path (next_id (cp_stream (rq_checkpoint rq))) force of
                Inl _ \<Rightarrow> Inl InvalidEncoding
              | Inr s \<Rightarrow>
                  Inr \<lparr>oc_checkpoint = Some \<lparr>cp_decoder = sn_decoder s, cp_stream = sn_stream s,
                                            cp_identity = tf_identity f\<rparr>,
                       oc_pending = None,
                       oc_batch = \<lparr>bt_entries = sn_entries s, bt_replacements = [], bt_coverage = sn_coverage s,
                                   bt_observed = sn_total_lines s, bt_reset = True,
                                   bt_decoding = from_decoder (sn_decoder s)\<rparr>,
                       oc_changed = True\<rparr>)))"

text \<open>The result, and the transition that is due from now on when it is a gap.\<close>

definition read_opened ::
  "fw_env \<Rightarrow> (char \<Rightarrow> rust_char) \<Rightarrow> string \<Rightarrow> 'id read_request \<Rightarrow> 'id tail_file \<Rightarrow> transition option
     \<Rightarrow> transition option \<times> (gap_reason + 'id outcome)" where
  "read_opened env w1252 path rq f due =
     (let cp = rq_checkpoint rq in
      if due \<noteq> None then (due, read_again env w1252 path rq f due)
      else
        (case tf_chunk f (raw_offset (cp_decoder cp)) read_chunk_bytes of
           None \<Rightarrow> (due, Inl ReadFailed)
         | Some bytes \<Rightarrow>
             (case push_bytes w1252 bytes (cp_decoder cp) of
                (_, Inl NeedsWindows1252) \<Rightarrow>
                  (Some ToWindows1252, read_again env w1252 path rq f (Some ToWindows1252))
              | (_, Inl InvalidExplicitEncoding) \<Rightarrow> (due, Inl InvalidEncoding)
              | (d, Inr decoded) \<Rightarrow>
                  (let (st, delta) = push_text env path (dc_text decoded) (cp_stream cp) in
                   (None,
                    Inr \<lparr>oc_checkpoint = Some (cp\<lparr>cp_decoder := d, cp_stream := st\<rparr>), oc_pending = None,
                         oc_batch = \<lparr>bt_entries = new_entries delta, bt_replacements = replacements delta,
                                     bt_coverage = delta_coverage delta, bt_observed = observed_through delta,
                                     bt_reset = False, bt_decoding = from_decoder d\<rparr>,
                         oc_changed = (bytes \<noteq> [])\<rparr>)))))"

definition read_candidate ::
  "fw_env \<Rightarrow> (char \<Rightarrow> rust_char) \<Rightarrow> string \<Rightarrow> 'id read_request \<Rightarrow> 'id tail_file option \<Rightarrow> 'id outcome" where
  "read_candidate env w1252 path rq opened =
     (case opened of
        None \<Rightarrow> gap_outcome env path rq (rq_pending rq) ReadFailed
      | Some f \<Rightarrow>
          (let cp = rq_checkpoint rq;
               due = (if identities_differ (cp_identity cp) (tf_identity f)
                             \<or> tf_length f < raw_offset (cp_decoder cp)
                          then Some Generation else rq_pending rq)
           in case read_opened env w1252 path rq f due of
                (_, Inr oc) \<Rightarrow> oc
              | (p, Inl reason) \<Rightarrow> gap_outcome env path rq p reason))"

subsection \<open>Open files and sessions\<close>

text \<open>The parts of \<open>OpenFile\<close> a firewall source uses; \<open>op_is_firewall\<close> says that its parser is the firewall
  parser. What else an ordinary tail starts from is not part of this model.\<close>

record 'id open_file =
  op_firewall :: "'id owner option"
  op_is_firewall :: bool
  op_byte_offset :: nat
  op_identity :: "'id option"

type_synonym 'id open_files = "string \<Rightarrow> 'id open_file option"

definition commit_current ::
  "string \<Rightarrow> control_token \<Rightarrow> u64 \<Rightarrow> 'id outcome \<Rightarrow> 'id open_files \<Rightarrow> 'id open_files \<times> bool \<times> batch option" where
  "commit_current path t revision oc files =
     (case files path of
        None \<Rightarrow> (files, False, None)
      | Some file \<Rightarrow>
          (case op_firewall file of
             None \<Rightarrow> (files, False, None)
           | Some ow \<Rightarrow>
               (let (ow', committed, published) = commit t revision oc ow;
                    file' = file\<lparr>op_firewall := Some ow'\<rparr>;
                    file' = (if committed
                             then file'\<lparr>op_byte_offset := raw_offset (cp_decoder (ow_checkpoint ow')),
                                        op_identity := cp_identity (ow_checkpoint ow')\<rparr>
                             else file')
                in (files(path \<mapsto> file'), committed, published))))"

text \<open>A session handle shares its flags with its worker, so sessions are named by number and their flags are
  kept beside them.\<close>

record tail_flags =
  fl_stop :: bool
  fl_paused :: bool

record 'id tail_state =
  ts_files :: "'id open_files"
  ts_sessions :: "string \<Rightarrow> nat option"
  ts_flags :: "nat \<Rightarrow> tail_flags"
  ts_next :: nat

datatype tail_launch = Ordinary | FirewallLaunch

datatype tail_error = NotOpen | ContinuationUnavailable | LaunchFailed

definition launch_session :: "'id tail_state \<Rightarrow> nat \<times> 'id tail_state" where
  "launch_session ts =
     (ts_next ts,
      ts\<lparr>ts_flags := (ts_flags ts)(ts_next ts := \<lparr>fl_stop = False, fl_paused = False\<rparr>), ts_next := ts_next ts + 1\<rparr>)"

definition stop_session :: "nat \<Rightarrow> 'id tail_state \<Rightarrow> 'id tail_state" where
  "stop_session n ts = ts\<lparr>ts_flags := (ts_flags ts)(n := (ts_flags ts n)\<lparr>fl_stop := True\<rparr>)\<rparr>"

text \<open>\<open>launches\<close> says whether the worker thread can be spawned.\<close>

definition launch_tail ::
  "string \<Rightarrow> control_token option \<Rightarrow> bool \<Rightarrow> tail_launch \<Rightarrow> 'id tail_state
     \<Rightarrow> 'id tail_state \<times> (tail_error + tail_launch option)" where
  "launch_tail path control launches kind ts =
     (if launches then
        (let old = ts_sessions ts path;
             (n, ts) = launch_session ts;
             ts = ts\<lparr>ts_sessions := (ts_sessions ts)(path \<mapsto> n)\<rparr>
         in (case old of None \<Rightarrow> ts | Some m \<Rightarrow> stop_session m ts, Inr (Some kind)))
      else
        (let undo = (\<lambda>opened. opened\<lparr>op_firewall := map_option (\<lambda>ow. fst (stop control ow)) (op_firewall opened)\<rparr>)
         in (ts\<lparr>ts_files := (ts_files ts)(path := map_option undo (ts_files ts path))\<rparr>, Inl LaunchFailed)))"

definition admit_tail_start ::
  "string \<Rightarrow> control_token option \<Rightarrow> bool \<Rightarrow> 'id tail_state \<Rightarrow> 'id tail_state \<times> (tail_error + tail_launch option)" where
  "admit_tail_start path control launches ts =
     (case ts_files ts path of
        None \<Rightarrow> (ts, Inl NotOpen)
      | Some opened \<Rightarrow>
          (case op_firewall opened of
             Some ow \<Rightarrow>
               (let (ow', admission) = start control ow;
                    ts = ts\<lparr>ts_files := (ts_files ts)(path \<mapsto> opened\<lparr>op_firewall := Some ow'\<rparr>)\<rparr>
                in if admission \<noteq> Started then (ts, Inr None) else launch_tail path control launches FirewallLaunch ts)
           | None \<Rightarrow>
               if control \<noteq> None then (ts, Inr None)
               else if op_is_firewall opened then (ts, Inl ContinuationUnavailable)
               else launch_tail path control launches Ordinary ts))"

datatype tail_control = StopTail | PauseTail | ResumeTail

definition control_owner :: "control_token option \<Rightarrow> tail_control \<Rightarrow> 'id owner \<Rightarrow> 'id owner \<times> bool" where
  "control_owner control action ow =
     (case action of
        StopTail \<Rightarrow> stop control ow
      | PauseTail \<Rightarrow> set_paused control True ow
      | ResumeTail \<Rightarrow> set_paused control False ow)"

definition control_sessions :: "string \<Rightarrow> tail_control \<Rightarrow> 'id tail_state \<Rightarrow> 'id tail_state" where
  "control_sessions path action ts =
     (case ts_sessions ts path of
        None \<Rightarrow> ts
      | Some n \<Rightarrow>
          (case action of
             StopTail \<Rightarrow> stop_session n (ts\<lparr>ts_sessions := (ts_sessions ts)(path := None)\<rparr>)
           | _ \<Rightarrow> ts\<lparr>ts_flags := (ts_flags ts)(n := (ts_flags ts n)\<lparr>fl_paused := (action = PauseTail)\<rparr>)\<rparr>))"

definition control_tail ::
  "string \<Rightarrow> control_token option \<Rightarrow> tail_control \<Rightarrow> 'id tail_state \<Rightarrow> 'id tail_state" where
  "control_tail path control action ts =
     (case ts_files ts path of
        Some opened \<Rightarrow>
          (case op_firewall opened of
             Some ow \<Rightarrow>
               (let (ow', accepted) = control_owner control action ow;
                    ts = ts\<lparr>ts_files := (ts_files ts)(path \<mapsto> opened\<lparr>op_firewall := Some ow'\<rparr>)\<rparr>
                in if accepted then control_sessions path action ts else ts)
           | None \<Rightarrow> if control \<noteq> None then ts else control_sessions path action ts)
      | None \<Rightarrow> if control \<noteq> None then ts else control_sessions path action ts)"

subsection \<open>The watcher\<close>

text \<open>One turn of a worker: it asks for a request under the lock, reads outside it, and commits under it.\<close>

datatype 'id phase = Polling | Reading "'id read_request" | Committing u64 "'id outcome" | Exited

definition ask_phase :: "bool \<Rightarrow> control_token \<Rightarrow> 'id owner option \<Rightarrow> 'id phase" where
  "ask_phase stopped t ow =
     (if stopped then Exited
      else
        (case ow of
           None \<Rightarrow> Exited
         | Some ow \<Rightarrow>
             if \<not> is_current ow t then Exited
             else (case request t ow of None \<Rightarrow> Polling | Some rq \<Rightarrow> Reading rq)))"

definition read_phase ::
  "fw_env \<Rightarrow> (char \<Rightarrow> rust_char) \<Rightarrow> string \<Rightarrow> 'id read_request \<Rightarrow> 'id tail_file option \<Rightarrow> 'id phase" where
  "read_phase env w1252 path rq opened = Committing (rq_revision rq) (read_candidate env w1252 path rq opened)"

end
