(* ===== verification/FirewallFence.thy ===== *)
theory FirewallFence
  imports FirewallTail
begin

text \<open>
  The watchers of one firewall source, in any interleaving with the commands that start, pause and stop them:
  what is committed and published is what one reader would have committed, reading again and again.
\<close>

subsection \<open>One reader\<close>

text \<open>A reader at work: its checkpoint, the pending transition and the decoding status.\<close>

type_synonym 'id reader = "'id checkpoint \<times> transition option \<times> decoding_status"

definition read_once ::
  "fw_env \<Rightarrow> (char \<Rightarrow> rust_char) \<Rightarrow> string \<Rightarrow> 'id tail_file option \<Rightarrow> 'id reader \<Rightarrow> 'id outcome" where
  "read_once env w path opened r =
     (case r of (cp, due, status) \<Rightarrow>
        read_candidate env w path \<lparr>rq_revision = 0, rq_checkpoint = cp, rq_pending = due\<rparr> opened)"

definition take_outcome :: "'id outcome \<Rightarrow> 'id reader \<Rightarrow> 'id reader \<times> batch list" where
  "take_outcome oc r =
     (case r of (cp, due, status) \<Rightarrow>
        ((case oc_checkpoint oc of Some c \<Rightarrow> c | None \<Rightarrow> cp, oc_pending oc, bt_decoding (oc_batch oc)),
         if oc_changed oc \<or> bt_decoding (oc_batch oc) \<noteq> status then [oc_batch oc] else []))"

fun follow ::
  "fw_env \<Rightarrow> (char \<Rightarrow> rust_char) \<Rightarrow> string \<Rightarrow> 'id tail_file option list \<Rightarrow> 'id reader \<Rightarrow> 'id reader \<times> batch list" where
  "follow env w path [] r = (r, [])"
| "follow env w path (f # fs) r =
     (let (r1, bs) = take_outcome (read_once env w path f r) r; (r2, cs) = follow env w path fs r1 in (r2, bs @ cs))"

lemma follow_snoc:
  "follow env w path (fs @ [f]) r =
     (let (r1, bs) = follow env w path fs r; (r2, cs) = take_outcome (read_once env w path f r1) r1 in (r2, bs @ cs))"
  by (induction fs arbitrary: r) (simp_all add: Let_def split: prod.splits)

definition reader_of :: "'id owner \<Rightarrow> 'id reader" where
  "reader_of ow = (ow_checkpoint ow, ow_pending ow, ow_decoding ow)"

text \<open>What a read does depends on the request's checkpoint and transition only.\<close>

lemma read_candidate_revision:
  "read_candidate env w path rq f =
     read_once env w path f (rq_checkpoint rq, rq_pending rq, status)"
proof -
  define q where "q = \<lparr>rq_revision = 0, rq_checkpoint = rq_checkpoint rq, rq_pending = rq_pending rq\<rparr>"
  have q: "rq_checkpoint rq = rq_checkpoint q" "rq_pending rq = rq_pending q" by (simp_all add: q_def)
  have "read_candidate env w path rq f = read_candidate env w path q f"
    unfolding read_candidate_def read_opened_def read_again_def gap_outcome_def q ..
  then show ?thesis by (simp add: read_once_def q_def)
qed

lemma commit_reader:
  "commit t revision oc ow = (ow', True, pub) \<Longrightarrow>
     take_outcome oc (reader_of ow) = (reader_of ow', opt_list pub)
     \<and> ow_revision ow' = ow_revision ow + 1 \<and> revision = ow_revision ow
     \<and> is_current ow t \<and> \<not> ow_paused ow"
  by (auto simp: commit_def take_outcome_def reader_of_def Let_def split: if_splits option.splits)

lemma commit_refused: "commit t revision oc ow = (ow', False, pub) \<Longrightarrow> ow' = ow \<and> pub = None"
  by (auto simp: commit_def Let_def split: if_splits)

subsection \<open>The system\<close>

text \<open>\<open>disk n\<close> is what opening the path gives at time \<open>n\<close>; a read takes time.\<close>

record 'id worker =
  wk_token :: control_token
  wk_phase :: "'id phase"

record 'id system =
  sy_owner :: "'id owner"
  sy_workers :: "'id worker list"
  sy_now :: nat
  sy_batches :: "batch list"

definition in_phase :: "'id system \<Rightarrow> nat \<Rightarrow> 'id phase \<Rightarrow> bool" where
  "in_phase s i p \<longleftrightarrow> i < length (sy_workers s) \<and> wk_phase (sy_workers s ! i) = p"

definition to_phase :: "nat \<Rightarrow> 'id phase \<Rightarrow> 'id system \<Rightarrow> 'id system" where
  "to_phase i p s = s\<lparr>sy_workers := (sy_workers s)[i := (sy_workers s ! i)\<lparr>wk_phase := p\<rparr>]\<rparr>"

inductive tail_step ::
  "fw_env \<Rightarrow> (char \<Rightarrow> rust_char) \<Rightarrow> string \<Rightarrow> (nat \<Rightarrow> 'id tail_file option) \<Rightarrow> 'id system \<Rightarrow> 'id system \<Rightarrow> bool"
  for env w path disk where
  Begin: "start (Some t) (sy_owner s) = (ow, Started) \<Longrightarrow>
    tail_step env w path disk s
      (s\<lparr>sy_owner := ow, sy_workers := sy_workers s @ [\<lparr>wk_token = t, wk_phase = Polling\<rparr>]\<rparr>)"
| Refuse: "start c (sy_owner s) = (ow, a) \<Longrightarrow> a \<noteq> Started \<Longrightarrow> tail_step env w path disk s (s\<lparr>sy_owner := ow\<rparr>)"
| NoThread: "start c (sy_owner s) = (ow, Started) \<Longrightarrow>
    tail_step env w path disk s (s\<lparr>sy_owner := fst (stop c ow)\<rparr>)"
| Control: "control_owner c action (sy_owner s) = (ow, a) \<Longrightarrow> tail_step env w path disk s (s\<lparr>sy_owner := ow\<rparr>)"
| Tick: "tail_step env w path disk s (s\<lparr>sy_now := sy_now s + 1\<rparr>)"
| Ask: "in_phase s i Polling \<Longrightarrow>
    tail_step env w path disk s
      (to_phase i (ask_phase stopped (wk_token (sy_workers s ! i)) (Some (sy_owner s))) s)"
| Read: "in_phase s i (Reading rq) \<Longrightarrow>
    tail_step env w path disk s (to_phase i (read_phase env w path rq (disk (sy_now s))) (s\<lparr>sy_now := sy_now s + 1\<rparr>))"
| Commit: "in_phase s i (Committing rv oc) \<Longrightarrow>
    commit (wk_token (sy_workers s ! i)) rv oc (sy_owner s) = (ow, ok, pub) \<Longrightarrow>
    tail_step env w path disk s
      (to_phase i Polling (s\<lparr>sy_owner := ow, sy_batches := sy_batches s @ opt_list pub\<rparr>))"

inductive tail_run ::
  "fw_env \<Rightarrow> (char \<Rightarrow> rust_char) \<Rightarrow> string \<Rightarrow> (nat \<Rightarrow> 'id tail_file option) \<Rightarrow> 'id owner \<Rightarrow> nat \<Rightarrow> 'id system \<Rightarrow> bool"
  for env w path disk ow where
  Idle: "tail_run env w path disk ow 0 \<lparr>sy_owner = ow, sy_workers = [], sy_now = 0, sy_batches = []\<rparr>"
| Step: "tail_run env w path disk ow n s \<Longrightarrow> tail_step env w path disk s s' \<Longrightarrow> tail_run env w path disk ow (n + 1) s'"

subsection \<open>The revision is a fence\<close>

definition phase_ok ::
  "fw_env \<Rightarrow> (char \<Rightarrow> rust_char) \<Rightarrow> string \<Rightarrow> (nat \<Rightarrow> 'id tail_file option) \<Rightarrow> nat list \<Rightarrow> 'id owner \<Rightarrow> nat
     \<Rightarrow> 'id phase \<Rightarrow> bool" where
  "phase_ok env w path disk ts ow now p =
     (case p of
        Reading rq \<Rightarrow>
          rq_revision rq \<le> ow_revision ow
          \<and> (rq_revision rq = ow_revision ow \<longrightarrow> rq_checkpoint rq = ow_checkpoint ow \<and> rq_pending rq = ow_pending ow)
      | Committing rv oc \<Rightarrow>
          rv \<le> ow_revision ow
          \<and> (rv = ow_revision ow \<longrightarrow>
               (\<exists>t < now. (\<forall>u \<in> set ts. u < t) \<and> oc = read_once env w path (disk t) (reader_of ow)))
      | _ \<Rightarrow> True)"

lemma phase_ok_simps [simp]:
  "phase_ok env w path disk ts ow now Polling" "phase_ok env w path disk ts ow now Exited"
  by (simp_all add: phase_ok_def)

lemma phase_ok_bump:
  "phase_ok env w path disk ts ow now p \<Longrightarrow> ow_revision ow < ow_revision ow' \<Longrightarrow> phase_ok env w path disk ts' ow' now' p"
  by (auto simp: phase_ok_def split: phase.splits)

lemma phase_ok_later:
  "phase_ok env w path disk ts ow now p \<Longrightarrow> now \<le> now' \<Longrightarrow> phase_ok env w path disk ts ow now' p"
  by (auto simp: phase_ok_def split: phase.splits intro: less_le_trans)

lemma bump: "unat r < 2 ^ 64 - 1 \<Longrightarrow> r < r + 1 \<and> unat (r + 1) = unat r + 1" for r :: u64
proof -
  assume "unat r < 2 ^ 64 - 1"
  then have "unat (r + 1) = unat r + 1" by (simp add: unat_word_ariths)
  then show ?thesis by (simp add: word_less_nat_alt)
qed

text \<open>A control command leaves the owner alone, or changes its revision and nothing a reader sees.\<close>

definition controlled :: "'id owner \<Rightarrow> 'id owner \<Rightarrow> bool" where
  "controlled ow ow' \<longleftrightarrow> ow' = ow \<or> reader_of ow' = reader_of ow \<and> ow_revision ow' = ow_revision ow + 1"

lemma controls:
  "controlled ow (fst (start c ow))" "controlled ow (fst (stop c ow))" "controlled ow (fst (set_paused c b ow))"
  "controlled ow (fst (control_owner c action ow))"
  by (auto simp: controlled_def start_def stop_def set_paused_def control_owner_def reader_of_def split: option.splits tail_control.splits)

definition fenced ::
  "fw_env \<Rightarrow> (char \<Rightarrow> rust_char) \<Rightarrow> string \<Rightarrow> (nat \<Rightarrow> 'id tail_file option) \<Rightarrow> 'id reader \<Rightarrow> nat \<Rightarrow> 'id system \<Rightarrow> bool" where
  "fenced env w path disk r n s \<longleftrightarrow>
     unat (ow_revision (sy_owner s)) \<le> n
     \<and> (\<exists>ts. sorted_wrt (<) ts \<and> (\<forall>t \<in> set ts. t < sy_now s)
          \<and> follow env w path (List.map disk ts) r = (reader_of (sy_owner s), sy_batches s)
          \<and> (\<forall>wk \<in> set (sy_workers s). phase_ok env w path disk ts (sy_owner s) (sy_now s) (wk_phase wk)))"

lemma fenced_controlled:
  assumes "fenced env w path disk r n s" "controlled (sy_owner s) ow" "n < 2 ^ 64 - 1"
  shows "fenced env w path disk r (n + 1) (s\<lparr>sy_owner := ow\<rparr>)"
proof -
  from assms(2) consider (same) "ow = sy_owner s"
    | (bump) "reader_of ow = reader_of (sy_owner s)" "ow_revision ow = ow_revision (sy_owner s) + 1"
    by (auto simp: controlled_def)
  then show ?thesis
  proof cases
    case same
    then show ?thesis using assms(1) by (auto simp: fenced_def)
  next
    case b: bump
    then have "ow_revision (sy_owner s) < ow_revision ow \<and> unat (ow_revision ow) = unat (ow_revision (sy_owner s)) + 1"
      using assms(1,3) bump [of "ow_revision (sy_owner s)"] by (simp add: fenced_def)
    then show ?thesis
      using assms(1) b(1) unfolding fenced_def by (auto intro: phase_ok_bump)
  qed
qed

lemma fenced_phase:
  assumes "fenced env w path disk r n s"
    "\<And>ts. \<forall>t \<in> set ts. t < sy_now s \<Longrightarrow> phase_ok env w path disk ts (sy_owner s) (sy_now s) (wk_phase (sy_workers s ! i))
      \<Longrightarrow> phase_ok env w path disk ts (sy_owner s) (sy_now s + k) p"
    "i < length (sy_workers s)"
  shows "fenced env w path disk r n (to_phase i p (s\<lparr>sy_now := sy_now s + k\<rparr>))"
proof -
  obtain ts where ts: "sorted_wrt (<) ts" "\<forall>t \<in> set ts. t < sy_now s"
      "follow env w path (List.map disk ts) r = (reader_of (sy_owner s), sy_batches s)"
      "\<forall>wk \<in> set (sy_workers s). phase_ok env w path disk ts (sy_owner s) (sy_now s) (wk_phase wk)"
    using assms(1) by (auto simp: fenced_def)
  have "phase_ok env w path disk ts (sy_owner s) (sy_now s + k) p" using assms(2) [OF ts(2)] ts(4) assms(3) by simp
  moreover have "\<forall>wk \<in> set (sy_workers s). phase_ok env w path disk ts (sy_owner s) (sy_now s + k) (wk_phase wk)"
    using ts(4) by (auto intro: phase_ok_later)
  ultimately have "\<forall>wk \<in> set (sy_workers (to_phase i p s)). phase_ok env w path disk ts (sy_owner s) (sy_now s + k) (wk_phase wk)"
    by (auto simp: to_phase_def dest!: set_update_subset_insert [THEN subsetD])
  then show ?thesis
    using assms(1) ts unfolding fenced_def by (intro conjI exI [of _ ts]) (auto simp: to_phase_def)
qed

lemma fenced_commit:
  assumes f: "fenced env w path disk r n s" and c: "in_phase s i (Committing rv oc)"
    "commit (wk_token (sy_workers s ! i)) rv oc (sy_owner s) = (ow, ok, pub)" and n: "n < 2 ^ 64 - 1"
  shows "fenced env w path disk r (n + 1) (s\<lparr>sy_owner := ow, sy_batches := sy_batches s @ opt_list pub\<rparr>)"
proof (cases ok)
  case False
  then have "ow = sy_owner s \<and> pub = None" using c(2) commit_refused by simp
  then show ?thesis using f by (auto simp: fenced_def)
next
  case True
  have cm: "take_outcome oc (reader_of (sy_owner s)) = (reader_of ow, opt_list pub)"
      "ow_revision ow = ow_revision (sy_owner s) + 1" "rv = ow_revision (sy_owner s)"
    using commit_reader [of "wk_token (sy_workers s ! i)" rv oc "sy_owner s" ow pub] c(2) True by simp_all
  obtain ts where ts: "sorted_wrt (<) ts" "\<forall>t \<in> set ts. t < sy_now s"
      "follow env w path (List.map disk ts) r = (reader_of (sy_owner s), sy_batches s)"
      "\<forall>wk \<in> set (sy_workers s). phase_ok env w path disk ts (sy_owner s) (sy_now s) (wk_phase wk)"
    using f by (auto simp: fenced_def)
  have "phase_ok env w path disk ts (sy_owner s) (sy_now s) (Committing rv oc)"
    using ts(4) c(1) unfolding in_phase_def by (metis nth_mem)
  then obtain t where t: "t < sy_now s" "\<forall>u \<in> set ts. u < t" "oc = read_once env w path (disk t) (reader_of (sy_owner s))"
    using cm(3) by (auto simp: phase_ok_def)
  have "sorted_wrt (<) (ts @ [t])" using ts(1) t(2) by (simp add: sorted_wrt_append)
  moreover have "follow env w path (List.map disk (ts @ [t])) r = (reader_of ow, sy_batches s @ opt_list pub)"
    using ts(3) t(3) cm(1) by (simp add: follow_snoc)
  moreover have less: "ow_revision (sy_owner s) < ow_revision ow" "unat (ow_revision ow) = unat (ow_revision (sy_owner s)) + 1"
    using f n cm(2) bump [of "ow_revision (sy_owner s)"] by (simp_all add: fenced_def)
  ultimately show ?thesis
    using f ts(2,4) t(1) unfolding fenced_def
    by (intro conjI exI [of _ "ts @ [t]"]) (auto intro: phase_ok_bump)
qed

lemma fenced_step:
  assumes "tail_step env w path disk s s'" "fenced env w path disk r n s" "n < 2 ^ 64 - 2"
  shows "fenced env w path disk r (n + 2) s'"
proof -
  have more: "fenced env w path disk r (n + 2) x" if "fenced env w path disk r m x" "m \<le> n + 2" for x m
    using that by (auto simp: fenced_def)
  have ctl: "fenced env w path disk r (n + 1) (s\<lparr>sy_owner := ow\<rparr>)" if "controlled (sy_owner s) ow" for ow
    using fenced_controlled [OF assms(2) that] assms(3) by simp
  show ?thesis
    using assms(1)
  proof cases
    case (Begin t ow)
    have "fenced env w path disk r (n + 1) (s\<lparr>sy_owner := ow\<rparr>)"
      using ctl controls(1) [of "sy_owner s" "Some t"] Begin(2) by simp
    then show ?thesis unfolding Begin(1) by (intro more [of "n + 1"]) (auto simp: fenced_def)
  next
    case (Refuse c ow a)
    then show ?thesis using more [OF ctl] controls(1) [of "sy_owner s" c] by simp
  next
    case (NoThread c ow)
    have "fenced env w path disk r (n + 1) (s\<lparr>sy_owner := ow\<rparr>)"
      using ctl controls(1) [of "sy_owner s" c] NoThread(2) by simp
    from fenced_controlled [OF this, of "fst (stop c ow)"] controls(2) [of ow c] assms(3)
    show ?thesis unfolding NoThread(1) by simp
  next
    case (Control c action ow a)
    then show ?thesis using more [OF ctl] controls(4) [of "sy_owner s" c action] by simp
  next
    case Tick
    show ?thesis
      using assms(2) unfolding Tick fenced_def by (fastforce intro: phase_ok_later less_SucI)
  next
    case (Ask i stopped)
    have "phase_ok env w path disk ts (sy_owner s) (sy_now s) (ask_phase stopped (wk_token (sy_workers s ! i)) (Some (sy_owner s)))" for ts
      by (auto simp: ask_phase_def request_def phase_ok_def split: option.splits)
    then show ?thesis
      using fenced_phase [OF assms(2), of i 0] Ask unfolding in_phase_def by (intro more [of n]) simp_all
  next
    case (Read i rq)
    have "phase_ok env w path disk ts (sy_owner s) (sy_now s + 1) (read_phase env w path rq (disk (sy_now s)))"
      if "\<forall>t \<in> set ts. t < sy_now s" "phase_ok env w path disk ts (sy_owner s) (sy_now s) (Reading rq)" for ts
      using that read_candidate_revision [of env w path rq "disk (sy_now s)" "ow_decoding (sy_owner s)"]
      by (auto simp: read_phase_def phase_ok_def reader_of_def)
    then have "fenced env w path disk r n
        (to_phase i (read_phase env w path rq (disk (sy_now s))) (s\<lparr>sy_now := sy_now s + 1\<rparr>))"
      using Read(2) unfolding in_phase_def by (intro fenced_phase [OF assms(2)]) simp_all
    then show ?thesis unfolding Read(1) by (intro more [of n]) simp_all
  next
    case (Commit i rv oc ow ok pub)
    have "fenced env w path disk r (n + 1) (s\<lparr>sy_owner := ow, sy_batches := sy_batches s @ opt_list pub\<rparr>)"
      using fenced_commit [OF assms(2) Commit(2,3)] assms(3) by simp
    from fenced_phase [OF this, of i 0 Polling] Commit(2)
    show ?thesis unfolding Commit(1) in_phase_def by (intro more [of "n + 1"]) simp_all
  qed
qed

lemma fenced_run:
  assumes "tail_run env w path disk (new_owner uuid snap identity) n s" "2 * n < 2 ^ 64"
  shows "fenced env w path disk (reader_of (new_owner uuid snap identity)) (2 * n) s"
  using assms
proof induction
  case Idle
  show ?case by (auto simp: fenced_def new_owner_def intro: exI [of _ "[]"])
next
  case (Step n s s')
  then show ?case using fenced_step [OF Step.hyps(2), of _ "2 * n"] by simp
qed

text \<open>C8. However control commands, time and the turns of any number of watchers interleave, the owner is in
  the state, and exactly the batches have been published, that one reader produces who reads the file again
  and again, at increasing times that have passed. A read that was overtaken leaves no trace. The system makes
  fewer steps than the revision counter has values.\<close>

theorem watchers_act_as_one:
  assumes "tail_run env w path disk (new_owner uuid snap identity) n s" "2 * n < 2 ^ 64"
  shows "\<exists>ts. sorted_wrt (<) ts \<and> (\<forall>t \<in> set ts. t < sy_now s)
    \<and> follow env w path (List.map disk ts) (reader_of (new_owner uuid snap identity)) = (reader_of (sy_owner s), sy_batches s)"
  using fenced_run [OF assms] by (auto simp: fenced_def)

end
