(* ===== verification/FirewallDecode.thy ===== *)
theory FirewallDecode
  imports FirewallSource
begin

text \<open>
  Decoding in chunks: however the bytes of a source arrive, the text, the spans of its lines, the state and
  the first error are those of decoding them at once.
\<close>

subsection \<open>Verdicts look at the bytes they take\<close>

lemma utf8_next_append:
  assumes "s \<noteq> []"
  shows "utf8_next s = Bad \<Longrightarrow> utf8_next (s @ t) = Bad"
    "utf8_next s = Scalar ch n \<Longrightarrow> utf8_next (s @ t) = Scalar ch n"
proof -
  let ?w = "utf8_size (byte (hd s))"
  have hd: "hd (s @ t) = hd s" using assms by simp
  obtain u where u: "take ?w (s @ t) = take ?w s @ u" by simp
  have one: "(take ?w s @ u) ! 1 = take ?w s ! 1" if "1 < length (take ?w s)" using that by (simp only: nth_append if_True)
  have two: "list_ex P (drop 2 (take ?w s)) \<Longrightarrow> list_ex P (drop 2 (take ?w s @ u))" for P by simp
  show "utf8_next s = Bad \<Longrightarrow> utf8_next (s @ t) = Bad"
    unfolding utf8_next_def Let_def hd u using one two by (auto split: if_splits)
  assume a: "utf8_next s = Scalar ch n"
  then have "?w \<le> length s" by (auto simp: utf8_next_def Let_def split: if_splits)
  then have "take ?w (s @ t) = take ?w s" by simp
  then show "utf8_next (s @ t) = Scalar ch n" using a by (simp only: utf8_next_def Let_def hd)
qed

lemma utf16_next_append:
  "utf16_next le s = Bad \<Longrightarrow> utf16_next le (s @ t) = Bad"
  "utf16_next le s = Scalar ch n \<Longrightarrow> utf16_next le (s @ t) = Scalar ch n"
proof -
  have "unit_at le (s @ t) i = unit_at le s i" if "i + 1 < length s" for i
    using that by (simp add: unit_at_def nth_append)
  then show "utf16_next le s = Bad \<Longrightarrow> utf16_next le (s @ t) = Bad"
    "utf16_next le s = Scalar ch n \<Longrightarrow> utf16_next le (s @ t) = Scalar ch n"
    by (auto simp: utf16_next_def Let_def split: if_splits)
qed

lemma next_append:
  "next_scalar w e s = Bad \<Longrightarrow> s \<noteq> [] \<Longrightarrow> next_scalar w e (s @ t) = Bad"
  "next_scalar w e s = Scalar ch n \<Longrightarrow> s \<noteq> [] \<Longrightarrow> next_scalar w e (s @ t) = Scalar ch n"
  by (auto simp: next_scalar_def utf8_next_append utf16_next_append split: fw_encoding.splits)

lemma next_width: "next_scalar w e s = Scalar ch n \<Longrightarrow> s \<noteq> [] \<Longrightarrow> n \<le> length s"
  by (auto simp: next_scalar_def utf16_next_def utf8_next_def Let_def Suc_le_eq split: fw_encoding.splits if_splits)

lemma next_take:
  assumes "next_scalar w e s = Scalar ch n" "s \<noteq> []"
  shows "next_scalar w e (take n s) = Scalar ch n"
proof -
  have n: "0 < n" "n \<le> length s" using assms next_scalar_width next_width by blast+
  have hd: "hd (take n s) = hd s" using n by (cases s) auto
  have eight: "utf8_next (take n s) = Scalar ch n" if a: "utf8_next s = Scalar ch n"
  proof -
    have w: "utf8_size (byte (hd s)) = n" using a by (auto simp: utf8_next_def Let_def split: if_splits)
    have t: "take n (take n s) = take n s" by simp
    show ?thesis using a unfolding utf8_next_def Let_def hd w t .
  qed
  have unit: "unit_at le (take n s) i = unit_at le s i" if "i + 1 < n" for i le
    using that by (simp add: unit_at_def)
  have len: "length (take n s) = n" using n by simp
  have sixteen: "utf16_next le (take n s) = Scalar ch n" if a: "utf16_next le s = Scalar ch n" for le
  proof -
    have w: "n = (if 0xD800 \<le> unit_at le s 0 \<and> unit_at le s 0 < 0xDC00 then 4 else 2)"
      using a by (simp add: utf16_next_def Let_def split: if_splits)
    have "unit_at le (take n s) 0 = unit_at le s 0" "n = 4 \<Longrightarrow> unit_at le (take n s) 2 = unit_at le s 2"
      using unit w by (auto split: if_splits)
    then show ?thesis using a w unfolding utf16_next_def Let_def len by (auto split: if_splits)
  qed
  show ?thesis using assms eight sixteen hd by (auto simp: next_scalar_def split: fw_encoding.splits)
qed

subsection \<open>The loop\<close>

lemma decode_loop_Nil [simp]: "decode_loop w e off [] = Some ([], [])"
  by (simp add: decode_loop.simps)

lemma decode_loop_append:
  "decode_loop w e off x = Some (cs, p) \<Longrightarrow>
     length p \<le> length x
     \<and> decode_loop w e off (x @ y) =
         map_option (\<lambda>(ds, q). (cs @ ds, q)) (decode_loop w e (off + (length x - length p)) (p @ y))"
proof (induction w e off x arbitrary: cs p rule: decode_loop.induct)
  case (1 w e off x)
  have id: "map_option (\<lambda>(ds, q). ([] @ ds, q)) r = r" for r :: "((rust_char \<times> nat) list \<times> string) option"
    by (cases r) auto
  note id = id option.map_ident
  show ?case
  proof (cases "x = []")
    case True
    then show ?thesis using 1(2) by (simp add: id)
  next
    case False
    show ?thesis
    proof (cases "next_scalar w e x")
      case (Scalar ch n)
      obtain ds where ds: "decode_loop w e (off + n) (drop n x) = Some (ds, p)" "cs = (ch, off + n) # ds"
        using 1(2) False Scalar by (auto simp: decode_loop.simps [of w e off x])
      have n: "n \<le> length x" "0 < n" using next_width [OF Scalar False] next_scalar_width [OF Scalar] by simp_all
      note IH = 1(1) [OF False Scalar ds(1)]
      have "next_scalar w e (x @ y) = Scalar ch n" by (rule next_append(2) [OF Scalar False])
      then have "decode_loop w e off (x @ y) =
          map_option (\<lambda>(cs, rest). ((ch, off + n) # cs, rest)) (decode_loop w e (off + n) (drop n x @ y))"
        using False n by (subst decode_loop.simps) simp
      moreover have "off + n + (length (drop n x) - length p) = off + (length x - length p)"
        using n conjunct1 [OF IH] by simp
      ultimately show ?thesis using IH n ds(2) by (simp add: option.map_comp comp_def case_prod_beta)
    next
      case Short
      then show ?thesis using 1(2) False by (auto simp: decode_loop.simps [of w e off x] id)
    next
      case Bad
      then show ?thesis using 1(2) False by (simp add: decode_loop.simps [of w e off x])
    qed
  qed
qed

lemma decode_loop_None: "decode_loop w e off x = None \<Longrightarrow> decode_loop w e off (x @ y) = None"
proof (induction w e off x rule: decode_loop.induct)
  case (1 w e off x)
  show ?case
  proof (cases "next_scalar w e x")
    case (Scalar ch n)
    have x: "x \<noteq> []" using 1(2) by auto
    then have "n \<le> length x" by (rule next_width [OF Scalar])
    then show ?thesis
      using 1 Scalar next_append(2) [OF Scalar x, of y] x
      by (auto simp: decode_loop.simps [of w e off x] decode_loop.simps [of w e off "x @ y"])
  next
    case Short
    then show ?thesis using 1(2) by (simp add: decode_loop.simps [of w e off x] split: if_splits)
  next
    case Bad
    have x: "x \<noteq> []" using 1(2) by auto
    then show ?thesis using next_append(1) [OF Bad x, of y] by (simp add: decode_loop.simps [of w e off "x @ y"])
  qed
qed

lemma decode_loop_rest: "decode_loop w e off x = Some (cs, p) \<Longrightarrow> decode_loop w e off' p = Some ([], p)"
proof (induction w e off x arbitrary: cs p rule: decode_loop.induct)
  case (1 w e off x)
  show ?case
  proof (cases "x = []")
    case False
    then show ?thesis
      using 1 by (cases "next_scalar w e x") (auto simp: decode_loop.simps [of w e off x] decode_loop.simps [of w e off' p])
  qed (use 1 in \<open>simp\<close>)
qed

subsection \<open>Characters\<close>

definition add_decoded :: "decoded \<Rightarrow> decoded \<Rightarrow> decoded" where
  "add_decoded a b = \<lparr>dc_text = dc_text a @ dc_text b, dc_lines = dc_lines a @ dc_lines b\<rparr>"

lemma add_decoded_empty [simp]: "add_decoded empty_decoded a = a" "add_decoded a empty_decoded = a"
  by (simp_all add: add_decoded_def empty_decoded_def)

lemma add_decoded_assoc: "add_decoded (add_decoded a b) c = add_decoded a (add_decoded b c)"
  by (simp add: add_decoded_def)

definition scalars :: "(rust_char \<times> nat) list \<Rightarrow> decoder \<times> decoded \<Rightarrow> decoder \<times> decoded" where
  "scalars cs = fold (\<lambda>(ch, fin). scalar ch fin) cs"

lemma scalars_Nil [simp]: "scalars [] s = s"
  by (simp add: scalars_def)

lemma scalars_append: "scalars (cs @ ds) s = scalars ds (scalars cs s)"
  by (simp add: scalars_def)

lemma scalars_out:
  "scalars cs (d, add_decoded out o1) = (fst (scalars cs (d, o1)), add_decoded out (snd (scalars cs (d, o1))))"
proof (induction cs arbitrary: d o1)
  case (Cons c cs)
  obtain ch fin where c: "c = (ch, fin)" by (cases c)
  have "scalar ch fin (d, add_decoded out o1) =
      (fst (scalar ch fin (d, o1)), add_decoded out (snd (scalar ch fin (d, o1))))"
    by (simp add: scalar_def Let_def add_decoded_def)
  then show ?case using Cons by (simp add: c scalars_def)
qed simp

lemma scalars_carry:
  "scalars cs (d\<lparr>raw_offset := k, carry := p\<rparr>, out) =
     (fst (scalars cs (d, out))\<lparr>raw_offset := k, carry := p\<rparr>, snd (scalars cs (d, out)))"
proof (induction cs arbitrary: d out)
  case (Cons c cs)
  obtain ch fin where c: "c = (ch, fin)" by (cases c)
  have "scalar ch fin (d\<lparr>raw_offset := k, carry := p\<rparr>, out) =
      (fst (scalar ch fin (d, out))\<lparr>raw_offset := k, carry := p\<rparr>, snd (scalar ch fin (d, out)))"
    by (simp add: scalar_def Let_def)
  then show ?case using Cons by (simp add: c scalars_def)
qed simp

lemma scalars_keep:
  "dec_encoding (fst (scalars cs s)) = dec_encoding (fst s) \<and> explicit_bom (fst (scalars cs s)) = explicit_bom (fst s)
   \<and> raw_offset (fst (scalars cs s)) = raw_offset (fst s) \<and> carry (fst (scalars cs s)) = carry (fst s)"
proof (induction cs arbitrary: s)
  case (Cons c cs)
  then show ?case by (cases c; cases s) (simp add: scalars_def scalar_def Let_def)
qed simp

subsection \<open>Two pushes are one\<close>

definition decoder_ok :: "(char \<Rightarrow> rust_char) \<Rightarrow> decoder \<Rightarrow> bool" where
  "decoder_ok w d \<longleftrightarrow>
     length (carry d) \<le> raw_offset d
     \<and> (dec_encoding d = Undetermined \<longrightarrow> carry d = [] \<or> detect_bom (carry d) 0 d = None)
     \<and> (dec_encoding d \<noteq> Undetermined \<longrightarrow> decode_loop w (dec_encoding d) 0 (carry d) = Some ([], carry d))"

definition map_pushed :: "decoded \<Rightarrow> decode_error + (decoder \<times> decoded) \<Rightarrow> decode_error + (decoder \<times> decoded)" where
  "map_pushed out r = (case r of Inl e \<Rightarrow> Inl e | Inr (d, o1) \<Rightarrow> Inr (d, add_decoded out o1))"

lemma decode_rest_Some:
  assumes "decode_loop w (dec_encoding d) (base + start) (drop start data) = Some (cs, p)"
  shows "decode_rest w data base (d, start) =
    Inr (fst (scalars cs (d, empty_decoded))\<lparr>carry := p\<rparr>, snd (scalars cs (d, empty_decoded)))"
  using assms by (simp add: decode_rest_def scalars_def case_prod_beta)

lemma decode_rest_None:
  "decode_loop w (dec_encoding d) (base + start) (drop start data) = None \<Longrightarrow>
     decode_rest w data base (d, start) =
       Inl (if dec_encoding d = Utf8 \<and> \<not> explicit_bom d then NeedsWindows1252 else InvalidExplicitEncoding)"
  by (simp add: decode_rest_def)

lemma decode_rest_step:
  assumes r: "decode_rest w data base (d, start) = Inr (d1, o1)"
    and s: "start \<le> length data" "dec_encoding d \<noteq> Undetermined" "carry d = []" "raw_offset d = base + length data"
  shows "decoder_ok w d1 \<and> dec_encoding d1 = dec_encoding d
    \<and> decode_rest w (data @ b) base (d\<lparr>raw_offset := raw_offset d + length b\<rparr>, start) = map_pushed o1 (decode w b d1)"
proof -
  let ?e = "dec_encoding d"
  obtain cs p where cs: "decode_loop w ?e (base + start) (drop start data) = Some (cs, p)"
    using r by (auto simp: decode_rest_def split: option.splits)
  note app = decode_loop_append [OF cs]
  have d1: "d1 = fst (scalars cs (d, empty_decoded))\<lparr>carry := p\<rparr>" and o1: "o1 = snd (scalars cs (d, empty_decoded))"
    using r decode_rest_Some [OF cs] by simp_all
  have keep: "dec_encoding d1 = ?e" "explicit_bom d1 = explicit_bom d" "raw_offset d1 = raw_offset d" "carry d1 = p"
    using scalars_keep [of cs "(d, empty_decoded)"] by (simp_all add: d1)
  have p: "length p \<le> length data - start" using app by simp
  have "length p \<le> base + length data" using p by linarith
  then have ok: "decoder_ok w d1"
    using decode_loop_rest [OF cs, of 0] s(2,4) by (simp add: decoder_ok_def keep)
  let ?b1 = "raw_offset d1 - length (carry d1)"
  have off: "base + start + (length (drop start data) - length p) = ?b1" using p s by (simp add: keep)
  have split: "decode_loop w ?e (base + start) (drop start (data @ b)) =
      map_option (\<lambda>(ds, q). (cs @ ds, q)) (decode_loop w ?e ?b1 (p @ b))"
    using app s(1) unfolding off by simp
  have "decode_rest w (data @ b) base (d\<lparr>raw_offset := raw_offset d + length b\<rparr>, start) = map_pushed o1 (decode w b d1)"
  proof (cases "decode_loop w ?e ?b1 (p @ b)")
    case None
    then show ?thesis
      using split s(2) by (simp add: decode_rest_def decode_def Let_def keep map_pushed_def)
  next
    case (Some x)
    obtain ds q where x: "x = (ds, q)" by (cases x)
    let ?d = "d\<lparr>raw_offset := raw_offset d + length b, carry := []\<rparr>"
    have d: "d\<lparr>raw_offset := raw_offset d + length b\<rparr> = ?d" using s(3) by simp
    have "decode_rest w (data @ b) base (?d, start) =
        Inr (fst (scalars (cs @ ds) (?d, empty_decoded))\<lparr>carry := q\<rparr>, snd (scalars (cs @ ds) (?d, empty_decoded)))"
      by (rule decode_rest_Some) (simp add: split Some x del: drop_append)
    also have "scalars (cs @ ds) (?d, empty_decoded) =
        (fst (scalars ds (fst (scalars cs (?d, empty_decoded)), empty_decoded)),
         add_decoded o1 (snd (scalars ds (fst (scalars cs (?d, empty_decoded)), empty_decoded))))"
      using scalars_out [of ds "fst (scalars cs (?d, empty_decoded))" o1 empty_decoded]
      by (simp add: scalars_append scalars_carry o1)
    finally have whole: "decode_rest w (data @ b) base (?d, start) =
        Inr (fst (scalars ds (fst (scalars cs (?d, empty_decoded)), empty_decoded))\<lparr>carry := q\<rparr>,
          add_decoded o1 (snd (scalars ds (fst (scalars cs (?d, empty_decoded)), empty_decoded))))"
      by simp
    have "decode w b d1 = decode_rest w (p @ b) ?b1 (d1\<lparr>raw_offset := raw_offset d1 + length b, carry := []\<rparr>, 0)"
      using s(2) by (simp add: decode_def Let_def keep)
    also have "d1\<lparr>raw_offset := raw_offset d1 + length b, carry := []\<rparr> = fst (scalars cs (?d, empty_decoded))"
      by (simp add: scalars_carry d1 keep [unfolded d1] scalars_keep)
    also have "decode_rest w (p @ b) ?b1 (fst (scalars cs (?d, empty_decoded)), 0) =
        Inr (fst (scalars ds (fst (scalars cs (?d, empty_decoded)), empty_decoded))\<lparr>carry := q\<rparr>,
          snd (scalars ds (fst (scalars cs (?d, empty_decoded)), empty_decoded)))"
      by (rule decode_rest_Some) (simp add: Some x scalars_keep)
    finally have later: "decode w b d1 =
        Inr (fst (scalars ds (fst (scalars cs (?d, empty_decoded)), empty_decoded))\<lparr>carry := q\<rparr>,
          snd (scalars ds (fst (scalars cs (?d, empty_decoded)), empty_decoded)))" .
    show ?thesis by (subst d, subst whole, subst later) (simp add: map_pushed_def)
  qed
  then show ?thesis using ok keep by simp
qed

lemma detect_bom_offset:
  "detect_bom data base (d\<lparr>raw_offset := k, carry := p\<rparr>) =
     map_option (\<lambda>(d, n). (d\<lparr>raw_offset := k, carry := p\<rparr>, n)) (detect_bom data base d)"
  by (simp add: detect_bom_def split: option.split)

lemma detect_bom_None: "detect_bom data base d = None \<longleftrightarrow> detect_bom data base' d' = None"
  by (simp add: detect_bom_def split: option.split)

lemma boms_apart: "(u, e) \<in> set boms \<Longrightarrow> (v, f) \<in> set boms \<Longrightarrow> prefix u s \<Longrightarrow> prefix v s \<Longrightarrow> (u, e) = (v, f)"
  using prefix_same_cases [of u s v] by (auto simp: boms_def)

lemma find_member: "List.find P xs = Some x \<Longrightarrow> x \<in> set xs \<and> P x"
  by (induction xs) (auto split: if_splits)

lemma find_bom:
  "List.find (\<lambda>(bom, _). prefix bom s) boms = Some (u, e) \<longleftrightarrow> (u, e) \<in> set boms \<and> prefix u s"
proof
  assume f: "List.find (\<lambda>(bom, _). prefix bom s) boms = Some (u, e)"
  from find_member [OF this] show "(u, e) \<in> set boms \<and> prefix u s" by simp
next
  assume u: "(u, e) \<in> set boms \<and> prefix u s"
  then obtain v f where v: "List.find (\<lambda>(bom, _). prefix bom s) boms = Some (v, f)"
    by (cases "List.find (\<lambda>(bom, _). prefix bom s) boms") (auto simp: find_None_iff)
  from find_member [OF this] have "(v, f) \<in> set boms" "prefix v s" by simp_all
  then show "List.find (\<lambda>(bom, _). prefix bom s) boms = Some (u, e)" using v u boms_apart [of u e v f s] by simp
qed

lemma detect_bom_Some:
  assumes "detect_bom data base d = Some (d', n)" "data \<noteq> []"
  shows "n \<le> length data" "dec_encoding d' \<noteq> Undetermined" "carry d' = carry d" "raw_offset d' = raw_offset d"
    "detect_bom (data @ b) base d = Some (d', n)"
proof -
  have enc: "(u, e) \<in> set boms \<Longrightarrow> e \<noteq> Undetermined" for u e by (auto simp: boms_def)
  have "n \<le> length data \<and> dec_encoding d' \<noteq> Undetermined \<and> carry d' = carry d \<and> raw_offset d' = raw_offset d
      \<and> detect_bom (data @ b) base d = Some (d', n)"
  proof (cases "List.find (\<lambda>(bom, _). prefix bom data) boms")
    case (Some x)
    obtain u e where x: "x = (u, e)" by (cases x)
    have u: "(u, e) \<in> set boms" "prefix u data" using Some x find_bom by simp_all
    then have "List.find (\<lambda>(bom, _). prefix bom (data @ b)) boms = Some (u, e)" by (simp add: find_bom)
    then show ?thesis
      using assms(1) Some x u(2) enc [OF u(1)] by (auto simp: detect_bom_def dest: prefix_length_le)
  next
    case None
    then have none: "\<not> prefix u data" "\<not> prefix data u" if "(u, e) \<in> set boms" for u e
      using that assms(1) None None [unfolded find_None_iff]
      by (auto simp: detect_bom_def list_ex_iff split: if_splits)
    have "\<not> prefix u (data @ b)" "\<not> prefix (data @ b) u" if "(u, e) \<in> set boms" for u e
      using none [OF that] prefix_same_cases [of u "data @ b" data] append_prefixD by auto
    then have "List.find (\<lambda>(bom, _). prefix bom (data @ b)) boms = None" "\<not> list_ex (\<lambda>(bom, _). prefix (data @ b) bom) boms"
      by (auto simp: find_None_iff list_ex_iff)
    then show ?thesis using assms(1) None by (auto simp: detect_bom_def split: if_splits)
  qed
  then show "n \<le> length data" "dec_encoding d' \<noteq> Undetermined" "carry d' = carry d" "raw_offset d' = raw_offset d"
    "detect_bom (data @ b) base d = Some (d', n)" by simp_all
qed

lemma decode_append:
  assumes "decoder_ok w d"
  shows "decode w (a @ b) d = (case decode w a d of Inl e \<Rightarrow> Inl e | Inr (d1, o1) \<Rightarrow> map_pushed o1 (decode w b d1))"
    "decode w a d = Inr (d1, o1) \<Longrightarrow> decoder_ok w d1"
proof -
  let ?data = "carry d @ a" and ?base = "raw_offset d - length (carry d)"
  let ?up = "\<lambda>k d. d\<lparr>raw_offset := raw_offset d + k, carry := []\<rparr>"
  have c: "length (carry d) \<le> raw_offset d" using assms by (simp add: decoder_ok_def)
  have rest: "decode_rest w (?data @ b) ?base (?up (length b) d', n) =
      (case decode_rest w ?data ?base (d', n) of Inl e \<Rightarrow> Inl e | Inr (d1, o1) \<Rightarrow> map_pushed o1 (decode w b d1))
      \<and> (decode_rest w ?data ?base (d', n) = Inr (d1, o1) \<longrightarrow> decoder_ok w d1)"
    if s: "n \<le> length ?data" "dec_encoding d' \<noteq> Undetermined" "carry d' = []" "raw_offset d' = ?base + length ?data"
    for d' n d1 o1
  proof (cases "decode_rest w ?data ?base (d', n)")
    case (Inl e)
    then have none: "decode_loop w (dec_encoding d') (?base + n) (drop n ?data) = None"
      by (auto simp: decode_rest_def split: option.splits prod.splits)
    have "drop n (?data @ b) = drop n ?data @ b" using s(1) by simp
    then have "decode_loop w (dec_encoding (?up (length b) d')) (?base + n) (drop n (?data @ b)) = None"
      using decode_loop_None [OF none, of b] by simp
    from decode_rest_None [OF this] decode_rest_None [OF none] show ?thesis using Inl by simp
  next
    case (Inr x)
    obtain d2 o2 where x: "x = (d2, o2)" by (cases x)
    have "?up (length b) d' = d'\<lparr>raw_offset := raw_offset d' + length b\<rparr>" using s(3) by simp
    then show ?thesis using decode_rest_step [OF Inr [unfolded x] s, of b] Inr x by auto
  qed
  have up: "?up (length (a @ b)) d = ?up (length b) (?up (length a) d)" by (simp add: add.assoc)
  have len: "raw_offset (?up (length a) d) = ?base + length ?data" using c by simp
  have "decode w (a @ b) d = (case decode w a d of Inl e \<Rightarrow> Inl e | Inr (d1, o1) \<Rightarrow> map_pushed o1 (decode w b d1))
      \<and> (decode w a d = Inr (d1, o1) \<longrightarrow> decoder_ok w d1)"
  proof (cases "dec_encoding d = Undetermined")
    case False
    have "decode w (a @ b) d = decode_rest w (?data @ b) ?base (?up (length b) (?up (length a) d), 0)"
        "decode w a d = decode_rest w ?data ?base (?up (length a) d, 0)"
      using False by (simp_all only: decode_def Let_def if_False append_assoc up) simp_all
    then show ?thesis using rest [of 0 "?up (length a) d" d1 o1] False len by simp
  next
    case True
    show ?thesis
    proof (cases "?data = []")
      case d0: True
      have "d\<lparr>raw_offset := raw_offset d, carry := []\<rparr> = d" using d0 by simp
      moreover have "decode w a d = Inr (d, empty_decoded)" using d0 True by (simp add: decode_def)
      ultimately show ?thesis using d0 assms by (auto simp: map_pushed_def split: sum.split)
    next
      case data: False
      show ?thesis
      proof (cases "detect_bom ?data ?base d")
        case None
        let ?d1 = "?up (length a) d\<lparr>carry := ?data\<rparr>"
        have "detect_bom ?data ?base (?up (length a) d) = None" using None by (simp add: detect_bom_offset)
        then have one: "decode w a d = Inr (?d1, empty_decoded)" using True data by (simp add: decode_def Let_def)
        have "detect_bom ?data 0 ?d1 = None" using None detect_bom_None by blast
        then have "decoder_ok w ?d1" using True c by (simp add: decoder_ok_def)
        moreover have "decode w b ?d1 = decode w (a @ b) d"
          using True c by (simp add: decode_def Let_def add.assoc)
        ultimately show ?thesis
          using one by (auto simp: map_pushed_def split: sum.split)
      next
        case (Some x)
        obtain d' n where x: "x = (d', n)" by (cases x)
        note bom = detect_bom_Some [OF Some [unfolded x] data]
        have one: "decode w a d = decode_rest w ?data ?base (d'\<lparr>raw_offset := raw_offset d + length a, carry := []\<rparr>, n)"
          using True data Some x by (auto simp: decode_def Let_def detect_bom_offset)
        have "decode w (a @ b) d =
            decode_rest w (?data @ b) ?base (d'\<lparr>raw_offset := raw_offset d + length (a @ b), carry := []\<rparr>, n)"
          using True data bom(5) [of b] by (auto simp: decode_def Let_def detect_bom_offset)
        then show ?thesis
          using rest [of n "d'\<lparr>raw_offset := raw_offset d + length a, carry := []\<rparr>" d1 o1] one bom len
          by (simp add: add.assoc)
      qed
    qed
  qed
  then show "decode w (a @ b) d = (case decode w a d of Inl e \<Rightarrow> Inl e | Inr (d1, o1) \<Rightarrow> map_pushed o1 (decode w b d1))"
    "decode w a d = Inr (d1, o1) \<Longrightarrow> decoder_ok w d1" by simp_all
qed

lemma decode_Nil: "decoder_ok w d \<Longrightarrow> decode w [] d = Inr (d, empty_decoded)"
proof (cases "dec_encoding d = Undetermined")
  case True
  assume ok: "decoder_ok w d"
  show ?thesis
  proof (cases "carry d = []")
    case False
    then have "detect_bom (carry d) (raw_offset d - length (carry d)) (d\<lparr>carry := []\<rparr>) = None"
      using ok True detect_bom_None unfolding decoder_ok_def by blast
    then show ?thesis using True False by (simp add: decode_def Let_def)
  qed (use True in \<open>simp add: decode_def\<close>)
next
  case False
  assume ok: "decoder_ok w d"
  let ?b = "raw_offset d - length (carry d)"
  have "decode_loop w (dec_encoding d) ?b (carry d) = Some ([], carry d)"
    using ok False decode_loop_rest [of w "dec_encoding d" 0 "carry d" "[]" "carry d" ?b] by (simp add: decoder_ok_def)
  then show ?thesis
    using False decode_rest_Some [of w "d\<lparr>carry := []\<rparr>" ?b 0 "carry d" "[]" "carry d"]
    by (simp add: decode_def Let_def)
qed

text \<open>A source read in chunks: pushes until the first error.\<close>

fun push_all :: "(char \<Rightarrow> rust_char) \<Rightarrow> string list \<Rightarrow> decoder \<Rightarrow> decode_error + (decoder \<times> decoded)" where
  "push_all w [] d = Inr (d, empty_decoded)"
| "push_all w (b # bs) d =
     (case push_bytes w b d of
        (_, Inl e) \<Rightarrow> Inl e
      | (d1, Inr o1) \<Rightarrow> map_pushed o1 (push_all w bs d1))"

lemma map_pushed_twice: "map_pushed a (map_pushed b r) = map_pushed (add_decoded a b) r"
  by (simp add: map_pushed_def add_decoded_assoc split: sum.split)

lemma push_all_concat: "decoder_ok w d \<Longrightarrow> push_all w chunks d = decode w (concat chunks) d"
proof (induction chunks arbitrary: d)
  case Nil
  then show ?case by (simp add: decode_Nil)
next
  case (Cons b bs)
  show ?case
  proof (cases "decode w b d")
    case (Inl e)
    then show ?thesis using decode_append(1) [OF Cons.prems, of b "concat bs"] by (simp add: push_bytes_def)
  next
    case (Inr x)
    obtain d1 o1 where x: "x = (d1, o1)" by (cases x)
    then have "decoder_ok w d1" using decode_append(2) [OF Cons.prems] Inr by simp
    then show ?thesis
      using decode_append(1) [OF Cons.prems, of b "concat bs"] Inr x Cons.IH by (simp add: push_bytes_def)
  qed
qed

lemma starts_ok: "decoder_ok w default_decoder" "decoder_ok w windows1252_decoder" "decoder_ok w (for_encoding e)"
  by (simp_all add: decoder_ok_def default_decoder_def windows1252_decoder_def for_encoding_def)

text \<open>C10. However the bytes of a source are cut into chunks, also inside a byte order mark, a character or a
  surrogate pair, the decoder ends in the same state with the same text and line spans, or fails with the
  same error, as when it gets them at once.\<close>

theorem decoding_ignores_chunks:
  "push_all w chunks default_decoder = push_all w [concat chunks] default_decoder
   \<and> push_all w chunks windows1252_decoder = push_all w [concat chunks] windows1252_decoder
   \<and> push_all w chunks (for_encoding e) = push_all w [concat chunks] (for_encoding e)"
  using push_all_concat [OF starts_ok(1)] push_all_concat [OF starts_ok(2)] push_all_concat [OF starts_ok(3)] by simp

end
