(* ===== verification/FirewallSlices.thy ===== *)
theory FirewallSlices
  imports FirewallDecode
begin

text \<open>
  Slices of a firewall log: decoding the bytes of some consecutive characters again, anywhere else, gives
  those characters, whatever the encoding and however the reads are cut.
\<close>

subsection \<open>Characters\<close>

text \<open>An ASCII byte occurs only as a character of its own.\<close>

definition char_ok :: "rust_char \<Rightarrow> bool" where
  "char_ok ch \<longleftrightarrow> ch \<noteq> [] \<and> (\<forall>b \<in> set ch. byte b < 128 \<longrightarrow> ch = [b])"

lemma valid_char_ok: "valid_char ch \<Longrightarrow> char_ok ch"
  by (cases ch) (auto simp: valid_char_def char_ok_def is_cont_def utf8_width_def Let_def list_all_iff split: if_splits)

lemma char_ok_alone: "char_ok ch \<Longrightarrow> b \<in> set ch \<Longrightarrow> byte b < 128 \<Longrightarrow> ch = [b]"
  by (simp add: char_ok_def)

lemma utf8_next_ok:
  assumes "utf8_next s = Scalar ch n" "s \<noteq> []"
  shows "char_ok ch" "n = length ch"
proof -
  let ?b = "byte (hd s)"
  have w: "n = utf8_size ?b" "n \<noteq> 0" "n \<le> length s" "ch = take n s"
    and second: "1 < n \<Longrightarrow> second_ok ?b (byte (s ! 1))" and conts: "list_all is_cont (drop 2 ch)"
    using assms(1) by (auto simp: utf8_next_def Let_def list_ex_iff list_all_iff min_def split: if_splits)
  show "n = length ch" using w by simp
  obtain c t where s: "s = c # t" using assms(2) by (cases s) auto
  have "byte b \<ge> 128" if b: "b \<in> set ch" and n: "n \<noteq> 1" for b
  proof -
    have "1 < n" using w n by simp
    then obtain m where m: "n = Suc (Suc m)" by (metis One_nat_def less_imp_Suc_add plus_1_eq_Suc)
    obtain c2 t2 where t: "t = c2 # t2" using w(3) s m by (cases t) auto
    have ch: "ch = c # c2 # drop 2 ch" unfolding w(4) s t m by simp
    have "128 \<le> byte c" using w(1,2) n s by (auto simp: utf8_size_def split: if_splits)
    moreover have "128 \<le> byte c2" using second [OF \<open>1 < n\<close>] s t by (auto simp: second_ok_def split: if_splits)
    moreover have "128 \<le> byte x" if "x \<in> set (drop 2 ch)" for x
      using conts that by (auto simp: list_all_iff is_cont_def)
    moreover have "set ch = {c, c2} \<union> set (drop 2 ch)" using arg_cong [OF ch, of set] by simp
    ultimately show ?thesis using b by auto
  qed
  then show "char_ok ch" using w s by (cases "n = 1") (fastforce simp: char_ok_def)+
qed

lemma utf8_bytes_ok:
  assumes "n < 1114112"
  shows "char_ok (utf8_bytes n)" "65536 \<le> n \<Longrightarrow> length (utf8_bytes n) = 4" "1 \<le> length (utf8_bytes n)"
proof -
  show "char_ok (utf8_bytes n)"
    using assms by (auto simp: utf8_bytes_def char_ok_def div_less_iff_less_mult)
qed (use assms in \<open>auto simp: utf8_bytes_def\<close>)

lemma unit_at_less: "unit_at le s i < 65536"
  using nat_of_char_less_256 [of "s ! i"] nat_of_char_less_256 [of "s ! (i + 1)"]
  by (auto simp: unit_at_def simp del: nat_of_char_less_256)

lemma next_ok:
  assumes "next_scalar w e s = Scalar ch n" "s \<noteq> []" "\<forall>c. char_ok (w c)"
  shows "char_ok ch" "n \<le> 2 * length ch"
proof -
  have sixteen: "char_ok ch \<and> n \<le> 2 * length ch" if a: "utf16_next le s = Scalar ch n" for le
  proof -
    let ?u = "unit_at le s 0" and ?v = "unit_at le s 2"
    have "?u < 65536" "?v < 65536" by (rule unit_at_less)+
    then have u: "?u < 1114112" by simp
    show ?thesis
    proof (cases "0xD800 \<le> ?u \<and> ?u < 0xDC00")
      case True
      let ?n = "0x10000 + (?u - 0xD800) * 0x400 + (?v - 0xDC00)"
      have v: "0xDC00 \<le> ?v" "?v < 0xE000" "ch = utf8_bytes ?n" "n = 4"
        using a True by (auto simp: utf16_next_def Let_def split: if_splits)
      have "?n < 1114112" using True v(2) by auto
      then show ?thesis using utf8_bytes_ok [of ?n] v by simp
    next
      case False
      then have "ch = utf8_bytes ?u" "n = 2"
        using a by (auto simp: utf16_next_def Let_def split: if_splits)
      then show ?thesis using utf8_bytes_ok [OF u] by simp
    qed
  qed
  have one: "1 \<le> 2 * length (w (hd s))" using assms(3) by (cases "w (hd s)") (auto simp: char_ok_def)
  show "char_ok ch" "n \<le> 2 * length ch"
    using assms sixteen utf8_next_ok one by (auto simp: next_scalar_def split: fw_encoding.splits)
qed

subsection \<open>The ends of characters\<close>

definition end_of :: "nat \<Rightarrow> (rust_char \<times> nat) list \<Rightarrow> nat" where
  "end_of off cs = (if cs = [] then off else snd (last cs))"

lemma end_of_simps [simp]: "end_of off [] = off" "end_of off ((ch, fin) # cs) = end_of fin cs"
  by (simp_all add: end_of_def)

lemma end_of_append: "end_of off (cs @ ds) = end_of (end_of off cs) ds"
  by (simp add: end_of_def)

lemma decode_loop_head:
  assumes "decode_loop w e off s = Some ((ch, fin) # cs, p)"
  obtains n where "next_scalar w e s = Scalar ch n" "s \<noteq> []" "fin = off + n" "0 < n" "n \<le> length s"
    "decode_loop w e fin (drop n s) = Some (cs, p)"
  using assms next_scalar_width next_width
  by (subst (asm) decode_loop.simps) (auto split: verdict.splits if_splits)

lemma decode_loop_drop:
  assumes "decode_loop w e off s = Some (cs @ ds, p)"
  shows "off \<le> end_of off cs" "end_of off cs \<le> off + length s"
    "decode_loop w e (end_of off cs) (drop (end_of off cs - off) s) = Some (ds, p)"
proof -
  have "off \<le> end_of off cs \<and> end_of off cs \<le> off + length s
      \<and> decode_loop w e (end_of off cs) (drop (end_of off cs - off) s) = Some (ds, p)"
    using assms
  proof (induction cs arbitrary: off s)
    case (Cons c cs)
    obtain ch fin where c: "c = (ch, fin)" by (cases c)
    obtain n where n: "fin = off + n" "n \<le> length s" "decode_loop w e fin (drop n s) = Some (cs @ ds, p)"
      using decode_loop_head [of w e off s ch fin "cs @ ds" p] Cons.prems c by auto
    note IH = Cons.IH [OF n(3)]
    have "drop (end_of fin cs - fin) (drop n s) = drop (end_of fin cs - off) s" using IH n by simp
    then show ?case using IH n by (simp add: c)
  qed simp
  then show "off \<le> end_of off cs" "end_of off cs \<le> off + length s"
    "decode_loop w e (end_of off cs) (drop (end_of off cs - off) s) = Some (ds, p)" by simp_all
qed

text \<open>The characters of a slice, at any other offset.\<close>

lemma decode_loop_take:
  "decode_loop w e off s = Some (cs @ ds, p) \<Longrightarrow>
     \<exists>cs'. decode_loop w e off' (take (end_of off cs - off) s) = Some (cs', []) \<and> List.map fst cs' = List.map fst cs"
proof (induction cs arbitrary: off off' s)
  case (Cons c cs)
  obtain ch fin where c: "c = (ch, fin)" by (cases c)
  obtain n where n: "next_scalar w e s = Scalar ch n" "s \<noteq> []" "fin = off + n" "0 < n" "n \<le> length s"
      "decode_loop w e fin (drop n s) = Some (cs @ ds, p)"
    using decode_loop_head [of w e off s ch fin "cs @ ds" p] Cons.prems c by auto
  have e: "fin \<le> end_of fin cs" using decode_loop_drop(1) [OF n(6)] .
  let ?t = "take (end_of off (c # cs) - off) s"
  have t: "?t = take n s @ take (end_of fin cs - fin) (drop n s)" "?t \<noteq> []"
    using e n by (simp_all add: c take_add [symmetric])
  have "next_scalar w e ?t = Scalar ch n"
    unfolding t(1) by (rule next_append(2) [OF next_take [OF n(1,2)]]) (use n in auto)
  moreover obtain cs' where "decode_loop w e (off' + n) (take (end_of fin cs - fin) (drop n s)) = Some (cs', [])"
      "List.map fst cs' = List.map fst cs"
    using Cons.IH [OF n(6)] by blast
  moreover have "drop n ?t = take (end_of fin cs - fin) (drop n s)" unfolding t(1) using n by simp
  ultimately have "decode_loop w e off' ?t = Some ((ch, off' + n) # cs', [])"
    using t(2) by (subst decode_loop.simps) simp
  then show ?case using \<open>List.map fst cs' = List.map fst cs\<close> by (auto simp: c)
qed simp

lemma decode_loop_slice:
  assumes "decode_loop w e off s = Some (as @ cs @ ds, p)"
  shows "\<exists>cs'. decode_loop w e 0 (take (end_of off (as @ cs) - end_of off as) (drop (end_of off as - off) s)) = Some (cs', [])
    \<and> List.map fst cs' = List.map fst cs"
  using decode_loop_take [OF decode_loop_drop(3) [OF assms], of 0] by (simp add: end_of_append)

lemma decode_loop_chars:
  "decode_loop w e off s = Some (cs @ ds, p) \<Longrightarrow> \<forall>c. char_ok (w c) \<Longrightarrow>
     list_all (\<lambda>(ch, _). char_ok ch) cs \<and> end_of off cs - off \<le> 2 * length (concat (List.map fst cs))
     \<and> off + length cs \<le> end_of off cs"
proof (induction cs arbitrary: off s)
  case (Cons c cs)
  obtain ch fin where c: "c = (ch, fin)" by (cases c)
  obtain n where n: "next_scalar w e s = Scalar ch n" "s \<noteq> []" "fin = off + n" "0 < n"
      "decode_loop w e fin (drop n s) = Some (cs @ ds, p)"
    using decode_loop_head [of w e off s ch fin "cs @ ds" p] Cons.prems c by auto
  show ?case using Cons.IH [OF n(5) Cons.prems(2)] next_ok [OF n(1,2) Cons.prems(2)] n(3,4) by (auto simp: c)
qed simp

subsection \<open>Reading a slice in blocks\<close>

lemma scalars_text: "dc_text (snd (scalars cs (d, out))) = dc_text out @ List.map fst cs"
proof (induction cs arbitrary: d out)
  case (Cons c cs)
  obtain ch fin where c: "c = (ch, fin)" by (cases c)
  obtain d1 o1 where s: "scalar ch fin (d, out) = (d1, o1)" by fastforce
  then have "dc_text o1 = dc_text out @ [ch]" by (auto simp: scalar_def Let_def split: if_splits)
  then show ?case using Cons [of d1 o1] s by (simp add: c scalars_def)
qed simp

lemma decode_for_encoding:
  assumes "decode_loop w e 0 s = Some (cs, [])" "e \<noteq> Undetermined"
  shows "\<exists>d out. decode w s (for_encoding e) = Inr (d, out) \<and> carry d = [] \<and> dc_text out = List.map fst cs"
proof -
  let ?d = "(for_encoding e)\<lparr>raw_offset := length s, carry := []\<rparr>"
  have "decode w s (for_encoding e) = decode_rest w s 0 (?d, 0)"
    using assms(2) by (simp add: decode_def for_encoding_def default_decoder_def Let_def)
  also have "\<dots> = Inr (fst (scalars cs (?d, empty_decoded))\<lparr>carry := []\<rparr>, snd (scalars cs (?d, empty_decoded)))"
    by (rule decode_rest_Some) (simp add: assms(1) for_encoding_def)
  finally show ?thesis by (simp add: scalars_text empty_decoded_def)
qed

end
