(* ===== verification/Floats.thy ===== *)
theory Floats
  imports Complex_Main "HOL-Library.Log_Nat"
begin

text \<open>
  Floating point as the code uses it: non-negative finite values, far from the ends of the exponent
  range. A value is a rational; an operation is the exact one followed by rounding to \<open>p\<close> significant
  bits, ties to even (\<open>p = 24\<close> for \<open>f32\<close>, \<open>p = 53\<close> for \<open>f64\<close>).
\<close>

type_synonym f32 = rat

text \<open>The exponent of a positive value.\<close>

definition floor_log2 :: "rat \<Rightarrow> int" where
  "floor_log2 x =
     (if 1 \<le> x then int (floorlog 2 (nat \<lfloor>x\<rfloor>)) - 1 else - int (floorlog 2 (nat \<lceil>1 / x\<rceil> - 1)))"

definition round_even :: "rat \<Rightarrow> int" where
  "round_even y =
     (let f = \<lfloor>y\<rfloor>; r = y - of_int f
      in if r < 1 / 2 \<or> r = 1 / 2 \<and> even f then f else f + 1)"

definition fl :: "nat \<Rightarrow> rat \<Rightarrow> rat" where
  "fl p x =
     (if x = 0 then 0
      else (let ulp = 2 powi (floor_log2 x - int p + 1) in of_int (round_even (x / ulp)) * ulp))"

subsection \<open>Rounding\<close>

lemma floor_log2_bounds:
  assumes "0 < x"
  shows "2 powi floor_log2 x \<le> x" "x < 2 powi (floor_log2 x + 1)"
proof -
  have "2 powi floor_log2 x \<le> x \<and> x < 2 powi (floor_log2 x + 1)"
  proof (cases "1 \<le> x")
    case True
    let ?n = "nat \<lfloor>x\<rfloor>" and ?l = "floorlog 2 (nat \<lfloor>x\<rfloor>)"
    have n: "0 < ?n" "of_nat ?n \<le> x" "x < of_nat ?n + 1" using True floor_correct [of x] by simp_all
    have b: "2 ^ (?l - 1) \<le> ?n" "?n < 2 ^ ?l" using floorlog_bounds [of ?n 2] n(1) by auto
    have l: "0 < ?l" using b(2) n(1) by (cases ?l) auto
    have "of_nat (2 ^ (?l - 1)) \<le> (of_nat ?n :: rat)" "(of_nat (?n + 1) :: rat) \<le> of_nat (2 ^ ?l)"
      using b by (simp_all only: of_nat_le_iff Suc_eq_plus1 [symmetric] Suc_le_eq)
    then have "(2::rat) ^ (?l - 1) \<le> of_nat ?n" "of_nat ?n + 1 \<le> (2::rat) ^ ?l" by simp_all
    then have "(2::rat) ^ (?l - 1) \<le> x" "x < 2 ^ ?l" using n by linarith+
    moreover have "floor_log2 x = int (?l - 1)" using True l by (simp add: floor_log2_def)
    moreover have "int (?l - 1) + 1 = int ?l" using l by simp
    ultimately show ?thesis by (simp only: power_int_of_nat)
  next
    case False
    define m k where "m = nat \<lceil>1 / x\<rceil>" and "k = floorlog 2 (m - 1)"
    have inv: "1 < 1 / x" using False assms by simp
    then have m: "2 \<le> m" "1 / x \<le> of_nat m" "of_nat m < 1 / x + 1"
      unfolding m_def by (simp_all add: of_nat_nat less_ceiling_iff nat_le_eq_zle le_nat_iff) linarith+
    have b: "2 ^ (k - 1) \<le> m - 1" "m - 1 < 2 ^ k" using floorlog_bounds [of "m - 1" 2] m(1) by (auto simp: k_def)
    have k: "0 < k" using b(2) m(1) by (cases k) auto
    have "m \<le> 2 ^ k" "2 ^ (k - 1) + 1 \<le> m" using b m(1) by linarith+
    then have "(of_nat m :: rat) \<le> of_nat (2 ^ k)" "of_nat (2 ^ (k - 1) + 1) \<le> (of_nat m :: rat)"
      by (simp_all only: of_nat_le_iff)
    then have "of_nat m \<le> (2::rat) ^ k" "(2::rat) ^ (k - 1) + 1 \<le> of_nat m" by simp_all
    then have "1 / x \<le> 2 ^ k" "2 ^ (k - 1) < 1 / x" using m by linarith+
    then have "inverse (2 ^ k) \<le> x" "x < inverse (2 ^ (k - 1))"
      using assms by (simp_all add: field_simps)
    moreover have "floor_log2 x = - int k" using False by (simp add: floor_log2_def m_def k_def)
    moreover have "- int k + 1 = - int (k - 1)" using k by simp
    ultimately show ?thesis by (simp only: power_int_minus power_int_of_nat)
  qed
  then show "2 powi floor_log2 x \<le> x" "x < 2 powi (floor_log2 x + 1)" by simp_all
qed

lemma round_even_near: "\<bar>of_int (round_even y) - y\<bar> \<le> 1 / 2"
  using floor_correct [of y] unfolding round_even_def Let_def abs_le_iff by (cases "even \<lfloor>y\<rfloor>") (simp_all, linarith+)

lemma round_even_int [simp]: "round_even (of_int i) = i"
  by (simp add: round_even_def)

lemma fl_error:
  assumes "0 < x"
  shows "\<bar>fl p x - x\<bar> \<le> x / 2 ^ p"
proof -
  let ?u = "2 powi (floor_log2 x - int p + 1) :: rat"
  have u: "0 < ?u" by simp
  have "fl p x - x = (of_int (round_even (x / ?u)) - x / ?u) * ?u"
    using assms u by (simp add: fl_def Let_def left_diff_distrib)
  then have "\<bar>fl p x - x\<bar> \<le> 1 / 2 * ?u"
    using mult_right_mono [OF round_even_near [of "x / ?u"], of ?u] u by (simp add: abs_mult)
  also have "1 / 2 * ?u = 2 powi floor_log2 x / 2 ^ p"
    by (simp add: power_int_add power_int_diff)
  also have "\<dots> \<le> x / 2 ^ p" using floor_log2_bounds(1) [OF assms] by (simp add: divide_right_mono)
  finally show ?thesis .
qed

lemma fl_int:
  assumes "0 \<le> i" "i < 2 ^ p"
  shows "fl p (of_int i) = of_int i"
proof (cases "i = 0")
  case False
  then have pos: "0 < (of_int i :: rat)" using assms(1) by simp
  let ?e = "floor_log2 (of_int i)"
  have "2 powi ?e < (2 powi int p :: rat)"
  proof -
    have "2 powi ?e \<le> (of_int i :: rat)" by (rule floor_log2_bounds(1) [OF pos])
    also have "\<dots> < of_int (2 ^ p)" using assms(2) by (simp only: of_int_less_iff)
    finally show ?thesis by simp
  qed
  then have e: "?e < int p" by (rule power_int_le_imp_less_exp [rotated]) simp_all
  let ?u = "2 powi (?e - int p + 1) :: rat"
  have "?u = inverse (2 ^ nat (int p - 1 - ?e))"
  proof -
    have "?e - int p + 1 = - int (nat (int p - 1 - ?e))" using e by simp
    then show ?thesis by (metis power_int_minus power_int_of_nat)
  qed
  then have "of_int i / ?u = of_int (i * 2 ^ nat (int p - 1 - ?e))" by (simp add: divide_inverse)
  then have "of_int (round_even (of_int i / ?u)) = of_int i / ?u" by (simp only: round_even_int)
  then have "of_int (round_even (of_int i / ?u)) * ?u = of_int i / ?u * ?u" by simp
  then show ?thesis using False by (simp add: fl_def Let_def)
qed (simp add: fl_def)

lemma fl_nonneg: "0 \<le> x \<Longrightarrow> 0 \<le> fl p x"
proof (cases "x = 0")
  case False
  assume "0 \<le> x"
  then have x: "0 < x" using False by simp
  have "x / 2 ^ p \<le> x" using x by (simp add: field_simps)
  then show ?thesis using fl_error [OF x, of p] by linarith
qed (simp add: fl_def)

text \<open>A quotient of integers, rounded twice and rounded up, is the integer ceiling.\<close>

lemma ceiling_fl_quotient:
  assumes "0 < a" "a < 2 ^ p" "0 < b" "b < 2 ^ p"
  shows "\<lceil>fl p (fl p (of_int a) / fl p (of_int b))\<rceil> = \<lceil>of_int a / of_int b :: rat\<rceil>"
proof -
  let ?q = "of_int a / of_int b :: rat"
  let ?n = "\<lceil>?q\<rceil>"
  have q: "0 < ?q" using assms by simp
  have err: "?q / 2 ^ p < 1 / of_int b"
  proof -
    have "(of_int a :: rat) < of_int (2 ^ p)" using assms(2) by (simp only: of_int_less_iff)
    then have "of_int a / 2 ^ p < (1 :: rat)" by (simp add: divide_less_eq)
    then show ?thesis using assms(3) by (simp add: field_simps)
  qed
  have near: "\<bar>fl p ?q - ?q\<bar> < 1 / of_int b" using fl_error [OF q, of p] err by linarith
  have low: "of_int ?n - 1 + 1 / of_int b \<le> ?q"
  proof -
    have "(of_int ?n - 1) * of_int b < (of_int a :: rat)"
      using ceiling_correct [of ?q] assms(3) by (simp add: pos_less_divide_eq)
    then have "(of_int ((?n - 1) * b) :: rat) < of_int a" by simp
    then have "(?n - 1) * b + 1 \<le> a" by (simp only: of_int_less_iff)
    then have "(of_int ((?n - 1) * b + 1) :: rat) \<le> of_int a" by (simp only: of_int_le_iff)
    then have "of_int ((?n - 1) * b + 1) / of_int b \<le> ?q" using assms(3) by (intro divide_right_mono) simp_all
    then show ?thesis using assms(3) by (simp add: add_divide_distrib)
  qed
  have "\<lceil>fl p ?q\<rceil> = ?n"
  proof (cases "?q = of_int ?n")
    case True
    have "0 \<le> ?n" using q by simp
    moreover have "?n < 2 ^ p"
    proof -
      have "?q \<le> of_int a" using assms by (simp add: divide_le_eq)
      then have "of_int ?n \<le> (of_int a :: rat)" using True by simp
      then show ?thesis using assms(2) by simp
    qed
    ultimately have "fl p ?q = of_int ?n" using fl_int [of ?n p] True by metis
    then show ?thesis by simp
  next
    case False
    have "of_int a < (of_int (?n * b) :: rat)"
    proof -
      have "?q < of_int ?n" using False ceiling_correct [of ?q] by linarith
      then show ?thesis using assms(3) by (simp add: pos_divide_less_eq)
    qed
    then have "a + 1 \<le> ?n * b" by (simp only: of_int_less_iff)
    then have "(of_int (a + 1) :: rat) \<le> of_int (?n * b)" by (simp only: of_int_le_iff)
    then have "of_int (a + 1) / of_int b \<le> (of_int (?n * b) / of_int b :: rat)"
      using assms(3) by (intro divide_right_mono) simp_all
    then have "?q \<le> of_int ?n - 1 / of_int b" using assms(3) by (simp add: add_divide_distrib)
    then have "fl p ?q < of_int ?n" "of_int ?n - 1 < fl p ?q" using near low by linarith+
    then show ?thesis by (simp add: ceiling_eq_iff)
  qed
  then show ?thesis using assms fl_int by simp
qed

end
