(* ===== verification/Incidents.thy ===== *)
theory Incidents
  imports TimelineModel TextScan Floats "HOL-Library.Monad_Syntax"
begin

text \<open>
  Incident detection of the backend timeline: \<open>src-tauri/src/timeline/{models,correlation,incidents}.rs\<close>
  with the accessors of \<open>IntuneEvent\<close> it calls. A hash map is the list of its entries in the order its
  iterator gives them. Instants are \<open>i64\<close> milliseconds, counters and references words. The callback that
  reads a message may have effects, so its state is passed through.
\<close>

subsection \<open>Hash maps\<close>

type_synonym ('k, 'v) hash_map = "('k \<times> 'v) list"

text \<open>\<open>entry(k).or_insert(d)\<close> followed by a change of the value.\<close>

fun hm_entry :: "'k \<Rightarrow> 'v \<Rightarrow> ('v \<Rightarrow> 'v) \<Rightarrow> ('k, 'v) hash_map \<Rightarrow> ('k, 'v) hash_map" where
  "hm_entry k d f [] = [(k, f d)]"
| "hm_entry k d f ((l, v) # m) = (if l = k then (l, f v) # m else (l, v) # hm_entry k d f m)"

subsection \<open>The data\<close>

record entry_index =
  ei_ts :: int
  ei_severity :: severity
  ei_source :: u16
  ei_offset :: nat
  ei_line :: u32
  ei_flags :: u8

definition flag_has_error_code :: u8 where "flag_has_error_code = 1"

datatype signal_kind = ErrorSeverity | KnownErrorCode | ImeFailed

record tl_signal =
  sg_source :: u16
  sg_ref :: u32
  sg_ts :: int
  sg_kind :: signal_kind
  sg_correlation :: "string option"

record incident =
  in_id :: u32
  in_start :: int
  in_end :: int
  in_signals :: u32
  in_sources :: u8
  in_confidence :: f32
  in_anchor :: "(u16 \<times> u32) option"
  in_guid :: "string option"
  in_summary :: string

record tunables =
  overlap_window_ms :: int
  min_source_count :: u8
  max_incident_span_ms :: int
  enabled_signal_kinds :: "signal_kind list"

definition default_tunables :: tunables where
  "default_tunables =
     \<lparr>overlap_window_ms = 5000, min_source_count = 2, max_incident_span_ms = 60000,
      enabled_signal_kinds = [ErrorSeverity, KnownErrorCode, ImeFailed]\<rparr>"

datatype intune_event_type = Win32App | WinGetApp | PowerShellScript | Remediation | Esp | SyncSession
  | PolicyEvaluation | ContentDownload | OtherEvent

datatype intune_status = IntuneSuccess | IntuneFailed | InProgress | Pending | IntuneTimeout | UnknownStatus

record intune_event =
  iv_type :: intune_event_type
  iv_name :: string
  iv_guid :: "string option"
  iv_status :: intune_status
  iv_start :: "int option"

definition status_is_failed :: "intune_event \<Rightarrow> bool" where
  "status_is_failed ev \<longleftrightarrow> iv_status ev = IntuneFailed"

definition display_name :: "intune_event \<Rightarrow> string option" where
  "display_name ev = (if iv_name ev = [] then None else Some (iv_name ev))"

fun event_kind_label :: "intune_event_type \<Rightarrow> string" where
  "event_kind_label Win32App = ''App Install''"
| "event_kind_label WinGetApp = ''WinGet Install''"
| "event_kind_label PowerShellScript = ''Script''"
| "event_kind_label Remediation = ''Remediation''"
| "event_kind_label Esp = ''ESP''"
| "event_kind_label SyncSession = ''Sync''"
| "event_kind_label PolicyEvaluation = ''Policy''"
| "event_kind_label ContentDownload = ''Download''"
| "event_kind_label OtherEvent = ''Operation''"

subsection \<open>GUIDs\<close>

definition normalize_guid :: "string \<Rightarrow> string option" where
  "normalize_guid s =
     (let trimmed = rev (dropWhile (\<lambda>c. c = CHR ''}'') (rev (dropWhile (\<lambda>c. c = CHR ''{'') (str_trim s))));
          hex = List.map lower_char (List.filter is_hexdigit trimmed)
      in if length hex \<noteq> 32 then None
         else Some (slice hex 0 8 @ ''-'' @ slice hex 8 12 @ ''-'' @ slice hex 12 16 @ ''-''
                    @ slice hex 16 20 @ ''-'' @ slice hex 20 32))"

text \<open>The expression of \<open>extract_guids\<close>: groups of hexadecimal digits between optional braces.\<close>

fun hex_groups :: "nat list \<Rightarrow> string \<Rightarrow> (string \<times> string) option" where
  "hex_groups [] s = Some ([], s)"
| "hex_groups (n # ns) s =
     (if n \<le> length s \<and> list_all is_hexdigit (take n s) then
        (if ns = [] then Some (take n s, drop n s)
         else
           (case drop n s of
              [] \<Rightarrow> None
            | c # r \<Rightarrow>
                if c = CHR ''-'' then
                  map_option (\<lambda>(g, t). (take n s @ c # g, t)) (hex_groups ns r)
                else None))
      else None)"

definition guid_at :: "string \<Rightarrow> (string \<times> string) option" where
  "guid_at s =
     (let body = (case s of [] \<Rightarrow> [] | c # r \<Rightarrow> if c = CHR ''{'' then r else s)
      in map_option (\<lambda>(g, t). (g, case t of [] \<Rightarrow> [] | c # r \<Rightarrow> if c = CHR ''}'' then r else t))
           (hex_groups [8, 4, 4, 4, 12] body))"

lemma hex_groups_shorter:
  "hex_groups ns s = Some (g, t) \<Longrightarrow> length g + length t = length s \<and> (ns \<noteq> [] \<longrightarrow> hd ns \<le> length g)"
proof (induction ns s arbitrary: g t rule: hex_groups.induct)
  case (2 n ns s)
  show ?case
  proof (cases "ns = []")
    case True
    then show ?thesis using 2(2) by (auto split: if_splits)
  next
    case False
    then obtain r g' where r: "drop n s = CHR ''-'' # r" "n \<le> length s" "list_all is_hexdigit (take n s)"
        "hex_groups ns r = Some (g', t)" "g = take n s @ CHR ''-'' # g'"
      using 2(2) by (auto split: if_splits list.splits)
    have "length g' + length t = length r" using 2(1) [OF _ False r(1) refl r(4)] r(2,3) by simp
    moreover have "length s = n + Suc (length r)" using arg_cong [OF r(1), of length] r(2) by simp
    ultimately show ?thesis using r(5,2) by simp
  qed
qed simp

lemma guid_at_shorter: "guid_at s = Some (g, t) \<Longrightarrow> length t < length s"
proof -
  define body where "body = (case s of [] \<Rightarrow> [] | c # r \<Rightarrow> if c = CHR ''{'' then r else s)"
  assume "guid_at s = Some (g, t)"
  then obtain u where u: "hex_groups [8, 4, 4, 4, 12] body = Some (g, u)"
      "t = (case u of [] \<Rightarrow> [] | c # r \<Rightarrow> if c = CHR ''}'' then r else u)"
    by (auto simp: guid_at_def body_def [symmetric] simp del: hex_groups.simps)
  have "length t \<le> length u" unfolding u(2) by (simp split: list.split)
  moreover have "length u < length body" using hex_groups_shorter [OF u(1)] by simp
  moreover have "length body \<le> length s" unfolding body_def by (simp split: list.split)
  ultimately show ?thesis by linarith
qed

text \<open>\<open>captures_iter\<close>: leftmost matches that do not overlap.\<close>

function guid_scan :: "string \<Rightarrow> string list" where
  "guid_scan [] = []"
| "guid_scan (c # s) =
     (case guid_at (c # s) of
        None \<Rightarrow> guid_scan s
      | Some (g, t) \<Rightarrow> g # guid_scan t)"
  by pat_completeness auto
termination
  by (relation "measure length") (auto simp: dest: guid_at_shorter)

definition extract_guids :: "string \<Rightarrow> string list" where
  "extract_guids msg = List.map_filter normalize_guid (guid_scan msg)"

text \<open>Hits per GUID and source: messages that name it, of how many sampled.\<close>

definition count_hit :: "u16 \<Rightarrow> nat \<Rightarrow> string \<Rightarrow> (string, (u16, nat \<times> nat) hash_map) hash_map
    \<Rightarrow> (string, (u16, nat \<times> nat) hash_map) hash_map" where
  "count_hit src n g =
     hm_entry g [] (hm_entry src (0, 0) (\<lambda>(h, t). (h + 1, n)))"

definition source_hits :: "(u16, string list) hash_map \<Rightarrow> (string, (u16, nat \<times> nat) hash_map) hash_map" where
  "source_hits samples =
     foldl (\<lambda>m (src, msgs). foldl (\<lambda>m msg. foldl (\<lambda>m g. count_hit src (length msgs) g m) m
         (remdups (extract_guids msg))) m msgs) [] samples"

definition high_frequency_guids :: "(u16, string list) hash_map \<Rightarrow> f32 \<Rightarrow> nat \<Rightarrow> string list" where
  "high_frequency_guids samples threshold min_sources =
     List.map fst (List.filter (\<lambda>(g, srcs).
         length (List.filter (\<lambda>(_, h, t). t > 0 \<and> fl 24 (fl 24 (of_nat h) / fl 24 (of_nat t)) \<ge> threshold) srcs)
           \<ge> min_sources) (source_hits samples))"

subsection \<open>Signals\<close>

definition raw_signal :: "u16 \<Rightarrow> nat \<Rightarrow> int \<Rightarrow> signal_kind \<Rightarrow> tl_signal" where
  "raw_signal src i ts kind =
     \<lparr>sg_source = src, sg_ref = of_nat i, sg_ts = ts, sg_kind = kind, sg_correlation = None\<rparr>"

definition entry_signals :: "bool \<Rightarrow> bool \<Rightarrow> u16 \<Rightarrow> nat \<Rightarrow> entry_index \<Rightarrow> tl_signal list" where
  "entry_signals want_err want_code src i ei =
     (if want_err \<and> ei_severity ei = LogError then [raw_signal src i (ei_ts ei) ErrorSeverity] else [])
     @ (if want_code \<and> and (ei_flags ei) flag_has_error_code \<noteq> 0
        then [raw_signal src i (ei_ts ei) KnownErrorCode] else [])"

definition ime_signals :: "u16 \<Rightarrow> nat \<Rightarrow> intune_event \<Rightarrow> tl_signal list" where
  "ime_signals src i ev =
     (if status_is_failed ev then
        (case iv_start ev of Some ts \<Rightarrow> [raw_signal src i ts ImeFailed] | None \<Rightarrow> [])
      else [])"

definition emit_signals ::
  "(u16, entry_index list) hash_map \<Rightarrow> (u16, intune_event list) hash_map \<Rightarrow> signal_kind list \<Rightarrow> tl_signal list" where
  "emit_signals indexes ime_events enabled =
     (let want_err = ErrorSeverity \<in> set enabled; want_code = KnownErrorCode \<in> set enabled;
          want_ime = ImeFailed \<in> set enabled
      in sort_key sg_ts
           (concat (List.map (\<lambda>(src, rows).
                concat (List.map (\<lambda>(i, ei). entry_signals want_err want_code src i ei) (enumerate 0 rows))) indexes)
            @ (if want_ime then
                 concat (List.map (\<lambda>(src, evs).
                   concat (List.map (\<lambda>(i, ev). ime_signals src i ev) (enumerate 0 evs))) ime_events)
               else [])))"

subsection \<open>Clusters\<close>

record cluster =
  cl_signals :: "tl_signal list"
  cl_start :: int
  cl_end :: int

text \<open>One signal: it joins the last cluster when it is near its end and within its span, or opens a new
  one.\<close>

definition cluster_step :: "int \<Rightarrow> int \<Rightarrow> cluster list \<Rightarrow> tl_signal \<Rightarrow> cluster list" where
  "cluster_step window max_span out s =
     (if out \<noteq> [] \<and> wrap64 (sg_ts s - cl_end (last out)) \<le> window
         \<and> wrap64 (sg_ts s - cl_start (last out)) \<le> max_span
      then butlast out @ [(last out)\<lparr>cl_end := sg_ts s, cl_signals := cl_signals (last out) @ [s]\<rparr>]
      else out @ [\<lparr>cl_signals = [s], cl_start = sg_ts s, cl_end = sg_ts s\<rparr>])"

definition cluster_signals :: "tl_signal list \<Rightarrow> int \<Rightarrow> int \<Rightarrow> cluster list" where
  "cluster_signals sigs window max_span = foldl (cluster_step window max_span) [] sigs"

subsection \<open>Incidents\<close>

definition score :: "u8 \<Rightarrow> u32 \<Rightarrow> u32 \<Rightarrow> f32" where
  "score source_count signal_count guid_match =
     (let base = (if source_count \<le> 1 then 0 else if source_count = 2 then 1 / 2
                  else if source_count = 3 then 3 / 4 else fl 24 (85 / 100));
          guid_boost = fl 24 (of_nat (min (unat guid_match) 3) * fl 24 (8 / 100));
          density_boost = fl 24 (min (fl 24 (of_nat (unat signal_count - 3))) 10 * fl 24 (1 / 100))
      in min (fl 24 (fl 24 (base + guid_boost) + density_boost)) 1)"

definition ime_event_at :: "(u16, intune_event list) hash_map \<Rightarrow> u16 \<Rightarrow> u32 \<Rightarrow> intune_event option" where
  "ime_event_at ime_events src r = Option.bind (map_of ime_events src) (\<lambda>evs. nth_opt evs (unat r))"

definition source_set :: "tl_signal list \<Rightarrow> u16 list" where
  "source_set sigs = remdups (List.map sg_source sigs)"

definition summarize ::
  "tl_signal list \<Rightarrow> (u16 \<times> u32) option \<Rightarrow> (u16, intune_event list) hash_map \<Rightarrow> string" where
  "summarize sigs anchor ime_events =
     (case Option.bind anchor (\<lambda>(src, r). ime_event_at ime_events src r) of
        Some ev \<Rightarrow>
          event_kind_label (iv_type ev) @ '' failed: ''
            @ (case display_name ev of Some n \<Rightarrow> n | None \<Rightarrow> ''(unknown)'')
      | None \<Rightarrow> dec (length sigs) @ '' signals across '' @ dec (length (source_set sigs)) @ '' sources'')"

type_synonym 'st read_message = "'st \<Rightarrow> u16 \<Rightarrow> u32 \<Rightarrow> string option \<times> 'st"

text \<open>Signals other than the anchor whose message names its GUID are stamped and counted.\<close>

fun stamp_signals :: "'st read_message \<Rightarrow> 'st \<Rightarrow> u16 \<times> u32 \<Rightarrow> string \<Rightarrow> tl_signal list
    \<Rightarrow> tl_signal list \<times> u32 \<times> 'st" where
  "stamp_signals read st anchor g [] = ([], 0, st)"
| "stamp_signals read st anchor g (s # ss) =
     (if (sg_source s, sg_ref s) = anchor then
        (let (ss, n, st) = stamp_signals read st anchor g ss in (s # ss, n, st))
      else
        (let (msg, st) = read st (sg_source s) (sg_ref s);
             hit = (case msg of Some m \<Rightarrow> g \<in> set (extract_guids m) | None \<Rightarrow> False);
             (ss, n, st) = stamp_signals read st anchor g ss
         in if hit then (s\<lparr>sg_correlation := Some g\<rparr> # ss, n + 1, st) else (s # ss, n, st)))"

definition qualify_cluster ::
  "(u16, intune_event list) hash_map \<Rightarrow> 'st read_message \<Rightarrow> string set \<Rightarrow> u32 \<Rightarrow> 'st \<Rightarrow> cluster
     \<Rightarrow> incident \<times> 'st" where
  "qualify_cluster ime_events read denied next_id st c =
     (let anchor_sig = List.find (\<lambda>s. sg_kind s = ImeFailed) (cl_signals c);
          anchor = map_option (\<lambda>a. (sg_source a, sg_ref a)) anchor_sig;
          guid = (case Option.bind anchor (\<lambda>(src, r). do { ev \<leftarrow> ime_event_at ime_events src r;
                      g \<leftarrow> iv_guid ev; normalize_guid g }) of
              Some g \<Rightarrow> if g \<in> denied then None else Some g
            | None \<Rightarrow> None);
          (stamped, hits, st) = (case (anchor, guid) of
              (Some a, Some g) \<Rightarrow> stamp_signals read st a g (cl_signals c)
            | _ \<Rightarrow> (cl_signals c, 0, st));
          sources = of_nat (length (source_set (cl_signals c))) :: u8
      in (\<lparr>in_id = next_id, in_start = cl_start c, in_end = cl_end c, in_signals = of_nat (length stamped),
           in_sources = sources, in_confidence = score sources (of_nat (length stamped)) hits,
           in_anchor = anchor, in_guid = guid, in_summary = summarize stamped anchor ime_events\<rparr>, st))"

text \<open>The loop of \<open>qualify\<close>: clusters with too few sources are skipped.\<close>

fun qualify ::
  "(u16, intune_event list) hash_map \<Rightarrow> 'st read_message \<Rightarrow> string set \<Rightarrow> u8 \<Rightarrow> u32 \<Rightarrow> 'st \<Rightarrow> cluster list
     \<Rightarrow> incident list \<times> 'st" where
  "qualify ime_events read denied min_sources next_id st [] = ([], st)"
| "qualify ime_events read denied min_sources next_id st (c # cs) =
     (if (of_nat (length (source_set (cl_signals c))) :: u8) < min_sources
      then qualify ime_events read denied min_sources next_id st cs
      else
        (let (i, st) = qualify_cluster ime_events read denied next_id st c;
             (incs, st) = qualify ime_events read denied min_sources (next_id + 1) st cs
         in (i # incs, st)))"

definition detect_incidents ::
  "(u16, entry_index list) hash_map \<Rightarrow> (u16, intune_event list) hash_map \<Rightarrow> tunables \<Rightarrow> string set
     \<Rightarrow> 'st read_message \<Rightarrow> 'st \<Rightarrow> (tl_signal list \<times> incident list) \<times> 'st" where
  "detect_incidents indexes ime_events t denied read st =
     (let sigs = emit_signals indexes ime_events (enabled_signal_kinds t);
          (incs, st) = qualify ime_events read denied (min_source_count t) 1 st
              (cluster_signals sigs (overlap_window_ms t) (max_incident_span_ms t))
      in ((sigs, incs), st))"

definition redetect_from_signals ::
  "tl_signal list \<Rightarrow> (u16, intune_event list) hash_map \<Rightarrow> tunables \<Rightarrow> string set \<Rightarrow> 'st read_message \<Rightarrow> 'st
     \<Rightarrow> incident list \<times> 'st" where
  "redetect_from_signals sigs ime_events t denied read st =
     qualify ime_events read denied (min_source_count t) 1 st
       (cluster_signals (List.filter (\<lambda>s. sg_kind s \<in> set (enabled_signal_kinds t)) sigs)
          (overlap_window_ms t) (max_incident_span_ms t))"

end
