(* ===== verification/TimelineFirewall.thy ===== *)
theory TimelineFirewall
  imports FirewallSource Incidents
begin

text \<open>
  \<open>src-tauri/src/timeline/firewall.rs\<close>: the index of a Windows Firewall source, and reading one of its rows
  back from the file. The file system is a parameter: what opening a path gives, and what a handle reads.
  Ordered maps that are only looked up in are association lists, newest entry first.
\<close>

subsection \<open>Data\<close>

datatype materialization_error = SourceChanged | GenerationUnverifiable | ReadDecodeFailure | InvalidIndexContext

record indexed_row =
  ir_span :: raw_span
  ir_id :: u64

record 'id firewall_runtime =
  rt_identity :: "'id option"
  rt_encoding :: fw_encoding
  rt_snapshot_len :: nat
  rt_contexts :: "context_change list"
  rt_rows :: "(u32 \<times> indexed_row) list"

text \<open>What the index is built from: the rows, length and firewall artifacts of a parsed file.\<close>

record 'id artifacts =
  ar_entries :: "row list"
  ar_byte_offset :: nat
  ar_identity :: "'id option"
  ar_firewall :: "snapshot option"

record 'id indexed_firewall =
  fx_entries :: "entry_index list"
  fx_runtime :: "'id firewall_runtime"
  fx_excluded :: u32

text \<open>\<open>partition_point\<close> of a partitioned slice, and the context in force at a line.\<close>

definition partition_point :: "('a \<Rightarrow> bool) \<Rightarrow> 'a list \<Rightarrow> nat" where
  "partition_point P xs = length (takeWhile P xs)"

definition change_at :: "u32 \<Rightarrow> context_change list \<Rightarrow> fw_context option" where
  "change_at line changes =
     (let e = partition_point (\<lambda>p. change_line p \<le> line) changes
      in if e = 0 then None else Some (change_context (changes ! (e - 1))))"

definition context_at :: "'id firewall_runtime \<Rightarrow> u32 \<Rightarrow> fw_context option" where
  "context_at rt line = change_at line (rt_contexts rt)"

subsection \<open>The index\<close>

definition spans_by_line :: "raw_span list \<Rightarrow> u32 \<Rightarrow> raw_span option" where
  "spans_by_line spans = map_of (rev (List.map (\<lambda>s. (span_line s, s)) spans))"

definition add_context :: "u32 \<Rightarrow> fw_context \<Rightarrow> context_change list \<Rightarrow> context_change list" where
  "add_context line c cs =
     (if cs \<noteq> [] \<and> change_context (last cs) = c then cs
      else cs @ [\<lparr>change_line = line, change_context = c\<rparr>])"

text \<open>One indexed record: its context, its row and its entry.\<close>

definition index_entry :: "row \<Rightarrow> int \<Rightarrow> raw_span \<Rightarrow> fw_context \<Rightarrow> 'id indexed_firewall \<Rightarrow> 'id indexed_firewall" where
  "index_entry e ts sp c x =
     (let rt = fx_runtime x in
      x\<lparr>fx_runtime := rt\<lparr>rt_contexts := add_context (line_number e) c (rt_contexts rt),
                         rt_rows := (line_number e, \<lparr>ir_span = sp, ir_id = entry_id e\<rparr>) # rt_rows rt\<rparr>,
        fx_entries := fx_entries x @
          [\<lparr>ei_ts = ts, ei_severity = entry_severity e, ei_source = 0, ei_offset = span_start sp,
            ei_line = line_number e, ei_flags = 0\<rparr>]\<rparr>)"

fun index_loop :: "raw_span list \<Rightarrow> context_change list \<Rightarrow> row list \<Rightarrow> 'id indexed_firewall
    \<Rightarrow> materialization_error + 'id indexed_firewall" where
  "index_loop spans changes [] x = Inr x"
| "index_loop spans changes (e # es) x =
     (case timestamp e of
        None \<Rightarrow> index_loop spans changes es (x\<lparr>fx_excluded := sat_inc (fx_excluded x)\<rparr>)
      | Some ts \<Rightarrow>
          (case spans_by_line spans (line_number e) of
             None \<Rightarrow> Inl InvalidIndexContext
           | Some sp \<Rightarrow>
               (case change_at (line_number e) changes of
                  None \<Rightarrow> Inl InvalidIndexContext
                | Some c \<Rightarrow> index_loop spans changes es (index_entry e ts sp c x))))"

definition index_firewall :: "'id artifacts \<Rightarrow> materialization_error + 'id indexed_firewall" where
  "index_firewall ar =
     (case ar_firewall ar of
        None \<Rightarrow> Inl InvalidIndexContext
      | Some s \<Rightarrow>
          index_loop (sn_spans s) (sn_changes s) (ar_entries ar)
            \<lparr>fx_entries = [],
             fx_runtime = \<lparr>rt_identity = ar_identity ar, rt_encoding = dec_encoding (sn_decoder s),
                           rt_snapshot_len = ar_byte_offset ar, rt_contexts = [], rt_rows = []\<rparr>,
             fx_excluded = 0\<rparr>)"

subsection \<open>Reading a row back\<close>

text \<open>An open file: its length, its identity, and \<open>seek\<close> followed by \<open>read_exact\<close>.\<close>

record 'id opened_file =
  of_length :: "nat option"
  of_identity :: "'id option"
  of_read :: "nat \<Rightarrow> nat \<Rightarrow> string option"

datatype 'id open_result = NotFoundError | OpenError | Opened "'id opened_file"

record 'id read_session =
  rs_file :: "'id opened_file"
  rs_path :: string
  rs_runtime :: "'id firewall_runtime"

definition open_session ::
  "(string \<Rightarrow> 'id open_result) \<Rightarrow> string \<Rightarrow> 'id firewall_runtime \<Rightarrow> materialization_error + 'id read_session" where
  "open_session fs path rt =
     (case rt_identity rt of
        None \<Rightarrow> Inl GenerationUnverifiable
      | Some expected \<Rightarrow>
          (case fs path of
             NotFoundError \<Rightarrow> Inl SourceChanged
           | OpenError \<Rightarrow> Inl ReadDecodeFailure
           | Opened f \<Rightarrow>
               (case of_length f of
                  None \<Rightarrow> Inl ReadDecodeFailure
                | Some len \<Rightarrow>
                    (case of_identity f of
                       None \<Rightarrow> Inl GenerationUnverifiable
                     | Some actual \<Rightarrow>
                         if actual \<noteq> expected \<or> len < rt_snapshot_len rt then Inl SourceChanged
                         else Inr \<lparr>rs_file = f, rs_path = path, rs_runtime = rt\<rparr>))))"

text \<open>The bytes of a span in blocks of 4096, decoded as they come.\<close>

function read_span ::
  "(char \<Rightarrow> rust_char) \<Rightarrow> (nat \<Rightarrow> nat \<Rightarrow> string option) \<Rightarrow> nat \<Rightarrow> nat \<Rightarrow> decoder \<Rightarrow> string
     \<Rightarrow> materialization_error + (decoder \<times> string)" where
  "read_span w1252 rd pos remaining d txt =
     (if remaining = 0 then Inr (d, txt)
      else
        (let count = min remaining 4096 in
         case rd pos count of
           None \<Rightarrow> Inl ReadDecodeFailure
         | Some raw \<Rightarrow>
             (case push_bytes w1252 raw d of
                (_, Inl _) \<Rightarrow> Inl ReadDecodeFailure
              | (d, Inr out) \<Rightarrow>
                  (let more = concat (dc_text out) in
                   if length txt + length more > max_line_bytes + 2 then Inl InvalidIndexContext
                   else read_span w1252 rd (pos + count) (remaining - count) d (txt @ more)))))"
  by pat_completeness auto
termination
  by (relation "measure (\<lambda>(_, _, _, remaining, _, _). remaining)") auto

declare read_span.simps [simp del]

definition strip_one :: "char \<Rightarrow> string \<Rightarrow> string" where
  "strip_one c s = (if s \<noteq> [] \<and> last s = c then butlast s else s)"

definition materialize_firewall_entry ::
  "fw_env \<Rightarrow> (char \<Rightarrow> rust_char) \<Rightarrow> 'id read_session \<Rightarrow> fw_context \<Rightarrow> entry_index \<Rightarrow> materialization_error + row" where
  "materialize_firewall_entry env w1252 session c ix =
     (case map_of (rt_rows (rs_runtime session)) (ei_line ix) of
        None \<Rightarrow> Inl InvalidIndexContext
      | Some r \<Rightarrow>
          (let start = span_start (ir_span r); fin = span_end (ir_span r) in
           if start \<noteq> ei_offset ix \<or> context_at (rs_runtime session) (ei_line ix) \<noteq> Some c then Inl InvalidIndexContext
           else if fin < start then Inl InvalidIndexContext
           else if fin - start = 0 \<or> fin - start > 2 * (max_line_bytes + 2) then Inl InvalidIndexContext
           else
             bind_res (read_span w1252 (of_read (rs_file session)) start (fin - start)
                 (for_encoding (rt_encoding (rs_runtime session))) []) (\<lambda>(d, txt).
               if pending_bytes d \<noteq> 0 then Inl ReadDecodeFailure
               else
                 (let line = strip_one (CHR 0x0D) (strip_one (CHR 0x0A) txt) in
                  if CHR 0x0A \<in> set line \<or> length line > max_line_bytes then Inl InvalidIndexContext
                  else
                    (let e = result_entry (parse_record env line c (ir_id r) (ei_line ix) (rs_path session)) in
                     if timestamp e \<noteq> Some (ei_ts ix) \<or> entry_severity e \<noteq> ei_severity ix then Inl InvalidIndexContext
                     else Inr e)))))"

end
