(* ===== verification/FirewallLines.thy ===== *)
theory FirewallLines
  imports FirewallSlices FirewallSim TimelineFirewall
begin

text \<open>
  The physical lines of a firewall log, seen by the stream and by the decoder: the text the stream parses
  for a line is the text its span decodes to again.
\<close>

subsection \<open>Reading a span\<close>

definition holds_bytes :: "(nat \<Rightarrow> nat \<Rightarrow> string option) \<Rightarrow> string \<Rightarrow> bool" where
  "holds_bytes rd bytes \<longleftrightarrow> (\<forall>pos k. pos + k \<le> length bytes \<longrightarrow> rd pos k = Some (take k (drop pos bytes)))"

lemma read_span_decode:
  assumes "holds_bytes rd bytes" "decoder_ok w d" "decode w (take remaining (drop pos bytes)) d = Inr (d', out)"
    "pos + remaining \<le> length bytes" "length (tx @ concat (dc_text out)) \<le> max_line_bytes + 2"
  shows "read_span w rd pos remaining d tx = Inr (d', tx @ concat (dc_text out))"
  using assms
proof (induction w rd pos remaining d tx arbitrary: out rule: read_span.induct)
  case (1 w rd pos remaining d tx)
  show ?case
  proof (cases "remaining = 0")
    case True
    then have "d' = d" "out = empty_decoded" using 1(4) decode_Nil [OF 1(3)] by simp_all
    then show ?thesis using True by (simp add: read_span.simps empty_decoded_def)
  next
    case False
    let ?n = "min remaining 4096"
    let ?a = "take ?n (drop pos bytes)" and ?b = "take (remaining - ?n) (drop (pos + ?n) bytes)"
    have rd: "rd pos ?n = Some ?a" proof -
      have "pos + ?n \<le> length bytes" using 1(5) by simp
      then show ?thesis using 1(2) unfolding holds_bytes_def by blast
    qed
    have cut: "take remaining (drop pos bytes) = ?a @ ?b"
      using take_add [of ?n "remaining - ?n" "drop pos bytes"] by (simp add: add.commute)
    show ?thesis
    proof (cases "decode w ?a d")
      case (Inl e)
      then show ?thesis using 1(4) decode_append(1) [OF 1(3), of ?a ?b] by (simp add: cut)
    next
      case (Inr x)
      obtain d1 o1 where x: "x = (d1, o1)" by (cases x)
      have ok: "decoder_ok w d1" using decode_append(2) [OF 1(3)] Inr x by simp
      obtain o2 where o2: "decode w ?b d1 = Inr (d', o2)" "out = add_decoded o1 o2"
        using 1(4) decode_append(1) [OF 1(3), of ?a ?b] Inr x by (auto simp: cut map_pushed_def split: sum.splits)
      have len: "length ((tx @ concat (dc_text o1)) @ concat (dc_text o2)) \<le> max_line_bytes + 2"
        using 1(6) o2(2) by (simp add: add_decoded_def)
      have push: "push_bytes w ?a d = (d1, Inr o1)" using Inr x by (simp add: push_bytes_def)
      have "read_span w rd (pos + ?n) (remaining - ?n) d1 (tx @ concat (dc_text o1)) =
          Inr (d', (tx @ concat (dc_text o1)) @ concat (dc_text o2))"
        using 1(2,5) ok o2(1) len False by (intro 1(1) [OF False refl rd push [symmetric] refl refl]) simp_all
      then show ?thesis
        using False rd push len o2(2) by (subst read_span.simps) (simp add: Let_def add_decoded_def)
    qed
  qed
qed

subsection \<open>One line\<close>

text \<open>The characters of a line from its first one that is not padding, and the text that is parsed.\<close>

abbreviation nul :: rust_char where "nul \<equiv> [CHR 0x00]"
abbreviation cr :: rust_char where "cr \<equiv> [CHR 0x0D]"

definition body :: "rust_char list \<Rightarrow> rust_char list" where
  "body L = dropWhile (\<lambda>c. c = nul) L"

definition line_text :: "rust_char list \<Rightarrow> string" where
  "line_text L = concat (if body L \<noteq> [] \<and> last (body L) = cr then butlast (body L) else body L)"

lemma body_snoc: "body (L @ [ch]) = (if body L = [] then if ch = nul then [] else [ch] else body L @ [ch])"
  by (induction L) (simp_all add: body_def)

definition line_inv :: "rust_char list \<Rightarrow> stream \<Rightarrow> bool" where
  "line_inv L st \<longleftrightarrow>
     pending_cr st = (body L \<noteq> [] \<and> last (body L) = cr)
     \<and> (\<not> over st \<longrightarrow> pending st = line_text L \<and> length (line_text L) \<le> max_line_bytes)"

lemma text_char_over: "over st \<Longrightarrow> text_char ch st = st"
  by (simp add: text_char_def)

lemma text_char_add:
  "ch = nul \<longrightarrow> pending st \<noteq> [] \<Longrightarrow> \<not> over (text_char ch st) \<Longrightarrow>
     \<not> over st \<and> pending (text_char ch st) = pending st @ ch \<and> length (pending st @ ch) \<le> max_line_bytes"
  by (auto simp: text_char_def split: if_splits)

lemma text_char_cr [simp]: "pending_cr (text_char ch st) = pending_cr st"
  by (simp add: text_char_def)

lemma absorb_line_inv:
  assumes "line_inv L st" "list_all char_ok (L @ [ch])" "ch \<noteq> newline"
  shows "line_inv (L @ [ch]) (absorb ch st)"
proof -
  let ?z = "st\<lparr>line_active := True\<rparr>" and ?s = "flush_cr (st\<lparr>line_active := True\<rparr>)"
  have cr0: "pending_cr ?s = False" by (simp add: flush_cr_def)
  have nonempty: "c \<noteq> []" if "c \<in> set (body L)" for c
    using assms(2) that unfolding body_def by (auto simp: list_all_iff char_ok_def dest: set_dropWhileD)
  have flushed: "pending ?s = concat (body L) \<and> \<not> over st" if "\<not> over ?s"
  proof (cases "pending_cr st")
    case True
    then have b: "body L \<noteq> []" "last (body L) = cr" using assms(1) by (simp_all add: line_inv_def)
    have "\<not> over (text_char cr (?z\<lparr>pending_cr := False\<rparr>))" using that True by (simp add: flush_cr_def)
    from text_char_add [OF _ this] have "\<not> over st"
        "pending (text_char cr (?z\<lparr>pending_cr := False\<rparr>)) = pending st @ cr" by simp_all
    moreover have "concat (body L) = concat (butlast (body L)) @ cr"
      using append_butlast_last_id [OF b(1)] b(2) by (metis concat_append concat.simps append_Nil2)
    ultimately show ?thesis using True assms(1) b by (simp add: flush_cr_def line_inv_def line_text_def)
  next
    case False
    then show ?thesis using assms(1) that by (auto simp: flush_cr_def line_inv_def line_text_def)
  qed
  have small: "length (concat (body L)) \<le> max_line_bytes" if "\<not> over ?s"
  proof (cases "pending_cr st")
    case True
    have "\<not> over (text_char cr (?z\<lparr>pending_cr := False\<rparr>))" using that True by (simp add: flush_cr_def)
    from text_char_add [OF _ this] have "length (pending st @ cr) \<le> max_line_bytes" by simp
    moreover have "pending st @ cr = concat (body L)"
      using flushed [OF that] text_char_add [OF _ \<open>\<not> over (text_char cr (?z\<lparr>pending_cr := False\<rparr>))\<close>] True
      by (simp add: flush_cr_def)
    ultimately show ?thesis by metis
  next
    case False
    then show ?thesis using assms(1) that by (auto simp: flush_cr_def line_inv_def line_text_def)
  qed
  show ?thesis
  proof (cases "ch = cr")
    case True
    then have "body (L @ [ch]) = body L @ [cr]" by (simp add: body_snoc)
    then show ?thesis
      using True flushed small by (auto simp: absorb_def line_inv_def line_text_def)
  next
    case False
    show ?thesis
    proof (cases "body L = [] \<and> ch = nul")
      case True
      then have "\<not> pending_cr st" "body (L @ [ch]) = []" using assms(1) by (simp_all add: line_inv_def body_snoc)
      moreover from this have "absorb ch st = text_char nul ?z" using True by (simp add: absorb_def Let_def flush_cr_def)
      moreover have "\<not> over st \<Longrightarrow> pending st = []" using assms(1) True by (simp add: line_inv_def line_text_def)
      ultimately show ?thesis by (cases "over st") (simp_all add: line_inv_def line_text_def text_char_def)
    next
      case ne: False
      have b: "body (L @ [ch]) = body L @ [ch]" using ne by (auto simp: body_snoc)
      have "pending (text_char ch ?s) = concat (body L) @ ch \<and> length (concat (body L) @ ch) \<le> max_line_bytes"
        if o: "\<not> over (text_char ch ?s)"
      proof -
        have os: "\<not> over ?s" using o text_char_over by metis
        have "ch = nul \<longrightarrow> pending ?s \<noteq> []"
          using flushed [OF os] ne nonempty by (cases "body L") auto
        from text_char_add [OF this o] flushed [OF os] show ?thesis by simp
      qed
      then show ?thesis using False cr0 b by (auto simp: absorb_def line_inv_def line_text_def Let_def)
    qed
  qed
qed

lemma absorb_line:
  assumes "list_all char_ok L" "newline \<notin> set L" "pending st = []" "\<not> pending_cr st" "\<not> over st"
  shows "line_inv L (fold absorb L st)"
  using assms
proof (induction L rule: rev_induct)
  case Nil
  then show ?case by (simp add: line_inv_def line_text_def body_def)
next
  case (snoc ch L)
  then have "line_inv L (fold absorb L st)" by simp
  moreover have "ch \<noteq> newline" using snoc.prems(2) by auto
  ultimately show ?case using absorb_line_inv [OF _ snoc.prems(1)] by simp
qed

subsection \<open>The span of a line\<close>

definition reads_as :: "(char \<Rightarrow> rust_char) \<Rightarrow> fw_encoding \<Rightarrow> string \<Rightarrow> raw_span \<Rightarrow> string \<Rightarrow> bool" where
  "reads_as w e bytes sp t \<longleftrightarrow>
     span_start sp < span_end sp \<and> span_end sp \<le> length bytes
     \<and> span_end sp - span_start sp \<le> 2 * (max_line_bytes + 2)
     \<and> (\<exists>d out. decode w (take (span_end sp - span_start sp) (drop (span_start sp) bytes)) (for_encoding e) = Inr (d, out)
          \<and> carry d = [] \<and> length (concat (dc_text out)) \<le> max_line_bytes + 2
          \<and> strip_one (CHR 0x0D) (strip_one (CHR 0x0A) (concat (dc_text out))) = t)
     \<and> CHR 0x0A \<notin> set t \<and> length t \<le> max_line_bytes"

abbreviation is_nul :: "rust_char \<times> nat \<Rightarrow> bool" where "is_nul \<equiv> (\<lambda>x. fst x = nul)"

lemma body_fst: "body (List.map fst cs) = List.map fst (dropWhile is_nul cs)"
  by (simp add: body_def dropWhile_map comp_def)

lemma last_byte:
  assumes "list_all char_ok B" "B \<noteq> []" "byte b < 128"
  shows "last (concat B) = b \<longleftrightarrow> last B = [b]"
proof -
  have l: "char_ok (last B)" using assms(1,2) by (simp add: list_all_iff)
  have "concat B = concat (butlast B) @ last B" using append_butlast_last_id [OF assms(2)] by (metis concat_append concat.simps append_Nil2)
  then have e: "last (concat B) = last (last B)" using l by (simp only: char_ok_def last_append) simp
  have "last (last B) \<in> set (last B)" using l by (simp add: char_ok_def)
  then have "last (last B) = b \<Longrightarrow> last B = [b]" using char_ok_alone [OF l, of b] assms(3) by blast
  moreover have "last B = [b] \<Longrightarrow> last (last B) = b" by simp
  ultimately show ?thesis unfolding e by blast
qed

lemma strip_line:
  assumes "list_all char_ok L" "newline \<notin> set L" "body L \<noteq> []" "nl \<in> {[], [newline]}"
  shows "strip_one (CHR 0x0D) (strip_one (CHR 0x0A) (concat (body L @ nl))) = line_text L"
    "CHR 0x0A \<notin> set (line_text L)" "length (concat (body L @ nl)) \<le> length (line_text L) + 2"
proof -
  have ok: "list_all char_ok (body L)" and nn: "newline \<notin> set (body L)"
    using assms(1,2) unfolding body_def by (auto simp: list_all_iff dest: set_dropWhileD)
  have lf: "CHR 0x0A \<notin> set (concat (body L))"
    using ok nn char_ok_alone by (fastforce simp: list_all_iff newline_def)
  have ne: "concat (body L) \<noteq> []" using ok assms(3) by (cases "body L") (auto simp: char_ok_def)
  have "last (concat (body L)) \<noteq> CHR 0x0A" using lf last_in_set [OF ne] by metis
  then have one: "strip_one (CHR 0x0A) (concat (body L @ nl)) = concat (body L)"
    using assms(4) ne by (auto simp: strip_one_def newline_def butlast_append)
  have split: "concat (body L) = concat (butlast (body L)) @ last (body L)"
    using append_butlast_last_id [OF assms(3)] by (metis concat_append concat.simps append_Nil2)
  show "strip_one (CHR 0x0D) (strip_one (CHR 0x0A) (concat (body L @ nl))) = line_text L"
  proof (cases "last (body L) = cr")
    case True
    then have "concat (body L) = line_text L @ cr" using split assms(3) by (simp add: line_text_def)
    then show ?thesis by (simp only: one) (simp add: strip_one_def)
  next
    case False
    then have "last (concat (body L)) \<noteq> CHR 0x0D" using last_byte [OF ok assms(3), of "CHR 0x0D"] by simp
    then show ?thesis using False by (simp only: one) (simp add: strip_one_def line_text_def)
  qed
  show "CHR 0x0A \<notin> set (line_text L)"
  proof -
    have "set (line_text L) \<subseteq> set (concat (body L))"
      unfolding line_text_def by (auto dest: in_set_butlastD split: if_splits)
    then show ?thesis using lf by blast
  qed
  have "length (concat (body L)) \<le> length (line_text L) + 1" using split assms(3) by (simp add: line_text_def)
  then show "length (concat (body L @ nl)) \<le> length (line_text L) + 2" using assms(4) by (auto simp: newline_def)
qed

lemma line_reads:
  assumes "decode_loop w e off (drop off bytes) = Some (as @ (cs @ nl) @ ds, p)" "off \<le> length bytes"
    and "\<forall>c. char_ok (w c)" "e \<noteq> Undetermined"
    and "newline \<notin> fst ` set cs" "List.map fst nl \<in> {[], [newline]}"
    and "body (List.map fst cs) \<noteq> []" "length (line_text (List.map fst cs)) \<le> max_line_bytes"
    and "span_start sp = end_of off (as @ takeWhile is_nul cs)" "span_end sp = end_of off (as @ cs @ nl)"
  shows "reads_as w e bytes sp (line_text (List.map fst cs))"
proof -
  let ?pad = "takeWhile is_nul cs" and ?b = "dropWhile is_nul cs" and ?s = "drop off bytes"
  let ?L = "List.map fst cs" and ?n = "List.map fst nl"
  have cut: "as @ cs @ nl = (as @ ?pad) @ ?b @ nl" by (metis append.assoc takeWhile_dropWhile_id)
  then have loop: "decode_loop w e off ?s = Some ((as @ ?pad) @ (?b @ nl) @ ds, p)" using assms(1) by simp
  have se: "span_end sp = end_of (span_start sp) (?b @ nl)"
    unfolding assms(9,10) cut by (simp add: end_of_append)
  have start: "off \<le> span_start sp"
      "decode_loop w e (span_start sp) (drop (span_start sp - off) ?s) = Some ((?b @ nl) @ ds, p)"
    using decode_loop_drop [OF loop] unfolding assms(9) by simp_all
  have ss: "drop (span_start sp - off) ?s = drop (span_start sp) bytes" using start(1) by simp
  have "span_start sp \<le> length bytes"
    using decode_loop_drop(2) [OF loop] assms(2) unfolding assms(9) by simp
  then have fin: "span_end sp \<le> length bytes" using decode_loop_drop(2) [OF start(2)] unfolding se ss by simp
  have oks: "list_all char_ok ?L"
    using decode_loop_chars [of w e off ?s "as @ cs" "nl @ ds" p] assms(1,3) by (auto simp: list_all_iff)
  have bn: "?b \<noteq> []" using assms(7) by (simp add: body_fst)
  note sizes = decode_loop_chars [OF start(2) assms(3)]
  obtain cs' where cs': "decode_loop w e 0 (take (span_end sp - span_start sp) (drop (span_start sp) bytes)) = Some (cs', [])"
      "List.map fst cs' = body ?L @ ?n"
    using decode_loop_take [OF start(2), of 0] unfolding ss se by (auto simp: body_fst)
  obtain d out where dec: "decode w (take (span_end sp - span_start sp) (drop (span_start sp) bytes)) (for_encoding e) = Inr (d, out)"
      "carry d = []" "dc_text out = body ?L @ ?n"
    using decode_for_encoding [OF cs'(1) assms(4)] cs'(2) by auto
  have nn: "newline \<notin> set ?L" using assms(5) by simp
  note strip = strip_line [OF oks nn assms(7,6)]
  have "span_start sp < span_end sp" using sizes bn unfolding se by (cases ?b) auto
  moreover have "span_end sp - span_start sp \<le> 2 * (max_line_bytes + 2)"
  proof -
    have short: "length (concat (List.map fst (?b @ nl))) \<le> max_line_bytes + 2"
      using strip(3) assms(8) by (simp add: body_fst)
    have "end_of (span_start sp) (?b @ nl) - span_start sp \<le> 2 * length (concat (List.map fst (?b @ nl)))"
      using sizes by blast
    from order.trans [OF this mult_le_mono2 [OF short]] show ?thesis unfolding se .
  qed
  moreover have "length (concat (dc_text out)) \<le> max_line_bytes + 2"
    unfolding dec(3) using strip(3) assms(8) by linarith
  ultimately show ?thesis
    unfolding reads_as_def using fin dec strip(1,2) assms(8) by (metis dec(3))
qed

end
