(* ===== verification/FirewallReread.thy ===== *)
theory FirewallReread
  imports FirewallLines
begin

text \<open>
  Rows of an indexed firewall source read back from an unchanged file are the rows of its snapshot: the
  invariant of the snapshot after each physical line.
\<close>

subsection \<open>The decoder and the stream on a line\<close>

lemma takeWhile_snoc:
  "takeWhile P (l @ [x]) = (if dropWhile P l = [] then l @ (if P x then [x] else []) else takeWhile P l)"
  by (induction l) simp_all

lemma dropWhile_snoc_Nil: "dropWhile P (l @ [x]) = [] \<longleftrightarrow> dropWhile P l = [] \<and> P x"
  by (induction l) simp_all

lemma scalars_snoc: "scalars (l @ [(ch, fin)]) s = scalar ch fin (scalars l s)"
  by (simp add: scalars_def)

lemma scalars_line:
  assumes "newline \<notin> fst ` set l" "\<not> line_has_text d" "line_start d = a" "decoded_end d = a"
    "scalars l (d, out) = (d', out')"
  shows "completed_lines d' = completed_lines d \<and> dc_lines out' = dc_lines out \<and> decoded_end d' = end_of a l
    \<and> line_start d' = end_of a (takeWhile is_nul l) \<and> (line_has_text d' \<longleftrightarrow> dropWhile is_nul l \<noteq> [])"
  using assms
proof (induction l arbitrary: d' out' rule: rev_induct)
  case (snoc x l)
  obtain ch fin where x: "x = (ch, fin)" by (cases x)
  obtain d1 o1 where s: "scalars l (d, out) = (d1, o1)" by fastforce
  have ch: "ch \<noteq> newline" using snoc.prems(1) x by auto
  have IH: "completed_lines d1 = completed_lines d \<and> dc_lines o1 = dc_lines out \<and> decoded_end d1 = end_of a l
    \<and> line_start d1 = end_of a (takeWhile is_nul l) \<and> (line_has_text d1 \<longleftrightarrow> dropWhile is_nul l \<noteq> [])"
    using snoc s by simp
  have "(d', out') = scalar ch fin (d1, o1)" using snoc.prems(5) s by (simp add: x scalars_snoc)
  then have "completed_lines d' = completed_lines d1 \<and> dc_lines out' = dc_lines o1 \<and> decoded_end d' = fin
      \<and> line_start d' = (if ch = nul \<and> \<not> line_has_text d1 then fin else line_start d1)
      \<and> (line_has_text d' \<longleftrightarrow> \<not> (ch = nul \<and> \<not> line_has_text d1))"
    using ch by (simp add: scalar_def newline_def Let_def split: if_splits)
  moreover have all: "takeWhile is_nul l = l" if "dropWhile is_nul l = []"
    using takeWhile_dropWhile_id [of is_nul l] unfolding that by simp
  ultimately show ?case
    using IH unfolding x takeWhile_snoc dropWhile_snoc_Nil
    by (cases "dropWhile is_nul l = []") (simp_all add: all end_of_append del: dropWhile_eq_Nil_conv)
qed simp

lemma absorb_ctx [simp]: "ctx (absorb ch a) = ctx a"
  by (simp add: absorb_def flush_cr_def Let_def)

lemma fold_absorb_ctx [simp]: "ctx (fold absorb cs a) = ctx a"
  by (induction cs arbitrary: a) simp_all

text \<open>A row with a timestamp was not cut short and has a context.\<close>

lemma stamped_line:
  assumes "line_inv L s" "timestamp (result_entry (line_record env path i s)) \<noteq> None"
  shows "\<not> over s" "pending s = line_text L" "length (line_text L) \<le> max_line_bytes" "ctx s \<noteq> default_context"
    "result_entry (line_record env path i s) =
       result_entry (parse_record env (line_text L) (ctx s) i (next_line s) path)"
proof -
  show o: "\<not> over s" using assms(2) by (auto simp: line_record_def oversize_def Let_def)
  then show p: "pending s = line_text L" "length (line_text L) \<le> max_line_bytes"
    using assms(1) by (simp_all add: line_inv_def)
  show e: "result_entry (line_record env path i s) =
       result_entry (parse_record env (line_text L) (ctx s) i (next_line s) path)"
    using o p by (simp add: line_record_def)
  have "timestamp (result_entry (parse_record env (line_text L) default_context i (next_line s) path)) = None"
    by (simp add: parse_record_def Let_def timestamp_of_def build_record_def default_context_def split: prod.splits)
  then show "ctx s \<noteq> default_context" using assms(2) unfolding e by metis
qed

lemma record_body: "has_record s \<Longrightarrow> \<not> over s \<Longrightarrow> pending s = line_text L \<Longrightarrow> body L \<noteq> []"
proof
  assume a: "has_record s" "\<not> over s" "pending s = line_text L" "body L = []"
  then have "pending s = []" by (simp add: line_text_def)
  then have "str_trim (pending s) = []" by (simp add: str_trim_Nil_iff trim_start.simps)
  then show False using a by (simp add: has_record_def)
qed

subsection \<open>Contexts\<close>

lemma unat_line: "n < 2 ^ 32 \<Longrightarrow> unat (of_nat n :: u32) = n"
  by (simp add: unsigned_of_nat take_bit_nat_eq_self)

definition last_context :: "context_change list \<Rightarrow> fw_context" where
  "last_context chs = (if chs = [] then default_context else change_context (last chs))"

definition changes_ok :: "nat \<Rightarrow> context_change list \<Rightarrow> bool" where
  "changes_ok n chs \<longleftrightarrow>
     sorted_wrt (\<lambda>a b. change_line a < change_line b) chs \<and> list_all (\<lambda>c. unat (change_line c) \<le> n) chs"

lemma change_at_last:
  assumes "changes_ok n chs" "chs \<noteq> []" "n \<le> unat line"
  shows "change_at line chs = Some (last_context chs)"
proof -
  have "\<forall>c \<in> set chs. change_line c \<le> line"
    using assms(1,3) by (auto simp: changes_ok_def list_all_iff word_le_nat_alt)
  then have all: "takeWhile (\<lambda>p. change_line p \<le> line) chs = chs" by (simp add: takeWhile_eq_all_conv)
  show ?thesis
    using assms(2) unfolding change_at_def partition_point_def all by (simp add: last_context_def last_conv_nth Let_def)
qed

lemma change_at_later:
  "line < change_line c \<Longrightarrow> change_at line (chs @ [c]) = change_at line chs"
proof -
  assume a: "line < change_line c"
  have tw: "takeWhile (\<lambda>p. change_line p \<le> line) (chs @ [c]) = takeWhile (\<lambda>p. change_line p \<le> line) chs"
    using a by (induction chs) auto
  have "length (takeWhile (\<lambda>p. change_line p \<le> line) chs) \<le> length chs" by (rule length_takeWhile_le)
  then have "length (takeWhile (\<lambda>p. change_line p \<le> line) chs) \<noteq> 0 \<Longrightarrow>
      length (takeWhile (\<lambda>p. change_line p \<le> line) chs) - 1 < length chs" by linarith
  with tw show ?thesis unfolding change_at_def partition_point_def tw by (simp add: Let_def nth_append)
qed

subsection \<open>The snapshot after some lines\<close>

type_synonym line = "(rust_char \<times> nat) list \<times> nat"

definition lines_text :: "line list \<Rightarrow> (rust_char \<times> nat) list" where
  "lines_text ls = concat (List.map (\<lambda>(l, fin). l @ [(newline, fin)]) ls)"

lemma lines_exist:
  "\<exists>ls l. cs = lines_text ls @ l \<and> (\<forall>(k, fin) \<in> set ls. newline \<notin> fst ` set k) \<and> newline \<notin> fst ` set l"
proof (induction cs)
  case Nil
  have "[] = lines_text [] @ []" by (simp add: lines_text_def)
  then show ?case by fastforce
next
  case (Cons c cs)
  then obtain ls l where ls: "cs = lines_text ls @ l" "\<forall>(k, fin) \<in> set ls. newline \<notin> fst ` set k" "newline \<notin> fst ` set l"
    by blast
  obtain ch fin where c: "c = (ch, fin)" by (cases c)
  show ?case
  proof (cases "ch = newline")
    case True
    then have "c # cs = lines_text (([], fin) # ls) @ l" using ls(1) by (simp add: lines_text_def c)
    then show ?thesis using ls by (intro exI [of _ "([], fin) # ls"] exI [of _ l]) simp
  next
    case ch: False
    show ?thesis
    proof (cases ls)
      case Nil
      then have "c # cs = lines_text [] @ (c # l)" using ls(1) by (simp add: lines_text_def)
      then show ?thesis using ls(3) ch c by (intro exI [of _ "[]"] exI [of _ "c # l"]) auto
    next
      case (Cons k ks)
      obtain k1 f1 where k: "k = (k1, f1)" by (cases k)
      have "c # cs = lines_text ((c # k1, f1) # ks) @ l" using ls(1) by (simp add: lines_text_def Cons k)
      then show ?thesis using ls ch c by (intro exI [of _ "(c # k1, f1) # ks"] exI [of _ l]) (auto simp: Cons k)
    qed
  qed
qed

definition row_good ::
  "fw_env \<Rightarrow> string \<Rightarrow> (char \<Rightarrow> rust_char) \<Rightarrow> fw_encoding \<Rightarrow> string \<Rightarrow> context_change list \<Rightarrow> raw_span list \<Rightarrow> row \<Rightarrow> bool" where
  "row_good env path w e bytes chs sps r \<longleftrightarrow>
     timestamp r = None
     \<or> (\<exists>c sp t. change_at (line_number r) chs = Some c \<and> sp \<in> set sps \<and> span_line sp = line_number r
          \<and> r = result_entry (parse_record env t c (entry_id r) (line_number r) path)
          \<and> reads_as w e bytes sp t)"

definition numbered :: "nat \<Rightarrow> u32 list" where
  "numbered n = List.map of_nat [1..<n + 1]"

lemma numbered_Suc: "numbered (Suc n) = numbered n @ [of_nat (n + 1)]"
  by (simp add: numbered_def)

definition lines_done ::
  "fw_env \<Rightarrow> string \<Rightarrow> (char \<Rightarrow> rust_char) \<Rightarrow> fw_encoding \<Rightarrow> string \<Rightarrow> nat \<Rightarrow> line list \<Rightarrow> stream \<Rightarrow> delta
     \<Rightarrow> decoder \<Rightarrow> decoded \<Rightarrow> bool" where
  "lines_done env path w e bytes off ls st dl d out \<longleftrightarrow>
     pending st = [] \<and> \<not> pending_cr st \<and> \<not> over st \<and> \<not> line_active st \<and> provisional_id st = None
     \<and> next_line st = of_nat (length ls + 1) \<and> replacements dl = []
     \<and> completed_lines d = of_nat (length ls) \<and> \<not> line_has_text d
     \<and> line_start d = end_of off (lines_text ls) \<and> decoded_end d = end_of off (lines_text ls)
     \<and> List.map span_line (dc_lines out) = numbered (length ls)
     \<and> ctx st = last_context (context_changes dl) \<and> changes_ok (length ls + 1) (context_changes dl)
     \<and> sorted_wrt (\<lambda>a b. line_number a < line_number b) (new_entries dl)
     \<and> list_all (\<lambda>r. unat (line_number r) \<le> length ls) (new_entries dl)
     \<and> list_all (row_good env path w e bytes (context_changes dl) (dc_lines out)) (new_entries dl)"

lemma row_good_later:
  assumes "row_good env path w e bytes chs sps r" "list_all (\<lambda>c. line_number r < change_line c) new"
  shows "row_good env path w e bytes (chs @ new) (sps @ sps') r"
proof -
  have "change_at (line_number r) (chs @ new) = change_at (line_number r) chs"
    using assms(2) by (induction new rule: rev_induct) (auto simp: change_at_later append_assoc [symmetric] simp del: append_assoc)
  then show ?thesis using assms(1) by (auto simp: row_good_def)
qed

text \<open>The row of a line, given its context and span.\<close>

lemma line_row_good:
  assumes before: "lines_done env path w e bytes off ls st dl d out"
    and dec: "decode_loop w e off (drop off bytes) = Some (lines_text ls @ (l @ nl) @ ds, p)" "off \<le> length bytes"
      "\<forall>c. char_ok (w c)" "e \<noteq> Undetermined"
    and l: "newline \<notin> fst ` set l" "List.map fst nl \<in> {[], [newline]}" "length ls + 1 < 2 ^ 32"
    and s: "line_inv (List.map fst l) s" "has_record s" "ctx s = ctx st" "next_line s = next_line st"
    and sp: "span_line sp = next_line st" "span_start sp = end_of (end_of off (lines_text ls)) (takeWhile is_nul l)"
      "span_end sp = end_of (end_of off (lines_text ls)) (l @ nl)" "sp \<in> set sps"
  shows "row_good env path w e bytes (context_changes dl) sps (result_entry (line_record env path i s))"
proof (cases "timestamp (result_entry (line_record env path i s)) = None")
  case False
  note st = stamped_line [OF s(1) False]
  have "unat (next_line st) = length ls + 1"
    using before unat_line [OF l(3)] by (simp add: lines_done_def)
  moreover have "changes_ok (length ls + 1) (context_changes dl)" "ctx st = last_context (context_changes dl)"
    using before by (simp_all add: lines_done_def)
  moreover have "context_changes dl \<noteq> []"
    using st(4) s(3) \<open>ctx st = last_context (context_changes dl)\<close> by (auto simp: last_context_def)
  ultimately have "change_at (next_line st) (context_changes dl) = Some (ctx s)"
    using change_at_last [of "length ls + 1" "context_changes dl" "next_line st"] s(3) by simp
  moreover have "body (List.map fst l) \<noteq> []" using record_body [OF s(2) st(1,2)] .
  then have "reads_as w e bytes sp (line_text (List.map fst l))"
    using dec l st(3) sp by (intro line_reads [where off = off and as = "lines_text ls" and nl = nl and ds = ds])
      (auto simp: end_of_append)
  moreover have "line_number (result_entry (line_record env path i s)) = next_line st"
      "entry_id (result_entry (line_record env path i s)) = i"
    using row_key_line_record [of env path i s] s(4) by (simp_all add: row_key_def)
  ultimately show ?thesis unfolding row_good_def using st(5) s(4) sp by auto
qed (simp add: row_good_def)

lemma closed_state:
  "pending (FirewallSim.closed env path i i' s) = []" "\<not> pending_cr (FirewallSim.closed env path i i' s)" "\<not> over (FirewallSim.closed env path i i' s)"
  "\<not> line_active (FirewallSim.closed env path i i' s)" "next_line (FirewallSim.closed env path i i' s) = sat_inc (next_line s)"
  "ctx (FirewallSim.closed env path i i' s) = line_ctx s"
  by (simp_all add: FirewallSim.closed_def close_line_def Let_def)

lemma line_ctx_record: "has_record s \<Longrightarrow> \<not> over s \<Longrightarrow> line_ctx s = ctx s"
  by (simp add: line_ctx_def has_record_def)

lemma sat_inc_line: "n + 1 < 2 ^ 32 \<Longrightarrow> sat_inc (of_nat n :: u32) = of_nat (n + 1)"
proof -
  assume "n + 1 < 2 ^ 32"
  then have "unat (of_nat n :: u32) < 2 ^ 32 - 1" by (simp add: unat_line)
  then have "(of_nat n :: u32) \<noteq> - 1" by (auto simp: unsigned_minus_1_eq_mask mask_eq_exp_minus_1)
  then show ?thesis by (simp add: sat_inc_def add.commute)
qed

lemma row_over_unstamped: "over s \<Longrightarrow> timestamp (result_entry (line_record env path i s)) = None"
  by (simp add: line_record_def oversize_def Let_def)

lemma lines_step:
  assumes before: "lines_done env path w e bytes off ls st dl d out"
    and dec: "decode_loop w e off (drop off bytes) = Some (lines_text ls @ (l @ [(newline, fin)]) @ ds, p)"
      "off \<le> length bytes" "\<forall>c. char_ok (w c)" "e \<noteq> Undetermined"
    and l: "newline \<notin> fst ` set l" "length ls + 3 < 2 ^ 32"
    and feed: "feed env path (List.map fst (l @ [(newline, fin)])) st = (st2, d2)"
    and scal: "scalars (l @ [(newline, fin)]) (d, out) = (dd, oo)"
  shows "lines_done env path w e bytes off (ls @ [(l, fin)]) st2 (dplus dl d2) dd oo"
proof -
  let ?n = "length ls" and ?L = "List.map fst l"
  note b = before [unfolded lines_done_def]
  obtain d1 o1 where s1: "scalars l (d, out) = (d1, o1)" by fastforce
  have d1: "completed_lines d1 = of_nat ?n" "dc_lines o1 = dc_lines out"
      "line_start d1 = end_of (end_of off (lines_text ls)) (takeWhile is_nul l)"
    using scalars_line [OF l(1) _ refl _ s1] b by simp_all
  define sp where "sp = \<lparr>span_line = sat_inc (completed_lines d1), span_start = line_start d1, span_end = fin\<rparr>"
  have dd: "completed_lines dd = sat_inc (completed_lines d1)" "\<not> line_has_text dd" "line_start dd = fin"
      "decoded_end dd = fin" "dc_lines oo = dc_lines out @ [sp]"
    using scal s1 d1 by (auto simp: scalars_snoc scalar_def newline_def Let_def sp_def)
  have whole: "lines_text (ls @ [(l, fin)]) = lines_text ls @ l @ [(newline, fin)]" by (simp add: lines_text_def)
  then have fin: "end_of off (lines_text (ls @ [(l, fin)])) = fin" by (simp add: end_of_def)
  let ?s = "(fold absorb ?L st)\<lparr>line_active := True\<rparr>"
  have nl: "newline \<notin> set ?L" using l(1) by simp
  have oks: "list_all char_ok ?L"
    using decode_loop_chars [of w e off "drop off bytes" "lines_text ls @ l" "[(newline, fin)] @ ds" p] dec(1,3)
    by (auto simp: list_all_iff)
  have clean: "pending st = []" "\<not> pending_cr st" "\<not> over st" using b by simp_all
  have inv: "line_inv ?L ?s" using absorb_line [OF oks nl clean] by (simp add: line_inv_def)
  have "push_char env path newline (fold absorb ?L st, empty_delta) = (st2, d2)"
    using feed feed_absorb [OF nl, of env path st] by (simp add: feed_def)
  then have "finish_line env path (?s, empty_delta) = (st2, d2)" by (simp add: push_char_def newline_def Let_def)
  moreover have none: "provisional_id ?s = None" using b by simp
  ultimately have fl: "st2 = FirewallSim.closed env path (next_id ?s) (if has_record ?s then sat_inc (next_id ?s) else next_id ?s) ?s"
      "d2 = empty_delta\<lparr>new_entries := (if has_record ?s then [result_entry (line_row env path (next_id ?s) ?s)] else []),
                       context_changes := line_changes ?s\<rparr>"
    unfolding finish_plain [OF none] by simp_all
  have line: "next_line ?s = of_nat (?n + 1)" "unat (next_line ?s) = ?n + 1" "sat_inc (next_line ?s) = of_nat (?n + 2)"
    using b l(2) unat_line [of "?n + 1"] sat_inc_line [of "?n + 1"] by simp_all
  have spl: "span_line sp = next_line st" using b l(2) sat_inc_line [of ?n] d1(1) by (simp add: sp_def)
  define r where "r = result_entry (line_row env path (next_id ?s) ?s)"
  have key: "line_number r = of_nat (?n + 1)"
    using row_key_line_row [of env path "next_id ?s" ?s] line by (simp add: row_key_def r_def)
  have good: "row_good env path w e bytes (context_changes dl) (dc_lines oo) r" if h: "has_record ?s"
  proof (cases "over ?s")
    case True
    have "timestamp r = None" unfolding r_def line_row_def by (rule row_over_unstamped) (use True in simp)
    then show ?thesis by (simp add: row_good_def)
  next
    case False
    have same: "?s\<lparr>ctx := line_ctx ?s\<rparr> = ?s" using line_ctx_record [OF h False] by simp
    have "row_good env path w e bytes (context_changes dl) (dc_lines oo)
        (result_entry (line_record env path (next_id ?s) ?s))"
      using before dec l inv h spl d1(3)
      by (intro line_row_good [where ls = ls and l = l and nl = "[(newline, fin)]" and ds = ds and sp = sp])
        (simp_all add: dd sp_def newline_def end_of_def)
    then show ?thesis unfolding r_def line_row_def same .
  qed
  have new: "list_all (\<lambda>c. change_line c = of_nat (?n + 2)) (line_changes ?s)"
    using line by (simp add: line_changes_def)
  have later: "of_nat (?n + 1) < (of_nat (?n + 2) :: u32)"
    using l(2) unat_line [of "?n + 1"] unat_line [of "?n + 2"] by (simp add: word_less_nat_alt)
  have older: "line_number q < of_nat (?n + 1)" if "q \<in> set (new_entries dl)" for q
    using b that l(2) unat_line [of "?n + 1"] by (auto simp: list_all_iff word_less_nat_alt)
  have upd: "row_good env path w e bytes (context_changes dl @ line_changes ?s) (dc_lines oo) q"
    if "row_good env path w e bytes (context_changes dl) (dc_lines oo) q" "line_number q \<le> of_nat (?n + 1)" for q
    using row_good_later [OF that(1), of "line_changes ?s" "[]"] that(2) new later
    by (force simp: list_all_iff)
  have olds: "row_good env path w e bytes (context_changes dl) (dc_lines oo) q" if "q \<in> set (new_entries dl)" for q
    using b that row_good_later [of env path w e bytes "context_changes dl" "dc_lines out" q "[]" "[sp]"]
    by (simp add: dd list_all_iff)
  have chs: "context_changes (dplus dl d2) = context_changes dl @ line_changes ?s"
    by (simp add: fl dplus_def)
  have ents: "new_entries (dplus dl d2) = new_entries dl @ (if has_record ?s then [r] else [])"
    by (simp add: fl r_def)
  have len: "length (ls @ [(l, fin)]) = ?n + 1" "?n + 1 + 1 = ?n + 2" by simp_all
  have c0: "changes_ok (?n + 1) (context_changes dl)" "ctx st = last_context (context_changes dl)" using b by simp_all
  have ctx: "line_ctx ?s = last_context (context_changes dl @ line_changes ?s)"
    using c0(2) by (simp add: last_context_def line_changes_def)
  have change: "changes_ok (?n + 2) (context_changes dl @ line_changes ?s)"
  proof -
    have "change_line q < of_nat (?n + 2)" if "q \<in> set (context_changes dl)" for q
      using c0(1) that l(2) unat_line [of "?n + 2"] by (auto simp: changes_ok_def list_all_iff word_less_nat_alt)
    moreover have "unat (of_nat (?n + 2) :: u32) = ?n + 2" using l(2) by (intro unat_line) simp
    ultimately show ?thesis
      using c0(1) line(3) by (auto simp: changes_ok_def line_changes_def sorted_wrt_append list_all_iff)
  qed
  have spans: "List.map span_line (dc_lines oo) = numbered (?n + 1)"
    using b spl by (simp add: dd numbered_def)
  have completed: "completed_lines dd = of_nat (?n + 1)" using d1(1) dd(1) sat_inc_line [of ?n] l(2) by simp
  have sorted: "sorted_wrt (\<lambda>a b. line_number a < line_number b) (new_entries dl @ (if has_record ?s then [r] else []))"
    using b older key by (auto simp: sorted_wrt_append)
  have bound: "list_all (\<lambda>q. unat (line_number q) \<le> ?n + 1) (new_entries dl @ (if has_record ?s then [r] else []))"
    using b key l(2) unat_line [of "?n + 1"] by (auto simp: list_all_iff intro: le_SucI)
  have goods: "list_all (row_good env path w e bytes (context_changes dl @ line_changes ?s) (dc_lines oo))
      (new_entries dl @ (if has_record ?s then [r] else []))"
    using upd olds good older key by (auto simp: list_all_iff less_imp_le)
  have state: "next_line st2 = of_nat (?n + 2)" "provisional_id st2 = None"
      "ctx st2 = last_context (context_changes dl @ line_changes ?s)" "replacements (dplus dl d2) = []"
    using line(3) ctx b by (simp_all add: fl closed_state empty_delta_def)
  show ?thesis
    unfolding lines_done_def chs ents fin len
    using state spans completed sorted bound goods change dd(2-4) by (simp only: fl closed_state simp_thms)
qed

definition decoder_starts :: "nat \<Rightarrow> decoder \<Rightarrow> bool" where
  "decoder_starts off d \<longleftrightarrow>
     completed_lines d = 0 \<and> \<not> line_has_text d \<and> line_start d = off \<and> decoded_end d = off"

lemma lines_all:
  assumes "decode_loop w e off (drop off bytes) = Some (lines_text ls @ ds, p)" "off \<le> length bytes"
      "\<forall>c. char_ok (w c)" "e \<noteq> Undetermined"
    and "\<forall>(k, fin) \<in> set ls. newline \<notin> fst ` set k" "length ls + 2 < 2 ^ 32" "decoder_starts off d0"
    and "feed env path (List.map fst (lines_text ls)) (new_stream i 1) = (st, dl)"
    and "scalars (lines_text ls) (d0, empty_decoded) = (d, out)"
  shows "lines_done env path w e bytes off ls st dl d out"
  using assms(1,5,6,8,9)
proof (induction ls arbitrary: ds st dl d out rule: rev_induct)
  case Nil
  then show ?case
    using assms(7)
    by (auto simp: lines_done_def lines_text_def new_stream_def decoder_starts_def empty_delta_def empty_decoded_def
        numbered_def last_context_def changes_ok_def)
next
  case (snoc x ls)
  obtain l fin where x: "x = (l, fin)" by (cases x)
  have whole: "lines_text (ls @ [x]) = lines_text ls @ l @ [(newline, fin)]" by (simp add: lines_text_def x)
  obtain st1 dl1 where f1: "feed env path (List.map fst (lines_text ls)) (new_stream i 1) = (st1, dl1)" by fastforce
  obtain st2 d2 where f2: "feed env path (List.map fst (l @ [(newline, fin)])) st1 = (st2, d2)" by fastforce
  obtain dd oo where s1: "scalars (lines_text ls) (d0, empty_decoded) = (dd, oo)" by fastforce
  have "feed env path (List.map fst (lines_text ls) @ List.map fst (l @ [(newline, fin)])) (new_stream i 1) = (st2, dplus dl1 d2)"
    unfolding feed_append f1 by (simp only: Let_def prod.case f2)
  then have "feed env path (List.map fst (lines_text (ls @ [x]))) (new_stream i 1) = (st2, dplus dl1 d2)"
    unfolding whole by simp
  then have st: "st = st2" "dl = dplus dl1 d2" using snoc.prems(4) by simp_all
  have dec: "decode_loop w e off (drop off bytes) = Some (lines_text ls @ (l @ [(newline, fin)]) @ ds, p)"
    using snoc.prems(1) unfolding whole by simp
  have "lines_done env path w e bytes off ls st1 dl1 dd oo"
    using snoc.IH [OF dec _ _ f1 s1] snoc.prems(2,3) by simp
  from lines_step [OF this dec assms(2-4) _ _ f2] snoc.prems(2,3,5) s1 show ?case
    unfolding x st by (simp add: whole [unfolded x] scalars_append)
qed

lemma row_good_mono:
  "row_good env path w e bytes chs sps r \<Longrightarrow> set sps \<subseteq> set sps' \<Longrightarrow> row_good env path w e bytes chs sps' r"
  by (auto simp: row_good_def)

text \<open>What a snapshot holds for the index.\<close>

definition snapshot_good :: "fw_env \<Rightarrow> string \<Rightarrow> (char \<Rightarrow> rust_char) \<Rightarrow> string \<Rightarrow> snapshot \<Rightarrow> bool" where
  "snapshot_good env path w bytes s \<longleftrightarrow>
     sn_byte_offset s = length bytes \<and> distinct (List.map span_line (sn_spans s))
     \<and> sorted_wrt (\<lambda>a b. line_number a < line_number b) (sn_entries s)
     \<and> list_all (row_good env path w (dec_encoding (sn_decoder s)) bytes (sn_changes s) (sn_spans s)) (sn_entries s)"

definition decoded_from :: "(char \<Rightarrow> rust_char) \<Rightarrow> string \<Rightarrow> decoder \<Rightarrow> decoded \<Rightarrow> bool" where
  "decoded_from w bytes d out \<longleftrightarrow>
     raw_offset d = length bytes
     \<and> ((dc_text out = [] \<and> dc_lines out = [] \<and> pending_span d = None)
        \<or> (\<exists>off cs p d0 d1. off \<le> length bytes \<and> dec_encoding d \<noteq> Undetermined \<and> decoder_starts off d0
             \<and> decode_loop w (dec_encoding d) off (drop off bytes) = Some (cs, p)
             \<and> scalars cs (d0, empty_decoded) = (d1, out) \<and> d = d1\<lparr>carry := p\<rparr>))"

lemma decode_from:
  assumes "decode w bytes d0 = Inr (d, out)" "d0 = default_decoder \<or> d0 = windows1252_decoder"
  shows "decoded_from w bytes d out"
proof -
  have rest: "decoded_from w bytes d out"
    if r: "decode_rest w bytes 0 (d1, off) = Inr (d, out)" and s: "decoder_starts off d1" "off \<le> length bytes"
      "dec_encoding d1 \<noteq> Undetermined" "raw_offset d1 = length bytes" for d1 off
  proof -
    obtain cs p where cs: "decode_loop w (dec_encoding d1) off (drop off bytes) = Some (cs, p)"
      using r by (auto simp: decode_rest_def split: option.splits)
    obtain d2 o2 where s2: "scalars cs (d1, empty_decoded) = (d2, o2)" by fastforce
    have "d = d2\<lparr>carry := p\<rparr>" "out = o2"
      using decode_rest_Some [of w d1 0 off bytes cs p] cs r s2 by simp_all
    moreover have "dec_encoding d2 = dec_encoding d1" "raw_offset d2 = raw_offset d1"
      using scalars_keep [of cs "(d1, empty_decoded)"] s2 by simp_all
    ultimately show ?thesis
      unfolding decoded_from_def using cs s s2 by (intro conjI disjI2 exI [of _ off] exI [of _ cs] exI [of _ p] exI [of _ d1] exI [of _ d2]) simp_all
  qed
  show ?thesis
  proof (cases "d0 = windows1252_decoder")
    case True
    then have "decode_rest w bytes 0 (windows1252_decoder\<lparr>raw_offset := length bytes, carry := []\<rparr>, 0) = Inr (d, out)"
      using assms(1) by (simp add: decode_def windows1252_decoder_def default_decoder_def Let_def)
    then show ?thesis
      by (rule rest) (simp_all add: decoder_starts_def windows1252_decoder_def default_decoder_def)
  next
    case False
    then have d0: "d0 = default_decoder" using assms(2) by simp
    let ?d = "default_decoder\<lparr>raw_offset := length bytes, carry := []\<rparr>"
    have dec: "(if bytes = [] then Inr (?d, empty_decoded)
        else (case detect_bom bytes 0 ?d of None \<Rightarrow> Inr (?d\<lparr>carry := bytes\<rparr>, empty_decoded)
              | Some s \<Rightarrow> decode_rest w bytes 0 s)) = Inr (d, out)"
    proof -
      have "carry default_decoder = []" "raw_offset default_decoder = 0" "dec_encoding default_decoder = Undetermined"
        by (simp_all add: default_decoder_def)
      then show ?thesis using assms(1) by (simp add: d0 decode_def Let_def split: if_splits)
    qed
    have none: "decoded_from w bytes (?d\<lparr>carry := c\<rparr>) empty_decoded" for c
      by (simp add: decoded_from_def empty_decoded_def pending_span_def default_decoder_def)
    show ?thesis
    proof (cases "bytes = []")
      case True
      have "decoded_from w bytes ?d empty_decoded"
        by (simp add: decoded_from_def empty_decoded_def pending_span_def default_decoder_def)
      then show ?thesis using dec True by simp
    next
      case bytes: False
      show ?thesis
      proof (cases "detect_bom bytes 0 ?d")
        case None
        then show ?thesis using dec bytes none [of bytes] by auto
      next
        case (Some s)
        obtain d1 off where s: "s = (d1, off)" by (cases s)
        have "decode_rest w bytes 0 (d1, off) = Inr (d, out)" using dec bytes Some s by simp
        moreover have "decoder_starts off d1 \<and> off \<le> length bytes \<and> dec_encoding d1 \<noteq> Undetermined
            \<and> raw_offset d1 = length bytes"
          using Some s by (auto simp: detect_bom_def decoder_starts_def default_decoder_def boms_def prefix_length_le
              dest!: prefix_length_le split: if_splits option.splits)
        ultimately show ?thesis using rest by blast
      qed
    qed
  qed
qed

lemma snapshot_eof_row:
  assumes "provisional_id st = None" "snapshot_eof env path st = (st', fd)"
  shows "apply_delta fd es = es @ (if has_record st then [result_entry (line_record env path (next_id st)
      (if line_active st then st\<lparr>observed := next_line st\<rparr> else st))] else [])"
proof -
  let ?s = "if line_active st then st\<lparr>observed := next_line st\<rparr> else st"
  have h: "has_record ?s = has_record st" "provisional_id ?s = None" "next_id ?s = next_id st"
    using assms(1) by (simp_all add: has_record_def)
  have emit: "snd (emit_record env path True (?s, empty_delta)) =
      empty_delta\<lparr>new_entries := [result_entry (line_record env path (next_id st) ?s)]\<rparr>"
    using h(2,3) by (simp add: emit_record_def Let_def empty_delta_def)
  have "snapshot_eof env path st = (let (s, d) = (if has_record st then emit_record env path True (?s, empty_delta) else (?s, empty_delta))
      in (s, finish_delta s d))"
    unfolding snapshot_eof_def Let_def h(1) ..
  then have "apply_delta fd es = apply_delta (if has_record st then snd (emit_record env path True (?s, empty_delta)) else empty_delta) es"
    using assms(2) by (auto split: prod.splits if_splits)
  then show ?thesis unfolding emit by (simp add: apply_delta_def empty_delta_def)
qed

lemma snapshot_parts:
  assumes "snapshot_bytes env w bytes path i force = Inr s"
  obtains d out st dl where "decoded_from w bytes d out" "feed env path (dc_text out) (new_stream i 1) = (st, dl)"
    "sn_byte_offset s = raw_offset d" "sn_decoder s = d" "sn_spans s = dc_lines out @ opt_list (pending_span d)"
    "provisional_id st = None \<longrightarrow> sn_changes s = context_changes dl
       \<and> sn_entries s = apply_delta (snd (snapshot_eof env path st)) (apply_delta dl [])"
proof -
  have two: "d0 = default_decoder \<or> d0 = windows1252_decoder"
    if "d0 = (if force then windows1252_decoder else default_decoder)" for d0 using that by simp
  obtain d out where push: "decoded_from w bytes d out" and s: "(let (st, delta) = push_text env path (dc_text out) (new_stream i 1);
               entries = apply_delta delta [];
               (st, fin) = snapshot_eof env path st
           in Inr \<lparr>sn_entries = apply_delta fin entries, sn_total_lines = observed_through fin,
                   sn_parse_errors = parse_errors (delta_coverage fin), sn_byte_offset = raw_offset d,
                   sn_coverage = delta_coverage fin, sn_decoder = d, sn_stream = st,
                   sn_spans = dc_lines out @ opt_list (pending_span d), sn_changes = context_changes delta\<rparr>) =
           (Inr s :: decode_error + snapshot)"
  proof -
    let ?d0 = "if force then windows1252_decoder else default_decoder"
    consider (first) d out where "decode w bytes ?d0 = Inr (d, out)"
      | (second) d out where "decode w bytes ?d0 = Inl NeedsWindows1252" "decode w bytes windows1252_decoder = Inr (d, out)"
      using assms unfolding snapshot_bytes_def push_bytes_def Let_def
      by (cases "decode w bytes ?d0"; cases "decode w bytes windows1252_decoder") (auto split: if_splits)
    then show thesis
    proof cases
      case first
      have "decoded_from w bytes d out" by (rule decode_from [OF first two]) simp
      then show thesis
        using assms first by (intro that [of d out]) (simp_all add: snapshot_bytes_def push_bytes_def Let_def)
    next
      case second
      have "decoded_from w bytes d out" by (rule decode_from [OF second(2)]) simp
      then show thesis
        using assms second by (intro that [of d out]) (simp_all add: snapshot_bytes_def push_bytes_def Let_def)
    qed
  qed
  obtain st dl where f: "feed env path (dc_text out) (new_stream i 1) = (st, dl)" by fastforce
  show thesis
  proof (rule that [OF push f])
    show "sn_byte_offset s = raw_offset d" "sn_decoder s = d" "sn_spans s = dc_lines out @ opt_list (pending_span d)"
      using s by (auto simp: Let_def split: prod.splits)
  next
    show "provisional_id st = None \<longrightarrow> sn_changes s = context_changes dl \<and> sn_entries s = apply_delta (snd (snapshot_eof env path st)) (apply_delta dl [])"
    proof
    assume "provisional_id st = None"
    then have p: "push_text env path (dc_text out) (new_stream i 1) = (st, finish_delta st dl)"
      by (simp add: push_text_feed f)
    show "sn_changes s = context_changes dl \<and> sn_entries s = apply_delta (snd (snapshot_eof env path st)) (apply_delta dl [])"
      using s unfolding p by (auto simp: Let_def finish_delta_def apply_delta_def split: prod.splits)
    qed
  qed
qed

lemma numbered_distinct: "n < 2 ^ 32 \<Longrightarrow> distinct (numbered n)"
proof -
  assume n: "n < 2 ^ 32"
  have "inj_on (of_nat :: nat \<Rightarrow> u32) (set [1..<n + 1])"
    using n by (intro inj_onI) (metis atLeastLessThan_iff less_Suc_eq_le Suc_eq_plus1 order.strict_trans1 set_upt unat_line)
  then show ?thesis by (simp only: numbered_def distinct_map distinct_upt simp_thms)
qed

lemma snapshot_is_good:
  assumes "snapshot_bytes env w bytes path i force = Inr s" "\<forall>c. char_ok (w c)" "length bytes + 3 < 2 ^ 32"
  shows "snapshot_good env path w bytes s"
proof -
  obtain d out st dl where parts: "decoded_from w bytes d out" "feed env path (dc_text out) (new_stream i 1) = (st, dl)"
      "sn_byte_offset s = raw_offset d" "sn_decoder s = d" "sn_spans s = dc_lines out @ opt_list (pending_span d)"
      "provisional_id st = None \<longrightarrow> sn_changes s = context_changes dl
       \<and> sn_entries s = apply_delta (snd (snapshot_eof env path st)) (apply_delta dl [])"
    by (rule snapshot_parts [OF assms(1)])
  have bo: "raw_offset d = length bytes" using parts(1) by (simp add: decoded_from_def)
  show ?thesis
  proof (cases "dc_text out = [] \<and> dc_lines out = [] \<and> pending_span d = None")
    case True
    then have st: "st = new_stream i 1" "dl = empty_delta" using parts(2) by simp_all
    have "\<not> has_record (new_stream i 1)"
      by (simp add: has_record_def new_stream_def str_trim_Nil_iff trim_start.simps)
    moreover have none: "provisional_id st = None" by (simp add: st new_stream_def)
    moreover obtain se fd where eof: "snapshot_eof env path st = (se, fd)" by fastforce
    ultimately have "sn_entries s = []"
      using parts(6) snapshot_eof_row [OF none eof, of "[]"] by (simp add: st)
    then show ?thesis using True bo parts by (simp add: snapshot_good_def)
  next
    case False
    then obtain off cs p d0 d1 where from_: "off \<le> length bytes" "dec_encoding d \<noteq> Undetermined" "decoder_starts off d0"
        "decode_loop w (dec_encoding d) off (drop off bytes) = Some (cs, p)"
        "scalars cs (d0, empty_decoded) = (d1, out)" "d = d1\<lparr>carry := p\<rparr>"
      using parts(1) by (auto simp: decoded_from_def)
    obtain ls l where ls: "cs = lines_text ls @ l" "\<forall>(k, fin) \<in> set ls. newline \<notin> fst ` set k" "newline \<notin> fst ` set l"
      using lines_exist by blast
    let ?n = "length ls" and ?e = "dec_encoding d" and ?L = "List.map fst l" and ?a = "end_of off (lines_text ls)"
    obtain st1 dl1 where f1: "feed env path (List.map fst (lines_text ls)) (new_stream i 1) = (st1, dl1)" by fastforce
    obtain d2 o2 where s2: "scalars (lines_text ls) (d0, empty_decoded) = (d2, o2)" by fastforce
    have dec: "decode_loop w ?e off (drop off bytes) = Some (lines_text ls @ (l @ []) @ [], p)" using from_(4) ls(1) by simp
    have "length cs \<le> length bytes"
      using decode_loop_chars [of w ?e off "drop off bytes" cs "[]" p] decode_loop_drop(2) [of w ?e off "drop off bytes" cs "[]" p]
        from_(1,4) assms(2) by simp
    moreover have "?n \<le> length (lines_text ls)" by (induction ls) (auto simp: lines_text_def)
    ultimately have n: "?n + 3 < 2 ^ 32" using ls(1) assms(3) by simp
    have ld: "lines_done env path w ?e bytes off ls st1 dl1 d2 o2"
      using dec n by (intro lines_all [OF _ from_(1) assms(2) from_(2) ls(2) _ from_(3) f1 s2]) simp_all
    note b = ld [unfolded lines_done_def]
    have s1: "scalars l (d2, o2) = (d1, out)" using from_(5) s2 by (simp add: ls(1) scalars_append)
    have dl: "completed_lines d1 = of_nat ?n" "dc_lines out = dc_lines o2" "decoded_end d1 = end_of ?a l"
        "line_start d1 = end_of ?a (takeWhile is_nul l)"
      using scalars_line [OF ls(3) _ refl _ s1] b by simp_all
    have nl: "newline \<notin> set ?L" using ls(3) by simp
    have chars: "dc_text out = List.map fst (lines_text ls) @ ?L"
      using scalars_text [of cs d0 empty_decoded] from_(5) by (simp add: ls(1) empty_decoded_def)
    have "feed env path (dc_text out) (new_stream i 1) = (fold absorb ?L st1, dplus dl1 empty_delta)"
      unfolding chars feed_append f1 by (simp only: Let_def prod.case feed_absorb [OF nl])
    then have st: "st = fold absorb ?L st1" "dl = dl1" using parts(2) by simp_all
    then have none: "provisional_id st = None" using b by simp
    let ?s = "if line_active st then st\<lparr>observed := next_line st\<rparr> else st"
    define r where "r = result_entry (line_record env path (next_id st) ?s)"
    obtain se fd where eof: "snapshot_eof env path st = (se, fd)" by fastforce
    have ents: "sn_entries s = new_entries dl1 @ (if has_record st then [r] else [])"
      using parts(6) none snapshot_eof_row [OF none eof] b eof by (simp add: st(2) apply_delta_def r_def)
    have chs: "sn_changes s = context_changes dl1" using parts(6) none st(2) by simp
    have line: "next_line st = of_nat (?n + 1)" using b by (simp add: st(1))
    have key: "line_number r = of_nat (?n + 1)"
      using row_key_line_record [of env path "next_id st" ?s] line by (simp add: row_key_def r_def split: if_splits)
    have older: "line_number q < of_nat (?n + 1)" if "q \<in> set (new_entries dl1)" for q
      using b that n unat_line [of "?n + 1"] by (auto simp: list_all_iff word_less_nat_alt)
    define sp where "sp = \<lparr>span_line = sat_inc (completed_lines d1), span_start = line_start d1, span_end = decoded_end d1\<rparr>"
    have spl: "span_line sp = of_nat (?n + 1)" using sat_inc_line [of ?n] n dl(1) by (simp add: sp_def)
    have pend: "opt_list (pending_span d) = (if span_start sp < span_end sp then [sp] else [])"
      by (simp add: pending_span_def from_(6) sp_def)
    have oks: "list_all char_ok ?L"
      using decode_loop_chars [of w ?e off "drop off bytes" "lines_text ls @ l" "[]" p] dec assms(2)
      by (auto simp: list_all_iff)
    have clean: "pending st1 = []" "\<not> pending_cr st1" "\<not> over st1" using b by simp_all
    have inv: "line_inv ?L ?s" using absorb_line [OF oks nl clean] by (simp add: line_inv_def st(1))
    have good: "row_good env path w ?e bytes (context_changes dl1) (opt_list (pending_span d)) r" if h: "has_record st"
    proof -
      have "row_good env path w ?e bytes (context_changes dl1) [sp] r"
        unfolding r_def
      proof (rule line_row_good [OF ld dec from_(1) assms(2) from_(2) ls(3) _ _ inv])
        show "has_record ?s" using h by (simp add: has_record_def)
      qed (use n line b dl spl in \<open>simp_all add: st(1) sp_def\<close>)
      then show ?thesis unfolding row_good_def pend by (auto simp: reads_as_def)
    qed
    have goods: "list_all (row_good env path w ?e bytes (sn_changes s) (sn_spans s)) (sn_entries s)"
      using b good unfolding ents chs parts(5) dl(2) by (auto simp: list_all_iff intro: row_good_mono)
    have dist: "distinct (List.map span_line (sn_spans s))"
      using numbered_distinct [of ?n] numbered_distinct [of "Suc ?n"] n b spl
      unfolding parts(5) dl(2) pend by (simp add: numbered_Suc)
    have "sorted_wrt (\<lambda>a b. line_number a < line_number b) (sn_entries s)"
      using b older key by (auto simp: ents sorted_wrt_append)
    then show ?thesis using goods dist bo parts(3,4) by (simp add: snapshot_good_def)
  qed
qed

end
