(* ===== verification/FirewallFollow.thy ===== *)
theory FirewallFollow
  imports FirewallFence FirewallReread
begin

text \<open>
  Following a firewall file that only grows: the rows a consumer holds after any committed reads are those
  that opening the same bytes gives.
\<close>

subsection \<open>Decoded text is valid\<close>

lemma utf8_next_valid:
  assumes "utf8_next s = Scalar ch n" "s \<noteq> []"
  shows "valid_char ch"
proof -
  let ?b = "byte (hd s)"
  have w: "n = utf8_size ?b" "n \<noteq> 0" "n \<le> length s" "ch = take n s"
    and second: "1 < n \<Longrightarrow> second_ok ?b (byte (s ! 1))" and conts: "list_all is_cont (drop 2 ch)"
    using assms(1) by (auto simp: utf8_next_def Let_def list_ex_iff list_all_iff min_def split: if_splits)
  obtain c t where s: "s = c # t" using assms(2) by (cases s) auto
  have ch: "ch = c # take (n - 1) t" using w(2,4) s by (simp add: take_Cons')
  have first: "\<not> is_cont c" "n = utf8_width c"
    using w(1,2) s by (auto simp: utf8_size_def is_cont_def utf8_width_def Let_def split: if_splits)
  have "list_all is_cont (take (n - 1) t)"
  proof (cases "1 < n")
    case True
    then obtain c2 t2 where t: "t = c2 # t2" using w(3) s by (cases t) auto
    have "is_cont c2" using second [OF True] s t by (auto simp: second_ok_def is_cont_def split: if_splits)
    moreover have "drop 2 ch = take (n - 2) t2" unfolding w(4) s t by (simp add: drop_take)
    moreover have "n - 1 = Suc (n - 2)" using True by simp
    ultimately show ?thesis using conts unfolding t by simp
  next
    case False
    then have "n - 1 = 0" by simp
    then show ?thesis by simp
  qed
  moreover have "length ch = n" using w(3,4) by simp
  ultimately show ?thesis using ch first by (simp add: valid_char_def)
qed

lemma utf8_bytes_valid: "n < 1114112 \<Longrightarrow> valid_char (utf8_bytes n)"
proof -
  assume n: "n < 1114112"
  then have d: "n < 2048 \<Longrightarrow> n div 64 < 32" "n < 65536 \<Longrightarrow> n div 4096 < 16" "n div 262144 < 5" by auto
  have m: "n mod 64 < 64" "n div 64 mod 64 < 64" "n div 4096 mod 64 < 64" by simp_all
  show ?thesis
    using d m by (simp add: utf8_bytes_def valid_char_def is_cont_def utf8_width_def Let_def)
qed

lemma next_valid:
  assumes "next_scalar w e s = Scalar ch n" "s \<noteq> []" "\<forall>c. valid_char (w c)"
  shows "valid_char ch"
proof -
  have sixteen: "valid_char ch" if a: "utf16_next le s = Scalar ch n" for le
  proof -
    let ?u = "unit_at le s 0" and ?v = "unit_at le s 2"
    have u: "?u < 65536" "?v < 65536" by (rule unit_at_less)+
    show ?thesis
    proof (cases "0xD800 \<le> ?u \<and> ?u < 0xDC00")
      case True
      let ?n = "0x10000 + (?u - 0xD800) * 0x400 + (?v - 0xDC00)"
      have v: "0xDC00 \<le> ?v" "?v < 0xE000" "ch = utf8_bytes ?n"
        using a True by (auto simp: utf16_next_def Let_def split: if_splits)
      then show ?thesis using utf8_bytes_valid [of ?n] True by auto
    next
      case False
      then have "ch = utf8_bytes ?u" using a by (auto simp: utf16_next_def Let_def split: if_splits)
      then show ?thesis using utf8_bytes_valid [of ?u] u(1) by simp
    qed
  qed
  show ?thesis
    using assms sixteen utf8_next_valid by (auto simp: next_scalar_def split: fw_encoding.splits)
qed

lemma decode_loop_valid:
  "decode_loop w e off s = Some (cs, p) \<Longrightarrow> \<forall>c. valid_char (w c) \<Longrightarrow> list_all valid_char (List.map fst cs)"
proof (induction cs arbitrary: off s)
  case (Cons c cs)
  obtain ch fin where c: "c = (ch, fin)" by (cases c)
  obtain n where n: "next_scalar w e s = Scalar ch n" "s \<noteq> []" "decode_loop w e fin (drop n s) = Some (cs, p)"
    using decode_loop_head [of w e off s ch fin cs p] Cons.prems c by auto
  show ?case using Cons.IH [OF n(3) Cons.prems(2)] next_valid [OF n(1,2) Cons.prems(2)] by (simp add: c)
qed simp

definition start_decoder :: "bool \<Rightarrow> decoder" where
  "start_decoder force = (if force then windows1252_decoder else default_decoder)"

lemma start_decoder_ok: "decoder_ok w (start_decoder force)" "raw_offset (start_decoder force) = 0"
  using starts_ok(1,2) [of w] by (simp_all add: start_decoder_def default_decoder_def windows1252_decoder_def)

lemma decode_valid:
  assumes "decode w b (start_decoder force) = Inr (d, out)" "\<forall>c. valid_char (w c)"
  shows "list_all valid_char (dc_text out)" "length (dc_text out) \<le> length b" "raw_offset d = length b"
proof -
  have from_: "decoded_from w b d out"
    using decode_from [OF assms(1)] by (simp add: start_decoder_def)
  have ok: "\<forall>c. char_ok (w c)" using assms(2) valid_char_ok by blast
  have "list_all valid_char (dc_text out) \<and> length (dc_text out) \<le> length b"
  proof (cases "dc_text out = []")
    case False
    then obtain off cs p d0 d1 where cs: "off \<le> length b" "decode_loop w (dec_encoding d) off (drop off b) = Some (cs, p)"
        "scalars cs (d0, empty_decoded) = (d1, out)"
      using from_ by (auto simp: decoded_from_def)
    have "dc_text out = List.map fst cs"
      using scalars_text [of cs d0 empty_decoded] cs(3) by (simp add: empty_decoded_def)
    moreover have "length cs \<le> length b - off"
      using decode_loop_chars [of w "dec_encoding d" off "drop off b" cs "[]" p] decode_loop_drop(2) [of w "dec_encoding d" off "drop off b" cs "[]" p]
        cs(2) ok by simp
    ultimately show ?thesis using decode_loop_valid [OF cs(2) assms(2)] by simp
  qed simp
  then show "list_all valid_char (dc_text out)" "length (dc_text out) \<le> length b" by simp_all
  show "raw_offset d = length b" using from_ by (simp add: decoded_from_def)
qed

subsection \<open>Snapshots as operations of the stream\<close>

abbreviation open_ops :: "rust_char list \<Rightarrow> op list" where
  "open_ops cs \<equiv> [Push cs, Snapshot]"

lemma snapshot_run:
  assumes "decode w b (start_decoder force) = Inr (d, out)"
  shows "\<exists>s. snapshot_bytes env w b path i force = Inr s \<and> sn_decoder s = d
    \<and> (sn_stream s, sn_entries s) = run env path (open_ops (dc_text out)) (new_stream i 1, [])"
proof -
  have push: "push_bytes w b (if force then windows1252_decoder else default_decoder) = (d, Inr out)"
    using assms by (simp add: start_decoder_def push_bytes_def)
  obtain st d1 where p: "push_text env path (dc_text out) (new_stream i 1) = (st, d1)" by fastforce
  obtain st2 d2 where e: "snapshot_eof env path st = (st2, d2)" by fastforce
  show ?thesis
    unfolding snapshot_bytes_def push Let_def by (simp add: p e run_def)
qed

lemma snapshot_run_back:
  assumes "snapshot_bytes env w b path i force = Inr s"
  shows "\<exists>force' out. (force \<longrightarrow> force') \<and> decode w b (start_decoder force') = Inr (sn_decoder s, out)
    \<and> (sn_stream s, sn_entries s) = run env path (open_ops (dc_text out)) (new_stream i 1, [])"
proof (cases "decode w b (start_decoder force)")
  case (Inr r)
  then obtain d out where "decode w b (start_decoder force) = Inr (d, out)" by (cases r) auto
  then show ?thesis using snapshot_run [of w b force d out env path i] assms by auto
next
  case (Inl e)
  then have "e = NeedsWindows1252" "\<exists>d out. decode w b (start_decoder True) = Inr (d, out)"
    using assms
    by (auto simp: snapshot_bytes_def push_bytes_def start_decoder_def Let_def split: sum.splits if_splits)
  then obtain d out where d: "decode w b (start_decoder True) = Inr (d, out)" by blast
  have "snapshot_bytes env w b path i force = snapshot_bytes env w b path i True"
    using Inl d by (cases force) (simp_all add: \<open>e = _\<close> snapshot_bytes_def push_bytes_def start_decoder_def)
  then show ?thesis using snapshot_run [OF d, of env path i] assms d by (intro exI [of _ True]) auto
qed

subsection \<open>One read of a growing file\<close>

text \<open>Opening a file whose bytes grew from \<open>c\<close> to \<open>d\<close> meanwhile: any part may fail, reads may be short.\<close>

definition grows_to :: "'id \<Rightarrow> string \<Rightarrow> string \<Rightarrow> 'id tail_file option \<Rightarrow> bool" where
  "grows_to ident c d opened \<longleftrightarrow>
     prefix c d
     \<and> (case opened of
          None \<Rightarrow> True
        | Some f \<Rightarrow>
            tf_identity f = Some ident \<and> length c \<le> tf_length f
            \<and> (\<forall>pos n b. tf_chunk f pos n = Some b \<longrightarrow> pos \<le> length c \<longrightarrow> prefix b (drop pos d))
            \<and> (\<forall>b. tf_whole f = Some b \<longrightarrow> prefix b d))"

text \<open>What a consumer does with a batch.\<close>

definition show_batch :: "batch \<Rightarrow> row list \<Rightarrow> row list" where
  "show_batch b rows =
     (if bt_reset b then bt_entries b
      else fold apply_replacement (bt_replacements b) (rows @ bt_entries b))"

definition followed ::
  "fw_env \<Rightarrow> (char \<Rightarrow> rust_char) \<Rightarrow> string \<Rightarrow> 'id \<Rightarrow> u64 \<Rightarrow> string \<Rightarrow> 'id checkpoint \<Rightarrow> transition option \<Rightarrow> row list \<Rightarrow> bool" where
  "followed env w path ident i0 c cp due rows \<longleftrightarrow>
     cp_identity cp = Some ident \<and> due \<noteq> Some Generation \<and> raw_offset (cp_decoder cp) \<le> length c
     \<and> (\<exists>i force out.
          decode w (take (raw_offset (cp_decoder cp)) c) (start_decoder force) = Inr (cp_decoder cp, out)
          \<and> sim (cp_stream cp, rows) (run_op env path (Push (dc_text out)) (new_stream i 1, []))
          \<and> (force \<longrightarrow> due = None) \<and> unat i \<le> unat i0 + (if force then length c + 1 else 0))"

lemma followed_grows: "followed env w path ident i0 c cp due rows \<Longrightarrow> prefix c d \<Longrightarrow> followed env w path ident i0 d cp due rows"
  unfolding followed_def by (elim conjE exE prefixE) (auto split: if_splits, fastforce+)

lemma gap_fields:
  "oc_checkpoint (gap_outcome env path rq p reason) = None" "oc_pending (gap_outcome env path rq p reason) = p"
  "show_batch (oc_batch (gap_outcome env path rq p reason)) rows = rows"
  by (simp_all add: gap_outcome_def Let_def show_batch_def split: prod.split)

lemma windows_total: "\<exists>cs. decode_loop w Windows1252 off s = Some (cs, [])"
proof (induction s arbitrary: off)
  case (Cons c s)
  then obtain cs where "decode_loop w Windows1252 (off + 1) s = Some (cs, [])" by blast
  then show ?case by (simp add: decode_loop.simps [of w Windows1252 off "c # s"] next_scalar_def)
qed (simp add: decode_loop.simps)

lemma decode_windows:
  assumes "dec_encoding d = Windows1252"
  shows "\<exists>d' out. decode w b d = Inr (d', out) \<and> dec_encoding d' = Windows1252"
proof -
  let ?d = "d\<lparr>raw_offset := raw_offset d + length b, carry := []\<rparr>" and ?base = "raw_offset d - length (carry d)"
  obtain cs where cs: "decode_loop w Windows1252 ?base (carry d @ b) = Some (cs, [])" using windows_total by blast
  have "decode w b d = decode_rest w (carry d @ b) ?base (?d, 0)" using assms by (simp add: decode_def Let_def)
  moreover have "decode_rest w (carry d @ b) ?base (?d, 0) =
      Inr (fst (scalars cs (?d, empty_decoded))\<lparr>carry := []\<rparr>, snd (scalars cs (?d, empty_decoded)))"
    using cs assms by (intro decode_rest_Some) simp
  ultimately show ?thesis using scalars_keep [of cs "(?d, empty_decoded)"] assms by simp
qed

lemma forced_encoding: "decode w b (start_decoder True) = Inr (d, out) \<Longrightarrow> dec_encoding d = Windows1252"
  using decode_windows [of "start_decoder True" w b] by (auto simp: start_decoder_def windows1252_decoder_def)

lemma followed_gap:
  assumes "followed env w path ident i0 c cp due rows" "p \<noteq> Some Generation"
    "p = due \<or> dec_encoding (cp_decoder cp) \<noteq> Windows1252"
    "take_outcome (gap_outcome env path rq p reason) (cp, due, status) = ((cp', due', status'), bs)"
  shows "followed env w path ident i0 c cp' due' (fold show_batch bs rows)"
proof -
  have same: "cp' = cp" "due' = p" "fold show_batch bs rows = rows"
    using assms(4) by (auto simp: take_outcome_def gap_fields)
  have "force \<longrightarrow> p = None"
    if "force \<longrightarrow> due = None" "decode w x (start_decoder force) = Inr (cp_decoder cp, out)" for force x out
    using that assms(3) forced_encoding by (cases force) auto
  then show ?thesis using assms(1,2) unfolding followed_def same by fast
qed

text \<open>The rows after the text of a snapshot, and how far its ids go.\<close>

lemma run_opening:
  assumes "list_all valid_char cs" "unat i + length cs < 2 ^ 64"
  shows "sim (run env path (open_ops cs) (new_stream i 1, [])) (run_op env path (Push cs) (new_stream i 1, []))"
  using run_sim [of "new_stream i 1" "[]" "open_ops cs" 0 env path] assms by (simp add: fresh_def room_def)

lemma pushed_ids:
  assumes "list_all valid_char cs" "unat i + length cs < 2 ^ 64"
  shows "unat (next_id (fst (run_op env path (Push cs) (new_stream i 1, [])))) \<le> unat i + length cs"
proof -
  let ?n = "2 ^ 64 - 1 - (unat i + length cs)"
  have "room (fst (run_op env path (Push cs) (new_stream i 1, []))) ?n"
    using run_push_append [of "new_stream i 1" cs "[]" ?n env path "[]"] assms by (simp add: room_def)
  then show ?thesis using assms(2) by (simp add: room_def)
qed

lemma sim_ids: "sim (a, es) (b, fs) \<Longrightarrow> unat (next_id a) \<le> unat (next_id b) + 1"
proof -
  assume "sim (a, es) (b, fs)"
  then have "next_id a = next_id b \<or> next_id a = sat_inc (next_id b)"
    by (auto simp: sim_def row_sim_def split: option.splits)
  moreover have "unat (sat_inc (next_id b)) \<le> unat (next_id b) + 1"
    by (simp add: sat_inc_def unat_word_ariths)
  ultimately show ?thesis by auto
qed

lemma sim_push:
  assumes "sim (a, es) (b, fs)" "list_all valid_char cs" "room b (length cs)" "plain b"
  shows "sim (run_op env path (Push cs) (a, es)) (run_op env path (Push cs) (b, fs))"
proof (cases "newline \<in> set cs")
  case True
  obtain b' fs' where b': "run_op env path (Push cs) (b, fs) = (b', fs')" by fastforce
  have "plain b'" "fresh fs' b'"
    using run_push_append [of b cs "[]" 0 env path fs] assms b' by (simp_all add: sim_def)
  then have "sim (b', fs') (b', fs')" by (simp add: sim_def row_sim_def plain_def)
  then show ?thesis using sim_push_newline [OF assms(1,2) True assms(3), of env path] b' by simp
next
  case False
  then show ?thesis using sim_push_inside assms by blast
qed

lemma followed_reset:
  assumes f: "followed env w path ident i0 c cp due rows" and g: "prefix c d" "prefix b d"
    and s: "snapshot_bytes env w b path (next_id (cp_stream cp)) True = Inr s"
    and w: "\<forall>x. valid_char (w x)" and n: "unat i0 + 2 * length d + 1 < 2 ^ 64"
    and e: "due \<noteq> None \<or> dec_encoding (cp_decoder cp) \<noteq> Windows1252"
  shows "followed env w path ident i0 d \<lparr>cp_decoder = sn_decoder s, cp_stream = sn_stream s, cp_identity = Some ident\<rparr>
    None (sn_entries s)"
proof -
  let ?i = "next_id (cp_stream cp)"
  obtain i force out where o: "decode w (take (raw_offset (cp_decoder cp)) c) (start_decoder force) = Inr (cp_decoder cp, out)"
      "sim (cp_stream cp, rows) (run_op env path (Push (dc_text out)) (new_stream i 1, []))"
      "force \<longrightarrow> due = None" "unat i \<le> unat i0 + (if force then length c + 1 else 0)"
    using f by (auto simp: followed_def)
  have "\<not> force" using o(1,3) e forced_encoding by (cases force) auto
  moreover have len: "length c \<le> length d" "length b \<le> length d" using g by (simp_all add: prefix_length_le)
  moreover have tx: "list_all valid_char (dc_text out)" "length (dc_text out) \<le> length c"
    using decode_valid [OF o(1) w] by auto
  moreover obtain bs fs where b: "run_op env path (Push (dc_text out)) (new_stream i 1, []) = (bs, fs)" by fastforce
  ultimately have i: "unat ?i \<le> unat i0 + length d + 1"
    using sim_ids [OF o(2) [unfolded b]] pushed_ids [OF tx(1), of i env path] o(4) n by simp
  obtain out' where o': "decode w b (start_decoder True) = Inr (sn_decoder s, out')"
      "(sn_stream s, sn_entries s) = run env path (open_ops (dc_text out')) (new_stream ?i 1, [])"
    using snapshot_run_back [OF s] by auto
  note v = decode_valid [OF o'(1) w]
  have "sim (sn_stream s, sn_entries s) (run_op env path (Push (dc_text out')) (new_stream ?i 1, []))"
    unfolding o'(2) using i n v len by (intro run_opening) simp_all
  moreover have "take (length b) d = b" using g(2) by (auto elim: prefixE)
  ultimately show ?thesis
    using o'(1) v(3) len(2) i unfolding followed_def by (auto intro!: exI [of _ ?i] exI [of _ True])
qed

lemma followed_append:
  assumes f: "followed env w path ident i0 c cp None rows" and g: "prefix c d"
    "prefix bytes (drop (raw_offset (cp_decoder cp)) d)"
    and p: "decode w bytes (cp_decoder cp) = Inr (d1, decoded)"
      "push_text env path (dc_text decoded) (cp_stream cp) = (st, delta)"
    and w: "\<forall>x. valid_char (w x)" and n: "unat i0 + 2 * length d + 1 < 2 ^ 64"
  shows "followed env w path ident i0 d (cp\<lparr>cp_decoder := d1, cp_stream := st\<rparr>) None (apply_delta delta rows)"
proof -
  let ?off = "raw_offset (cp_decoder cp)"
  obtain i force out where o: "decode w (take ?off c) (start_decoder force) = Inr (cp_decoder cp, out)"
      "sim (cp_stream cp, rows) (run_op env path (Push (dc_text out)) (new_stream i 1, []))"
      "unat i \<le> unat i0 + (if force then length c + 1 else 0)"
    using f by (auto simp: followed_def)
  have off: "?off \<le> length c" "length c \<le> length d" "cp_identity cp = Some ident"
    using f g(1) by (simp_all add: followed_def prefix_length_le)
  have "take ?off c @ bytes = take (?off + length bytes) d"
  proof -
    have "take ?off c = take ?off d" using g(1) off(1) by (auto elim: prefixE)
    moreover have "bytes = take (length bytes) (drop ?off d)" using g(2) by (auto elim!: prefixE)
    ultimately show ?thesis by (metis take_add)
  qed
  then have dec1: "decode w (take (?off + length bytes) d) (start_decoder force) = Inr (d1, add_decoded out decoded)"
    using decode_append(1) [OF start_decoder_ok(1), of w "take ?off c" bytes force] o(1) p(1) by (simp add: map_pushed_def)
  note v = decode_valid [OF dec1 w]
  have lb: "?off + length bytes \<le> length d" using prefix_length_le [OF g(2)] off by simp
  then have r1: "raw_offset d1 = ?off + length bytes" using v(3) by simp
  have tx: "dc_text (add_decoded out decoded) = dc_text out @ dc_text decoded" by (simp add: add_decoded_def)
  have i: "unat i + length (dc_text out @ dc_text decoded) < 2 ^ 64"
    using v(2) lb o(3) off n unfolding tx by (simp split: if_splits)
  obtain b fs where b: "run_op env path (Push (dc_text out)) (new_stream i 1, []) = (b, fs)" by fastforce
  have vt: "list_all valid_char (dc_text out @ dc_text decoded)" "list_all valid_char (dc_text decoded)"
    using v(1) unfolding tx by simp_all
  note app = run_push_append [of "new_stream i 1" "dc_text out" "dc_text decoded" 0 env path "[]", unfolded b]
  have "plain b" "room b (length (dc_text decoded))"
      "run_op env path (Push (dc_text decoded)) (b, fs) = run_op env path (Push (dc_text out @ dc_text decoded)) (new_stream i 1, [])"
    using app vt(1) i by (simp_all add: room_def)
  moreover have "run_op env path (Push (dc_text decoded)) (cp_stream cp, rows) = (st, apply_delta delta rows)"
    using p(2) by simp
  ultimately have "sim (st, apply_delta delta rows) (run_op env path (Push (dc_text (add_decoded out decoded))) (new_stream i 1, []))"
    using sim_push [OF o(2) [unfolded b] vt(2), of env path] unfolding tx by simp
  then show ?thesis
    using dec1 r1 lb off o(3) unfolding followed_def
    by (intro conjI exI [of _ i] exI [of _ force] exI [of _ "add_decoded out decoded"]) (auto split: if_splits)
qed

lemma followed_again:
  assumes f: "followed env w path ident i0 c cp due rows" and g: "grows_to ident c d (Some tfile)"
    and w: "\<forall>x. valid_char (w x)" and n: "unat i0 + 2 * length d + 1 < 2 ^ 64"
    and e: "due \<noteq> None \<or> dec_encoding (cp_decoder cp) \<noteq> Windows1252" "p = Some ToWindows1252" "p = due \<or> due = None"
    and rq: "rq_checkpoint rq = cp"
    and t: "take_outcome (case read_again env w path rq tfile p of Inr oc \<Rightarrow> oc | Inl reason \<Rightarrow> gap_outcome env path rq p reason)
      (cp, due, status) = ((cp', due', status'), bs)"
  shows "followed env w path ident i0 d cp' due' (fold show_batch bs rows)"
proof (cases "read_again env w path rq tfile p")
  case (Inl reason)
  have "followed env w path ident i0 c cp' due' (fold show_batch bs rows)"
    using t e f unfolding Inl by (intro followed_gap [of env w path ident i0 c cp due rows p rq reason status cp' due' status' bs]) auto
  then show ?thesis using followed_grows g by (auto simp: grows_to_def)
next
  case (Inr oc)
  then obtain b s where b: "tf_whole tfile = Some b" "snapshot_bytes env w b path (next_id (cp_stream cp)) True = Inr s"
      "oc_checkpoint oc = Some \<lparr>cp_decoder = sn_decoder s, cp_stream = sn_stream s, cp_identity = tf_identity tfile\<rparr>"
      "oc_pending oc = None" "oc_changed oc" "show_batch (oc_batch oc) rows = sn_entries s"
    using e(2) rq by (auto simp: read_again_def show_batch_def Let_def split: if_splits option.splits sum.splits)
  have "cp' = \<lparr>cp_decoder = sn_decoder s, cp_stream = sn_stream s, cp_identity = Some ident\<rparr>" "due' = None"
      "fold show_batch bs rows = sn_entries s"
    using t g b(3-6) unfolding Inr by (auto simp: take_outcome_def grows_to_def)
  moreover have "prefix c d" "prefix b d" using g b(1) by (auto simp: grows_to_def)
  ultimately show ?thesis using followed_reset [OF f _ _ b(2) w n e(1)] by simp
qed

lemma decode_needs: "decode w bytes d = Inl x \<Longrightarrow> dec_encoding d \<noteq> Windows1252"
  using decode_windows [of d w bytes] by auto

text \<open>A read of nothing changes no row.\<close>

lemma empty_read:
  assumes "followed env w path ident i0 c cp due rows" "decode w [] (cp_decoder cp) = Inr (d1, decoded)"
    "push_text env path (dc_text decoded) (cp_stream cp) = (st, delta)"
  shows "apply_delta delta rows = rows"
proof -
  have "decoder_ok w (cp_decoder cp)"
    using assms(1) decode_append(2) [OF start_decoder_ok(1)] unfolding followed_def by blast
  then have "dc_text decoded = []" using decode_Nil assms(2) by (auto simp: empty_decoded_def)
  then show ?thesis using assms(3) by (auto simp: push_text_feed)
qed

lemma followed_step:
  assumes f: "followed env w path ident i0 c cp due rows" and g: "grows_to ident c d opened"
    and w: "\<forall>x. valid_char (w x)" and n: "unat i0 + 2 * length d + 1 < 2 ^ 64"
    and t: "take_outcome (read_once env w path opened (cp, due, status)) (cp, due, status) = ((cp', due', status'), bs)"
  shows "followed env w path ident i0 d cp' due' (fold show_batch bs rows)"
proof -
  define rq where "rq = \<lparr>rq_revision = 0, rq_checkpoint = cp, rq_pending = due\<rparr>"
  have rq: "rq_checkpoint rq = cp" "rq_pending rq = due" by (simp_all add: rq_def)
  have cd: "prefix c d" using g by (simp add: grows_to_def)
  have gen: "due \<noteq> Some Generation" "raw_offset (cp_decoder cp) \<le> length c" "cp_identity cp = Some ident"
    using f by (simp_all add: followed_def)
  have gap: "followed env w path ident i0 d cp' due' (fold show_batch bs rows)"
    if "read_once env w path opened (cp, due, status) = gap_outcome env path rq due reason" for reason
    using followed_grows [OF followed_gap [OF f gen(1) _ t [unfolded that]] cd] by simp
  show ?thesis
  proof (cases opened)
    case None
    then show ?thesis by (intro gap [of ReadFailed]) (simp add: read_once_def read_candidate_def rq_def)
  next
    case (Some tfile)
    have fl: "tf_identity tfile = Some ident" "length c \<le> tf_length tfile"
        "\<And>b. tf_chunk tfile (raw_offset (cp_decoder cp)) read_chunk_bytes = Some b \<Longrightarrow> prefix b (drop (raw_offset (cp_decoder cp)) d)"
      using g gen(2) by (auto simp: grows_to_def Some)
    have once: "read_once env w path opened (cp, due, status) =
        (case read_opened env w path rq tfile due of (_, Inr oc) \<Rightarrow> oc | (p, Inl reason) \<Rightarrow> gap_outcome env path rq p reason)"
      using fl(1,2) gen unfolding read_once_def read_candidate_def Some rq_def [symmetric] prod.case option.case rq Let_def
      by (simp add: identities_differ_def)
    show ?thesis
    proof (cases due)
      case (Some tr)
      then have due: "due = Some ToWindows1252" using gen(1) by (cases tr) simp_all
      show ?thesis
        using t [unfolded once] by (intro followed_again [OF f g [unfolded \<open>opened = _\<close>] w n _ _ _ rq(1), of "Some ToWindows1252"])
          (auto simp: due read_opened_def)
    next
      case due: None
      show ?thesis
      proof (cases "tf_chunk tfile (raw_offset (cp_decoder cp)) read_chunk_bytes")
        case None
        then show ?thesis by (intro gap [of ReadFailed, unfolded once]) (simp add: due read_opened_def rq Let_def)
      next
        case (Some bytes)
        note chunk = Some
        show ?thesis
        proof (cases "decode w bytes (cp_decoder cp)")
          case (Inl e)
          show ?thesis
          proof (cases e)
            case InvalidExplicitEncoding
            then show ?thesis
              using Inl by (intro gap [of InvalidEncoding, unfolded once]) (simp add: due read_opened_def rq Let_def chunk push_bytes_def)
          next
            case NeedsWindows1252
            then have "read_opened env w path rq tfile due =
                (Some ToWindows1252, read_again env w path rq tfile (Some ToWindows1252))"
              using Inl by (simp add: due read_opened_def rq Let_def chunk push_bytes_def)
            then show ?thesis
              using t [unfolded once] decode_needs [OF Inl]
              by (intro followed_again [OF f g [unfolded \<open>opened = _\<close>] w n _ _ _ rq(1), of "Some ToWindows1252"]) (auto simp: due)
          qed
        next
          case (Inr r)
          then obtain d1 decoded where p: "decode w bytes (cp_decoder cp) = Inr (d1, decoded)" by (cases r) auto
          obtain st delta where tx: "push_text env path (dc_text decoded) (cp_stream cp) = (st, delta)" by fastforce
          have oc: "read_once env w path opened (cp, due, status) =
              \<lparr>oc_checkpoint = Some (cp\<lparr>cp_decoder := d1, cp_stream := st\<rparr>), oc_pending = None,
               oc_batch = \<lparr>bt_entries = new_entries delta, bt_replacements = replacements delta,
                           bt_coverage = delta_coverage delta, bt_observed = observed_through delta,
                           bt_reset = False, bt_decoding = from_decoder d1\<rparr>,
               oc_changed = (bytes \<noteq> [])\<rparr>"
            unfolding once using p tx by (simp add: due read_opened_def rq Let_def chunk push_bytes_def)
          have "apply_delta delta rows = rows" if "bytes = []"
            using empty_read [OF f, of d1 decoded st delta] p tx that by simp
          then have "cp' = cp\<lparr>cp_decoder := d1, cp_stream := st\<rparr>" "due' = None" "fold show_batch bs rows = apply_delta delta rows"
            using t unfolding oc by (auto simp: take_outcome_def show_batch_def apply_delta_def)
          moreover note followed_append [OF f [unfolded due] cd fl(3) [OF chunk] p tx w n]
          ultimately show ?thesis by simp
        qed
      qed
    qed
  qed
qed

subsection \<open>Many reads\<close>

fun grown :: "'id \<Rightarrow> string \<Rightarrow> 'id tail_file option list \<Rightarrow> string \<Rightarrow> bool" where
  "grown ident c [] d \<longleftrightarrow> prefix c d"
| "grown ident c (f # fs) d \<longleftrightarrow> (\<exists>a b. prefix c a \<and> grows_to ident a b f \<and> grown ident b fs d)"

lemma grown_prefix: "grown ident c fs d \<Longrightarrow> prefix c d"
  by (induction fs arbitrary: c) (auto simp: grows_to_def intro: prefix_order.trans)

lemma followed_run:
  assumes "followed env w path ident i0 c cp due rows" "grown ident c fs d" "\<forall>x. valid_char (w x)"
    "unat i0 + 2 * length d + 1 < 2 ^ 64" "follow env w path fs (cp, due, status) = ((cp', due', status'), bs)"
  shows "followed env w path ident i0 d cp' due' (fold show_batch bs rows)"
  using assms
proof (induction fs arbitrary: c cp due status rows bs)
  case Nil
  then show ?case using followed_grows by fastforce
next
  case (Cons f fs)
  obtain a b where ab: "prefix c a" "grows_to ident a b f" "grown ident b fs d" using Cons.prems(2) by auto
  obtain cp1 due1 st1 bs1 where one: "take_outcome (read_once env w path f (cp, due, status)) (cp, due, status) = ((cp1, due1, st1), bs1)"
    by (cases "take_outcome (read_once env w path f (cp, due, status)) (cp, due, status)") auto
  obtain bs2 where two: "follow env w path fs (cp1, due1, st1) = ((cp', due', status'), bs2)" "bs = bs1 @ bs2"
    using Cons.prems(5) one by (auto split: prod.splits)
  have "length b \<le> length d" using grown_prefix [OF ab(3)] by (simp add: prefix_length_le)
  then have "followed env w path ident i0 b cp1 due1 (fold show_batch bs1 rows)"
    using followed_step [OF followed_grows [OF Cons.prems(1) ab(1)] ab(2) Cons.prems(3) _ one] Cons.prems(4) by simp
  from Cons.IH [OF this ab(3) Cons.prems(3,4) two(1)] show ?case by (simp add: two(2))
qed

lemma followed_open:
  assumes "snapshot_bytes env w b path i force = Inr s" "prefix b c" "\<forall>x. valid_char (w x)" "unat i + length b < 2 ^ 64"
  shows "followed env w path ident i c \<lparr>cp_decoder = sn_decoder s, cp_stream = sn_stream s, cp_identity = Some ident\<rparr>
    None (sn_entries s)"
proof -
  obtain force' out where o: "decode w b (start_decoder force') = Inr (sn_decoder s, out)"
      "(sn_stream s, sn_entries s) = run env path (open_ops (dc_text out)) (new_stream i 1, [])"
    using snapshot_run_back [OF assms(1)] by auto
  note v = decode_valid [OF o(1) assms(3)]
  have "sim (sn_stream s, sn_entries s) (run_op env path (Push (dc_text out)) (new_stream i 1, []))"
    unfolding o(2) using v assms(4) by (intro run_opening) simp_all
  moreover have "take (length b) c = b" "length b \<le> length c" using assms(2) by (auto elim: prefixE)
  ultimately show ?thesis
    using o(1) v(3) unfolding followed_def by (auto intro!: exI [of _ i] exI [of _ force'])
qed

text \<open>What is shown is what opening the bytes read so far shows; an unfinished last record may be missing
  from it, or be there as it was when it was last read.\<close>

definition shown_up_to :: "stream \<Rightarrow> row list \<Rightarrow> row list \<Rightarrow> bool" where
  "shown_up_to st whole rows \<longleftrightarrow>
     (if has_record st
      then whole \<noteq> [] \<and> (rows = butlast whole \<or> (\<exists>r. rows = butlast whole @ [r] \<and> row_key r = row_key (last whole)))
      else rows = whole)"

lemma followed_rows:
  assumes "followed env w path ident i0 c cp due rows"
  shows "raw_offset (cp_decoder cp) \<le> length c
    \<and> (\<exists>i force s. snapshot_bytes env w (take (raw_offset (cp_decoder cp)) c) path i force = Inr s
         \<and> sn_decoder s = cp_decoder cp \<and> shown_up_to (cp_stream cp) (sn_entries s) rows)"
proof -
  obtain i force out where o: "decode w (take (raw_offset (cp_decoder cp)) c) (start_decoder force) = Inr (cp_decoder cp, out)"
      "sim (cp_stream cp, rows) (run_op env path (Push (dc_text out)) (new_stream i 1, []))"
    using assms by (auto simp: followed_def)
  obtain b fs where b: "run_op env path (Push (dc_text out)) (new_stream i 1, []) = (b, fs)" by fastforce
  obtain s where s: "snapshot_bytes env w (take (raw_offset (cp_decoder cp)) c) path i force = Inr s" "sn_decoder s = cp_decoder cp"
      "(sn_stream s, sn_entries s) = run_op env path Snapshot (b, fs)"
    using snapshot_run [OF o(1), of env path i] b by (auto simp: run_def)
  obtain se fd where eof: "snapshot_eof env path b = (se, fd)" by fastforce
  have none: "provisional_id b = None" using o(2) b by (simp add: sim_def plain_def)
  define r where "r = result_entry (line_record env path (next_id b) (if line_active b then b\<lparr>observed := next_line b\<rparr> else b))"
  have entries: "sn_entries s = fs @ (if has_record b then [r] else [])"
    using s(3) snapshot_eof_row [OF none eof, of fs] eof by (simp add: r_def)
  have key: "row_key r = (next_id b, next_line b)" by (simp add: r_def)
  have same: "has_record (cp_stream cp) = has_record b" using o(2) b same_core_ctx by (simp add: sim_def)
  have "shown_up_to (cp_stream cp) (sn_entries s) rows"
    using o(2) unfolding b entries shown_up_to_def same
    by (auto simp: sim_def row_sim_def same key split: option.splits)
  then show ?thesis using s assms by (auto simp: followed_def)
qed

lemma grown_times:
  fixes c :: "nat \<Rightarrow> string"
  assumes "\<forall>k. grows_to ident (c k) (c (k + 1)) (disk k)" "sorted_wrt (<) ts" "\<forall>t \<in> set ts. m \<le> t \<and> t < now" "m \<le> now"
  shows "grown ident (c m) (List.map disk ts) (c now)"
proof -
  have mono: "prefix (c a) (c b)" if "a \<le> b" for a b
    using that
  proof (induction b)
    case (Suc b)
    moreover have "prefix (c b) (c (Suc b))" using assms(1) by (simp add: grows_to_def)
    ultimately show ?case by (auto simp: le_Suc_eq intro: prefix_order.trans)
  qed simp
  show ?thesis
    using assms(2-4)
  proof (induction ts arbitrary: m)
    case Nil
    then show ?case using mono by simp
  next
    case (Cons t ts)
    have "grown ident (c (t + 1)) (List.map disk ts) (c now)" using Cons.prems by (intro Cons.IH) auto
    moreover have "prefix (c m) (c t)" using Cons.prems mono by simp
    ultimately show ?case using assms(1) by auto
  qed
qed

end
