(* ===== verification/FirewallIndex.thy ===== *)
theory FirewallIndex
  imports FirewallReread
begin

text \<open>
  The index of a good snapshot, and the rows read back through it: every row with a timestamp has an entry, and
  reading that entry from an unchanged file gives the row.
\<close>

subsection \<open>The index\<close>

definition stamped :: "row list \<Rightarrow> row list" where
  "stamped rs = List.filter (\<lambda>r. timestamp r \<noteq> None) rs"

lemma spans_lookup:
  "distinct (List.map span_line sps) \<Longrightarrow> sp \<in> set sps \<Longrightarrow> spans_by_line sps (span_line sp) = Some sp"
proof -
  assume a: "distinct (List.map span_line sps)" "sp \<in> set sps"
  have "distinct (List.map fst (rev (List.map (\<lambda>s. (span_line s, s)) sps)))"
    using a(1) by (simp add: rev_map [symmetric] comp_def)
  then show ?thesis unfolding spans_by_line_def using a(2) by (intro map_of_is_SomeI) auto
qed

text \<open>The index of some rows: every row with a timestamp has its entry, its span and its context.\<close>

definition indexed ::
  "fw_env \<Rightarrow> string \<Rightarrow> (char \<Rightarrow> rust_char) \<Rightarrow> fw_encoding \<Rightarrow> string \<Rightarrow> 'id firewall_runtime \<Rightarrow> entry_index \<Rightarrow> row \<Rightarrow> bool" where
  "indexed env path w e bytes rt ix r \<longleftrightarrow>
     timestamp r = Some (ei_ts ix) \<and> ei_severity ix = entry_severity r \<and> ei_line ix = line_number r
     \<and> (\<exists>c sp t. map_of (rt_rows rt) (line_number r) = Some \<lparr>ir_span = sp, ir_id = entry_id r\<rparr>
          \<and> ei_offset ix = span_start sp \<and> context_at rt (line_number r) = Some c
          \<and> r = result_entry (parse_record env t c (entry_id r) (line_number r) path)
          \<and> reads_as w e bytes sp t)"

definition index_so_far ::
  "fw_env \<Rightarrow> string \<Rightarrow> (char \<Rightarrow> rust_char) \<Rightarrow> fw_encoding \<Rightarrow> string \<Rightarrow> 'id indexed_firewall \<Rightarrow> row list \<Rightarrow> bool" where
  "index_so_far env path w e bytes x rs \<longleftrightarrow>
     list_all2 (indexed env path w e bytes (fx_runtime x)) (fx_entries x) (stamped rs)
     \<and> list_all (\<lambda>c. \<exists>r \<in> set rs. change_line c \<le> line_number r) (rt_contexts (fx_runtime x))"

lemma change_at_all:
  "list_all (\<lambda>c. change_line c \<le> line) chs \<Longrightarrow> chs \<noteq> [] \<Longrightarrow> change_at line chs = Some (change_context (last chs))"
proof -
  assume a: "list_all (\<lambda>c. change_line c \<le> line) chs" "chs \<noteq> []"
  have all: "takeWhile (\<lambda>p. change_line p \<le> line) chs = chs"
    using a(1) by (simp add: takeWhile_eq_all_conv list_all_iff)
  show ?thesis using a(2) unfolding change_at_def partition_point_def all by (simp add: last_conv_nth Let_def)
qed

lemma add_context_now:
  "list_all (\<lambda>c. change_line c \<le> line) chs \<Longrightarrow> change_at line (add_context line c chs) = Some c"
proof (cases "chs \<noteq> [] \<and> change_context (last chs) = c")
  case True
  assume "list_all (\<lambda>c. change_line c \<le> line) chs"
  then show ?thesis using True change_at_all by (simp add: add_context_def)
next
  case False
  assume "list_all (\<lambda>c. change_line c \<le> line) chs"
  then show ?thesis
    using False change_at_all [of line "chs @ [\<lparr>change_line = line, change_context = c\<rparr>]"] by (auto simp: add_context_def)
qed

lemma add_context_before: "line < now \<Longrightarrow> change_at line (add_context now c chs) = change_at line chs"
  by (simp add: add_context_def change_at_later)

lemma index_entry_step:
  assumes so_far: "index_so_far env path w e bytes x rs" and later: "\<forall>q \<in> set rs. line_number q < line_number r"
    and r: "timestamp r = Some ts" "reads_as w e bytes sp t"
      "r = result_entry (parse_record env t c (entry_id r) (line_number r) path)"
  shows "index_so_far env path w e bytes (index_entry r ts sp c x) (rs @ [r])"
proof -
  let ?y = "index_entry r ts sp c x" and ?rt = "fx_runtime x"
  have lines: "list_all (\<lambda>p. change_line p \<le> line_number r) (rt_contexts ?rt)"
    using so_far later by (fastforce simp: index_so_far_def list_all_iff)
  have rt: "rt_contexts (fx_runtime ?y) = add_context (line_number r) c (rt_contexts ?rt)"
      "rt_rows (fx_runtime ?y) = (line_number r, \<lparr>ir_span = sp, ir_id = entry_id r\<rparr>) # rt_rows ?rt"
      "fx_entries ?y = fx_entries x @ [\<lparr>ei_ts = ts, ei_severity = entry_severity r, ei_source = 0,
         ei_offset = span_start sp, ei_line = line_number r, ei_flags = 0\<rparr>]"
    by (simp_all add: index_entry_def Let_def)
  have old: "indexed env path w e bytes (fx_runtime ?y) ix q" if "indexed env path w e bytes ?rt ix q" "q \<in> set rs" for ix q
  proof -
    have "line_number q < line_number r" using later that(2) by blast
    then show ?thesis
      using that(1) unfolding indexed_def context_at_def rt by (fastforce simp: add_context_before)
  qed
  have "indexed env path w e bytes (fx_runtime ?y) (last (fx_entries ?y)) r"
    using r add_context_now [OF lines, of c] unfolding indexed_def context_at_def rt by (fastforce)
  moreover have "list_all2 (indexed env path w e bytes (fx_runtime ?y)) (fx_entries x) (stamped rs)"
    using so_far unfolding index_so_far_def
    by (auto simp: stamped_def intro: old elim!: list.rel_mono_strong)
  moreover have "list_all (\<lambda>p. \<exists>q \<in> set (rs @ [r]). change_line p \<le> line_number q) (rt_contexts (fx_runtime ?y))"
    using lines by (auto simp: rt add_context_def list_all_iff)
  ultimately show ?thesis
    using r(1) by (simp add: index_so_far_def stamped_def rt list_all2_appendI)
qed

lemma index_so_far_skip:
  "index_so_far env path w e bytes x rs \<Longrightarrow> timestamp r = None
    \<Longrightarrow> index_so_far env path w e bytes (x\<lparr>fx_excluded := n\<rparr>) (rs @ [r])"
  by (fastforce simp: index_so_far_def stamped_def list_all_iff)

lemma index_entry_kept:
  "rt_identity (fx_runtime (index_entry r ts sp c x)) = rt_identity (fx_runtime x)"
  "rt_encoding (fx_runtime (index_entry r ts sp c x)) = rt_encoding (fx_runtime x)"
  "rt_snapshot_len (fx_runtime (index_entry r ts sp c x)) = rt_snapshot_len (fx_runtime x)"
  by (simp_all add: index_entry_def Let_def)

lemma index_loop_good:
  assumes "index_so_far env path w e bytes x rs" "distinct (List.map span_line sps)"
    "sorted_wrt (\<lambda>a b. line_number a < line_number b) (rs @ rs')"
    "list_all (row_good env path w e bytes chs sps) rs'"
  shows "\<exists>y. index_loop sps chs rs' x = Inr y \<and> index_so_far env path w e bytes y (rs @ rs')
    \<and> rt_identity (fx_runtime y) = rt_identity (fx_runtime x)
    \<and> rt_encoding (fx_runtime y) = rt_encoding (fx_runtime x)
    \<and> rt_snapshot_len (fx_runtime y) = rt_snapshot_len (fx_runtime x)"
  using assms(1,3,4)
proof (induction rs' arbitrary: rs x)
  case (Cons r rs')
  have sorted: "sorted_wrt (\<lambda>a b. line_number a < line_number b) ((rs @ [r]) @ rs')" using Cons.prems(2) by simp
  have rest: "list_all (row_good env path w e bytes chs sps) rs'" using Cons.prems(3) by simp
  show ?case
  proof (cases "timestamp r")
    case None
    then show ?thesis
      using Cons.IH [OF index_so_far_skip [OF Cons.prems(1) None] sorted rest, of "sat_inc (fx_excluded x)"] by simp
  next
    case (Some ts)
    then obtain c sp t where r: "change_at (line_number r) chs = Some c" "sp \<in> set sps" "span_line sp = line_number r"
        "r = result_entry (parse_record env t c (entry_id r) (line_number r) path)" "reads_as w e bytes sp t"
      using Cons.prems(3) by (auto simp: row_good_def)
    have later: "\<forall>q \<in> set rs. line_number q < line_number r" using Cons.prems(2) by (simp add: sorted_wrt_append)
    have "spans_by_line sps (line_number r) = Some sp" using spans_lookup [OF assms(2) r(2)] r(3) by simp
    then show ?thesis
      using Cons.IH [OF index_entry_step [OF Cons.prems(1) later Some r(5,4)] sorted rest] Some r(1)
      by (simp add: index_entry_kept)
  qed
qed simp

subsection \<open>Reading a row\<close>

lemma materialize_indexed:
  assumes "indexed env (rs_path ses) w (rt_encoding (rs_runtime ses)) bytes (rs_runtime ses) ix r"
    "holds_bytes (of_read (rs_file ses)) bytes"
  shows "materialize_firewall_entry env w ses (the (context_at (rs_runtime ses) (ei_line ix))) ix = Inr r"
proof -
  obtain c sp t where i: "timestamp r = Some (ei_ts ix)" "ei_severity ix = entry_severity r" "ei_line ix = line_number r"
      "map_of (rt_rows (rs_runtime ses)) (line_number r) = Some \<lparr>ir_span = sp, ir_id = entry_id r\<rparr>"
      "ei_offset ix = span_start sp" "context_at (rs_runtime ses) (line_number r) = Some c"
      "r = result_entry (parse_record env t c (entry_id r) (line_number r) (rs_path ses))"
      "reads_as w (rt_encoding (rs_runtime ses)) bytes sp t"
    using assms(1) unfolding indexed_def by blast
  obtain d out where d: "decode w (take (span_end sp - span_start sp) (drop (span_start sp) bytes))
        (for_encoding (rt_encoding (rs_runtime ses))) = Inr (d, out)"
      "carry d = []" "length (concat (dc_text out)) \<le> max_line_bytes + 2"
      "strip_one (CHR 0x0D) (strip_one (CHR 0x0A) (concat (dc_text out))) = t"
    using i(8) by (auto simp: reads_as_def)
  have "read_span w (of_read (rs_file ses)) (span_start sp) (span_end sp - span_start sp)
      (for_encoding (rt_encoding (rs_runtime ses))) [] = Inr (d, [] @ concat (dc_text out))"
    using i(8) d(3) by (intro read_span_decode [OF assms(2) starts_ok(3) d(1)]) (simp_all add: reads_as_def)
  moreover have "pending_bytes d = 0" using d(2) by (simp add: pending_bytes_def)
  ultimately show ?thesis
    using i d(4) i(7) [symmetric] unfolding materialize_firewall_entry_def
    by (simp add: Let_def reads_as_def)
qed

text \<open>C9. Rows read back: once the bytes of a firewall file have been decoded, split into records and indexed
  (the index accepts every such snapshot), opening the unchanged file again and materializing the entries of
  the index one by one gives, in order, exactly the rows of the snapshot that have a timestamp, with their
  identifiers, line numbers, times and severities. An unchanged file has the same identity, is at least as long,
  and reads give its bytes; the Windows-1252 table gives characters.\<close>

theorem rows_read_back:
  assumes "snapshot_bytes env w bytes path start force = Inr s" "\<forall>b. valid_char (w b)" "length bytes + 3 < 2 ^ 32"
    "fs path = Opened f" "of_identity f = Some i" "of_length f = Some n" "length bytes \<le> n"
    "holds_bytes (of_read f) bytes"
  shows "\<exists>fx session.
    index_firewall \<lparr>ar_entries = sn_entries s, ar_byte_offset = sn_byte_offset s,
                    ar_identity = Some i, ar_firewall = Some s\<rparr> = Inr fx
    \<and> open_session fs path (fx_runtime fx) = Inr session
    \<and> List.map (\<lambda>ix. materialize_firewall_entry env w session (the (context_at (fx_runtime fx) (ei_line ix))) ix)
        (fx_entries fx) = List.map Inr (stamped (sn_entries s))"
proof -
  have good: "snapshot_good env path w bytes s"
    using snapshot_is_good assms(1-3) valid_char_ok by blast
  let ?e = "dec_encoding (sn_decoder s)"
  define x where "x = \<lparr>fx_entries = [], fx_runtime = \<lparr>rt_identity = Some i, rt_encoding = ?e,
    rt_snapshot_len = sn_byte_offset s, rt_contexts = [], rt_rows = []\<rparr>, fx_excluded = 0\<rparr>"
  have "index_so_far env path w ?e bytes x []" by (simp add: index_so_far_def stamped_def x_def)
  then obtain fx where fx: "index_loop (sn_spans s) (sn_changes s) (sn_entries s) x = Inr fx"
      "index_so_far env path w ?e bytes fx (sn_entries s)" "rt_identity (fx_runtime fx) = Some i"
      "rt_encoding (fx_runtime fx) = ?e" "rt_snapshot_len (fx_runtime fx) = length bytes"
    using index_loop_good [of env path w ?e bytes x "[]" "sn_spans s" "sn_entries s" "sn_changes s"] good
    by (auto simp: snapshot_good_def x_def)
  let ?ses = "\<lparr>rs_file = f, rs_path = path, rs_runtime = fx_runtime fx\<rparr>"
  have "open_session fs path (fx_runtime fx) = Inr ?ses"
    using assms(4-7) fx(3,5) by (simp add: open_session_def)
  moreover have "List.map (\<lambda>ix. materialize_firewall_entry env w ?ses (the (context_at (fx_runtime fx) (ei_line ix))) ix)
      (fx_entries fx) = List.map Inr (stamped (sn_entries s))"
    using fx(2) materialize_indexed [of env ?ses w bytes] fx(4) assms(8)
    by (auto simp: list_eq_iff_nth_eq list_all2_conv_all_nth index_so_far_def)
  moreover have "index_firewall \<lparr>ar_entries = sn_entries s, ar_byte_offset = sn_byte_offset s,
      ar_identity = Some i, ar_firewall = Some s\<rparr> = Inr fx"
    using fx(1) by (simp add: index_firewall_def x_def)
  ultimately show ?thesis by blast
qed

subsection \<open>A log of two records, one of them without a time\<close>

abbreviation ascii_chars :: "string \<Rightarrow> rust_char list" where
  "ascii_chars s \<equiv> List.map (\<lambda>c. [c]) s"

lemma decode_ascii:
  "list_all (\<lambda>c. byte c < 128) s \<Longrightarrow> \<exists>cs. decode_loop w Utf8 off s = Some (cs, []) \<and> List.map fst cs = ascii_chars s"
proof (induction s arbitrary: off)
  case (Cons c s)
  have "next_scalar w Utf8 (c # s) = Scalar [c] 1"
    using Cons.prems by (simp add: next_scalar_def utf8_next_def utf8_size_def Let_def)
  then show ?case using Cons.IH [of "off + 1"] Cons.prems by (fastforce simp: decode_loop.simps [of w Utf8 off "c # s"])
qed (simp add: decode_loop.simps)

lemma snapshot_ascii:
  assumes "list_all (\<lambda>c. byte c < 128) s" "s \<noteq> []" "feed env path (ascii_chars s) (new_stream i 1) = (st, dl)"
    "provisional_id st = None" "replacements dl = []"
  shows "\<exists>sn. snapshot_bytes env w s path i False = Inr sn
    \<and> sn_entries sn = new_entries dl @ (if has_record st then [result_entry (line_record env path (next_id st)
         (if line_active st then st\<lparr>observed := next_line st\<rparr> else st))] else [])"
proof -
  obtain cs where cs: "decode_loop w Utf8 0 s = Some (cs, [])" "List.map fst cs = ascii_chars s"
    using decode_ascii [OF assms(1)] by blast
  obtain c s' where c: "s = c # s'" "byte c < 128" using assms(1,2) by (cases s) simp_all
  then have "c \<noteq> CHR 0xEF" "c \<noteq> CHR 0xFF" "c \<noteq> CHR 0xFE" by auto
  then have bom: "detect_bom s 0 d = Some (d\<lparr>dec_encoding := Utf8\<rparr>, 0)" for d
    using c(1) by (simp add: detect_bom_def boms_def)
  let ?d = "default_decoder\<lparr>raw_offset := length s, carry := [], dec_encoding := Utf8\<rparr>"
  obtain d1 out where out: "scalars cs (?d, empty_decoded) = (d1, out)" by fastforce
  have tx: "dc_text out = ascii_chars s"
    using scalars_text [of cs ?d empty_decoded] out cs(2) by (simp add: empty_decoded_def)
  have "decode w s default_decoder = Inr (d1\<lparr>carry := []\<rparr>, out)"
    using bom cs(1) out assms(2) by (simp add: decode_def decode_rest_def default_decoder_def Let_def scalars_def)
  then have push: "push_bytes w s default_decoder = (d1\<lparr>carry := []\<rparr>, Inr out)" by (simp add: push_bytes_def)
  have "push_text env path (dc_text out) (new_stream i 1) = (st, finish_delta st dl)"
    unfolding tx push_text_feed assms(3) by (simp add: assms(4))
  moreover obtain se fd where eof: "snapshot_eof env path st = (se, fd)" by fastforce
  ultimately show ?thesis
    using snapshot_eof_row [OF assms(4) eof, of "new_entries dl"] assms(5)
    by (simp add: snapshot_bytes_def push Let_def apply_delta_def finish_delta_def)
qed

definition plain_line :: "string \<Rightarrow> bool" where
  "plain_line l \<longleftrightarrow> l \<noteq> [] \<and> length l \<le> max_line_bytes \<and> CHR 0x00 \<notin> set l \<and> CHR 0x0A \<notin> set l \<and> CHR 0x0D \<notin> set l"

lemma absorb_byte:
  assumes "c \<noteq> CHR 0x00" "c \<noteq> CHR 0x0D" "length (pending st) < max_line_bytes" "\<not> pending_cr st" "\<not> over st"
  shows "absorb [c] st = st\<lparr>line_active := True, pending := pending st @ [c]\<rparr>"
  using assms by (simp add: absorb_def flush_cr_def text_char_def Let_def)

lemma absorb_plain:
  assumes "plain_line l" "pending st = []" "\<not> pending_cr st" "\<not> over st"
  shows "fold absorb (ascii_chars l) st = st\<lparr>line_active := True, pending := l\<rparr>"
proof -
  have "l \<noteq> [] \<Longrightarrow> length l \<le> max_line_bytes \<Longrightarrow> CHR 0x00 \<notin> set l \<Longrightarrow> CHR 0x0D \<notin> set l
      \<Longrightarrow> fold absorb (ascii_chars l) st = st\<lparr>line_active := True, pending := l\<rparr>"
  proof (induction l rule: rev_induct)
    case (snoc c l)
    show ?case
    proof (cases "l = []")
      case True
      then show ?thesis using absorb_byte [of c st] snoc.prems assms by simp
    next
      case False
      then have "fold absorb (ascii_chars l) st = st\<lparr>line_active := True, pending := l\<rparr>" using snoc by simp
      then show ?thesis using absorb_byte [of c "st\<lparr>line_active := True, pending := l\<rparr>"] snoc.prems assms by (auto simp: Suc_le_eq)
    qed
  qed simp
  then show ?thesis using assms(1) by (simp add: plain_line_def)
qed

lemma empty_dplus:
  "dplus empty_delta (dplus (empty_delta\<lparr>new_entries := a, context_changes := b\<rparr>) e) =
     dplus (empty_delta\<lparr>new_entries := a, context_changes := b\<rparr>) e"
  by (simp add: dplus_def empty_delta_def)

lemma feed_ascii_line:
  assumes "plain_line l" "pending st = []" "\<not> pending_cr st" "\<not> over st" "provisional_id st = None"
  defines "s \<equiv> st\<lparr>line_active := True, pending := l\<rparr>"
  shows "feed env path (ascii_chars (l @ CHR 0x0A # rest)) st =
    (let (st', d) = feed env path (ascii_chars rest)
        (FirewallSim.closed env path (next_id st) (if has_record s then sat_inc (next_id st) else next_id st) s)
     in (st', dplus (empty_delta\<lparr>new_entries := (if has_record s then [result_entry (line_row env path (next_id st) s)] else []),
                                context_changes := line_changes s\<rparr>) d))"
proof -
  have "newline \<notin> set (ascii_chars l)" using assms(1) by (auto simp: plain_line_def newline_def)
  from feed_absorb [OF this, of env path st]
  have f: "feed env path (ascii_chars l) st = (s, empty_delta)" using absorb_plain assms by simp
  have s: "s\<lparr>line_active := True\<rparr> = s" "next_id s = next_id st" "provisional_id s = None"
    using assms(5) by (simp_all add: s_def)
  let ?c = "FirewallSim.closed env path (next_id st) (if has_record s then sat_inc (next_id st) else next_id st) s"
  let ?d = "empty_delta\<lparr>new_entries := (if has_record s then [result_entry (line_row env path (next_id st) s)] else []),
                   context_changes := line_changes s\<rparr>"
  have "push_char env path newline (s, empty_delta) = (?c, ?d)"
    using finish_plain [of s env path] s by (simp add: push_char_def newline_def)
  then have "feed env path (newline # ascii_chars rest) s =
      (let (st', d) = feed env path (ascii_chars rest) ?c in (st', dplus ?d d))"
    by (simp only: feed_Cons Let_def prod.case)
  then show ?thesis
    using feed_append [of env path "ascii_chars l" "newline # ascii_chars rest" st]
    by (simp only: f Let_def prod.case map_append list.map newline_def split_beta empty_dplus fst_conv snd_conv)
qed

definition latin1 :: "char \<Rightarrow> rust_char" where
  "latin1 c = utf8_bytes (of_char c)"

definition short_env :: fw_env where
  "short_env = \<lparr>parse_datetime = (\<lambda>s. if s = ''2024-01-01 00:00:09'' then Some 1704067209000 else None), is_ip = (\<lambda>_. False)\<rparr>"

definition short_log :: string where
  "short_log = ''#Time Format: UTC'' @ CHR 0x0A # ''#Fields: date time action'' @ CHR 0x0A
     # ''2024-01-01 00:00:09 DROP'' @ CHR 0x0A # ''lost'' @ CHR 0x0A # []"

definition short_context :: fw_context where
  "short_context = default_context\<lparr>ctx_time_basis := UtcTime, declared_fields := Some [''date'', ''time'', ''action'']\<rparr>"

lemma short_lines:
  "plain_line ''#Time Format: UTC''" "plain_line ''#Fields: date time action''"
  "plain_line ''2024-01-01 00:00:09 DROP''" "plain_line ''lost''"
  by (simp_all add: plain_line_def max_line_bytes_def)

lemma short_directives:
  "is_directive ''#Time Format: UTC''" "is_directive ''#Fields: date time action''"
  "\<not> is_directive ''2024-01-01 00:00:09 DROP''" "\<not> is_directive ''lost''"
  "str_trim ''2024-01-01 00:00:09 DROP'' \<noteq> []" "str_trim ''lost'' \<noteq> []"
  "snd (directive ''#Time Format: UTC'' default_context) = default_context\<lparr>ctx_time_basis := UtcTime\<rparr>"
  by code_simp+

lemma short_fields: "snd (directive ''#Fields: date time action'' (default_context\<lparr>ctx_time_basis := UtcTime\<rparr>)) = short_context"
proof -
  have "str_trim ''#Fields: date time action'' = ''#Fields: date time action''"
    "split_once (CHR '':'') ''Fields: date time action'' = Some (''Fields'', '' date time action'')"
    "str_trim '' date time action'' = ''date time action''" "split_ws ''date time action'' = [''date'', ''time'', ''action'']"
    "\<not> eq_ignore_case ''Fields'' ''Software''" "\<not> eq_ignore_case ''Fields'' ''Time Format''" "eq_ignore_case ''Fields'' ''Fields''"
    by code_simp+
  moreover have "fields_ok [] [''date'', ''time'', ''action'']"
    by (simp add: field_name_ok_def is_alpha_def is_digit_def ascii_lower_def lower_char_def)
  ultimately show ?thesis
    by (simp add: directive_def fields_directive_def max_line_bytes_def short_context_def default_context_def)
qed

lemma short_parsed:
  "timestamp_of short_env (build_record short_env ''2024-01-01 00:00:09 DROP'' short_context) = Some 1704067209000"
  "timestamp_of short_env (build_record short_env ''lost'' short_context) = None"
  by code_simp+

text \<open>The keys and times of the rows of a text of plain lines.\<close>

abbreviation row_view :: "row \<Rightarrow> u64 \<times> u32 \<times> int option" where
  "row_view r \<equiv> (entry_id r, line_number r, timestamp r)"

definition at_line :: "fw_context \<Rightarrow> u64 \<Rightarrow> u32 \<Rightarrow> stream \<Rightarrow> bool" where
  "at_line c i n st \<longleftrightarrow> pending st = [] \<and> \<not> pending_cr st \<and> \<not> over st \<and> provisional_id st = None
     \<and> ctx st = c \<and> next_id st = i \<and> next_line st = n"

definition feeds :: "fw_env \<Rightarrow> string \<Rightarrow> string \<Rightarrow> fw_context \<Rightarrow> u64 \<Rightarrow> u32 \<Rightarrow> (u64 \<times> u32 \<times> int option) list \<Rightarrow> bool" where
  "feeds env path t c i n rows \<longleftrightarrow>
     (\<forall>st st' dl. at_line c i n st \<longrightarrow> feed env path (ascii_chars t) st = (st', dl) \<longrightarrow>
        pending st' = [] \<and> \<not> over st' \<and> provisional_id st' = None \<and> replacements dl = []
        \<and> List.map row_view (new_entries dl) = rows)"

lemma feedsD:
  "feeds env path t c i n rows \<Longrightarrow> at_line c i n st \<Longrightarrow> feed env path (ascii_chars t) st = (st', dl)
    \<Longrightarrow> pending st' = [] \<and> \<not> over st' \<and> provisional_id st' = None \<and> replacements dl = []
      \<and> List.map row_view (new_entries dl) = rows"
  unfolding feeds_def by blast

lemma feeds_Nil: "feeds env path [] c i n []"
  by (simp add: feeds_def at_line_def empty_delta_def)

lemma closed_at_line:
  "at_line (line_ctx s) i' (sat_inc (next_line s)) (FirewallSim.closed env path i i' s)"
  by (simp add: at_line_def closed_state FirewallSim.closed_def close_line_def Let_def)

lemma feeds_line:
  assumes "plain_line l"
    "\<And>s. pending s = l \<Longrightarrow> \<not> over s \<Longrightarrow> ctx s = c \<Longrightarrow> next_line s = n \<Longrightarrow>
       line_ctx s = c' \<and> has_record s = rec
       \<and> (rec \<longrightarrow> row_view (result_entry (line_row env path i s)) = v)"
    "feeds env path t c' (if rec then sat_inc i else i) (sat_inc n) rows"
  shows "feeds env path (l @ CHR 0x0A # t) c i n ((if rec then [v] else []) @ rows)"
  unfolding feeds_def
proof (intro allI impI)
  fix st st' dl
  assume at: "at_line c i n st" and f: "feed env path (ascii_chars (l @ CHR 0x0A # t)) st = (st', dl)"
  let ?s = "st\<lparr>line_active := True, pending := l\<rparr>"
  have a: "pending st = []" "\<not> pending_cr st" "\<not> over st" "provisional_id st = None" "next_id st = i"
    using at by (simp_all add: at_line_def)
  have s: "line_ctx ?s = c'" "has_record ?s = rec" "rec \<longrightarrow> row_view (result_entry (line_row env path i ?s)) = v"
    using assms(2) [of ?s] at by (simp_all add: at_line_def)
  let ?c = "FirewallSim.closed env path i (if rec then sat_inc i else i) ?s"
  obtain st2 d2 where f2: "feed env path (ascii_chars t) ?c = (st2, d2)" by fastforce
  have "at_line c' (if rec then sat_inc i else i) (sat_inc n) ?c"
    using closed_at_line [of ?s "if rec then sat_inc i else i" env path i] s at by (simp add: at_line_def)
  then have "pending st2 = [] \<and> \<not> over st2 \<and> provisional_id st2 = None \<and> replacements d2 = []
      \<and> List.map row_view (new_entries d2) = rows"
    using assms(3) f2 unfolding feeds_def by blast
  moreover have "st' = st2" "dl = dplus (empty_delta\<lparr>new_entries :=
      (if rec then [result_entry (line_row env path i ?s)] else []), context_changes := line_changes ?s\<rparr>) d2"
    using f feed_ascii_line [OF assms(1) a(1-4), of env path t] f2 unfolding a(5) s(2) by simp_all
  ultimately show "pending st' = [] \<and> \<not> over st' \<and> provisional_id st' = None \<and> replacements dl = []
        \<and> List.map row_view (new_entries dl) = (if rec then [v] else []) @ rows"
    using s by (simp add: empty_delta_def)
qed

lemma feeds_directive:
  assumes "plain_line l" "is_directive l" "feeds env path t (snd (directive l c)) i (sat_inc n) rows"
  shows "feeds env path (l @ CHR 0x0A # t) c i n rows"
  using feeds_line [OF assms(1), of c n "snd (directive l c)" False env path i undefined t rows] assms(2,3)
  by (simp add: line_ctx_def has_record_def)

lemma feeds_record:
  assumes "plain_line l" "\<not> is_directive l" "str_trim l \<noteq> []" "feeds env path t c (sat_inc i) (sat_inc n) rows"
  shows "feeds env path (l @ CHR 0x0A # t) c i n ((i, n, timestamp_of env (build_record env l c)) # rows)"
  using feeds_line [OF assms(1), of c n c True env path i "(i, n, timestamp_of env (build_record env l c))" t rows] assms(2-4)
  by (simp add: line_ctx_def has_record_def line_row_def line_record_def parse_record_def Let_def split: prod.splits)

lemma short_snapshot_rows:
  "\<exists>s. snapshot_bytes short_env latin1 short_log ''f'' 7 False = Inr s
     \<and> List.map row_view (sn_entries s) = [(7, 3, Some 1704067209000), (8, 4, None)]"
proof -
  obtain st dl where f: "feed short_env ''f'' (ascii_chars short_log) (new_stream 7 1) = (st, dl)" by fastforce
  have rows: "feeds short_env ''f'' (''2024-01-01 00:00:09 DROP'' @ CHR 0x0A # ''lost'' @ CHR 0x0A # []) short_context 7 n
      [(7, n, timestamp_of short_env (build_record short_env ''2024-01-01 00:00:09 DROP'' short_context)),
       (sat_inc 7, sat_inc n, timestamp_of short_env (build_record short_env ''lost'' short_context))]" for n
    by (rule feeds_record [OF short_lines(3) short_directives(3,5)], rule feeds_record [OF short_lines(4) short_directives(4,6)],
        rule feeds_Nil)
  have fed: "feeds short_env ''f'' short_log default_context 7 1
      [(7, sat_inc (sat_inc 1), timestamp_of short_env (build_record short_env ''2024-01-01 00:00:09 DROP'' short_context)),
       (sat_inc 7, sat_inc (sat_inc (sat_inc 1)), timestamp_of short_env (build_record short_env ''lost'' short_context))]"
    unfolding short_log_def
    by (rule feeds_directive [OF short_lines(1) short_directives(1)], rule feeds_directive [OF short_lines(2) short_directives(2)])
      (simp only: short_directives(7) short_fields rows)
  have at: "at_line default_context 7 1 (new_stream 7 1)" by (simp add: at_line_def new_stream_def)
  have nums: "sat_inc (7 :: u64) = 8" "sat_inc (sat_inc (1 :: u32)) = 3" "sat_inc (3 :: u32) = 4"
    by (simp_all add: sat_inc_def)
  note st = feedsD [OF fed at f, unfolded short_parsed nums]
  have "has_record st = False"
    using st by (simp add: has_record_def str_trim_Nil_iff trim_start.simps)
  moreover have "list_all (\<lambda>c. byte c < 128) short_log" "short_log \<noteq> []" by (simp_all add: short_log_def)
  ultimately show ?thesis
    using snapshot_ascii [of short_log, OF _ _ f, of latin1] st by auto
qed

definition short_snapshot :: snapshot where
  "short_snapshot = projr (snapshot_bytes short_env latin1 short_log ''f'' 7 False)"

definition short_file :: "nat opened_file" where
  "short_file = \<lparr>of_length = Some (length short_log), of_identity = Some 5,
     of_read = (\<lambda>pos k. if pos + k \<le> length short_log then Some (take k (drop pos short_log)) else None)\<rparr>"

lemma short_snapshot_ok:
  "snapshot_bytes short_env latin1 short_log ''f'' 7 False = Inr short_snapshot"
  "List.map row_view (sn_entries short_snapshot) = [(7, 3, Some 1704067209000), (8, 4, None)]"
  using short_snapshot_rows by (auto simp: short_snapshot_def)

lemma valid_utf8_bytes: "n < 256 \<Longrightarrow> valid_char (utf8_bytes n)"
proof -
  assume n: "n < 256"
  then have "n div 64 < 4" "n \<ge> 128 \<Longrightarrow> n div 64 \<ge> 2" "n mod 64 < 64" by auto
  then show ?thesis
    using n by (auto simp: utf8_bytes_def valid_char_def is_cont_def utf8_width_def Let_def)
qed

lemma latin1_chars: "\<forall>b. valid_char (latin1 b)"
  by (simp add: latin1_def valid_utf8_bytes)

lemma short_file_fields:
  "of_length short_file = Some (length short_log)" "of_identity short_file = Some 5"
  "holds_bytes (of_read short_file) short_log"
  by (simp_all add: short_file_def holds_bytes_def)

lemma short_length: "length short_log + 3 < 2 ^ 32"
  by (simp add: short_log_def)

theorem rows_read_back_witness:
  "\<exists>fx session.
    index_firewall \<lparr>ar_entries = sn_entries short_snapshot, ar_byte_offset = sn_byte_offset short_snapshot,
                    ar_identity = Some 5, ar_firewall = Some short_snapshot\<rparr> = Inr fx
    \<and> open_session (\<lambda>_. Opened short_file) ''f'' (fx_runtime fx) = Inr session
    \<and> List.map (\<lambda>ix. materialize_firewall_entry short_env latin1 session (the (context_at (fx_runtime fx) (ei_line ix))) ix)
        (fx_entries fx) = [Inr (hd (sn_entries short_snapshot))]"
proof -
  obtain a b where ab: "sn_entries short_snapshot = [a, b]" "timestamp a \<noteq> None" "timestamp b = None"
    using short_snapshot_ok(2) by (auto simp: map_eq_Cons_conv)
  have one: "List.map Inr (stamped (sn_entries short_snapshot)) = [Inr (hd (sn_entries short_snapshot))]"
    using ab by (simp add: stamped_def)
  show ?thesis
    unfolding one [symmetric]
  proof (rule rows_read_back [OF short_snapshot_ok(1) _ short_length _ short_file_fields(2,1) order_refl short_file_fields(3)])
    show "\<forall>b. valid_char (latin1 b)" by (rule latin1_chars)
  qed simp
qed

end
