(* ===== verification/FirewallWatch.thy ===== *)
theory FirewallWatch
  imports FirewallFollow FirewallIndex
begin

text \<open>
  What the tail of a firewall log shows, for any interleaving of watchers and commands and any growth of the
  file, and a run of four steps.
\<close>

text \<open>C5. Tailing shows the file. A source is opened on the first bytes of a file that then only grows; control
  commands and any number of watchers run in any order, reads may fail or be short, and a log that turns out
  not to be UTF-8 is read again. At any moment the rows of a consumer that applied the published batches are
  those of opening, at once, all bytes read so far, except that the unfinished last record may be missing or
  be shown as it was. The batches keep this up although the encodings, the ids and the provisional row are
  carried from read to read.\<close>

theorem tail_shows_file:
  assumes opened: "snapshot_bytes env w bytes path i force = Inr snap" "prefix bytes (c 0)"
    and grows: "\<forall>k. grows_to ident (c k) (c (k + 1)) (disk k)"
    and ran: "tail_run env w path disk (new_owner uuid snap (Some ident)) n s" "2 * n < 2 ^ 64"
    and w: "\<forall>b. valid_char (w b)" and ids: "unat i + 2 * length (c (sy_now s)) + 1 < 2 ^ 64"
  shows "\<exists>j again whole. snapshot_bytes env w
        (take (raw_offset (cp_decoder (ow_checkpoint (sy_owner s)))) (c (sy_now s))) path j again = Inr whole
    \<and> raw_offset (cp_decoder (ow_checkpoint (sy_owner s))) \<le> length (c (sy_now s))
    \<and> sn_decoder whole = cp_decoder (ow_checkpoint (sy_owner s))
    \<and> shown_up_to (cp_stream (ow_checkpoint (sy_owner s))) (sn_entries whole)
        (fold show_batch (sy_batches s) (sn_entries snap))"
proof -
  let ?cp = "\<lparr>cp_decoder = sn_decoder snap, cp_stream = sn_stream snap, cp_identity = Some ident\<rparr>"
  obtain ts where ts: "sorted_wrt (<) ts" "\<forall>t \<in> set ts. t < sy_now s"
      "follow env w path (List.map disk ts) (?cp, None, from_decoder (sn_decoder snap)) =
        ((ow_checkpoint (sy_owner s), ow_pending (sy_owner s), ow_decoding (sy_owner s)), sy_batches s)"
    using fenced_run [OF ran] by (auto simp: fenced_def reader_of_def new_owner_def)
  have grown: "grown ident (c 0) (List.map disk ts) (c (sy_now s))"
    using grows ts(1,2) by (intro grown_times) auto
  have "length bytes \<le> length (c (sy_now s))"
    using opened(2) grown_prefix [OF grown] by (meson order_trans prefix_length_le)
  then have "followed env w path ident i (c 0) ?cp None (sn_entries snap)"
    using ids by (intro followed_open [OF opened w]) simp
  from followed_rows [OF followed_run [OF this grown w ids ts(3)]] show ?thesis by blast
qed

definition silenced :: "u64 \<Rightarrow> 'id owner \<Rightarrow> bool" where
  "silenced e ow \<longleftrightarrow> e \<le> ow_epoch ow \<and> (ow_epoch ow = e \<longrightarrow> \<not> ow_active ow)"

lemma silenced_controls:
  assumes "silenced e ow"
  shows "silenced e (fst (start c ow))" "silenced e (fst (stop c ow))" "silenced e (fst (set_paused c b ow))"
  using assms by (auto simp: silenced_def start_def stop_def set_paused_def split: option.splits)

lemma silenced_commit: "commit t rv oc ow = (ow', ok, pub) \<Longrightarrow> silenced e ow' = silenced e ow"
  by (auto simp: commit_def silenced_def Let_def split: if_splits)

lemma silenced_control: "silenced e ow \<Longrightarrow> silenced e (fst (control_owner c action ow))"
  by (cases action) (simp_all add: control_owner_def silenced_controls)

lemma silenced_step: "tail_step env w path disk s s' \<Longrightarrow> silenced e (sy_owner s) \<Longrightarrow> silenced e (sy_owner s')"
proof (induction rule: tail_step.cases)
  case (Begin t s ow)
  then show ?case using silenced_controls(1) [of e "sy_owner s" "Some t"] by simp
next
  case (Refuse c s ow a)
  then show ?case using silenced_controls(1) [of e "sy_owner s" c] by simp
next
  case (NoThread c s ow)
  then show ?case using silenced_controls(2) [OF silenced_controls(1), of e "sy_owner s" c c] by simp
next
  case (Control c action s ow a)
  then show ?case using silenced_control [of e "sy_owner s" c action] by simp
next
  case (Commit s i rv oc ow ok pub)
  then show ?case
    using silenced_commit [of "wk_token (sy_workers s ! i)" rv oc "sy_owner s" ow ok pub e] by (simp add: to_phase_def)
qed (simp_all add: to_phase_def)

text \<open>C38. A stop is final: once a stop with some token was accepted, no worker with that token or an older one
  ever gets another request or commits an outcome it still holds, whatever happens afterwards.\<close>

theorem stop_is_final:
  assumes "stop (Some t) ow = (sy_owner s, True)" "(tail_step env w path disk)\<^sup>*\<^sup>* s s'" "watch_epoch u \<le> watch_epoch t"
  shows "request u (sy_owner s') = None \<and> commit u rv oc (sy_owner s') = (sy_owner s', False, None)"
proof -
  have "silenced (watch_epoch t) (sy_owner s)"
    using arg_cong [OF assms(1), of fst] arg_cong [OF assms(1), of snd]
    by (simp add: stop_def silenced_def split: if_splits) (auto dest!: sym [of _ "sy_owner s"])
  with assms(2) have "silenced (watch_epoch t) (sy_owner s')"
    by induction (auto intro: silenced_step)
  then have "\<not> is_current (sy_owner s') u" using assms(3) by (auto simp: silenced_def is_current_def)
  then show ?thesis by (simp add: request_def commit_def)
qed

subsection \<open>A run of four steps\<close>

definition more_log :: string where
  "more_log = ''2024-01-01 00:00:09 DROP'' @ [CHR 0x0A]"

definition short_contents :: "nat \<Rightarrow> string" where
  "short_contents k = (if k = 0 then short_log else short_log @ more_log)"

definition short_disk :: "nat \<Rightarrow> nat tail_file option" where
  "short_disk k = Some
     \<lparr>tf_identity = Some 5, tf_length = length (short_contents k),
      tf_chunk = (\<lambda>pos n. Some (take n (drop pos (short_contents (k + 1))))),
      tf_whole = Some (short_contents (k + 1))\<rparr>"

definition short_owner :: "nat owner" where
  "short_owner = new_owner ''u'' short_snapshot (Some 5)"

definition short_token :: control_token where
  "short_token = \<lparr>source_session_id = ''u'', watch_epoch = 1\<rparr>"

lemma short_grows: "grows_to 5 (short_contents k) (short_contents (k + 1)) (short_disk k)"
  by (auto simp: grows_to_def short_disk_def short_contents_def take_is_prefix simp del: drop_append take_append)

lemma read_published:
  "tf_chunk f (raw_offset (cp_decoder (rq_checkpoint rq))) read_chunk_bytes = Some b \<Longrightarrow> b \<noteq> [] \<Longrightarrow>
    oc_changed (read_candidate env w path rq (Some f))
    \<or> ds_kind (bt_decoding (oc_batch (read_candidate env w path rq (Some f)))) = FirewallTail.Gap"
  by (auto simp: read_candidate_def read_opened_def read_again_def gap_outcome_def Let_def
      split: prod.splits sum.splits option.splits if_splits decode_error.splits)

lemma short_run:
  "\<exists>s. tail_run short_env latin1 ''f'' short_disk short_owner 4 s \<and> sy_now s = 1 \<and> sy_batches s \<noteq> []"
proof -
  define ow where "ow = short_owner\<lparr>ow_epoch := 1, ow_revision := 1, ow_active := True, ow_paused := False\<rparr>"
  define rq where "rq = \<lparr>rq_revision = 1, rq_checkpoint = ow_checkpoint ow, rq_pending = ow_pending ow\<rparr>"
  define oc where "oc = read_candidate short_env latin1 ''f'' rq (short_disk 0)"
  let ?run = "tail_run short_env latin1 ''f'' short_disk short_owner"
  let ?at = "\<lambda>p. [\<lparr>wk_token = short_token, wk_phase = p\<rparr>]"
  have cur: "is_current ow short_token" "\<not> ow_paused ow" "ow_revision ow = 1"
    by (simp_all add: is_current_def same_session_def short_token_def ow_def short_owner_def new_owner_def)
  have s1: "?run 1 \<lparr>sy_owner = ow, sy_workers = ?at Polling, sy_now = 0, sy_batches = []\<rparr>"
    using tail_run.Step [OF tail_run.Idle tail_step.Begin [of short_token _ ow]]
    by (simp add: start_def same_session_def short_token_def short_owner_def new_owner_def ow_def)
  have "ask_phase False short_token (Some ow) = Reading rq" using cur by (simp add: ask_phase_def request_def rq_def)
  then have s2: "?run 2 \<lparr>sy_owner = ow, sy_workers = ?at (Reading rq), sy_now = 0, sy_batches = []\<rparr>"
    using tail_run.Step [OF s1 tail_step.Ask [of _ 0 _ _ _ _ False]] by (simp add: in_phase_def to_phase_def numeral_2_eq_2)
  have s3: "?run 3 \<lparr>sy_owner = ow, sy_workers = ?at (Committing 1 oc), sy_now = 1, sy_batches = []\<rparr>"
    using tail_run.Step [OF s2 tail_step.Read [of _ 0 rq]]
    by (simp add: in_phase_def to_phase_def read_phase_def rq_def oc_def)
  obtain ow' ok pub where cm: "commit short_token 1 oc ow = (ow', ok, pub)" by (metis prod_cases3)
  have off: "raw_offset (cp_decoder (rq_checkpoint rq)) = length short_log"
    using snapshot_run_back [OF short_snapshot_ok(1)] decode_valid(3) latin1_chars
    by (fastforce simp: rq_def ow_def short_owner_def new_owner_def)
  have "oc_changed oc \<or> ds_kind (bt_decoding (oc_batch oc)) = FirewallTail.Gap"
    unfolding oc_def short_disk_def by (intro read_published [where b = more_log])
      (simp_all add: off short_contents_def read_chunk_bytes_def more_log_def)
  moreover have "ds_kind (ow_decoding ow) \<noteq> FirewallTail.Gap"
    by (simp add: ow_def short_owner_def new_owner_def from_decoder_def)
  ultimately have "pub \<noteq> None" using cm cur by (auto simp: commit_def Let_def split: if_splits)
  moreover have "?run 4 \<lparr>sy_owner = ow', sy_workers = ?at Polling, sy_now = 1, sy_batches = opt_list pub\<rparr>"
    using tail_run.Step [OF s3 tail_step.Commit [of _ 0 1 oc ow' ok pub]] cm by (simp add: in_phase_def to_phase_def)
  ultimately show ?thesis by fastforce
qed

theorem watchers_act_as_one_witness:
  "\<exists>s ts. tail_run short_env latin1 ''f'' short_disk short_owner 4 s \<and> sy_batches s \<noteq> []
    \<and> sorted_wrt (<) ts \<and> (\<forall>t \<in> set ts. t < sy_now s)
    \<and> follow short_env latin1 ''f'' (List.map short_disk ts) (reader_of short_owner) = (reader_of (sy_owner s), sy_batches s)"
proof -
  obtain s where s: "tail_run short_env latin1 ''f'' short_disk short_owner 4 s" "sy_batches s \<noteq> []"
    using short_run by blast
  have "2 * (4 :: nat) < 2 ^ 64" by simp
  from watchers_act_as_one [OF s(1) [unfolded short_owner_def] this] s show ?thesis
    unfolding short_owner_def by blast
qed

theorem tail_shows_file_witness:
  "\<exists>s. tail_run short_env latin1 ''f'' short_disk short_owner 4 s \<and> sy_batches s \<noteq> []
    \<and> (\<exists>j again whole. snapshot_bytes short_env latin1
          (take (raw_offset (cp_decoder (ow_checkpoint (sy_owner s)))) (short_contents (sy_now s))) ''f'' j again = Inr whole
        \<and> raw_offset (cp_decoder (ow_checkpoint (sy_owner s))) \<le> length (short_contents (sy_now s))
        \<and> sn_decoder whole = cp_decoder (ow_checkpoint (sy_owner s))
        \<and> shown_up_to (cp_stream (ow_checkpoint (sy_owner s))) (sn_entries whole)
            (fold show_batch (sy_batches s) (sn_entries short_snapshot)))"
proof -
  obtain s where s: "tail_run short_env latin1 ''f'' short_disk short_owner 4 s" "sy_now s = 1" "sy_batches s \<noteq> []"
    using short_run by blast
  have n: "2 * (4 :: nat) < 2 ^ 64" by simp
  have first: "prefix short_log (short_contents 0)" by (simp add: short_contents_def)
  have grows: "\<forall>k. grows_to 5 (short_contents k) (short_contents (k + 1)) (short_disk k)" using short_grows by blast
  have ids: "unat (7 :: u64) + 2 * length (short_contents (sy_now s)) + 1 < 2 ^ 64"
    by (simp add: s(2) short_contents_def short_log_def more_log_def)
  show ?thesis
    using tail_shows_file [OF short_snapshot_ok(1) first grows s(1) [unfolded short_owner_def] n latin1_chars ids] s(1,3)
    by blast
qed

theorem stop_is_final_witness:
  "request short_token (fst (start (Some (short_token\<lparr>watch_epoch := 2\<rparr>)) (fst (stop (Some short_token) short_owner)))) = None"
proof -
  define s :: "nat system" where
    "s = \<lparr>sy_owner = fst (stop (Some short_token) short_owner), sy_workers = [], sy_now = 0, sy_batches = []\<rparr>"
  let ?t = "short_token\<lparr>watch_epoch := 2\<rparr>"
  have stopped: "stop (Some short_token) short_owner = (sy_owner s, True)"
    by (simp add: s_def stop_def same_session_def short_token_def short_owner_def new_owner_def)
  have "start (Some ?t) (sy_owner s) = (fst (start (Some ?t) (sy_owner s)), Started)"
    by (simp add: s_def start_def stop_def same_session_def short_token_def short_owner_def new_owner_def)
  from r_into_rtranclp [of "tail_step short_env latin1 ''f'' short_disk", OF tail_step.Begin [OF this]]
  show ?thesis using stop_is_final [OF stopped _ order_refl] by (fastforce simp: s_def)
qed

end
