(* ===== verification/TimelineQuery.thy ===== *)
theory TimelineQuery
  imports TimelineFirewall "HOL-Library.Signed_Division"
begin

text \<open>
  \<open>src-tauri/src/timeline/{store,query}.rs\<close> with the rest of \<open>models.rs\<close>: the timeline a session keeps, the
  reader of messages and its sessions, paged queries, lanes, incident details and new tunables. The file
  system does not change during a request; it, the parsers of the other formats and the debug printing of
  an event are parameters. A request that panics has the value \<open>None\<close>.
\<close>

subsection \<open>The timeline\<close>

datatype 'k source_kind = LogFile 'k | IntuneEvents

record 'k source_meta =
  sm_idx :: u16
  sm_kind :: "'k source_kind"
  sm_path :: string
  sm_name :: string
  sm_color :: string
  sm_count :: u32
  sm_excluded :: "u32 option"

record source_error =
  se_path :: string
  se_message :: string

record 'k timeline_bundle =
  bu_id :: string
  bu_sources :: "'k source_meta list"
  bu_range :: "int \<times> int"
  bu_total :: nat
  bu_incidents :: "incident list"
  bu_denied :: "string list"
  bu_errors :: "source_error list"
  bu_tunables :: tunables

record 'k timeline =
  tl_bundle :: "'k timeline_bundle"
  tl_indexes :: "(u16, entry_index list) hash_map"
  tl_ime_events :: "(u16, intune_event list) hash_map"
  tl_raw_signals :: "tl_signal list"

definition total_entries :: "'k timeline \<Rightarrow> nat" where
  "total_entries t = sum_list (List.map (\<lambda>(_, v). length v) (tl_indexes t))
     + sum_list (List.map (\<lambda>(_, v). length v) (tl_ime_events t))"

record lane_bucket =
  lb_source :: u16
  lb_start :: int
  lb_end :: int
  lb_total :: u32
  lb_errors :: u32
  lb_warnings :: u32

datatype timeline_entry = LogRow u16 log_entry | ImeRow u16 intune_event

datatype timeline_error =
    FirewallSourceError u16 string materialization_error
  | TimelineNotFound string
  | TooLarge nat nat
  | NoSources
  | InternalError string

subsection \<open>Reading entries\<close>

text \<open>\<open>read_once path offset n\<close> opens a file, seeks and reads once, at most \<open>n\<close> bytes; \<open>parse_one_line\<close> is the
  parser a source was resolved to, \<open>debug_event\<close> the derived \<open>Debug\<close> of an event.\<close>

record ('p, 'id) reader =
  rd_env :: fw_env
  rd_w1252 :: "char \<Rightarrow> rust_char"
  rd_open :: "string \<Rightarrow> 'id open_result"
  read_once :: "string \<Rightarrow> nat \<Rightarrow> nat \<Rightarrow> string option"
  parse_one_line :: "'p \<Rightarrow> string \<Rightarrow> u32 \<Rightarrow> log_entry option"
  debug_event :: "intune_event \<Rightarrow> string"

record ('p, 'id) source_runtime =
  sr_path :: string
  sr_parser :: 'p
  sr_firewall :: "'id firewall_runtime option"

text \<open>\<open>String::from_utf8_lossy\<close>: a replacement character for each longest beginning of a character that does
  not go on.\<close>

definition replacement_char :: rust_char where
  "replacement_char = [CHR 0xEF, CHR 0xBF, CHR 0xBD]"

definition bad_width :: "string \<Rightarrow> nat" where
  "bad_width s =
     (let b = byte (hd s); w = utf8_size b in
      if w \<le> 1 \<or> length s < 2 \<or> \<not> second_ok b (byte (s ! 1)) then 1
      else 2 + length (takeWhile is_cont (take (w - 2) (drop 2 s))))"

function from_utf8_lossy :: "string \<Rightarrow> string" where
  "from_utf8_lossy s =
     (if s = [] then []
      else
        (case utf8_next s of
           Scalar ch n \<Rightarrow> ch @ from_utf8_lossy (drop n s)
         | Short \<Rightarrow> replacement_char
         | Bad \<Rightarrow> replacement_char @ from_utf8_lossy (drop (bad_width s) s)))"
  by pat_completeness auto
termination
proof (relation "measure length")
  fix s :: string and ch n assume "s \<noteq> []" "utf8_next s = Scalar ch n"
  then show "(drop n s, s) \<in> measure length"
    using next_scalar_width [of undefined Utf8 s ch n] by (auto simp: next_scalar_def)
next
  fix s :: string assume "s \<noteq> []"
  then show "(drop (bad_width s) s, s) \<in> measure length" by (simp add: bad_width_def Let_def)
qed simp

declare from_utf8_lossy.simps [simp del]

definition read_entry_raw :: "('p, 'id) reader \<Rightarrow> string \<Rightarrow> nat \<Rightarrow> string option" where
  "read_entry_raw rd path off =
     map_option (\<lambda>buf. if CHR 0x0A \<in> set buf then takeWhile (\<lambda>c. c \<noteq> CHR 0x0A) buf @ [CHR 0x0A] else buf)
       (read_once rd path off (64 * 1024))"

definition materialize_log_entry :: "('p, 'id) reader \<Rightarrow> string \<Rightarrow> 'p \<Rightarrow> entry_index \<Rightarrow> log_entry option" where
  "materialize_log_entry rd path parser ei =
     do { raw \<leftarrow> read_entry_raw rd path (ei_offset ei); parse_one_line rd parser (from_utf8_lossy raw) (ei_line ei) }"

definition materialize_msg :: "('p, 'id) reader \<Rightarrow> string \<Rightarrow> 'p \<Rightarrow> entry_index \<Rightarrow> string option" where
  "materialize_msg rd path parser ei = map_option message (materialize_log_entry rd path parser ei)"

text \<open>\<open>MessageMaterializer\<close>: the sources of a timeline, the sessions opened so far and the first error.\<close>

type_synonym ('p, 'id) runtimes = "(u16, ('p, 'id) source_runtime) hash_map"
type_synonym indexes = "(u16, entry_index list) hash_map"

record 'id materializer =
  ma_sessions :: "(u16, 'id read_session) hash_map"
  first_error :: "timeline_error option"

definition new_materializer :: "'id materializer" where
  "new_materializer = \<lparr>ma_sessions = [], first_error = None\<rparr>"

definition index_at :: "indexes \<Rightarrow> u16 \<Rightarrow> u32 \<Rightarrow> entry_index option" where
  "index_at indexes src eref = Option.bind (map_of indexes src) (\<lambda>rows. nth_opt rows (unat eref))"

text \<open>The session of a source: the one opened before, or a new one, kept only when it opens.\<close>

definition session_of ::
  "('p, 'id) reader \<Rightarrow> string \<Rightarrow> 'id firewall_runtime \<Rightarrow> u16 \<Rightarrow> 'id materializer
     \<Rightarrow> (materialization_error + 'id read_session) \<times> 'id materializer" where
  "session_of rd path fw src ma =
     (case map_of (ma_sessions ma) src of
        Some s \<Rightarrow> (Inr s, ma)
      | None \<Rightarrow>
          (case open_session (rd_open rd) path fw of
             Inl e \<Rightarrow> (Inl e, ma)
           | Inr s \<Rightarrow> (Inr s, ma\<lparr>ma_sessions := ma_sessions ma @ [(src, s)]\<rparr>)))"

definition scoped :: "u16 \<Rightarrow> string \<Rightarrow> materialization_error \<Rightarrow> timeline_error" where
  "scoped src path reason = FirewallSourceError src path reason"

definition entry_at ::
  "('p, 'id) reader \<Rightarrow> ('p, 'id) runtimes \<Rightarrow> indexes \<Rightarrow> u16 \<Rightarrow> u32 \<Rightarrow> 'id materializer
     \<Rightarrow> (timeline_error + log_entry option) \<times> 'id materializer" where
  "entry_at rd runtimes indexes src eref ma =
     (case (map_of runtimes src, index_at indexes src eref) of
        (Some rt, Some ei) \<Rightarrow>
          (case sr_firewall rt of
             None \<Rightarrow> (Inr (materialize_log_entry rd (sr_path rt) (sr_parser rt) ei), ma)
           | Some fw \<Rightarrow>
               (case context_at fw (ei_line ei) of
                  None \<Rightarrow> (Inl (scoped src (sr_path rt) InvalidIndexContext), ma)
                | Some c \<Rightarrow>
                    (case session_of rd (sr_path rt) fw src ma of
                       (Inl e, ma) \<Rightarrow> (Inl (scoped src (sr_path rt) e), ma)
                     | (Inr s, ma) \<Rightarrow>
                         ((case materialize_firewall_entry (rd_env rd) (rd_w1252 rd) s c ei of
                             Inl e \<Rightarrow> Inl (scoped src (sr_path rt) e)
                           | Inr e \<Rightarrow> Inr (Some (log_entry.truncate e))), ma))))
      | _ \<Rightarrow> (Inr None, ma))"

definition message_at ::
  "('p, 'id) reader \<Rightarrow> ('p, 'id) runtimes \<Rightarrow> indexes \<Rightarrow> 'id materializer \<Rightarrow> u16 \<Rightarrow> u32
     \<Rightarrow> string option \<times> 'id materializer" where
  "message_at rd runtimes indexes ma src eref =
     (if first_error ma \<noteq> None then (None, ma)
      else
        (case List.find (\<lambda>rt. sr_firewall rt = None) (opt_list (map_of runtimes src)) of
           Some rt \<Rightarrow>
             (case index_at indexes src eref of
                None \<Rightarrow> (None, ma)
              | Some ei \<Rightarrow> (materialize_msg rd (sr_path rt) (sr_parser rt) ei, ma))
         | None \<Rightarrow>
             (case entry_at rd runtimes indexes src eref ma of
                (Inr e, ma) \<Rightarrow> (map_option message e, ma)
              | (Inl e, ma) \<Rightarrow> (None, ma\<lparr>first_error := Some e\<rparr>))))"

definition finish :: "'id materializer \<Rightarrow> timeline_error + unit" where
  "finish ma = (case first_error ma of None \<Rightarrow> Inr () | Some e \<Rightarrow> Inl e)"

subsection \<open>New tunables\<close>

definition recompute_tunables ::
  "('p, 'id) reader \<Rightarrow> 'k timeline \<Rightarrow> ('p, 'id) runtimes \<Rightarrow> tunables
     \<Rightarrow> (timeline_error + incident list) \<times> 'k timeline" where
  "recompute_tunables rd t runtimes tn =
     (let (incidents, ma) = redetect_from_signals (tl_raw_signals t) (tl_ime_events t) tn
            (set (bu_denied (tl_bundle t))) (message_at rd runtimes (tl_indexes t)) new_materializer
      in case finish ma of
           Inl e \<Rightarrow> (Inl e, t)
         | Inr _ \<Rightarrow> (Inr incidents,
             t\<lparr>tl_bundle := (tl_bundle t)\<lparr>bu_tunables := tn, bu_incidents := incidents\<rparr>\<rparr>))"

subsection \<open>Paged queries\<close>

type_synonym view_key = "int \<times> u16 \<times> u32 \<times> bool"

definition in_range :: "int \<times> int \<Rightarrow> int \<Rightarrow> bool" where
  "in_range r ts \<longleftrightarrow> fst r \<le> ts \<and> ts \<le> snd r"

definition whole_range :: "int \<times> int" where
  "whole_range = (- 9223372036854775808, 9223372036854775807)"

definition wanted :: "u16 list option \<Rightarrow> u16 \<Rightarrow> bool" where
  "wanted source_filter src \<longleftrightarrow> (case source_filter of None \<Rightarrow> True | Some f \<Rightarrow> src \<in> set f)"

definition log_keys :: "int \<times> int \<Rightarrow> u16 \<Rightarrow> entry_index list \<Rightarrow> view_key list" where
  "log_keys r src rows =
     concat (List.map (\<lambda>(i, ei). if in_range r (ei_ts ei) then [(ei_ts ei, src, of_nat i, False)] else [])
       (enumerate 0 rows))"

definition ime_keys :: "int \<times> int \<Rightarrow> u16 \<Rightarrow> intune_event list \<Rightarrow> view_key list" where
  "ime_keys r src evs =
     concat (List.map (\<lambda>(i, ev). case iv_start ev of None \<Rightarrow> []
       | Some ts \<Rightarrow> if in_range r ts then [(ts, src, of_nat i, True)] else []) (enumerate 0 evs))"

definition view_keys :: "'k timeline \<Rightarrow> (int \<times> int) option \<Rightarrow> u16 list option \<Rightarrow> view_key list" where
  "view_keys t bounds source_filter =
     (let r = (case bounds of None \<Rightarrow> whole_range | Some r \<Rightarrow> r) in
      sort_key (\<lambda>(ts, src, eref, _). (ts, src, eref))
        (concat (List.map (\<lambda>(src, rows). if wanted source_filter src then log_keys r src rows else []) (tl_indexes t))
         @ concat (List.map (\<lambda>(src, evs). if wanted source_filter src then ime_keys r src evs else [])
             (tl_ime_events t))))"

text \<open>The slice of a page: the sum of offset and limit wraps, and a slice that ends before it starts panics.\<close>

definition page_slice :: "u64 \<Rightarrow> u32 \<Rightarrow> 'a list \<Rightarrow> 'a list option" where
  "page_slice offset limit view =
     (let e = min (unat (offset + ucast limit)) (length view); s = min (unat offset) (length view)
      in if s \<le> e then Some (take (e - s) (drop s view)) else None)"

fun read_page ::
  "('p, 'id) reader \<Rightarrow> 'k timeline \<Rightarrow> ('p, 'id) runtimes \<Rightarrow> view_key list \<Rightarrow> 'id materializer
     \<Rightarrow> timeline_error + timeline_entry list" where
  "read_page rd t runtimes [] ma = Inr []"
| "read_page rd t runtimes ((ts, src, eref, is_ime) # ks) ma =
     (if is_ime then
        (case ime_event_at (tl_ime_events t) src eref of
           None \<Rightarrow> read_page rd t runtimes ks ma
         | Some ev \<Rightarrow> map_sum id (\<lambda>out. ImeRow src ev # out) (read_page rd t runtimes ks ma))
      else
        (case entry_at rd runtimes (tl_indexes t) src eref ma of
           (Inl e, _) \<Rightarrow> Inl e
         | (Inr None, ma) \<Rightarrow> read_page rd t runtimes ks ma
         | (Inr (Some e), ma) \<Rightarrow> map_sum id (\<lambda>out. LogRow src e # out) (read_page rd t runtimes ks ma)))"

definition query_timeline_entries ::
  "('p, 'id) reader \<Rightarrow> 'k timeline \<Rightarrow> ('p, 'id) runtimes \<Rightarrow> (int \<times> int) option \<Rightarrow> u16 list option \<Rightarrow> u64 \<Rightarrow> u32
     \<Rightarrow> (timeline_error + timeline_entry list) option" where
  "query_timeline_entries rd t runtimes bounds source_filter offset limit =
     map_option (\<lambda>page. read_page rd t runtimes page new_materializer)
       (page_slice offset limit (view_keys t bounds source_filter))"

subsection \<open>Lanes\<close>

text \<open>Counts of a bucket: items, errors, warnings. \<open>as i64\<close> of a float saturates; division truncates.\<close>

definition lane_step :: "int \<Rightarrow> int \<Rightarrow> int \<Rightarrow> int" where
  "lane_step lo hi n =
     min \<lceil>fl 53 (fl 53 (of_int (max (wrap64 (hi - lo)) 1)) / fl 53 (of_int n))\<rceil> 9223372036854775807"

definition bump :: "bool \<Rightarrow> bool \<Rightarrow> u32 \<times> u32 \<times> u32 \<Rightarrow> u32 \<times> u32 \<times> u32" where
  "bump e w b = (case b of (n, es, ws) \<Rightarrow> (n + 1, if e then es + 1 else es, if w then ws + 1 else ws))"

type_synonym lane_item = "int \<times> bool \<times> bool"

definition log_items :: "entry_index list \<Rightarrow> lane_item list" where
  "log_items = List.map (\<lambda>ei. (ei_ts ei, ei_severity ei = LogError, ei_severity ei = LogWarning))"

definition ime_items :: "intune_event list \<Rightarrow> lane_item list" where
  "ime_items = List.map_filter (\<lambda>ev. map_option (\<lambda>ts. (ts, status_is_failed ev, False)) (iv_start ev))"

fun count_items :: "int \<Rightarrow> int \<Rightarrow> int \<Rightarrow> int \<Rightarrow> lane_item list \<Rightarrow> (u32 \<times> u32 \<times> u32) list \<Rightarrow> (u32 \<times> u32 \<times> u32) list option" where
  "count_items lo hi step n [] bs = Some bs"
| "count_items lo hi step n ((ts, e, w) # xs) bs =
     (if ts < lo \<or> ts > hi then count_items lo hi step n xs bs
      else
        (let bi = min (wrap64 (ts - lo) sdiv step) (n - 1) in
         if 0 \<le> bi \<and> nat bi < length bs
         then count_items lo hi step n xs (bs[nat bi := bump e w (bs ! nat bi)])
         else None))"

definition lane_buckets :: "u16 \<Rightarrow> int \<Rightarrow> int \<Rightarrow> int \<Rightarrow> (u32 \<times> u32 \<times> u32) list \<Rightarrow> lane_bucket list" where
  "lane_buckets src lo hi step bs =
     concat (List.map (\<lambda>(i, n, es, ws). if n = 0 then [] else
         (let start = wrap64 (lo + wrap64 (step * int i)) in
          [\<lparr>lb_source = src, lb_start = start, lb_end = min (wrap64 (start + step)) hi, lb_total = n,
            lb_errors = es, lb_warnings = ws\<rparr>]))
       (enumerate 0 bs))"

fun lanes_loop :: "'k timeline \<Rightarrow> int \<Rightarrow> int \<Rightarrow> int \<Rightarrow> int \<Rightarrow> 'k source_meta list \<Rightarrow> lane_bucket list option" where
  "lanes_loop t lo hi step n [] = Some []"
| "lanes_loop t lo hi step n (m # ms) =
     do { bs \<leftarrow> count_items lo hi step n
            (concat (List.map log_items (opt_list (map_of (tl_indexes t) (sm_idx m))))
             @ concat (List.map ime_items (opt_list (map_of (tl_ime_events t) (sm_idx m)))))
            (replicate (nat n) (0, 0, 0));
          out \<leftarrow> lanes_loop t lo hi step n ms;
          Some (lane_buckets (sm_idx m) lo hi step bs @ out) }"

definition query_lane_buckets :: "'k timeline \<Rightarrow> u32 \<Rightarrow> (int \<times> int) option \<Rightarrow> lane_bucket list option" where
  "query_lane_buckets t bucket_count bounds =
     (let (lo, hi) = (case bounds of None \<Rightarrow> bu_range (tl_bundle t) | Some r \<Rightarrow> r);
          n = int (max (unat bucket_count) 1)
      in lanes_loop t lo hi (lane_step lo hi n) n (bu_sources (tl_bundle t)))"

subsection \<open>Incident details\<close>

record signal_detail =
  sd_source :: u16
  sd_name :: string
  sd_ts :: int
  sd_kind :: signal_kind
  sd_correlation :: "string option"
  sd_line :: u32
  sd_preview :: string

record incident_detail =
  id_incident :: incident
  id_signals :: "signal_detail list"
  id_counts :: "(string, u32) hash_map"

text \<open>The first \<open>n\<close> characters of a text.\<close>

fun take_chars :: "nat \<Rightarrow> string \<Rightarrow> string" where
  "take_chars 0 s = []"
| "take_chars (Suc n) [] = []"
| "take_chars (Suc n) (c # s) = c # takeWhile is_cont s @ take_chars n (dropWhile is_cont s)"

definition truncate_text :: "string \<Rightarrow> nat \<Rightarrow> string" where
  "truncate_text s n =
     (if length (List.filter (\<lambda>c. \<not> is_cont c) s) \<le> n then s
      else take_chars n s @ [CHR 0xE2, CHR 0x80, CHR 0xA6])"

definition source_name :: "'k timeline \<Rightarrow> u16 \<Rightarrow> string" where
  "source_name t src =
     (case List.find (\<lambda>m. sm_idx m = src) (bu_sources (tl_bundle t)) of
        Some m \<Rightarrow> sm_name m
      | None \<Rightarrow> ''src'' @ dec (unat src))"

definition signal_preview ::
  "('p, 'id) reader \<Rightarrow> 'k timeline \<Rightarrow> ('p, 'id) runtimes \<Rightarrow> tl_signal \<Rightarrow> 'id materializer
     \<Rightarrow> (timeline_error + u32 \<times> string) \<times> 'id materializer" where
  "signal_preview rd t runtimes s ma =
     (case map_of runtimes (sg_source s) of
        Some _ \<Rightarrow>
          (case index_at (tl_indexes t) (sg_source s) (sg_ref s) of
             Some ei \<Rightarrow>
               (case entry_at rd runtimes (tl_indexes t) (sg_source s) (sg_ref s) ma of
                  (Inl e, ma) \<Rightarrow> (Inl e, ma)
                | (Inr en, ma) \<Rightarrow>
                    (Inr (ei_line ei, truncate_text (case en of None \<Rightarrow> [] | Some e \<Rightarrow> message e) 200), ma))
           | None \<Rightarrow> (Inr (0, []), ma))
      | None \<Rightarrow>
          (Inr (0, truncate_text (case ime_event_at (tl_ime_events t) (sg_source s) (sg_ref s) of
             None \<Rightarrow> [] | Some ev \<Rightarrow> debug_event rd ev) 200), ma))"

definition shown_signal :: "tunables \<Rightarrow> incident \<Rightarrow> tl_signal \<Rightarrow> bool" where
  "shown_signal tn i s \<longleftrightarrow> in_range (in_start i, in_end i) (sg_ts s) \<and> sg_kind s \<in> set (enabled_signal_kinds tn)"

fun detail_loop ::
  "('p, 'id) reader \<Rightarrow> 'k timeline \<Rightarrow> ('p, 'id) runtimes \<Rightarrow> incident \<Rightarrow> tl_signal list \<Rightarrow> 'id materializer
     \<Rightarrow> signal_detail list \<Rightarrow> (string, u32) hash_map
     \<Rightarrow> timeline_error + signal_detail list \<times> (string, u32) hash_map" where
  "detail_loop rd t runtimes i [] ma sigs counts = Inr (sigs, counts)"
| "detail_loop rd t runtimes i (s # ss) ma sigs counts =
     (if \<not> shown_signal (bu_tunables (tl_bundle t)) i s then detail_loop rd t runtimes i ss ma sigs counts
      else
        (let nm = source_name t (sg_source s) in
         case signal_preview rd t runtimes s ma of
           (Inl e, _) \<Rightarrow> Inl e
         | (Inr (line, preview), ma) \<Rightarrow>
             detail_loop rd t runtimes i ss ma
               (sigs @ [\<lparr>sd_source = sg_source s, sd_name = nm, sd_ts = sg_ts s, sd_kind = sg_kind s,
                         sd_correlation = sg_correlation s, sd_line = line, sd_preview = preview\<rparr>])
               (hm_entry nm 0 (\<lambda>n. n + 1) counts)))"

definition query_incident_details ::
  "('p, 'id) reader \<Rightarrow> 'k timeline \<Rightarrow> ('p, 'id) runtimes \<Rightarrow> u32 \<Rightarrow> timeline_error + incident_detail option" where
  "query_incident_details rd t runtimes incident_id =
     (case List.find (\<lambda>i. in_id i = incident_id) (bu_incidents (tl_bundle t)) of
        None \<Rightarrow> Inr None
      | Some i \<Rightarrow>
          map_sum id (\<lambda>(sigs, counts). Some \<lparr>id_incident = i, id_signals = sigs, id_counts = counts\<rparr>)
            (detail_loop rd t runtimes i (tl_raw_signals t) new_materializer [] []))"

end
