(* ===== verification/IncidentSpec.thy ===== *)
theory IncidentSpec
  imports Incidents
begin

text \<open>
  What incident detection promises: the clusters of a sorted list of signals, incidents as the disjoint
  stretches of time they stand for, and that new tunables give what a fresh detection would give.
\<close>

subsection \<open>Clusters\<close>

definition instants_ok :: "tl_signal list \<Rightarrow> bool" where
  "instants_ok sigs \<longleftrightarrow> list_all (\<lambda>s. \<bar>sg_ts s\<bar> < 2 ^ 62) sigs"

definition cluster_ok :: "int \<Rightarrow> int \<Rightarrow> cluster \<Rightarrow> bool" where
  "cluster_ok window max_span c \<longleftrightarrow>
     cl_signals c \<noteq> [] \<and> cl_start c = sg_ts (hd (cl_signals c)) \<and> cl_end c = sg_ts (last (cl_signals c))
     \<and> sorted (List.map sg_ts (cl_signals c))
     \<and> cl_end c - cl_start c \<le> max_span \<and> successively (\<lambda>a b. sg_ts b - sg_ts a \<le> window) (cl_signals c)"

text \<open>Why the first signal of \<open>d\<close> did not join \<open>c\<close>.\<close>

definition apart :: "int \<Rightarrow> int \<Rightarrow> cluster \<Rightarrow> cluster \<Rightarrow> bool" where
  "apart window max_span c d \<longleftrightarrow> cl_start d - cl_end c > window \<or> cl_start d - cl_start c > max_span"

definition clusters_ok :: "int \<Rightarrow> int \<Rightarrow> tl_signal list \<Rightarrow> cluster list \<Rightarrow> bool" where
  "clusters_ok window max_span sigs cs \<longleftrightarrow>
     concat (List.map cl_signals cs) = sigs \<and> list_all (cluster_ok window max_span) cs
     \<and> successively (\<lambda>c d. apart window max_span c d \<and> cl_end c \<le> cl_start d) cs"

lemma wrap64_diff: "\<bar>a\<bar> < 2 ^ 62 \<Longrightarrow> \<bar>b\<bar> < 2 ^ 62 \<Longrightarrow> wrap64 (a - b) = a - b"
  by (rule wrap64_id) (simp add: fits64_def, linarith)

lemma clusters_ok_last:
  assumes "clusters_ok window max_span sigs (cs @ [c])"
  shows "\<exists>pre. sigs = pre @ cl_signals c \<and> cl_signals c \<noteq> [] \<and> cl_start c = sg_ts (hd (cl_signals c))
    \<and> cl_end c = sg_ts (last sigs)"
proof -
  have "cl_signals c \<noteq> []" using assms by (simp add: clusters_ok_def cluster_ok_def)
  moreover have "sigs = concat (List.map cl_signals cs) @ cl_signals c" using assms by (auto simp: clusters_ok_def)
  ultimately show ?thesis using assms by (auto simp: clusters_ok_def cluster_ok_def)
qed

lemma cluster_step_ok:
  assumes "clusters_ok window max_span sigs cs" "instants_ok (sigs @ [s])" "sorted (List.map sg_ts (sigs @ [s]))"
    "0 \<le> max_span"
  shows "clusters_ok window max_span (sigs @ [s]) (cluster_step window max_span cs s)"
proof (cases cs rule: rev_cases)
  case Nil
  then show ?thesis using assms by (simp add: cluster_step_def clusters_ok_def cluster_ok_def)
next
  case (snoc bs c)
  obtain pre where pre: "sigs = pre @ cl_signals c" "cl_signals c \<noteq> []" "cl_start c = sg_ts (hd (cl_signals c))"
      "cl_end c = sg_ts (last sigs)"
    using clusters_ok_last assms(1) snoc by blast
  have small: "\<bar>sg_ts s\<bar> < 2 ^ 62" "\<bar>cl_start c\<bar> < 2 ^ 62" "\<bar>cl_end c\<bar> < 2 ^ 62"
    using assms(2) pre by (auto simp: instants_ok_def list_all_iff)
  have c: "cluster_ok window max_span c" and last: "cl_end c = sg_ts (last (cl_signals c))"
    using assms(1) snoc by (simp_all add: clusters_ok_def cluster_ok_def)
  have le: "sg_ts x \<le> sg_ts s" if "x \<in> set sigs" for x using assms(3) that by (simp add: sorted_append)
  have end_le: "cl_end c \<le> sg_ts s" unfolding pre(4) using le pre(1,2) by simp
  show ?thesis
  proof (cases "sg_ts s - cl_end c \<le> window \<and> sg_ts s - cl_start c \<le> max_span")
    case True
    let ?d = "c\<lparr>cl_end := sg_ts s, cl_signals := cl_signals c @ [s]\<rparr>"
    have step: "cluster_step window max_span (bs @ [c]) s = bs @ [?d]"
      using True small by (simp add: cluster_step_def wrap64_diff)
    have "sorted (List.map sg_ts (cl_signals c @ [s]))"
      using assms(3) pre(1) by (simp add: sorted_append)
    moreover have "successively (\<lambda>a b. sg_ts b - sg_ts a \<le> window) (cl_signals c @ [s])"
      using c True pre(2) last by (simp add: cluster_ok_def successively_append_iff)
    ultimately have "cluster_ok window max_span ?d" using c True pre(2,3) by (simp add: cluster_ok_def)
    then show ?thesis
      using assms(1) unfolding snoc step clusters_ok_def by (auto simp: successively_append_iff apart_def)
  next
    case False
    let ?d = "\<lparr>cl_signals = [s], cl_start = sg_ts s, cl_end = sg_ts s\<rparr>"
    have step: "cluster_step window max_span (bs @ [c]) s = (bs @ [c]) @ [?d]"
      using False small by (auto simp: cluster_step_def wrap64_diff)
    have "apart window max_span c ?d" using False by (auto simp: apart_def)
    then show ?thesis
      using assms(1,4) end_le unfolding snoc step clusters_ok_def by (auto simp: successively_append_iff cluster_ok_def)
  qed
qed

lemma clusters_correct:
  assumes "sorted (List.map sg_ts sigs)" "instants_ok sigs" "0 \<le> max_span"
  shows "clusters_ok window max_span sigs (cluster_signals sigs window max_span)"
  using assms(1,2)
proof (induction sigs rule: rev_induct)
  case Nil
  then show ?case by (simp add: cluster_signals_def clusters_ok_def)
next
  case (snoc s sigs)
  then have "clusters_ok window max_span sigs (cluster_signals sigs window max_span)"
    by (simp add: sorted_append instants_ok_def)
  from cluster_step_ok [OF this snoc.prems(2,1) assms(3)] show ?case by (simp add: cluster_signals_def)
qed

text \<open>Clusters are disjoint stretches of time.\<close>

lemma clusters_disjoint:
  assumes "clusters_ok window max_span sigs cs" "0 \<le> window"
  shows "sorted_wrt (\<lambda>c d. cl_end c < cl_start d) cs" "list_all (\<lambda>c. cl_start c \<le> cl_end c) cs"
proof -
  have ord: "cl_start c \<le> cl_end c" if "c \<in> set cs" for c
  proof -
    have c: "cluster_ok window max_span c" using assms(1) that by (auto simp: clusters_ok_def list_all_iff)
    obtain x xs where "cl_signals c = x # xs" using c by (cases "cl_signals c") (auto simp: cluster_ok_def)
    then show ?thesis using c by (auto simp: cluster_ok_def split: if_splits)
  qed
  then show "list_all (\<lambda>c. cl_start c \<le> cl_end c) cs" by (simp add: list_all_iff)
  have gap: "cl_end c < cl_start d"
    if "c \<in> set cs" "apart window max_span c d" "cl_end c \<le> cl_start d" for c d
  proof -
    have "cl_end c - cl_start c \<le> max_span" using assms(1) that(1) by (auto simp: clusters_ok_def list_all_iff cluster_ok_def)
    then show ?thesis using that(2,3) assms(2) by (auto simp: apart_def)
  qed
  have "successively (\<lambda>c d. apart window max_span c d \<and> cl_end c \<le> cl_start d) cs"
    using assms(1) by (simp add: clusters_ok_def)
  then show "sorted_wrt (\<lambda>c d. cl_end c < cl_start d) cs"
    using ord gap
  proof (induction cs rule: induct_list012)
    case (3 c d cs)
    have cd: "cl_end c < cl_start d" using 3 by auto
    have rest: "sorted_wrt (\<lambda>c d. cl_end c < cl_start d) (d # cs)" using 3 by auto
    have "cl_end c < cl_start e" if "e \<in> set cs" for e
      using rest that cd 3(4) [of d] by fastforce
    then show ?case using cd rest by simp
  qed simp_all
qed

subsection \<open>Emission and tunables\<close>

lemma sorted_emit: "sorted (List.map sg_ts (emit_signals indexes ime_events enabled))"
  by (simp add: emit_signals_def Let_def)

lemma filter_entry_signals:
  "List.filter (\<lambda>s. sg_kind s \<in> K) (entry_signals True True src i ei) =
     entry_signals (ErrorSeverity \<in> K) (KnownErrorCode \<in> K) src i ei"
  by (simp add: entry_signals_def raw_signal_def)

lemma ime_signals_alt:
  "ime_signals src i ev =
     (if status_is_failed ev then List.map (\<lambda>ts. raw_signal src i ts ImeFailed) (opt_list (iv_start ev)) else [])"
  by (cases "iv_start ev") (simp_all only: ime_signals_def option.case opt_list.simps list.map)

lemma filter_ime_signals:
  "List.filter (\<lambda>s. sg_kind s \<in> K) (ime_signals src i ev) = (if ImeFailed \<in> K then ime_signals src i ev else [])"
proof (cases "iv_start ev")
  case (Some ts)
  have "sg_kind (raw_signal src i ts ImeFailed) = ImeFailed" by (simp add: raw_signal_def)
  then show ?thesis unfolding ime_signals_alt Some opt_list.simps by simp
qed (simp add: ime_signals_alt)

lemma concat_nil: "concat (List.map (\<lambda>x. concat (List.map (\<lambda>y. []) (f x))) xs) = []"
  by (induction xs) (simp_all add: concat_eq_Nil_conv)

lemma emit_filter:
  "List.filter (\<lambda>s. sg_kind s \<in> set enabled)
       (emit_signals indexes ime_events (enabled_signal_kinds default_tunables)) =
     emit_signals indexes ime_events enabled"
  by (simp add: emit_signals_def Let_def default_tunables_def filter_sort filter_concat comp_def case_prod_unfold
      filter_entry_signals filter_ime_signals concat_nil)

text \<open>C27. Changing the tunables of a timeline gives exactly the incidents that building it with those tunables
  would give, whatever they are: the signals kept from the build lose nothing.\<close>

theorem redetect_is_fresh_detection:
  "redetect_from_signals (fst (fst (detect_incidents indexes ime_events default_tunables denied read0 st0)))
       ime_events t denied read st =
     (snd (fst (detect_incidents indexes ime_events t denied read st)),
      snd (detect_incidents indexes ime_events t denied read st))"
  by (simp add: redetect_from_signals_def detect_incidents_def Let_def emit_filter case_prod_beta)

subsection \<open>Incidents\<close>

lemma stamp_length: "length (fst (stamp_signals read st a g sigs)) = length sigs"
  by (induction sigs arbitrary: st) (auto simp: Let_def split: prod.split dest: arg_cong [where f = "\<lambda>x. length (fst x)"])

lemma stamp_len: "stamp_signals read st a g sigs = (ss, n, st') \<Longrightarrow> length ss = length sigs"
  using stamp_length [of read st a g sigs] by simp

lemma qualify_cluster_fields:
  "in_id (fst (qualify_cluster ime_events read denied n st c)) = n"
  "in_start (fst (qualify_cluster ime_events read denied n st c)) = cl_start c"
  "in_end (fst (qualify_cluster ime_events read denied n st c)) = cl_end c"
  "in_signals (fst (qualify_cluster ime_events read denied n st c)) = of_nat (length (cl_signals c))"
  "in_sources (fst (qualify_cluster ime_events read denied n st c)) = of_nat (length (source_set (cl_signals c)))"
  by (auto simp: qualify_cluster_def Let_def dest!: stamp_len split: prod.splits option.splits)

definition enough_sources :: "u8 \<Rightarrow> cluster \<Rightarrow> bool" where
  "enough_sources min_sources c \<longleftrightarrow> \<not> (of_nat (length (source_set (cl_signals c))) :: u8) < min_sources"

definition incident_of :: "u32 \<Rightarrow> cluster \<Rightarrow> incident \<Rightarrow> bool" where
  "incident_of n c i \<longleftrightarrow>
     in_id i = n \<and> in_start i = cl_start c \<and> in_end i = cl_end c \<and> in_signals i = of_nat (length (cl_signals c))
     \<and> in_sources i = of_nat (length (source_set (cl_signals c)))"

lemma qualify_incidents:
  "list_all2 (\<lambda>(k, c) i. incident_of (of_nat k) c i) (enumerate k (List.filter (enough_sources m) cs))
     (fst (qualify ime_events read denied m (of_nat k) st cs))"
proof (induction cs arbitrary: k st)
  case (Cons c cs)
  show ?case
  proof (cases "enough_sources m c")
    case False
    then have "fst (qualify ime_events read denied m (of_nat k) st (c # cs)) =
        fst (qualify ime_events read denied m (of_nat k) st cs)"
      by (simp add: enough_sources_def)
    then show ?thesis using False Cons.IH [of k st] by simp
  next
    case True
    obtain i st' where i: "qualify_cluster ime_events read denied (of_nat k) st c = (i, st')" by fastforce
    have "incident_of (of_nat k) c i"
      using qualify_cluster_fields [of ime_events read denied "of_nat k" st c] unfolding i by (simp add: incident_of_def)
    moreover have "fst (qualify ime_events read denied m (of_nat k) st (c # cs)) =
        i # fst (qualify ime_events read denied m (of_nat (Suc k)) st' cs)"
      using True by (simp add: enough_sources_def i add.commute split: prod.split)
    ultimately show ?thesis using True Cons.IH [of "Suc k" st'] by simp
  qed
qed simp

end
