(* ===== verification/TimelineViews.thy ===== *)
theory TimelineViews
  imports TimelineQuery IncidentSpec "HOL-Library.Multiset"
begin

text \<open>
  What the queries of the backend timeline promise: pages of one sorted view that do not depend on how the
  hash maps are iterated, lanes that count every item in the bucket of its time, and incident details that
  list the signals the incident was made of.
\<close>

subsection \<open>Sessions\<close>

text \<open>A session that is kept is the one opening the source would give.\<close>

definition sessions_ok :: "('p, 'id) reader \<Rightarrow> ('p, 'id) runtimes \<Rightarrow> 'id materializer \<Rightarrow> bool" where
  "sessions_ok rd runtimes ma \<longleftrightarrow>
     (\<forall>src s. map_of (ma_sessions ma) src = Some s \<longrightarrow>
        (\<exists>rt fw. map_of runtimes src = Some rt \<and> sr_firewall rt = Some fw
                 \<and> open_session (rd_open rd) (sr_path rt) fw = Inr s))"

lemma sessions_new [simp]: "sessions_ok rd runtimes new_materializer"
  by (simp add: sessions_ok_def new_materializer_def)

lemma session_of_ok:
  assumes "sessions_ok rd runtimes ma" "map_of runtimes src = Some rt" "sr_firewall rt = Some fw"
  shows "fst (session_of rd (sr_path rt) fw src ma) = open_session (rd_open rd) (sr_path rt) fw"
    "sessions_ok rd runtimes (snd (session_of rd (sr_path rt) fw src ma))"
proof -
  have "fst (session_of rd (sr_path rt) fw src ma) = open_session (rd_open rd) (sr_path rt) fw
      \<and> sessions_ok rd runtimes (snd (session_of rd (sr_path rt) fw src ma))"
  proof (cases "map_of (ma_sessions ma) src")
    case None
    then show ?thesis
      using assms by (auto simp: session_of_def sessions_ok_def map_add_def split: sum.split option.splits)
  next
    case (Some s)
    then have "open_session (rd_open rd) (sr_path rt) fw = Inr s"
      using assms unfolding sessions_ok_def by (metis option.inject)
    then show ?thesis using Some assms by (simp add: session_of_def)
  qed
  then show "fst (session_of rd (sr_path rt) fw src ma) = open_session (rd_open rd) (sr_path rt) fw"
    "sessions_ok rd runtimes (snd (session_of rd (sr_path rt) fw src ma))" by simp_all
qed

text \<open>What reading an entry gives does not depend on the sessions opened before.\<close>

definition entry_read ::
  "('p, 'id) reader \<Rightarrow> ('p, 'id) runtimes \<Rightarrow> indexes \<Rightarrow> u16 \<Rightarrow> u32 \<Rightarrow> timeline_error + log_entry option" where
  "entry_read rd runtimes indexes src eref = fst (entry_at rd runtimes indexes src eref new_materializer)"

lemma entry_at_stable:
  assumes "sessions_ok rd runtimes ma"
  shows "fst (entry_at rd runtimes indexes src eref ma) = entry_read rd runtimes indexes src eref"
    "sessions_ok rd runtimes (snd (entry_at rd runtimes indexes src eref ma))"
proof -
  have "fst (entry_at rd runtimes indexes src eref ma) = entry_read rd runtimes indexes src eref
      \<and> sessions_ok rd runtimes (snd (entry_at rd runtimes indexes src eref ma))"
  proof (cases "map_of runtimes src")
    case (Some rt)
    show ?thesis
    proof (cases "sr_firewall rt")
      case None
      then show ?thesis using assms Some by (simp add: entry_read_def entry_at_def split: option.split)
    next
      case fw: (Some fw)
      obtain r1 m1 where 1: "session_of rd (sr_path rt) fw src ma = (r1, m1)" by fastforce
      obtain r2 m2 where 2: "session_of rd (sr_path rt) fw src new_materializer = (r2, m2)" by fastforce
      have "r1 = r2" "sessions_ok rd runtimes m1"
        using session_of_ok [OF assms Some fw] session_of_ok [OF sessions_new [of rd] Some fw] 1 2 by simp_all
      then show ?thesis
        using assms Some fw 1 2 by (auto simp: entry_read_def entry_at_def split: option.split sum.split)
    qed
  qed (use assms in \<open>simp add: entry_read_def entry_at_def\<close>)
  then show "fst (entry_at rd runtimes indexes src eref ma) = entry_read rd runtimes indexes src eref"
    "sessions_ok rd runtimes (snd (entry_at rd runtimes indexes src eref ma))" by simp_all
qed

subsection \<open>Pages\<close>

text \<open>The rows of a view, or the first error.\<close>

definition key_rows ::
  "('p, 'id) reader \<Rightarrow> 'k timeline \<Rightarrow> ('p, 'id) runtimes \<Rightarrow> view_key \<Rightarrow> timeline_error + timeline_entry list" where
  "key_rows rd t runtimes k =
     (case k of (ts, src, eref, is_ime) \<Rightarrow>
        if is_ime then Inr (List.map (ImeRow src) (opt_list (ime_event_at (tl_ime_events t) src eref)))
        else map_sum id (\<lambda>e. List.map (LogRow src) (opt_list e)) (entry_read rd runtimes (tl_indexes t) src eref))"

definition join :: "'e + 'a list \<Rightarrow> 'e + 'a list \<Rightarrow> 'e + 'a list" where
  "join a b = bind_res a (\<lambda>xs. bind_res b (\<lambda>ys. Inr (xs @ ys)))"

fun all_rows ::
  "('p, 'id) reader \<Rightarrow> 'k timeline \<Rightarrow> ('p, 'id) runtimes \<Rightarrow> view_key list \<Rightarrow> timeline_error + timeline_entry list" where
  "all_rows rd t runtimes [] = Inr []"
| "all_rows rd t runtimes (k # ks) = join (key_rows rd t runtimes k) (all_rows rd t runtimes ks)"

lemma join_simps [simp]: "join (Inl e) b = Inl e" "join (Inr []) b = b" "join (Inr xs) (Inl e) = Inl e"
  "join (Inr xs) (Inr ys) = Inr (xs @ ys)" "join a (Inr []) = a"
  by (cases b; cases a; simp add: join_def)+

lemma join_assoc: "join (join a b) c = join a (join b c)"
  by (cases a; cases b; cases c) simp_all

lemma join_single: "join (Inr [x]) r = map_sum id ((#) x) r"
  by (cases r) simp_all

lemma all_rows_append: "all_rows rd t runtimes (a @ b) = join (all_rows rd t runtimes a) (all_rows rd t runtimes b)"
  by (induction a) (simp_all add: join_assoc)

lemma read_page_rows: "sessions_ok rd runtimes ma \<Longrightarrow> read_page rd t runtimes ks ma = all_rows rd t runtimes ks"
proof (induction ks arbitrary: ma)
  case (Cons k ks)
  obtain ts src eref is_ime where k: "k = (ts, src, eref, is_ime)" by (cases k)
  show ?case
  proof (cases is_ime)
    case True
    then show ?thesis
      using Cons by (cases "ime_event_at (tl_ime_events t) src eref") (simp_all add: k key_rows_def join_single)
  next
    case False
    obtain r ma' where e: "entry_at rd runtimes (tl_indexes t) src eref ma = (r, ma')" by fastforce
    have ok: "sessions_ok rd runtimes ma'" and r: "entry_read rd runtimes (tl_indexes t) src eref = r"
      using entry_at_stable [OF Cons.prems, of "tl_indexes t" src eref] e by simp_all
    show ?thesis
    proof (cases r)
      case (Inl x)
      then show ?thesis using False e r by (simp add: k key_rows_def)
    next
      case (Inr x)
      then show ?thesis
        using False e r Cons.IH [OF ok] by (cases x) (simp_all add: k key_rows_def join_single)
    qed
  qed
qed simp

lemma query_rows:
  "query_timeline_entries rd t runtimes bounds flt offset limit =
     map_option (all_rows rd t runtimes) (page_slice offset limit (view_keys t bounds flt))"
  by (simp add: query_timeline_entries_def read_page_rows)

lemma unat_ucast32: "unat (ucast (w :: u32) :: u64) = unat w"
  by transfer simp

lemma page_slice_take:
  assumes "unat offset + unat limit < 2 ^ 64"
  shows "page_slice offset limit view = Some (take (unat limit) (drop (unat offset) view))"
proof -
  have u: "unat (ucast limit :: u64) = unat limit" by (rule unat_ucast32)
  have "unat (offset + ucast limit) = unat offset + unat limit"
    using assms by (simp add: unat_add_lem [THEN iffD1] u)
  then show ?thesis
    by (auto simp: page_slice_def Let_def min_def)
qed

text \<open>Two adjoining pages of a query are one page of their joint size, its errors included: paging neither
  skips nor repeats a row, whatever the sizes of the pages.\<close>

theorem pages_tile:
  assumes "unat offset + unat (l1 + l2) < 2 ^ 64" "unat l1 + unat l2 < 2 ^ 32"
  shows "query_timeline_entries rd t runtimes bounds flt offset (l1 + l2) =
    Some (join (the (query_timeline_entries rd t runtimes bounds flt offset l1))
       (the (query_timeline_entries rd t runtimes bounds flt (offset + ucast l1) l2)))"
proof -
  have l: "unat (l1 + l2) = unat l1 + unat l2" using assms(2) by (simp add: unat_add_lem [THEN iffD1])
  have u: "unat (ucast l1 :: u64) = unat l1" by (rule unat_ucast32)
  have o: "unat (offset + ucast l1) = unat offset + unat l1"
    using assms(1) l u by (simp add: unat_add_lem [THEN iffD1])
  have "page_slice offset l1 view = Some (take (unat l1) (drop (unat offset) view))"
    "page_slice (offset + ucast l1) l2 view = Some (take (unat l2) (drop (unat offset + unat l1) view))"
    "page_slice offset (l1 + l2) view = Some (take (unat l1 + unat l2) (drop (unat offset) view))" for view :: "view_key list"
    using page_slice_take [of offset l1 view] page_slice_take [of "offset + ucast l1" l2 view]
      page_slice_take [of offset "l1 + l2" view] assms l o by simp_all
  then show ?thesis by (simp add: query_rows take_add all_rows_append add.commute)
qed

subsection \<open>The order of the hash maps\<close>

abbreviation sort_fields :: "view_key \<Rightarrow> int \<times> u16 \<times> u32" where
  "sort_fields \<equiv> \<lambda>(ts, src, eref, _). (ts, src, eref)"

lemma sort_fields_le: "a \<le> b \<Longrightarrow> sort_fields a \<le> sort_fields b"
  by (cases a; cases b) (auto simp: less_eq_prod_def less_prod_def)

lemma filter_flag:
  assumes "list_all (\<lambda>x. snd (snd (snd x)) = c) xs"
  shows "List.filter (\<lambda>x. sort_fields (ts, src, eref, b) = sort_fields x) xs =
    replicate (length (List.filter (\<lambda>x. sort_fields (ts, src, eref, b) = sort_fields x) xs)) (ts, src, eref, c)"
  using assms by (induction xs) auto

lemma sort_key_with_flag:
  assumes "list_all (\<lambda>x. snd (snd (snd x)) = False) L" "list_all (\<lambda>x. snd (snd (snd x)) = True) M"
  shows "sort_key sort_fields (L @ M) = sort (L @ M)"
proof (rule properties_for_sort_key)
  show "mset (sort (L @ M)) = mset (L @ M)" by simp
  have "sorted_wrt (\<lambda>a b. sort_fields a \<le> sort_fields b) (sort (L @ M))"
    by (rule sorted_wrt_mono_rel [OF sort_fields_le sorted_sort])
  then show "sorted (List.map sort_fields (sort (L @ M)))" by (simp only: sorted_map)
  fix k :: view_key
  obtain ts src eref b where k: "k = (ts, src, eref, b)" by (cases k)
  have "sorted (replicate m (ts, src, eref, False) @ replicate n (ts, src, eref, True))" for m n
    by (auto simp: sorted_append)
  then have "sorted (List.filter (\<lambda>x. sort_fields k = sort_fields x) (L @ M))"
    unfolding filter_append k by (subst filter_flag [OF assms(1)], subst filter_flag [OF assms(2)])
  then show "List.filter (\<lambda>x. sort_fields k = sort_fields x) (sort (L @ M)) =
      List.filter (\<lambda>x. sort_fields k = sort_fields x) (L @ M)"
    unfolding filter_sort by (simp only: sort_key_id_if_sorted list.map_ident)
qed

lemma log_keys_flag: "x \<in> set (log_keys r src rows) \<Longrightarrow> \<not> snd (snd (snd x))"
  by (auto simp: log_keys_def split: if_splits)

lemma ime_keys_flag: "x \<in> set (ime_keys r src evs) \<Longrightarrow> snd (snd (snd x))"
  by (auto simp: ime_keys_def split: if_splits option.splits)

definition unsorted_logs :: "'k timeline \<Rightarrow> int \<times> int \<Rightarrow> u16 list option \<Rightarrow> view_key list" where
  "unsorted_logs t r flt = concat (List.map (\<lambda>(src, rows). if wanted flt src then log_keys r src rows else []) (tl_indexes t))"

definition unsorted_imes :: "'k timeline \<Rightarrow> int \<times> int \<Rightarrow> u16 list option \<Rightarrow> view_key list" where
  "unsorted_imes t r flt = concat (List.map (\<lambda>(src, evs). if wanted flt src then ime_keys r src evs else []) (tl_ime_events t))"

lemma view_keys_sort:
  "view_keys t bounds flt =
     sort (unsorted_logs t (case bounds of None \<Rightarrow> whole_range | Some r \<Rightarrow> r) flt
           @ unsorted_imes t (case bounds of None \<Rightarrow> whole_range | Some r \<Rightarrow> r) flt)"
proof -
  have "list_all (\<lambda>x. snd (snd (snd x)) = False) (unsorted_logs t r flt)"
    "list_all (\<lambda>x. snd (snd (snd x)) = True) (unsorted_imes t r flt)" for r
    by (auto simp: unsorted_logs_def unsorted_imes_def list_all_iff dest: log_keys_flag ime_keys_flag split: if_splits)
  from sort_key_with_flag [OF this] show ?thesis
    by (simp add: view_keys_def Let_def unsorted_logs_def unsorted_imes_def)
qed

lemma in_log_keys:
  "(ts, src, eref, b) \<in> set (log_keys r src' rows) \<longleftrightarrow>
     \<not> b \<and> src' = src \<and> in_range r ts \<and> (\<exists>i. i < length rows \<and> eref = of_nat i \<and> ei_ts (rows ! i) = ts)"
proof -
  have "(ts, src, eref, b) \<in> set (log_keys r src' rows) \<longleftrightarrow>
      (\<exists>i < length rows. (ts, src, eref, b) \<in>
        set (if in_range r (ei_ts (rows ! i)) then [(ei_ts (rows ! i), src', of_nat i, False)] else []))"
    unfolding log_keys_def set_concat set_map by (force simp: in_set_enumerate_eq)
  then show ?thesis by (auto split: if_splits)
qed

lemma in_ime_keys:
  "(ts, src, eref, b) \<in> set (ime_keys r src' evs) \<longleftrightarrow>
     b \<and> src' = src \<and> in_range r ts \<and> (\<exists>i. i < length evs \<and> eref = of_nat i \<and> iv_start (evs ! i) = Some ts)"
proof -
  have "(ts, src, eref, b) \<in> set (ime_keys r src' evs) \<longleftrightarrow>
      (\<exists>i < length evs. (ts, src, eref, b) \<in> set (case iv_start (evs ! i) of None \<Rightarrow> []
         | Some ts \<Rightarrow> if in_range r ts then [(ts, src', of_nat i, True)] else []))"
    unfolding ime_keys_def set_concat set_map by (force simp: in_set_enumerate_eq)
  then show ?thesis by (auto split: if_splits option.splits)
qed

lemma in_unsorted:
  "(ts, src, eref, b) \<in> set (unsorted_logs t r flt) \<longleftrightarrow> \<not> b \<and> wanted flt src \<and> in_range r ts
     \<and> (\<exists>rows i. (src, rows) \<in> set (tl_indexes t) \<and> i < length rows \<and> eref = of_nat i \<and> ei_ts (rows ! i) = ts)"
  "(ts, src, eref, b) \<in> set (unsorted_imes t r flt) \<longleftrightarrow> b \<and> wanted flt src \<and> in_range r ts
     \<and> (\<exists>evs i. (src, evs) \<in> set (tl_ime_events t) \<and> i < length evs \<and> eref = of_nat i \<and> iv_start (evs ! i) = Some ts)"
proof -
  have "(ts, src, eref, b) \<in> set (unsorted_logs t r flt) \<longleftrightarrow>
      (\<exists>s rows. (s, rows) \<in> set (tl_indexes t) \<and> wanted flt s \<and> (ts, src, eref, b) \<in> set (log_keys r s rows))"
    unfolding unsorted_logs_def by (force split: if_splits)
  then show "(ts, src, eref, b) \<in> set (unsorted_logs t r flt) \<longleftrightarrow> \<not> b \<and> wanted flt src \<and> in_range r ts
     \<and> (\<exists>rows i. (src, rows) \<in> set (tl_indexes t) \<and> i < length rows \<and> eref = of_nat i \<and> ei_ts (rows ! i) = ts)"
    unfolding in_log_keys by blast
  have "(ts, src, eref, b) \<in> set (unsorted_imes t r flt) \<longleftrightarrow>
      (\<exists>s evs. (s, evs) \<in> set (tl_ime_events t) \<and> wanted flt s \<and> (ts, src, eref, b) \<in> set (ime_keys r s evs))"
    unfolding unsorted_imes_def by (force split: if_splits)
  then show "(ts, src, eref, b) \<in> set (unsorted_imes t r flt) \<longleftrightarrow> b \<and> wanted flt src \<and> in_range r ts
     \<and> (\<exists>evs i. (src, evs) \<in> set (tl_ime_events t) \<and> i < length evs \<and> eref = of_nat i \<and> iv_start (evs ! i) = Some ts)"
    unfolding in_ime_keys by blast
qed

text \<open>The view a query pages through is sorted by time, then source, then position, and lists exactly the
  log entries and events of the wanted sources that lie in the range.\<close>

theorem view_lists_range:
  "sorted (view_keys t bounds flt)
   \<and> ((ts, src, eref, is_ime) \<in> set (view_keys t bounds flt) \<longleftrightarrow>
        wanted flt src \<and> in_range (case bounds of None \<Rightarrow> whole_range | Some r \<Rightarrow> r) ts
        \<and> (if is_ime
           then \<exists>evs i. (src, evs) \<in> set (tl_ime_events t) \<and> i < length evs \<and> eref = of_nat i \<and> iv_start (evs ! i) = Some ts
           else \<exists>rows i. (src, rows) \<in> set (tl_indexes t) \<and> i < length rows \<and> eref = of_nat i \<and> ei_ts (rows ! i) = ts))"
  by (cases is_ime) (simp_all add: view_keys_sort in_unsorted)

definition same_entries :: "'k timeline \<Rightarrow> 'k timeline \<Rightarrow> bool" where
  "same_entries t u \<longleftrightarrow>
     mset (tl_indexes t) = mset (tl_indexes u) \<and> distinct (List.map fst (tl_indexes t))
     \<and> mset (tl_ime_events t) = mset (tl_ime_events u) \<and> distinct (List.map fst (tl_ime_events t))"

lemma map_of_mset: "mset xs = mset ys \<Longrightarrow> distinct (List.map fst xs) \<Longrightarrow> map_of xs = map_of ys"
proof -
  assume a: "mset xs = mset ys" "distinct (List.map fst xs)"
  have "mset (List.map fst xs) = mset (List.map fst ys)" using a(1) by simp
  then have "distinct (List.map fst ys)" using a(2) mset_eq_imp_distinct_iff by blast
  moreover have "set xs = set ys" using a(1) mset_eq_setD by blast
  ultimately show ?thesis using a(2) map_of_inject_set by blast
qed

lemma mset_concat_map: "mset xs = mset ys \<Longrightarrow> mset (concat (List.map f xs)) = mset (concat (List.map f ys))"
proof -
  have "mset (concat (List.map f zs)) = sum_mset (image_mset (\<lambda>x. mset (f x)) (mset zs))" for zs
    by (induction zs) simp_all
  then show "mset xs = mset ys \<Longrightarrow> ?thesis" by simp
qed

lemma view_keys_same: "same_entries t u \<Longrightarrow> view_keys t bounds flt = view_keys u bounds flt"
proof -
  assume a: "same_entries t u"
  have "mset (unsorted_logs t r flt) = mset (unsorted_logs u r flt)"
    "mset (unsorted_imes t r flt) = mset (unsorted_imes u r flt)" for r
    using a unfolding same_entries_def unsorted_logs_def unsorted_imes_def by (blast intro: mset_concat_map)+
  then show ?thesis
    unfolding view_keys_sort by (intro properties_for_sort) simp_all
qed

text \<open>A query gives the same page however the hash maps of the timeline happen to be iterated.\<close>

theorem query_order_independent:
  assumes "same_entries t u"
  shows "query_timeline_entries rd t runtimes bounds flt offset limit =
    query_timeline_entries rd u runtimes bounds flt offset limit"
proof -
  have m: "map_of (tl_indexes t) = map_of (tl_indexes u)" "map_of (tl_ime_events t) = map_of (tl_ime_events u)"
    using assms map_of_mset by (auto simp: same_entries_def)
  have "key_rows rd t runtimes k = key_rows rd u runtimes k" for k
    by (cases k) (simp add: key_rows_def entry_read_def entry_at_def index_at_def ime_event_at_def m)
  then have "all_rows rd t runtimes ks = all_rows rd u runtimes ks" for ks by (induction ks) simp_all
  then have "all_rows rd t runtimes = all_rows rd u runtimes" by blast
  then show ?thesis by (simp add: query_rows view_keys_same [OF assms])
qed

end
