(* ===== verification/TimelineLanes.thy ===== *)
theory TimelineLanes
  imports TimelineQuery
begin

text \<open>
  The lanes of the timeline: the buckets the code computes in floating point are those of integer
  arithmetic, and every item is counted in the bucket that holds its time.
\<close>

subsection \<open>Buckets\<close>

text \<open>The reference: bucket \<open>i\<close> is the half-open stretch of \<open>step\<close> from \<open>lo + step * i\<close>, the last one closed by
  the end of the range.\<close>

definition bucket_holds :: "int \<Rightarrow> int \<Rightarrow> int \<Rightarrow> nat \<Rightarrow> nat \<Rightarrow> lane_item \<Rightarrow> bool" where
  "bucket_holds lo hi step n i x \<longleftrightarrow>
     lo \<le> fst x \<and> fst x \<le> hi \<and> lo + step * int i \<le> fst x \<and> (fst x < lo + step * (int i + 1) \<or> i = n - 1)"

definition count :: "('a \<Rightarrow> bool) \<Rightarrow> 'a list \<Rightarrow> u32" where
  "count P xs = of_nat (length (List.filter P xs))"

definition bucket_counts :: "(lane_item \<Rightarrow> bool) \<Rightarrow> lane_item list \<Rightarrow> u32 \<times> u32 \<times> u32" where
  "bucket_counts P xs =
     (count P xs, count (\<lambda>x. P x \<and> fst (snd x)) xs, count (\<lambda>x. P x \<and> snd (snd x)) xs)"

definition source_items :: "'k timeline \<Rightarrow> u16 \<Rightarrow> lane_item list" where
  "source_items t src =
     concat (List.map log_items (opt_list (map_of (tl_indexes t) src)))
     @ concat (List.map ime_items (opt_list (map_of (tl_ime_events t) src)))"

definition reference_lane :: "u16 \<Rightarrow> int \<Rightarrow> int \<Rightarrow> nat \<Rightarrow> lane_item list \<Rightarrow> lane_bucket list" where
  "reference_lane src lo hi n xs =
     (let step = (max (hi - lo) 1 + int n - 1) div int n in
      concat (List.map (\<lambda>i.
        (case bucket_counts (bucket_holds lo hi step n i) xs of (c, e, w) \<Rightarrow>
           if c = 0 then []
           else [\<lparr>lb_source = src, lb_start = lo + step * int i, lb_end = min (lo + step * (int i + 1)) hi,
                  lb_total = c, lb_errors = e, lb_warnings = w\<rparr>])) [0..<n]))"

lemma ceiling_div: "0 < b \<Longrightarrow> \<lceil>of_int a / of_int b :: rat\<rceil> = (a + b - 1) div b"
proof (rule ceiling_unique)
  assume b: "0 < b"
  let ?z = "(a + b - 1) div b"
  have m: "b * ?z + (a + b - 1) mod b = a + b - 1" "0 \<le> (a + b - 1) mod b" "(a + b - 1) mod b < b"
    using b by (simp_all only: mult_div_mod_eq pos_mod_sign pos_mod_bound)
  have "b * (?z - 1) < a" using m unfolding right_diff_distrib mult_1_right by linarith
  moreover have "a \<le> b * ?z" using m by linarith
  ultimately have "(of_int (b * (?z - 1)) :: rat) < of_int a" "(of_int a :: rat) \<le> of_int (b * ?z)"
    by (simp_all only: of_int_less_iff of_int_le_iff)
  then show "(of_int ?z :: rat) - 1 < of_int a / of_int b" "(of_int a / of_int b :: rat) \<le> of_int ?z"
    using b by (simp_all add: pos_less_divide_eq pos_divide_le_eq mult.commute)
qed

lemma lane_step_div:
  assumes "lo \<le> hi" "hi - lo < 2 ^ 53" "0 < n" "n < 2 ^ 53"
  shows "lane_step lo hi n = (max (hi - lo) 1 + n - 1) div n"
proof -
  let ?s = "max (hi - lo) 1"
  have "wrap64 (hi - lo) = hi - lo" using assms by (intro wrap64_id) (simp add: fits64_def)
  moreover have "\<lceil>fl 53 (fl 53 (of_int ?s) / fl 53 (of_int n))\<rceil> = \<lceil>of_int ?s / of_int n :: rat\<rceil>"
    using assms by (intro ceiling_fl_quotient) auto
  moreover have "(?s + n - 1) div n \<le> ?s"
  proof -
    have "?s + n - 1 \<le> ?s * n"
    proof -
      have "0 \<le> (?s - 1) * (n - 1)" using assms by simp
      then show ?thesis by (simp add: algebra_simps)
    qed
    then show ?thesis using assms(3) by (metis div_mult_self_is_m zdiv_mono1 less_irrefl nonzero_mult_div_cancel_right)
  qed
  ultimately show ?thesis using assms by (simp add: lane_step_def ceiling_div)
qed

lemma step_covers:
  fixes span n :: int
  assumes "1 \<le> span" "0 < n" "step = (span + n - 1) div n"
  shows "1 \<le> step" "span \<le> step * n" "step \<le> span"
proof -
  have m: "n * step + (span + n - 1) mod n = span + n - 1" "0 \<le> (span + n - 1) mod n" "(span + n - 1) mod n < n"
    unfolding assms(3) using assms(2) by (simp_all only: mult_div_mod_eq pos_mod_sign pos_mod_bound)
  show a: "span \<le> step * n" using m by (simp add: mult.commute)
  show "1 \<le> step"
  proof (rule ccontr)
    assume "\<not> 1 \<le> step"
    then have "step * n \<le> 0" using assms(2) by (simp add: mult_le_0_iff)
    then show False using a assms(1) by linarith
  qed
  have "0 \<le> (span - 1) * (n - 1)" using assms by simp
  then have "span + n - 1 \<le> n * span" by (simp add: algebra_simps)
  then have "n * step \<le> n * span" using m by linarith
  then show "step \<le> span" using assms(2) by simp
qed

lemma le_div_iff: "0 < s \<Longrightarrow> k \<le> x div s \<longleftrightarrow> s * k \<le> (x :: int)"
proof
  assume s: "0 < s" and k: "k \<le> x div s"
  have "s * (x div s) \<le> x" using mult_div_mod_eq [of s x] pos_mod_sign [OF s, of x] by linarith
  moreover have "s * k \<le> s * (x div s)" using s k by simp
  ultimately show "s * k \<le> x" by linarith
next
  assume s: "0 < s" and k: "s * k \<le> x"
  have "s * k div s \<le> x div s" by (rule zdiv_mono1 [OF k s])
  then show "k \<le> x div s" using s by simp
qed

subsection \<open>Counting\<close>

text \<open>A range on which the arithmetic is exact, with its bucket width.\<close>

definition lane_ok :: "int \<Rightarrow> int \<Rightarrow> int \<Rightarrow> nat \<Rightarrow> bool" where
  "lane_ok lo hi step n \<longleftrightarrow>
     \<bar>lo\<bar> < 2 ^ 61 \<and> lo \<le> hi \<and> hi - lo < 2 ^ 53 \<and> 0 < n \<and> int n < 2 ^ 53
     \<and> step = (max (hi - lo) 1 + int n - 1) div int n"

lemma lane_okD:
  assumes "lane_ok lo hi step n"
  shows "1 \<le> step" "hi - lo \<le> step * int n" "step \<le> 2 ^ 53"
  using assms step_covers [of "max (hi - lo) 1" "int n" step] unfolding lane_ok_def by auto

lemma bucket_index:
  assumes "lane_ok lo hi step n" "lo \<le> ts" "ts \<le> hi"
  defines "bi \<equiv> min (wrap64 (ts - lo) sdiv step) (int n - 1)"
  shows "0 \<le> bi" "nat bi < n" "i < n \<Longrightarrow> bucket_holds lo hi step n i (ts, b) \<longleftrightarrow> i = nat bi"
proof -
  note ok = assms(1) [unfolded lane_ok_def] and step = lane_okD [OF assms(1)]
  let ?q = "(ts - lo) div step"
  have w: "wrap64 (ts - lo) = ts - lo" using ok assms(2,3) by (intro wrap64_id) (simp add: fits64_def)
  have "(ts - lo) sdiv step = ?q" using step(1) assms(2) by (auto simp: signed_divide_int_def sgn_if)
  then have bi: "bi = min ?q (int n - 1)" by (simp add: bi_def w)
  have q0: "0 \<le> ?q" using step(1) assms(2) by (simp add: pos_imp_zdiv_nonneg_iff)
  have n: "0 < n" using ok by simp
  show "0 \<le> bi" using q0 n by (simp add: bi)
  show "nat bi < n" using q0 n by (simp add: bi nat_less_iff)
  assume i: "i < n"
  have s: "0 < step" using step(1) by simp
  have "step * int i \<le> ts - lo \<longleftrightarrow> int i \<le> ?q" "step * (int i + 1) \<le> ts - lo \<longleftrightarrow> int i + 1 \<le> ?q"
    by (simp_all only: le_div_iff [OF s])
  then have "lo + step * int i \<le> ts \<longleftrightarrow> int i \<le> ?q" "ts < lo + step * (int i + 1) \<longleftrightarrow> ?q < int i + 1"
    by linarith+
  moreover have "int i \<le> q \<and> (q < int i + 1 \<or> i = n - 1) \<longleftrightarrow> i = nat (min q (int n - 1))" if "0 \<le> q" for q
    using that i by (cases "q < int n") (simp_all add: min_def, linarith+)
  ultimately show "bucket_holds lo hi step n i (ts, b) \<longleftrightarrow> i = nat bi"
    using assms(2,3) q0 by (simp only: bucket_holds_def bi fst_conv simp_thms)
qed

lemma count_Nil [simp]: "count P [] = 0"
  by (simp add: count_def)

lemma count_snoc [simp]: "count P (xs @ [x]) = (if P x then count P xs + 1 else count P xs)"
  by (simp add: count_def add.commute)

lemma count_items_buckets:
  assumes "lane_ok lo hi step n"
  shows "count_items lo hi step (int n) xs (List.map (\<lambda>i. bucket_counts (bucket_holds lo hi step n i) ys) [0..<n]) =
    Some (List.map (\<lambda>i. bucket_counts (bucket_holds lo hi step n i) (ys @ xs)) [0..<n])"
proof (induction xs arbitrary: ys)
  case (Cons x xs)
  obtain ts e w where x: "x = (ts, e, w)" by (cases x)
  have IH: "count_items lo hi step (int n) xs (List.map (\<lambda>i. bucket_counts (bucket_holds lo hi step n i) (ys @ [x])) [0..<n]) =
      Some (List.map (\<lambda>i. bucket_counts (bucket_holds lo hi step n i) (ys @ x # xs)) [0..<n])"
    using Cons.IH [of "ys @ [x]"] by simp
  show ?case
  proof (cases "lo \<le> ts \<and> ts \<le> hi")
    case False
    then have "bucket_counts (bucket_holds lo hi step n i) (ys @ [x]) = bucket_counts (bucket_holds lo hi step n i) ys" for i
      by (auto simp: bucket_counts_def x bucket_holds_def)
    then show ?thesis using IH False by (auto simp: x)
  next
    case True
    define bi where "bi = min (wrap64 (ts - lo) sdiv step) (int n - 1)"
    note b = bucket_index [OF assms conjunct1 [OF True] conjunct2 [OF True], folded bi_def]
    let ?c = "\<lambda>zs i. bucket_counts (bucket_holds lo hi step n i) zs"
    have "(List.map (?c ys) [0..<n])[nat bi := bump e w (List.map (?c ys) [0..<n] ! nat bi)] = List.map (?c (ys @ [x])) [0..<n]"
    proof (rule nth_equalityI)
      fix i assume "i < length ((List.map (?c ys) [0..<n])[nat bi := bump e w (List.map (?c ys) [0..<n] ! nat bi)])"
      then have i: "i < n" by simp
      show "(List.map (?c ys) [0..<n])[nat bi := bump e w (List.map (?c ys) [0..<n] ! nat bi)] ! i = List.map (?c (ys @ [x])) [0..<n] ! i"
        using i b(1,2) b(3) [OF i] by (auto simp: nth_list_update bucket_counts_def bump_def x)
    qed simp
    then show ?thesis using IH True b by (simp add: x Let_def bi_def [symmetric])
  qed
qed simp

lemma enumerate_upt: "enumerate 0 (List.map f [0..<n]) = List.map (\<lambda>i. (i, f i)) [0..<n]"
  by (simp add: enumerate_map_upt)

lemma count_pos: "count P xs \<noteq> 0 \<Longrightarrow> \<exists>x \<in> set xs. P x"
  by (auto simp: count_def filter_empty_conv intro: ccontr)

lemma lane_buckets_reference:
  assumes "lane_ok lo hi step n"
  shows "lane_buckets src lo hi step (List.map (\<lambda>i. bucket_counts (bucket_holds lo hi step n i) xs) [0..<n]) =
    reference_lane src lo hi n xs"
proof -
  note ok = assms [unfolded lane_ok_def] and step = lane_okD [OF assms]
  have step_eq: "(max (hi - lo) 1 + int n - 1) div int n = step" using ok by simp
  have exact: "wrap64 (lo + wrap64 (step * int i)) = lo + step * int i"
      "wrap64 (lo + step * int i + step) = lo + step * (int i + 1)"
    if nz: "count (bucket_holds lo hi step n i) xs \<noteq> 0" for i
  proof -
    obtain x where "bucket_holds lo hi step n i x" using count_pos [OF nz] by blast
    then have "step * int i \<le> hi - lo" by (simp add: bucket_holds_def)
    moreover have "0 \<le> step * int i" using step(1) by simp
    moreover have "- 2305843009213693952 < lo" "lo < 2305843009213693952" "hi - lo < 9007199254740992"
        "step \<le> 9007199254740992" "1 \<le> step"
      using ok step(1,3) by (auto simp: abs_less_iff)
    ultimately have "fits64 (step * int i)" "fits64 (lo + step * int i)" "fits64 (lo + step * int i + step)"
      unfolding fits64_def by (intro conjI; linarith)+
    then show "wrap64 (lo + wrap64 (step * int i)) = lo + step * int i"
        "wrap64 (lo + step * int i + step) = lo + step * (int i + 1)"
      by (simp_all only: wrap64_id) (simp add: distrib_left)
  qed
  show ?thesis
    unfolding lane_buckets_def reference_lane_def step_eq Let_def enumerate_upt list.map_comp comp_def
    by (intro arg_cong [where f = concat] map_cong refl) (auto simp: bucket_counts_def exact)
qed

lemma lanes_loop_reference:
  assumes "lane_ok lo hi step n"
  shows "lanes_loop t lo hi step (int n) ms =
    Some (concat (List.map (\<lambda>m. reference_lane (sm_idx m) lo hi n (source_items t (sm_idx m))) ms))"
proof (induction ms)
  case (Cons m ms)
  have "replicate n (0, 0, 0) = List.map (\<lambda>i. bucket_counts (bucket_holds lo hi step n i) []) [0..<n]"
    by (simp add: bucket_counts_def map_replicate_const)
  then show ?case
    using Cons count_items_buckets [OF assms, of "source_items t (sm_idx m)" "[]"] lane_buckets_reference [OF assms]
    by (simp add: source_items_def)
qed simp

text \<open>C26. On a range of less than 2^53 milliseconds the lanes computed with floats are those of integer
  arithmetic: buckets of the rounded-up width, each with the numbers of items, errors and warnings of its
  stretch of time, and none left out.\<close>

theorem lanes_reference:
  assumes "lo \<le> hi" "hi - lo < 2 ^ 53" "\<bar>lo\<bar> < 2 ^ 61"
  shows "query_lane_buckets t c (Some (lo, hi)) =
    Some (concat (List.map (\<lambda>m. reference_lane (sm_idx m) lo hi (max (unat c) 1) (source_items t (sm_idx m)))
      (bu_sources (tl_bundle t))))"
proof -
  let ?n = "max (unat c) 1"
  have "unat c < 2 ^ 32" using unsigned_less [of c] by simp
  then have n: "0 < int ?n" "int ?n < 2 ^ 53" by auto
  then have "lane_ok lo hi (lane_step lo hi (int ?n)) ?n"
    using assms lane_step_div [OF assms(1,2) n] by (simp add: lane_ok_def)
  from lanes_loop_reference [OF this] show ?thesis by (simp add: query_lane_buckets_def Let_def)
qed

end
