(* ===== verification/IncidentDetails.thy ===== *)
theory IncidentDetails
  imports TimelineQuery IncidentSpec
begin

text \<open>
  Incidents and their details: after a change of the tunables the details of an incident list exactly the
  signals of the cluster the incident was made of.
\<close>

lemma clusters_around:
  assumes "clusters_ok window max_span sigs cs" "0 \<le> window" "c \<in> set cs"
  shows "List.filter (\<lambda>s. in_range (cl_start c, cl_end c) (sg_ts s)) sigs = cl_signals c"
proof -
  note dis = clusters_disjoint [OF assms(1,2)]
  obtain as bs where cs: "cs = as @ c # bs" using assms(3) split_list by metis
  have ok: "cluster_ok window max_span d" if "d \<in> set cs" for d
    using assms(1) that by (auto simp: clusters_ok_def list_all_iff)
  have inside: "cl_start d \<le> sg_ts s" "sg_ts s \<le> cl_end d" if dc: "d \<in> set cs" and sd: "s \<in> set (cl_signals d)" for d s
  proof -
    have srt: "sorted (List.map sg_ts (cl_signals d))" and e: "cl_start d = sg_ts (hd (cl_signals d))"
        "cl_end d = sg_ts (last (cl_signals d))" using ok [OF dc] by (simp_all add: cluster_ok_def)
    obtain xs ys where "cl_signals d = xs @ s # ys" using sd split_list by metis
    then show "cl_start d \<le> sg_ts s" "sg_ts s \<le> cl_end d"
      using srt e by (auto simp: sorted_append hd_append)
  qed
  let ?P = "\<lambda>s. in_range (cl_start c, cl_end c) (sg_ts s)"
  have before: "cl_end d < cl_start c" if "d \<in> set as" for d
    using dis(1) that unfolding cs by (auto simp: sorted_wrt_append)
  have after: "cl_end c < cl_start d" if "d \<in> set bs" for d
    using dis(1) that unfolding cs by (auto simp: sorted_wrt_append)
  have none: "List.filter ?P (concat (List.map cl_signals ds)) = []"
    if "\<And>d. d \<in> set ds \<Longrightarrow> d \<in> set cs \<and> (cl_end d < cl_start c \<or> cl_end c < cl_start d)" for ds
    using that inside by (fastforce simp: filter_empty_conv in_range_def)
  have "List.filter ?P (concat (List.map cl_signals as)) = []"
    by (rule none) (use before cs in auto)
  moreover have "List.filter ?P (concat (List.map cl_signals bs)) = []"
    by (rule none) (use after cs in auto)
  moreover have "List.filter ?P (cl_signals c) = cl_signals c"
    using inside [OF assms(3)] by (simp add: filter_id_conv in_range_def)
  moreover have "sigs = concat (List.map cl_signals as) @ cl_signals c @ concat (List.map cl_signals bs)"
    using assms(1) by (simp add: clusters_ok_def cs)
  ultimately show ?thesis by simp
qed

subsection \<open>The loop over the signals\<close>

type_synonym shown = "u16 \<times> int \<times> signal_kind"

definition shown_of :: "tl_signal \<Rightarrow> shown" where
  "shown_of s = (sg_source s, sg_ts s, sg_kind s)"

definition detail_of :: "signal_detail \<Rightarrow> shown" where
  "detail_of d = (sd_source d, sd_ts d, sd_kind d)"

definition hm_total :: "('k, u32) hash_map \<Rightarrow> u32" where
  "hm_total m = sum_list (List.map snd m)"

lemma hm_total_entry: "hm_total (hm_entry k 0 (\<lambda>n. n + 1) m) = hm_total m + 1"
  by (induction k "0 :: u32" "\<lambda>n :: u32. n + 1" m rule: hm_entry.induct) (auto simp: hm_total_def)

lemma detail_loop_lists:
  "detail_loop rd t runtimes i ss ma sigs counts = Inr (out, counts') \<Longrightarrow>
     List.map detail_of out = List.map detail_of sigs
       @ List.map shown_of (List.filter (shown_signal (bu_tunables (tl_bundle t)) i) ss)
     \<and> (hm_total counts = of_nat (length sigs) \<longrightarrow> hm_total counts' = of_nat (length out))"
proof (induction ss arbitrary: ma sigs counts)
  case (Cons s ss)
  show ?case
  proof (cases "shown_signal (bu_tunables (tl_bundle t)) i s")
    case True
    obtain r ma' where r: "signal_preview rd t runtimes s ma = (r, ma')" by fastforce
    obtain line preview where "r = Inr (line, preview)" using Cons.prems True r by (cases r) auto
    then have "detail_loop rd t runtimes i ss ma'
        (sigs @ [\<lparr>sd_source = sg_source s, sd_name = source_name t (sg_source s), sd_ts = sg_ts s, sd_kind = sg_kind s,
                  sd_correlation = sg_correlation s, sd_line = line, sd_preview = preview\<rparr>])
        (hm_entry (source_name t (sg_source s)) 0 (\<lambda>n. n + 1) counts) = Inr (out, counts')"
      using Cons.prems True r by (simp add: Let_def)
    from Cons.IH [OF this] show ?thesis
      using True by (simp add: detail_of_def shown_of_def hm_total_entry add.commute)
  qed (use Cons in simp)
qed simp

lemma map_sum_Inr: "map_sum id f r = Inr y \<longleftrightarrow> (\<exists>x. r = Inr x \<and> y = f x)"
  by (cases r) auto

text \<open>C25. After a change of the tunables, the details of an incident list, in order, exactly the signals of one
  cluster, the cluster the incident was made of, and count each of them once for its source.\<close>

theorem incident_details_complete:
  assumes "recompute_tunables rd t runtimes tn = (Inr incidents, u)"
    and "sorted (List.map sg_ts (tl_raw_signals t))" "instants_ok (tl_raw_signals t)"
    and "0 \<le> overlap_window_ms tn" "0 \<le> max_incident_span_ms tn"
    and "query_incident_details rd u runtimes' n = Inr (Some d)"
  shows "\<exists>c. c \<in> set (cluster_signals
           (List.filter (\<lambda>s. sg_kind s \<in> set (enabled_signal_kinds tn)) (tl_raw_signals t))
           (overlap_window_ms tn) (max_incident_span_ms tn))
     \<and> incident_of n c (id_incident d) \<and> List.map detail_of (id_signals d) = List.map shown_of (cl_signals c)
     \<and> hm_total (id_counts d) = in_signals (id_incident d)"
proof -
  let ?K = "\<lambda>s. sg_kind s \<in> set (enabled_signal_kinds tn)"
  let ?sigs = "List.filter ?K (tl_raw_signals t)"
  let ?cs = "cluster_signals ?sigs (overlap_window_ms tn) (max_incident_span_ms tn)"
  obtain ma where "redetect_from_signals (tl_raw_signals t) (tl_ime_events t) tn (set (bu_denied (tl_bundle t)))
        (message_at rd runtimes (tl_indexes t)) new_materializer = (incidents, ma)"
      and u: "u = t\<lparr>tl_bundle := (tl_bundle t)\<lparr>bu_tunables := tn, bu_incidents := incidents\<rparr>\<rparr>"
    using assms(1) by (auto simp: recompute_tunables_def split: prod.splits sum.splits)
  then have incs: "incidents = fst (qualify (tl_ime_events t) (message_at rd runtimes (tl_indexes t))
      (set (bu_denied (tl_bundle t))) (min_source_count tn) (of_nat 1) new_materializer ?cs)"
    by (simp add: redetect_from_signals_def)
  obtain i sigs counts where i: "List.find (\<lambda>i. in_id i = n) incidents = Some i"
      and loop: "detail_loop rd u runtimes' i (tl_raw_signals t) new_materializer [] [] = Inr (sigs, counts)"
      and d: "d = \<lparr>id_incident = i, id_signals = sigs, id_counts = counts\<rparr>"
    using assms(6) unfolding query_incident_details_def u
    by (auto simp: map_sum_Inr split: option.splits)
  have "i \<in> set incidents" "in_id i = n" using i by (auto simp: find_Some_iff)
  then obtain k where k: "k < length incidents" "incidents ! k = i" by (auto simp: in_set_conv_nth)
  have "list_all2 (\<lambda>(k, c) i. incident_of (of_nat k) c i)
      (enumerate 1 (List.filter (enough_sources (min_source_count tn)) ?cs)) incidents"
    unfolding incs by (rule qualify_incidents)
  then have "k < length (List.filter (enough_sources (min_source_count tn)) ?cs)"
      "incident_of (of_nat (1 + k)) (List.filter (enough_sources (min_source_count tn)) ?cs ! k) i"
    using list_all2_lengthD list_all2_nthD2 [OF _ k(1)] k by (fastforce simp: nth_enumerate_eq)+
  then obtain c where c: "c \<in> set ?cs" "incident_of (in_id i) c i"
    using nth_mem by (fastforce simp: incident_of_def)
  have "sorted (List.map sg_ts ?sigs)" using assms(2) by (simp add: sorted_filter)
  moreover have "instants_ok ?sigs" using assms(3) by (auto simp: instants_ok_def list_all_iff)
  ultimately have "clusters_ok (overlap_window_ms tn) (max_incident_span_ms tn) ?sigs ?cs"
    using clusters_correct assms(5) by blast
  from clusters_around [OF this assms(4) c(1)]
  have around: "List.filter (shown_signal tn i) (tl_raw_signals t) = cl_signals c"
    using c(2) by (simp add: incident_of_def shown_signal_def [abs_def] conj_commute)
  have shown: "List.map detail_of sigs = List.map shown_of (cl_signals c)"
    "hm_total counts = of_nat (length sigs)"
    using detail_loop_lists [OF loop] around by (simp_all add: u hm_total_def)
  moreover have "length sigs = length (cl_signals c)" using arg_cong [OF shown(1), of length] by simp
  ultimately show ?thesis using c \<open>in_id i = n\<close> by (auto simp: d incident_of_def)
qed

end
