(* ===== verification/TimelineSamples.thy ===== *)
theory TimelineSamples
  imports TimelineViews TimelineLanes IncidentDetails
begin

text \<open>A small timeline, and the queries of the other theories on it.\<close>

definition sample_entry :: "string \<Rightarrow> u32 \<Rightarrow> log_entry" where
  "sample_entry text line =
     \<lparr>entry_id = 0, line_number = line, message = text, component = None, timestamp = None,
      entry_severity = LogError, source_file = None, file_path = ''a.log''\<rparr>"

definition sample_reader :: "(unit, nat) reader" where
  "sample_reader =
     \<lparr>rd_env = \<lparr>parse_datetime = (\<lambda>_. None), is_ip = (\<lambda>_. False)\<rparr>, rd_w1252 = (\<lambda>c. [c]),
      rd_open = (\<lambda>_. NotFoundError), read_once = (\<lambda>_ off _. Some (drop off ''first failed'')),
      parse_one_line = (\<lambda>_ s line. Some (sample_entry s line)), debug_event = (\<lambda>_. ''event'')\<rparr>"

definition sample_index :: "int \<Rightarrow> nat \<Rightarrow> u32 \<Rightarrow> entry_index" where
  "sample_index ts off line =
     \<lparr>ei_ts = ts, ei_severity = LogError, ei_source = 0, ei_offset = off, ei_line = line, ei_flags = 0\<rparr>"

definition sample_timeline :: "unit timeline" where
  "sample_timeline =
     \<lparr>tl_bundle = \<lparr>bu_id = ''t'', bu_sources =
          [\<lparr>sm_idx = 0, sm_kind = LogFile (), sm_path = ''a.log'', sm_name = ''a'', sm_color = '''', sm_count = 2,
            sm_excluded = None\<rparr>],
        bu_range = (100, 140), bu_total = 3, bu_incidents = [], bu_denied = [], bu_errors = [],
        bu_tunables = default_tunables\<rparr>,
      tl_indexes = [(0, [sample_index 100 0 1, sample_index 110 6 2]), (1, [sample_index 120 0 1])],
      tl_ime_events = [],
      tl_raw_signals = [raw_signal 0 0 100 ErrorSeverity, raw_signal 1 0 120 ErrorSeverity,
        raw_signal 0 1 9000 ErrorSeverity]\<rparr>"

definition sample_runtimes :: "(unit, nat) runtimes" where
  "sample_runtimes = [(0, \<lparr>sr_path = ''a.log'', sr_parser = (), sr_firewall = None\<rparr>),
     (1, \<lparr>sr_path = ''b.log'', sr_parser = (), sr_firewall = None\<rparr>)]"

lemmas sample_defs = sample_reader_def sample_timeline_def sample_runtimes_def sample_index_def

lemma sample_view:
  "view_keys sample_timeline None None = [(100, 0, 0, False), (110, 0, 1, False), (120, 1, 0, False)]"
proof -
  have "unsorted_logs sample_timeline whole_range None = [(100, 0, 0, False), (110, 0, 1, False), (120, 1, 0, False)]"
      "unsorted_imes sample_timeline whole_range None = []"
    by (simp_all add: unsorted_logs_def unsorted_imes_def sample_defs wanted_def log_keys_def in_range_def whole_range_def)
  moreover have "sorted [(100, 0, 0, False), (110, 0, 1, False), (120, 1, 0, False) :: view_key]" by simp
  ultimately show ?thesis unfolding view_keys_sort option.case by (simp only: append_Nil2 sort_key_id_if_sorted list.map_ident)
qed

lemma lossy_ascii: "list_all (\<lambda>c. byte c < 0x80) s \<Longrightarrow> from_utf8_lossy s = s"
proof (induction s)
  case (Cons c s)
  then have "utf8_next (c # s) = Scalar [c] 1" by (simp add: utf8_next_def utf8_size_def)
  then show ?case using Cons by (subst from_utf8_lossy.simps) simp
qed (simp add: from_utf8_lossy.simps)

lemma sample_rows:
  "all_rows sample_reader sample_timeline sample_runtimes [(100, 0, 0, False)] =
     Inr [LogRow 0 (sample_entry ''first failed'' 1)]"
  by (simp add: key_rows_def entry_read_def entry_at_def sample_defs index_at_def nth_opt_def
      materialize_log_entry_def read_entry_raw_def lossy_ascii of_char_def)

theorem pages_tile_witness:
  "query_timeline_entries sample_reader sample_timeline sample_runtimes None None 0 (1 + 2) =
     Some (join (the (query_timeline_entries sample_reader sample_timeline sample_runtimes None None 0 1))
       (the (query_timeline_entries sample_reader sample_timeline sample_runtimes None None (0 + ucast (1 :: u32)) 2)))
   \<and> query_timeline_entries sample_reader sample_timeline sample_runtimes None None 0 1 =
       Some (Inr [LogRow 0 (sample_entry ''first failed'' 1)])"
proof
  show "query_timeline_entries sample_reader sample_timeline sample_runtimes None None 0 (1 + 2) =
     Some (join (the (query_timeline_entries sample_reader sample_timeline sample_runtimes None None 0 1))
       (the (query_timeline_entries sample_reader sample_timeline sample_runtimes None None (0 + ucast (1 :: u32)) 2)))"
    by (rule pages_tile) simp_all
  show "query_timeline_entries sample_reader sample_timeline sample_runtimes None None 0 1 =
       Some (Inr [LogRow 0 (sample_entry ''first failed'' 1)])"
    by (simp add: query_rows sample_view page_slice_def sample_rows del: all_rows.simps)
qed

theorem query_order_independent_witness:
  "tl_indexes sample_timeline \<noteq> rev (tl_indexes sample_timeline)
   \<and> query_timeline_entries sample_reader sample_timeline sample_runtimes None None 1 2 =
       query_timeline_entries sample_reader (sample_timeline\<lparr>tl_indexes := rev (tl_indexes sample_timeline)\<rparr>)
         sample_runtimes None None 1 2"
proof
  show "tl_indexes sample_timeline \<noteq> rev (tl_indexes sample_timeline)" by (simp add: sample_defs)
  show "query_timeline_entries sample_reader sample_timeline sample_runtimes None None 1 2 =
       query_timeline_entries sample_reader (sample_timeline\<lparr>tl_indexes := rev (tl_indexes sample_timeline)\<rparr>)
         sample_runtimes None None 1 2"
    by (rule query_order_independent) (simp add: same_entries_def sample_timeline_def)
qed

theorem lanes_reference_witness:
  "query_lane_buckets sample_timeline 4 (Some (100, 140)) = Some
     [\<lparr>lb_source = 0, lb_start = 100, lb_end = 110, lb_total = 1, lb_errors = 1, lb_warnings = 0\<rparr>,
      \<lparr>lb_source = 0, lb_start = 110, lb_end = 120, lb_total = 1, lb_errors = 1, lb_warnings = 0\<rparr>]"
  by (subst lanes_reference)
    (simp_all add: sample_timeline_def sample_index_def reference_lane_def upt_rec source_items_def log_items_def
      bucket_counts_def bucket_holds_def count_def)

definition sample_incident :: incident where
  "sample_incident =
     \<lparr>in_id = 1, in_start = 100, in_end = 120, in_signals = 2, in_sources = 2, in_confidence = score 2 2 0,
      in_anchor = None, in_guid = None, in_summary = ''2 signals across 2 sources''\<rparr>"

definition sample_updated :: "unit timeline" where
  "sample_updated = sample_timeline\<lparr>tl_bundle := (tl_bundle sample_timeline)\<lparr>bu_incidents := [sample_incident]\<rparr>\<rparr>"

lemma sample_recompute:
  "recompute_tunables sample_reader sample_timeline sample_runtimes default_tunables = (Inr [sample_incident], sample_updated)"
  by (simp add: recompute_tunables_def redetect_from_signals_def sample_timeline_def sample_updated_def default_tunables_def
      raw_signal_def cluster_signals_def cluster_step_def fits64_def source_set_def qualify_cluster_def summarize_def
      finish_def new_materializer_def sample_incident_def dec.simps digit_def)

lemma sample_read:
  "entry_at sample_reader sample_runtimes (tl_indexes sample_updated) 0 0 ma = (Inr (Some (sample_entry ''first failed'' 1)), ma)"
  "entry_at sample_reader sample_runtimes (tl_indexes sample_updated) 1 0 ma = (Inr (Some (sample_entry ''first failed'' 1)), ma)"
  by (simp_all add: entry_at_def sample_defs sample_updated_def index_at_def nth_opt_def
      materialize_log_entry_def read_entry_raw_def lossy_ascii of_char_def)

lemma sample_details:
  "query_incident_details sample_reader sample_updated sample_runtimes 1 = Inr (Some
     \<lparr>id_incident = sample_incident,
      id_signals = [\<lparr>sd_source = 0, sd_name = ''a'', sd_ts = 100, sd_kind = ErrorSeverity, sd_correlation = None,
                     sd_line = 1, sd_preview = ''first failed''\<rparr>,
                    \<lparr>sd_source = 1, sd_name = ''src1'', sd_ts = 120, sd_kind = ErrorSeverity, sd_correlation = None,
                     sd_line = 1, sd_preview = ''first failed''\<rparr>],
      id_counts = [(''a'', 1), (''src1'', 1)]\<rparr>)"
proof -
  have index: "index_at (tl_indexes sample_updated) 0 0 = Some (sample_index 100 0 1)"
      "index_at (tl_indexes sample_updated) 1 0 = Some (sample_index 120 0 1)"
    by (simp_all add: index_at_def nth_opt_def sample_updated_def sample_timeline_def)
  have run: "\<exists>rt. map_of sample_runtimes 0 = Some rt" "\<exists>rt. map_of sample_runtimes 1 = Some rt"
    by (simp_all add: sample_runtimes_def)
  have name: "source_name sample_updated 0 = ''a''" "source_name sample_updated 1 = ''src1''"
    by (simp_all add: source_name_def sample_updated_def sample_timeline_def dec.simps digit_def)
  have cut: "truncate_text ''first failed'' 200 = ''first failed''" by (simp add: truncate_text_def is_cont_def of_char_def)
  have preview: "signal_preview sample_reader sample_updated sample_runtimes (raw_signal 0 0 100 ErrorSeverity) ma =
        (Inr (1, ''first failed''), ma)"
      "signal_preview sample_reader sample_updated sample_runtimes (raw_signal 1 0 120 ErrorSeverity) ma =
        (Inr (1, ''first failed''), ma)" for ma
    using run by (auto simp: signal_preview_def raw_signal_def sample_read index sample_index_def sample_entry_def cut)
  have shown: "shown_signal (bu_tunables (tl_bundle sample_updated)) sample_incident (raw_signal 0 0 100 ErrorSeverity)"
      "shown_signal (bu_tunables (tl_bundle sample_updated)) sample_incident (raw_signal 1 0 120 ErrorSeverity)"
      "\<not> shown_signal (bu_tunables (tl_bundle sample_updated)) sample_incident (raw_signal 0 1 9000 ErrorSeverity)"
    by (simp_all add: shown_signal_def sample_updated_def sample_timeline_def default_tunables_def raw_signal_def
        in_range_def sample_incident_def)
  have raw: "tl_raw_signals sample_updated =
      [raw_signal 0 0 100 ErrorSeverity, raw_signal 1 0 120 ErrorSeverity, raw_signal 0 1 9000 ErrorSeverity]"
    by (simp add: sample_updated_def sample_timeline_def)
  have source: "sg_source (raw_signal s i ts k) = s" "sg_ts (raw_signal s i ts k) = ts" "sg_kind (raw_signal s i ts k) = k"
      "sg_correlation (raw_signal s i ts k) = None" for s i ts k by (simp_all add: raw_signal_def)
  have found: "List.find (\<lambda>i. in_id i = 1) (bu_incidents (tl_bundle sample_updated)) = Some sample_incident"
    by (simp add: sample_updated_def sample_incident_def)
  show ?thesis
    unfolding query_incident_details_def found option.case raw
    by (simp only: detail_loop.simps shown not_True_eq_False not_False_eq_True if_False if_True Let_def preview source
        name prod.case sum.case) simp
qed

theorem incident_details_complete_witness:
  "\<exists>c. incident_of 1 c sample_incident \<and> List.map shown_of (cl_signals c) = [(0, 100, ErrorSeverity), (1, 120, ErrorSeverity)]"
proof -
  have "sorted (List.map sg_ts (tl_raw_signals sample_timeline))" "instants_ok (tl_raw_signals sample_timeline)"
    by (simp_all add: sample_timeline_def raw_signal_def instants_ok_def)
  from incident_details_complete [OF sample_recompute this _ _ sample_details]
  show ?thesis by (auto simp: default_tunables_def detail_of_def)
qed

end
