(* ===== verification/Inventory.thy ===== *)
theory Inventory
  imports Utf8Cuts TimelineModel "HOL-Library.Monad_Syntax" "HOL-Library.Signed_Division"
begin

text \<open>
  Device Inventory logs (\<open>intune/device/windows/inventory/mod.rs\<close>): the framing of physical lines into
  bounded logical records and the projection of records into entries. What the three header regexes and
  chrono give for a line is a parameter; a regex matches a line when it captures it. A failed
  \<open>assert!\<close> is \<open>None\<close>.
\<close>

subsection \<open>Framing\<close>

definition max_logical_record_bytes :: nat where
  "max_logical_record_bytes = 1048576"

datatype inventory_dialect = Harvester | InventoryAdaptor | RotationFailure

datatype record_segment = LineStart string | LineContinuation string

record framed_record =
  fr_content :: string
  fr_lines :: nat

definition newline_count :: "string \<Rightarrow> nat" where
  "newline_count s = min (length (filter (\<lambda>c. c = CHR 0x0A) s)) u32_max"

definition complete_record :: "string \<Rightarrow> framed_record" where
  "complete_record s = \<lparr>fr_content = s, fr_lines = sat_add32 (newline_count s) 1\<rparr>"

definition split_record :: "string \<Rightarrow> framed_record" where
  "split_record s = \<lparr>fr_content = s, fr_lines = newline_count s\<rparr>"

record framing =
  fg_completed :: "framed_record list"
  fg_pending :: "string option"
  fg_overflow :: nat
  fg_peak :: nat

definition flush_framing :: "framing \<Rightarrow> framing" where
  "flush_framing f =
     (case fg_pending f of
        None \<Rightarrow> f
      | Some r \<Rightarrow> f\<lparr>fg_completed := fg_completed f @ [complete_record r], fg_pending := None\<rparr>)"

text \<open>One round of the loop consumes text or empties a full record, so twice the text is fuel enough.\<close>

fun append_rounds :: "nat \<Rightarrow> string \<Rightarrow> framing \<Rightarrow> framing" where
  "append_rounds 0 s f = f"
| "append_rounds (Suc n) s f =
     (if s = [] then f
      else
        (let record = (case fg_pending f of None \<Rightarrow> [] | Some r \<Rightarrow> r);
             available = max_logical_record_bytes - length record;
             split_at = floor_boundary s (min available (length s));
             record = record @ take split_at s;
             f = f\<lparr>fg_pending := Some record,
                   fg_peak := (if 0 < split_at then max (fg_peak f) (length record) else fg_peak f)\<rparr>;
             s = drop split_at s in
         if s = [] then f
         else append_rounds n s
           (f\<lparr>fg_pending := None, fg_completed := fg_completed f @ [split_record record],
              fg_overflow := sat_add32 (fg_overflow f) 1\<rparr>)))"

definition append_bounded :: "string \<Rightarrow> framing \<Rightarrow> framing" where
  "append_bounded s f =
     (let f = append_rounds (2 * length s + 1) s f in
      if fg_pending f = None then f\<lparr>fg_pending := Some []\<rparr> else f)"

definition trim_crs :: "string \<Rightarrow> string" where
  "trim_crs s = trim_end_any [CHR 0x0D] s"

fun frame_segment :: "(string \<Rightarrow> bool) \<Rightarrow> record_segment \<Rightarrow> framing \<Rightarrow> framing" where
  "frame_segment header (LineStart raw) f =
     (let line = trim_crs raw;
          f = (if header line
               then (case fg_pending f of
                       None \<Rightarrow> f
                     | Some r \<Rightarrow> f\<lparr>fg_completed := fg_completed f @ [complete_record r], fg_pending := None\<rparr>)
               else f);
          insert_newline = (fg_pending f \<noteq> None);
          f = (if fg_pending f = None then f\<lparr>fg_pending := Some []\<rparr> else f);
          f = (if insert_newline then append_bounded [CHR 0x0A] f else f) in
      append_bounded line f)"
| "frame_segment header (LineContinuation s) f =
     append_bounded s (if fg_pending f = None then f\<lparr>fg_pending := Some []\<rparr> else f)"

definition frame_logical_records ::
    "(string \<Rightarrow> bool) \<Rightarrow> string option \<Rightarrow> record_segment list \<Rightarrow> framing option" where
  "frame_logical_records header pending segs =
     (let peak = (case pending of None \<Rightarrow> 0 | Some r \<Rightarrow> length r) in
      if peak \<le> max_logical_record_bytes
      then Some (fold (frame_segment header) segs
                  \<lparr>fg_completed = [], fg_pending = pending, fg_overflow = 0, fg_peak = peak\<rparr>)
      else None)"

subsection \<open>What regexes and chrono give\<close>

datatype harvester_level = LevelInformation | LevelWarning | LevelError

text \<open>The captures of the three headers; \<open>level\<close> has the three alternatives of its group.\<close>

record harvester_caps =
  hc_date :: string
  hc_time :: string
  hc_level :: harvester_level
  hc_message :: string

record adaptor_caps =
  ac_timestamp :: string
  ac_pid :: string
  ac_message :: string

record rotation_caps =
  rc_timestamp :: string
  rc_message :: string

text \<open>A parsed time as the code uses it: milliseconds, the three printed forms, the offset in seconds.\<close>

record parsed_time =
  pt_millis :: int
  pt_display :: string
  pt_offset :: int

record inventory_env =
  harvester_re :: "string \<Rightarrow> harvester_caps option"
  adaptor_re :: "string \<Rightarrow> adaptor_caps option"
  rotation_re :: "string \<Rightarrow> rotation_caps option"
  dotnet_exception_re :: "string \<Rightarrow> bool"
  is_alphanumeric :: "string \<Rightarrow> bool"
  harvester_time :: "string \<Rightarrow> parsed_time option"
  adaptor_time :: "string \<Rightarrow> parsed_time option"
  rfc3339_time :: "string \<Rightarrow> parsed_time option"

definition is_record_header :: "inventory_env \<Rightarrow> inventory_dialect \<Rightarrow> string \<Rightarrow> bool" where
  "is_record_header env d line \<longleftrightarrow>
     (case d of
        Harvester \<Rightarrow> harvester_re env line \<noteq> None
      | InventoryAdaptor \<Rightarrow> adaptor_re env line \<noteq> None
      | RotationFailure \<Rightarrow> rotation_re env line \<noteq> None)"

subsection \<open>Projection\<close>

record 's inventory_entry = log_entry +
  iv_display :: "string option"
  iv_thread :: "u32 option"
  iv_thread_display :: "string option"
  iv_offset :: "int option"
  iv_spans :: "'s list"

record entry_metadata =
  em_timestamp :: "int option"
  em_display :: "string option"
  em_thread :: "u32 option"
  em_thread_display :: "string option"
  em_offset :: "int option"

definition no_metadata :: entry_metadata where
  "no_metadata = \<lparr>em_timestamp = None, em_display = None, em_thread = None, em_thread_display = None, em_offset = None\<rparr>"

definition inventory_log_entry :: "u32 \<Rightarrow> string \<Rightarrow> severity \<Rightarrow> entry_metadata \<Rightarrow> 's inventory_entry" where
  "inventory_log_entry n msg sev m =
     \<lparr>entry_id = 0, line_number = n, message = msg, component = None, timestamp = em_timestamp m,
      entry_severity = sev, source_file = None, file_path = [], iv_display = em_display m,
      iv_thread = em_thread m, iv_thread_display = em_thread_display m, iv_offset = em_offset m, iv_spans = []\<rparr>"

definition parse_harvester :: "inventory_env \<Rightarrow> harvester_caps \<Rightarrow> u32 \<Rightarrow> 's inventory_entry \<times> bool" where
  "parse_harvester env caps n =
     (let timestamp = harvester_time env (hc_date caps @ '' '' @ hc_time caps);
          severity = (case hc_level caps of LevelInformation \<Rightarrow> LogInfo | LevelWarning \<Rightarrow> LogWarning
                      | LevelError \<Rightarrow> LogError) in
      (inventory_log_entry n (hc_message caps) severity
         (no_metadata\<lparr>em_timestamp := map_option pt_millis timestamp, em_display := map_option pt_display timestamp\<rparr>),
       timestamp \<noteq> None))"

definition parse_adaptor :: "inventory_env \<Rightarrow> adaptor_caps \<Rightarrow> u32 \<Rightarrow> 's inventory_entry \<times> bool" where
  "parse_adaptor env caps n =
     (let timestamp = adaptor_time env (ac_timestamp caps);
          pid = parse_uint u32_max (ac_pid caps) in
      (inventory_log_entry n (ac_message caps) LogInfo
         (no_metadata\<lparr>em_timestamp := map_option pt_millis timestamp, em_display := map_option pt_display timestamp,
            em_thread := map_option of_nat pid,
            em_thread_display := map_option (\<lambda>p. dec p @ '' (0x'' @ hex_upper p @ '')'') pid\<rparr>),
       timestamp \<noteq> None \<and> pid \<noteq> None))"

definition parse_rotation :: "inventory_env \<Rightarrow> rotation_caps \<Rightarrow> u32 \<Rightarrow> 's inventory_entry \<times> bool" where
  "parse_rotation env caps n =
     (let timestamp = rfc3339_time env (rc_timestamp caps) in
      (inventory_log_entry n (rc_message caps) LogInfo
         (no_metadata\<lparr>em_timestamp := map_option pt_millis timestamp, em_display := map_option pt_display timestamp,
            em_offset := map_option (\<lambda>t. pt_offset t sdiv 60) timestamp\<rparr>),
       timestamp \<noteq> None))"

definition starts_with_digit :: "string \<Rightarrow> bool" where
  "starts_with_digit s \<longleftrightarrow> (case s of [] \<Rightarrow> False | c # _ \<Rightarrow> is_digit c)"

definition looks_like_harvester_record :: "string \<Rightarrow> bool" where
  "looks_like_harvester_record line \<longleftrightarrow> starts_with_digit line \<and> str_contains line '' [''"

definition orphan_record :: "string \<Rightarrow> u32 \<Rightarrow> 's inventory_entry" where
  "orphan_record msg n = inventory_log_entry n msg LogInfo no_metadata"

text \<open>\<open>last_mut\<close>, used to push text onto the message of the last record.\<close>

definition push_last :: "string \<Rightarrow> 's inventory_entry list \<Rightarrow> 's inventory_entry list" where
  "push_last s records =
     (if records = [] then [] else butlast records @ [last records\<lparr>message := message (last records) @ s\<rparr>])"

text \<open>The positions at which a phrase occurs; \<open>match_indices\<close> gives those that do not overlap.\<close>

fun matches_from :: "nat \<Rightarrow> string \<Rightarrow> string \<Rightarrow> nat \<Rightarrow> nat list" where
  "matches_from 0 p s i = []"
| "matches_from (Suc n) p s i =
     (case str_find p (drop i s) of None \<Rightarrow> [] | Some k \<Rightarrow> (i + k) # matches_from n p s (i + k + length p))"

definition match_indices :: "string \<Rightarrow> string \<Rightarrow> nat list" where
  "match_indices p s = matches_from (length s + 1) p s 0"

definition first_char :: "string \<Rightarrow> string option" where
  "first_char s = (if s = [] then None else Some (take (utf8_width (hd s)) s))"

definition contains_with_trailing_token_boundary :: "inventory_env \<Rightarrow> string \<Rightarrow> string \<Rightarrow> bool" where
  "contains_with_trailing_token_boundary env msg phrase \<longleftrightarrow>
     list_ex (\<lambda>start. case first_char (drop (start + length phrase) msg) of
                        None \<Rightarrow> True
                      | Some ch \<Rightarrow> \<not> is_alphanumeric env ch \<and> ch \<noteq> ''_'') (match_indices phrase msg)"

definition rotation_header_states_failure :: "inventory_env \<Rightarrow> string \<Rightarrow> bool" where
  "rotation_header_states_failure env msg =
     (let lowered = ascii_lower (str_trim msg) in
      list_ex (contains_with_trailing_token_boundary env lowered)
        [''failed to rotate'', ''rotation failed'', ''failed to roll''])"

definition looks_like_dotnet_exception :: "inventory_env \<Rightarrow> string \<Rightarrow> bool" where
  "looks_like_dotnet_exception env line =
     (let trimmed = trim_start line in
      if trimmed = [] then False
      else if prefix ''at '' trimmed \<and> (prefix '' '' line \<or> prefix [CHR 0x09] line) then True
      else dotnet_exception_re env trimmed)"

definition rotation_record_is_failure :: "inventory_env \<Rightarrow> string \<Rightarrow> bool" where
  "rotation_record_is_failure env msg =
     (let lines = str_lines msg; header = (if lines = [] then [] else hd lines) in
      rotation_header_states_failure env header \<or> list_ex (looks_like_dotnet_exception env) (tl lines))"

definition parse_header ::
    "inventory_env \<Rightarrow> inventory_dialect \<Rightarrow> string \<Rightarrow> u32 \<Rightarrow> ('s inventory_entry \<times> bool) option" where
  "parse_header env d line n =
     (case d of
        Harvester \<Rightarrow> map_option (\<lambda>caps. parse_harvester env caps n) (harvester_re env line)
      | InventoryAdaptor \<Rightarrow> map_option (\<lambda>caps. parse_adaptor env caps n) (adaptor_re env line)
      | RotationFailure \<Rightarrow> map_option (\<lambda>caps. parse_rotation env caps n) (rotation_re env line))"

fun project_line ::
    "inventory_env \<Rightarrow> inventory_dialect \<Rightarrow> nat \<times> string \<Rightarrow> 's inventory_entry list \<times> nat
     \<Rightarrow> 's inventory_entry list \<times> nat" where
  "project_line env d (index, raw) (records, errors) =
     (let n = of_nat (index + 1); line = trim_crs raw in
      if line = [] then (push_last [CHR 0x0A] records, errors)
      else
        (case parse_header env d line n of
           Some (record, ok) \<Rightarrow> (records @ [record], if ok then errors else errors + 1)
         | None \<Rightarrow>
             if d = Harvester \<and> looks_like_harvester_record line then (records @ [orphan_record line n], errors)
             else if records \<noteq> [] then (push_last (CHR 0x0A # line) records, errors)
             else (records @ [orphan_record line n], errors)))"

definition record_lines :: "framed_record \<Rightarrow> string list" where
  "record_lines r =
     (let lines = split_on (CHR 0x0A) (fr_content r) in
      if fr_lines r = newline_count (fr_content r) \<and> fr_content r \<noteq> [] \<and> last (fr_content r) = CHR 0x0A
      then butlast lines else lines)"

definition project_logical_record ::
    "inventory_env \<Rightarrow> inventory_dialect \<Rightarrow> framed_record \<Rightarrow> 's inventory_entry list \<times> nat" where
  "project_logical_record env d r =
     (let (records, errors) = fold (project_line env d) (List.enumerate 0 (record_lines r)) ([], 0) in
      if d = RotationFailure
      then (List.map (\<lambda>e. e\<lparr>entry_severity :=
              (if rotation_record_is_failure env (message e) then LogError else LogInfo)\<rparr>) records, errors)
      else (records, errors))"

definition sat_add_u32 :: "u32 \<Rightarrow> u32 \<Rightarrow> u32" where
  "sat_add_u32 a b = of_nat (sat_add32 (unat a) (unat b))"

definition sat_sub_u32 :: "u32 \<Rightarrow> u32 \<Rightarrow> u32" where
  "sat_sub_u32 a b = of_nat (unat a - unat b)"

text \<open>The loop of \<open>parse_framed_records\<close>: entries, errors, first line of the next record.\<close>

fun parse_record ::
    "inventory_env \<Rightarrow> string \<Rightarrow> inventory_dialect \<Rightarrow> framed_record \<Rightarrow> 's inventory_entry list \<times> nat \<times> u32
     \<Rightarrow> 's inventory_entry list \<times> nat \<times> u32" where
  "parse_record env path d r (entries, errors, start) =
     (let (record_entries, record_errors) = project_logical_record env d r in
      (fold (\<lambda>e es. es @ [e\<lparr>entry_id := of_nat (length es),
                            line_number := sat_add_u32 start (sat_sub_u32 (line_number e) 1), file_path := path\<rparr>])
         record_entries entries,
       sat_add32 errors record_errors, sat_add_u32 start (of_nat (fr_lines r))))"

definition parse_framed_records ::
    "inventory_env \<Rightarrow> string \<Rightarrow> framed_record list \<Rightarrow> inventory_dialect \<Rightarrow> 's inventory_entry list \<times> nat" where
  "parse_framed_records env path rs d =
     (let (entries, errors, _) = fold (parse_record env path d) rs ([], 0, 1) in (entries, errors))"

definition parse_inventory_lines ::
    "inventory_env \<Rightarrow> string \<Rightarrow> string list \<Rightarrow> inventory_dialect \<Rightarrow> ('s inventory_entry list \<times> nat) option" where
  "parse_inventory_lines env path lines d =
     do { f \<leftarrow> frame_logical_records (is_record_header env d) None (List.map LineStart lines);
          let framed = flush_framing f;
              (entries, errors) = parse_framed_records env path (fg_completed framed) d in
            Some (entries, sat_add32 errors (fg_overflow framed)) }"

definition parse_inventory_content ::
    "inventory_env \<Rightarrow> string \<Rightarrow> string \<Rightarrow> inventory_dialect \<Rightarrow> ('s inventory_entry list \<times> nat) option" where
  "parse_inventory_content env path content d = parse_inventory_lines env path (str_lines content) d"

subsection \<open>Detection\<close>

definition count_headers :: "string \<Rightarrow> (string \<Rightarrow> bool) \<Rightarrow> nat" where
  "count_headers content header = length (filter header (List.map trim_crs (str_lines content)))"

definition has_filename_hint :: "string \<Rightarrow> string \<Rightarrow> bool" where
  "has_filename_hint path stem =
     str_contains (ascii_lower (rev (takeWhile (\<lambda>c. c \<noteq> CHR ''/'' \<and> c \<noteq> CHR 0x5C) (rev path)))) stem"

fun signature_line :: "inventory_env \<Rightarrow> string \<Rightarrow> bool \<times> bool \<times> bool \<Rightarrow> bool \<times> bool \<times> bool" where
  "signature_line env line (saw_header, header_states_failure, exception_under_header) =
     (case rotation_re env line of
        Some caps \<Rightarrow>
          (True, header_states_failure \<or> rotation_header_states_failure env (rc_message caps), exception_under_header)
      | None \<Rightarrow>
          (saw_header, header_states_failure,
           exception_under_header \<or> (saw_header \<and> looks_like_dotnet_exception env line)))"

definition has_rotation_failure_signature :: "inventory_env \<Rightarrow> string \<Rightarrow> bool" where
  "has_rotation_failure_signature env content =
     (let (saw_header, header_states_failure, exception_under_header) =
        fold (signature_line env) (List.map trim_crs (str_lines content)) (False, False, False) in
      saw_header \<and> (header_states_failure \<or> exception_under_header))"

definition detect_dialect :: "inventory_env \<Rightarrow> string \<Rightarrow> string \<Rightarrow> inventory_dialect option" where
  "detect_dialect env path content =
     (let harvester_headers = count_headers content (is_record_header env Harvester);
          adaptor_headers = count_headers content (is_record_header env InventoryAdaptor) in
      if 2 \<le> harvester_headers
         \<or> (1 \<le> harvester_headers \<and> has_filename_hint path ''intuneinventoryharvesterlog'') then Some Harvester
      else if 2 \<le> adaptor_headers \<or> (1 \<le> adaptor_headers \<and> has_filename_hint path ''inventoryadaptor'')
      then Some InventoryAdaptor
      else if has_rotation_failure_signature env content then Some RotationFailure
      else None)"

end
