(* ===== verification/InventoryFrames.thy ===== *)
theory InventoryFrames
  imports Inventory ImeProps ImeSamples
begin

text \<open>
  Framing loses nothing: the records of a Device Inventory log, each complete one followed by its line
  feed, are the lines of the log, every record is bounded valid text, and the line spans add up.
\<close>

subsection \<open>The text a framing holds\<close>

definition framed_text :: "framed_record \<Rightarrow> string" where
  "framed_text r = fr_content r @ (if fr_lines r = newline_count (fr_content r) then [] else [CHR 0x0A])"

definition held :: "framing \<Rightarrow> string" where
  "held f = (case fg_pending f of None \<Rightarrow> [] | Some r \<Rightarrow> r)"

definition framing_text :: "framing \<Rightarrow> string" where
  "framing_text f = concat (List.map framed_text (fg_completed f)) @ held f"

definition bounded_text :: "string \<Rightarrow> bool" where
  "bounded_text s \<longleftrightarrow> length s \<le> max_logical_record_bytes \<and> valid_text s"

definition record_ok :: "framed_record \<Rightarrow> bool" where
  "record_ok r \<longleftrightarrow> bounded_text (fr_content r)
     \<and> (r = complete_record (fr_content r) \<or> r = split_record (fr_content r))"

definition is_split :: "framed_record \<Rightarrow> bool" where
  "is_split r \<longleftrightarrow> fr_lines r = newline_count (fr_content r)"

definition framing_ok :: "framing \<Rightarrow> bool" where
  "framing_ok f \<longleftrightarrow> list_all record_ok (fg_completed f) \<and> bounded_text (held f)
     \<and> fg_peak f \<le> max_logical_record_bytes
     \<and> fg_overflow f = min (length (filter is_split (fg_completed f))) u32_max"

lemma newline_count_small: "length s \<le> max_logical_record_bytes \<Longrightarrow> newline_count s < u32_max"
  using length_filter_le [of "\<lambda>c. c = CHR 0x0A" s] unfolding newline_count_def max_logical_record_bytes_def u32_max_def
  by linarith

lemma framed_text_simps [simp]:
  "framed_text (split_record s) = s" "is_split (split_record s)"
  "length s \<le> max_logical_record_bytes \<Longrightarrow> framed_text (complete_record s) = s @ [CHR 0x0A]"
  "length s \<le> max_logical_record_bytes \<Longrightarrow> \<not> is_split (complete_record s)"
  "fr_content (split_record s) = s" "fr_content (complete_record s) = s"
  using newline_count_small [of s]
  by (auto simp: framed_text_def split_record_def complete_record_def is_split_def sat_add32_def)

lemma record_ok_simps [simp]:
  "record_ok (split_record s) \<longleftrightarrow> bounded_text s" "record_ok (complete_record s) \<longleftrightarrow> bounded_text s"
  by (simp_all add: record_ok_def)

lemma bounded_Nil [simp]: "bounded_text []"
  by (simp add: bounded_text_def)

definition lf_count :: "string \<Rightarrow> nat" where
  "lf_count s = length (filter (\<lambda>c. c = CHR 0x0A) s)"

lemma lf_count_simps [simp]:
  "lf_count [] = 0" "lf_count (s @ t) = lf_count s + lf_count t" "lf_count [CHR 0x0A] = 1"
  by (simp_all add: lf_count_def)

lemma record_ok_lines: "record_ok r \<Longrightarrow> lf_count (framed_text r) = fr_lines r"
proof -
  assume r: "record_ok r"
  then have l: "length (fr_content r) \<le> max_logical_record_bytes" by (simp add: record_ok_def bounded_text_def)
  then have n: "newline_count (fr_content r) = lf_count (fr_content r)" "newline_count (fr_content r) < u32_max"
    using newline_count_small [OF l] by (simp_all add: newline_count_def lf_count_def)
  from r have "r = complete_record (fr_content r) \<or> r = split_record (fr_content r)" by (simp add: record_ok_def)
  then show ?thesis
  proof
    assume c: "r = complete_record (fr_content r)"
    have "lf_count (framed_text (complete_record (fr_content r))) = fr_lines (complete_record (fr_content r))"
      using l n by (simp add: complete_record_def sat_add32_def)
         (simp add: complete_record_def [symmetric] framed_text_def sat_add32_def)
    then show ?thesis using c by simp
  next
    assume c: "r = split_record (fr_content r)"
    have "lf_count (framed_text (split_record (fr_content r))) = fr_lines (split_record (fr_content r))"
      using n by (simp only: framed_text_simps) (simp add: split_record_def)
    then show ?thesis using c by simp
  qed
qed

subsection \<open>Appending\<close>

lemma append_rounds_ok:
  "framing_ok f \<Longrightarrow> valid_text s \<Longrightarrow> 2 * length s + (if held f = [] then 0 else 1) \<le> n \<Longrightarrow>
     framing_ok (append_rounds n s f) \<and> framing_text (append_rounds n s f) = framing_text f @ s
     \<and> (s \<noteq> [] \<longrightarrow> fg_pending (append_rounds n s f) \<noteq> None) \<and> (s = [] \<longrightarrow> append_rounds n s f = f)"
proof (induction n arbitrary: s f)
  case (Suc n)
  show ?case
  proof (cases "s = []")
    case False
    define k where "k = floor_boundary s (min (max_logical_record_bytes - length (held f)) (length s))"
    define r where "r = held f @ take k s"
    let ?f = "f\<lparr>fg_pending := Some r, fg_peak := (if 0 < k then max (fg_peak f) (length r) else fg_peak f)\<rparr>"
    have h: "bounded_text (held f)" using Suc.prems(1) by (simp add: framing_ok_def)
    have k: "is_char_boundary s k" "k \<le> max_logical_record_bytes - length (held f)" "k \<le> length s"
      using floor_boundary_boundary [of s] floor_boundary_le [of s "min (max_logical_record_bytes - length (held f)) (length s)"]
      by (simp_all add: k_def)
    have r: "bounded_text r"
      using h k valid_text_cut [OF Suc.prems(2) k(1)] by (auto simp: bounded_text_def r_def valid_text_append)
    have pos: "0 < k" if "held f = []"
      using floor_boundary_pos [OF Suc.prems(2) False, of "min max_logical_record_bytes (length s)"] that
        first_boundary [OF Suc.prems(2) False] floor_boundary_greatest
      by (fastforce simp: k_def max_logical_record_bytes_def)
    have f1: "framing_ok ?f" using Suc.prems(1) r by (auto simp: framing_ok_def held_def bounded_text_def)
    have t1: "framing_text ?f = framing_text f @ take k s" by (simp add: framing_text_def r_def held_def)
    have step: "append_rounds (Suc n) s f =
        (if drop k s = [] then ?f
         else append_rounds n (drop k s)
           (?f\<lparr>fg_pending := None, fg_completed := fg_completed f @ [split_record r],
              fg_overflow := sat_add32 (fg_overflow f) 1\<rparr>))"
      using False by (simp add: Let_def held_def k_def r_def)
    show ?thesis
    proof (cases "drop k s = []")
      case True
      then show ?thesis using f1 t1 False unfolding step by simp
    next
      case d: False
      let ?g = "?f\<lparr>fg_pending := None, fg_completed := fg_completed f @ [split_record r],
              fg_overflow := sat_add32 (fg_overflow f) 1\<rparr>"
      have g: "framing_ok ?g" using f1 r by (auto simp: framing_ok_def held_def sat_add32_def)
      have t: "framing_text ?g = framing_text f @ take k s" by (simp add: framing_text_def r_def held_def)
      have fuel: "2 * length (drop k s) + (if held ?g = [] then 0 else 1) \<le> n"
        using Suc.prems(3) pos k(3) by (auto simp: held_def split: if_splits)
      have v: "valid_text (drop k s)" using valid_text_cut [OF Suc.prems(2) k(1)] by simp
      show ?thesis using Suc.IH [OF g v fuel] d False t unfolding step by simp
    qed
  qed (use Suc.prems in simp)
qed (auto split: if_splits)

lemma append_bounded_ok:
  assumes "framing_ok f" "valid_text s"
  shows "framing_ok (append_bounded s f)" "framing_text (append_bounded s f) = framing_text f @ s"
    "fg_pending (append_bounded s f) \<noteq> None"
proof -
  define n where "n = 2 * length s + 1"
  have "2 * length s + (if held f = [] then 0 else 1) \<le> n" by (simp add: n_def)
  note a = append_rounds_ok [OF assms this]
  let ?f = "append_rounds n s f"
  have e: "framing_ok (?f\<lparr>fg_pending := Some []\<rparr>) \<and> framing_text (?f\<lparr>fg_pending := Some []\<rparr>) = framing_text ?f"
    if "fg_pending ?f = None"
    using a that assms(1) by (auto simp add: framing_ok_def framing_text_def held_def)
  have b: "append_bounded s f = (if fg_pending ?f = None then ?f\<lparr>fg_pending := Some []\<rparr> else ?f)"
    by (simp only: append_bounded_def Let_def n_def)
  show "framing_ok (append_bounded s f)" "framing_text (append_bounded s f) = framing_text f @ s"
    "fg_pending (append_bounded s f) \<noteq> None"
    using a e by (auto simp: b)
qed

subsection \<open>Segments\<close>

fun segment_text :: "record_segment \<Rightarrow> string" where
  "segment_text (LineStart s) = s"
| "segment_text (LineContinuation s) = s"

text \<open>What a segment adds to the text of a framing that has a record.\<close>

fun segment_adds :: "record_segment \<Rightarrow> string" where
  "segment_adds (LineStart s) = CHR 0x0A # trim_crs s"
| "segment_adds (LineContinuation s) = s"

lemma trim_crs_valid: "valid_text s \<Longrightarrow> valid_text (trim_crs s)"
  unfolding trim_crs_def by (rule trim_end_any_valid) auto

lemma start_record_ok:
  "framing_ok f \<Longrightarrow> framing_ok (if fg_pending f = None then f\<lparr>fg_pending := Some []\<rparr> else f)
     \<and> framing_text (if fg_pending f = None then f\<lparr>fg_pending := Some []\<rparr> else f) = framing_text f"
  by (simp add: framing_ok_def framing_text_def held_def)

lemma close_record_ok:
  assumes "framing_ok f" "fg_pending f = Some r"
  shows "framing_ok (f\<lparr>fg_completed := fg_completed f @ [complete_record r], fg_pending := None\<rparr>)"
    "framing_text (f\<lparr>fg_completed := fg_completed f @ [complete_record r], fg_pending := None\<rparr>) =
      framing_text f @ [CHR 0x0A]"
proof -
  have r: "bounded_text r" using assms by (simp add: framing_ok_def held_def)
  then have "length r \<le> max_logical_record_bytes" by (simp add: bounded_text_def)
  then show "framing_ok (f\<lparr>fg_completed := fg_completed f @ [complete_record r], fg_pending := None\<rparr>)"
    "framing_text (f\<lparr>fg_completed := fg_completed f @ [complete_record r], fg_pending := None\<rparr>) =
      framing_text f @ [CHR 0x0A]"
    using assms r by (simp_all add: framing_ok_def framing_text_def held_def)
qed

lemma frame_segment_ok:
  assumes "framing_ok f" "valid_text (segment_text sg)"
  shows "framing_ok (frame_segment header sg f)" "fg_pending (frame_segment header sg f) \<noteq> None"
    "framing_text (frame_segment header sg f) = framing_text f @
       (case fg_pending f of Some _ \<Rightarrow> segment_adds sg | None \<Rightarrow>
         (case sg of LineStart s \<Rightarrow> trim_crs s | LineContinuation s \<Rightarrow> s))"
proof -
  let ?start = "\<lambda>f. if fg_pending f = None then f\<lparr>fg_pending := Some []\<rparr> else f"
  have "framing_ok (frame_segment header sg f) \<and> fg_pending (frame_segment header sg f) \<noteq> None
    \<and> framing_text (frame_segment header sg f) = framing_text f @
       (case fg_pending f of Some _ \<Rightarrow> segment_adds sg | None \<Rightarrow>
         (case sg of LineStart s \<Rightarrow> trim_crs s | LineContinuation s \<Rightarrow> s))"
  proof (cases sg)
    case (LineContinuation s)
    have v: "valid_text s" using assms(2) LineContinuation by simp
    note a = append_bounded_ok [OF conjunct1 [OF start_record_ok [OF assms(1)]] v]
    show ?thesis
      using a conjunct2 [OF start_record_ok [OF assms(1)]] unfolding LineContinuation
      by (auto split: option.splits)
  next
    case (LineStart s)
    define l where "l = trim_crs s"
    have l: "valid_text l" using assms(2) LineStart trim_crs_valid by (simp add: l_def)
    have lf: "valid_text [CHR 0x0A]"
      by (simp add: valid_ascii)
    define g where "g = (if header l then (case fg_pending f of None \<Rightarrow> f
        | Some r \<Rightarrow> f\<lparr>fg_completed := fg_completed f @ [complete_record r], fg_pending := None\<rparr>) else f)"
    have g: "framing_ok g" "framing_text g = framing_text f @
        (if fg_pending f \<noteq> None \<and> fg_pending g = None then [CHR 0x0A] else [])"
      "fg_pending f = None \<Longrightarrow> fg_pending g = None"
      using assms(1) close_record_ok [OF assms(1)] by (auto simp: g_def split: option.splits)
    define h where "h = (if fg_pending g \<noteq> None then append_bounded [CHR 0x0A] (?start g) else ?start g)"
    have h: "framing_ok h" "framing_text h = framing_text f @ (if fg_pending f = None then [] else [CHR 0x0A])"
      using g start_record_ok [OF g(1)] append_bounded_ok [OF conjunct1 [OF start_record_ok [OF g(1)]] lf]
      by (auto simp: h_def)
    have "frame_segment header sg f = append_bounded l h"
      unfolding LineStart h_def g_def l_def by (simp only: frame_segment.simps Let_def)
    then show ?thesis
      using append_bounded_ok [OF h(1) l] h(2) by (auto simp: LineStart l_def split: option.splits)
  qed
  then show "framing_ok (frame_segment header sg f)" "fg_pending (frame_segment header sg f) \<noteq> None"
    "framing_text (frame_segment header sg f) = framing_text f @
       (case fg_pending f of Some _ \<Rightarrow> segment_adds sg | None \<Rightarrow>
         (case sg of LineStart s \<Rightarrow> trim_crs s | LineContinuation s \<Rightarrow> s))"
    by simp_all
qed

lemma frame_segments_ok:
  "framing_ok f \<Longrightarrow> list_all (\<lambda>sg. valid_text (segment_text sg)) sgs \<Longrightarrow>
     framing_ok (fold (frame_segment header) sgs f)
     \<and> (sgs \<noteq> [] \<or> fg_pending f \<noteq> None \<longrightarrow> fg_pending (fold (frame_segment header) sgs f) \<noteq> None)
     \<and> (fg_pending f \<noteq> None \<longrightarrow>
         framing_text (fold (frame_segment header) sgs f) = framing_text f @ concat (List.map segment_adds sgs))"
proof (induction sgs arbitrary: f)
  case (Cons sg sgs)
  have v: "valid_text (segment_text sg)" "list_all (\<lambda>sg. valid_text (segment_text sg)) sgs"
    using Cons.prems(2) by simp_all
  note s = frame_segment_ok [OF Cons.prems(1) v(1), of header]
  show ?case using Cons.IH [OF s(1) v(2)] s by auto
qed simp

subsection \<open>A whole log\<close>

lemma frame_lines:
  assumes "list_all valid_text lines" "lines \<noteq> []"
  obtains f where "frame_logical_records header None (List.map LineStart lines) = Some f" "framing_ok f"
    "framing_text f = join [CHR 0x0A] (List.map trim_crs lines)" "fg_pending f \<noteq> None"
proof -
  obtain l ls where ls: "lines = l # ls" using assms(2) by (cases lines) auto
  let ?f0 = "\<lparr>fg_completed = [], fg_pending = None, fg_overflow = 0, fg_peak = 0\<rparr>"
  have f0: "framing_ok ?f0" by (simp add: framing_ok_def held_def)
  have v: "valid_text (segment_text (LineStart l))" "list_all (\<lambda>sg. valid_text (segment_text sg)) (List.map LineStart ls)"
    using assms(1) ls by (simp_all add: list_all_iff)
  note s = frame_segment_ok [OF f0 v(1), of header]
  note t = frame_segments_ok [OF s(1) v(2), of header]
  have t1: "framing_text (frame_segment header (LineStart l) ?f0) = trim_crs l"
    using s(3) by (simp add: framing_text_def held_def)
  have adds: "a @ concat (List.map segment_adds (List.map LineStart ls)) = join [CHR 0x0A] (a # List.map trim_crs ls)" for a
    by (induction ls arbitrary: a) (auto simp: join_Cons)
  show thesis
  proof (rule that)
    show "frame_logical_records header None (List.map LineStart lines) =
        Some (fold (frame_segment header) (List.map LineStart ls) (frame_segment header (LineStart l) ?f0))"
      by (simp add: frame_logical_records_def ls del: frame_segment.simps)
  qed (use t s(2) t1 adds in \<open>simp_all add: ls\<close>)
qed

text \<open>What is true of the records of a log whatever its headers are.\<close>

definition frames_lines :: "string list \<Rightarrow> framed_record list \<Rightarrow> bool" where
  "frames_lines lines rs \<longleftrightarrow>
     concat (List.map framed_text rs) = concat (List.map (\<lambda>l. trim_crs l @ [CHR 0x0A]) lines)
     \<and> list_all record_ok rs"

lemma join_lf: "ls \<noteq> [] \<Longrightarrow> join [CHR 0x0A] ls @ [CHR 0x0A] = concat (List.map (\<lambda>l. l @ [CHR 0x0A]) ls)"
  by (induction "[CHR 0x0A]" ls rule: join.induct) auto

lemma record_lines_sum: "list_all record_ok rs \<Longrightarrow> sum_list (List.map fr_lines rs) = lf_count (concat (List.map framed_text rs))"
  by (induction rs) (simp_all add: record_ok_lines)

lemma trim_crs_set: "set (trim_crs l) \<subseteq> set l"
proof -
  have "set (dropWhile P xs) \<subseteq> set xs" for P and xs :: string by (auto dest: set_dropWhileD)
  from this [of _ "rev l"] show ?thesis by (simp add: trim_crs_def trim_end_any_def)
qed

lemma lf_count_absent: "CHR 0x0A \<notin> set s \<Longrightarrow> lf_count s = 0"
  by (induction s) (auto simp: lf_count_def)

lemma frames_lines_count:
  assumes "frames_lines lines rs" "\<forall>l \<in> set lines. CHR 0x0A \<notin> set l"
  shows "sum_list (List.map fr_lines rs) = length lines"
proof -
  have "lf_count (concat (List.map (\<lambda>l. trim_crs l @ [CHR 0x0A]) lines)) = length lines"
    using assms(2)
  proof (induction lines)
    case (Cons l lines)
    then have "CHR 0x0A \<notin> set (trim_crs l)" using trim_crs_set [of l] by auto
    then have "filter (\<lambda>c. c = CHR 0x0A) (trim_crs l) = []" by (auto simp: filter_empty_conv)
    then show ?case using Cons by (simp add: lf_count_def)
  qed simp
  then show ?thesis using assms(1) record_lines_sum by (simp add: frames_lines_def)
qed

lemma flush_ok:
  assumes "framing_ok f"
  shows "list_all record_ok (fg_completed (flush_framing f))"
    "concat (List.map framed_text (fg_completed (flush_framing f))) =
       framing_text f @ (if fg_pending f = None then [] else [CHR 0x0A])"
    "length (filter is_split (fg_completed (flush_framing f))) = length (filter is_split (fg_completed f))"
    "fg_overflow (flush_framing f) = fg_overflow f" "fg_pending (flush_framing f) = None"
  using assms
  by (auto simp: flush_framing_def framing_ok_def framing_text_def held_def bounded_text_def split: option.splits)

text \<open>C39. Framing a Device Inventory log loses and invents nothing: the records, each one that ends at a
  record boundary followed by its line feed and each piece cut at the size bound by nothing, are the
  lines of the log without their carriage returns; every record is UTF-8 text of at most one megabyte;
  the line spans add up to the number of lines; and the overflow count is the number of cut pieces.\<close>

theorem framing_keeps_every_line:
  assumes "list_all valid_text lines" "\<forall>l \<in> set lines. CHR 0x0A \<notin> set l"
  shows "\<exists>f rs. frame_logical_records header None (List.map LineStart lines) = Some f
    \<and> rs = fg_completed (flush_framing f)
    \<and> concat (List.map framed_text rs) = concat (List.map (\<lambda>l. trim_crs l @ [CHR 0x0A]) lines)
    \<and> list_all (\<lambda>r. length (fr_content r) \<le> max_logical_record_bytes \<and> valid_text (fr_content r)) rs
    \<and> sum_list (List.map fr_lines rs) = length lines
    \<and> fg_overflow f = min (length (filter is_split rs)) u32_max"
proof (cases "lines = []")
  case True
  then show ?thesis
    by (auto simp: frame_logical_records_def flush_framing_def)
next
  case False
  obtain f where f: "frame_logical_records header None (List.map LineStart lines) = Some f" "framing_ok f"
      "framing_text f = join [CHR 0x0A] (List.map trim_crs lines)" "fg_pending f \<noteq> None"
    using frame_lines [OF assms(1) False] by blast
  let ?rs = "fg_completed (flush_framing f)"
  note fl = flush_ok [OF f(2)]
  have rs: "frames_lines lines ?rs"
    using fl(1,2) f(3,4) False join_lf [of "List.map trim_crs lines"] by (simp add: frames_lines_def comp_def)
  have "list_all (\<lambda>r. length (fr_content r) \<le> max_logical_record_bytes \<and> valid_text (fr_content r)) ?rs"
    using fl(1) by (auto simp: list_all_iff record_ok_def bounded_text_def)
  moreover have "fg_overflow f = min (length (filter is_split ?rs)) u32_max"
    using f(2) fl(3) by (simp add: framing_ok_def)
  ultimately show ?thesis
    using f(1) rs frames_lines_count [OF rs assms(2)] by (auto simp: frames_lines_def)
qed

theorem framing_keeps_every_line_witness:
  "\<exists>f rs. frame_logical_records (\<lambda>l. prefix ''['' l) None
      (List.map LineStart [''[a] one'', ''more'' @ [CHR 0x0D], [], ''[b] two'']) = Some f
    \<and> rs = fg_completed (flush_framing f)
    \<and> sum_list (List.map fr_lines rs) = 4"
proof -
  let ?ls = "[''[a] one'', ''more'' @ [CHR 0x0D], [], ''[b] two'']"
  have ls: "list_all valid_text ?ls" "\<forall>l \<in> set ?ls. CHR 0x0A \<notin> set l" by (simp_all add: valid_ascii)
  obtain f rs where f: "frame_logical_records (\<lambda>l. prefix ''['' l) None (List.map LineStart ?ls) = Some f"
      "rs = fg_completed (flush_framing f)" and n: "sum_list (List.map fr_lines rs) = length ?ls"
    using framing_keeps_every_line [OF ls, of "\<lambda>l. prefix ''['' l"] by blast
  from n have "sum_list (List.map fr_lines rs) = 4" by simp
  with f show ?thesis by blast
qed

end
