(* ===== verification/TailModel.thy ===== *)
theory TailModel
  imports InventoryFrames TextSeverity FirewallTail ImePublish
begin

text \<open>
  The data of the tail reader (\<open>watcher/tail.rs\<close>) and the parts of \<open>parser/mod.rs\<close> and
  \<open>parser/plain.rs\<close> it calls: parser selections, encodings, the dispatch of lines to a grammar, decoding
  of appended bytes and the splitting of text into lines. The plain-text and the Device Inventory grammars
  are modelled; the other grammars, the error-code search and the UTF-16 decoder of \<open>encoding_rs\<close> are
  parameters.
\<close>

subsection \<open>Parser selections\<close>

datatype parser_kind = KindCcm | KindSimple | KindTimestamped | KindPlain | KindIisW3c | KindWindowsFirewall
  | KindPanther | KindCbs | KindDism | KindReportingEvents | KindMsi | KindPsadtLegacy | KindIntuneMacOs
  | KindIntuneDeviceInventory | KindDhcp | KindBurn | KindPatchMyPcDetection | KindRegistry
  | KindSecureBootLog | KindDnsDebug | KindDnsAudit | KindCmtLog | KindCompanyPortal

datatype parser_implementation = ImplCcm | ImplSimple | ImplGenericTimestamped | ImplIisW3c
  | ImplWindowsFirewall | ImplReportingEvents | ImplPlainText | ImplMsi | ImplPsadtLegacy | ImplIntuneMacOs
  | ImplIntuneDeviceInventory | ImplDhcp | ImplBurn | ImplPatchMyPcDetection | ImplRegistry
  | ImplSecureBootLog | ImplDnsDebug | ImplDnsAudit | ImplCmtLog | ImplCompanyPortal

datatype parser_provenance = Dedicated | Heuristic | Fallback

datatype parse_quality = Structured | SemiStructured | TextFallback

datatype record_framing = PhysicalLine | LogicalRecord

datatype parser_specialization = Ime | IntuneDeviceInventoryHarvester | IntuneDeviceInventoryAdaptor
  | IntuneDeviceInventoryRotationFailure

datatype date_order = MonthFirst | DayFirst

record resolved_parser =
  rp_parser :: parser_kind
  rp_implementation :: parser_implementation
  rp_provenance :: parser_provenance
  rp_quality :: parse_quality
  rp_framing :: record_framing
  rp_date_order :: date_order
  rp_specialization :: "parser_specialization option"

definition plain_text_parser :: resolved_parser where
  "plain_text_parser =
     \<lparr>rp_parser = KindPlain, rp_implementation = ImplPlainText, rp_provenance = Fallback,
      rp_quality = TextFallback, rp_framing = PhysicalLine, rp_date_order = MonthFirst, rp_specialization = None\<rparr>"

definition company_portal_parser :: resolved_parser where
  "company_portal_parser =
     \<lparr>rp_parser = KindCompanyPortal, rp_implementation = ImplCompanyPortal, rp_provenance = Dedicated,
      rp_quality = Structured, rp_framing = LogicalRecord, rp_date_order = MonthFirst, rp_specialization = None\<rparr>"

definition device_inventory_parser :: "inventory_dialect \<Rightarrow> resolved_parser" where
  "device_inventory_parser d =
     (let specialization = (case d of
        Harvester \<Rightarrow> IntuneDeviceInventoryHarvester
      | InventoryAdaptor \<Rightarrow> IntuneDeviceInventoryAdaptor
      | RotationFailure \<Rightarrow> IntuneDeviceInventoryRotationFailure) in
      \<lparr>rp_parser = KindIntuneDeviceInventory, rp_implementation = ImplIntuneDeviceInventory,
       rp_provenance = Dedicated, rp_quality = Structured, rp_framing = LogicalRecord,
       rp_date_order = MonthFirst, rp_specialization = Some specialization\<rparr>)"

definition device_inventory_dialect :: "parser_specialization option \<Rightarrow> inventory_dialect option" where
  "device_inventory_dialect s =
     (case s of
        Some IntuneDeviceInventoryHarvester \<Rightarrow> Some Harvester
      | Some IntuneDeviceInventoryAdaptor \<Rightarrow> Some InventoryAdaptor
      | Some IntuneDeviceInventoryRotationFailure \<Rightarrow> Some RotationFailure
      | _ \<Rightarrow> None)"

definition inventory_logical_dialect :: "resolved_parser \<Rightarrow> inventory_dialect option" where
  "inventory_logical_dialect sel =
     (if rp_framing sel \<noteq> LogicalRecord then None
      else
        (case rp_specialization sel of
           Some IntuneDeviceInventoryHarvester \<Rightarrow> Some Harvester
         | Some IntuneDeviceInventoryAdaptor \<Rightarrow> Some InventoryAdaptor
         | Some IntuneDeviceInventoryRotationFailure \<Rightarrow> Some RotationFailure
         | _ \<Rightarrow> None))"

definition company_portal_logical_framing :: "resolved_parser \<Rightarrow> bool" where
  "company_portal_logical_framing sel \<longleftrightarrow>
     rp_framing sel = LogicalRecord \<and> rp_specialization sel = None \<and> rp_parser sel = KindCompanyPortal"

subsection \<open>Grammars\<close>

record error_code_span =
  ec_start :: nat
  ec_end :: nat
  ec_code :: string

type_synonym tail_entry = "error_code_span inventory_entry"

record 'n tail_env =
  te_inventory :: inventory_env
  te_ime :: "'n ime_env"
  te_grammar :: "string list \<Rightarrow> string \<Rightarrow> resolved_parser \<Rightarrow> tail_entry list \<times> nat"
  te_content_grammar :: "string \<Rightarrow> string \<Rightarrow> resolved_parser \<Rightarrow> tail_entry list \<times> nat"
  te_spans :: "string \<Rightarrow> error_code_span list"
  te_utf16 :: "bool \<Rightarrow> string \<Rightarrow> string"

definition annotate_error_code_spans :: "'n tail_env \<Rightarrow> tail_entry list \<Rightarrow> tail_entry list" where
  "annotate_error_code_spans env =
     List.map (\<lambda>e. let spans = te_spans env (message e) in if spans \<noteq> [] then e\<lparr>iv_spans := spans\<rparr> else e)"

definition plain_line_entry :: "u64 \<Rightarrow> u32 \<Rightarrow> string \<Rightarrow> string \<Rightarrow> tail_entry" where
  "plain_line_entry i n path line =
     \<lparr>entry_id = i, line_number = n, message = line, component = None, timestamp = None,
      entry_severity = detect_severity_from_text line, source_file = None, file_path = path,
      iv_display = None, iv_thread = None, iv_thread_display = None, iv_offset = None, iv_spans = []\<rparr>"

fun plain_rows_from :: "string \<Rightarrow> nat \<Rightarrow> u64 \<Rightarrow> string list \<Rightarrow> tail_entry list" where
  "plain_rows_from path i k [] = []"
| "plain_rows_from path i k (line # lines) =
     (if str_trim line = [] then plain_rows_from path (i + 1) k lines
      else plain_line_entry k (of_nat (i + 1)) path line # plain_rows_from path (i + 1) (k + 1) lines)"

definition plain_parse_lines :: "string list \<Rightarrow> string \<Rightarrow> tail_entry list \<times> nat" where
  "plain_parse_lines lines path = (plain_rows_from path 0 0 lines, 0)"

definition parse_lines_with_selection ::
    "'n tail_env \<Rightarrow> string list \<Rightarrow> string \<Rightarrow> resolved_parser \<Rightarrow> (tail_entry list \<times> nat) option" where
  "parse_lines_with_selection env lines path sel =
     map_option (\<lambda>(entries, errors). (annotate_error_code_spans env entries, errors))
       (case rp_implementation sel of
          ImplWindowsFirewall \<Rightarrow> Some (te_content_grammar env (join [CHR 0x0A] lines) path sel)
        | ImplPlainText \<Rightarrow> Some (plain_parse_lines lines path)
        | ImplIntuneDeviceInventory \<Rightarrow>
            (case device_inventory_dialect (rp_specialization sel) of
               Some d \<Rightarrow> parse_inventory_lines (te_inventory env) path lines d
             | None \<Rightarrow> Some (te_grammar env lines path sel))
        | ImplRegistry \<Rightarrow> Some ([], 0)
        | ImplDnsAudit \<Rightarrow> Some ([], 0)
        | _ \<Rightarrow> Some (te_grammar env lines path sel))"

definition parse_content_with_selection ::
    "'n tail_env \<Rightarrow> string \<Rightarrow> string \<Rightarrow> resolved_parser \<Rightarrow> (tail_entry list \<times> nat) option" where
  "parse_content_with_selection env content path sel =
     (if rp_implementation sel = ImplWindowsFirewall then Some (te_content_grammar env content path sel)
      else if rp_implementation sel = ImplCcm
      then (let (entries, errors) = te_content_grammar env content path sel in
            Some (annotate_error_code_spans env entries, errors))
      else
        (case (rp_implementation sel, device_inventory_dialect (rp_specialization sel)) of
           (ImplIntuneDeviceInventory, Some d) \<Rightarrow>
             map_option (\<lambda>(entries, errors). (annotate_error_code_spans env entries, errors))
               (parse_inventory_content (te_inventory env) path content d)
         | _ \<Rightarrow> parse_lines_with_selection env (str_lines content) path sel))"

subsection \<open>Encodings\<close>

datatype file_encoding = FileUtf8 | FileUtf16Le | FileUtf16Be

definition bom_of :: "nat list \<Rightarrow> string" where
  "bom_of = List.map char_of"

definition detect_encoding :: "string \<Rightarrow> file_encoding" where
  "detect_encoding bytes =
     (if prefix (bom_of [0xFF, 0xFE]) bytes then FileUtf16Le
      else if prefix (bom_of [0xFE, 0xFF]) bytes then FileUtf16Be else FileUtf8)"

definition strip_bom :: "nat list \<Rightarrow> string \<Rightarrow> string" where
  "strip_bom bom bytes = (if prefix (bom_of bom) bytes then drop (length bom) bytes else bytes)"

text \<open>\<open>replace("\r\n", "\n")\<close>\<close>

fun replace_crlf :: "string \<Rightarrow> string" where
  "replace_crlf [] = []"
| "replace_crlf [c] = [c]"
| "replace_crlf (c # d # s) =
     (if c = CHR 0x0D \<and> d = CHR 0x0A then CHR 0x0A # replace_crlf s else c # replace_crlf (d # s))"

text \<open>\<open>decode_bytes\<close> for the two encodings the tail reader calls it with.\<close>

definition decode_utf16 :: "'n tail_env \<Rightarrow> file_encoding \<Rightarrow> string \<Rightarrow> string" where
  "decode_utf16 env e bytes =
     replace_crlf (if e = FileUtf16Le then te_utf16 env True (strip_bom [0xFF, 0xFE] bytes)
                   else te_utf16 env False (strip_bom [0xFE, 0xFF] bytes))"

text \<open>\<open>String::from_utf8\<close>: the longest valid text and the unfinished character after it, or \<open>None\<close> for
  bytes that begin no text.\<close>

definition from_utf8 :: "string \<Rightarrow> (string \<times> string) option" where
  "from_utf8 bytes =
     map_option (\<lambda>(cs, rest). (concat (List.map fst cs), rest)) (decode_loop (\<lambda>c. [c]) Utf8 0 bytes)"

subsection \<open>Lines\<close>

definition collect_complete_lines :: "string \<Rightarrow> string \<Rightarrow> string list \<times> string" where
  "collect_complete_lines s fragment =
     (let ends_with_newline = (s \<noteq> [] \<and> last s = CHR 0x0A); lines = str_lines s in
      if \<not> ends_with_newline \<and> lines \<noteq> [] then (butlast lines, fragment @ last lines) else (lines, fragment))"

text \<open>\<open>None\<close> when the scan for a complete prefix does not return.\<close>

definition collect_complete_ime_lines :: "'n ime_env \<Rightarrow> string \<Rightarrow> string \<Rightarrow> (string list \<times> string) option" where
  "collect_complete_ime_lines env s fragment =
     map_option (\<lambda>cutoff. (str_lines (take cutoff s), if cutoff < length s then fragment @ drop cutoff s else fragment))
       (complete_ime_prefix_len env s)"

subsection \<open>Company Portal records\<close>

definition max_pending_logical_record_bytes :: nat where
  "max_pending_logical_record_bytes = 1048576"

definition looks_like_record_start :: "string \<Rightarrow> bool" where
  "looks_like_record_start line \<longleftrightarrow>
     11 \<le> length line \<and> list_all is_digit (take 4 line) \<and> line ! 4 = CHR ''-''
     \<and> list_all is_digit (slice line 5 7) \<and> line ! 7 = CHR ''-'' \<and> list_all is_digit (slice line 8 10)
     \<and> line ! 10 = CHR ''T''"

record portal_framing =
  pf_completed :: "framed_record list"
  pf_pending :: "string option"
  pf_overflow :: nat

text \<open>Every round cuts bytes off a record, so its length is fuel enough.\<close>

fun cut_oversized :: "nat \<Rightarrow> nat \<Rightarrow> portal_framing \<Rightarrow> portal_framing" where
  "cut_oversized 0 max_bytes f = f"
| "cut_oversized (Suc n) max_bytes f =
     (case pf_pending f of
        Some record \<Rightarrow>
          if max_bytes < length record then
            (let split_at = floor_boundary record (min max_bytes (length record));
                 remainder = drop split_at record in
             cut_oversized n max_bytes
               \<lparr>pf_completed = pf_completed f @ [split_record (take split_at record)],
                pf_pending = (if remainder \<noteq> [] then Some remainder else None),
                pf_overflow = sat_add32 (pf_overflow f) 1\<rparr>)
          else f
      | None \<Rightarrow> f)"

definition portal_line :: "nat \<Rightarrow> string \<Rightarrow> portal_framing \<Rightarrow> portal_framing" where
  "portal_line max_bytes raw f =
     (let line = trim_end raw;
          f = (if looks_like_record_start line
               then (case pf_pending f of
                       Some record \<Rightarrow> f\<lparr>pf_completed := pf_completed f @ [complete_record record], pf_pending := None\<rparr>
                     | None \<Rightarrow> f)
               else f);
          record = (case pf_pending f of Some record \<Rightarrow> record @ CHR 0x0A # line | None \<Rightarrow> line) in
      cut_oversized (length record) max_bytes (f\<lparr>pf_pending := Some record\<rparr>))"

definition frame_company_portal_logical_records :: "string option \<Rightarrow> string list \<Rightarrow> nat \<Rightarrow> portal_framing" where
  "frame_company_portal_logical_records prior lines max_bytes =
     fold (portal_line max_bytes) lines \<lparr>pf_completed = [], pf_pending = prior, pf_overflow = 0\<rparr>"

end
