(* ===== verification/TailReader.thy ===== *)
theory TailReader
  imports TailModel
begin

text \<open>
  The tail reader of \<open>watcher/tail.rs\<close>: one read of a growing log, from the change of its generation
  through decoding, framing and parsing to the numbers of its entries, and the turns of a watcher. What
  opening and reading the file gives is a parameter; \<open>Instant::now()\<close> is the time of the call, in
  nanoseconds. A failed \<open>assert!\<close> and a scan that does not return are \<open>None\<close>.
\<close>

subsection \<open>State\<close>

record initial_record =
  ir_entry_id :: u64
  ir_entry_line :: u32
  ir_next_line :: u32
  ir_utf16_len :: nat

record amendment =
  am_entry_id :: u64
  am_entry_line :: u32
  am_start_line :: u32
  am_end_line :: u32
  am_utf16_start :: nat
  am_suffix :: string
  am_spans :: "error_code_span list"

record tail_batch =
  tb_entries :: "tail_entry list"
  tb_amendments :: "amendment list"
  tb_errors :: nat
  tb_through :: "u32 option"
  tb_reset :: bool

definition empty_batch :: "bool \<Rightarrow> tail_batch" where
  "empty_batch reset = \<lparr>tb_entries = [], tb_amendments = [], tb_errors = 0, tb_through = None, tb_reset = reset\<rparr>"

text \<open>\<open>max\<close> of two options, \<open>None\<close> below every value.\<close>

definition opt_max :: "u32 option \<Rightarrow> u32 option \<Rightarrow> u32 option" where
  "opt_max a b = (case (a, b) of (Some x, Some y) \<Rightarrow> Some (max x y) | (None, _) \<Rightarrow> b | (_, None) \<Rightarrow> a)"

definition batch_append :: "tail_batch \<Rightarrow> tail_batch \<Rightarrow> tail_batch" where
  "batch_append a b =
     \<lparr>tb_entries = tb_entries a @ tb_entries b, tb_amendments = tb_amendments a @ tb_amendments b,
      tb_errors = sat_add32 (tb_errors a) (tb_errors b), tb_through = opt_max (tb_through a) (tb_through b),
      tb_reset = (tb_reset a \<or> tb_reset b)\<rparr>"

definition is_reportable :: "tail_batch \<Rightarrow> bool" where
  "is_reportable b \<longleftrightarrow> tb_reset b \<or> tb_amendments b \<noteq> [] \<or> tb_entries b \<noteq> [] \<or> 0 < tb_errors b \<or> tb_through b \<noteq> None"

record pending_initial =
  pi_entry_id :: u64
  pi_entry_line :: u32
  pi_next_line :: u32
  pi_utf16_len :: nat
  pi_retained :: nat
  pi_suffix :: string
  pi_start_line :: "u32 option"
  pi_end_line :: "u32 option"
  pi_updated :: nat
  pi_capped :: bool
  pi_cap_reported :: bool

definition new_pending_initial :: "nat \<Rightarrow> initial_record \<Rightarrow> pending_initial" where
  "new_pending_initial now i =
     \<lparr>pi_entry_id = ir_entry_id i, pi_entry_line = ir_entry_line i, pi_next_line = ir_next_line i,
      pi_utf16_len = ir_utf16_len i, pi_retained = 0, pi_suffix = [], pi_start_line = None,
      pi_end_line = None, pi_updated = now, pi_capped = False, pi_cap_reported = False\<rparr>"

record pending_logical =
  pl_content :: string
  pl_updated :: nat
  pl_selection :: resolved_parser

datatype pending_reset = Truncated | Replaced

record decoded_tail =
  dt_text :: string
  dt_byte :: "char option"
  dt_utf8 :: string
  dt_utf8_selection :: "resolved_parser option"

record 'id tail_reader =
  tr_path :: string
  tr_offset :: nat
  tr_identity :: "'id option"
  tr_reset :: "pending_reset option"
  tr_selection :: resolved_parser
  tr_next_id :: u64
  tr_next_line :: u32
  tr_fragment :: string
  tr_fragment_selection :: "(resolved_parser \<times> nat) option"
  tr_line_continuation :: bool
  tr_pending :: "pending_logical option"
  tr_initial :: "pending_initial option"
  tr_discarding :: bool
  tr_encoding :: file_encoding
  tr_byte :: "char option"
  tr_utf8 :: string
  tr_utf8_selection :: "resolved_parser option"

text \<open>\<open>encode_utf16().count()\<close>: one unit for each character, one more outside the basic plane.\<close>

definition utf16_len :: "string \<Rightarrow> nat" where
  "utf16_len s = length (filter (\<lambda>c. \<not> is_cont c) s) + length (filter (\<lambda>c. 240 \<le> byte c) s)"

definition supports_parser :: "resolved_parser \<Rightarrow> bool" where
  "supports_parser sel \<longleftrightarrow> rp_parser sel = KindCompanyPortal \<and> rp_framing sel = LogicalRecord"

definition from_entry :: "tail_entry \<Rightarrow> u32 \<Rightarrow> resolved_parser \<Rightarrow> initial_record option" where
  "from_entry e total_lines sel =
     (if \<not> supports_parser sel then None
      else Some \<lparr>ir_entry_id = entry_id e, ir_entry_line = line_number e,
                 ir_next_line = sat_add_u32 total_lines 1, ir_utf16_len = utf16_len (message e)\<rparr>)"

text \<open>\<open>head\<close> is what reading the first three bytes of the path gives, \<open>[]\<close> where it fails.\<close>

definition new_tail_reader ::
    "string \<Rightarrow> nat \<Rightarrow> resolved_parser \<Rightarrow> u64 \<Rightarrow> u32 \<Rightarrow> initial_record option \<Rightarrow> string \<Rightarrow> nat \<Rightarrow> 'id tail_reader" where
  "new_tail_reader path off sel nid nline initial head now =
     \<lparr>tr_path = path, tr_offset = off, tr_identity = None, tr_reset = None, tr_selection = sel,
      tr_next_id = nid, tr_next_line = nline, tr_fragment = [], tr_fragment_selection = None,
      tr_line_continuation = False, tr_pending = None,
      tr_initial = map_option (new_pending_initial now) initial, tr_discarding = False,
      tr_encoding = detect_encoding head, tr_byte = None, tr_utf8 = [], tr_utf8_selection = None\<rparr>"

subsection \<open>Numbers of entries\<close>

text \<open>\<open>assign_framed_entry_identity\<close>; \<open>assign_physical_entry_identity\<close> has the same body.\<close>

fun number_entries :: "u64 \<Rightarrow> u32 \<Rightarrow> tail_entry list \<Rightarrow> tail_entry list" where
  "number_entries i n [] = []"
| "number_entries i n (e # es) =
     e\<lparr>entry_id := i, line_number := sat_add_u32 n (sat_sub_u32 (line_number e) 1)\<rparr>
     # number_entries (i + 1) n es"

definition assign_entry_identity ::
    "tail_entry list \<Rightarrow> nat \<Rightarrow> 'id tail_reader \<Rightarrow> tail_entry list \<times> 'id tail_reader" where
  "assign_entry_identity es physical_lines r =
     (number_entries (tr_next_id r) (tr_next_line r) es,
      r\<lparr>tr_next_id := tr_next_id r + of_nat (length es),
        tr_next_line := sat_add_u32 (tr_next_line r) (of_nat physical_lines)\<rparr>)"

definition last_line :: "'id tail_reader \<Rightarrow> u32" where
  "last_line r = sat_sub_u32 (tr_next_line r) 1"

definition through_after :: "nat \<Rightarrow> 'id tail_reader \<Rightarrow> u32 option" where
  "through_after consumed r = (if 0 < consumed \<and> 0 < last_line r then Some (last_line r) else None)"

subsection \<open>Device Inventory\<close>

definition parse_logical_records ::
    "'n tail_env \<Rightarrow> framed_record list \<Rightarrow> inventory_dialect \<Rightarrow> nat \<Rightarrow> 'id tail_reader \<Rightarrow> tail_batch \<times> 'id tail_reader" where
  "parse_logical_records env records d framing_errors r =
     (let physical_lines = fold (\<lambda>rec n. sat_add32 n (fr_lines rec)) records 0;
          (entries, projection_errors) = parse_framed_records (te_inventory env) (tr_path r) records d;
          entries = annotate_error_code_spans env entries;
          (entries, r) = assign_entry_identity entries physical_lines r in
      (\<lparr>tb_entries = entries, tb_amendments = [], tb_errors = sat_add32 framing_errors projection_errors,
        tb_through = through_after physical_lines r, tb_reset = False\<rparr>, r))"

definition frame_inventory_segments ::
    "'n tail_env \<Rightarrow> nat \<Rightarrow> inventory_dialect \<Rightarrow> resolved_parser \<Rightarrow> record_segment list \<Rightarrow> 'id tail_reader
     \<Rightarrow> (tail_batch \<times> 'id tail_reader) option" where
  "frame_inventory_segments env now d sel segs r =
     do { framed \<leftarrow> frame_logical_records (is_record_header (te_inventory env) d)
                       (map_option pl_content (tr_pending r)) segs;
          Some (parse_logical_records env (fg_completed framed) d (fg_overflow framed)
            (r\<lparr>tr_pending := map_option (\<lambda>s. \<lparr>pl_content = s, pl_updated = now, pl_selection = sel\<rparr>)
                              (fg_pending framed)\<rparr>)) }"

text \<open>The fragment loop of \<open>process_inventory_line_segment\<close>: it runs once, or a second time to find nothing left.\<close>

definition fragment_round ::
    "'n tail_env \<Rightarrow> nat \<Rightarrow> inventory_dialect \<Rightarrow> resolved_parser \<Rightarrow> string \<Rightarrow> 'id tail_reader
     \<Rightarrow> (tail_batch \<times> 'id tail_reader) option" where
  "fragment_round env now d sel remaining r =
     (if remaining = [] then Some (empty_batch False, r)
      else
        (let logical_bytes = (case tr_pending r of None \<Rightarrow> 0 | Some p \<Rightarrow> length (pl_content p));
             separator_bytes = (if tr_pending r \<noteq> None then 1 else 0);
             available = max_logical_record_bytes - logical_bytes - separator_bytes - length (tr_fragment r);
             n = floor_boundary remaining (min available (length remaining));
             r = (if 0 < n then r\<lparr>tr_fragment := tr_fragment r @ take n remaining,
                                  tr_fragment_selection := Some (sel, now)\<rparr> else r);
             remaining = drop n remaining in
         if remaining = [] then Some (empty_batch False, r)
         else
           do { (b1, r) \<leftarrow> frame_inventory_segments env now d sel [LineStart (tr_fragment r)] (r\<lparr>tr_fragment := []\<rparr>);
                (b2, r) \<leftarrow> frame_inventory_segments env now d sel [LineContinuation remaining]
                             (r\<lparr>tr_line_continuation := True\<rparr>);
                Some (batch_append (batch_append (empty_batch False) b1) b2, r) }))"

definition process_inventory_line_segment ::
    "'n tail_env \<Rightarrow> nat \<Rightarrow> inventory_dialect \<Rightarrow> resolved_parser \<Rightarrow> string \<Rightarrow> bool \<Rightarrow> 'id tail_reader
     \<Rightarrow> (tail_batch \<times> 'id tail_reader) option" where
  "process_inventory_line_segment env now d sel raw line_complete r =
     (let content = (if line_complete then trim_crs raw else raw) in
      if tr_line_continuation r then
        do { (b, r) \<leftarrow> frame_inventory_segments env now d sel [LineContinuation content] r;
             Some (b, if line_complete then r\<lparr>tr_line_continuation := False, tr_fragment_selection := None\<rparr>
                      else r\<lparr>tr_fragment_selection := Some (sel, now)\<rparr>) }
      else if line_complete \<and> tr_fragment r = [] then
        do { (b, r) \<leftarrow> frame_inventory_segments env now d sel [LineStart content] r;
             Some (b, r\<lparr>tr_fragment_selection := None\<rparr>) }
      else
        do { (b, r) \<leftarrow> fragment_round env now d sel content r;
             (b, r) \<leftarrow> (if line_complete \<and> \<not> tr_line_continuation r
                         then do { (c, r) \<leftarrow> frame_inventory_segments env now d sel
                                                [LineStart (trim_crs (tr_fragment r))] (r\<lparr>tr_fragment := []\<rparr>);
                                   Some (batch_append b c, r) }
                         else Some (b, r));
             Some (b, if line_complete then r\<lparr>tr_line_continuation := False, tr_fragment_selection := None\<rparr>
                      else if content \<noteq> [] then r\<lparr>tr_fragment_selection := Some (sel, now)\<rparr>
                      else r) })"

fun process_inventory_segments ::
    "'n tail_env \<Rightarrow> nat \<Rightarrow> inventory_dialect \<Rightarrow> resolved_parser \<Rightarrow> string list \<Rightarrow> tail_batch \<Rightarrow> 'id tail_reader
     \<Rightarrow> (tail_batch \<times> 'id tail_reader) option" where
  "process_inventory_segments env now d sel [] batch r = Some (batch, r)"
| "process_inventory_segments env now d sel (seg # segs) batch r =
     do { (b, r) \<leftarrow> process_inventory_line_segment env now d sel
                       (if seg \<noteq> [] \<and> last seg = CHR 0x0A then butlast seg else seg)
                       (seg \<noteq> [] \<and> last seg = CHR 0x0A) r;
          process_inventory_segments env now d sel segs (batch_append batch b) r }"

definition process_inventory_text ::
    "'n tail_env \<Rightarrow> nat \<Rightarrow> inventory_dialect \<Rightarrow> resolved_parser \<Rightarrow> string \<Rightarrow> 'id tail_reader
     \<Rightarrow> (tail_batch \<times> 'id tail_reader) option" where
  "process_inventory_text env now d sel s r =
     process_inventory_segments env now d sel (split_inclusive s) (empty_batch False) r"

definition flush_pending_text :: "'n tail_env \<Rightarrow> 'id tail_reader \<Rightarrow> (tail_batch \<times> 'id tail_reader) option" where
  "flush_pending_text env r =
     (let held = tr_pending r; fragment = tr_fragment r;
          selection = (case held of Some p \<Rightarrow> Some (pl_selection p) | None \<Rightarrow> map_option fst (tr_fragment_selection r));
          r = r\<lparr>tr_pending := None, tr_fragment := [], tr_fragment_selection := None\<rparr> in
      case selection of
        None \<Rightarrow> Some (empty_batch False, r)
      | Some sel \<Rightarrow>
          (case inventory_logical_dialect sel of
             None \<Rightarrow> Some (empty_batch False, r)
           | Some d \<Rightarrow>
               (let header = is_record_header (te_inventory env) d in
                do { (pending_content, records, overflow) \<leftarrow>
                       (if fragment \<noteq> []
                        then do { framed \<leftarrow> frame_logical_records header (map_option pl_content held) [LineStart fragment];
                                  Some (fg_pending framed, fg_completed framed, fg_overflow framed) }
                        else Some (map_option pl_content held, [], 0));
                     f \<leftarrow> frame_logical_records header pending_content [];
                     let framed = flush_framing f in
                     Some (parse_logical_records env (records @ fg_completed framed) d
                             (sat_add32 overflow (fg_overflow framed)) (r\<lparr>tr_line_continuation := False\<rparr>)) })))"

end
