(* ===== verification/TailRead.thy ===== *)
theory TailRead
  imports TailReader
begin

text \<open>
  The rest of the tail reader: continuations of the last Company Portal record shown at open, Company
  Portal records, the end of pending input, decoding, \<open>read_new_entries\<close> and the turns of a watcher.
\<close>

subsection \<open>Continuations of the initial record\<close>

definition append_initial_continuation ::
    "pending_initial \<Rightarrow> string \<Rightarrow> nat \<Rightarrow> nat \<Rightarrow> pending_initial \<times> bool" where
  "append_initial_continuation p line now max_retained =
     (let n = pi_next_line p;
          p = p\<lparr>pi_next_line := sat_add_u32 n 1, pi_updated := now\<rparr> in
      if pi_capped p then (p, False)
      else
        (let required = 1 + length line;
             accepted = min required (max_retained - pi_retained p);
             k = floor_boundary line (min (accepted - 1) (length line));
             p = (if 0 < accepted
                  then p\<lparr>pi_start_line := (if pi_start_line p = None then Some n else pi_start_line p),
                         pi_end_line := Some n,
                         pi_suffix := pi_suffix p @ CHR 0x0A # take k line,
                         pi_retained := pi_retained p + 1 + k\<rparr>
                  else p) in
         if accepted < required then (p\<lparr>pi_capped := True\<rparr>, True) else (p, False)))"

fun append_continuations :: "string list \<Rightarrow> nat \<Rightarrow> pending_initial \<times> bool \<Rightarrow> pending_initial \<times> bool" where
  "append_continuations [] now (p, newly) = (p, newly)"
| "append_continuations (line # lines) now (p, newly) =
     (let (p, capped) = append_initial_continuation p (trim_end line) now max_pending_logical_record_bytes in
      append_continuations lines now (p, newly \<or> capped))"

text \<open>The early return for a suffix without line numbers has taken the first of them.\<close>

definition take_initial_amendment :: "'n tail_env \<Rightarrow> 'id tail_reader \<Rightarrow> amendment option \<times> 'id tail_reader" where
  "take_initial_amendment env r =
     (case tr_initial r of
        None \<Rightarrow> (None, r)
      | Some p \<Rightarrow>
          if pi_suffix p = [] then (None, r)
          else
            (case pi_start_line p of
               None \<Rightarrow> (None, r)
             | Some a \<Rightarrow>
                 (case pi_end_line p of
                    None \<Rightarrow> (None, r\<lparr>tr_initial := Some (p\<lparr>pi_start_line := None\<rparr>)\<rparr>)
                  | Some z \<Rightarrow>
                      (let suffix = pi_suffix p; n = pi_utf16_len p in
                       (Some \<lparr>am_entry_id = pi_entry_id p, am_entry_line = pi_entry_line p, am_start_line = a,
                              am_end_line = z, am_utf16_start = n, am_suffix = suffix,
                              am_spans = List.map (\<lambda>sp. sp\<lparr>ec_start := ec_start sp + n, ec_end := ec_end sp + n\<rparr>)
                                           (te_spans env suffix)\<rparr>,
                        r\<lparr>tr_initial := Some (p\<lparr>pi_start_line := None, pi_end_line := None, pi_suffix := [],
                                             pi_utf16_len := n + utf16_len suffix\<rparr>)\<rparr>)))))"

definition push_amendment :: "'n tail_env \<Rightarrow> tail_batch \<times> 'id tail_reader \<Rightarrow> tail_batch \<times> 'id tail_reader" where
  "push_amendment env br =
     (let (batch, r) = br; (am, r) = take_initial_amendment env r in
      (batch\<lparr>tb_amendments := tb_amendments batch @ opt_list am\<rparr>, r))"

fun first_header :: "string list \<Rightarrow> nat option" where
  "first_header [] = None"
| "first_header (line # lines) =
     (if looks_like_record_start (trim_end line) then Some 0 else map_option Suc (first_header lines))"

text \<open>Marks the first report of the cap, and counts it as a parse error.\<close>

definition report_cap :: "bool \<Rightarrow> pending_initial \<Rightarrow> tail_batch \<Rightarrow> pending_initial \<times> tail_batch" where
  "report_cap newly p batch =
     (if newly \<and> \<not> pi_cap_reported p then (p\<lparr>pi_cap_reported := True\<rparr>, batch\<lparr>tb_errors := 1\<rparr>) else (p, batch))"

definition consume_initial_company_portal_lines ::
    "'n tail_env \<Rightarrow> string list \<Rightarrow> nat \<Rightarrow> 'id tail_reader \<Rightarrow> ((tail_batch \<times> nat option) \<times> 'id tail_reader) option" where
  "consume_initial_company_portal_lines env lines now r =
     (case tr_initial r of
        None \<Rightarrow> None
      | Some p \<Rightarrow>
          (let first = first_header lines;
               count = (case first of None \<Rightarrow> length lines | Some n \<Rightarrow> n);
               (p, newly) = append_continuations (take count lines) now (p, False);
               r = r\<lparr>tr_next_line := pi_next_line p\<rparr>;
               batch = (if 0 < count then (empty_batch False)\<lparr>tb_through := Some (last_line r)\<rparr> else empty_batch False);
               (p, batch) = report_cap newly p batch;
               r = r\<lparr>tr_initial := Some p\<rparr>;
               (batch, r) = (if newly \<or> first \<noteq> None then push_amendment env (batch, r) else (batch, r));
               r = (if first \<noteq> None then r\<lparr>tr_initial := None\<rparr> else r) in
           Some ((batch, first), r)))"

definition enforce_initial_fragment_bound ::
    "'n tail_env \<Rightarrow> nat \<Rightarrow> 'id tail_reader \<Rightarrow> tail_batch \<times> 'id tail_reader" where
  "enforce_initial_fragment_bound env now r =
     (let retained = (case tr_initial r of None \<Rightarrow> 0 | Some p \<Rightarrow> pi_retained p);
          pending_bytes = retained + (if tr_fragment r \<noteq> [] then 1 else 0) + length (tr_fragment r) in
      if pending_bytes \<le> max_pending_logical_record_bytes then (empty_batch False, r)
      else
        (let fragment = tr_fragment r;
             r = r\<lparr>tr_fragment := [], tr_fragment_selection := None\<rparr>;
             (batch, r) =
               (case tr_initial r of
                  None \<Rightarrow> (empty_batch False, r)
                | Some p \<Rightarrow>
                    (let (p, newly) = append_initial_continuation p fragment now max_pending_logical_record_bytes;
                         r = r\<lparr>tr_next_line := pi_next_line p\<rparr>;
                         (p, batch) = report_cap newly p ((empty_batch False)\<lparr>tb_through := Some (last_line r)\<rparr>) in
                     (batch, r\<lparr>tr_initial := Some p\<rparr>)));
             (batch, r) = push_amendment env (batch, r) in
         (batch, r\<lparr>tr_discarding := True\<rparr>)))"

subsection \<open>Company Portal records\<close>

fun parse_portal_records ::
    "'n tail_env \<Rightarrow> framed_record list \<Rightarrow> resolved_parser \<Rightarrow> tail_entry list \<times> nat \<times> nat \<Rightarrow> 'id tail_reader
     \<Rightarrow> ((tail_entry list \<times> nat \<times> nat) \<times> 'id tail_reader) option" where
  "parse_portal_records env [] sel acc r = Some (acc, r)"
| "parse_portal_records env (rec # records) sel (entries, errors, consumed) r =
     do { (record_entries, record_errors) \<leftarrow> parse_content_with_selection env (fr_content rec) (tr_path r) sel;
          let (record_entries, r) = assign_entry_identity record_entries (fr_lines rec) r in
          parse_portal_records env records sel
            (entries @ record_entries, sat_add32 errors record_errors, sat_add32 consumed (fr_lines rec)) r }"

definition parse_company_portal_records ::
    "'n tail_env \<Rightarrow> framed_record list \<Rightarrow> resolved_parser \<Rightarrow> nat \<Rightarrow> 'id tail_reader
     \<Rightarrow> (tail_batch \<times> 'id tail_reader) option" where
  "parse_company_portal_records env records sel framing_errors r =
     map_option (\<lambda>((entries, errors, consumed), r).
         (\<lparr>tb_entries = entries, tb_amendments = [], tb_errors = errors,
           tb_through = through_after consumed r, tb_reset = False\<rparr>, r))
       (parse_portal_records env records sel ([], framing_errors, 0) r)"

text \<open>The first half: a fragment that continues the initial record is consumed, and what is pending for
  that record is published. The fragment that is left, with its selection, is returned.\<close>

definition flush_initial ::
    "'n tail_env \<Rightarrow> nat \<Rightarrow> string \<Rightarrow> (resolved_parser \<times> nat) option \<Rightarrow> 'id tail_reader
     \<Rightarrow> (tail_batch \<times> string \<times> (resolved_parser \<times> nat) option) \<times> 'id tail_reader" where
  "flush_initial env now fragment fragment_selection r =
     (if tr_initial r = None then ((empty_batch False, fragment, fragment_selection), r)
      else
        (let (batch, fragment, fragment_selection, r) =
               (if fragment = [] then (empty_batch False, fragment, fragment_selection, r)
                else
                  (case consume_initial_company_portal_lines env [fragment] now r of
                     None \<Rightarrow> (empty_batch False, fragment, fragment_selection, r)
                   | Some ((b, remaining_start), r) \<Rightarrow>
                       if remaining_start = Some 0 then (batch_append (empty_batch False) b, fragment, fragment_selection, r)
                       else (batch_append (empty_batch False) b, [], None, r)));
             (batch, r) = push_amendment env (batch, r) in
         ((batch, fragment, fragment_selection), r)))"

definition flush_pending_logical_record ::
    "'n tail_env \<Rightarrow> nat \<Rightarrow> 'id tail_reader \<Rightarrow> (tail_batch \<times> 'id tail_reader) option" where
  "flush_pending_logical_record env now r =
     (let r = (if tr_initial r \<noteq> None \<and> \<not> supports_parser (tr_selection r)
               then r\<lparr>tr_initial := None, tr_discarding := False\<rparr> else r);
          fragment = tr_fragment r; fragment_selection = tr_fragment_selection r;
          r = r\<lparr>tr_fragment := [], tr_fragment_selection := None\<rparr>;
          ((batch, fragment, fragment_selection), r) = flush_initial env now fragment fragment_selection r;
          held = tr_pending r;
          r = r\<lparr>tr_pending := None\<rparr> in
      case (case held of Some p \<Rightarrow> Some (pl_selection p) | None \<Rightarrow> map_option fst fragment_selection) of
        None \<Rightarrow> Some (batch, r)
      | Some sel \<Rightarrow>
          if \<not> company_portal_logical_framing sel then Some (batch, r)
          else
            (let (records, overflow) =
               (if fragment = []
                then (case held of None \<Rightarrow> [] | Some p \<Rightarrow> [complete_record (pl_content p)], 0)
                else
                  (let f = frame_company_portal_logical_records (map_option pl_content held) [fragment]
                             max_pending_logical_record_bytes in
                   (pf_completed f @ opt_list (map_option complete_record (pf_pending f)), pf_overflow f))) in
             do { (b, r) \<leftarrow> parse_company_portal_records env records sel overflow r;
                  Some (batch_append batch b, r) }))"

definition enforce_unterminated_logical_bound ::
    "'n tail_env \<Rightarrow> resolved_parser \<Rightarrow> nat \<Rightarrow> 'id tail_reader \<Rightarrow> (tail_batch \<times> 'id tail_reader) option" where
  "enforce_unterminated_logical_bound env sel now r =
     (let pending_len = (case tr_pending r of None \<Rightarrow> 0 | Some p \<Rightarrow> length (pl_content p));
          pending_bytes = pending_len + length (tr_fragment r)
                          + (if 0 < pending_len \<and> tr_fragment r \<noteq> [] then 1 else 0) in
      if pending_bytes \<le> max_pending_logical_record_bytes then Some (empty_batch False, r)
      else
        (let f = frame_company_portal_logical_records (map_option pl_content (tr_pending r)) [tr_fragment r]
                   max_pending_logical_record_bytes;
             fragment = (case pf_pending f of None \<Rightarrow> [] | Some s \<Rightarrow> s);
             r = r\<lparr>tr_pending := None, tr_fragment := fragment,
                   tr_fragment_selection := (if fragment \<noteq> [] then Some (sel, now) else None)\<rparr> in
         parse_company_portal_records env (pf_completed f) sel (pf_overflow f) r))"

subsection \<open>Ends of input\<close>

definition pending_parser_selection_changed :: "'id tail_reader \<Rightarrow> bool" where
  "pending_parser_selection_changed r \<longleftrightarrow>
     (case tr_pending r of None \<Rightarrow> False | Some p \<Rightarrow> pl_selection p \<noteq> tr_selection r)
     \<or> (case tr_fragment_selection r of None \<Rightarrow> False | Some (sel, _) \<Rightarrow> sel \<noteq> tr_selection r)
     \<or> (case tr_utf8_selection r of None \<Rightarrow> False | Some sel \<Rightarrow> sel \<noteq> tr_selection r)
     \<or> (tr_initial r \<noteq> None \<and> \<not> supports_parser (tr_selection r))"

definition debounce_nanos :: nat where
  "debounce_nanos = 250000000"

definition company_portal_debounce_elapsed :: "nat \<Rightarrow> 'id tail_reader \<Rightarrow> bool" where
  "company_portal_debounce_elapsed now r \<longleftrightarrow>
     (let times =
        (case tr_pending r of
           Some p \<Rightarrow> if company_portal_logical_framing (pl_selection p) then [pl_updated p] else [] | None \<Rightarrow> [])
        @ (case tr_initial r of Some p \<Rightarrow> if pi_suffix p \<noteq> [] then [pi_updated p] else [] | None \<Rightarrow> [])
        @ (case tr_fragment_selection r of
             Some (sel, updated) \<Rightarrow> if company_portal_logical_framing sel then [updated] else [] | None \<Rightarrow> []) in
      times \<noteq> [] \<and> debounce_nanos \<le> now - fold max times 0)"

text \<open>The selection that owns what is pending, asked by \<open>finalize_pending_input\<close> and by a reset.\<close>

definition company_portal_owner :: "'id tail_reader \<Rightarrow> bool" where
  "company_portal_owner r \<longleftrightarrow>
     (case tr_pending r of
        Some p \<Rightarrow> company_portal_logical_framing (pl_selection p)
      | None \<Rightarrow> (case tr_fragment_selection r of Some (sel, _) \<Rightarrow> company_portal_logical_framing sel | None \<Rightarrow> False))"

definition finalize_pending_input ::
    "'n tail_env \<Rightarrow> nat \<Rightarrow> 'id tail_reader \<Rightarrow> (tail_batch \<times> 'id tail_reader) option" where
  "finalize_pending_input env now r =
     do { (batch, r) \<leftarrow> (if company_portal_owner r \<or> tr_initial r \<noteq> None
                          then flush_pending_logical_record env now r else flush_pending_text env r);
          let incomplete_utf8 = (tr_utf8 r \<noteq> []) in
          Some (if incomplete_utf8 then batch\<lparr>tb_errors := sat_add32 (tb_errors batch) 1\<rparr> else batch,
                r\<lparr>tr_utf8 := [], tr_utf8_selection := None\<rparr>) }"

subsection \<open>Decoding appended bytes\<close>

datatype tail_read_error = OpenFailed | ReadFailed | InvalidUtf8

definition decode_tail_bytes ::
    "'n tail_env \<Rightarrow> string \<Rightarrow> file_encoding \<Rightarrow> bool \<Rightarrow> 'id tail_reader \<Rightarrow> tail_read_error + decoded_tail" where
  "decode_tail_bytes env buffer e reset r =
     (if e \<noteq> FileUtf8 then
        (let bytes = (case tr_byte r of Some b \<Rightarrow> if reset then buffer else b # buffer | None \<Rightarrow> buffer);
             n = length bytes - length bytes mod 2 in
         Inr \<lparr>dt_text = decode_utf16 env e (take n bytes), dt_byte = nth_opt bytes n, dt_utf8 = [],
              dt_utf8_selection = None\<rparr>)
      else
        (let carry = (if reset then [] else tr_utf8 r);
             carry_selection = (if reset then None else tr_utf8_selection r);
             decoded_start = (if reset then 0 else tr_offset r - length carry);
             bytes = carry @ buffer;
             bytes = (if decoded_start = 0 then strip_bom [0xEF, 0xBB, 0xBF] bytes else bytes) in
         case from_utf8 bytes of
           None \<Rightarrow> Inl InvalidUtf8
         | Some (txt, rest) \<Rightarrow>
             if 3 < length rest then Inl InvalidUtf8
             else
               Inr \<lparr>dt_text = txt, dt_byte = None, dt_utf8 = rest,
                    dt_utf8_selection =
                      (if rest = [] then None
                       else case carry_selection of Some sel \<Rightarrow> Some sel | None \<Rightarrow> Some (tr_selection r))\<rparr>))"

subsection \<open>One read\<close>

text \<open>What opening the path gives: the generation, its size, and the bytes read from an offset.\<close>

record 'id opened_log =
  ol_identity :: "'id option"
  ol_size :: nat
  ol_read :: "nat \<Rightarrow> nat \<Rightarrow> string option"

definition note_generation :: "'id opened_log \<Rightarrow> 'id tail_reader \<Rightarrow> 'id tail_reader" where
  "note_generation f r =
     (if identities_differ (tr_identity r) (ol_identity f) then r\<lparr>tr_reset := Some Replaced\<rparr>
      else if ol_size f < tr_offset r \<and> tr_reset r = None then r\<lparr>tr_reset := Some Truncated\<rparr>
      else r)"

text \<open>What a reset does to what is pending, once the new generation has been read and decoded.\<close>

definition apply_reset :: "'n tail_env \<Rightarrow> nat \<Rightarrow> tail_batch \<Rightarrow> 'id tail_reader \<Rightarrow> (tail_batch \<times> 'id tail_reader) option" where
  "apply_reset env now batch r =
     (let r = r\<lparr>tr_initial := None, tr_discarding := False\<rparr>;
          r = (if company_portal_owner r
               then r\<lparr>tr_pending := None, tr_fragment := [], tr_fragment_selection := None\<rparr> else r) in
      do { (batch, r) \<leftarrow> (if tr_reset r = Some Truncated
                           then do { (b, r) \<leftarrow> finalize_pending_input env now r; Some (batch_append batch b, r) }
                           else Some (batch, r));
           Some (batch\<lparr>tb_reset := True\<rparr>,
                 r\<lparr>tr_fragment := [], tr_fragment_selection := None, tr_line_continuation := False,
                   tr_pending := None, tr_next_line := 1\<rparr>) })"

definition read_company_portal_lines ::
    "'n tail_env \<Rightarrow> nat \<Rightarrow> nat \<Rightarrow> bool \<Rightarrow> string list \<Rightarrow> tail_batch \<Rightarrow> 'id tail_reader
     \<Rightarrow> (tail_batch \<times> 'id tail_reader) option" where
  "read_company_portal_lines env now file_size received_text lines batch r =
     (let sel = tr_selection r;
          r = (if tr_fragment r \<noteq> [] then r\<lparr>tr_fragment_selection := Some (sel, now)\<rparr> else r);
          r = (if received_text then r\<lparr>tr_pending := map_option (\<lambda>p. p\<lparr>pl_updated := now\<rparr>) (tr_pending r)\<rparr> else r);
          (batch, remaining, r) =
            (if lines = [] then (batch, Some lines, r)
             else
               (case consume_initial_company_portal_lines env lines now r of
                  None \<Rightarrow> (batch, Some lines, r)
                | Some ((b, first), r) \<Rightarrow> (batch_append batch b, map_option (\<lambda>n. drop n lines) first, r))) in
      case remaining of
        None \<Rightarrow>
          (let (b, r) = enforce_initial_fragment_bound env now r in Some (batch_append batch b, r\<lparr>tr_offset := file_size\<rparr>))
      | Some remaining \<Rightarrow>
          do { (batch, r) \<leftarrow>
                 (if lines = [] then Some (batch, r)
                  else
                    (let f = frame_company_portal_logical_records (map_option pl_content (tr_pending r)) remaining
                               max_pending_logical_record_bytes;
                         r = r\<lparr>tr_pending := map_option (\<lambda>s. \<lparr>pl_content = s, pl_updated = now, pl_selection = sel\<rparr>)
                                             (pf_pending f)\<rparr> in
                     do { (b, r) \<leftarrow> parse_company_portal_records env (pf_completed f) sel (pf_overflow f) r;
                          Some (batch_append batch b, r) }));
               (if tr_initial r \<noteq> None
                then (let (b, r) = enforce_initial_fragment_bound env now r in
                      Some (batch_append batch b, r\<lparr>tr_offset := file_size\<rparr>))
                else
                  do { (b, r) \<leftarrow> enforce_unterminated_logical_bound env sel now r;
                       Some (batch_append batch b, r\<lparr>tr_offset := file_size\<rparr>) }) })"

definition read_lines ::
    "'n tail_env \<Rightarrow> nat \<Rightarrow> string \<Rightarrow> string list \<Rightarrow> tail_batch \<Rightarrow> 'id tail_reader \<Rightarrow> (tail_batch \<times> 'id tail_reader) option" where
  "read_lines env file_size full_text lines batch r =
     (if lines = [] then Some (batch, r\<lparr>tr_offset := file_size\<rparr>)
      else
        do { (entries, errors) \<leftarrow> parse_lines_with_selection env lines (tr_path r) (tr_selection r);
             let physical_lines =
                   (if rp_specialization (tr_selection r) = Some Ime
                    then length (filter (\<lambda>c. c = CHR 0x0A) (take (length full_text - length (tr_fragment r)) full_text))
                    else length lines);
                 (entries, r) = assign_entry_identity entries (min physical_lines u32_max) r in
             Some (batch_append batch
                     \<lparr>tb_entries = entries, tb_amendments = [], tb_errors = errors,
                      tb_through = (if tr_next_line r \<noteq> 0 \<and> tr_next_line r - 1 > 0 then Some (tr_next_line r - 1) else None),
                      tb_reset = False\<rparr>,
                   r\<lparr>tr_offset := file_size\<rparr>) })"

text \<open>The text of a read, after the carries of the decoder are installed.\<close>

definition read_text ::
    "'n tail_env \<Rightarrow> nat \<Rightarrow> nat \<Rightarrow> string \<Rightarrow> tail_batch \<Rightarrow> 'id tail_reader \<Rightarrow> (tail_batch \<times> 'id tail_reader) option" where
  "read_text env now file_size new_text batch r =
     (case inventory_logical_dialect (tr_selection r) of
        Some d \<Rightarrow>
          do { (batch, r) \<leftarrow> (if new_text \<noteq> []
                              then do { (b, r) \<leftarrow> process_inventory_text env now d (tr_selection r) new_text r;
                                        Some (batch_append batch b, r) }
                              else Some (batch, r));
               Some (batch, r\<lparr>tr_offset := file_size\<rparr>) }
      | None \<Rightarrow>
          (let full_text = tr_fragment r @ new_text;
               r = (if tr_fragment r = [] then r else r\<lparr>tr_fragment := [], tr_fragment_selection := None\<rparr>) in
           if tr_discarding r \<and> CHR 0x0A \<notin> set full_text then Some (batch, r\<lparr>tr_offset := file_size\<rparr>)
           else
             (let full_text = (if tr_discarding r then tl (dropWhile (\<lambda>c. c \<noteq> CHR 0x0A) full_text) else full_text);
                  r = r\<lparr>tr_discarding := False\<rparr> in
              do { (lines, fragment) \<leftarrow>
                     (if rp_framing (tr_selection r) = LogicalRecord \<and> rp_specialization (tr_selection r) = Some Ime
                      then collect_complete_ime_lines (te_ime env) full_text (tr_fragment r)
                      else Some (collect_complete_lines full_text (tr_fragment r)));
                   let r = r\<lparr>tr_fragment := fragment\<rparr> in
                   if company_portal_logical_framing (tr_selection r)
                   then read_company_portal_lines env now file_size (new_text \<noteq> []) lines batch r
                   else read_lines env file_size full_text lines batch r })))"

definition install_decoded :: "'id opened_log \<Rightarrow> nat \<Rightarrow> file_encoding \<Rightarrow> decoded_tail \<Rightarrow> 'id tail_reader \<Rightarrow> 'id tail_reader" where
  "install_decoded f read_offset e dt r =
     r\<lparr>tr_identity := ol_identity f, tr_reset := None, tr_offset := read_offset, tr_encoding := e,
       tr_byte := dt_byte dt, tr_utf8 := dt_utf8 dt, tr_utf8_selection := dt_utf8_selection dt\<rparr>"

definition read_new_entries ::
    "'n tail_env \<Rightarrow> nat \<Rightarrow> 'id opened_log option \<Rightarrow> 'id tail_reader
     \<Rightarrow> ((tail_read_error + tail_batch) \<times> 'id tail_reader) option" where
  "read_new_entries env now opened r =
     (case opened of
        None \<Rightarrow> Some (Inl OpenFailed, r)
      | Some f \<Rightarrow>
          (let r = note_generation f r;
               reset = (tr_reset r \<noteq> None);
               read_offset = (if reset then 0 else tr_offset r) in
           if \<not> reset \<and> pending_parser_selection_changed r
           then do { (b, r) \<leftarrow> finalize_pending_input env now r;
                     Some (Inr (batch_append (empty_batch False) b), r\<lparr>tr_identity := ol_identity f\<rparr>) }
           else
             do { (batch, r) \<leftarrow>
                    (if \<not> reset \<and> company_portal_debounce_elapsed now r
                     then do { (b, r) \<leftarrow> flush_pending_logical_record env now r;
                               Some (batch_append (empty_batch False) b, r) }
                     else Some (empty_batch False, r));
                  (if \<not> reset \<and> ol_size f = read_offset then Some (Inr batch, r\<lparr>tr_identity := ol_identity f\<rparr>)
                   else
                     (case ol_read f read_offset (ol_size f - read_offset) of
                        None \<Rightarrow> Some (Inl ReadFailed, r)
                      | Some buffer \<Rightarrow>
                          (let e = (if read_offset = 0 then detect_encoding buffer else tr_encoding r) in
                           case decode_tail_bytes env buffer e reset r of
                             Inl err \<Rightarrow> Some (Inl err, r)
                           | Inr dt \<Rightarrow>
                               do { (batch, r) \<leftarrow> (if reset then apply_reset env now batch r else Some (batch, r));
                                    (batch, r) \<leftarrow> read_text env now (ol_size f) (dt_text dt) batch
                                                   (install_decoded f read_offset e dt r);
                                    Some (Inr batch, r) }))) }))"

subsection \<open>A watcher\<close>

text \<open>What a turn of the loop of \<open>start_tail_session\<close> finds: the stop flag raised, an event of the file
  system for the file or for another, an error of the watcher, the poll timeout, or a closed channel.\<close>

datatype 'id watch_event = StopRaised nat | FileChanged nat "'id opened_log option" | OtherEvent | WatchError
  | PollTimeout nat "'id opened_log option" | ChannelClosed nat

definition report_batch :: "tail_batch \<Rightarrow> tail_batch list" where
  "report_batch b = (if is_reportable b then [b] else [])"

definition watched_read ::
    "'n tail_env \<Rightarrow> bool \<Rightarrow> nat \<Rightarrow> 'id opened_log option \<Rightarrow> 'id tail_reader
     \<Rightarrow> (tail_batch list \<times> 'id tail_reader) option" where
  "watched_read env paused now opened r =
     (if paused then Some ([], r)
      else map_option (\<lambda>(result, r). (case result of Inr b \<Rightarrow> report_batch b | Inl _ \<Rightarrow> [], r))
             (read_new_entries env now opened r))"

definition emit_final_tail_batch :: "'n tail_env \<Rightarrow> nat \<Rightarrow> 'id tail_reader \<Rightarrow> (tail_batch list \<times> 'id tail_reader) option" where
  "emit_final_tail_batch env now r =
     map_option (\<lambda>(b, r). (report_batch b, r)) (finalize_pending_input env now r)"

text \<open>The batches a turn hands to the callback, and whether the loop goes on.\<close>

fun watch_turn ::
    "'n tail_env \<Rightarrow> bool \<Rightarrow> 'id watch_event \<Rightarrow> 'id tail_reader \<Rightarrow> (tail_batch list \<times> bool \<times> 'id tail_reader) option" where
  "watch_turn env paused (StopRaised now) r =
     map_option (\<lambda>(bs, r). (bs, False, r)) (emit_final_tail_batch env now r)"
| "watch_turn env paused (FileChanged now opened) r =
     map_option (\<lambda>(bs, r). (bs, True, r)) (watched_read env paused now opened r)"
| "watch_turn env paused OtherEvent r = Some ([], True, r)"
| "watch_turn env paused WatchError r = Some ([], True, r)"
| "watch_turn env paused (PollTimeout now opened) r =
     map_option (\<lambda>(bs, r). (bs, True, r)) (watched_read env paused now opened r)"
| "watch_turn env paused (ChannelClosed now) r =
     map_option (\<lambda>(bs, r). (bs, False, r)) (emit_final_tail_batch env now r)"

fun watch_turns ::
    "'n tail_env \<Rightarrow> (bool \<times> 'id watch_event) list \<Rightarrow> 'id tail_reader \<Rightarrow> (tail_batch list \<times> 'id tail_reader) option" where
  "watch_turns env [] r = Some ([], r)"
| "watch_turns env ((paused, t) # ts) r =
     do { (bs, alive, r) \<leftarrow> watch_turn env paused t r;
          if alive then do { (cs, r) \<leftarrow> watch_turns env ts r; Some (bs @ cs, r) } else Some (bs, r) }"

end
