(* ===== verification/TailDecode.thy ===== *)
theory TailDecode
  imports TailRead FirewallSlices
begin

text \<open>
  Appended bytes: decoding what a log grew by, with the bytes carried over from the last read, continues the
  text of the log, wherever the reads cut it and with or without a byte order mark.
\<close>

subsection \<open>Decoding in pieces\<close>

lemma utf8_next_whole:
  assumes "utf8_next s = Scalar ch n" "s \<noteq> []"
  shows "valid_char ch"
proof -
  let ?b = "byte (hd s)"
  have w: "n = utf8_size ?b" "n \<noteq> 0" "n \<le> length s" "ch = take n s"
    and second: "1 < n \<Longrightarrow> second_ok ?b (byte (s ! 1))" and conts: "list_all is_cont (drop 2 ch)"
    using assms(1) by (auto simp: utf8_next_def Let_def list_ex_iff list_all_iff min_def split: if_splits)
  obtain c t where s: "s = c # t" using assms(2) by (cases s) auto
  have hd: "hd ch = c" "length ch = n" using w s by (cases n; simp)+
  have width: "utf8_width c = n" "\<not> is_cont c"
    using w(1,2) s by (auto simp: utf8_size_def utf8_width_def is_cont_def Let_def split: if_splits)
  have "list_all is_cont (tl ch)"
  proof (cases "n = 1")
    case False
    then obtain m where m: "n = Suc (Suc m)" using w(2) by (metis One_nat_def not0_implies_Suc)
    obtain c2 t2 where t: "t = c2 # t2" using w(3) s m by (cases t) auto
    have "is_cont c2" using second s t m by (auto simp: second_ok_def is_cont_def split: if_splits)
    moreover have "tl ch = c2 # drop 2 ch" unfolding w(4) s t m by simp
    ultimately show ?thesis using conts by simp
  qed (use w s in simp)
  then show ?thesis using hd width w(2) by (auto simp: valid_char_def)
qed

lemma decode_loop_parts:
  "decode_loop w Utf8 off s = Some (cs, p) \<Longrightarrow>
     s = concat (List.map fst cs) @ p \<and> valid_text (concat (List.map fst cs)) \<and> length p \<le> 3"
proof (induction w "Utf8" off s arbitrary: cs p rule: decode_loop.induct)
  case (1 w off s)
  show ?case
  proof (cases "s = []")
    case False
    show ?thesis
    proof (cases "next_scalar w Utf8 s")
      case (Scalar ch n)
      obtain ds where ds: "decode_loop w Utf8 (off + n) (drop n s) = Some (ds, p)" "cs = (ch, off + n) # ds"
        using 1(2) False Scalar by (auto simp: decode_loop.simps [of w Utf8 off s])
      have n: "ch = take n s" "utf8_next s = Scalar ch n" "n \<le> length s"
        using Scalar next_width [OF Scalar False] by (auto simp: next_scalar_def utf8_next_def Let_def split: if_splits)
      have "valid_char ch" by (rule utf8_next_whole [OF n(2) False])
      then show ?thesis using 1(1) [OF False Scalar ds(1)] n ds(2)
        by (metis (no_types, lifting) append.assoc append_take_drop_id concat.simps(2) fst_conv list.map(2) valid_text_append valid_text_char)
    next
      case Short
      then have "length s < utf8_size (byte (hd s))"
        by (auto simp: next_scalar_def utf8_next_def Let_def split: if_splits)
      moreover have "utf8_size (byte (hd s)) \<le> 4" by (simp add: utf8_size_def)
      ultimately show ?thesis using 1(2) False Short by (auto simp: decode_loop.simps [of w Utf8 off s])
    next
      case Bad
      then show ?thesis using 1(2) False by (simp add: decode_loop.simps [of w Utf8 off s])
    qed
  qed (use 1(2) in simp)
qed

text \<open>The text decoded does not depend on the offset the ends are counted from.\<close>

lemma decode_loop_offset:
  "map_option (\<lambda>(cs, p). (List.map fst cs, p)) (decode_loop w e off s) =
   map_option (\<lambda>(cs, p). (List.map fst cs, p)) (decode_loop w e off' s)"
proof (induction w e off s arbitrary: off' rule: decode_loop.induct)
  case (1 w e off s)
  show ?case
  proof (cases "s = []")
    case False
    show ?thesis
    proof (cases "next_scalar w e s")
      case (Scalar ch n)
      have "map_option (\<lambda>(cs, p). (ch # List.map fst cs, p)) (decode_loop w e (off + n) (drop n s)) =
          map_option (\<lambda>(cs, p). (ch # List.map fst cs, p)) (decode_loop w e (off' + n) (drop n s))"
        using arg_cong [OF 1 [OF False Scalar, of "off' + n"], of "map_option (\<lambda>(cs, p). (ch # cs, p))"]
        by (simp add: option.map_comp comp_def case_prod_unfold)
      then show ?thesis
        using Scalar False
        by (simp add: decode_loop.simps [of w e off s] decode_loop.simps [of w e off' s] option.map_comp comp_def case_prod_unfold)
    qed (use False in \<open>simp_all add: decode_loop.simps [of w e off s] decode_loop.simps [of w e off' s]\<close>)
  qed simp
qed

lemma from_utf8_at: "from_utf8 s = map_option (\<lambda>(cs, p). (concat (List.map fst cs), p)) (decode_loop (\<lambda>c. [c]) Utf8 off s)"
proof -
  have "map_option (\<lambda>(cs, p). (concat (List.map fst cs), p)) r =
      map_option (\<lambda>(cs, p). (concat cs, p)) (map_option (\<lambda>(cs, p). (List.map fst cs, p)) r)" for r :: "((rust_char \<times> nat) list \<times> string) option"
    by (simp add: option.map_comp comp_def case_prod_unfold)
  then show ?thesis unfolding from_utf8_def by (metis decode_loop_offset)
qed

lemma from_utf8_parts: "from_utf8 s = Some (t, p) \<Longrightarrow> s = t @ p \<and> valid_text t \<and> length p \<le> 3"
  using decode_loop_parts by (fastforce simp: from_utf8_def)

lemma from_utf8_Nil [simp]: "from_utf8 [] = Some ([], [])"
  by (simp add: from_utf8_def)

lemma from_utf8_append:
  assumes "from_utf8 x = Some (t, p)"
  shows "from_utf8 (x @ y) = map_option (\<lambda>(u, q). (t @ u, q)) (from_utf8 (p @ y))"
proof -
  obtain cs where cs: "decode_loop (\<lambda>c. [c]) Utf8 0 x = Some (cs, p)" "t = concat (List.map fst cs)"
    using assms by (auto simp: from_utf8_def)
  show ?thesis
    using conjunct2 [OF decode_loop_append [OF cs(1), of y]] cs(2)
    by (simp add: from_utf8_def [of "x @ y"] from_utf8_at [of "p @ y" "length x - length p"] option.map_comp comp_def case_prod_unfold)
qed

lemma from_utf8_prefix: "from_utf8 (x @ y) \<noteq> None \<Longrightarrow> from_utf8 x \<noteq> None"
  using decode_loop_None [of "\<lambda>c. [c]" Utf8 0 x y]
  by (cases "decode_loop (\<lambda>c. [c]) Utf8 0 x") (auto simp: from_utf8_def)

lemma from_utf8_rest: "from_utf8 x = Some (t, p) \<Longrightarrow> from_utf8 p = Some ([], p)"
  using from_utf8_append [of x t p "[]"] by (cases "from_utf8 p") auto

subsection \<open>The text of a log\<close>

definition utf8_bom :: "nat list" where
  "utf8_bom = [0xEF, 0xBB, 0xBF]"

definition log_text :: "string \<Rightarrow> (string \<times> string) option" where
  "log_text bytes = from_utf8 (strip_bom utf8_bom bytes)"

lemma bom_chars [simp]:
  "char_of (0xEF :: nat) = CHR 0xEF" "char_of (0xBB :: nat) = CHR 0xBB" "char_of (0xBF :: nat) = CHR 0xBF"
  "char_of (0xFE :: nat) = CHR 0xFE" "char_of (0xFF :: nat) = CHR 0xFF"
  by (simp_all add: char_of_eq_iff)

lemma bom_bytes: "bom_of utf8_bom = [CHR 0xEF, CHR 0xBB, CHR 0xBF]" "length utf8_bom = 3"
  by (simp_all add: bom_of_def utf8_bom_def)

lemma strip_bom_append: "prefix (bom_of b) x \<Longrightarrow> strip_bom b (x @ y) = strip_bom b x @ y"
  by (auto simp: strip_bom_def bom_of_def prefix_def)

text \<open>Short of its last byte a mark is an unfinished character.\<close>

lemma partial_bom: "strict_prefix x (bom_of utf8_bom) \<Longrightarrow> from_utf8 x = Some ([], x)"
proof -
  assume "strict_prefix x (bom_of utf8_bom)"
  then have "x \<in> {[], [CHR 0xEF], [CHR 0xEF, CHR 0xBB]}"
    by (auto simp: bom_bytes strict_prefix_def prefix_Cons)
  then show ?thesis
    by (auto simp: from_utf8_def decode_loop.simps [of _ _ _ "[CHR 0xEF]"] decode_loop.simps [of _ _ _ "[CHR 0xEF, CHR 0xBB]"]
        next_scalar_def utf8_next_def utf8_size_def second_ok_def Let_def)
qed

lemma log_text_encoding: "log_text b \<noteq> None \<Longrightarrow> detect_encoding b = FileUtf8"
proof -
  assume t: "log_text b \<noteq> None"
  have bad: "from_utf8 (c # s) = None" if "c \<in> {CHR 0xFE, CHR 0xFF}" for c s
    using that by (auto simp: from_utf8_def decode_loop.simps [of _ _ _ "c # s"] next_scalar_def utf8_next_def utf8_size_def)
  show ?thesis
  proof (cases b)
    case (Cons c s)
    have "c \<notin> {CHR 0xFE, CHR 0xFF}"
      using t bad [of c s] Cons by (auto simp: log_text_def strip_bom_def bom_bytes)
    then show ?thesis using Cons by (auto simp: detect_encoding_def bom_of_def)
  qed (simp add: detect_encoding_def bom_of_def)
qed

lemma log_text_step:
  assumes "log_text seen = Some (t, p)" "log_text (seen @ grown) = Some (u, q)"
    "tr_utf8 r = p" "tr_offset r = length seen" "tr_selection r = sel" "tr_utf8_selection r \<in> {None, Some sel}"
  obtains new sel' where "u = t @ new" "sel' \<in> {None, Some sel}" "q \<noteq> [] \<or> sel' = None"
    "decode_tail_bytes env grown FileUtf8 False r =
       Inr \<lparr>dt_text = new, dt_byte = None, dt_utf8 = q, dt_utf8_selection = sel'\<rparr>"
proof -
  let ?bytes = "p @ grown"
  let ?x = "strip_bom utf8_bom seen"
  have x: "?x = t @ p" "length p \<le> 3" using assms(1) from_utf8_parts by (auto simp: log_text_def)
  obtain new where new: "u = t @ new"
      "from_utf8 (if length seen - length p = 0 then strip_bom utf8_bom ?bytes else ?bytes) = Some (new, q)"
  proof (cases "length seen = length p \<and> \<not> prefix (bom_of utf8_bom) seen")
    case True
    then have "seen = p" "t = []" using x by (auto simp: strip_bom_def)
    then show thesis using that [of u] assms(2) by (simp add: log_text_def)
  next
    case False
    have ext: "strip_bom utf8_bom (seen @ grown) = ?x @ grown"
    proof (cases "prefix (bom_of utf8_bom) seen")
      case np: False
      have "\<not> prefix (bom_of utf8_bom) (seen @ grown)"
      proof
        assume "prefix (bom_of utf8_bom) (seen @ grown)"
        then have "strict_prefix seen (bom_of utf8_bom)"
          using np prefix_same_cases [of seen "seen @ grown" "bom_of utf8_bom"] by (auto simp: strict_prefix_def)
        then have "seen = p" using partial_bom [of seen] assms(1) np by (simp add: log_text_def strip_bom_def)
        then show False using False np by simp
      qed
      then show ?thesis using np by (simp add: strip_bom_def)
    qed (rule strip_bom_append)
    have u: "map_option (\<lambda>(v, q). (t @ v, q)) (from_utf8 ?bytes) = Some (u, q)"
      using assms(2) from_utf8_append [of ?x t p grown] assms(1) unfolding log_text_def ext by simp
    then obtain new where n: "from_utf8 ?bytes = Some (new, q)" "u = t @ new" by auto
    have "strip_bom utf8_bom ?bytes = ?bytes \<or> length seen - length p \<noteq> 0"
    proof (cases "prefix (bom_of utf8_bom) seen")
      case True
      then have "length seen = 3 + length ?x" by (auto simp: strip_bom_def bom_bytes prefix_def)
      then show ?thesis using x by simp
    next
      case np: False
      then have "length seen = length t + length p" using x by (simp add: strip_bom_def)
      then show ?thesis using False np by auto
    qed
    then show thesis using that [OF n(2)] n(1) by auto
  qed
  have q: "length q \<le> 3" using new(2) from_utf8_parts by blast
  let ?sel = "if q = [] then None else case tr_utf8_selection r of Some sel \<Rightarrow> Some sel | None \<Rightarrow> Some (tr_selection r)"
  show thesis
  proof (rule that [of new ?sel])
    show "decode_tail_bytes env grown FileUtf8 False r =
       Inr \<lparr>dt_text = new, dt_byte = None, dt_utf8 = q, dt_utf8_selection = ?sel\<rparr>"
      using new(2) q assms(3,4)
      by (cases "length seen \<le> length p") (simp_all add: decode_tail_bytes_def utf8_bom_def Let_def)
  qed (use new assms in auto)
qed

end
