(* ===== verification/TailFollow.thy ===== *)
theory TailFollow
  imports TailDecode
begin

text \<open>
  A watcher that follows a growing log: whatever the turns of its loop find, when the log only grows the
  reader holds the text of the log so far, and the batches it hands out are those of reading that text. What
  reading a text gives is the contract \<open>followed_log\<close>, which the plain-text and the Device Inventory readers
  provide.
\<close>

subsection \<open>A growing log\<close>

definition log_at :: "'id option \<Rightarrow> string \<Rightarrow> 'id opened_log" where
  "log_at i bytes =
     \<lparr>ol_identity = i, ol_size = length bytes,
      ol_read = (\<lambda>off n. if off + n \<le> length bytes then Some (take n (drop off bytes)) else None)\<rparr>"

text \<open>The turns of a watcher during which a log grows from \<open>seen\<close> to \<open>fin\<close>: turns that read find the
  log with more bytes at its end, or cannot open it; others do not touch it.\<close>

fun follows :: "'id option \<Rightarrow> string \<Rightarrow> (bool \<times> 'id watch_event) list \<Rightarrow> string \<Rightarrow> bool" where
  "follows i seen [] fin \<longleftrightarrow> fin = seen"
| "follows i seen ((paused, t) # ts) fin \<longleftrightarrow>
     (case t of
        FileChanged now opened \<Rightarrow>
          if paused \<or> opened = None then follows i seen ts fin
          else (\<exists>b. opened = Some (log_at i b) \<and> prefix seen b \<and> follows i b ts fin)
      | PollTimeout now opened \<Rightarrow>
          if paused \<or> opened = None then follows i seen ts fin
          else (\<exists>b. opened = Some (log_at i b) \<and> prefix seen b \<and> follows i b ts fin)
      | OtherEvent \<Rightarrow> follows i seen ts fin
      | WatchError \<Rightarrow> follows i seen ts fin
      | _ \<Rightarrow> False)"

lemma follows_prefix: "follows i seen ts fin \<Longrightarrow> prefix seen fin"
proof (induction i seen ts fin rule: follows.induct)
  case (2 i seen paused t ts fin)
  then show ?case by (cases t) (auto split: if_splits intro: prefix_order.trans)
qed simp

lemma log_text_prefix:
  assumes "log_text (x @ y) = Some (u, q)"
  shows "\<exists>u1 q1 u2. log_text x = Some (u1, q1) \<and> u = u1 @ u2"
proof (cases "strip_bom utf8_bom (x @ y) = strip_bom utf8_bom x @ y")
  case True
  obtain u1 q1 where "from_utf8 (strip_bom utf8_bom x) = Some (u1, q1)"
    using from_utf8_prefix [of "strip_bom utf8_bom x" y] assms True by (auto simp: log_text_def)
  then show ?thesis using from_utf8_append [of _ u1 q1 y] assms True by (auto simp: log_text_def)
next
  case False
  then have "\<not> prefix (bom_of utf8_bom) x" "prefix (bom_of utf8_bom) (x @ y)"
    using strip_bom_append by (auto simp: strip_bom_def split: if_splits)
  then have "strict_prefix x (bom_of utf8_bom)"
    using prefix_same_cases [of x "x @ y" "bom_of utf8_bom"] by (auto simp: strict_prefix_def)
  then show ?thesis
    using partial_bom \<open>\<not> prefix (bom_of utf8_bom) x\<close> by (auto simp: log_text_def strip_bom_def)
qed

subsection \<open>Readers of a log\<close>

definition at_log :: "'id option \<Rightarrow> resolved_parser \<Rightarrow> string \<Rightarrow> string \<Rightarrow> 'id tail_reader \<Rightarrow> bool" where
  "at_log i sel seen t r \<longleftrightarrow>
     tr_selection r = sel \<and> tr_offset r = length seen \<and> \<not> identities_differ (tr_identity r) i \<and> tr_reset r = None
     \<and> log_text seen = Some (t, tr_utf8 r) \<and> tr_utf8_selection r \<in> {None, Some sel}
     \<and> tr_encoding r = FileUtf8 \<and> tr_initial r = None \<and> \<not> tr_discarding r"

definition owned :: "resolved_parser \<Rightarrow> 'id tail_reader \<Rightarrow> bool" where
  "owned sel r \<longleftrightarrow> (\<forall>p. tr_pending r = Some p \<longrightarrow> pl_selection p = sel)
     \<and> (\<forall>s n. tr_fragment_selection r = Some (s, n) \<longrightarrow> s = sel)"

text \<open>Reading text leaves alone what belongs to the generation and to the decoder.\<close>

definition kept :: "'id tail_reader \<Rightarrow> 'id tail_reader \<Rightarrow> bool" where
  "kept r r' \<longleftrightarrow> tr_path r' = tr_path r \<and> tr_selection r' = tr_selection r \<and> tr_identity r' = tr_identity r
     \<and> tr_reset r' = tr_reset r \<and> tr_encoding r' = tr_encoding r \<and> tr_byte r' = tr_byte r
     \<and> tr_utf8 r' = tr_utf8 r \<and> tr_utf8_selection r' = tr_utf8_selection r
     \<and> tr_initial r' = tr_initial r \<and> tr_discarding r' = tr_discarding r"

lemma kept_refl [simp, intro]: "kept r r"
  by (simp add: kept_def)

lemma kept_trans: "kept r s \<Longrightarrow> kept s t \<Longrightarrow> kept r t"
  by (simp add: kept_def)

definition installed :: "'id option \<Rightarrow> nat \<Rightarrow> string \<Rightarrow> resolved_parser option \<Rightarrow> 'id tail_reader \<Rightarrow> 'id tail_reader" where
  "installed i off carried carried_sel r =
     r\<lparr>tr_identity := i, tr_reset := None, tr_offset := off, tr_encoding := FileUtf8, tr_byte := None,
       tr_utf8 := carried, tr_utf8_selection := carried_sel\<rparr>"

lemma no_debounce:
  "owned sel r \<Longrightarrow> tr_initial r = None \<Longrightarrow> \<not> company_portal_logical_framing sel \<Longrightarrow>
     \<not> company_portal_debounce_elapsed now r"
  by (auto simp: company_portal_debounce_elapsed_def owned_def Let_def split: option.splits if_splits)

lemma no_change: "owned sel r \<Longrightarrow> at_log i sel seen t r \<Longrightarrow> \<not> pending_parser_selection_changed r"
  by (auto simp: pending_parser_selection_changed_def owned_def at_log_def split: option.splits)

lemma note_at_log: "at_log i sel seen t r \<Longrightarrow> prefix seen b \<Longrightarrow> note_generation (log_at i b) r = r"
  using prefix_length_le [of seen b] by (simp add: note_generation_def at_log_def log_at_def)

lemma read_same:
  assumes "at_log i sel seen t r" "owned sel r" "\<not> company_portal_logical_framing sel"
  shows "read_new_entries env now (Some (log_at i seen)) r = Some (Inr (empty_batch False), r\<lparr>tr_identity := i\<rparr>)"
proof -
  note n = note_at_log [OF assms(1), of seen]
  have "tr_reset r = None" "tr_offset r = length seen" "tr_initial r = None" using assms(1) by (simp_all add: at_log_def)
  then show ?thesis
    using no_change [OF assms(2,1)] no_debounce [OF assms(2) _ assms(3)] n
    by (simp add: read_new_entries_def) (simp add: log_at_def)
qed

lemma read_grown:
  assumes "at_log i sel seen t r" "owned sel r" "\<not> company_portal_logical_framing sel"
    "prefix seen b" "b \<noteq> seen" "log_text b = Some (u, q)"
  obtains new carried_sel where "u = t @ new" "carried_sel \<in> {None, Some sel}"
    "read_new_entries env now (Some (log_at i b)) r =
       map_option (\<lambda>(batch, r'). (Inr batch, r'))
         (read_text env now (length b) new (empty_batch False) (installed i (length seen) q carried_sel r))"
proof -
  obtain grown where b: "b = seen @ grown" using assms(4) by (auto simp: prefix_def)
  then have g: "grown \<noteq> []" using assms(5) by simp
  have r: "tr_reset r = None" "tr_offset r = length seen" "tr_initial r = None" "tr_encoding r = FileUtf8"
      "log_text seen = Some (t, tr_utf8 r)" "tr_selection r = sel" "tr_utf8_selection r \<in> {None, Some sel}"
    using assms(1) by (simp_all add: at_log_def)
  obtain new sel' where d: "u = t @ new" "sel' \<in> {None, Some sel}"
      "decode_tail_bytes env grown FileUtf8 False r =
         Inr \<lparr>dt_text = new, dt_byte = None, dt_utf8 = q, dt_utf8_selection = sel'\<rparr>"
    using log_text_step [OF r(5) assms(6) [unfolded b] refl r(2) r(6,7)] by metis
  have e: "(if length seen = 0 then detect_encoding grown else tr_encoding r) = FileUtf8"
    using r(4) log_text_encoding [of b] assms(6) b by auto
  have rd: "ol_read (log_at i b) (length seen) (ol_size (log_at i b) - length seen) = Some grown"
    by (simp add: log_at_def b)
  show thesis
  proof (rule that [OF d(1,2)])
    show "read_new_entries env now (Some (log_at i b)) r =
       map_option (\<lambda>(batch, r'). (Inr batch, r'))
         (read_text env now (length b) new (empty_batch False) (installed i (length seen) q sel' r))"
      using no_change [OF assms(2,1)] no_debounce [OF assms(2) r(3) assms(3)] note_at_log [OF assms(1,4)] r g rd e d(3)
      by (simp add: read_new_entries_def b log_at_def install_decoded_def installed_def)
        (auto simp: log_at_def install_decoded_def Let_def map_conv_bind_option case_prod_unfold comp_def)
  qed
qed

subsection \<open>What reading text gives\<close>

text \<open>The rows a sequence of batches gives: their entries, and their parse errors added up.\<close>

type_synonym shown_rows = "tail_entry list \<times> nat"

fun show_batches :: "tail_batch list \<Rightarrow> shown_rows \<Rightarrow> shown_rows" where
  "show_batches [] rows = rows"
| "show_batches (b # bs) (es, n) = show_batches bs (es @ tb_entries b, sat_add32 n (tb_errors b))"

lemma show_batches_append: "show_batches (bs @ cs) rows = show_batches cs (show_batches bs rows)"
  by (induction bs rows rule: show_batches.induct) auto

lemma show_batches_snoc:
  "show_batches (bs @ [b]) rows =
     (fst (show_batches bs rows) @ tb_entries b, sat_add32 (snd (show_batches bs rows)) (tb_errors b))"
  by (simp add: show_batches_append) (metis prod.collapse show_batches.simps)

lemma show_entries: "fst (show_batches bs rows) = fst rows @ concat (List.map tb_entries bs)"
  by (induction bs rows rule: show_batches.induct) auto

lemma sat_add32_zero: "sat_add32 m n = 0 \<longleftrightarrow> m = 0 \<and> n = 0"
  by (auto simp: sat_add32_def u32_max_def min_def)

lemma show_no_errors: "snd (show_batches bs rows) = 0 \<Longrightarrow> snd rows = 0 \<and> (\<forall>b \<in> set bs. tb_errors b = 0)"
proof (induction bs arbitrary: rows)
  case (Cons b bs)
  obtain es n where rows: "rows = (es, n)" by (cases rows)
  have "sat_add32 n (tb_errors b) = 0 \<and> (\<forall>b \<in> set bs. tb_errors b = 0)"
    using Cons.IH [of "(es @ tb_entries b, sat_add32 n (tb_errors b))"] Cons.prems by (simp add: rows)
  then show ?case by (simp add: rows sat_add32_zero)
qed simp

lemma show_report: "n \<le> u32_max \<Longrightarrow> show_batches (report_batch b) (es, n) = (es @ tb_entries b, sat_add32 n (tb_errors b))"
  by (auto simp: report_batch_def is_reportable_def sat_add32_def)

definition plain_batch :: "tail_batch \<Rightarrow> bool" where
  "plain_batch b \<longleftrightarrow> tb_amendments b = [] \<and> \<not> tb_reset b"

lemma plain_empty [simp]: "plain_batch (empty_batch False)"
  by (simp add: plain_batch_def empty_batch_def)

lemma plain_append [simp]: "plain_batch a \<Longrightarrow> plain_batch b \<Longrightarrow> plain_batch (batch_append a b)"
  by (simp add: plain_batch_def batch_append_def)

text \<open>\<open>holds t rows r\<close> says that after the text \<open>t\<close> of a log the reader \<open>r\<close> has handed out \<open>rows\<close>.\<close>

locale followed_log =
  fixes env :: "'n tail_env"
    and sel :: resolved_parser
    and holds :: "string \<Rightarrow> shown_rows \<Rightarrow> 'id tail_reader \<Rightarrow> bool"
    and good :: "string \<Rightarrow> bool"
  assumes no_portal: "\<not> company_portal_logical_framing sel"
    and good_prefix: "good (t @ u) \<Longrightarrow> good t"
    and holds_owned: "holds t rows r \<Longrightarrow> owned sel r"
    and holds_errors: "holds t rows r \<Longrightarrow> snd rows \<le> u32_max"
    and holds_identity: "holds t rows r \<Longrightarrow> holds t rows (r\<lparr>tr_identity := i\<rparr>)"
    and holds_installed: "holds t rows r \<Longrightarrow> holds t rows (installed i off q carried_sel r)"
    and holds_read:
      "holds t (es, n) r \<Longrightarrow> good (t @ u) \<Longrightarrow> tr_selection r = sel \<Longrightarrow> tr_initial r = None \<Longrightarrow> \<not> tr_discarding r \<Longrightarrow>
         \<exists>b r'. read_text env now file_size u (empty_batch False) r = Some (b, r')
           \<and> holds (t @ u) (es @ tb_entries b, sat_add32 n (tb_errors b)) r'
           \<and> tr_offset r' = file_size \<and> kept r r' \<and> plain_batch b"
begin

lemma read_follows:
  assumes "at_log i sel seen t r" "holds t (es, n) r" "prefix seen b" "log_text b = Some (u, q)" "good u"
  shows "\<exists>batch r'. read_new_entries env now (Some (log_at i b)) r = Some (Inr batch, r')
    \<and> at_log i sel b u r' \<and> holds u (es @ tb_entries batch, sat_add32 n (tb_errors batch)) r' \<and> plain_batch batch"
proof (cases "b = seen")
  case True
  have "t = u" using assms(1,4) True by (simp add: at_log_def)
  moreover have "sat_add32 n 0 = n" using holds_errors [OF assms(2)] by (simp add: sat_add32_def)
  moreover have "at_log i sel seen t (r\<lparr>tr_identity := i\<rparr>)"
    using assms(1) by (simp add: at_log_def identities_differ_def split: option.splits)
  ultimately show ?thesis
    using read_same [OF assms(1) holds_owned [OF assms(2)] no_portal, of env now] holds_identity [OF assms(2)] True
    by (intro exI [of _ "empty_batch False"] exI [of _ "r\<lparr>tr_identity := i\<rparr>"]) (simp add: empty_batch_def plain_batch_def)
next
  case False
  obtain new sel' where s: "u = t @ new" "sel' \<in> {None, Some sel}"
    "read_new_entries env now (Some (log_at i b)) r =
       map_option (\<lambda>(batch, r'). (Inr batch, r'))
         (read_text env now (length b) new (empty_batch False) (installed i (length seen) q sel' r))"
    using read_grown [OF assms(1) holds_owned [OF assms(2)] no_portal assms(3) False assms(4)] by blast
  let ?r = "installed i (length seen) q sel' r"
  have r: "tr_selection ?r = sel" "tr_initial ?r = None" "\<not> tr_discarding ?r"
    using assms(1) by (simp_all add: at_log_def installed_def)
  obtain batch r' where b: "read_text env now (length b) new (empty_batch False) ?r = Some (batch, r')"
      "holds (t @ new) (es @ tb_entries batch, sat_add32 n (tb_errors batch)) r'" "tr_offset r' = length b"
      "kept ?r r'" "plain_batch batch"
    using holds_read [OF holds_installed [OF assms(2)] assms(5) [unfolded s(1)] r, of now "length b"] by blast
  have "at_log i sel b u r'"
    using b(3,4) s(2) r assms(4)
    by (auto simp: at_log_def kept_def installed_def identities_differ_def split: option.splits)
  then show ?thesis using b s by auto
qed

lemma watch_reads:
  assumes "at_log i sel seen t r" "holds t (es, n) r" "prefix seen b" "log_text b = Some (u, q)" "good u"
  shows "\<exists>bs r'. map_option (\<lambda>(bs, r). (bs, True, r)) (watched_read env False now (Some (log_at i b)) r) = Some (bs, True, r')
    \<and> at_log i sel b u r' \<and> holds u (show_batches bs (es, n)) r' \<and> list_all plain_batch bs"
proof -
  obtain batch r' where "read_new_entries env now (Some (log_at i b)) r = Some (Inr batch, r')" "at_log i sel b u r'"
      "holds u (es @ tb_entries batch, sat_add32 n (tb_errors batch)) r'" "plain_batch batch"
    using read_follows [OF assms] by blast
  then show ?thesis
    using show_report [of n batch es] holds_errors [OF assms(2)]
    by (auto simp: watched_read_def report_batch_def)
qed

theorem watched_log:
  "at_log i sel seen t r \<Longrightarrow> holds t rows r \<Longrightarrow> follows i seen turns fin \<Longrightarrow> log_text fin = Some (u, q) \<Longrightarrow> good u \<Longrightarrow>
     \<exists>bs r'. watch_turns env turns r = Some (bs, r') \<and> at_log i sel fin u r' \<and> holds u (show_batches bs rows) r'
       \<and> list_all plain_batch bs"
proof (induction turns arbitrary: seen t rows r)
  case Nil
  then have "fin = seen" "t = u" by (simp_all add: at_log_def)
  with Nil show ?case by simp
next
  case (Cons e turns)
  obtain paused x where e: "e = (paused, x)" by (cases e)
  obtain es n where rows: "rows = (es, n)" by (cases rows)
  have skip: ?case if "watch_turn env paused x r = Some ([], True, r)" "follows i seen turns fin"
    using Cons.IH [OF Cons.prems(1,2) that(2) Cons.prems(4,5)] that(1) by (auto simp: e)
  have reads: ?case
    if w: "watch_turn env paused x r = map_option (\<lambda>(bs, r). (bs, True, r)) (watched_read env paused now opened r)"
      and f: "if paused \<or> opened = None then follows i seen turns fin
          else (\<exists>b. opened = Some (log_at i b) \<and> prefix seen b \<and> follows i b turns fin)" for now opened
  proof (cases "paused \<or> opened = None")
    case True
    then have "watched_read env paused now opened r = Some ([], r)"
      by (auto simp: watched_read_def read_new_entries_def)
    then show ?thesis using skip w f True by simp
  next
    case False
    then obtain b where b: "opened = Some (log_at i b)" "prefix seen b" "follows i b turns fin" using f by auto
    obtain v where v: "fin = b @ v" using follows_prefix [OF b(3)] by (auto simp: prefix_def)
    obtain u1 q1 u2 where u1: "log_text b = Some (u1, q1)" "u = u1 @ u2"
      using log_text_prefix [of b v u q] Cons.prems(4) v by blast
    have g: "good u1" using good_prefix Cons.prems(5) u1(2) by simp
    obtain bs r' where 1: "watched_read env False now (Some (log_at i b)) r = Some (bs, r')" "at_log i sel b u1 r'"
        "holds u1 (show_batches bs (es, n)) r'" "list_all plain_batch bs"
      using watch_reads [OF Cons.prems(1) Cons.prems(2) [unfolded rows] b(2) u1(1) g, of now] by auto
    obtain cs r'' where "watch_turns env turns r' = Some (cs, r'')" "at_log i sel fin u r''"
        "holds u (show_batches cs (show_batches bs (es, n))) r''" "list_all plain_batch cs"
      using Cons.IH [OF 1(2,3) b(3) Cons.prems(4,5)] by blast
    then show ?thesis using w 1 False b(1) by (simp add: e rows show_batches_append)
  qed
  show ?case using Cons.prems(3) skip reads by (cases x) (auto simp: e split: if_splits)
qed

end

end
