(* ===== verification/TailPlain.thy ===== *)
theory TailPlain
  imports TailFollow ImeSamples
begin

text \<open>
  Following a plain-text log: the entries shown at open and those of every batch since are together the
  entries that opening the log now would show, but for an unfinished last line.
\<close>

subsection \<open>Finished lines\<close>

definition unfinished :: "string \<Rightarrow> string" where
  "unfinished t = rev (takeWhile (\<lambda>c. c \<noteq> CHR 0x0A) (rev t))"

definition finished :: "string \<Rightarrow> string" where
  "finished t = rev (dropWhile (\<lambda>c. c \<noteq> CHR 0x0A) (rev t))"

definition ends_lines :: "string \<Rightarrow> bool" where
  "ends_lines s \<longleftrightarrow> s = [] \<or> last s = CHR 0x0A"

lemma finished_unfinished: "finished t @ unfinished t = t"
  by (metis finished_def rev_append rev_rev_ident takeWhile_dropWhile_id unfinished_def)

lemma unfinished_lf [simp]: "CHR 0x0A \<notin> set (unfinished t)"
  by (auto simp: unfinished_def dest: set_takeWhileD)

lemma finished_ends [simp]: "ends_lines (finished t)"
proof -
  have "dropWhile (\<lambda>c. c \<noteq> CHR 0x0A) s = [] \<or> hd (dropWhile (\<lambda>c. c \<noteq> CHR 0x0A) s) = CHR 0x0A" for s
    using hd_dropWhile [of "\<lambda>c. c \<noteq> CHR 0x0A" s] by auto
  from this [of "rev t"] show ?thesis
    by (auto simp: finished_def ends_lines_def last_rev simp del: dropWhile_eq_Nil_conv)
qed

lemma finished_app: "ends_lines a \<Longrightarrow> CHR 0x0A \<notin> set b \<Longrightarrow> finished (a @ b) = a \<and> unfinished (a @ b) = b"
proof -
  assume a: "ends_lines a" and b: "CHR 0x0A \<notin> set b"
  have "takeWhile (\<lambda>c. c \<noteq> CHR 0x0A) (rev a) = []" "dropWhile (\<lambda>c. c \<noteq> CHR 0x0A) (rev a) = rev a"
    using a by (cases a rule: rev_cases; simp add: ends_lines_def)+
  moreover have "takeWhile (\<lambda>c. c \<noteq> CHR 0x0A) (rev b @ u) = rev b @ takeWhile (\<lambda>c. c \<noteq> CHR 0x0A) u"
    "dropWhile (\<lambda>c. c \<noteq> CHR 0x0A) (rev b @ u) = dropWhile (\<lambda>c. c \<noteq> CHR 0x0A) u" for u
    using b by (auto intro!: takeWhile_append2 dropWhile_append2)
  ultimately show ?thesis by (simp add: finished_def unfinished_def)
qed

lemma ends_lines_append [simp]: "ends_lines a \<Longrightarrow> ends_lines b \<Longrightarrow> ends_lines (a @ b)"
  by (cases "b = []") (simp_all add: ends_lines_def)

lemma finished_append:
  "finished (t @ u) = finished t @ finished (unfinished t @ u)"
  "unfinished (t @ u) = unfinished (unfinished t @ u)"
proof -
  have "t @ u = (finished t @ finished (unfinished t @ u)) @ unfinished (unfinished t @ u)"
    using finished_unfinished [of t] finished_unfinished [of "unfinished t @ u"] by (metis append.assoc)
  then show "finished (t @ u) = finished t @ finished (unfinished t @ u)" "unfinished (t @ u) = unfinished (unfinished t @ u)"
    using finished_app [of "finished t @ finished (unfinished t @ u)" "unfinished (unfinished t @ u)"] by simp_all
qed

subsection \<open>Lines in pieces\<close>

lemma split_inclusive_rest: "CHR 0x0A \<notin> set s \<Longrightarrow> split_inclusive s = (if s = [] then [] else [s])"
proof (cases s)
  case (Cons c t)
  assume "CHR 0x0A \<notin> set s"
  then have "takeWhile (\<lambda>d. d \<noteq> CHR 0x0A) s = s" "dropWhile (\<lambda>d. d \<noteq> CHR 0x0A) s = []"
    by (auto simp: takeWhile_eq_all_conv)
  then show ?thesis using Cons by (simp add: Let_def)
qed simp

lemma split_inclusive_line: "CHR 0x0A \<notin> set l \<Longrightarrow> split_inclusive (l @ CHR 0x0A # s) = (l @ [CHR 0x0A]) # split_inclusive s"
  by (cases l) (auto simp: Let_def takeWhile_tail dropWhile_append1)

lemma line_cases:
  obtains "CHR 0x0A \<notin> set s" | l t where "s = l @ CHR 0x0A # t" "CHR 0x0A \<notin> set l"
  using split_list_first [of "CHR 0x0A" s] by blast

lemma split_inclusive_append: "ends_lines a \<Longrightarrow> split_inclusive (a @ b) = split_inclusive a @ split_inclusive b"
proof (induction "length a" arbitrary: a rule: less_induct)
  case less
  show ?case
  proof (cases a rule: line_cases)
    case 1
    then have "a = []" using less.prems by (cases a rule: rev_cases) (auto simp: ends_lines_def)
    then show ?thesis by simp
  next
    case (2 l t)
    then have "ends_lines t" using less.prems by (cases "t = []") (simp_all add: ends_lines_def)
    then show ?thesis using less.hyps [of t] 2 by (simp add: split_inclusive_line)
  qed
qed

lemma str_lines_append: "ends_lines a \<Longrightarrow> str_lines (a @ b) = str_lines a @ str_lines b"
  by (simp add: str_lines_def split_inclusive_append)

lemma str_lines_rest: "CHR 0x0A \<notin> set s \<Longrightarrow> str_lines s = (if s = [] then [] else [s])"
proof -
  assume s: "CHR 0x0A \<notin> set s"
  then have "s \<noteq> [] \<Longrightarrow> last s \<noteq> CHR 0x0A" using last_in_set by metis
  then show ?thesis using s by (simp add: str_lines_def split_inclusive_rest strip_newline_def)
qed

lemma collect_lines: "collect_complete_lines s f = (str_lines (finished s), f @ unfinished s)"
proof -
  have s: "str_lines s = str_lines (finished s) @ (if unfinished s = [] then [] else [unfinished s])"
    using str_lines_append [OF finished_ends, of s "unfinished s"] finished_unfinished [of s] str_lines_rest [of "unfinished s"]
    by simp
  show ?thesis
  proof (cases "unfinished s = []")
    case True
    then have "s = finished s" using finished_unfinished [of s] by simp
    then have e: "ends_lines s" using finished_ends [of s] by simp
    show ?thesis
    proof (cases "s = []")
      case False
      then show ?thesis using e s True by (simp add: collect_complete_lines_def ends_lines_def Let_def)
    qed (use s True in \<open>simp add: collect_complete_lines_def str_lines_def finished_def unfinished_def Let_def\<close>)
  next
    case False
    then have "last s = last (unfinished s)" using finished_unfinished [of s] by (metis last_appendR)
    moreover have "last (unfinished s) \<noteq> CHR 0x0A" using False unfinished_lf [of s] last_in_set [OF False] by metis
    ultimately have "last s \<noteq> CHR 0x0A" by simp
    then show ?thesis using s False by (simp add: collect_complete_lines_def Let_def)
  qed
qed

subsection \<open>Numbers\<close>

lemma sat_line: "j + k + 1 \<le> u32_max \<Longrightarrow> sat_add_u32 (of_nat (j + 1)) (sat_sub_u32 (of_nat (k + 1)) 1) = of_nat (j + k + 1)"
proof -
  assume "j + k + 1 \<le> u32_max"
  then have "unat (of_nat (j + 1) :: u32) = j + 1" "unat (of_nat (k + 1) :: u32) = k + 1"
    "unat (of_nat k :: u32) = k"
    by (simp_all add: u32_max_def unat_of_nat take_bit_nat_eq_self del: of_nat_Suc of_nat_add)
  then show ?thesis
    using \<open>j + k + 1 \<le> u32_max\<close> by (simp add: sat_add_u32_def sat_sub_u32_def sat_add32_def del: of_nat_Suc of_nat_add)
qed

lemma sat_lines: "j + k + 1 < u32_max \<Longrightarrow> sat_add_u32 (of_nat (j + 1)) (of_nat (min k u32_max)) = of_nat (j + k + 1)"
proof -
  assume a: "j + k + 1 < u32_max"
  then have "unat (of_nat (j + 1) :: u32) = j + 1" "unat (of_nat k :: u32) = k" "min k u32_max = k"
    by (simp_all add: u32_max_def unat_of_nat take_bit_nat_eq_self del: of_nat_Suc of_nat_add)
  then show ?thesis using a by (simp add: sat_add_u32_def sat_add32_def del: of_nat_Suc of_nat_add)
qed

lemma number_plain:
  "j + k + length ls + 1 \<le> u32_max \<Longrightarrow>
     number_entries (i + m) (of_nat (j + 1)) (plain_rows_from path k m ls) = plain_rows_from path (j + k) (i + m) ls"
proof (induction ls arbitrary: k m)
  case (Cons l ls)
  have h: "sat_add_u32 (of_nat (j + 1)) (sat_sub_u32 (of_nat (k + 1)) 1) = of_nat (j + k + 1)"
    using Cons.prems by (intro sat_line) simp
  have IH: "number_entries (i + m') (of_nat (j + 1)) (plain_rows_from path (k + 1) m' ls) =
      plain_rows_from path (j + k + 1) (i + m') ls" for m'
    using Cons.IH [of "k + 1" m'] Cons.prems by simp
  show ?case
    using h IH [of m] IH [of "m + 1"] by (simp add: plain_line_entry_def add.assoc del: of_nat_Suc of_nat_add)
qed simp

lemma number_annotate: "number_entries i n (annotate_error_code_spans env es) = annotate_error_code_spans env (number_entries i n es)"
  by (induction es arbitrary: i) (simp_all add: annotate_error_code_spans_def Let_def)

lemma plain_rows_append:
  "plain_rows_from path k m (xs @ ys) =
     plain_rows_from path k m xs
     @ plain_rows_from path (k + length xs) (m + of_nat (length (plain_rows_from path k m xs))) ys"
  by (induction xs arbitrary: k m) (simp_all add: add.assoc)

subsection \<open>The reader\<close>

definition plain_shown :: "'n tail_env \<Rightarrow> string \<Rightarrow> string \<Rightarrow> tail_entry list" where
  "plain_shown env path t = annotate_error_code_spans env (plain_rows_from path 0 0 (str_lines (finished t)))"

definition plain_holds :: "'n tail_env \<Rightarrow> string \<Rightarrow> string \<Rightarrow> shown_rows \<Rightarrow> 'id tail_reader \<Rightarrow> bool" where
  "plain_holds env path t rows r \<longleftrightarrow>
     rows = (plain_shown env path t, 0) \<and> tr_path r = path \<and> tr_fragment r = unfinished t
     \<and> tr_fragment_selection r = None \<and> tr_pending r = None
     \<and> tr_next_id r = of_nat (length (plain_shown env path t))
     \<and> tr_next_line r = of_nat (length (str_lines (finished t)) + 1)"

definition few_lines :: "string \<Rightarrow> bool" where
  "few_lines t \<longleftrightarrow> length (str_lines (finished t)) + 1 < u32_max"

lemma plain_shown_step:
  assumes "few_lines (t @ u)"
  shows "plain_shown env path (t @ u) =
    plain_shown env path t @ number_entries (of_nat (length (plain_shown env path t)))
      (of_nat (length (str_lines (finished t)) + 1))
      (annotate_error_code_spans env (plain_rows_from path 0 0 (str_lines (finished (unfinished t @ u)))))"
proof -
  let ?a = "str_lines (finished t)" and ?b = "str_lines (finished (unfinished t @ u))"
  have ab: "str_lines (finished (t @ u)) = ?a @ ?b" by (simp add: finished_append(1) [of t u] str_lines_append del: append_assoc)
  have len: "length (annotate_error_code_spans env es) = length es" for es by (simp add: annotate_error_code_spans_def)
  have n: "number_entries (of_nat (length (plain_rows_from path 0 0 ?a)) + 0) (of_nat (length ?a + 1)) (plain_rows_from path 0 0 ?b) =
      plain_rows_from path (length ?a + 0) (of_nat (length (plain_rows_from path 0 0 ?a)) + 0) ?b"
    using assms ab by (intro number_plain) (simp add: few_lines_def)
  have app: "annotate_error_code_spans env (xs @ ys) = annotate_error_code_spans env xs @ annotate_error_code_spans env ys" for xs ys
    by (simp add: annotate_error_code_spans_def)
  show ?thesis
    using n unfolding plain_shown_def ab plain_rows_append number_annotate len
    by (simp only: app add_0_left add_0_right)
qed

lemma plain_parser_simps [simp]:
  "rp_framing plain_text_parser = PhysicalLine" "rp_specialization plain_text_parser = None"
  "rp_implementation plain_text_parser = ImplPlainText" "\<not> company_portal_logical_framing plain_text_parser"
  "inventory_logical_dialect plain_text_parser = None"
  by (simp_all add: plain_text_parser_def company_portal_logical_framing_def inventory_logical_dialect_def)

lemma plain_read:
  assumes "plain_holds env path t (es, n) r" "few_lines (t @ u)" "tr_selection r = plain_text_parser" "tr_initial r = None"
    "\<not> tr_discarding r"
  shows "\<exists>b r'. read_text env now file_size u (empty_batch False) r = Some (b, r')
     \<and> plain_holds env path (t @ u) (es @ tb_entries b, sat_add32 n (tb_errors b)) r'
     \<and> tr_offset r' = file_size \<and> kept r r' \<and> plain_batch b"
proof -
  note h = assms(1) [unfolded plain_holds_def]
  let ?full = "unfinished t @ u"
  let ?ls = "str_lines (finished ?full)"
  define r1 where "r1 = (if tr_fragment r = [] then r else r\<lparr>tr_fragment := [], tr_fragment_selection := None\<rparr>)\<lparr>tr_discarding := False, tr_fragment := unfinished ?full\<rparr>"
  have r1: "read_text env now file_size u (empty_batch False) r = read_lines env file_size ?full ?ls (empty_batch False) r1"
    using h assms(3,5) by (auto simp: read_text_def r1_def collect_lines Let_def)
  have k1: "tr_path r1 = path" "tr_selection r1 = plain_text_parser" "tr_fragment r1 = unfinished (t @ u)"
    "tr_fragment_selection r1 = None" "tr_pending r1 = None" "tr_next_id r1 = tr_next_id r" "tr_next_line r1 = tr_next_line r"
    "kept r r1"
    using h assms(3,5) by (auto simp: r1_def kept_def finished_append(2) [of t u])
  have s: "str_lines (finished (t @ u)) = str_lines (finished t) @ ?ls"
    by (simp add: finished_append(1) [of t u] str_lines_append del: append_assoc)
  note st = plain_shown_step [OF assms(2), of env path]
  show ?thesis
  proof (cases "?ls = []")
    case True
    then have "plain_shown env path (t @ u) = plain_shown env path t" using s by (simp add: plain_shown_def)
    then have "plain_holds env path (t @ u) (es @ tb_entries (empty_batch False), sat_add32 n (tb_errors (empty_batch False)))
        (r1\<lparr>tr_offset := file_size\<rparr>)"
      using True h k1 s by (simp add: plain_holds_def empty_batch_def sat_add32_def)
    moreover have "read_lines env file_size ?full ?ls (empty_batch False) r1 = Some (empty_batch False, r1\<lparr>tr_offset := file_size\<rparr>)"
      using True by (simp add: read_lines_def)
    moreover have "kept r (r1\<lparr>tr_offset := file_size\<rparr>)" using k1(8) by (simp add: kept_def)
    ultimately show ?thesis unfolding r1
      by (intro exI [of _ "empty_batch False"] exI [of _ "r1\<lparr>tr_offset := file_size\<rparr>"]) simp
  next
    case False
    define new where "new = number_entries (tr_next_id r) (tr_next_line r)
        (annotate_error_code_spans env (plain_rows_from path 0 0 ?ls))"
    have sh: "plain_shown env path (t @ u) = plain_shown env path t @ new" using st h by (simp add: new_def)
    have few: "length (str_lines (finished t)) + length ?ls + 1 < u32_max" using assms(2) s by (simp add: few_lines_def)
    have line: "sat_add_u32 (of_nat (length (str_lines (finished t)) + 1)) (of_nat (min (length ?ls) u32_max)) =
        of_nat (length (str_lines (finished (t @ u))) + 1)"
      using sat_lines [OF few] unfolding s by (simp only: length_append)
    let ?r' = "r1\<lparr>tr_next_id := tr_next_id r + of_nat (length new), tr_next_line := of_nat (length (str_lines (finished (t @ u))) + 1), tr_offset := file_size\<rparr>"
    have len: "length (number_entries i m es) = length es" for i m es by (induction es arbitrary: i) simp_all
    have p: "parse_lines_with_selection env ?ls (tr_path r1) (tr_selection r1) =
        Some (annotate_error_code_spans env (plain_rows_from path 0 0 ?ls), 0)"
      using k1(1,2) by (simp add: parse_lines_with_selection_def plain_parse_lines_def)
    let ?q = "r1\<lparr>tr_next_id := tr_next_id r + of_nat (length new), tr_next_line := of_nat (length (str_lines (finished (t @ u))) + 1)\<rparr>"
    have a: "assign_entry_identity (annotate_error_code_spans env (plain_rows_from path 0 0 ?ls)) (min (length ?ls) u32_max) r1 = (new, ?q)"
      using h k1(6,7) line len by (simp add: assign_entry_identity_def new_def)
    let ?b = "\<lparr>tb_entries = new, tb_amendments = [], tb_errors = 0,
        tb_through = (if tr_next_line ?q \<noteq> 0 \<and> tr_next_line ?q - 1 > 0 then Some (tr_next_line ?q - 1) else None), tb_reset = False\<rparr>"
    have rl: "read_lines env file_size ?full ?ls (empty_batch False) r1 = Some (batch_append (empty_batch False) ?b, ?r')"
      using False p a k1(2) by (simp add: read_lines_def)
    have "plain_holds env path (t @ u) (es @ new, n) ?r'"
      using h k1 sh by (simp add: plain_holds_def)
    moreover have "n = 0" using h by simp
    ultimately have "plain_holds env path (t @ u) (es @ tb_entries (batch_append (empty_batch False) ?b),
        sat_add32 n (tb_errors (batch_append (empty_batch False) ?b))) ?r'"
      by (simp add: batch_append_def empty_batch_def sat_add32_def)
    moreover have "kept r ?r'" "plain_batch ?b" using k1(8) by (simp_all add: kept_def plain_batch_def)
    ultimately show ?thesis unfolding r1 rl
      by (intro exI [of _ "batch_append (empty_batch False) ?b"] exI [of _ ?r']) simp
  qed
qed

interpretation plain_log: followed_log env plain_text_parser "plain_holds env path" few_lines for env path
proof
  show "few_lines (t @ u) \<Longrightarrow> few_lines t" for t u
    by (simp add: few_lines_def finished_append(1) [of t u] str_lines_append)
  show "plain_holds env path t rows r \<Longrightarrow> owned plain_text_parser r" for t rows and r :: "'id tail_reader"
    by (simp add: plain_holds_def owned_def)
  show "plain_holds env path t rows r \<Longrightarrow> snd rows \<le> u32_max" for t rows and r :: "'id tail_reader"
    by (simp add: plain_holds_def)
  show "plain_holds env path t rows r \<Longrightarrow> plain_holds env path t rows (r\<lparr>tr_identity := i\<rparr>)" for t rows i and r :: "'id tail_reader"
    by (simp add: plain_holds_def)
  show "plain_holds env path t rows r \<Longrightarrow> plain_holds env path t rows (installed i off q carried_sel r)"
    for t rows i off q carried_sel and r :: "'id tail_reader"
    by (simp add: plain_holds_def installed_def)
qed (simp_all add: plain_read)

text \<open>What opening a plain-text log shows, and the reader the application then starts: it stands after the
  bytes that were parsed, with the next entry id and the next line.\<close>

definition opened_rows :: "'n tail_env \<Rightarrow> string \<Rightarrow> string \<Rightarrow> tail_entry list" where
  "opened_rows env path bytes =
     (case log_text bytes of None \<Rightarrow> [] | Some (t, _) \<Rightarrow>
        (case parse_content_with_selection env t path plain_text_parser of None \<Rightarrow> [] | Some (es, _) \<Rightarrow> es))"

definition opened_lines :: "string \<Rightarrow> nat" where
  "opened_lines bytes = (case log_text bytes of None \<Rightarrow> 0 | Some (t, _) \<Rightarrow> length (str_lines t))"

definition opened_reader :: "'n tail_env \<Rightarrow> string \<Rightarrow> 'id option \<Rightarrow> string \<Rightarrow> nat \<Rightarrow> 'id tail_reader" where
  "opened_reader env path i bytes now =
     (new_tail_reader path (length bytes) plain_text_parser (of_nat (length (opened_rows env path bytes)))
        (of_nat (opened_lines bytes + 1)) None (take 3 bytes) now)\<lparr>tr_identity := i\<rparr>"

lemma opened_rows_finished:
  assumes "log_text bytes = Some (t, q)" "ends_lines t"
  shows "opened_rows env path bytes = plain_shown env path t" "opened_lines bytes = length (str_lines (finished t))"
  using finished_app [OF assms(2), of "[]"] assms(1)
  by (simp_all add: opened_rows_def opened_lines_def parse_content_with_selection_def parse_lines_with_selection_def
      plain_parse_lines_def plain_shown_def device_inventory_dialect_def)

lemma detect_take: "detect_encoding (take 3 bytes) = detect_encoding bytes"
  by (cases bytes; cases "tl bytes") (auto simp: detect_encoding_def bom_of_def)

text \<open>C7. Tailing a plain-text log shows what opening its finished lines shows. Open a UTF-8 log whose last
  line is finished, then let its watcher run while the log grows: whatever notifications, polls, pauses
  and failed opens occur and wherever the appended bytes are cut (inside a character, inside a byte order
  mark, between a carriage return and its line feed), the watcher goes on, and the entries shown at open
  followed by the entries of every batch handed out are exactly the entries, with their ids and line
  numbers, that opening the finished lines of the log as last read would show; no batch amends or resets
  anything. A last line of the grown log without its line feed is not among them: the watcher holds it
  back. A log opened while its last line is unfinished is outside this: the rest of that line would come
  as a line of its own.\<close>

theorem plain_tail_shows_file:
  assumes "log_text bytes = Some (t, [])" "ends_lines t" "follows i bytes turns fin" "log_text fin = Some (u, q)"
    "few_lines u"
  shows "\<exists>bs r. watch_turns env turns (opened_reader env path i bytes now) = Some (bs, r)
    \<and> opened_rows env path bytes @ concat (List.map tb_entries bs)
        = fst (the (parse_content_with_selection env (finished u) path plain_text_parser))
    \<and> (\<forall>b \<in> set bs. tb_errors b = 0 \<and> tb_amendments b = [] \<and> \<not> tb_reset b)"
proof -
  let ?r = "opened_reader env path i bytes now"
  note o = opened_rows_finished [OF assms(1,2)]
  have "detect_encoding (take 3 bytes) = FileUtf8" using log_text_encoding [of bytes] assms(1) by (simp add: detect_take)
  then have at: "at_log i plain_text_parser bytes t ?r"
    using assms(1) by (simp add: at_log_def opened_reader_def new_tail_reader_def identities_differ_def split: option.splits)
  have t: "finished t = t" "unfinished t = []" using finished_app [OF assms(2), of "[]"] by simp_all
  have hd: "plain_holds env path t (plain_shown env path t, 0) ?r"
    using t by (simp add: o plain_holds_def opened_reader_def new_tail_reader_def)
  obtain bs r where w: "watch_turns env turns ?r = Some (bs, r)"
      "plain_holds env path u (show_batches bs (plain_shown env path t, 0)) r" "list_all plain_batch bs"
    using plain_log.watched_log [OF at hd assms(3,4,5)] by blast
  then have rows: "show_batches bs (plain_shown env path t, 0) = (plain_shown env path u, 0)" by (simp add: plain_holds_def)
  have f: "finished (finished u) = finished u" using finished_app [OF finished_ends, of "[]"] by simp
  have "parse_content_with_selection env (finished u) path plain_text_parser = Some (plain_shown env path u, 0)"
    by (simp add: parse_content_with_selection_def parse_lines_with_selection_def plain_parse_lines_def plain_shown_def
        device_inventory_dialect_def)
  then show ?thesis
    using w(1,3) show_entries [of bs "(plain_shown env path t, 0)"] show_no_errors [of bs "(plain_shown env path t, 0)"] rows o(1)
    by (auto simp: list_all_iff plain_batch_def)
qed

subsection \<open>A sample log\<close>

lemma from_utf8_ascii: "list_all (\<lambda>c. byte c < 128) s \<Longrightarrow> from_utf8 s = Some (s, [])"
proof (induction s)
  case (Cons c s)
  have "utf8_next (c # s) = Scalar [c] 1" using Cons.prems by (simp add: utf8_next_def utf8_size_def)
  then have d: "from_utf8 [c] = Some ([c], [])"
    using Cons.prems by (simp add: from_utf8_def decode_loop.simps [of _ _ _ "[c]"] next_scalar_def utf8_next_def utf8_size_def)
  then show ?case using from_utf8_append [OF d, of s] Cons by simp
qed simp

lemma log_text_ascii: "list_all (\<lambda>c. byte c < 128) s \<Longrightarrow> log_text s = Some (s, [])"
  using from_utf8_ascii [of s] by (cases s) (auto simp: log_text_def strip_bom_def bom_bytes)

definition sample_tail_env :: "int tail_env" where
  "sample_tail_env =
     \<lparr>te_inventory =
        \<lparr>harvester_re = (\<lambda>_. None),
         adaptor_re = (\<lambda>l. if prefix ''['' l then Some \<lparr>ac_timestamp = l, ac_pid = ''7'', ac_message = tl l\<rparr> else None),
         rotation_re = (\<lambda>_. None), dotnet_exception_re = (\<lambda>_. False), is_alphanumeric = (\<lambda>_. False),
         harvester_time = (\<lambda>_. None), adaptor_time = (\<lambda>_. None), rfc3339_time = (\<lambda>_. None)\<rparr>,
      te_ime = sample_env, te_grammar = (\<lambda>_ _ _. ([], 0)), te_content_grammar = (\<lambda>_ _ _. ([], 0)),
      te_spans = (\<lambda>_. []), te_utf16 = (\<lambda>_ s. s)\<rparr>"

definition sample_turns :: "(bool \<times> nat watch_event) list" where
  "sample_turns =
     [(False, FileChanged 1 (Some (log_at (Some 1) ([CHR ''a'', CHR 0x0A] @ ''err'')))), (True, PollTimeout 2 None),
      (False, OtherEvent), (False, PollTimeout 3 (Some (log_at (Some 1) ([CHR ''a'', CHR 0x0A] @ ''error'' @ [CHR 0x0A]))))]"

theorem plain_tail_shows_file_witness:
  "\<exists>bs r. watch_turns sample_tail_env sample_turns
        (opened_reader sample_tail_env ''log'' (Some 1) [CHR ''a'', CHR 0x0A] 0) = Some (bs, r)
    \<and> List.map message (opened_rows sample_tail_env ''log'' [CHR ''a'', CHR 0x0A] @ concat (List.map tb_entries bs))
        = [''a'', ''error'']"
proof -
  let ?fin = "[CHR ''a'', CHR 0x0A] @ ''error'' @ [CHR 0x0A]"
  have 1: "log_text [CHR ''a'', CHR 0x0A] = Some ([CHR ''a'', CHR 0x0A], [])" "log_text ?fin = Some (?fin, [])"
    by (rule log_text_ascii, simp)+
  have 2: "ends_lines [CHR ''a'', CHR 0x0A]" by (simp add: ends_lines_def)
  have 3: "follows (Some 1) [CHR ''a'', CHR 0x0A] sample_turns ?fin"
    by (auto simp: sample_turns_def)
  have f: "finished ?fin = ?fin" by (simp add: finished_def)
  have 4: "few_lines ?fin" unfolding few_lines_def f by (simp add: str_lines_def u32_max_def Let_def)
  obtain bs r where b: "watch_turns sample_tail_env sample_turns
        (opened_reader sample_tail_env ''log'' (Some 1) [CHR ''a'', CHR 0x0A] 0) = Some (bs, r)"
      "opened_rows sample_tail_env ''log'' [CHR ''a'', CHR 0x0A] @ concat (List.map tb_entries bs)
        = fst (the (parse_content_with_selection sample_tail_env (finished ?fin) ''log'' plain_text_parser))"
    using plain_tail_shows_file [OF 1(1) 2 3 1(2) 4, of sample_tail_env "''log''" 0] by blast
  have trim: "str_trim ''error'' \<noteq> []" "str_trim ''a'' \<noteq> []" by code_simp+
  have "List.map message (fst (the (parse_content_with_selection sample_tail_env ?fin ''log'' plain_text_parser))) = [''a'', ''error'']"
    by (simp add: parse_content_with_selection_def parse_lines_with_selection_def plain_parse_lines_def
        device_inventory_dialect_def str_lines_def strip_newline_def Let_def annotate_error_code_spans_def
        sample_tail_env_def plain_line_entry_def trim)
  then show ?thesis using b unfolding f by metis
qed

end
