(* ===== verification/InventoryRows.thy ===== *)
theory InventoryRows
  imports TailPlain
begin

text \<open>
  Device Inventory records that fit: while every record has room for the line after it, framing is a fold
  over the lines, and the rows of a list of records are those of its parts, numbered on.
\<close>

subsection \<open>Framing without overflow\<close>

fun frame_line :: "(string \<Rightarrow> bool) \<Rightarrow> string \<Rightarrow> framed_record list \<times> string option \<Rightarrow> framed_record list \<times> string option" where
  "frame_line h raw (recs, held_rec) =
     (let l = trim_crs raw in
      if h l then (recs @ (case held_rec of None \<Rightarrow> [] | Some p \<Rightarrow> [complete_record p]), Some l)
      else (recs, Some (case held_rec of None \<Rightarrow> l | Some p \<Rightarrow> p @ CHR 0x0A # l)))"

definition rec_size :: "string option \<Rightarrow> nat" where
  "rec_size held_rec = (case held_rec of None \<Rightarrow> 0 | Some p \<Rightarrow> length p + 1)"

text \<open>Every record and the line after it fit into the bound together.\<close>

fun roomy :: "(string \<Rightarrow> bool) \<Rightarrow> string option \<Rightarrow> string list \<Rightarrow> bool" where
  "roomy h held_rec [] \<longleftrightarrow> True"
| "roomy h held_rec (raw # raws) \<longleftrightarrow>
     rec_size held_rec + length raw \<le> max_logical_record_bytes
     \<and> roomy h (snd (frame_line h raw ([], held_rec))) raws"

lemma frame_line_recs: "frame_line h raw (recs, p) = (recs @ fst (frame_line h raw ([], p)), snd (frame_line h raw ([], p)))"
  by (simp add: Let_def)

lemma frame_lines_recs:
  "fold (frame_line h) raws (recs, p) =
     (recs @ fst (fold (frame_line h) raws ([], p)), snd (fold (frame_line h) raws ([], p)))"
proof (induction raws arbitrary: recs p)
  case (Cons raw raws)
  let ?s = "frame_line h raw ([], p)"
  have "fold (frame_line h) raws (recs @ fst ?s, snd ?s) =
      (recs @ fst ?s @ fst (fold (frame_line h) raws ([], snd ?s)), snd (fold (frame_line h) raws ([], snd ?s)))"
    using Cons [of "recs @ fst ?s" "snd ?s"] by simp
  moreover have "fold (frame_line h) raws ?s = (fst ?s @ fst (fold (frame_line h) raws ([], snd ?s)), snd (fold (frame_line h) raws ([], snd ?s)))"
    using Cons [of "fst ?s" "snd ?s"] by simp
  ultimately show ?case using frame_line_recs [of h raw recs p] by simp
qed simp

lemma trim_crs_length: "length (trim_crs s) \<le> length s"
  using length_dropWhile_le [of _ "rev s"] by (simp add: trim_crs_def trim_end_any_def)

lemma frame_line_size:
  "rec_size p + length raw \<le> max_logical_record_bytes \<Longrightarrow> snd (frame_line h raw (recs, p)) = Some s \<Longrightarrow>
     length s \<le> max_logical_record_bytes"
  using trim_crs_length [of raw] by (auto simp: rec_size_def Let_def split: option.splits if_splits)

lemma append_room:
  assumes "length (held f) + length s \<le> max_logical_record_bytes"
  shows "fg_completed (append_bounded s f) = fg_completed f" "fg_overflow (append_bounded s f) = fg_overflow f"
    "fg_pending (append_bounded s f) = Some (held f @ s)"
proof -
  have "fg_completed (append_bounded s f) = fg_completed f \<and> fg_overflow (append_bounded s f) = fg_overflow f
    \<and> fg_pending (append_bounded s f) = Some (held f @ s)"
  proof (cases "s = []")
    case True
    then show ?thesis by (simp add: append_bounded_def held_def split: option.splits)
  next
    case False
    define n where "n = 2 * length s"
    have "min (max_logical_record_bytes - length (held f)) (length s) = length s" using assms by simp
    then have "append_rounds (Suc n) s f =
        f\<lparr>fg_pending := Some (held f @ s), fg_peak := max (fg_peak f) (length (held f @ s))\<rparr>"
      using False by (simp add: Let_def held_def [symmetric] del: floor_boundary.simps)
    then show ?thesis using n_def by (simp add: append_bounded_def Let_def del: append_rounds.simps)
  qed
  then show "fg_completed (append_bounded s f) = fg_completed f" "fg_overflow (append_bounded s f) = fg_overflow f"
    "fg_pending (append_bounded s f) = Some (held f @ s)" by simp_all
qed

lemma segment_room:
  assumes "rec_size (fg_pending f) + length raw \<le> max_logical_record_bytes"
  shows "(fg_completed (frame_segment h (LineStart raw) f), fg_pending (frame_segment h (LineStart raw) f)) =
      frame_line h raw (fg_completed f, fg_pending f)"
    "fg_overflow (frame_segment h (LineStart raw) f) = fg_overflow f"
proof -
  let ?l = "trim_crs raw"
  have l: "length ?l \<le> length raw" by (rule trim_crs_length)
  have "(fg_completed (frame_segment h (LineStart raw) f), fg_pending (frame_segment h (LineStart raw) f)) =
      frame_line h raw (fg_completed f, fg_pending f) \<and> fg_overflow (frame_segment h (LineStart raw) f) = fg_overflow f"
  proof (cases "fg_pending f")
    case None
    let ?f = "f\<lparr>fg_pending := Some []\<rparr>"
    have "length (held ?f) + length ?l \<le> max_logical_record_bytes" using assms l None by (simp add: held_def rec_size_def)
    note a = append_room [OF this]
    show ?thesis using a None by (simp add: Let_def held_def)
  next
    case (Some p)
    show ?thesis
    proof (cases "h ?l")
      case True
      let ?f = "f\<lparr>fg_completed := fg_completed f @ [complete_record p], fg_pending := Some []\<rparr>"
      have "length (held ?f) + length ?l \<le> max_logical_record_bytes" using assms l Some by (simp add: held_def rec_size_def)
      note a = append_room [OF this]
      show ?thesis using a Some True by (simp add: Let_def held_def)
    next
      case False
      have 1: "length (held f) + length [CHR 0x0A] \<le> max_logical_record_bytes"
        using assms Some by (simp add: held_def rec_size_def)
      note a = append_room [OF 1]
      let ?f = "append_bounded [CHR 0x0A] f"
      have "length (held ?f) + length ?l \<le> max_logical_record_bytes"
        using a(3) assms l Some by (simp add: held_def rec_size_def)
      note b = append_room [OF this]
      show ?thesis using a b Some False by (simp add: Let_def held_def)
    qed
  qed
  then show "(fg_completed (frame_segment h (LineStart raw) f), fg_pending (frame_segment h (LineStart raw) f)) =
      frame_line h raw (fg_completed f, fg_pending f)"
    "fg_overflow (frame_segment h (LineStart raw) f) = fg_overflow f" by simp_all
qed

lemma segments_room:
  "roomy h (fg_pending f) raws \<Longrightarrow>
     (fg_completed (fold (frame_segment h) (List.map LineStart raws) f), fg_pending (fold (frame_segment h) (List.map LineStart raws) f))
       = fold (frame_line h) raws (fg_completed f, fg_pending f)
     \<and> fg_overflow (fold (frame_segment h) (List.map LineStart raws) f) = fg_overflow f"
proof (induction raws arbitrary: f)
  case (Cons raw raws)
  let ?g = "frame_segment h (LineStart raw) f"
  have r: "rec_size (fg_pending f) + length raw \<le> max_logical_record_bytes" using Cons.prems by simp
  note s = segment_room [OF r, of h]
  have "fg_pending ?g = snd (frame_line h raw ([], fg_pending f))"
    using s(1) frame_line_recs [of h raw "fg_completed f" "fg_pending f"] by (metis snd_conv)
  then have "roomy h (fg_pending ?g) raws" using Cons.prems by simp
  from Cons.IH [OF this] show ?case using s by (simp del: frame_segment.simps frame_line.simps)
qed simp

lemma frame_room:
  assumes "roomy h p raws" "\<And>s. p = Some s \<Longrightarrow> length s \<le> max_logical_record_bytes"
  obtains f where "frame_logical_records h p (List.map LineStart raws) = Some f"
    "fg_completed f = fst (fold (frame_line h) raws ([], p))" "fg_pending f = snd (fold (frame_line h) raws ([], p))"
    "fg_overflow f = 0"
proof -
  let ?init = "\<lparr>fg_completed = [], fg_pending = p, fg_overflow = 0, fg_peak = (case p of None \<Rightarrow> 0 | Some r \<Rightarrow> length r)\<rparr>"
  let ?f = "fold (frame_segment h) (List.map LineStart raws) ?init"
  have b: "(case p of None \<Rightarrow> 0 | Some r \<Rightarrow> length r) \<le> max_logical_record_bytes"
    using assms(2) by (cases p) simp_all
  show thesis
  proof (rule that [of ?f])
    show "frame_logical_records h p (List.map LineStart raws) = Some ?f"
      using b by (simp only: frame_logical_records_def Let_def if_True)
  qed (use segments_room [of h ?init raws] assms(1) in \<open>auto simp: prod_eq_iff\<close>)
qed

subsection \<open>Rows of records\<close>

lemma u32_nat: "n \<le> u32_max \<Longrightarrow> unat (of_nat n :: u32) = n"
  by (simp add: u32_max_def unat_of_nat take_bit_nat_eq_self)

lemma unat_u32_max: "unat (n :: u32) \<le> u32_max"
proof -
  have "unat n < 2 ^ 32" using unsigned_less [of n, where ?'a = nat] by simp
  then show ?thesis by (simp add: u32_max_def)
qed

lemma unat_sat_add: "unat (sat_add_u32 a b) = min (unat a + unat b) u32_max"
  by (simp add: sat_add_u32_def sat_add32_def u32_nat)

lemma unat_sat_sub: "unat (sat_sub_u32 a b) = unat a - unat b"
  using unat_u32_max [of a] by (simp add: sat_sub_u32_def u32_nat)

lemma sat_add_assoc: "sat_add_u32 (sat_add_u32 a b) c = sat_add_u32 a (sat_add_u32 b c)"
  by (simp add: word_unat_eq_iff unat_sat_add min_def)

lemma sat_rebase:
  assumes "1 \<le> unat n" "1 \<le> unat m"
  shows "sat_add_u32 n (sat_sub_u32 (sat_add_u32 m k) 1) = sat_add_u32 (sat_add_u32 n (sat_sub_u32 m 1)) k"
proof -
  have "min (a + (min (b + c) u - 1)) u = min (min (a + (b - 1)) u + c) u" if "1 \<le> a" "1 \<le> b" for a b c u :: nat
    using that by (auto simp: min_def)
  from this [OF assms] show ?thesis by (simp add: word_unat_eq_iff unat_sat_add unat_sat_sub)
qed

text \<open>What a list of records shows: entries, errors, lines.\<close>

definition record_rows :: "inventory_env \<Rightarrow> string \<Rightarrow> inventory_dialect \<Rightarrow> framed_record \<Rightarrow> tail_entry list" where
  "record_rows env path d r = List.map (\<lambda>e. e\<lparr>file_path := path\<rparr>) (fst (project_logical_record env d r))"

fun rec_rows :: "inventory_env \<Rightarrow> string \<Rightarrow> inventory_dialect \<Rightarrow> framed_record list \<Rightarrow> u64 \<Rightarrow> u32 \<Rightarrow> tail_entry list" where
  "rec_rows env path d [] i n = []"
| "rec_rows env path d (r # rs) i n =
     number_entries i n (record_rows env path d r)
     @ rec_rows env path d rs (i + of_nat (length (record_rows env path d r))) (sat_add_u32 n (of_nat (fr_lines r)))"

fun rec_errors :: "inventory_env \<Rightarrow> inventory_dialect \<Rightarrow> framed_record list \<Rightarrow> nat \<Rightarrow> nat" where
  "rec_errors env d [] n = n"
| "rec_errors env d (r # rs) n =
     rec_errors env d rs (sat_add32 n (snd (project_logical_record env d r :: tail_entry list \<times> nat)))"

fun rec_lines :: "framed_record list \<Rightarrow> u32 \<Rightarrow> u32" where
  "rec_lines [] n = n"
| "rec_lines (r # rs) n = rec_lines rs (sat_add_u32 n (of_nat (fr_lines r)))"

lemma length_number [simp]: "length (number_entries i n es) = length es"
  by (induction es arbitrary: i) simp_all

lemma number_snoc:
  "number_entries i n (es @ fs) = number_entries i n es @ number_entries (i + of_nat (length es)) n fs"
  by (induction es arbitrary: i) (simp_all add: add.assoc)

lemma parse_record_rows:
  "Inventory.parse_record env path d r (es, errs, n) =
     (es @ number_entries (of_nat (length es)) n (record_rows env path d r),
      sat_add32 errs (snd (project_logical_record env d r :: tail_entry list \<times> nat)), sat_add_u32 n (of_nat (fr_lines r)))"
proof -
  let ?f = "\<lambda>(e :: tail_entry) es. es @ [e\<lparr>entry_id := of_nat (length es),
      line_number := sat_add_u32 n (sat_sub_u32 (line_number e) 1), file_path := path\<rparr>]"
  have "fold ?f fs es = es @ number_entries (of_nat (length es)) n (List.map (\<lambda>e. e\<lparr>file_path := path\<rparr>) fs)" for fs
    by (induction fs arbitrary: es) (simp_all add: add.commute)
  then show ?thesis by (cases "project_logical_record env d r :: tail_entry list \<times> nat") (simp add: record_rows_def)
qed

lemma parse_records_rows:
  "fold (Inventory.parse_record env path d) rs (es, errs, n) =
     (es @ rec_rows env path d rs (of_nat (length es)) n, rec_errors env d rs errs, rec_lines rs n)"
proof (induction rs arbitrary: es errs n)
  case (Cons r rs)
  show ?case
    using Cons [of "es @ number_entries (of_nat (length es)) n (record_rows env path d r)"]
    by (simp add: parse_record_rows del: Inventory.parse_record.simps)
qed simp

lemma parse_framed_rows:
  "parse_framed_records env path rs d = (rec_rows env path d rs 0 1, rec_errors env d rs 0)"
  by (simp add: parse_framed_records_def parse_records_rows)

lemma unat_rec_lines: "1 \<le> unat n \<Longrightarrow> 1 \<le> unat (rec_lines rs n)"
  by (induction rs arbitrary: n) (simp_all add: unat_sat_add u32_max_def)

lemma number_twice:
  "1 \<le> unat n \<Longrightarrow> 1 \<le> unat m \<Longrightarrow>
     number_entries i n (number_entries j m es) = number_entries i (sat_add_u32 n (sat_sub_u32 m 1)) es"
  by (induction es arbitrary: i j) (simp_all add: sat_rebase)

lemma number_rows:
  "1 \<le> unat n \<Longrightarrow> 1 \<le> unat m \<Longrightarrow>
     number_entries i n (rec_rows env path d rs j m) = rec_rows env path d rs i (sat_add_u32 n (sat_sub_u32 m 1))"
proof (induction rs arbitrary: i j m)
  case (Cons r rs)
  have "1 \<le> unat (sat_add_u32 m (of_nat (fr_lines r)))" using Cons.prems(2) by (simp add: unat_sat_add u32_max_def)
  then show ?case
    using Cons.IH Cons.prems by (simp add: number_snoc number_twice sat_rebase)
qed simp

lemma sat_sub_one [simp]: "sat_sub_u32 1 1 = 0"
  by (simp add: sat_sub_u32_def)

lemma sat_add_zero [simp]: "sat_add_u32 n 0 = n"
  by (simp add: word_unat_eq_iff unat_sat_add unat_u32_max)

lemma number_parsed:
  "1 \<le> unat n \<Longrightarrow> number_entries i n (fst (parse_framed_records env path rs d)) = rec_rows env path d rs i n"
  by (simp add: parse_framed_rows number_rows)

lemma rec_rows_append:
  "rec_rows env path d (rs @ ss) i n =
     rec_rows env path d rs i n @ rec_rows env path d ss (i + of_nat (length (rec_rows env path d rs i n))) (rec_lines rs n)"
  by (induction rs arbitrary: i n) (simp_all add: add.assoc)

lemma rec_errors_append: "rec_errors env d (rs @ ss) n = rec_errors env d ss (rec_errors env d rs n)"
  by (induction rs arbitrary: n) simp_all

lemma rec_lines_append: "rec_lines (rs @ ss) n = rec_lines ss (rec_lines rs n)"
  by (induction rs arbitrary: n) simp_all

lemma sat_add32_assoc: "sat_add32 (sat_add32 a b) c = sat_add32 a (sat_add32 b c)"
  by (simp add: sat_add32_def min_def)

lemma sat_add32_0: "n \<le> u32_max \<Longrightarrow> sat_add32 n 0 = n"
  by (simp add: sat_add32_def)

lemma rec_errors_sat: "n \<le> u32_max \<Longrightarrow> rec_errors env d rs n = sat_add32 n (rec_errors env d rs 0)"
proof (induction rs arbitrary: n)
  case (Cons r rs)
  let ?e = "snd (project_logical_record env d r :: tail_entry list \<times> nat)"
  have "rec_errors env d rs (sat_add32 0 ?e) = sat_add32 (sat_add32 0 ?e) (rec_errors env d rs 0)"
    "rec_errors env d rs (sat_add32 n ?e) = sat_add32 (sat_add32 n ?e) (rec_errors env d rs 0)"
    by (rule Cons.IH, simp)+
  moreover have "sat_add32 n (sat_add32 0 ?e) = sat_add32 n ?e" by (simp add: sat_add32_def min_def)
  ultimately show ?case unfolding rec_errors.simps by (metis sat_add32_assoc)
qed (simp add: sat_add32_0)

lemma rec_errors_le: "n \<le> u32_max \<Longrightarrow> rec_errors env d rs n \<le> u32_max"
  by (induction rs arbitrary: n) simp_all

lemma lines_fold:
  "list_all (\<lambda>r. fr_lines r \<le> u32_max) rs \<Longrightarrow> k \<le> u32_max \<Longrightarrow>
     sat_add_u32 n (of_nat (fold (\<lambda>rec n. sat_add32 n (fr_lines rec)) rs k)) = rec_lines rs (sat_add_u32 n (of_nat k))"
proof (induction rs arbitrary: k)
  case (Cons r rs)
  have "sat_add_u32 n (of_nat (sat_add32 k (fr_lines r))) = sat_add_u32 (sat_add_u32 n (of_nat k)) (of_nat (fr_lines r))"
    using Cons.prems by (simp add: word_unat_eq_iff unat_sat_add u32_nat) (simp add: sat_add32_def min_def)
  then show ?case using Cons by simp
qed simp

end
