(* ===== verification/TailInventory.thy ===== *)
theory TailInventory
  imports InventoryRows
begin

text \<open>
  Following a Device Inventory log from its beginning: while every record has room for the line after it, the
  batches of the watcher and the one it hands out when it is stopped are together what opening the log shows.
\<close>

subsection \<open>Lines with their carriage returns\<close>

definition raw_lines :: "string \<Rightarrow> string list" where
  "raw_lines t = List.map butlast (split_inclusive (finished t))"

lemma raw_lines_Nil [simp]: "raw_lines [] = []" "unfinished [] = []" "finished [] = []"
  by (simp_all add: raw_lines_def finished_def unfinished_def)

lemma raw_lines_partial:
  "CHR 0x0A \<notin> set raw \<Longrightarrow> raw_lines (t @ raw) = raw_lines t \<and> unfinished (t @ raw) = unfinished t @ raw \<and> finished (t @ raw) = finished t"
  using finished_app [of "finished t" "unfinished t @ raw"] finished_unfinished [of t]
  by (metis Un_iff append.assoc finished_ends raw_lines_def set_append unfinished_lf)

lemma raw_lines_line:
  "CHR 0x0A \<notin> set raw \<Longrightarrow>
     raw_lines (t @ raw @ [CHR 0x0A]) = raw_lines t @ [unfinished t @ raw] \<and> unfinished (t @ raw @ [CHR 0x0A]) = []
     \<and> finished (t @ raw @ [CHR 0x0A]) = t @ raw @ [CHR 0x0A]"
proof -
  assume raw: "CHR 0x0A \<notin> set raw"
  let ?u = "t @ raw @ [CHR 0x0A]"
  have u: "?u = finished t @ (unfinished t @ raw) @ [CHR 0x0A]" using finished_unfinished [of t] by (metis append.assoc)
  have f: "finished ?u = ?u" "unfinished ?u = []" using finished_app [of ?u "[]"] by (simp_all add: ends_lines_def)
  have l: "split_inclusive ((unfinished t @ raw) @ [CHR 0x0A]) = [(unfinished t @ raw) @ [CHR 0x0A]]"
    using split_inclusive_line [of "unfinished t @ raw" "[]"] raw unfinished_lf [of t] by simp
  have "split_inclusive ?u = split_inclusive (finished t) @ [(unfinished t @ raw) @ [CHR 0x0A]]"
    unfolding u split_inclusive_append [OF finished_ends] l by (rule refl)
  then have "raw_lines ?u = raw_lines t @ [butlast ((unfinished t @ raw) @ [CHR 0x0A])]" using f by (simp add: raw_lines_def)
  then show ?thesis using f unfolding butlast_snoc by simp
qed

lemma str_lines_raw:
  "list_all2 (\<lambda>l raw. trim_crs l = trim_crs raw \<and> length l \<le> length raw) (str_lines t)
     (raw_lines t @ (if unfinished t = [] then [] else [unfinished t]))"
proof -
  have strip: "trim_crs (strip_newline (l @ [CHR 0x0A])) = trim_crs l \<and> length (strip_newline (l @ [CHR 0x0A])) \<le> length l" for l
  proof -
    have "strip_newline (l @ [CHR 0x0A]) = strip_cr l" by (simp add: strip_newline_def del: strip_cr.simps)
    then show ?thesis by (cases l rule: rev_cases) (auto simp: trim_crs_def trim_end_any_def)
  qed
  have segs: "\<exists>l. seg = l @ [CHR 0x0A]" if "ends_lines s" "seg \<in> set (split_inclusive s)" for s seg
    using that
  proof (induction "length s" arbitrary: s rule: less_induct)
    case less
    show ?case
    proof (cases s rule: line_cases)
      case 1
      then have "s = []" using less.prems(1) last_in_set unfolding ends_lines_def by metis
      then show ?thesis using less.prems by simp
    next
      case (2 l u)
      then have "ends_lines u" using less.prems(1) by (cases "u = []") (simp_all add: ends_lines_def)
      then show ?thesis using less.hyps [of u] less.prems(2) 2 by (auto simp: split_inclusive_line)
    qed
  qed
  have "list_all2 (\<lambda>l raw. trim_crs l = trim_crs raw \<and> length l \<le> length raw) (List.map strip_newline ss) (List.map butlast ss)"
    if "\<And>seg. seg \<in> set ss \<Longrightarrow> \<exists>l. seg = l @ [CHR 0x0A]" for ss
    using that
  proof (induction ss)
    case (Cons x xs)
    then obtain l where "x = l @ [CHR 0x0A]" by (metis list.set_intros(1))
    then show ?case using Cons strip [of l] by simp
  qed simp
  from this [of "split_inclusive (finished t)"] segs [OF finished_ends]
  have "list_all2 (\<lambda>l raw. trim_crs l = trim_crs raw \<and> length l \<le> length raw) (str_lines (finished t)) (raw_lines t)"
    by (simp add: str_lines_def raw_lines_def)
  moreover have "str_lines t = str_lines (finished t) @ (if unfinished t = [] then [] else [unfinished t])"
    using str_lines_append [OF finished_ends, of t "unfinished t"] finished_unfinished [of t] str_lines_rest [of "unfinished t"] by simp
  ultimately show ?thesis by (auto intro!: list_all2_appendI)
qed

subsection \<open>Room\<close>

lemma roomy_append:
  "roomy h p (xs @ ys) \<longleftrightarrow> roomy h p xs \<and> roomy h (snd (fold (frame_line h) xs ([], p))) ys"
proof (induction xs arbitrary: p)
  case (Cons x xs)
  have "snd (fold (frame_line h) xs (frame_line h x ([], p))) = snd (fold (frame_line h) xs ([], snd (frame_line h x ([], p))))"
    using frame_lines_recs [of h xs "fst (frame_line h x ([], p))" "snd (frame_line h x ([], p))"] by simp
  then show ?case using Cons by (auto simp del: frame_line.simps)
qed simp

lemma frame_lines_trim:
  "list_all2 (\<lambda>l raw. trim_crs l = trim_crs raw \<and> length l \<le> length raw) ls raws \<Longrightarrow>
     fold (frame_line h) ls st = fold (frame_line h) raws st"
proof (induction ls raws arbitrary: st rule: list_all2_induct)
  case (Cons l ls raw raws)
  have "frame_line h l st = frame_line h raw st" using Cons(1) by (cases st) simp
  then show ?case using Cons by (simp del: frame_line.simps)
qed simp

lemma roomy_trim:
  "list_all2 (\<lambda>l raw. trim_crs l = trim_crs raw \<and> length l \<le> length raw) ls raws \<Longrightarrow> roomy h p raws \<Longrightarrow> roomy h p ls"
proof (induction ls raws arbitrary: p rule: list_all2_induct)
  case (Cons l ls raw raws)
  have "frame_line h l ([], p) = frame_line h raw ([], p)" using Cons(1) by simp
  then show ?case using Cons by (simp del: frame_line.simps)
qed simp

definition has_room :: "(string \<Rightarrow> bool) \<Rightarrow> string \<Rightarrow> bool" where
  "has_room h t \<longleftrightarrow> roomy h None (raw_lines t @ [unfinished t])"

lemma has_room_prefix: "has_room h (t @ u) \<Longrightarrow> has_room h t"
proof (induction u rule: rev_induct)
  case (snoc c u)
  have "has_room h (t @ u)"
  proof (cases "c = CHR 0x0A")
    case True
    then show ?thesis
      using snoc.prems raw_lines_line [of "[]" "t @ u"] by (auto simp: has_room_def roomy_append)
  next
    case False
    then show ?thesis
      using snoc.prems raw_lines_partial [of "[c]" "t @ u"] by (auto simp: has_room_def roomy_append)
  qed
  then show ?case by (rule snoc.IH)
qed simp

definition framed :: "(string \<Rightarrow> bool) \<Rightarrow> string \<Rightarrow> framed_record list \<times> string option" where
  "framed h t = fold (frame_line h) (raw_lines t) ([], None)"

lemma has_room_size: "has_room h t \<Longrightarrow> rec_size (snd (framed h t)) + length (unfinished t) \<le> max_logical_record_bytes"
  by (simp add: has_room_def roomy_append framed_def)

lemma framed_line: "CHR 0x0A \<notin> set raw \<Longrightarrow> framed h (t @ raw @ [CHR 0x0A]) = frame_line h (unfinished t @ raw) (framed h t)"
  by (simp add: framed_def raw_lines_line del: frame_line.simps)

lemma framed_partial: "CHR 0x0A \<notin> set raw \<Longrightarrow> framed h (t @ raw) = framed h t"
  by (simp add: framed_def raw_lines_partial)

lemma complete_lines_le: "fr_lines (complete_record s) \<le> u32_max"
  by (simp add: complete_record_def)

lemma framed_complete: "list_all (\<lambda>r. fr_lines r \<le> u32_max) (fst (frame_line h raw ([], p)))"
  by (auto simp: Let_def complete_lines_le split: option.splits)

subsection \<open>The reader\<close>

abbreviation header_of :: "'n tail_env \<Rightarrow> inventory_dialect \<Rightarrow> string \<Rightarrow> bool" where
  "header_of env d \<equiv> is_record_header (te_inventory env) d"

lemma inventory_parser_simps [simp]:
  "inventory_logical_dialect (device_inventory_parser d) = Some d"
  "\<not> company_portal_logical_framing (device_inventory_parser d)"
  "device_inventory_dialect (rp_specialization (device_inventory_parser d)) = Some d"
  "rp_implementation (device_inventory_parser d) = ImplIntuneDeviceInventory"
  by (cases d; simp add: device_inventory_parser_def inventory_logical_dialect_def company_portal_logical_framing_def
      device_inventory_dialect_def)+

definition with_rows :: "nat \<Rightarrow> framed_record list \<Rightarrow> 'id tail_reader \<Rightarrow> 'id tail_reader" where
  "with_rows k recs r = r\<lparr>tr_next_id := tr_next_id r + of_nat k, tr_next_line := rec_lines recs (tr_next_line r)\<rparr>"

lemma parse_logical_rows:
  assumes "1 \<le> unat (tr_next_line r)" "list_all (\<lambda>rec. fr_lines rec \<le> u32_max) recs"
  obtains b where "parse_logical_records env recs d 0 r =
      (b, with_rows (length (rec_rows (te_inventory env) (tr_path r) d recs (tr_next_id r) (tr_next_line r))) recs r)"
    "tb_entries b = annotate_error_code_spans env (rec_rows (te_inventory env) (tr_path r) d recs (tr_next_id r) (tr_next_line r))"
    "tb_errors b = rec_errors (te_inventory env) d recs 0" "plain_batch b"
proof -
  let ?iv = "te_inventory env"
  have e: "number_entries i (tr_next_line r) (annotate_error_code_spans env (rec_rows ?iv (tr_path r) d recs 0 1)) =
      annotate_error_code_spans env (rec_rows ?iv (tr_path r) d recs i (tr_next_line r))" for i
    using number_parsed [OF assms(1), of i ?iv "tr_path r" recs d] by (simp add: number_annotate parse_framed_rows)
  have len: "length (annotate_error_code_spans env es) = length es" for es by (simp add: annotate_error_code_spans_def)
  have same: "length (rec_rows ?iv (tr_path r) d recs 0 1) = length (rec_rows ?iv (tr_path r) d recs i (tr_next_line r))" for i
    using arg_cong [OF e [of i], of length] by (simp add: len)
  have l: "sat_add_u32 (tr_next_line r) (of_nat (fold (\<lambda>rec n. sat_add32 n (fr_lines rec)) recs 0)) = rec_lines recs (tr_next_line r)"
    using lines_fold [OF assms(2), of 0 "tr_next_line r"] by simp
  have z: "sat_add32 0 (rec_errors ?iv d recs 0) = rec_errors ?iv d recs 0"
    using rec_errors_le [of 0 ?iv d recs] by (simp add: sat_add32_def)
  let ?r = "with_rows (length (rec_rows ?iv (tr_path r) d recs (tr_next_id r) (tr_next_line r))) recs r"
  show thesis
    by (rule that [of "\<lparr>tb_entries = annotate_error_code_spans env (rec_rows ?iv (tr_path r) d recs (tr_next_id r) (tr_next_line r)),
          tb_amendments = [], tb_errors = rec_errors ?iv d recs 0,
          tb_through = through_after (fold (\<lambda>rec n. sat_add32 n (fr_lines rec)) recs 0) ?r, tb_reset = False\<rparr>"])
      (simp_all add: parse_logical_records_def parse_framed_rows assign_entry_identity_def e l z len with_rows_def plain_batch_def same [of "tr_next_id r"] Let_def)
qed

text \<open>One whole physical line, handed to the framer.\<close>

lemma frame_one_line:
  assumes "rec_size (map_option pl_content (tr_pending r)) + length raw \<le> max_logical_record_bytes"
    "1 \<le> unat (tr_next_line r)" "frame_line (header_of env d) raw ([], map_option pl_content (tr_pending r)) = (recs, Some p)"
  obtains b where "frame_inventory_segments env now d sel [LineStart raw] r =
      Some (b, (with_rows (length (rec_rows (te_inventory env) (tr_path r) d recs (tr_next_id r) (tr_next_line r))) recs r)
            \<lparr>tr_pending := Some \<lparr>pl_content = p, pl_updated = now, pl_selection = sel\<rparr>\<rparr>)"
    "tb_entries b = annotate_error_code_spans env (rec_rows (te_inventory env) (tr_path r) d recs (tr_next_id r) (tr_next_line r))"
    "tb_errors b = rec_errors (te_inventory env) d recs 0" "plain_batch b"
proof -
  let ?h = "header_of env d" and ?p = "map_option pl_content (tr_pending r)"
  have room: "roomy ?h ?p [raw]" using assms(1) by simp
  have small: "length s \<le> max_logical_record_bytes" if "?p = Some s" for s
    using assms(1) that by (simp add: rec_size_def)
  obtain f where f: "frame_logical_records ?h ?p (List.map LineStart [raw]) = Some f"
      "fg_completed f = recs" "fg_pending f = Some p" "fg_overflow f = 0"
    using frame_room [OF room small] assms(3) by (auto simp del: frame_line.simps)
  let ?r = "r\<lparr>tr_pending := Some \<lparr>pl_content = p, pl_updated = now, pl_selection = sel\<rparr>\<rparr>"
  have recs: "list_all (\<lambda>rec. fr_lines rec \<le> u32_max) recs"
    using framed_complete [of ?h raw ?p] assms(3) by (metis fst_conv)
  have line: "1 \<le> unat (tr_next_line ?r)" using assms(2) by simp
  obtain b where b: "parse_logical_records env recs d 0 ?r =
      (b, with_rows (length (rec_rows (te_inventory env) (tr_path ?r) d recs (tr_next_id ?r) (tr_next_line ?r))) recs ?r)"
    "tb_entries b = annotate_error_code_spans env (rec_rows (te_inventory env) (tr_path ?r) d recs (tr_next_id ?r) (tr_next_line ?r))"
    "tb_errors b = rec_errors (te_inventory env) d recs 0" "plain_batch b"
    by (rule parse_logical_rows [OF line recs])
  have "frame_inventory_segments env now d sel [LineStart raw] r = Some (parse_logical_records env recs d 0 ?r)"
    using f by (simp add: frame_inventory_segments_def)
  then show thesis using that [of b] b by (simp add: with_rows_def)
qed

definition inventory_shown :: "'n tail_env \<Rightarrow> string \<Rightarrow> inventory_dialect \<Rightarrow> framed_record list \<Rightarrow> shown_rows" where
  "inventory_shown env path d recs =
     (annotate_error_code_spans env (rec_rows (te_inventory env) path d recs 0 1), rec_errors (te_inventory env) d recs 0)"

definition inventory_holds :: "'n tail_env \<Rightarrow> string \<Rightarrow> inventory_dialect \<Rightarrow> string \<Rightarrow> shown_rows \<Rightarrow> 'id tail_reader \<Rightarrow> bool" where
  "inventory_holds env path d t rows r \<longleftrightarrow>
     rows = inventory_shown env path d (fst (framed (header_of env d) t)) \<and> tr_path r = path
     \<and> map_option pl_content (tr_pending r) = snd (framed (header_of env d) t)
     \<and> tr_fragment r = unfinished t \<and> owned (device_inventory_parser d) r
     \<and> (unfinished t \<noteq> [] \<longrightarrow> tr_fragment_selection r \<noteq> None) \<and> \<not> tr_line_continuation r
     \<and> tr_next_id r = of_nat (length (fst rows)) \<and> tr_next_line r = rec_lines (fst (framed (header_of env d) t)) 1"

lemma shown_append:
  "inventory_shown env path d (xs @ ys) =
     (fst (inventory_shown env path d xs)
      @ annotate_error_code_spans env (rec_rows (te_inventory env) path d ys (of_nat (length (fst (inventory_shown env path d xs)))) (rec_lines xs 1)),
      sat_add32 (snd (inventory_shown env path d xs)) (rec_errors (te_inventory env) d ys 0))"
proof -
  have "rec_errors (te_inventory env) d ys (rec_errors (te_inventory env) d xs 0) =
      sat_add32 (rec_errors (te_inventory env) d xs 0) (rec_errors (te_inventory env) d ys 0)"
    by (rule rec_errors_sat) (rule rec_errors_le, simp)
  then show ?thesis
    by (simp add: inventory_shown_def rec_rows_append rec_errors_append annotate_error_code_spans_def)
qed

subsection \<open>Segments\<close>

lemma trim_crs_idem [simp]: "trim_crs (trim_crs s) = trim_crs s"
proof -
  have "dropWhile P (dropWhile P x) = dropWhile P x" for P and x :: string by (induction x) auto
  then show ?thesis by (simp add: trim_crs_def trim_end_any_def)
qed

lemma trim_crs_join: "trim_crs (s @ trim_crs raw) = trim_crs (s @ raw)"
proof -
  have "dropWhile P (dropWhile P x @ y) = dropWhile P (x @ y)" for P and x y :: string
    by (induction x) auto
  then show ?thesis by (simp add: trim_crs_def trim_end_any_def)
qed

lemma frame_line_trim: "frame_line h (trim_crs raw) st = frame_line h raw st"
  by (cases st) simp

lemma frame_line_some: "\<exists>recs p. frame_line h raw st = (recs, Some p)"
  by (cases st) (simp add: Let_def)

lemma fragment_fits:
  assumes "rec_size (map_option pl_content (tr_pending r)) + length (tr_fragment r) + length content \<le> max_logical_record_bytes"
  shows "fragment_round env now d sel content r = Some (empty_batch False,
    if content = [] then r else r\<lparr>tr_fragment := tr_fragment r @ content, tr_fragment_selection := Some (sel, now)\<rparr>)"
proof (cases "content = []")
  case False
  have "length content \<le> max_logical_record_bytes - (case tr_pending r of None \<Rightarrow> 0 | Some p \<Rightarrow> length (pl_content p))
      - (if tr_pending r \<noteq> None then 1 else 0) - length (tr_fragment r)"
    using assms by (cases "tr_pending r") (simp_all add: rec_size_def)
  then have "floor_boundary content (min (max_logical_record_bytes - (case tr_pending r of None \<Rightarrow> 0 | Some p \<Rightarrow> length (pl_content p))
      - (if tr_pending r \<noteq> None then 1 else 0) - length (tr_fragment r)) (length content)) = length content"
    by (simp only: min_absorb2 floor_boundary_id boundary_length)
  then show ?thesis using False by (simp add: fragment_round_def Let_def)
qed (simp add: fragment_round_def)

lemma line_done:
  assumes "inventory_holds env path d t (es, n) r" "CHR 0x0A \<notin> set raw"
    "frame_line (header_of env d) (unfinished t @ raw) ([], snd (framed (header_of env d) t)) = (recs, Some p)"
    "r' = (with_rows (length (rec_rows (te_inventory env) path d recs (tr_next_id r) (tr_next_line r))) recs s)
       \<lparr>tr_pending := Some \<lparr>pl_content = p, pl_updated = now, pl_selection = device_inventory_parser d\<rparr>,
        tr_line_continuation := False, tr_fragment_selection := None\<rparr>"
    "kept r s" "tr_fragment s = []" "tr_next_id s = tr_next_id r" "tr_next_line s = tr_next_line r"
  shows "inventory_holds env path d (t @ raw @ [CHR 0x0A])
     (es @ annotate_error_code_spans env (rec_rows (te_inventory env) path d recs (tr_next_id r) (tr_next_line r)),
      sat_add32 n (rec_errors (te_inventory env) d recs 0)) r'"
proof -
  let ?h = "header_of env d"
  have f: "framed ?h (t @ raw @ [CHR 0x0A]) = (fst (framed ?h t) @ recs, Some p)"
    using framed_line [OF assms(2), of ?h t] frame_line_recs [of ?h "unfinished t @ raw" "fst (framed ?h t)" "snd (framed ?h t)"]
      assms(3) by (simp del: frame_line.simps)
  have u: "unfinished (t @ raw @ [CHR 0x0A]) = []" using raw_lines_line [OF assms(2), of t] by simp
  note h = assms(1) [unfolded inventory_holds_def]
  have rows: "(es @ annotate_error_code_spans env (rec_rows (te_inventory env) path d recs (tr_next_id r) (tr_next_line r)),
      sat_add32 n (rec_errors (te_inventory env) d recs 0)) = inventory_shown env path d (fst (framed ?h t) @ recs)"
    using h unfolding shown_append by (metis fst_conv snd_conv)
  have len: "length (annotate_error_code_spans env es) = length es" for es by (simp add: annotate_error_code_spans_def)
  show ?thesis
    unfolding inventory_holds_def rows f u
    using h assms(4-) by (simp add: rows [symmetric] with_rows_def kept_def owned_def rec_lines_append len)
qed

lemma segment_line:
  assumes "inventory_holds env path d t (es, n) r" "CHR 0x0A \<notin> set raw"
    "rec_size (snd (framed (header_of env d) t)) + length (unfinished t @ raw) \<le> max_logical_record_bytes"
  shows "\<exists>b r'. process_inventory_line_segment env now d (device_inventory_parser d) raw True r = Some (b, r')
    \<and> inventory_holds env path d (t @ raw @ [CHR 0x0A]) (es @ tb_entries b, sat_add32 n (tb_errors b)) r' \<and> kept r r' \<and> plain_batch b"
proof -
  let ?h = "header_of env d" and ?sel = "device_inventory_parser d" and ?iv = "te_inventory env"
  note h = assms(1) [unfolded inventory_holds_def]
  have pend: "map_option pl_content (tr_pending r) = snd (framed ?h t)" and path: "tr_path r = path"
    and frag: "tr_fragment r = unfinished t" and cont: "\<not> tr_line_continuation r"
    using h by simp_all
  have line: "1 \<le> unat (tr_next_line r)" using h unat_rec_lines [of 1 "fst (framed ?h t)"] by simp
  obtain recs p where fl: "frame_line ?h (unfinished t @ raw) ([], snd (framed ?h t)) = (recs, Some p)"
    using frame_line_some by blast
  let ?new = "rec_rows ?iv path d recs (tr_next_id r) (tr_next_line r)"
  have tl: "length (trim_crs raw) \<le> length raw" by (rule trim_crs_length)
  show ?thesis
  proof (cases "unfinished t = []")
    case True
    have size: "rec_size (map_option pl_content (tr_pending r)) + length (trim_crs raw) \<le> max_logical_record_bytes"
      using assms(3) tl pend True by simp
    have "frame_line ?h (trim_crs raw) ([], map_option pl_content (tr_pending r)) = (recs, Some p)"
      using fl True pend by (simp only: frame_line_trim append_Nil)
    then obtain b where b: "frame_inventory_segments env now d ?sel [LineStart (trim_crs raw)] r =
      Some (b, (with_rows (length (rec_rows ?iv (tr_path r) d recs (tr_next_id r) (tr_next_line r))) recs r)
            \<lparr>tr_pending := Some \<lparr>pl_content = p, pl_updated = now, pl_selection = ?sel\<rparr>\<rparr>)"
      "tb_entries b = annotate_error_code_spans env (rec_rows ?iv (tr_path r) d recs (tr_next_id r) (tr_next_line r))"
      "tb_errors b = rec_errors ?iv d recs 0" "plain_batch b"
      by (rule frame_one_line [OF size line])
    let ?r' = "(with_rows (length ?new) recs r)
       \<lparr>tr_pending := Some \<lparr>pl_content = p, pl_updated = now, pl_selection = ?sel\<rparr>,
        tr_line_continuation := False, tr_fragment_selection := None\<rparr>"
    have "process_inventory_line_segment env now d ?sel raw True r = Some (b, ?r')"
      using b(1) True frag cont path by (simp add: process_inventory_line_segment_def with_rows_def)
    moreover have "inventory_holds env path d (t @ raw @ [CHR 0x0A]) (es @ tb_entries b, sat_add32 n (tb_errors b)) ?r'"
      using line_done [OF assms(1,2) fl refl kept_refl] frag True b(2,3) path by simp
    moreover have "kept r ?r'" by (simp add: kept_def with_rows_def)
    ultimately show ?thesis using b(4) by (intro exI [of _ b] exI [of _ ?r']) simp
  next
    case False
    let ?c = "trim_crs raw"
    let ?r1 = "if ?c = [] then r else r\<lparr>tr_fragment := tr_fragment r @ ?c, tr_fragment_selection := Some (?sel, now)\<rparr>"
    have fits: "rec_size (map_option pl_content (tr_pending r)) + length (tr_fragment r) + length ?c \<le> max_logical_record_bytes"
      using assms(3) tl pend frag by simp
    note fr = fragment_fits [OF fits, of env now d ?sel]
    let ?s = "?r1\<lparr>tr_fragment := []\<rparr>"
    have s: "tr_pending ?s = tr_pending r" "tr_next_line ?s = tr_next_line r" "tr_next_id ?s = tr_next_id r"
      "tr_path ?s = path" "tr_fragment ?s = []" "kept r ?s" "tr_line_continuation ?s = tr_line_continuation r"
      using path by (simp_all add: kept_def)
    have f1: "tr_fragment ?r1 = unfinished t @ ?c" using frag by simp
    have size: "rec_size (map_option pl_content (tr_pending ?s)) + length (trim_crs (unfinished t @ raw)) \<le> max_logical_record_bytes"
      using assms(3) trim_crs_length [of "unfinished t @ raw"] pend s(1) by simp
    have line1: "1 \<le> unat (tr_next_line ?s)" using line s(2) by simp
    have "frame_line ?h (trim_crs (unfinished t @ raw)) ([], map_option pl_content (tr_pending ?s)) = (recs, Some p)"
      using fl pend s(1) by (simp only: frame_line_trim)
    then obtain b where b: "frame_inventory_segments env now d ?sel [LineStart (trim_crs (unfinished t @ raw))] ?s =
      Some (b, (with_rows (length (rec_rows ?iv (tr_path ?s) d recs (tr_next_id ?s) (tr_next_line ?s))) recs ?s)
            \<lparr>tr_pending := Some \<lparr>pl_content = p, pl_updated = now, pl_selection = ?sel\<rparr>\<rparr>)"
      "tb_entries b = annotate_error_code_spans env (rec_rows ?iv (tr_path ?s) d recs (tr_next_id ?s) (tr_next_line ?s))"
      "tb_errors b = rec_errors ?iv d recs 0" "plain_batch b"
      by (rule frame_one_line [OF size line1])
    let ?r' = "(with_rows (length ?new) recs ?s)
       \<lparr>tr_pending := Some \<lparr>pl_content = p, pl_updated = now, pl_selection = ?sel\<rparr>,
        tr_line_continuation := False, tr_fragment_selection := None\<rparr>"
    let ?b = "batch_append (empty_batch False) b"
    have c1: "\<not> tr_line_continuation ?r1" using cont by simp
    have "process_inventory_line_segment env now d ?sel raw True r = Some (?b, ?r')"
      using b(1) False frag cont s fr c1 f1
      by (simp add: process_inventory_line_segment_def with_rows_def trim_crs_join del: if_split_asm)
    moreover have "tb_entries ?b = annotate_error_code_spans env ?new" "tb_errors ?b = rec_errors ?iv d recs 0"
      using b(2,3) s rec_errors_le [of 0 ?iv d recs] by (simp_all add: batch_append_def empty_batch_def sat_add32_def)
    moreover have "kept r ?r'" using s(6) by (simp add: kept_def with_rows_def)
    moreover have "plain_batch ?b" using b(4) by simp
    moreover have "inventory_holds env path d (t @ raw @ [CHR 0x0A])
        (es @ annotate_error_code_spans env ?new, sat_add32 n (rec_errors ?iv d recs 0)) ?r'"
      by (rule line_done [OF assms(1,2) fl refl s(6,5,3,2)])
    ultimately show ?thesis by (intro exI [of _ ?b] exI [of _ ?r']) simp
  qed
qed

lemma segment_partial:
  assumes "inventory_holds env path d t (es, n) r" "CHR 0x0A \<notin> set raw" "raw \<noteq> []"
    "rec_size (snd (framed (header_of env d) t)) + length (unfinished t @ raw) \<le> max_logical_record_bytes"
  shows "\<exists>r'. process_inventory_line_segment env now d (device_inventory_parser d) raw False r = Some (empty_batch False, r')
    \<and> inventory_holds env path d (t @ raw) (es, n) r' \<and> kept r r'"
proof -
  let ?h = "header_of env d" and ?sel = "device_inventory_parser d"
  note h = assms(1) [unfolded inventory_holds_def]
  have fits: "rec_size (map_option pl_content (tr_pending r)) + length (tr_fragment r) + length raw \<le> max_logical_record_bytes"
    using assms(4) h by simp
  let ?r' = "r\<lparr>tr_fragment := tr_fragment r @ raw, tr_fragment_selection := Some (?sel, now)\<rparr>"
  have p: "process_inventory_line_segment env now d ?sel raw False r = Some (empty_batch False, ?r')"
    using fragment_fits [OF fits, of env now d ?sel] assms(3) h by (simp add: process_inventory_line_segment_def)
  have "es = fst (inventory_shown env path d (fst (framed ?h t)))" using h by (metis fst_conv)
  then have "inventory_holds env path d (t @ raw) (es, n) ?r'"
    using h raw_lines_partial [OF assms(2), of t] by (simp add: inventory_holds_def framed_partial [OF assms(2)] owned_def)
  moreover have "kept r ?r'" by (simp add: kept_def)
  ultimately show ?thesis using p by (intro exI [of _ ?r']) simp
qed

lemma holds_errors_le: "inventory_holds env path d t (es, n) r \<Longrightarrow> n \<le> u32_max"
proof -
  assume "inventory_holds env path d t (es, n) r"
  then have "n = snd (inventory_shown env path d (fst (framed (header_of env d) t)))"
    unfolding inventory_holds_def by (metis snd_conv)
  then show ?thesis by (simp add: inventory_shown_def rec_errors_le)
qed

lemma segments_read:
  "inventory_holds env path d t (es, n) r \<Longrightarrow> has_room (header_of env d) (t @ u) \<Longrightarrow> tb_errors batch \<le> u32_max \<Longrightarrow>
     \<exists>b r' new m. process_inventory_segments env now d (device_inventory_parser d) (split_inclusive u) batch r = Some (b, r')
       \<and> tb_entries b = tb_entries batch @ new \<and> tb_errors b = sat_add32 (tb_errors batch) m
       \<and> (plain_batch batch \<longrightarrow> plain_batch b) \<and> inventory_holds env path d (t @ u) (es @ new, sat_add32 n m) r' \<and> kept r r'"
proof (induction "length u" arbitrary: u t es n r batch rule: less_induct)
  case less
  let ?h = "header_of env d" and ?sel = "device_inventory_parser d"
  have n: "sat_add32 n 0 = n" using holds_errors_le [OF less.prems(1)] by (rule sat_add32_0)
  show ?case
  proof (cases u rule: line_cases)
    case 1
    show ?thesis
    proof (cases "u = []")
      case True
      then show ?thesis using less.prems n
        by (intro exI [of _ batch] exI [of _ r] exI [of _ "[]"] exI [of _ 0]) (simp add: sat_add32_0)
    next
      case False
      have size: "rec_size (snd (framed ?h t)) + length (unfinished t @ u) \<le> max_logical_record_bytes"
        using has_room_size [OF less.prems(2)] raw_lines_partial [OF 1, of t] framed_partial [OF 1, of ?h t] by simp
      have noLF: "\<not> (u \<noteq> [] \<and> last u = CHR 0x0A)" using 1 last_in_set by metis
      obtain r' where r': "process_inventory_line_segment env now d ?sel u False r = Some (empty_batch False, r')"
          "inventory_holds env path d (t @ u) (es, n) r'" "kept r r'"
        using segment_partial [OF less.prems(1) 1 False size, of now] by blast
      then show ?thesis
        using split_inclusive_rest [OF 1] False noLF n less.prems(3)
        by (intro exI [of _ "batch_append batch (empty_batch False)"] exI [of _ r'] exI [of _ "[]"] exI [of _ 0])
          (simp add: batch_append_def empty_batch_def plain_batch_def)
    qed
  next
    case (2 raw v)
    have u: "split_inclusive u = (raw @ [CHR 0x0A]) # split_inclusive v" using 2 by (simp add: split_inclusive_line)
    have tu: "t @ u = (t @ raw) @ CHR 0x0A # v" using 2 by simp
    have "has_room ?h (t @ raw)" using has_room_prefix less.prems(2) unfolding tu by blast
    then have size: "rec_size (snd (framed ?h t)) + length (unfinished t @ raw) \<le> max_logical_record_bytes"
      using has_room_size [of ?h "t @ raw"] raw_lines_partial [OF 2(2), of t] framed_partial [OF 2(2), of ?h t] by simp
    obtain b r' where b: "process_inventory_line_segment env now d ?sel raw True r = Some (b, r')"
        "inventory_holds env path d (t @ raw @ [CHR 0x0A]) (es @ tb_entries b, sat_add32 n (tb_errors b)) r'" "kept r r'" "plain_batch b"
      using segment_line [OF less.prems(1) 2(2) size, of now] by blast
    have "length v < length u" using 2(1) by simp
    moreover have "has_room ?h ((t @ raw @ [CHR 0x0A]) @ v)" using less.prems(2) 2(1) by simp
    moreover have "tb_errors (batch_append batch b) \<le> u32_max" by (simp add: batch_append_def)
    ultimately obtain c r'' new m where c: "process_inventory_segments env now d ?sel (split_inclusive v) (batch_append batch b) r' = Some (c, r'')"
        "tb_entries c = tb_entries (batch_append batch b) @ new" "tb_errors c = sat_add32 (tb_errors (batch_append batch b)) m"
        "plain_batch (batch_append batch b) \<longrightarrow> plain_batch c"
        "inventory_holds env path d ((t @ raw @ [CHR 0x0A]) @ v) ((es @ tb_entries b) @ new, sat_add32 (sat_add32 n (tb_errors b)) m) r''"
        "kept r' r''"
      using less.hyps [OF _ b(2)] by blast
    have "(if raw @ [CHR 0x0A] \<noteq> [] \<and> last (raw @ [CHR 0x0A]) = CHR 0x0A then butlast (raw @ [CHR 0x0A]) else raw @ [CHR 0x0A]) = raw"
      "(raw @ [CHR 0x0A] \<noteq> [] \<and> last (raw @ [CHR 0x0A]) = CHR 0x0A) = True"
      unfolding butlast_snoc by simp_all
    then have "process_inventory_segments env now d ?sel (split_inclusive u) batch r = Some (c, r'')"
      using b(1) c(1) unfolding u process_inventory_segments.simps by simp
    moreover have "tb_entries c = tb_entries batch @ tb_entries b @ new" "tb_errors c = sat_add32 (tb_errors batch) (sat_add32 (tb_errors b) m)"
      using c(2,3) by (simp_all add: batch_append_def sat_add32_assoc)
    moreover have "inventory_holds env path d (t @ u) (es @ tb_entries b @ new, sat_add32 n (sat_add32 (tb_errors b) m)) r''"
      using c(5) 2(1) by (simp add: sat_add32_assoc)
    moreover have "plain_batch batch \<longrightarrow> plain_batch c" using c(4) b(4) by simp
    moreover have "kept r r''" using b(3) c(6) by (rule kept_trans)
    ultimately show ?thesis by blast
  qed
qed

lemma inventory_read:
  assumes "inventory_holds env path d t (es, n) r" "has_room (header_of env d) (t @ u)" "tr_selection r = device_inventory_parser d"
  shows "\<exists>b r'. read_text env now file_size u (empty_batch False) r = Some (b, r')
     \<and> inventory_holds env path d (t @ u) (es @ tb_entries b, sat_add32 n (tb_errors b)) r'
     \<and> tr_offset r' = file_size \<and> kept r r' \<and> plain_batch b"
proof -
  have n: "sat_add32 n 0 = n" using holds_errors_le [OF assms(1)] by (rule sat_add32_0)
  have off: "inventory_holds env path d t' rows (s\<lparr>tr_offset := file_size\<rparr>) = inventory_holds env path d t' rows s" for t' rows and s :: "'b tail_reader"
    by (simp add: inventory_holds_def owned_def)
  show ?thesis
  proof (cases "u = []")
    case True
    then show ?thesis using assms n off
      by (intro exI [of _ "empty_batch False"] exI [of _ "r\<lparr>tr_offset := file_size\<rparr>"])
        (simp add: read_text_def kept_def, simp add: empty_batch_def)
  next
    case False
    have "tb_errors (empty_batch False) \<le> u32_max" by (simp add: empty_batch_def)
    then obtain b r' new m where b: "process_inventory_segments env now d (device_inventory_parser d) (split_inclusive u) (empty_batch False) r = Some (b, r')"
        "tb_entries b = tb_entries (empty_batch False) @ new" "tb_errors b = sat_add32 (tb_errors (empty_batch False)) m"
        "plain_batch (empty_batch False) \<longrightarrow> plain_batch b" "inventory_holds env path d (t @ u) (es @ new, sat_add32 n m) r'" "kept r r'"
      using segments_read [OF assms(1,2)] by blast
    have m: "sat_add32 n (sat_add32 0 (sat_add32 0 m)) = sat_add32 n m" by (simp add: sat_add32_def min_def)
    let ?b = "batch_append (empty_batch False) b"
    have "read_text env now file_size u (empty_batch False) r = Some (?b, r'\<lparr>tr_offset := file_size\<rparr>)"
      using b(1) False assms(3) by (simp add: read_text_def process_inventory_text_def)
    moreover have "es @ tb_entries ?b = es @ new" "sat_add32 n (tb_errors ?b) = sat_add32 n m"
      using b(2,3) m by (simp_all add: batch_append_def empty_batch_def)
    moreover have "kept r (r'\<lparr>tr_offset := file_size\<rparr>)" "plain_batch ?b" using b(4,6) by (simp_all add: kept_def)
    ultimately show ?thesis using b(5) off
      by (intro exI [of _ ?b] exI [of _ "r'\<lparr>tr_offset := file_size\<rparr>"]) simp
  qed
qed

interpretation inventory_log: followed_log env "device_inventory_parser d" "inventory_holds env path d" "has_room (header_of env d)"
  for env path d
proof
  show "inventory_holds env path d t rows r \<Longrightarrow> owned (device_inventory_parser d) r" for t rows and r :: "'id tail_reader"
    by (simp add: inventory_holds_def)
  show "inventory_holds env path d t rows r \<Longrightarrow> snd rows \<le> u32_max" for t rows and r :: "'id tail_reader"
    using holds_errors_le [of env path d t "fst rows" "snd rows" r] by simp
  show "inventory_holds env path d t rows r \<Longrightarrow> inventory_holds env path d t rows (r\<lparr>tr_identity := i\<rparr>)" for t rows i and r :: "'id tail_reader"
    by (simp add: inventory_holds_def owned_def)
  show "inventory_holds env path d t rows r \<Longrightarrow> inventory_holds env path d t rows (installed i off q carried_sel r)"
    for t rows i off q carried_sel and r :: "'id tail_reader"
    by (simp add: inventory_holds_def installed_def owned_def)
qed (simp_all add: inventory_read has_room_prefix)

lemma follows_alive:
  assumes "follows i seen ((paused, x) # ts) fin"
  shows "\<exists>seen'. follows i seen' ts fin" "watch_turn env paused x r = Some (bs, alive, r') \<Longrightarrow> alive"
  using assms by (cases x; auto split: if_splits)+

lemma watch_turns_then:
  "follows i seen turns fin \<Longrightarrow> watch_turns env (turns @ later) r =
     do { (bs, r) \<leftarrow> watch_turns env turns r; (cs, r) \<leftarrow> watch_turns env later r; Some (bs @ cs, r) }"
proof (induction turns arbitrary: seen r)
  case Nil
  show ?case by (cases "watch_turns env later r") auto
next
  case (Cons e turns)
  obtain paused x where e: "e = (paused, x)" by (cases e)
  obtain seen' where f: "follows i seen' turns fin" using follows_alive(1) Cons.prems e by blast
  show ?case
  proof (cases "watch_turn env paused x r")
    case (Some y)
    obtain bs alive r' where y: "y = (bs, alive, r')" by (cases y)
    have "alive" using follows_alive(2) Cons.prems e Some y by metis
    then show ?thesis
      using Cons.IH [OF f, of r'] Some y e
      by (cases "watch_turns env turns r'") (auto simp: split: Option.bind_splits)
  qed (simp add: e)
qed

subsection \<open>The whole log\<close>

definition closed_records :: "framed_record list \<times> string option \<Rightarrow> framed_record list" where
  "closed_records st = fst st @ (case snd st of None \<Rightarrow> [] | Some p \<Rightarrow> [complete_record p])"

definition all_records :: "(string \<Rightarrow> bool) \<Rightarrow> string \<Rightarrow> framed_record list" where
  "all_records h t = closed_records (fold (frame_line h) (raw_lines t @ (if unfinished t = [] then [] else [unfinished t])) ([], None))"

lemma flush_closed:
  "fg_completed (flush_framing f) = closed_records (fg_completed f, fg_pending f)"
  by (simp add: flush_framing_def closed_records_def split: option.splits)

lemma open_inventory:
  assumes "has_room (header_of env d) u"
  shows "parse_content_with_selection env u path (device_inventory_parser d) =
    Some (inventory_shown env path d (all_records (header_of env d) u))"
proof -
  let ?h = "header_of env d"
  let ?raws = "raw_lines u @ (if unfinished u = [] then [] else [unfinished u])"
  have "roomy ?h None ?raws" using assms by (simp add: has_room_def roomy_append)
  then have "roomy ?h None (str_lines u)" by (rule roomy_trim [OF str_lines_raw])
  then obtain f where f: "frame_logical_records ?h None (List.map LineStart (str_lines u)) = Some f"
      "fg_completed f = fst (fold (frame_line ?h) (str_lines u) ([], None))"
      "fg_pending f = snd (fold (frame_line ?h) (str_lines u) ([], None))" "fg_overflow f = 0"
    by (rule frame_room) simp_all
  have c: "fg_completed (flush_framing f) = all_records ?h u"
    unfolding flush_closed f(2,3) all_records_def frame_lines_trim [OF str_lines_raw] by simp
  have o: "fg_overflow (flush_framing f) = 0" using f(4) by (simp add: flush_framing_def split: option.splits)
  have "parse_inventory_content (te_inventory env) path u d =
      Some (rec_rows (te_inventory env) path d (all_records ?h u) 0 1, rec_errors (te_inventory env) d (all_records ?h u) 0)"
    using f(1) c o rec_errors_le [of 0 "te_inventory env" d "all_records ?h u"]
    by (simp add: parse_inventory_content_def parse_inventory_lines_def parse_framed_rows sat_add32_0 Let_def)
  then show ?thesis by (simp add: parse_content_with_selection_def inventory_shown_def)
qed

lemma all_records_split:
  "all_records h u = fst (framed h u) @ closed_records (fold (frame_line h) (if unfinished u = [] then [] else [unfinished u]) ([], snd (framed h u)))"
  using frame_lines_recs [of h "if unfinished u = [] then [] else [unfinished u]" "fst (framed h u)" "snd (framed h u)"]
  by (simp add: all_records_def closed_records_def framed_def)

lemma shown_empty [simp]: "inventory_shown env path d [] = ([], 0)"
  by (simp add: inventory_shown_def annotate_error_code_spans_def)

lemma flush_inventory:
  assumes "inventory_holds env path d u (es, n) r" "has_room (header_of env d) u"
  obtains b r' where "flush_pending_text env r = Some (b, r')"
    "(es @ tb_entries b, sat_add32 n (tb_errors b)) = inventory_shown env path d (all_records (header_of env d) u)"
    "plain_batch b" "tr_utf8 r' = tr_utf8 r"
proof -
  let ?h = "header_of env d" and ?sel = "device_inventory_parser d" and ?iv = "te_inventory env"
  let ?F = "unfinished u" and ?P = "snd (framed ?h u)" and ?R = "fst (framed ?h u)"
  note h = assms(1) [unfolded inventory_holds_def]
  have own: "owned ?sel r" and pend: "map_option pl_content (tr_pending r) = ?P" and frag: "tr_fragment r = ?F"
    and rows: "(es, n) = inventory_shown env path d ?R" and path: "tr_path r = path" using h by simp_all
  have line: "1 \<le> unat (tr_next_line r)" using h unat_rec_lines [of 1 ?R] by simp
  let ?raws = "if ?F = [] then [] else [?F]"
  obtain recs pc where rp: "fold (frame_line ?h) ?raws ([], ?P) = (recs, pc)" by fastforce
  have all: "all_records ?h u = ?R @ closed_records (recs, pc)" using all_records_split [of ?h u] rp by simp
  let ?selection = "case tr_pending r of Some p \<Rightarrow> Some (pl_selection p) | None \<Rightarrow> map_option fst (tr_fragment_selection r)"
  let ?r1 = "r\<lparr>tr_pending := None, tr_fragment := [], tr_fragment_selection := None\<rparr>"
  show thesis
  proof (cases ?selection)
    case None
    then have "tr_pending r = None" "tr_fragment_selection r = None" by (auto split: option.splits)
    then have "?F = []" "?P = None" using h by auto
    then have "all_records ?h u = ?R" using all rp by (simp add: closed_records_def)
    moreover have "sat_add32 n 0 = n" using holds_errors_le [OF assms(1)] by (rule sat_add32_0)
    moreover have "flush_pending_text env r = Some (empty_batch False, ?r1)"
      using None by (simp add: flush_pending_text_def)
    ultimately show thesis
      using that [of "empty_batch False" ?r1] rows by (simp add: empty_batch_def plain_batch_def)
  next
    case (Some s)
    then have s: "s = ?sel" using own by (auto simp: owned_def split: option.splits)
    have size: "rec_size ?P + length ?F \<le> max_logical_record_bytes" by (rule has_room_size [OF assms(2)])
    have small: "length q \<le> max_logical_record_bytes" if "?P = Some q" for q using size that by (simp add: rec_size_def)
    have first: "(if ?F \<noteq> [] then do { f \<leftarrow> frame_logical_records ?h ?P [LineStart ?F]; Some (fg_pending f, fg_completed f, fg_overflow f) }
        else Some (?P, [], 0)) = Some (pc, recs, 0)"
    proof (cases "?F = []")
      case False
      have "roomy ?h ?P [?F]" using size by simp
      then obtain f where "frame_logical_records ?h ?P (List.map LineStart [?F]) = Some f"
          "fg_completed f = fst (fold (frame_line ?h) [?F] ([], ?P))" "fg_pending f = snd (fold (frame_line ?h) [?F] ([], ?P))"
          "fg_overflow f = 0"
        using frame_room [OF _ small] by blast
      then show ?thesis using False rp by simp
    qed (use rp in simp)
    have pc: "length q \<le> max_logical_record_bytes" if "pc = Some q" for q
    proof (cases "?F = []")
      case False
      then have "snd (frame_line ?h ?F ([], ?P)) = Some q" using rp that by simp
      then show ?thesis using frame_line_size [OF size] by blast
    qed (use rp that small in simp)
    have "roomy ?h pc []" by simp
    then obtain f2 where f2: "frame_logical_records ?h pc (List.map LineStart []) = Some f2"
        "fg_completed f2 = fst (fold (frame_line ?h) [] ([], pc))" "fg_pending f2 = snd (fold (frame_line ?h) [] ([], pc))" "fg_overflow f2 = 0"
      using frame_room [OF _ pc] by blast
    let ?recs = "closed_records (recs, pc)"
    let ?r2 = "?r1\<lparr>tr_line_continuation := False\<rparr>"
    have c: "recs @ fg_completed (flush_framing f2) = ?recs" "fg_overflow (flush_framing f2) = 0"
      using f2 by (simp_all add: flush_framing_def closed_records_def split: option.splits)
    have le: "list_all (\<lambda>rec. fr_lines rec \<le> u32_max) ?recs"
    proof -
      have "list_all (\<lambda>rec. fr_lines rec \<le> u32_max) recs"
        using rp framed_complete [of ?h ?F ?P] by (auto split: if_splits simp del: frame_line.simps)
      then show ?thesis by (simp add: closed_records_def complete_lines_le split: option.splits)
    qed
    have line2: "1 \<le> unat (tr_next_line ?r2)" using line by simp
    obtain b where b: "parse_logical_records env ?recs d 0 ?r2 =
        (b, with_rows (length (rec_rows ?iv (tr_path ?r2) d ?recs (tr_next_id ?r2) (tr_next_line ?r2))) ?recs ?r2)"
      "tb_entries b = annotate_error_code_spans env (rec_rows ?iv (tr_path ?r2) d ?recs (tr_next_id ?r2) (tr_next_line ?r2))"
      "tb_errors b = rec_errors ?iv d ?recs 0" "plain_batch b"
      by (rule parse_logical_rows [OF line2 le])
    have f2': "frame_logical_records ?h pc [] = Some f2" using f2(1) by simp
    have inv: "inventory_logical_dialect s = Some d" by (simp add: s)
    have "flush_pending_text env r = Some (parse_logical_records env ?recs d (sat_add32 0 0) ?r2)"
      unfolding flush_pending_text_def Let_def Some pend frag option.case inv first
      by (simp add: f2' c)
    then have "flush_pending_text env r = Some (b, with_rows (length (rec_rows ?iv path d ?recs (tr_next_id r) (tr_next_line r))) ?recs ?r2)"
      using b(1) path by (simp add: sat_add32_def)
    moreover have "(es @ tb_entries b, sat_add32 n (tb_errors b)) = inventory_shown env path d (all_records ?h u)"
      using b(2,3) path h unfolding all shown_append rows [symmetric] by simp
    ultimately show thesis using that b(4) by (simp add: with_rows_def)
  qed
qed


subsection \<open>A sample log\<close>

definition sample_inventory_log :: string where
  "sample_inventory_log = ''[a'' @ [CHR 0x0A] @ ''b'' @ [CHR 0x0D, CHR 0x0A] @ ''[c''"

definition sample_inventory_turns :: "(bool \<times> nat watch_event) list" where
  "sample_inventory_turns =
     [(False, FileChanged 1 (Some (log_at (Some 1) (''[a'' @ [CHR 0x0A] @ ''b'' @ [CHR 0x0D])))),
      (False, PollTimeout 2 None), (False, PollTimeout 3 (Some (log_at (Some 1) sample_inventory_log)))]"

lemma trim_crs_samples [simp]:
  "trim_crs ''[a'' = ''[a''" "trim_crs ''b'' = ''b''" "trim_crs [CHR ''b'', CHR 0x0D] = ''b''" "trim_crs ''[c'' = ''[c''"
  by code_simp+

lemma sample_headers: "is_record_header (te_inventory sample_tail_env) InventoryAdaptor l \<longleftrightarrow> prefix ''['' l"
  by (simp add: is_record_header_def sample_tail_env_def)

lemma parse_header_sample: "parse_header (te_inventory sample_tail_env) InventoryAdaptor l n =
    (if prefix ''['' l then Some (parse_adaptor (te_inventory sample_tail_env) \<lparr>ac_timestamp = l, ac_pid = ''7'', ac_message = tl l\<rparr> n)
     else None)"
  by (simp add: parse_header_def sample_tail_env_def)

lemma sample_time: "adaptor_time (te_inventory sample_tail_env) l = None" "te_spans sample_tail_env l = []"
  by (simp_all add: sample_tail_env_def)

lemma project_samples:
  "\<exists>e. record_rows (te_inventory sample_tail_env) p InventoryAdaptor (complete_record (''[a'' @ [CHR 0x0A] @ ''b'')) = [e]
     \<and> message e = ''a'' @ [CHR 0x0A] @ ''b'' \<and> line_number e = 1"
  "\<exists>e. record_rows (te_inventory sample_tail_env) p InventoryAdaptor (complete_record ''[c'') = [e]
     \<and> message e = ''c'' \<and> line_number e = 1"
  "snd (project_logical_record (te_inventory sample_tail_env) InventoryAdaptor (complete_record (''[a'' @ [CHR 0x0A] @ ''b''))
     :: tail_entry list \<times> nat) = 1"
  "snd (project_logical_record (te_inventory sample_tail_env) InventoryAdaptor (complete_record ''[c'') :: tail_entry list \<times> nat) = 1"
  by (simp_all add: record_rows_def project_logical_record_def record_lines_def complete_record_def newline_count_def
      sat_add32_def u32_max_def parse_header_sample parse_adaptor_def inventory_log_entry_def push_last_def sample_time Let_def)


end
