(* ===== verification/TailErrors.thy ===== *)
theory TailErrors
  imports TailInventory
begin

text \<open>
  Reads of the tail reader that fail: what the reader keeps for the next attempt, and what a failure
  costs when the debounce of a Company Portal record ran in the same poll.
\<close>

lemma note_generation_reset:
  "tr_reset (note_generation f r) = None \<Longrightarrow> note_generation f r = r"
  unfolding note_generation_def by (simp split: if_split_asm)

lemma note_generation_again:
  "ol_identity g = ol_identity f \<Longrightarrow> ol_size g = ol_size f \<Longrightarrow> note_generation g (note_generation f r) = note_generation g r"
  by (simp add: note_generation_def)

lemma debounce_note [simp]: "company_portal_debounce_elapsed now (note_generation f r) = company_portal_debounce_elapsed now r"
  by (simp add: note_generation_def company_portal_debounce_elapsed_def)

lemma failed_read_state:
  assumes "read_new_entries env now opened r = Some (Inl e, r')"
  obtains "opened = None" "r' = r"
  | f where "opened = Some f" "tr_reset (note_generation f r) = None" "company_portal_debounce_elapsed now r"
      "\<exists>b. flush_pending_logical_record env now (note_generation f r) = Some (b, r')"
  | f where "opened = Some f" "tr_reset (note_generation f r) \<noteq> None \<or> \<not> company_portal_debounce_elapsed now r"
      "r' = note_generation f r"
proof (cases opened)
  case None
  then show thesis using assms that(1) by (simp add: read_new_entries_def)
next
  case (Some f)
  then show thesis
    using assms that(2,3) [of f]
    by (auto simp: read_new_entries_def Let_def split: if_splits option.splits sum.splits prod.splits Option.bind_splits)
qed

text \<open>C30. A failed read costs nothing. Whatever fails (opening the path, reading it, or decoding what was
  read), unless the debounce of a Company Portal record has run out at that moment, the next read of the
  same generation gives the result, and leaves the reader in the state, it would have without the attempt:
  no byte is skipped or read twice and no pending line, character or reset is forgotten.\<close>

theorem failed_read_costs_nothing:
  assumes "read_new_entries env now opened r = Some (Inl e, r')" "opened \<in> {None, Some f}"
    "\<not> company_portal_debounce_elapsed now r" "ol_identity g = ol_identity f" "ol_size g = ol_size f"
  shows "read_new_entries env later (Some g) r' = read_new_entries env later (Some g) r"
  using assms(1)
proof (rule failed_read_state)
  fix f' assume "opened = Some f'" "r' = note_generation f' r"
  then have "note_generation g r' = note_generation g r"
    using note_generation_again [OF assms(4,5)] assms(2) by auto
  then show ?thesis unfolding read_new_entries_def option.case by (rule arg_cong)
qed (use assms(3) in auto)

text \<open>C40. A record flushed by the debounce is lost when its poll fails. Where nothing was replaced or cut
  and the debounce of what is pending has run out, a read that fails has already flushed the pending
  Company Portal record out of the reader, so the watcher, which hands out nothing on an error, never
  hands out the entries of that flush.\<close>

theorem flushed_record_lost:
  assumes "read_new_entries env now (Some f) r = Some (Inl e, r')" "company_portal_debounce_elapsed now r"
    "tr_reset (note_generation f r) = None"
  shows "\<exists>b. flush_pending_logical_record env now r = Some (b, r') \<and> watched_read env False now (Some f) r = Some ([], r')"
  using assms(1)
proof (rule failed_read_state)
qed (use assms note_generation_reset [OF assms(3)] in \<open>auto simp: watched_read_def\<close>)

subsection \<open>Samples\<close>

definition sample_unreadable :: "nat opened_log" where
  "sample_unreadable = (log_at (Some 1) [CHR ''a'', CHR 0x0A, CHR ''b''])\<lparr>ol_read := (\<lambda>_ _. None)\<rparr>"

theorem failed_read_costs_nothing_witness:
  "\<exists>r' :: nat tail_reader. read_new_entries sample_tail_env 5 (Some sample_unreadable)
        (opened_reader sample_tail_env ''log'' (Some 1) [CHR ''a'', CHR 0x0A] 0) = Some (Inl ReadFailed, r')
    \<and> read_new_entries sample_tail_env 6 (Some (log_at (Some 1) [CHR ''a'', CHR 0x0A, CHR ''b''])) r'
      = read_new_entries sample_tail_env 6 (Some (log_at (Some 1) [CHR ''a'', CHR 0x0A, CHR ''b'']))
          (opened_reader sample_tail_env ''log'' (Some 1) [CHR ''a'', CHR 0x0A] 0)"
proof -
  let ?r = "opened_reader sample_tail_env ''log'' (Some 1) [CHR ''a'', CHR 0x0A] 0 :: nat tail_reader"
  have d: "\<not> company_portal_debounce_elapsed 5 ?r"
    by (simp add: company_portal_debounce_elapsed_def opened_reader_def new_tail_reader_def)
  moreover have "read_new_entries sample_tail_env 5 (Some sample_unreadable) ?r = Some (Inl ReadFailed, ?r)"
    using d by (simp add: read_new_entries_def note_generation_def sample_unreadable_def log_at_def identities_differ_def
        pending_parser_selection_changed_def opened_reader_def new_tail_reader_def)
  ultimately show ?thesis
    using failed_read_costs_nothing [of sample_tail_env 5 "Some sample_unreadable" ?r ReadFailed ?r sample_unreadable
        "log_at (Some 1) [CHR ''a'', CHR 0x0A, CHR ''b'']" 6]
    by (auto simp: sample_unreadable_def log_at_def)
qed

definition sample_portal_env :: "int tail_env" where
  "sample_portal_env = sample_tail_env\<lparr>te_grammar := (\<lambda>lines _ _. (List.map (\<lambda>l. orphan_record l 1) lines, 0))\<rparr>"

definition sample_portal_reader :: "nat tail_reader" where
  "sample_portal_reader =
     (new_tail_reader ''log'' 5 company_portal_parser 1 3 None [] 0)
       \<lparr>tr_pending := Some \<lparr>pl_content = ''x'', pl_updated = 0, pl_selection = company_portal_parser\<rparr>\<rparr>"

definition sample_undecodable :: "nat opened_log" where
  "sample_undecodable = \<lparr>ol_identity = Some 1, ol_size = 6, ol_read = (\<lambda>_ _. Some [CHR 0xFF])\<rparr>"

lemma sample_lines: "str_lines ''x'' = [''x'']"
  by (simp add: str_lines_def strip_newline_def)

lemma portal: "rp_implementation company_portal_parser = ImplCompanyPortal" "rp_specialization company_portal_parser = None"
  by (simp_all add: company_portal_parser_def)

theorem flushed_record_lost_witness:
  "\<exists>b r'. flush_pending_logical_record sample_portal_env debounce_nanos sample_portal_reader = Some (b, r')
    \<and> List.map message (tb_entries b) = [''x'']
    \<and> watched_read sample_portal_env False debounce_nanos (Some sample_undecodable) sample_portal_reader = Some ([], r')"
proof -
  let ?r = sample_portal_reader and ?env = sample_portal_env
  have p: "company_portal_logical_framing company_portal_parser" by (simp add: company_portal_logical_framing_def company_portal_parser_def)
  have c: "company_portal_debounce_elapsed debounce_nanos ?r"
    using p by (simp add: company_portal_debounce_elapsed_def sample_portal_reader_def new_tail_reader_def debounce_nanos_def)
  obtain b r' where f: "flush_pending_logical_record ?env debounce_nanos ?r = Some (b, r')" "List.map message (tb_entries b) = [''x'']"
      "tr_offset r' = 5" "tr_encoding r' = FileUtf8" "tr_utf8 r' = []"
    by (auto simp: flush_pending_logical_record_def sample_portal_reader_def new_tail_reader_def flush_initial_def p
        parse_company_portal_records_def complete_record_def parse_content_with_selection_def sample_lines
        parse_lines_with_selection_def portal device_inventory_dialect_def sample_portal_env_def
        annotate_error_code_spans_def sample_tail_env_def assign_entry_identity_def orphan_record_def
        inventory_log_entry_def detect_encoding_def bom_of_def batch_append_def empty_batch_def Let_def)
  have u: "from_utf8 [CHR 0xFF] = None" by code_simp
  have n: "note_generation sample_undecodable ?r = ?r"
    by (simp add: note_generation_def sample_undecodable_def sample_portal_reader_def new_tail_reader_def identities_differ_def)
  have "read_new_entries ?env debounce_nanos (Some sample_undecodable) ?r = Some (Inl InvalidUtf8, r')"
    using f(1,3-5) c n u
    by (simp add: read_new_entries_def sample_undecodable_def sample_portal_reader_def new_tail_reader_def
        pending_parser_selection_changed_def decode_tail_bytes_def)
  moreover have "tr_reset (note_generation sample_undecodable ?r) = None"
    unfolding n by (simp add: sample_portal_reader_def new_tail_reader_def)
  ultimately have "watched_read ?env False debounce_nanos (Some sample_undecodable) ?r = Some ([], r')"
    using flushed_record_lost [OF _ c] f(1) by fastforce
  then show ?thesis using f(1,2) by (intro exI conjI)
qed

end
