(* ===== verification/TailReset.thy ===== *)
theory TailReset
  imports TailErrors
begin

text \<open>
  A log that was replaced under its path: the next read that succeeds is the first read of a reader opened
  on the new log, whatever the old one had left behind.
\<close>

definition as_reset :: "tail_batch \<Rightarrow> tail_batch" where
  "as_reset b = b\<lparr>tb_reset := True\<rparr>"

lemma append_as_reset [simp]: "batch_append (as_reset b) c = as_reset (batch_append b c)"
  by (simp add: batch_append_def as_reset_def)

definition reset_result :: "(tail_batch \<times> 'r) option \<Rightarrow> (tail_batch \<times> 'r) option" where
  "reset_result = map_option (\<lambda>(b, r). (as_reset b, r))"

lemma reset_result_cases:
  "reset_result (Some (b, r)) = Some (as_reset b, r)"
  "reset_result (if c then x else y) = (if c then reset_result x else reset_result y)"
  "reset_result (Option.bind m h) = Option.bind m (\<lambda>z. reset_result (h z))"
  "reset_result (case m of None \<Rightarrow> x | Some z \<Rightarrow> h z) = (case m of None \<Rightarrow> reset_result x | Some z \<Rightarrow> reset_result (h z))"
  "reset_result (case p of (u, v) \<Rightarrow> k u v) = (case p of (u, v) \<Rightarrow> reset_result (k u v))"
  "reset_result (Let z h) = Let z (\<lambda>z. reset_result (h z))"
  by (auto simp: reset_result_def split: option.splits prod.splits Option.bind_splits)

lemma read_lines_as_reset: "read_lines env n s lines (as_reset b) r = reset_result (read_lines env n s lines b r)"
  by (simp add: read_lines_def reset_result_cases cong: if_cong option.case_cong)

text \<open>\<open>read_company_portal_lines\<close> after the lines that continue the initial record.\<close>

definition portal_rest ::
    "'n tail_env \<Rightarrow> nat \<Rightarrow> nat \<Rightarrow> string list \<Rightarrow> resolved_parser \<Rightarrow> tail_batch \<Rightarrow> string list option \<Rightarrow> 'id tail_reader
     \<Rightarrow> (tail_batch \<times> 'id tail_reader) option" where
  "portal_rest env now n lines sel batch remaining r =
     (case remaining of
        None \<Rightarrow>
          (let (b, r) = enforce_initial_fragment_bound env now r in Some (batch_append batch b, r\<lparr>tr_offset := n\<rparr>))
      | Some remaining \<Rightarrow>
          do { (batch, r) \<leftarrow>
                 (if lines = [] then Some (batch, r)
                  else
                    (let f = frame_company_portal_logical_records (map_option pl_content (tr_pending r)) remaining
                               max_pending_logical_record_bytes;
                         r = r\<lparr>tr_pending := map_option (\<lambda>s. \<lparr>pl_content = s, pl_updated = now, pl_selection = sel\<rparr>)
                                             (pf_pending f)\<rparr> in
                     do { (b, r) \<leftarrow> parse_company_portal_records env (pf_completed f) sel (pf_overflow f) r;
                          Some (batch_append batch b, r) }));
               (if tr_initial r \<noteq> None
                then (let (b, r) = enforce_initial_fragment_bound env now r in
                      Some (batch_append batch b, r\<lparr>tr_offset := n\<rparr>))
                else
                  do { (b, r) \<leftarrow> enforce_unterminated_logical_bound env sel now r;
                       Some (batch_append batch b, r\<lparr>tr_offset := n\<rparr>) }) })"

lemma portal_rest_as_reset:
  "portal_rest env now n lines sel (as_reset b) remaining r = reset_result (portal_rest env now n lines sel b remaining r)"
proof (cases remaining)
  case (Some rest)
  then show ?thesis
  proof (cases "lines = []")
    case True
    then show ?thesis using Some
      by (simp add: portal_rest_def reset_result_cases)
  next
    case False
    then show ?thesis using Some
      by (simp add: portal_rest_def reset_result_cases Let_def case_prod_unfold cong del: if_weak_cong)
  qed
qed (simp add: portal_rest_def reset_result_cases)

lemma portal_body:
  "(let (batch, remaining, r) =
         (if c then (b, x, r)
          else (case m of None \<Rightarrow> (b, x, r)
                | Some ((d, first), r) \<Rightarrow> (batch_append b d, map_option (\<lambda>n. drop n lines) first, r))) in
      k batch remaining r) =
   (if c then k b x r
    else (case m of None \<Rightarrow> k b x r
          | Some ((d, first), r) \<Rightarrow> k (batch_append b d) (map_option (\<lambda>n. drop n lines) first) r))"
  by (auto split: option.splits prod.splits)

lemma portal_lines:
  "read_company_portal_lines env now n x lines b r =
     (let sel = tr_selection r;
          r = (if tr_fragment r \<noteq> [] then r\<lparr>tr_fragment_selection := Some (sel, now)\<rparr> else r);
          r = (if x then r\<lparr>tr_pending := map_option (\<lambda>p. p\<lparr>pl_updated := now\<rparr>) (tr_pending r)\<rparr> else r) in
      if lines = [] then portal_rest env now n lines sel b (Some lines) r
      else
        (case consume_initial_company_portal_lines env lines now r of
           None \<Rightarrow> portal_rest env now n lines sel b (Some lines) r
         | Some ((c, first), r) \<Rightarrow>
             portal_rest env now n lines sel (batch_append b c) (map_option (\<lambda>n. drop n lines) first) r))"
  unfolding read_company_portal_lines_def portal_rest_def portal_body ..

lemma read_portal_as_reset:
  "read_company_portal_lines env now n x lines (as_reset b) r = reset_result (read_company_portal_lines env now n x lines b r)"
  unfolding portal_lines reset_result_cases portal_rest_as_reset append_as_reset ..

lemma read_text_as_reset: "read_text env now n s (as_reset b) r = reset_result (read_text env now n s b r)"
proof (cases "inventory_logical_dialect (tr_selection r)")
  case None
  then show ?thesis
    by (simp only: read_text_def option.case reset_result_cases read_lines_as_reset read_portal_as_reset)
next
  case (Some d)
  then show ?thesis
    by (simp add: read_text_def reset_result_cases split_beta)
qed

definition fresh_reader :: "'id opened_log \<Rightarrow> nat \<Rightarrow> 'id tail_reader \<Rightarrow> 'id tail_reader" where
  "fresh_reader f t0 r =
     (new_tail_reader (tr_path r) 0 (tr_selection r) (tr_next_id r) 1 None [] t0)\<lparr>tr_identity := ol_identity f\<rparr>"

lemma fresh_simps [simp]:
  "tr_path (fresh_reader f t0 r) = tr_path r" "tr_offset (fresh_reader f t0 r) = 0"
  "tr_identity (fresh_reader f t0 r) = ol_identity f" "tr_reset (fresh_reader f t0 r) = None"
  "tr_selection (fresh_reader f t0 r) = tr_selection r" "tr_byte (fresh_reader f t0 r) = None"
  "tr_utf8 (fresh_reader f t0 r) = []" "tr_utf8_selection (fresh_reader f t0 r) = None"
  "\<not> pending_parser_selection_changed (fresh_reader f t0 r)" "\<not> company_portal_debounce_elapsed now (fresh_reader f t0 r)"
  by (simp_all add: fresh_reader_def new_tail_reader_def pending_parser_selection_changed_def company_portal_debounce_elapsed_def)

lemma fresh_note [simp]: "note_generation f (fresh_reader f t0 r) = fresh_reader f t0 r"
  by (simp add: note_generation_def identities_differ_def split: option.split)

lemma decode_fresh: "decode_tail_bytes env buffer e True r = decode_tail_bytes env buffer e False (fresh_reader f t0 r)"
  by (cases "tr_byte r") (simp_all add: decode_tail_bytes_def Let_def cong: option.case_cong if_cong)

lemma reset_replaced:
  assumes "tr_reset r = Some Replaced"
  obtains r' where "apply_reset env now (empty_batch False) r = Some (as_reset (empty_batch False), r')"
    "install_decoded f 0 e dt r' = install_decoded f 0 e dt (fresh_reader f t0 r)"
  using assms by (simp add: apply_reset_def as_reset_def Let_def install_decoded_def fresh_reader_def new_tail_reader_def)

text \<open>C29. A replaced log is read as a new one. When the path leads to a log of another generation, the
  read gives what the first read of a reader opened on that log would give, with its rows marked as a
  reset, and leaves the reader in the same state, only the numbering of entries going on: no line,
  fragment, byte, continuation or line number of the old log survives. Where that first read would
  fail, the reader keeps everything and the reset stays due.\<close>

theorem replaced_log_read_as_new:
  assumes "tr_reset (note_generation f r) = Some Replaced" "0 < ol_size f"
  shows "read_new_entries env now (Some f) r =
    map_option (\<lambda>(result, s).
        case result of Inl e \<Rightarrow> (Inl e, note_generation f r) | Inr b \<Rightarrow> (Inr (b\<lparr>tb_reset := True\<rparr>), s))
      (read_new_entries env now (Some f) (fresh_reader f t0 r))"
proof (cases "ol_read f 0 (ol_size f)")
  case None
  then show ?thesis using assms by (simp add: read_new_entries_def Let_def)
next
  case (Some buffer)
  let ?r = "note_generation f r" and ?e = "detect_encoding buffer"
  have fr: "fresh_reader f t0 ?r = fresh_reader f t0 r"
    by (simp add: fresh_reader_def note_generation_def)
  note d = decode_fresh [of env buffer ?e ?r f t0, unfolded fr]
  show ?thesis
  proof (cases "decode_tail_bytes env buffer ?e False (fresh_reader f t0 r)")
    case (Inl e)
    then show ?thesis using assms Some d by (simp add: read_new_entries_def Let_def)
  next
    case (Inr dt)
    obtain r' where r': "apply_reset env now (empty_batch False) ?r = Some (as_reset (empty_batch False), r')"
        "install_decoded f 0 ?e dt r' = install_decoded f 0 ?e dt (fresh_reader f t0 r)"
      using reset_replaced [OF assms(1), of env now f ?e dt t0] unfolding fr by metis
    let ?t = "read_text env now (ol_size f) (dt_text dt) (empty_batch False) (install_decoded f 0 ?e dt (fresh_reader f t0 r))"
    have "read_new_entries env now (Some f) r = do { (b, s) \<leftarrow> reset_result ?t; Some (Inr b, s) }"
      using assms Some d Inr r' by (simp add: read_new_entries_def Let_def read_text_as_reset)
    moreover have "read_new_entries env now (Some f) (fresh_reader f t0 r) = do { (b, s) \<leftarrow> ?t; Some (Inr b, s) }"
      using assms(2) Some Inr by (simp add: read_new_entries_def Let_def)
    ultimately show ?thesis
      by (cases ?t) (auto simp: reset_result_def as_reset_def)
  qed
qed

subsection \<open>A sample\<close>

definition sample_replacement :: "nat opened_log" where
  "sample_replacement = log_at (Some 2) [CHR ''b'', CHR 0x0A]"

theorem replaced_log_read_as_new_witness:
  "\<exists>b s. read_new_entries sample_tail_env 3 (Some sample_replacement)
        ((opened_reader sample_tail_env ''log'' (Some 1) [CHR ''a'', CHR 0x0A] 0)\<lparr>tr_fragment := ''old''\<rparr>) = Some (Inr b, s)
    \<and> tb_reset b \<and> List.map message (tb_entries b) = [''b''] \<and> tr_next_line s = 2"
proof -
  let ?r = "(opened_reader sample_tail_env ''log'' (Some 1) [CHR ''a'', CHR 0x0A] 0)\<lparr>tr_fragment := ''old''\<rparr>"
  let ?f = "sample_replacement"
  have u: "from_utf8 [CHR ''b'', CHR 0x0A] = Some ([CHR ''b'', CHR 0x0A], [])" by (rule from_utf8_ascii) simp
  have n: "tr_reset (note_generation ?f ?r) = Some Replaced" "0 < ol_size ?f"
    by (simp_all add: note_generation_def sample_replacement_def log_at_def identities_differ_def opened_reader_def new_tail_reader_def)
  have trim: "str_trim ''b'' \<noteq> []" by code_simp
  let ?r0 = "fresh_reader ?f 0 ?r"
  let ?t = "[CHR ''b'', CHR 0x0A]"
  let ?dt = "\<lparr>dt_text = ?t, dt_byte = None, dt_utf8 = [], dt_utf8_selection = None\<rparr>"
  have e: "detect_encoding ?t = FileUtf8" by (simp add: detect_encoding_def bom_of_def)
  have d: "decode_tail_bytes sample_tail_env ?t FileUtf8 False ?r0 = Inr ?dt"
    using u by (simp add: decode_tail_bytes_def strip_bom_def bom_of_def)
  have i: "install_decoded ?f 0 FileUtf8 ?dt ?r0 =
      (new_tail_reader ''log'' 0 plain_text_parser (tr_next_id ?r) 1 None [] 0)\<lparr>tr_identity := Some 2\<rparr>"
    by (simp add: install_decoded_def fresh_reader_def new_tail_reader_def opened_reader_def sample_replacement_def log_at_def
        detect_encoding_def bom_of_def)
  have l: "ol_size ?f = 2" "ol_read ?f 0 2 = Some ?t" by (simp_all add: sample_replacement_def log_at_def)
  have s: "inventory_logical_dialect plain_text_parser = None" "\<not> company_portal_logical_framing plain_text_parser"
      "rp_framing plain_text_parser = PhysicalLine" "rp_implementation plain_text_parser = ImplPlainText"
      "rp_specialization plain_text_parser = None"
    by (simp_all add: inventory_logical_dialect_def company_portal_logical_framing_def plain_text_parser_def)
  have c: "collect_complete_lines ?t [] = ([''b''], [])"
    by (simp add: collect_complete_lines_def str_lines_def strip_newline_def)
  have p: "parse_lines_with_selection sample_tail_env [''b''] ''log'' plain_text_parser = Some ([plain_line_entry 0 1 ''log'' ''b''], 0)"
    using trim by (simp add: parse_lines_with_selection_def s plain_parse_lines_def annotate_error_code_spans_def sample_time)
  have "read_new_entries sample_tail_env 3 (Some ?f) ?r0 =
      do { (b, s) \<leftarrow> read_text sample_tail_env 3 2 ?t (empty_batch False) (install_decoded ?f 0 FileUtf8 ?dt ?r0); Some (Inr b, s) }"
    using d l e by (simp add: read_new_entries_def Let_def)
  moreover have "\<exists>b s. read_text sample_tail_env 3 2 ?t (empty_batch False) (install_decoded ?f 0 FileUtf8 ?dt ?r0) = Some (b, s)
      \<and> List.map message (tb_entries b) = [''b''] \<and> tr_next_line s = 2"
    unfolding i by (simp add: read_text_def s new_tail_reader_def c read_lines_def p assign_entry_identity_def batch_append_def
        empty_batch_def plain_line_entry_def u32_max_def sat_add_u32_def sat_add32_def)
  ultimately have "\<exists>b s. read_new_entries sample_tail_env 3 (Some ?f) ?r0 = Some (Inr b, s)
      \<and> List.map message (tb_entries b) = [''b''] \<and> tr_next_line s = 2"
    by auto
  then show ?thesis
    using replaced_log_read_as_new [OF n, of sample_tail_env 3 0] by auto
qed

end
