(* ===== verification/Spec2Isabelle.thy ===== *)
theory Spec2Isabelle
  imports EventQueryRead EventMapApply TimelineMerge CorrelationGaps FirewallProps Dns TextSeverity
    ImeWritten ImeNumbers CcmWritten FirewallWatch TimelineSamples TailReset
begin

text \<open>
  A model of the core of CMTrace Open: the logic of the Rust crate \<open>crates/cmtraceopen-parser\<close> that
  decides what a user sees, with the theorems that make it correct. The desktop application around it
  (\<open>src-tauri\<close>, the front end) feeds these modules with text and events and shows their results.

  \<^bold>\<open>The program and its parts\<close>

  Logs, events and records come in from files and from the Windows Event Log service. The crate
  compiles a filter into the query the service runs (\<open>event_query\<close>), renders the events that come back
  through user-written maps (\<open>eventmap\<close>), turns text into rows (the parsers; here the Windows Firewall
  stream, CMTrace and IME log records, and the DNS and severity helpers they share), and merges rows of different sources into one
  timeline whose items are correlated by identity (\<open>unified_timeline\<close>).

  \<^bold>\<open>Theories\<close>

    \<^item> \<open>Prelude\<close>: widths, results, saturating addition, ASCII case, decimal printing, the collections of
      facts the other theories share. \<open>RustStr\<close>: the operations of \<open>str\<close> the code uses, on UTF-8 byte
      lists (search, splitting, Unicode trimming, integer parsing, character boundaries).
    \<^item> \<open>KeyedStore\<close>: the contract of a map as a locale, with what follows for a sequence of insertions;
      it is interpreted on the registry of event maps (\<open>EventMapApply\<close>) and on \<open>BTreeMap\<close> (\<open>OrdMap\<close>,
      strictly ascending association lists).
    \<^item> \<open>EventQuery\<close>, \<open>EventQuerySem\<close>, \<open>EventQueryRead\<close>: \<open>event_query/mod.rs\<close>. The builder function by
      function; the query language as data with a printer of its own and a matcher; and a reader that
      evaluates the finished string on an event (XML layer, precedence, comparisons, literals), with the
      proof that what \<open>build_query\<close> emits reads back as the filter, within the cost budget of the service.
    \<^item> \<open>EventMap\<close>, \<open>EventMapPath\<close>, \<open>EventMapApply\<close>: \<open>eventmap/{node,path,model,apply,mod}.rs\<close>. Paths into
      event trees (parser, printer, evaluation against an XPath reading), templates and bindings
      (single-pass rendering, the result of a map against a reference), and the registry.
    \<^item> \<open>TimelineModel\<close>, \<open>TimelineOrder\<close>, \<open>TimelineMerge\<close>: the first half of \<open>unified_timeline/mod.rs\<close>.
      Origins and their provenance keys; the comparator is the order of the printed keys (by codes that
      carry their order, the locale \<open>order_code\<close>); merging is stable, deterministic and independent of
      the order of the sources.
    \<^item> \<open>Correlation\<close>, \<open>CorrelationSound\<close>, \<open>CorrelationOrder\<close>, \<open>CorrelationGaps\<close>: the second half of that
      file and the process-start part of \<open>intune/enrollment/windows/esp/correlation.rs\<close>. Normalised
      identities, observations, the reducer with its budgets, edges and gaps; soundness and exclusivity
      of edges, budgets, independence of the input order, classification of every gap.
    \<^item> \<open>Firewall\<close>, \<open>FirewallStream\<close>, \<open>FirewallSim\<close>, \<open>FirewallProps\<close>: \<open>models/firewall.rs\<close>,
      \<open>parser/windows_firewall.rs\<close> and \<open>parser/firewall_stream.rs\<close>. Records and directives, the stream as
      a state record with one function per method, the simulation between a stream with provisional rows
      and one without, the invariant of reachable streams, lossless records, and the probe.
    \<^item> \<open>TextScan\<close>, \<open>Utf8Cuts\<close>: slices, substring search and lines of a text, and where UTF-8 may be cut.
      \<open>ImeFields\<close>, \<open>ImeFrames\<close>: \<open>parser/ccm/logical.rs\<close> with the helpers of \<open>parser/ccm.rs\<close> it calls.
      Attributes and timestamps; record boundaries, the scan that turns a content into records and
      fragments, the fallback lines, and the prefix an incremental read publishes. \<open>ImeProps\<close>, \<open>ImeRecords\<close>:
      the framing as data (\<open>frame\<close>) and the scan as its rows up to a bound. \<open>ImeSpec\<close>, \<open>ImePublish\<close>,
      \<open>ImeWritten\<close>, \<open>ImeNumbers\<close>, with the inputs of \<open>ImeSamples\<close>: the parse returns, loses nothing, is bounded
      by a prefix and when it is not, written logs read back, and what the integers make of large values.
    \<^item> \<open>CcmRecords\<close>, \<open>CcmGrammar\<close>: \<open>parser/ccm.rs\<close>. The record expression as a scanner, with the texts it
      accepts; the fields of a match, the content scan in its two modes with an optional bound, and the
      line-by-line fallback. \<open>CcmScan\<close>, \<open>CcmSpec\<close>, \<open>CcmWritten\<close>: the scan as numbered rows of the pieces of a
      content, what evidence is promoted and what a bounded scan may claim, and written logs read back.
    \<^item> \<open>FirewallSource\<close>, \<open>FirewallDecode\<close>: \<open>src-tauri/src/parser/firewall_source.rs\<close>. The decoder of a firewall
      log's bytes and the snapshot of a file; chunks do not show. \<open>FirewallSlices\<close>, \<open>FirewallLines\<close>,
      \<open>FirewallReread\<close>, \<open>FirewallIndex\<close>: decoding a slice between two character ends, one physical line in the
      decoder and in the stream, the invariant of a snapshot line by line, and the index built from it, through
      which the timeline reads the same rows back.
    \<^item> \<open>FirewallTail\<close>: \<open>src-tauri/src/watcher/firewall.rs\<close>, \<open>fs_identity.rs\<close> and the tail control of
      \<open>commands/parsing.rs\<close>. The owner of a continuation, its control tokens, reads and commits. \<open>FirewallFence\<close>:
      the steps of a system of watchers, and that they commit what one reader would. \<open>FirewallFollow\<close>,
      \<open>FirewallWatch\<close>: one reader of a growing file, and the rows the tail shows.
    \<^item> \<open>Incidents\<close>, \<open>IncidentSpec\<close>, \<open>TimelineFirewall\<close>, with \<open>Floats\<close> for the arithmetic of scores: the backend
      timeline, \<open>src-tauri/src/timeline/{models,correlation,incidents,firewall}.rs\<close>. Signals, clusters and
      incidents, new tunables, and reading the rows of a firewall source back from its file.
      \<open>TimelineQuery\<close>: \<open>timeline/{store,query}.rs\<close>. \<open>TimelineViews\<close>, \<open>TimelineLanes\<close>, \<open>IncidentDetails\<close>, with the inputs
      of \<open>TimelineSamples\<close>: pages of one sorted view, lanes against integer arithmetic, and the signals behind an
      incident.
    \<^item> \<open>Inventory\<close>, \<open>InventoryFrames\<close>: \<open>intune/device/windows/inventory/mod.rs\<close>. Device Inventory logs: framing of
      lines into bounded records, projection into entries, detection of the dialect; framing keeps every line.
    \<^item> \<open>TailModel\<close>, \<open>TailReader\<close>, \<open>TailRead\<close>: \<open>src-tauri/src/watcher/tail.rs\<close> with what it calls of
      \<open>parser/mod.rs\<close> and \<open>parser/plain.rs\<close>. Selections, encodings and lines; the state of the reader and the
      Device Inventory half of its operations; the Company Portal half, one read, and the turns of a watcher.
      \<open>TailDecode\<close>, \<open>TailFollow\<close>: UTF-8 read in pieces, and the locale \<open>followed_log\<close> of a grammar whose rows a
      read extends, with what follows for a watcher of a growing log. It is interpreted on plain text (\<open>TailPlain\<close>)
      and on Device Inventory logs (\<open>InventoryRows\<close>, \<open>TailInventory\<close>): tailing shows what opening shows.
      \<open>TailErrors\<close>, \<open>TailReset\<close>: reads that fail, and a log replaced under its path.
    \<^item> \<open>Dns\<close>, \<open>TextSeverity\<close>: \<open>parser/dns_types.rs\<close> and \<open>parser/severity.rs\<close>.

  \<^bold>\<open>Correspondence\<close>

  A struct is a record, an enum a datatype, a method a function of its state that returns the new state.
  \<open>Result\<close> is a sum with the error on the left, an early return a branch. A string is the list of its
  UTF-8 bytes; where the code walks characters, of the bytes of each character. Ordered maps and sets are
  ascending lists, hash sets are the lists of what was inserted. Fixed-width integers are words where they
  are compared or printed and can wrap; counters are natural numbers with the saturation written out;
  \<open>usize\<close> is 64 bits wide. Names are those of the source, shortened where it qualifies them.

  \<^bold>\<open>Termination and bounds\<close>

  A loop is a structural recursion or a \<open>function\<close> with a measure on what is left to read. Two loops have
  fuel: \<open>append_rounds\<close> of the Device Inventory framing, twice the length of the text since a round consumes
  text or empties a full record (\<open>append_rounds_ok\<close> shows that it is enough), and \<open>cut_oversized\<close>, the length of
  the record since a round cuts it. The two loops of the IME parser that cut oversized text (\<open>push_pieces\<close>, \<open>flush_tail\<close>) advance only
  on UTF-8 and are partial functions; the theorems say that they return (\<open>parse_ime_entries_returns\<close>,
  \<open>publish_holds_back_less\<close>). The bounds that occur are the program's own (20 expressions per query node, 64 KiB lines,
  128 probed lines, 8 samples, 1 MiB records, the correlation
  budgets).

  \<^bold>\<open>Parameters\<close>

  The chrono crate (which dates exist, the instant a text denotes, printing an instant), the local time
  zone, the one regular expression of the IME fallback format, the standard library's address parser, the
  Windows-1252 table of \<open>encoding_rs\<close>, the file system (constant during a request), the line parsers of the
  other formats behind \<open>parse_one_line\<close> and \<open>parse_lines_with_selection\<close>, the header regexes of Device Inventory
  logs, the UTF-16 decoder of \<open>encoding_rs\<close>, the error-code search and derived \<open>Debug\<close> printing are arguments of the definitions that call
  them. Nothing is assumed of them except where a theorem says so.

  \<^bold>\<open>Not modelled\<close>

  The other regular-expression grammars, file and registry access, event log and Graph clients, threads, the
  notification service, serde representations, and the front end. Error-code lookup, the
  timeline builder and the remaining line grammars are the next parts to add.
\<close>

end
